(* ===== verification/TB_Breaker.thy ===== *)
theory TB_Breaker
  imports TB_Prelude
begin

text \<open>
  The circuit breaker of \<^verbatim>\<open>internal/loadbalance/breaker.go\<close> and its registry, keyed by
  (rule, service) through \<^verbatim>\<open>internal/loadbalance/service_id.go\<close>.  \<^verbatim>\<open>clock.Now()\<close> is the
  argument \<open>now\<close> of every operation; the mutexes make each operation atomic, so an
  operation is one state-passing function.  The lemmas show that the breaker refines an
  abstract circuit with one constructor per phase, that a half-open breaker lets one
  probe through at a time, when it trips and recovers, and that breakers of different
  rules never influence each other.  The locale \<open>breaker_registry\<close> is what service
  selection relies on.
\<close>

section \<open>The breaker\<close>

datatype BreakerState = BreakerClosed | BreakerOpen | BreakerHalfOpen

definition DefaultBreakerFailureThreshold :: int where
  "DefaultBreakerFailureThreshold = 3"

definition DefaultBreakerOpenDuration :: duration where
  "DefaultBreakerOpenDuration = 30 * Second"

definition DefaultBreakerRecoveryThreshold :: int where
  "DefaultBreakerRecoveryThreshold = 3"

definition DefaultPromotionHold :: duration where
  "DefaultPromotionHold = 60 * Second"

lemmas breaker_defaults =
  DefaultBreakerFailureThreshold_def DefaultBreakerOpenDuration_def
  DefaultBreakerRecoveryThreshold_def DefaultPromotionHold_def Second_def

record Breaker =
  br_state :: BreakerState
  consecFails :: int
  openedAt :: time
  halfOpenInFlight :: bool
  halfOpenClaimedAt :: time
  halfOpenSuccess :: int
  closedSince :: time
  FailureThreshold :: int
  OpenDuration :: duration
  RecoveryThreshold :: int

definition NewBreaker :: "int \<Rightarrow> duration \<Rightarrow> Breaker" where
  "NewBreaker failureThreshold openDuration =
     (let f = (if failureThreshold \<le> 0 then DefaultBreakerFailureThreshold else failureThreshold);
          d = (if openDuration \<le> 0 then DefaultBreakerOpenDuration else openDuration)
      in \<lparr> br_state = BreakerClosed, consecFails = 0, openedAt = zeroTime,
           halfOpenInFlight = False, halfOpenClaimedAt = zeroTime, halfOpenSuccess = 0,
           closedSince = zeroTime, FailureThreshold = f, OpenDuration = d,
           RecoveryThreshold = DefaultBreakerRecoveryThreshold \<rparr>)"

definition claimProbeLocked :: "time \<Rightarrow> Breaker \<Rightarrow> Breaker" where
  "claimProbeLocked now b = b\<lparr>halfOpenInFlight := True, halfOpenClaimedAt := now\<rparr>"

definition Breaker_Allow :: "time \<Rightarrow> Breaker \<Rightarrow> bool \<times> Breaker" where
  "Breaker_Allow now b =
     (case br_state b of
        BreakerClosed \<Rightarrow> (True, b)
      | BreakerOpen \<Rightarrow>
          (if now - openedAt b \<ge> OpenDuration b
           then (True, (claimProbeLocked now (b\<lparr>br_state := BreakerHalfOpen\<rparr>))\<lparr>halfOpenSuccess := 0\<rparr>)
           else (False, b))
      | BreakerHalfOpen \<Rightarrow>
          (if halfOpenInFlight b \<and> now - halfOpenClaimedAt b < OpenDuration b
           then (False, b)
           else (True, claimProbeLocked now b)))"

definition recoveryThreshold :: "Breaker \<Rightarrow> int" where
  "recoveryThreshold b =
     (if RecoveryThreshold b \<le> 0 then DefaultBreakerRecoveryThreshold else RecoveryThreshold b)"

definition Breaker_RecordSuccess :: "time \<Rightarrow> Breaker \<Rightarrow> Breaker" where
  "Breaker_RecordSuccess now b =
     (if br_state b = BreakerHalfOpen then
        (let b1 = b\<lparr>halfOpenSuccess := halfOpenSuccess b + 1, halfOpenInFlight := False\<rparr>
         in if halfOpenSuccess b1 \<ge> recoveryThreshold b1
            then b1\<lparr>br_state := BreakerClosed, consecFails := 0, halfOpenSuccess := 0,
                    closedSince := now\<rparr>
            else b1)
      else b\<lparr>consecFails := 0\<rparr>)"

definition openLocked :: "time \<Rightarrow> Breaker \<Rightarrow> Breaker" where
  "openLocked now b =
     b\<lparr>br_state := BreakerOpen, openedAt := now, halfOpenSuccess := 0, closedSince := zeroTime\<rparr>"

definition Breaker_RecordFailure :: "time \<Rightarrow> Breaker \<Rightarrow> Breaker" where
  "Breaker_RecordFailure now b =
     (if br_state b = BreakerHalfOpen then (openLocked now b)\<lparr>halfOpenInFlight := False\<rparr>
      else
        (let b1 = b\<lparr>consecFails := consecFails b + 1\<rparr>
         in if br_state b1 = BreakerClosed \<and> consecFails b1 \<ge> FailureThreshold b1
            then openLocked now b1 else b1))"

definition Breaker_ClosedSince :: "Breaker \<Rightarrow> time" where
  "Breaker_ClosedSince b = closedSince b"

definition Breaker_RetryIn :: "time \<Rightarrow> Breaker \<Rightarrow> duration" where
  "Breaker_RetryIn now b =
     (if br_state b \<noteq> BreakerOpen then 0
      else let remaining = OpenDuration b - (now - openedAt b)
           in if remaining < 0 then 0 else remaining)"

definition Breaker_State :: "time \<Rightarrow> Breaker \<Rightarrow> BreakerState" where
  "Breaker_State now b =
     (if br_state b = BreakerOpen \<and> now - openedAt b \<ge> OpenDuration b then BreakerHalfOpen
      else br_state b)"

fun BreakerState_String :: "BreakerState \<Rightarrow> string" where
  "BreakerState_String BreakerClosed = ''closed''"
| "BreakerState_String BreakerOpen = ''open''"
| "BreakerState_String BreakerHalfOpen = ''half_open''"

lemmas breaker_op_defs =
  Breaker_Allow_def Breaker_RecordSuccess_def Breaker_RecordFailure_def
  claimProbeLocked_def openLocked_def recoveryThreshold_def Let_def

subsection \<open>Runs of a breaker\<close>

datatype breaker_event = EvAllow time | EvSuccess time | EvFailure time

fun event_time :: "breaker_event \<Rightarrow> time" where
  "event_time (EvAllow t) = t"
| "event_time (EvSuccess t) = t"
| "event_time (EvFailure t) = t"

fun breaker_step :: "breaker_event \<Rightarrow> Breaker \<Rightarrow> Breaker" where
  "breaker_step (EvAllow t) b = snd (Breaker_Allow t b)"
| "breaker_step (EvSuccess t) b = Breaker_RecordSuccess t b"
| "breaker_step (EvFailure t) b = Breaker_RecordFailure t b"

fun breaker_run :: "Breaker \<Rightarrow> breaker_event list \<Rightarrow> Breaker" where
  "breaker_run b [] = b"
| "breaker_run b (e # es) = breaker_run (breaker_step e b) es"

text \<open>The answers the \<open>Allow\<close> calls of a run give, in order.\<close>

fun breaker_answers :: "Breaker \<Rightarrow> breaker_event list \<Rightarrow> bool list" where
  "breaker_answers b [] = []"
| "breaker_answers b (EvAllow t # es) =
     fst (Breaker_Allow t b) # breaker_answers (snd (Breaker_Allow t b)) es"
| "breaker_answers b (e # es) = breaker_answers (breaker_step e b) es"

lemma breaker_run_append: "breaker_run b (es @ fs) = breaker_run (breaker_run b es) fs"
  by (induction es arbitrary: b) auto

text \<open>The thresholds are configuration: no operation changes them.\<close>

lemma breaker_step_config [frame, simp]:
  "FailureThreshold (breaker_step e b) = FailureThreshold b"
  "OpenDuration (breaker_step e b) = OpenDuration b"
  "RecoveryThreshold (breaker_step e b) = RecoveryThreshold b"
  by (cases e; cases "br_state b"; simp add: breaker_op_defs)+

lemma breaker_run_config [frame, simp]:
  "FailureThreshold (breaker_run b es) = FailureThreshold b"
  "OpenDuration (breaker_run b es) = OpenDuration b"
  "RecoveryThreshold (breaker_run b es) = RecoveryThreshold b"
  by (induction es arbitrary: b) auto

subsection \<open>The invariant\<close>

definition breaker_inv :: "Breaker \<Rightarrow> bool" where
  "breaker_inv b \<longleftrightarrow>
     0 < FailureThreshold b \<and> 0 < OpenDuration b \<and> 0 \<le> consecFails b \<and>
     (br_state b = BreakerClosed \<longrightarrow>
        consecFails b < FailureThreshold b \<and> \<not> halfOpenInFlight b \<and> halfOpenSuccess b = 0) \<and>
     (br_state b = BreakerOpen \<longrightarrow> \<not> halfOpenInFlight b \<and> halfOpenSuccess b = 0) \<and>
     (br_state b = BreakerHalfOpen \<longrightarrow>
        0 \<le> halfOpenSuccess b \<and> halfOpenSuccess b < recoveryThreshold b) \<and>
     (closedSince b \<noteq> zeroTime \<longrightarrow> br_state b = BreakerClosed)"

lemma NewBreaker_inv [keeps, simp, intro]: "breaker_inv (NewBreaker f d)"
  by (auto simp: breaker_inv_def NewBreaker_def breaker_defaults Let_def)

lemma recoveryThreshold_pos [simp]: "0 < recoveryThreshold b"
  by (simp add: recoveryThreshold_def breaker_defaults)

lemma Breaker_Allow_inv [keeps]: "breaker_inv b \<Longrightarrow> breaker_inv (snd (Breaker_Allow t b))"
  by (cases "br_state b")
     (auto simp: breaker_inv_def breaker_op_defs breaker_defaults split: if_splits)

lemma Breaker_RecordSuccess_inv [keeps]: "breaker_inv b \<Longrightarrow> breaker_inv (Breaker_RecordSuccess t b)"
  by (cases "br_state b")
     (auto simp: breaker_inv_def breaker_op_defs breaker_defaults split: if_splits)

lemma Breaker_RecordFailure_inv [keeps]: "breaker_inv b \<Longrightarrow> breaker_inv (Breaker_RecordFailure t b)"
  by (cases "br_state b")
     (auto simp: breaker_inv_def breaker_op_defs breaker_defaults split: if_splits)

lemma breaker_step_inv [keeps]: "breaker_inv b \<Longrightarrow> breaker_inv (breaker_step e b)"
  by (cases e) (simp_all add: keeps)

lemma breaker_run_inv [keeps]: "breaker_inv b \<Longrightarrow> breaker_inv (breaker_run b es)"
  by (induction es arbitrary: b) (simp_all add: breaker_step_inv)


section \<open>The circuit a breaker implements\<close>

text \<open>
  The promise of the component, without the fields that are stale in a phase: \<open>Shut\<close>
  counts consecutive failures, \<open>Tripped\<close> remembers when it opened, \<open>Probing\<close> holds the
  claim time of the outstanding probe, if any, and the successes of the current run.
\<close>

datatype circuit = Shut int | Tripped time | Probing "time option" int

fun circuit_allow :: "duration \<Rightarrow> time \<Rightarrow> circuit \<Rightarrow> bool \<times> circuit" where
  "circuit_allow d now (Shut k) = (True, Shut k)"
| "circuit_allow d now (Tripped t) =
     (if now - t < d then (False, Tripped t) else (True, Probing (Some now) 0))"
| "circuit_allow d now (Probing None k) = (True, Probing (Some now) k)"
| "circuit_allow d now (Probing (Some t) k) =
     (if now - t < d then (False, Probing (Some t) k) else (True, Probing (Some now) k))"

fun circuit_success :: "int \<Rightarrow> circuit \<Rightarrow> circuit" where
  "circuit_success n (Shut k) = Shut 0"
| "circuit_success n (Tripped t) = Tripped t"
| "circuit_success n (Probing p k) = (if k + 1 < n then Probing None (k + 1) else Shut 0)"

fun circuit_failure :: "int \<Rightarrow> time \<Rightarrow> circuit \<Rightarrow> circuit" where
  "circuit_failure f now (Shut k) = (if k + 1 < f then Shut (k + 1) else Tripped now)"
| "circuit_failure f now (Tripped t) = Tripped t"
| "circuit_failure f now (Probing p k) = Tripped now"

fun circuit_step :: "int \<Rightarrow> duration \<Rightarrow> int \<Rightarrow> breaker_event \<Rightarrow> circuit \<Rightarrow> circuit" where
  "circuit_step f d n (EvAllow t) c = snd (circuit_allow d t c)"
| "circuit_step f d n (EvSuccess t) c = circuit_success n c"
| "circuit_step f d n (EvFailure t) c = circuit_failure f t c"

fun circuit_answers :: "int \<Rightarrow> duration \<Rightarrow> int \<Rightarrow> circuit \<Rightarrow> breaker_event list \<Rightarrow> bool list" where
  "circuit_answers f d n c [] = []"
| "circuit_answers f d n c (EvAllow t # es) =
     fst (circuit_allow d t c) # circuit_answers f d n (snd (circuit_allow d t c)) es"
| "circuit_answers f d n c (e # es) = circuit_answers f d n (circuit_step f d n e c) es"

definition circuit_of :: "Breaker \<Rightarrow> circuit" where
  "circuit_of b =
     (case br_state b of
        BreakerClosed \<Rightarrow> Shut (consecFails b)
      | BreakerOpen \<Rightarrow> Tripped (openedAt b)
      | BreakerHalfOpen \<Rightarrow>
          Probing (if halfOpenInFlight b then Some (halfOpenClaimedAt b) else None) (halfOpenSuccess b))"

lemma circuit_of_allow:
  "circuit_of (snd (Breaker_Allow t b)) = snd (circuit_allow (OpenDuration b) t (circuit_of b))"
  "fst (Breaker_Allow t b) = fst (circuit_allow (OpenDuration b) t (circuit_of b))"
  by (cases "br_state b"; auto simp: circuit_of_def breaker_op_defs)+

lemma circuit_of_success:
  "circuit_of (Breaker_RecordSuccess t b) = circuit_success (recoveryThreshold b) (circuit_of b)"
  by (cases "br_state b") (auto simp: circuit_of_def breaker_op_defs breaker_defaults)

lemma circuit_of_failure:
  "circuit_of (Breaker_RecordFailure t b) = circuit_failure (FailureThreshold b) t (circuit_of b)"
  by (cases "br_state b") (auto simp: circuit_of_def breaker_op_defs)

lemma circuit_of_step:
  "circuit_of (breaker_step e b) =
     circuit_step (FailureThreshold b) (OpenDuration b) (recoveryThreshold b) e (circuit_of b)"
  by (cases e) (simp_all add: circuit_of_allow circuit_of_success circuit_of_failure)

lemma recoveryThreshold_step [simp]: "recoveryThreshold (breaker_step e b) = recoveryThreshold b"
  by (simp add: recoveryThreshold_def)

lemma breaker_Allow_config [simp]:
  "FailureThreshold (snd (Breaker_Allow t b)) = FailureThreshold b"
  "OpenDuration (snd (Breaker_Allow t b)) = OpenDuration b"
  "recoveryThreshold (snd (Breaker_Allow t b)) = recoveryThreshold b"
  using breaker_step_config [of "EvAllow t" b] recoveryThreshold_step [of "EvAllow t" b] by simp_all

text \<open>
  C4 (refinement): whatever sequence of calls reaches a breaker, every \<open>Allow\<close> answers as the
  abstract circuit with the breaker's thresholds does: the fields the code keeps beyond the
  phase's own data never influence an answer.
\<close>

theorem breaker_refines_circuit:
  "breaker_answers b es =
     circuit_answers (FailureThreshold b) (OpenDuration b) (recoveryThreshold b) (circuit_of b) es"
proof (induction es arbitrary: b)
  case Nil
  then show ?case by simp
next
  case (Cons e es)
  show ?case
  proof (cases e)
    case (EvAllow t)
    with Cons.IH [of "snd (Breaker_Allow t b)"] show ?thesis
      by (simp add: circuit_of_allow)
  next
    case (EvSuccess t)
    with Cons.IH [of "breaker_step e b"] show ?thesis
      by (simp add: circuit_of_step [of e b, simplified EvSuccess, simplified]
            breaker_step_config [of e b, simplified EvSuccess, simplified]
            recoveryThreshold_step [of e b, simplified EvSuccess, simplified])
  next
    case (EvFailure t)
    with Cons.IH [of "breaker_step e b"] show ?thesis
      by (simp add: circuit_of_step [of e b, simplified EvFailure, simplified]
            breaker_step_config [of e b, simplified EvFailure, simplified]
            recoveryThreshold_step [of e b, simplified EvFailure, simplified])
  qed
qed

section \<open>One probe at a time\<close>

definition is_allow :: "breaker_event \<Rightarrow> bool" where
  "is_allow e = (case e of EvAllow _ \<Rightarrow> True | _ \<Rightarrow> False)"

lemma claimed_denies:
  assumes "br_state b = BreakerHalfOpen" and "halfOpenInFlight b"
    and "t < halfOpenClaimedAt b + OpenDuration b"
  shows "Breaker_Allow t b = (False, b)"
  using assms by (simp add: Breaker_Allow_def)

lemma claimed_denies_all:
  assumes "br_state b = BreakerHalfOpen" and "halfOpenInFlight b"
    and "\<forall>e\<in>set es. is_allow e \<and> event_time e < halfOpenClaimedAt b + OpenDuration b"
  shows "breaker_run b es = b \<and> (\<forall>a\<in>set (breaker_answers b es). \<not> a)"
  using assms
proof (induction es)
  case (Cons e es)
  then obtain t where "e = EvAllow t" by (auto simp: is_allow_def split: breaker_event.splits)
  with Cons show ?case by (auto simp: claimed_denies)
qed simp

text \<open>
  C6 (safety): once an \<open>Allow\<close> lets a request through a recovering breaker, every further
  \<open>Allow\<close> before an outcome is reported and within \<open>OpenDuration\<close> of the claim is refused, and
  the breaker does not change: exactly one probe goes through per probe round.
\<close>

theorem breaker_single_probe:
  assumes "Breaker_Allow t b = (True, b')" and "br_state b' = BreakerHalfOpen"
    and "\<forall>e\<in>set es. is_allow e \<and> event_time e < t + OpenDuration b"
  shows "breaker_run b' es = b' \<and> (\<forall>a\<in>set (breaker_answers b' es). \<not> a)"
proof -
  have "halfOpenInFlight b' \<and> halfOpenClaimedAt b' = t \<and> OpenDuration b' = OpenDuration b"
    using assms(1,2) by (cases "br_state b") (auto simp: breaker_op_defs split: if_splits)
  with assms(2,3) show ?thesis by (intro claimed_denies_all) auto
qed

theorem breaker_single_probe_witness:
  "(let b = breaker_run (NewBreaker 1 100) [EvFailure 10];
        b' = snd (Breaker_Allow 110 b)
    in breaker_run b' [EvAllow 111, EvAllow 209] = b' \<and>
       (\<forall>a\<in>set (breaker_answers b' [EvAllow 111, EvAllow 209]). \<not> a))"
proof -
  let ?b = "breaker_run (NewBreaker 1 100) [EvFailure 10]"
  have "Breaker_Allow 110 ?b = (True, snd (Breaker_Allow 110 ?b))"
    and "br_state (snd (Breaker_Allow 110 ?b)) = BreakerHalfOpen"
    and "\<forall>e\<in>set [EvAllow 111, EvAllow 209]. is_allow e \<and> event_time e < 110 + OpenDuration ?b"
    by (simp_all add: NewBreaker_def breaker_op_defs breaker_defaults is_allow_def)
  from breaker_single_probe [OF this] show ?thesis by (simp add: Let_def)
qed

section \<open>Tripping and recovering\<close>

lemma shut_failures:
  assumes "br_state b = BreakerClosed" and "consecFails b + int (length ts) < FailureThreshold b"
  shows "br_state (breaker_run b (map EvFailure ts)) = BreakerClosed \<and>
         consecFails (breaker_run b (map EvFailure ts)) = consecFails b + int (length ts)"
  using assms
  by (induction ts arbitrary: b) (auto simp: Breaker_RecordFailure_def Let_def)

lemma open_failures:
  "br_state b = BreakerOpen \<Longrightarrow>
     br_state (breaker_run b (map EvFailure ts)) = BreakerOpen \<and>
     openedAt (breaker_run b (map EvFailure ts)) = openedAt b"
  by (induction ts arbitrary: b) (auto simp: Breaker_RecordFailure_def openLocked_def Let_def)

lemma shut_failures_trip:
  assumes "breaker_inv b" and "br_state b = BreakerClosed"
    and "FailureThreshold b \<le> consecFails b + int (length ts)"
  shows "br_state (breaker_run b (map EvFailure ts)) = BreakerOpen"
  using assms
proof (induction ts arbitrary: b)
  case Nil
  then show ?case by (simp add: breaker_inv_def)
next
  case (Cons t ts)
  let ?b' = "Breaker_RecordFailure t b"
  have inv: "breaker_inv ?b'" using Cons.prems(1) by (rule Breaker_RecordFailure_inv)
  show ?case
  proof (cases "br_state ?b' = BreakerOpen")
    case True
    then show ?thesis by (simp add: open_failures)
  next
    case False
    with Cons.prems(2) have "br_state ?b' = BreakerClosed" "consecFails ?b' = consecFails b + 1"
      "FailureThreshold ?b' = FailureThreshold b"
      by (auto simp: Breaker_RecordFailure_def openLocked_def Let_def split: if_splits)
    with Cons.IH [OF inv] Cons.prems(3) show ?thesis by simp
  qed
qed

text \<open>
  A fresh breaker trips on exactly the \<open>FailureThreshold\<close>-th consecutive
  failure: after any number of failures it is open if that many were reported, closed otherwise.
\<close>

theorem breaker_trips_at_threshold:
  assumes "0 < f"
  shows "br_state (breaker_run (NewBreaker f d) (map EvFailure ts)) =
           (if f \<le> int (length ts) then BreakerOpen else BreakerClosed)"
proof -
  have b: "br_state (NewBreaker f d) = BreakerClosed" "consecFails (NewBreaker f d) = 0"
    "FailureThreshold (NewBreaker f d) = f"
    using assms by (auto simp: NewBreaker_def Let_def)
  show ?thesis
  proof (cases "f \<le> int (length ts)")
    case True
    with b show ?thesis by (simp add: shut_failures_trip)
  next
    case False
    with b show ?thesis using shut_failures [of "NewBreaker f d" ts] by simp
  qed
qed

theorem breaker_trips_at_threshold_witness:
  "br_state (breaker_run (NewBreaker 3 0) (map EvFailure [5, 6, 7])) = BreakerOpen"
  using breaker_trips_at_threshold [of 3 0 "[5, 6, 7]"] by simp

fun successes :: "breaker_event list \<Rightarrow> int" where
  "successes [] = 0"
| "successes (EvSuccess t # es) = 1 + successes es"
| "successes (e # es) = successes es"

fun no_failure :: "breaker_event list \<Rightarrow> bool" where
  "no_failure [] = True"
| "no_failure (EvFailure t # es) = False"
| "no_failure (e # es) = no_failure es"

lemma successes_nonneg: "0 \<le> successes es"
  by (induction es rule: successes.induct) auto

lemma closed_stays:
  assumes "br_state b = BreakerClosed" and "no_failure es"
  shows "br_state (breaker_run b es) = BreakerClosed"
  using assms
proof (induction es arbitrary: b)
  case (Cons e es)
  then show ?case by (cases e) (auto simp: breaker_op_defs)
qed simp

text \<open>
  A half-open breaker closes exactly when \<open>RecoveryThreshold\<close> consecutive probe
  successes have been reported, however many \<open>Allow\<close> calls come between them; a single
  success is not enough, and until then it stays half-open.
\<close>

theorem breaker_recovers_at_threshold:
  assumes "breaker_inv b" and "br_state b = BreakerHalfOpen" and "no_failure es"
  shows "br_state (breaker_run b es) =
           (if recoveryThreshold b \<le> halfOpenSuccess b + successes es then BreakerClosed
            else BreakerHalfOpen)"
  using assms
proof (induction es arbitrary: b)
  case Nil
  then show ?case by (simp add: breaker_inv_def)
next
  case (Cons e es)
  have inv: "breaker_inv (breaker_step e b)" using Cons.prems(1) by (rule breaker_step_inv)
  show ?case
  proof (cases e)
    case (EvAllow t)
    have "br_state (breaker_step e b) = BreakerHalfOpen"
      "halfOpenSuccess (breaker_step e b) = halfOpenSuccess b"
      using EvAllow Cons.prems(2) by (auto simp: Breaker_Allow_def claimProbeLocked_def)
    with Cons.IH [OF inv] EvAllow Cons.prems(3) show ?thesis
      using recoveryThreshold_step [of e b] by simp
  next
    case (EvSuccess t)
    show ?thesis
    proof (cases "recoveryThreshold b \<le> halfOpenSuccess b + 1")
      case True
      then have "br_state (breaker_step e b) = BreakerClosed"
        using EvSuccess Cons.prems(2)
        by (auto simp: Breaker_RecordSuccess_def recoveryThreshold_def Let_def)
      moreover have "recoveryThreshold b \<le> halfOpenSuccess b + successes (e # es)"
        using EvSuccess True successes_nonneg [of es] by simp
      ultimately show ?thesis using closed_stays Cons.prems(3) EvSuccess by simp
    next
      case False
      then have "br_state (breaker_step e b) = BreakerHalfOpen"
        "halfOpenSuccess (breaker_step e b) = halfOpenSuccess b + 1"
        using EvSuccess Cons.prems(2)
        by (auto simp: Breaker_RecordSuccess_def recoveryThreshold_def Let_def)
      with Cons.IH [OF inv] EvSuccess Cons.prems(3) show ?thesis
        using recoveryThreshold_step [of e b] by (simp add: add.assoc)
    qed
  next
    case (EvFailure t)
    with Cons.prems(3) show ?thesis by simp
  qed
qed

theorem breaker_recovers_at_threshold_witness:
  "br_state (breaker_run (breaker_run (NewBreaker 1 100) [EvFailure 10, EvAllow 110])
     [EvSuccess 111, EvAllow 112, EvSuccess 113, EvAllow 114, EvSuccess 115]) = BreakerClosed"
proof -
  let ?b = "breaker_run (NewBreaker 1 100) [EvFailure 10, EvAllow 110]"
  have "br_state ?b = BreakerHalfOpen" "recoveryThreshold ?b = 3" "halfOpenSuccess ?b = 0"
    by (simp_all add: NewBreaker_def breaker_op_defs breaker_defaults)
  with breaker_recovers_at_threshold
    [of ?b "[EvSuccess 111, EvAllow 112, EvSuccess 113, EvAllow 114, EvSuccess 115]",
     OF breaker_run_inv [OF NewBreaker_inv]]
  show ?thesis by simp
qed

section \<open>The breaker store\<close>

definition FormatServiceID :: "string \<Rightarrow> string \<Rightarrow> string" where
  "FormatServiceID providerUUID model = providerUUID @ CHR ''/'' # model"

definition FormatBreakerKey :: "string \<Rightarrow> string \<Rightarrow> string" where
  "FormatBreakerKey ruleUUID serviceID = ruleUUID @ CHR ''/'' # serviceID"

record BreakerStore =
  breakers :: "string \<rightharpoonup> Breaker"
  failures :: int
  openFor :: duration

definition NewBreakerStore :: "int \<Rightarrow> duration \<Rightarrow> BreakerStore" where
  "NewBreakerStore failureThreshold openDuration =
     \<lparr>breakers = Map.empty, failures = failureThreshold, openFor = openDuration\<rparr>"

text \<open>
  \<^verbatim>\<open>Get\<close> returns a pointer into the map; a caller that goes on to mutate the breaker writes
  it back under the same key, which is what \<open>Store_put\<close> does.
\<close>

definition Store_Get :: "string \<Rightarrow> string \<Rightarrow> BreakerStore \<Rightarrow> Breaker \<times> BreakerStore" where
  "Store_Get ruleUUID serviceID s =
     (let key = FormatBreakerKey ruleUUID serviceID in
      case breakers s key of
        Some b \<Rightarrow> (b, s)
      | None \<Rightarrow> (let b = NewBreaker (failures s) (openFor s)
                 in (b, s\<lparr>breakers := (breakers s)(key \<mapsto> b)\<rparr>)))"

definition Store_put :: "string \<Rightarrow> string \<Rightarrow> Breaker \<Rightarrow> BreakerStore \<Rightarrow> BreakerStore" where
  "Store_put ruleUUID serviceID b s =
     s\<lparr>breakers := (breakers s)(FormatBreakerKey ruleUUID serviceID \<mapsto> b)\<rparr>"

definition Store_Allow :: "time \<Rightarrow> string \<Rightarrow> string \<Rightarrow> BreakerStore \<Rightarrow> bool \<times> BreakerStore" where
  "Store_Allow now ruleUUID serviceID s =
     (let (b, s1) = Store_Get ruleUUID serviceID s;
          (ok, b') = Breaker_Allow now b
      in (ok, Store_put ruleUUID serviceID b' s1))"

definition Store_IsAvailable :: "time \<Rightarrow> string \<Rightarrow> string \<Rightarrow> BreakerStore \<Rightarrow> bool \<times> BreakerStore" where
  "Store_IsAvailable now ruleUUID serviceID s =
     (let (b, s1) = Store_Get ruleUUID serviceID s
      in (Breaker_State now b \<noteq> BreakerOpen, s1))"

definition Store_WithinPromotionHold ::
    "time \<Rightarrow> string \<Rightarrow> string \<Rightarrow> duration \<Rightarrow> BreakerStore \<Rightarrow> bool \<times> BreakerStore" where
  "Store_WithinPromotionHold now ruleUUID serviceID hold s =
     (if hold \<le> 0 then (False, s)
      else let (b, s1) = Store_Get ruleUUID serviceID s;
               since = Breaker_ClosedSince b
           in (if since = zeroTime then (False, s1) else (now - since < hold, s1)))"

definition Store_RecordSuccess :: "time \<Rightarrow> string \<Rightarrow> string \<Rightarrow> BreakerStore \<Rightarrow> BreakerStore" where
  "Store_RecordSuccess now ruleUUID serviceID s =
     (let (b, s1) = Store_Get ruleUUID serviceID s
      in Store_put ruleUUID serviceID (Breaker_RecordSuccess now b) s1)"

definition Store_RecordFailure :: "time \<Rightarrow> string \<Rightarrow> string \<Rightarrow> BreakerStore \<Rightarrow> BreakerStore" where
  "Store_RecordFailure now ruleUUID serviceID s =
     (let (b, s1) = Store_Get ruleUUID serviceID s
      in Store_put ruleUUID serviceID (Breaker_RecordFailure now b) s1)"

definition Store_Reset :: "BreakerStore \<Rightarrow> BreakerStore" where
  "Store_Reset s = s\<lparr>breakers := Map.empty\<rparr>"

definition defaultStore :: BreakerStore where
  "defaultStore = NewBreakerStore DefaultBreakerFailureThreshold DefaultBreakerOpenDuration"

subsection \<open>What a store shows\<close>

text \<open>
  The breaker a key stands for, whether or not the store has created it yet.
\<close>

definition store_view :: "BreakerStore \<Rightarrow> string \<Rightarrow> Breaker" where
  "store_view s key =
     (case breakers s key of Some b \<Rightarrow> b | None \<Rightarrow> NewBreaker (failures s) (openFor s))"

lemma FormatBreakerKey_service_inj [simp]:
  "FormatBreakerKey r i = FormatBreakerKey r j \<longleftrightarrow> i = j"
  by (simp add: FormatBreakerKey_def)

lemma FormatBreakerKey_inj:
  assumes "CHR ''/'' \<notin> set r" and "CHR ''/'' \<notin> set r'"
  shows "FormatBreakerKey r i = FormatBreakerKey r' j \<longleftrightarrow> r = r' \<and> i = j"
  using split_at_unique [OF _ assms] unfolding FormatBreakerKey_def by blast

lemma FormatServiceID_inj:
  assumes "CHR ''/'' \<notin> set p" and "CHR ''/'' \<notin> set p'"
  shows "FormatServiceID p m = FormatServiceID p' m' \<longleftrightarrow> p = p' \<and> m = m'"
  using split_at_unique [OF _ assms] unfolding FormatServiceID_def by blast

lemma Store_Get_view:
  "Store_Get r i s = (b, s') \<Longrightarrow>
     b = store_view s (FormatBreakerKey r i) \<and> store_view s' = store_view s \<and>
     failures s' = failures s \<and> openFor s' = openFor s"
  by (auto simp: Store_Get_def store_view_def Let_def split: option.splits)

lemma store_view_put [simp]:
  "store_view (Store_put r i b s) = (store_view s)(FormatBreakerKey r i := b)"
  by (rule ext) (simp add: Store_put_def store_view_def split: option.splits)

lemma store_view_Allow:
  "store_view (snd (Store_Allow now r i s)) =
     (store_view s)(FormatBreakerKey r i := snd (Breaker_Allow now (store_view s (FormatBreakerKey r i))))"
  "fst (Store_Allow now r i s) = fst (Breaker_Allow now (store_view s (FormatBreakerKey r i)))"
  by (auto simp: Store_Allow_def Let_def split: prod.splits dest: Store_Get_view)

lemma store_view_IsAvailable:
  "store_view (snd (Store_IsAvailable now r i s)) = store_view s"
  "fst (Store_IsAvailable now r i s) \<longleftrightarrow>
     Breaker_State now (store_view s (FormatBreakerKey r i)) \<noteq> BreakerOpen"
  by (auto simp: Store_IsAvailable_def Let_def split: prod.splits dest: Store_Get_view)

lemma store_view_WithinPromotionHold:
  "store_view (snd (Store_WithinPromotionHold now r i h s)) = store_view s"
  "fst (Store_WithinPromotionHold now r i h s) \<longleftrightarrow>
     0 < h \<and> closedSince (store_view s (FormatBreakerKey r i)) \<noteq> zeroTime \<and>
     now - closedSince (store_view s (FormatBreakerKey r i)) < h"
  by (auto simp: Store_WithinPromotionHold_def Breaker_ClosedSince_def Let_def
        split: prod.splits dest: Store_Get_view)

lemma store_view_RecordSuccess:
  "store_view (Store_RecordSuccess now r i s) =
     (store_view s)(FormatBreakerKey r i := Breaker_RecordSuccess now (store_view s (FormatBreakerKey r i)))"
  by (auto simp: Store_RecordSuccess_def Let_def split: prod.splits dest: Store_Get_view)

lemma store_view_RecordFailure:
  "store_view (Store_RecordFailure now r i s) =
     (store_view s)(FormatBreakerKey r i := Breaker_RecordFailure now (store_view s (FormatBreakerKey r i)))"
  by (auto simp: Store_RecordFailure_def Let_def split: prod.splits dest: Store_Get_view)

lemmas store_views =
  store_view_Allow store_view_IsAvailable store_view_WithinPromotionHold
  store_view_RecordSuccess store_view_RecordFailure

subsection \<open>Isolation of rules\<close>

text \<open>The calls one rule's traffic makes on the store.\<close>

datatype store_call = CallAllow | CallIsAvailable | CallWithinHold duration | CallSuccess | CallFailure

fun apply_call :: "time \<Rightarrow> string \<Rightarrow> string \<Rightarrow> store_call \<Rightarrow> BreakerStore \<Rightarrow> BreakerStore" where
  "apply_call now r i CallAllow s = snd (Store_Allow now r i s)"
| "apply_call now r i CallIsAvailable s = snd (Store_IsAvailable now r i s)"
| "apply_call now r i (CallWithinHold h) s = snd (Store_WithinPromotionHold now r i h s)"
| "apply_call now r i CallSuccess s = Store_RecordSuccess now r i s"
| "apply_call now r i CallFailure s = Store_RecordFailure now r i s"

fun store_calls :: "string \<Rightarrow> (time \<times> string \<times> store_call) list \<Rightarrow> BreakerStore \<Rightarrow> BreakerStore" where
  "store_calls r [] s = s"
| "store_calls r ((t, i, c) # cs) s = store_calls r cs (apply_call t r i c s)"

lemma apply_call_frame:
  "key \<noteq> FormatBreakerKey r i \<Longrightarrow> store_view (apply_call t r i c s) key = store_view s key"
  by (cases c) (simp_all add: store_views)

text \<open>
  Rules have slash-free identifiers, and then no traffic under one rule, of
  whatever calls, services and times, changes how any service's breaker answers under another
  rule: neither \<open>Allow\<close>, nor \<open>IsAvailable\<close>, nor the promotion hold.
\<close>

theorem breaker_rules_isolated:
  assumes "r \<noteq> r'" and "CHR ''/'' \<notin> set r" and "CHR ''/'' \<notin> set r'"
  shows "fst (Store_Allow now r' j (store_calls r cs s)) = fst (Store_Allow now r' j s) \<and>
         fst (Store_IsAvailable now r' j (store_calls r cs s)) = fst (Store_IsAvailable now r' j s) \<and>
         fst (Store_WithinPromotionHold now r' j h (store_calls r cs s)) =
           fst (Store_WithinPromotionHold now r' j h s)"
proof -
  have "store_view (store_calls r cs s) (FormatBreakerKey r' j) = store_view s (FormatBreakerKey r' j)"
  proof (induction cs arbitrary: s)
    case (Cons c cs)
    obtain t i k where c: "c = (t, i, k)" by (cases c)
    have "FormatBreakerKey r' j \<noteq> FormatBreakerKey r i"
      using assms by (simp add: FormatBreakerKey_inj)
    with Cons.IH show ?case by (simp add: c apply_call_frame)
  qed simp
  then show ?thesis by (simp add: store_views)
qed

theorem breaker_rules_isolated_witness:
  "fst (Store_Allow 5 ''r2'' ''p/m''
     (store_calls ''r1'' [(1, ''p/m'', CallFailure), (2, ''p/m'', CallFailure), (3, ''p/m'', CallFailure)]
        defaultStore)) = fst (Store_Allow 5 ''r2'' ''p/m'' defaultStore)"
  by (rule conjunct1 [OF breaker_rules_isolated]) simp_all

section \<open>What selection relies on\<close>

text \<open>
  Service selection knows the breakers of its rule through two operations: a read that tells
  whether a service is usable and a claim that lets one request through.  The laws: the read
  changes no answer, a granted claim was readable as available, a refused claim changes no
  answer, and a granted one changes the answers for its own service only.
\<close>

locale breaker_registry =
  fixes available :: "'s \<Rightarrow> string \<Rightarrow> bool \<times> 's"
    and allow :: "'s \<Rightarrow> string \<Rightarrow> bool \<times> 's"
  assumes read_available: "fst (available (snd (available s i)) j) = fst (available s j)"
    and read_allow: "fst (allow (snd (available s i)) j) = fst (allow s j)"
    and granted_available: "fst (allow s i) \<Longrightarrow> fst (available s i)"
    and refused_available: "\<not> fst (allow s i) \<Longrightarrow> fst (available (snd (allow s i)) j) = fst (available s j)"
    and refused_allow: "\<not> fst (allow s i) \<Longrightarrow> fst (allow (snd (allow s i)) j) = fst (allow s j)"
    and other_available: "i \<noteq> j \<Longrightarrow> fst (available (snd (allow s i)) j) = fst (available s j)"
    and other_allow: "i \<noteq> j \<Longrightarrow> fst (allow (snd (allow s i)) j) = fst (allow s j)"

lemma Allow_not_Open: "fst (Breaker_Allow now b) \<Longrightarrow> Breaker_State now b \<noteq> BreakerOpen"
  by (cases "br_state b") (auto simp: Breaker_Allow_def Breaker_State_def split: if_splits)

lemma Allow_refused_same: "\<not> fst (Breaker_Allow now b) \<Longrightarrow> snd (Breaker_Allow now b) = b"
  by (cases "br_state b") (auto simp: Breaker_Allow_def split: if_splits)

interpretation rule_breakers:
  breaker_registry "\<lambda>s i. Store_IsAvailable now ruleUUID i s" "\<lambda>s i. Store_Allow now ruleUUID i s"
  for now ruleUUID
  by unfold_locales (auto simp: store_views Allow_not_Open Allow_refused_same)

end
