(* ===== verification/TB_Health.thy ===== *)
theory TB_Health
  imports TB_Prelude
begin

text \<open>
  The health monitor of \<^verbatim>\<open>internal/loadbalance/health_monitor.go\<close>: one health record per
  service, created by the first error report.  \<^verbatim>\<open>clock.Now()\<close> is the argument \<open>now\<close>; the
  probe function is part of the monitor's state, as it is in the code.  The lemmas show that
  a rate-limited service is never reported healthy before its window has passed, whatever
  happens meanwhile, and at which instant it recovers.
\<close>

datatype HealthStatus = HealthHealthy | HealthUnhealthy

fun HealthStatus_String :: "HealthStatus \<Rightarrow> string" where
  "HealthStatus_String HealthHealthy = ''healthy''"
| "HealthStatus_String HealthUnhealthy = ''unhealthy''"

record ServiceHealth =
  sh_ServiceID :: string
  Status :: HealthStatus
  LastError :: "string option"
  LastErrorTime :: time
  RateLimited :: bool
  AuthError :: bool
  RateLimitedUntil :: time
  LastHealthCheck :: time
  RecoveryTimeout :: duration

record HealthMonitorConfig =
  RecoveryTimeoutSeconds :: int
  ProbeEnabled :: bool

definition DefaultHealthMonitorConfig :: HealthMonitorConfig where
  "DefaultHealthMonitorConfig = \<lparr>RecoveryTimeoutSeconds = 300, ProbeEnabled = True\<rparr>"

record HealthMonitor =
  hm_services :: "string \<rightharpoonup> ServiceHealth"
  hm_config :: HealthMonitorConfig
  defaultRecoveryTimeout :: duration
  probeFunc :: "(string \<Rightarrow> bool) option"

definition NewHealthMonitor :: "HealthMonitorConfig \<Rightarrow> HealthMonitor" where
  "NewHealthMonitor config =
     \<lparr>hm_services = Map.empty, hm_config = config,
      defaultRecoveryTimeout = RecoveryTimeoutSeconds config * Second, probeFunc = None\<rparr>"

definition SetProbeFunc :: "(string \<Rightarrow> bool) option \<Rightarrow> HealthMonitor \<Rightarrow> HealthMonitor" where
  "SetProbeFunc fn hm = hm\<lparr>probeFunc := fn\<rparr>"

definition newHealth :: "string \<Rightarrow> HealthMonitor \<Rightarrow> ServiceHealth" where
  "newHealth serviceID hm =
     \<lparr>sh_ServiceID = serviceID, Status = HealthHealthy, LastError = None, LastErrorTime = zeroTime,
      RateLimited = False, AuthError = False, RateLimitedUntil = zeroTime,
      LastHealthCheck = zeroTime, RecoveryTimeout = defaultRecoveryTimeout hm\<rparr>"

text \<open>A record reached through a pointer is written back under its key by \<open>putHealth\<close>.\<close>

definition putHealth :: "string \<Rightarrow> ServiceHealth \<Rightarrow> HealthMonitor \<Rightarrow> HealthMonitor" where
  "putHealth serviceID h hm = hm\<lparr>hm_services := (hm_services hm)(serviceID \<mapsto> h)\<rparr>"

definition getOrCreateHealth :: "string \<Rightarrow> HealthMonitor \<Rightarrow> ServiceHealth \<times> HealthMonitor" where
  "getOrCreateHealth serviceID hm =
     (case hm_services hm serviceID of
        Some h \<Rightarrow> (h, hm)
      | None \<Rightarrow> (let h = newHealth serviceID hm in (h, putHealth serviceID h hm)))"

definition getHealth :: "string \<Rightarrow> HealthMonitor \<Rightarrow> ServiceHealth option" where
  "getHealth serviceID hm = hm_services hm serviceID"

definition recovered :: "ServiceHealth \<Rightarrow> ServiceHealth" where
  "recovered h =
     (if Status h = HealthUnhealthy
      then h\<lparr>Status := HealthHealthy, RateLimited := False, AuthError := False,
             RateLimitedUntil := zeroTime, LastError := None\<rparr>
      else h)"

definition recoverService :: "string \<Rightarrow> HealthMonitor \<Rightarrow> HealthMonitor" where
  "recoverService serviceID hm =
     (case hm_services hm serviceID of
        None \<Rightarrow> hm
      | Some h \<Rightarrow> putHealth serviceID (recovered h) hm)"

definition extendRecoveryTimeout :: "time \<Rightarrow> string \<Rightarrow> HealthMonitor \<Rightarrow> HealthMonitor" where
  "extendRecoveryTimeout now serviceID hm =
     (case hm_services hm serviceID of
        None \<Rightarrow> hm
      | Some h \<Rightarrow> putHealth serviceID (h\<lparr>LastErrorTime := now\<rparr>) hm)"

definition IsHealthy :: "time \<Rightarrow> string \<Rightarrow> HealthMonitor \<Rightarrow> bool \<times> HealthMonitor" where
  "IsHealthy now serviceID hm =
     (case getHealth serviceID hm of
        None \<Rightarrow> (True, hm)
      | Some h \<Rightarrow>
          if Status h = HealthHealthy then (True, hm)
          else if RateLimited h \<and> now < RateLimitedUntil h then (False, hm)
          else if now - LastErrorTime h > RecoveryTimeout h then
            (case probeFunc hm of
               Some probe \<Rightarrow>
                 if ProbeEnabled (hm_config hm) then
                   (if probe serviceID then (True, recoverService serviceID hm)
                    else (False, extendRecoveryTimeout now serviceID hm))
                 else (True, recoverService serviceID hm)
             | None \<Rightarrow> (True, recoverService serviceID hm))
          else (False, hm))"

definition ReportRateLimit :: "time \<Rightarrow> string \<Rightarrow> HealthMonitor \<Rightarrow> HealthMonitor" where
  "ReportRateLimit now serviceID hm =
     (let (h, hm1) = getOrCreateHealth serviceID hm;
          h1 = h\<lparr>Status := HealthUnhealthy, RateLimited := True, LastErrorTime := now,
                 LastHealthCheck := now\<rparr>;
          newUntil = now + RecoveryTimeout h1;
          h2 = (if RateLimitedUntil h1 = zeroTime \<or> RateLimitedUntil h1 < newUntil
                then h1\<lparr>RateLimitedUntil := newUntil\<rparr> else h1)
      in putHealth serviceID h2 hm1)"

definition ReportAuthError :: "time \<Rightarrow> string \<Rightarrow> HealthMonitor \<Rightarrow> HealthMonitor" where
  "ReportAuthError now serviceID hm =
     (let (h, hm1) = getOrCreateHealth serviceID hm
      in putHealth serviceID
           (h\<lparr>Status := HealthUnhealthy, AuthError := True, LastError := Some ''auth error'',
              LastErrorTime := now, LastHealthCheck := now\<rparr>) hm1)"

definition ReportSuccess :: "time \<Rightarrow> string \<Rightarrow> HealthMonitor \<Rightarrow> HealthMonitor" where
  "ReportSuccess now serviceID hm =
     (case getHealth serviceID hm of
        None \<Rightarrow> hm
      | Some h \<Rightarrow>
          if RateLimited h \<and> now < RateLimitedUntil h
          then putHealth serviceID (h\<lparr>LastHealthCheck := now\<rparr>) hm
          else putHealth serviceID ((recovered h)\<lparr>LastHealthCheck := now\<rparr>) hm)"

definition ResetHealth :: "string \<Rightarrow> HealthMonitor \<Rightarrow> HealthMonitor" where
  "ResetHealth serviceID hm = recoverService serviceID hm"

definition RemoveHealth :: "string \<Rightarrow> HealthMonitor \<Rightarrow> HealthMonitor" where
  "RemoveHealth serviceID hm = hm\<lparr>hm_services := (hm_services hm)(serviceID := None)\<rparr>"

definition UpdateConfig :: "HealthMonitorConfig \<Rightarrow> HealthMonitor \<Rightarrow> HealthMonitor" where
  "UpdateConfig config hm =
     hm\<lparr>hm_config := config, defaultRecoveryTimeout := RecoveryTimeoutSeconds config * Second\<rparr>"

lemmas health_defs =
  IsHealthy_def ReportRateLimit_def ReportAuthError_def ReportSuccess_def ResetHealth_def
  RemoveHealth_def UpdateConfig_def SetProbeFunc_def recoverService_def recovered_def
  extendRecoveryTimeout_def getOrCreateHealth_def getHealth_def putHealth_def newHealth_def Let_def

section \<open>Runs of the monitor\<close>

datatype health_event =
    HIsHealthy time string
  | HRateLimit time string
  | HAuthError time string
  | HSuccess time string
  | HGetHealth time string
  | HSetProbe time "(string \<Rightarrow> bool) option"
  | HUpdateConfig time HealthMonitorConfig

fun health_time :: "health_event \<Rightarrow> time" where
  "health_time (HIsHealthy t i) = t"
| "health_time (HRateLimit t i) = t"
| "health_time (HAuthError t i) = t"
| "health_time (HSuccess t i) = t"
| "health_time (HGetHealth t i) = t"
| "health_time (HSetProbe t f) = t"
| "health_time (HUpdateConfig t c) = t"

fun health_step :: "health_event \<Rightarrow> HealthMonitor \<Rightarrow> HealthMonitor" where
  "health_step (HIsHealthy t i) hm = snd (IsHealthy t i hm)"
| "health_step (HRateLimit t i) hm = ReportRateLimit t i hm"
| "health_step (HAuthError t i) hm = ReportAuthError t i hm"
| "health_step (HSuccess t i) hm = ReportSuccess t i hm"
| "health_step (HGetHealth t i) hm = snd (getOrCreateHealth i hm)"
| "health_step (HSetProbe t f) hm = SetProbeFunc f hm"
| "health_step (HUpdateConfig t c) hm = UpdateConfig c hm"

fun health_run :: "HealthMonitor \<Rightarrow> health_event list \<Rightarrow> HealthMonitor" where
  "health_run hm [] = hm"
| "health_run hm (e # es) = health_run (health_step e hm) es"

definition limited_until :: "time \<Rightarrow> duration \<Rightarrow> string \<Rightarrow> HealthMonitor \<Rightarrow> bool" where
  "limited_until u d i hm \<longleftrightarrow>
     (case hm_services hm i of
        None \<Rightarrow> False
      | Some h \<Rightarrow> Status h = HealthUnhealthy \<and> RateLimited h \<and> u \<le> RateLimitedUntil h \<and>
                  RecoveryTimeout h = d)"

lemma limited_unhealthy:
  "limited_until u d i hm \<Longrightarrow> t < u \<Longrightarrow> IsHealthy t i hm = (False, hm)"
  by (auto simp: limited_until_def IsHealthy_def getHealth_def split: option.splits)

lemma limited_step:
  assumes "limited_until u d i hm" and "health_time e < u" and "u \<le> health_time e + d"
  shows "limited_until u d i (health_step e hm)"
proof (cases e)
  case (HIsHealthy t j)
  show ?thesis
  proof (cases "j = i")
    case True
    with assms HIsHealthy limited_unhealthy show ?thesis by fastforce
  next
    case False
    with assms(1) HIsHealthy show ?thesis
      by (auto simp: limited_until_def health_defs split: option.splits)
  qed
qed (use assms in \<open>auto simp: limited_until_def health_defs split: option.splits if_splits\<close>)

lemma limited_run:
  assumes "limited_until u d i hm" and "\<forall>e\<in>set es. health_time e < u \<and> u \<le> health_time e + d"
  shows "limited_until u d i (health_run hm es)"
  using assms by (induction es arbitrary: hm) (auto simp: limited_step)

definition timeout_of :: "string \<Rightarrow> HealthMonitor \<Rightarrow> duration" where
  "timeout_of i hm = RecoveryTimeout (fst (getOrCreateHealth i hm))"

lemma ReportRateLimit_limited:
  "limited_until (t + timeout_of i hm) (timeout_of i hm) i (ReportRateLimit t i hm)"
  by (auto simp: limited_until_def timeout_of_def health_defs split: option.splits)

text \<open>
  After a 429 at time \<open>t\<close> the service is reported unhealthy at every instant of
  the recovery window, whatever other calls the monitor gets in that window: successes of
  requests already in flight, further errors, queries, a new probe function or a new
  configuration.
\<close>

theorem rate_limit_window_respected:
  assumes "\<forall>e\<in>set es. t \<le> health_time e \<and> health_time e < t + timeout_of i hm"
    and "s < t + timeout_of i hm"
  shows "fst (IsHealthy s i (health_run (ReportRateLimit t i hm) es)) = False"
  using limited_unhealthy [OF limited_run [OF ReportRateLimit_limited] assms(2)] assms(1)
  by fastforce

theorem rate_limit_window_respected_witness:
  "fst (IsHealthy 9 ''p/m''
     (health_run (ReportRateLimit 5 ''p/m'' (NewHealthMonitor DefaultHealthMonitorConfig))
        [HSuccess 6 ''p/m'', HIsHealthy 7 ''p/m'', HAuthError 8 ''p/m''])) = False"
  by (rule rate_limit_window_respected)
     (auto simp: timeout_of_def health_defs NewHealthMonitor_def DefaultHealthMonitorConfig_def Second_def)

fun health_answers :: "HealthMonitor \<Rightarrow> string \<Rightarrow> time list \<Rightarrow> bool list" where
  "health_answers hm i [] = []"
| "health_answers hm i (t # ts) =
     fst (IsHealthy t i hm) # health_answers (snd (IsHealthy t i hm)) i ts"

lemma healthy_answers:
  assumes "hm_services hm i = Some h" and "Status h = HealthHealthy"
  shows "health_answers hm i ts = replicate (length ts) True"
  using assms by (induction ts) (auto simp: IsHealthy_def getHealth_def)

text \<open>
  Without a probe, a service whose first error is a 429 at time \<open>t\<close> is reported
  healthy by exactly the queries made after \<open>t\<close> plus the recovery timeout, for any
  non-decreasing sequence of query times: it neither recovers early nor stays out for longer.
\<close>

theorem rate_limit_recovers_exactly:
  assumes "hm_services hm i = None" and "probeFunc hm = None" and "sorted ts"
  shows "health_answers (ReportRateLimit t i hm) i ts =
           map (\<lambda>s. t + defaultRecoveryTimeout hm < s) ts"
proof -
  let ?hm = "ReportRateLimit t i hm"
  obtain h where h: "hm_services ?hm i = Some h" "Status h = HealthUnhealthy" "RateLimited h"
    "LastErrorTime h = t" "RecoveryTimeout h = defaultRecoveryTimeout hm"
    "RateLimitedUntil h = t + defaultRecoveryTimeout hm" and p: "probeFunc ?hm = None"
    using assms(1,2) by (auto simp: health_defs)
  from assms(3) show ?thesis
  proof (induction ts)
    case (Cons s ts)
    show ?case
    proof (cases "t + defaultRecoveryTimeout hm < s")
      case True
      then have ok: "IsHealthy s i ?hm = (True, recoverService i ?hm)"
        using h p by (simp add: IsHealthy_def getHealth_def)
      have "hm_services (recoverService i ?hm) i = Some (recovered h)"
        "Status (recovered h) = HealthHealthy"
        using h by (simp_all add: recoverService_def putHealth_def recovered_def)
      note all = healthy_answers [OF this, of ts]
      have "map (\<lambda>s. t + defaultRecoveryTimeout hm < s) ts = replicate (length ts) True"
        using Cons.prems True by (intro replicate_eqI) fastforce+
      with True ok all show ?thesis by simp
    next
      case False
      then have "IsHealthy s i ?hm = (False, ?hm)"
        using h p by (simp add: IsHealthy_def getHealth_def)
      with False Cons show ?thesis by simp
    qed
  qed simp
qed

theorem rate_limit_recovers_exactly_witness:
  "health_answers (ReportRateLimit 5 ''p/m'' (NewHealthMonitor DefaultHealthMonitorConfig)) ''p/m''
     [6, 300000000005, 300000000006, 300000000007] = [False, False, True, True]"
  using rate_limit_recovers_exactly
    [of "NewHealthMonitor DefaultHealthMonitorConfig" "''p/m''"
        "[6, 300000000005, 300000000006, 300000000007]" 5]
  by (simp add: NewHealthMonitor_def DefaultHealthMonitorConfig_def Second_def)

end
