(* ===== verification/TB_Service.thy ===== *)
theory TB_Service
  imports TB_Prelude TB_Breaker
begin

text \<open>
  Services and their statistics, \<^verbatim>\<open>internal/loadbalance/load_balancing.go\<close>: the service
  record, tier normalisation, the usage window, the rolling sample windows with their
  averages and percentiles, and the tactic type with its parser.  A Go pointer to a service
  that may be \<^verbatim>\<open>nil\<close> is a \<open>Service option\<close>; a list of services holds distinct pointers, as
  the configuration loader builds it.
\<close>

section \<open>Statistics\<close>

record ServiceStats =
  st_ServiceID :: string
  RequestCount :: int
  LastUsed :: time
  WindowStart :: time
  WindowRequestCount :: int
  WindowTokensConsumed :: int
  WindowInputTokens :: int
  WindowOutputTokens :: int
  st_TimeWindow :: int
  LatencySamples :: "int list"
  AvgLatencyMs :: rat
  P50LatencyMs :: rat
  P95LatencyMs :: rat
  P99LatencyMs :: rat
  LastLatencyUpdate :: time
  SpeedSamples :: "rat list"
  AvgTokenSpeed :: rat
  LastSpeedUpdate :: time
  TTFTSamples :: "int list"
  AvgTTFTMs :: rat
  P50TTFTMs :: rat
  P95TTFTMs :: rat
  P99TTFTMs :: rat
  LastTTFTUpdate :: time
  WindowCacheHits :: int
  WindowCacheMisses :: int
  CacheHitRate :: rat
  WindowCostTokens :: int

definition zeroStats :: ServiceStats where
  "zeroStats =
     \<lparr>st_ServiceID = [], RequestCount = 0, LastUsed = 0, WindowStart = 0, WindowRequestCount = 0,
      WindowTokensConsumed = 0, WindowInputTokens = 0, WindowOutputTokens = 0, st_TimeWindow = 0,
      LatencySamples = [], AvgLatencyMs = 0, P50LatencyMs = 0, P95LatencyMs = 0, P99LatencyMs = 0,
      LastLatencyUpdate = 0, SpeedSamples = [], AvgTokenSpeed = 0, LastSpeedUpdate = 0,
      TTFTSamples = [], AvgTTFTMs = 0, P50TTFTMs = 0, P95TTFTMs = 0, P99TTFTMs = 0,
      LastTTFTUpdate = 0, WindowCacheHits = 0, WindowCacheMisses = 0, CacheHitRate = 0,
      WindowCostTokens = 0\<rparr>"

definition windowExpiredLocked :: "time \<Rightarrow> ServiceStats \<Rightarrow> bool" where
  "windowExpiredLocked now ss \<longleftrightarrow> now - WindowStart ss \<ge> st_TimeWindow ss * Second"

definition ResetWindow :: "time \<Rightarrow> ServiceStats \<Rightarrow> ServiceStats" where
  "ResetWindow now ss =
     ss\<lparr>WindowStart := now, WindowRequestCount := 0, WindowTokensConsumed := 0,
        WindowInputTokens := 0, WindowOutputTokens := 0, WindowCacheHits := 0,
        WindowCacheMisses := 0, CacheHitRate := 0, WindowCostTokens := 0\<rparr>"

definition Stats_RecordUsage :: "time \<Rightarrow> int \<Rightarrow> int \<Rightarrow> ServiceStats \<Rightarrow> ServiceStats" where
  "Stats_RecordUsage now inputTokens outputTokens ss =
     (let ss1 = (if now - WindowStart ss \<ge> st_TimeWindow ss * Second
                 then ss\<lparr>WindowStart := now, WindowRequestCount := 0, WindowTokensConsumed := 0,
                         WindowInputTokens := 0, WindowOutputTokens := 0, WindowCacheHits := 0,
                         WindowCacheMisses := 0, CacheHitRate := 0, WindowCostTokens := 0\<rparr>
                 else ss);
          totalTokens = inputTokens + outputTokens
      in ss1\<lparr>RequestCount := RequestCount ss1 + 1,
             WindowRequestCount := WindowRequestCount ss1 + 1,
             WindowInputTokens := WindowInputTokens ss1 + inputTokens,
             WindowOutputTokens := WindowOutputTokens ss1 + outputTokens,
             WindowTokensConsumed := WindowTokensConsumed ss1 + totalTokens,
             WindowCostTokens := WindowCostTokens ss1 + totalTokens,
             LastUsed := now\<rparr>)"

definition Stats_GetWindowStats :: "time \<Rightarrow> ServiceStats \<Rightarrow> (int \<times> int) \<times> ServiceStats" where
  "Stats_GetWindowStats now ss =
     (if \<not> windowExpiredLocked now ss
      then ((WindowRequestCount ss, WindowTokensConsumed ss), ss)
      else ((0, 0), ResetWindow now ss))"

definition GetWindowTokenDetails :: "time \<Rightarrow> ServiceStats \<Rightarrow> (int \<times> int \<times> int) \<times> ServiceStats" where
  "GetWindowTokenDetails now ss =
     (if \<not> windowExpiredLocked now ss
      then ((WindowRequestCount ss, WindowInputTokens ss, WindowOutputTokens ss), ss)
      else ((0, 0, 0), ResetWindow now ss))"

definition GetStats :: "ServiceStats \<Rightarrow> ServiceStats" where
  "GetStats ss = ss\<lparr>LatencySamples := [], SpeedSamples := [], TTFTSamples := []\<rparr>"

definition percentile :: "int list \<Rightarrow> rat \<Rightarrow> rat" where
  "percentile xs p =
     (if xs = [] then 0
      else if p \<le> 0 then of_int (xs ! 0)
      else if p \<ge> 1 then of_int (xs ! (length xs - 1))
      else
        (let index = p * of_nat (length xs - 1);
             lower = nat \<lfloor>index\<rfloor>;
             upper = lower + 1
         in if upper \<ge> length xs then of_int (xs ! lower)
            else of_int (xs ! lower) +
                 (index - of_nat lower) * of_int (xs ! upper - xs ! lower)))"

definition recalculateLatencyStats :: "ServiceStats \<Rightarrow> ServiceStats" where
  "recalculateLatencyStats ss =
     (if LatencySamples ss = []
      then ss\<lparr>AvgLatencyMs := 0, P50LatencyMs := 0, P95LatencyMs := 0, P99LatencyMs := 0\<rparr>
      else let s = sort (LatencySamples ss)
           in ss\<lparr>AvgLatencyMs := of_int (sum_list (LatencySamples ss)) / of_nat (length (LatencySamples ss)),
                 P50LatencyMs := percentile s (1 / 2),
                 P95LatencyMs := percentile s (95 / 100),
                 P99LatencyMs := percentile s (99 / 100)\<rparr>)"

text \<open>
  The sample windows keep the newest \<open>maxSamples\<close> samples; the callers pass positive
  constants (a negative size would make the code's \<^verbatim>\<open>make\<close> panic).
\<close>

definition keepLast :: "nat \<Rightarrow> 'a list \<Rightarrow> 'a list" where
  "keepLast maxSamples xs =
     (if length xs > maxSamples then drop (length xs - maxSamples) xs else xs)"

definition RecordLatency :: "time \<Rightarrow> int \<Rightarrow> nat \<Rightarrow> ServiceStats \<Rightarrow> ServiceStats" where
  "RecordLatency now latencyMs maxSamples ss =
     (recalculateLatencyStats
        (ss\<lparr>LatencySamples := keepLast maxSamples (LatencySamples ss @ [latencyMs])\<rparr>))
     \<lparr>LastLatencyUpdate := now\<rparr>"

definition GetLatencyStats :: "ServiceStats \<Rightarrow> rat \<times> rat \<times> rat \<times> rat \<times> nat" where
  "GetLatencyStats ss =
     (AvgLatencyMs ss, P50LatencyMs ss, P95LatencyMs ss, P99LatencyMs ss, length (LatencySamples ss))"

definition recalculateSpeedStats :: "ServiceStats \<Rightarrow> ServiceStats" where
  "recalculateSpeedStats ss =
     (if SpeedSamples ss = [] then ss\<lparr>AvgTokenSpeed := 0\<rparr>
      else ss\<lparr>AvgTokenSpeed := sum_list (SpeedSamples ss) / of_nat (length (SpeedSamples ss))\<rparr>)"

definition RecordTokenSpeed :: "time \<Rightarrow> rat \<Rightarrow> nat \<Rightarrow> ServiceStats \<Rightarrow> ServiceStats" where
  "RecordTokenSpeed now speedTps maxSamples ss =
     (recalculateSpeedStats
        (ss\<lparr>SpeedSamples := keepLast maxSamples (SpeedSamples ss @ [speedTps])\<rparr>))
     \<lparr>LastSpeedUpdate := now\<rparr>"

definition GetTokenSpeedStats :: "ServiceStats \<Rightarrow> rat \<times> int" where
  "GetTokenSpeedStats ss = (AvgTokenSpeed ss, int (length (SpeedSamples ss)))"

definition recalculateTTFTStats :: "ServiceStats \<Rightarrow> ServiceStats" where
  "recalculateTTFTStats ss =
     (if TTFTSamples ss = []
      then ss\<lparr>AvgTTFTMs := 0, P50TTFTMs := 0, P95TTFTMs := 0, P99TTFTMs := 0\<rparr>
      else let s = sort (TTFTSamples ss)
           in ss\<lparr>AvgTTFTMs := of_int (sum_list (TTFTSamples ss)) / of_nat (length (TTFTSamples ss)),
                 P50TTFTMs := percentile s (1 / 2),
                 P95TTFTMs := percentile s (95 / 100),
                 P99TTFTMs := percentile s (99 / 100)\<rparr>)"

definition RecordTTFT :: "time \<Rightarrow> int \<Rightarrow> nat \<Rightarrow> ServiceStats \<Rightarrow> ServiceStats" where
  "RecordTTFT now ttftMs maxSamples ss =
     (recalculateTTFTStats
        (ss\<lparr>TTFTSamples := keepLast maxSamples (TTFTSamples ss @ [ttftMs])\<rparr>))
     \<lparr>LastTTFTUpdate := now\<rparr>"

definition GetTTFTStats :: "ServiceStats \<Rightarrow> rat \<times> rat \<times> rat \<times> rat \<times> nat" where
  "GetTTFTStats ss =
     (AvgTTFTMs ss, P50TTFTMs ss, P95TTFTMs ss, P99TTFTMs ss, length (TTFTSamples ss))"

definition RecordCacheHit :: "bool \<Rightarrow> ServiceStats \<Rightarrow> ServiceStats" where
  "RecordCacheHit isHit ss =
     (let ss1 = (if isHit then ss\<lparr>WindowCacheHits := WindowCacheHits ss + 1\<rparr>
                 else ss\<lparr>WindowCacheMisses := WindowCacheMisses ss + 1\<rparr>);
          total = WindowCacheHits ss1 + WindowCacheMisses ss1
      in if total > 0
         then ss1\<lparr>CacheHitRate := of_int (WindowCacheHits ss1) / of_int total\<rparr>
         else ss1\<lparr>CacheHitRate := 0\<rparr>)"

definition GetCacheStats :: "ServiceStats \<Rightarrow> rat \<times> int \<times> int" where
  "GetCacheStats ss = (CacheHitRate ss, WindowCacheHits ss, WindowCacheMisses ss)"

definition GetCostMetrics :: "ServiceStats \<Rightarrow> int" where
  "GetCostMetrics ss = WindowCostTokens ss"

section \<open>Services\<close>

record Service =
  Provider :: string
  Model :: string
  Weight :: int
  Active :: bool
  TimeWindow :: int
  ModelCapacity :: "int option"
  Tier :: int
  Stats :: ServiceStats

definition ServiceID :: "Service \<Rightarrow> string" where
  "ServiceID s = FormatServiceID (Provider s) (Model s)"

definition InitializeStats :: "time \<Rightarrow> Service \<Rightarrow> Service" where
  "InitializeStats now s =
     (if st_ServiceID (Stats s) = []
      then s\<lparr>Stats := zeroStats\<lparr>st_ServiceID := ServiceID s, st_TimeWindow := TimeWindow s,
                                 WindowStart := now\<rparr>\<rparr>
      else s)"

definition Service_RecordUsage :: "time \<Rightarrow> int \<Rightarrow> int \<Rightarrow> Service \<Rightarrow> Service" where
  "Service_RecordUsage now inputTokens outputTokens s =
     (let s1 = InitializeStats now s
      in s1\<lparr>Stats := Stats_RecordUsage now inputTokens outputTokens (Stats s1)\<rparr>)"

definition Service_GetWindowStats :: "time \<Rightarrow> Service \<Rightarrow> (int \<times> int) \<times> Service" where
  "Service_GetWindowStats now s =
     (let s1 = InitializeStats now s;
          (r, ss) = Stats_GetWindowStats now (Stats s1)
      in (r, s1\<lparr>Stats := ss\<rparr>))"

text \<open>
  \<^verbatim>\<open>NormalizeServiceTiers\<close>: the sorted distinct tiers give each tier its rank.
\<close>

definition tierRank :: "int list \<Rightarrow> int \<Rightarrow> int" where
  "tierRank tiers t =
     (case map_of (zip tiers [0..<length tiers]) t of Some i \<Rightarrow> int i | None \<Rightarrow> 0)"

definition serviceTiers :: "Service option list \<Rightarrow> int list" where
  "serviceTiers services = remdups_adj (sort (map Tier (List.map_filter id services)))"

fun normalizeLoop :: "int list \<Rightarrow> Service option list \<Rightarrow> bool \<times> Service option list" where
  "normalizeLoop tiers [] = (False, [])"
| "normalizeLoop tiers (None # svcs) =
     (let (changed, rest) = normalizeLoop tiers svcs in (changed, None # rest))"
| "normalizeLoop tiers (Some svc # svcs) =
     (let normalized = tierRank tiers (Tier svc);
          (changed, rest) = normalizeLoop tiers svcs
      in if normalized \<noteq> Tier svc then (True, Some (svc\<lparr>Tier := normalized\<rparr>) # rest)
         else (changed, Some svc # rest))"

definition NormalizeServiceTiers :: "Service option list \<Rightarrow> bool \<times> Service option list" where
  "NormalizeServiceTiers services = normalizeLoop (serviceTiers services) services"

section \<open>Tactic types\<close>

type_synonym TacticType = int

definition TacticRandom :: TacticType where "TacticRandom = 3"
definition TacticSpeedBased :: TacticType where "TacticSpeedBased = 5"
definition TacticCapacityBased :: TacticType where "TacticCapacityBased = 7"
definition TacticTier :: TacticType where "TacticTier = 8"

lemmas tactic_codes = TacticRandom_def TacticSpeedBased_def TacticCapacityBased_def TacticTier_def

definition TacticType_String :: "TacticType \<Rightarrow> string" where
  "TacticType_String tt =
     (if tt = TacticRandom then ''random''
      else if tt = TacticSpeedBased then ''speed_based''
      else if tt = TacticCapacityBased then ''capacity_based''
      else if tt = TacticTier then ''tier''
      else ''random'')"

definition ParseTacticTypeStrict :: "string \<Rightarrow> TacticType \<times> bool" where
  "ParseTacticTypeStrict s =
     (let l = ToLower s in
      if l \<in> {''random'', ''adaptive'', ''round_robin'', ''hybrid'', ''token_based'', ''latency_based''}
      then (TacticRandom, True)
      else if l = ''speed_based'' then (TacticSpeedBased, True)
      else if l = ''capacity_based'' then (TacticCapacityBased, True)
      else if l \<in> {''tier'', ''priority''} then (TacticTier, True)
      else (TacticRandom, False))"

definition ParseTacticType :: "string \<Rightarrow> TacticType" where
  "ParseTacticType s = fst (ParseTacticTypeStrict s)"

text \<open>Persisting a tactic and reading it back changes nothing the tactic is selected by.\<close>

lemma ParseTacticType_String:
  "ParseTacticType (TacticType_String tt) =
     (if tt \<in> {TacticSpeedBased, TacticCapacityBased, TacticTier} then tt else TacticRandom)"
  "snd (ParseTacticTypeStrict (TacticType_String tt))"
  by (auto simp: ParseTacticType_def ParseTacticTypeStrict_def TacticType_String_def tactic_codes
        ToLower_def lower_char_def)

section \<open>Tier normalisation keeps the routing order\<close>

lemma distinct_remdups_adj_sorted: "sorted xs \<Longrightarrow> distinct (remdups_adj xs)" for xs :: "int list"
  by (induction xs rule: remdups_adj.induct) auto

lemma serviceTiers_sorted_list:
  "serviceTiers services = sorted_list_of_set {Tier s | s. Some s \<in> set services}"
proof (rule sorted_distinct_set_unique)
  have "set (serviceTiers services) = {Tier s | s. Some s \<in> set services}"
    by (force simp: serviceTiers_def List.map_filter_def)
  moreover from this have "finite {Tier s | s. Some s \<in> set services}"
    by (metis finite_set)
  ultimately show "set (serviceTiers services) =
      set (sorted_list_of_set {Tier s | s. Some s \<in> set services})" by simp
qed (simp_all add: serviceTiers_def distinct_remdups_adj_sorted)

lemma serviceTiers_facts:
  "sorted (serviceTiers services)" "distinct (serviceTiers services)"
  "set (serviceTiers services) = {Tier s | s. Some s \<in> set services}"
  by (simp_all add: serviceTiers_def distinct_remdups_adj_sorted)
     (force simp: List.map_filter_def)

lemma tierRank_nth: "distinct ts \<Longrightarrow> i < length ts \<Longrightarrow> tierRank ts (ts ! i) = int i"
  by (simp add: tierRank_def map_of_zip_nth)

lemma tierRank_less:
  assumes "sorted ts" and "distinct ts" and "a \<in> set ts" and "b \<in> set ts"
  shows "tierRank ts a < tierRank ts b \<longleftrightarrow> a < b"
proof -
  obtain i j where ij: "i < length ts" "ts ! i = a" "j < length ts" "ts ! j = b"
    using assms(3,4) by (auto simp: in_set_conv_nth)
  then have r: "tierRank ts a = int i" "tierRank ts b = int j"
    using tierRank_nth [OF assms(2)] by auto
  have "sorted_wrt (<) ts" using assms(1,2) strict_sorted_iff by blast
  then have "i < j \<Longrightarrow> ts ! i < ts ! j" "j < i \<Longrightarrow> ts ! j < ts ! i"
    using ij by (auto simp: sorted_wrt_iff_nth_less)
  then show ?thesis using ij r by (metis nat_neq_iff not_less_iff_gr_or_eq of_nat_less_iff)
qed

lemma tierRank_image: "distinct ts \<Longrightarrow> tierRank ts ` set ts = {0..<int (length ts)}"
proof -
  assume d: "distinct ts"
  have "tierRank ts ` set ts = (\<lambda>i. tierRank ts (ts ! i)) ` {0..<length ts}"
    using nth_image [of "length ts" ts] by (simp add: image_image [symmetric])
  also have "\<dots> = int ` {0..<length ts}"
    by (rule image_cong) (simp_all add: tierRank_nth [OF d])
  also have "\<dots> = {0..<int (length ts)}"
    using image_int_atLeastLessThan [of 0 "length ts"] by simp
  finally show ?thesis .
qed

definition withRank :: "int list \<Rightarrow> Service \<Rightarrow> Service" where
  "withRank tiers s = s\<lparr>Tier := tierRank tiers (Tier s)\<rparr>"

lemma normalizeLoop_map:
  "snd (normalizeLoop tiers svcs) = map (map_option (withRank tiers)) svcs"
  "fst (normalizeLoop tiers svcs) \<longleftrightarrow> (\<exists>s. Some s \<in> set svcs \<and> tierRank tiers (Tier s) \<noteq> Tier s)"
  by (induction tiers svcs rule: normalizeLoop.induct)
     (auto simp: Let_def withRank_def split: prod.splits)

lemma withRank_id: "withRank tiers s = s \<longleftrightarrow> tierRank tiers (Tier s) = Tier s"
  by (cases s) (simp add: withRank_def)

lemma Some_mem_map:
  "Some y \<in> set (map (map_option f) xs) \<longleftrightarrow> (\<exists>x. Some x \<in> set xs \<and> y = f x)"
  by (induction xs) (auto simp: map_option_case split: option.splits)

lemma map_option_map_id:
  "map (map_option f) xs = xs \<longleftrightarrow> (\<forall>x. Some x \<in> set xs \<longrightarrow> f x = x)"
  by (induction xs) (auto simp: map_option_case split: option.splits)

lemma normalized_tiers:
  assumes "NormalizeServiceTiers services = (changed, services')"
  shows "{Tier s | s. Some s \<in> set services'} = {0..<int (length (serviceTiers services))}"
proof -
  let ?ts = "serviceTiers services"
  have "services' = map (map_option (withRank ?ts)) services"
    using assms normalizeLoop_map(1) [of ?ts services]
    by (simp add: NormalizeServiceTiers_def)
  then have mem: "Some y \<in> set services' \<longleftrightarrow> (\<exists>x. Some x \<in> set services \<and> y = withRank ?ts x)" for y
    by (simp only: Some_mem_map)
  have "{Tier s | s. Some s \<in> set services'} =
      {Tier (withRank ?ts s) | s. Some s \<in> set services}"
    unfolding mem by blast
  also have "\<dots> = {tierRank ?ts (Tier s) | s. Some s \<in> set services}"
    by (simp add: withRank_def)
  also have "\<dots> = tierRank ?ts ` set ?ts"
    by (auto simp: serviceTiers_facts(3))
  finally show ?thesis by (simp add: tierRank_image serviceTiers_facts(2))
qed

lemma tierRank_upto: "0 \<le> t \<Longrightarrow> t < int n \<Longrightarrow> tierRank (map int [0..<n]) t = t"
  using tierRank_nth [of "map int [0..<n]" "nat t"] by (simp add: distinct_map)

lemma normalized_fixed:
  assumes "NormalizeServiceTiers services = (changed, services')"
  shows "NormalizeServiceTiers services' = (False, services')"
proof -
  let ?n = "length (serviceTiers services)"
  have "set (map int [0..<?n]) = {0..<int ?n}"
    using image_int_atLeastLessThan [of 0 ?n] by simp
  then have "sorted_list_of_set {0..<int ?n} = map int [0..<?n]"
    by (intro sorted_distinct_set_unique) (simp_all add: distinct_map sorted_map)
  then have ts: "serviceTiers services' = map int [0..<?n]"
    by (simp add: serviceTiers_sorted_list normalized_tiers [OF assms])
  have fixed: "tierRank (serviceTiers services') (Tier s) = Tier s" if "Some s \<in> set services'" for s
  proof -
    have "Tier s \<in> {0..<int ?n}" using that normalized_tiers [OF assms] by blast
    then show ?thesis by (simp add: ts tierRank_upto)
  qed
  have "map (map_option (withRank (serviceTiers services'))) services' = services'"
    using fixed by (simp add: map_option_map_id withRank_id)
  with fixed show ?thesis
    using normalizeLoop_map [of "serviceTiers services'" services']
    by (intro prod_eqI) (auto simp: NormalizeServiceTiers_def)
qed

text \<open>
  Normalising the tiers of any list of services changes only tiers, makes them
  contiguous from 0 with one value per old tier, keeps the order the router tries the services
  in, reports a change exactly when the list changed, and a second pass changes nothing.
\<close>

theorem NormalizeServiceTiers_canonical:
  assumes "NormalizeServiceTiers services = (changed, services')"
  shows "map (map_option (Tier_update (\<lambda>_. 0))) services' =
           map (map_option (Tier_update (\<lambda>_. 0))) services \<and>
         {Tier s | s. Some s \<in> set services'} =
           {0..<int (card {Tier s | s. Some s \<in> set services})} \<and>
         (\<forall>i j a b. i < length services \<and> j < length services \<and>
            services ! i = Some a \<and> services ! j = Some b \<longrightarrow>
              (Tier (the (services' ! i)) < Tier (the (services' ! j)) \<longleftrightarrow> Tier a < Tier b)) \<and>
         (changed \<longleftrightarrow> services' \<noteq> services) \<and>
         NormalizeServiceTiers services' = (False, services')"
proof (intro conjI allI impI)
  let ?ts = "serviceTiers services"
  have s': "services' = map (map_option (withRank ?ts)) services"
    and ch: "changed \<longleftrightarrow> (\<exists>s. Some s \<in> set services \<and> tierRank ?ts (Tier s) \<noteq> Tier s)"
    using assms normalizeLoop_map [of ?ts services] by (simp_all add: NormalizeServiceTiers_def)
  show "map (map_option (Tier_update (\<lambda>_. 0))) services' = map (map_option (Tier_update (\<lambda>_. 0))) services"
    by (simp add: s' withRank_def option.map_comp comp_def)
  show "{Tier s | s. Some s \<in> set services'} = {0..<int (card {Tier s | s. Some s \<in> set services})}"
    using normalized_tiers [OF assms] distinct_card [OF serviceTiers_facts(2) [of services]]
    by (simp add: serviceTiers_facts(3))
  show "Tier (the (services' ! i)) < Tier (the (services' ! j)) \<longleftrightarrow> Tier a < Tier b"
    if *: "i < length services \<and> j < length services \<and> services ! i = Some a \<and> services ! j = Some b"
    for i j a b
  proof -
    from * have "Some a \<in> set services" "Some b \<in> set services" by (metis nth_mem)+
    then have "Tier a \<in> set ?ts" "Tier b \<in> set ?ts" by (auto simp: serviceTiers_facts(3))
    with * show ?thesis by (simp add: s' withRank_def tierRank_less serviceTiers_facts)
  qed
  show "changed \<longleftrightarrow> services' \<noteq> services"
    unfolding s' ch map_option_map_id by (simp add: withRank_id)
  show "NormalizeServiceTiers services' = (False, services')" by (rule normalized_fixed [OF assms])
qed

definition sampleService :: "string \<Rightarrow> int \<Rightarrow> Service" where
  "sampleService m t =
     \<lparr>Provider = ''p'', Model = m, Weight = 1, Active = True, TimeWindow = 300,
      ModelCapacity = None, Tier = t, Stats = zeroStats\<rparr>"

theorem NormalizeServiceTiers_canonical_witness:
  "let (changed, svcs) = NormalizeServiceTiers
         [Some (sampleService ''a'' 3), None, Some (sampleService ''b'' 1)]
   in NormalizeServiceTiers svcs = (False, svcs)"
  using NormalizeServiceTiers_canonical
    [of "[Some (sampleService ''a'' 3), None, Some (sampleService ''b'' 1)]"]
  by (cases "NormalizeServiceTiers [Some (sampleService ''a'' 3), None, Some (sampleService ''b'' 1)]")
     simp

section \<open>The statistics are those of the samples\<close>

text \<open>
  \<^verbatim>\<open>percentile\<close> reads a piecewise linear function through the sorted samples.
\<close>

definition interp :: "int list \<Rightarrow> rat \<Rightarrow> rat" where
  "interp xs x =
     (let l = nat \<lfloor>x\<rfloor>
      in if l + 1 \<ge> length xs then of_int (xs ! l)
         else of_int (xs ! l) + (x - of_nat l) * of_int (xs ! (l + 1) - xs ! l))"

definition clampUnit :: "rat \<Rightarrow> rat" where
  "clampUnit p = (if p \<le> 0 then 0 else if p \<ge> 1 then 1 else p)"

lemma percentile_interp:
  assumes "xs \<noteq> []"
  shows "percentile xs p = interp xs (clampUnit p * of_nat (length xs - 1))"
proof -
  have "interp xs 0 = of_int (xs ! 0)" by (simp add: interp_def)
  moreover have "interp xs (of_nat (length xs - 1)) = of_int (xs ! (length xs - 1))"
    using assms by (simp add: interp_def)
  moreover have "percentile xs p = interp xs (p * of_nat (length xs - 1))" if "\<not> p \<le> 0" "\<not> p \<ge> 1"
    using assms that unfolding percentile_def interp_def Let_def by simp
  ultimately show ?thesis using assms
    by (auto simp: percentile_def [of xs p] clampUnit_def)
qed

lemma interp_bounds:
  assumes "sorted xs" and "0 \<le> x" and "x \<le> of_nat (length xs - 1)" and "xs \<noteq> []"
  shows "of_int (xs ! nat \<lfloor>x\<rfloor>) \<le> interp xs x"
    and "nat \<lfloor>x\<rfloor> + 1 < length xs \<Longrightarrow> interp xs x \<le> of_int (xs ! (nat \<lfloor>x\<rfloor> + 1))"
    and "nat \<lfloor>x\<rfloor> < length xs"
proof -
  let ?l = "nat \<lfloor>x\<rfloor>"
  have l: "of_nat ?l = (of_int \<lfloor>x\<rfloor> :: rat)" using assms(2) by simp
  have "(of_nat ?l :: rat) \<le> of_nat (length xs - 1)"
    using l assms(3) of_int_floor_le [of x] by linarith
  then have "?l \<le> length xs - 1" using of_nat_le_iff by blast
  moreover have "0 < length xs" using assms(4) by simp
  ultimately show "?l < length xs" by linarith
  have frac: "0 \<le> x - of_nat ?l" "x - of_nat ?l \<le> 1"
    unfolding l using floor_correct [of x] by linarith+
  have step: "(0 :: rat) \<le> of_int (xs ! (?l + 1) - xs ! ?l)" if "?l + 1 < length xs"
  proof -
    have "xs ! ?l \<le> xs ! (?l + 1)" using that assms(1) by (simp add: sorted_nth_mono)
    then show ?thesis by simp
  qed
  show "of_int (xs ! ?l) \<le> interp xs x"
    using frac step by (cases "?l + 1 < length xs") (simp_all add: interp_def Let_def)
  show "interp xs x \<le> of_int (xs ! (?l + 1))" if "?l + 1 < length xs"
  proof -
    have "(x - of_nat ?l) * of_int (xs ! (?l + 1) - xs ! ?l) \<le> 1 * of_int (xs ! (?l + 1) - xs ! ?l)"
      using frac(2) step [OF that] by (rule mult_right_mono)
    with that show ?thesis by (simp add: interp_def Let_def)
  qed
qed

lemma interp_mono:
  assumes "sorted xs" and "0 \<le> x" and "x \<le> y" and "y \<le> of_nat (length xs - 1)" and "xs \<noteq> []"
  shows "interp xs x \<le> interp xs y"
proof -
  let ?lx = "nat \<lfloor>x\<rfloor>" and ?ly = "nat \<lfloor>y\<rfloor>"
  have x1: "x \<le> of_nat (length xs - 1)" and y0: "0 \<le> y" using assms by linarith+
  have le: "?lx \<le> ?ly" using assms(3) by (simp add: floor_mono nat_mono)
  note bx = interp_bounds [OF assms(1,2) x1 assms(5)] and bly = interp_bounds [OF assms(1) y0 assms(4,5)]
  show ?thesis
  proof (cases "?lx = ?ly")
    case True
    show ?thesis
    proof (cases "?lx + 1 < length xs")
      case inside: True
      have "xs ! ?lx \<le> xs ! (?lx + 1)" using inside assms(1) by (simp add: sorted_nth_mono)
      then have "(0 :: rat) \<le> of_int (xs ! (?lx + 1) - xs ! ?lx)" by simp
      then have "(x - of_nat ?lx) * of_int (xs ! (?lx + 1) - xs ! ?lx) \<le>
                 (y - of_nat ?lx) * of_int (xs ! (?lx + 1) - xs ! ?lx)"
        using assms(3) by (intro mult_right_mono) auto
      then show ?thesis using True inside by (simp add: interp_def Let_def)
    next
      case False
      then show ?thesis using True by (simp add: interp_def Let_def)
    qed
  next
    case False
    with le have lt: "?lx + 1 \<le> ?ly" by simp
    have "interp xs x \<le> of_int (xs ! (?lx + 1))" using bx(2) lt bly(3) by linarith
    also have "\<dots> \<le> of_int (xs ! ?ly)" using lt bly(3) assms(1) by (simp add: sorted_nth_mono)
    also have "\<dots> \<le> interp xs y" by (rule bly(1))
    finally show ?thesis .
  qed
qed

lemma clampUnit_bounds: "0 \<le> clampUnit p" "clampUnit p \<le> 1" "p \<le> q \<Longrightarrow> clampUnit p \<le> clampUnit q"
  by (auto simp: clampUnit_def)

lemma percentile_mono:
  assumes "sorted xs" and "p \<le> q"
  shows "percentile xs p \<le> percentile xs q"
proof (cases "xs = []")
  case False
  have "clampUnit p * of_nat (length xs - 1) \<le> clampUnit q * (of_nat (length xs - 1) :: rat)"
    using assms(2) by (intro mult_right_mono clampUnit_bounds) auto
  moreover have "clampUnit q * of_nat (length xs - 1) \<le> 1 * (of_nat (length xs - 1) :: rat)"
    by (intro mult_right_mono clampUnit_bounds) auto
  moreover have "0 \<le> clampUnit p * (of_nat (length xs - 1) :: rat)"
    by (intro mult_nonneg_nonneg clampUnit_bounds) auto
  ultimately show ?thesis using False assms(1) by (simp add: percentile_interp interp_mono)
qed (simp add: percentile_def)

lemma percentile_range:
  assumes "sorted xs" and "xs \<noteq> []"
  shows "of_int (Min (set xs)) \<le> percentile xs p \<and> percentile xs p \<le> of_int (Max (set xs))"
proof -
  have "percentile xs 0 = of_int (xs ! 0)" "percentile xs 1 = of_int (xs ! (length xs - 1))"
    using assms(2) by (simp_all add: percentile_def)
  moreover have "Min (set xs) \<le> xs ! 0" "xs ! (length xs - 1) \<le> Max (set xs)"
    using assms(2) by simp_all
  moreover have "percentile xs (min p 0) \<le> percentile xs p" "percentile xs p \<le> percentile xs (max p 1)"
    using assms(1) by (simp_all add: percentile_mono)
  moreover have "percentile xs (min p 0) = percentile xs 0" "percentile xs (max p 1) = percentile xs 1"
    using assms(2) by (simp_all add: percentile_def)
  ultimately show ?thesis by (metis (mono_tags, opaque_lifting) of_int_le_iff order_trans)
qed

definition sampled :: "int list \<Rightarrow> rat \<Rightarrow> rat \<Rightarrow> rat \<Rightarrow> rat \<Rightarrow> bool" where
  "sampled xs avg p50 p95 p99 \<longleftrightarrow>
     (if xs = [] then avg = 0 \<and> p50 = 0 \<and> p95 = 0 \<and> p99 = 0
      else avg * of_nat (length xs) = of_int (sum_list xs) \<and>
           of_int (Min (set xs)) \<le> p50 \<and> p50 \<le> p95 \<and> p95 \<le> p99 \<and> p99 \<le> of_int (Max (set xs)))"

lemma sampled_sort:
  "xs \<noteq> [] \<Longrightarrow>
     sampled xs (of_int (sum_list xs) / of_nat (length xs)) (percentile (sort xs) (1 / 2))
       (percentile (sort xs) (19 / 20)) (percentile (sort xs) (99 / 100))"
proof -
  assume ne: "xs \<noteq> []"
  then have "sort xs \<noteq> []" by (metis set_empty set_sort)
  with ne show ?thesis
    using percentile_range [of "sort xs" "1 / 2"] percentile_range [of "sort xs" "99 / 100"]
    by (simp add: sampled_def percentile_mono)
qed

definition stats_inv :: "ServiceStats \<Rightarrow> bool" where
  "stats_inv ss \<longleftrightarrow>
     WindowTokensConsumed ss = WindowInputTokens ss + WindowOutputTokens ss \<and>
     WindowCostTokens ss = WindowTokensConsumed ss \<and>
     0 \<le> WindowRequestCount ss \<and> WindowRequestCount ss \<le> RequestCount ss \<and>
     0 \<le> WindowCacheHits ss \<and> 0 \<le> WindowCacheMisses ss \<and>
     CacheHitRate ss * of_int (WindowCacheHits ss + WindowCacheMisses ss) = of_int (WindowCacheHits ss) \<and>
     0 \<le> CacheHitRate ss \<and> CacheHitRate ss \<le> 1 \<and>
     sampled (LatencySamples ss) (AvgLatencyMs ss) (P50LatencyMs ss) (P95LatencyMs ss) (P99LatencyMs ss) \<and>
     sampled (TTFTSamples ss) (AvgTTFTMs ss) (P50TTFTMs ss) (P95TTFTMs ss) (P99TTFTMs ss) \<and>
     AvgTokenSpeed ss * of_nat (length (SpeedSamples ss)) = sum_list (SpeedSamples ss)"

datatype stats_op =
    OpUsage time int int
  | OpWindowStats time
  | OpTokenDetails time
  | OpReset time
  | OpLatency time int nat
  | OpSpeed time rat nat
  | OpTTFT time int nat
  | OpCache bool

fun stats_step :: "stats_op \<Rightarrow> ServiceStats \<Rightarrow> ServiceStats" where
  "stats_step (OpUsage t i out) ss = Stats_RecordUsage t i out ss"
| "stats_step (OpWindowStats t) ss = snd (Stats_GetWindowStats t ss)"
| "stats_step (OpTokenDetails t) ss = snd (GetWindowTokenDetails t ss)"
| "stats_step (OpReset t) ss = ResetWindow t ss"
| "stats_step (OpLatency t l m) ss = RecordLatency t l m ss"
| "stats_step (OpSpeed t v m) ss = RecordTokenSpeed t v m ss"
| "stats_step (OpTTFT t l m) ss = RecordTTFT t l m ss"
| "stats_step (OpCache hit) ss = RecordCacheHit hit ss"

lemma stats_inv_ResetWindow [keeps]: "stats_inv ss \<Longrightarrow> stats_inv (ResetWindow t ss)"
  by (simp add: stats_inv_def ResetWindow_def)

lemma stats_inv_RecordUsage [keeps]: "stats_inv ss \<Longrightarrow> stats_inv (Stats_RecordUsage t i out ss)"
  by (simp add: stats_inv_def Stats_RecordUsage_def Let_def)

lemma stats_inv_windows [keeps]:
  "stats_inv ss \<Longrightarrow> stats_inv (snd (Stats_GetWindowStats t ss))"
  "stats_inv ss \<Longrightarrow> stats_inv (snd (GetWindowTokenDetails t ss))"
  by (simp_all add: Stats_GetWindowStats_def GetWindowTokenDetails_def stats_inv_ResetWindow)

lemma stats_inv_RecordLatency [keeps]: "stats_inv ss \<Longrightarrow> stats_inv (RecordLatency t l m ss)"
  using sampled_sort [of "keepLast m (LatencySamples ss @ [l])"]
  by (auto simp: stats_inv_def RecordLatency_def recalculateLatencyStats_def Let_def sampled_def [of "[]"])

lemma stats_inv_RecordTTFT [keeps]: "stats_inv ss \<Longrightarrow> stats_inv (RecordTTFT t l m ss)"
  using sampled_sort [of "keepLast m (TTFTSamples ss @ [l])"]
  by (auto simp: stats_inv_def RecordTTFT_def recalculateTTFTStats_def Let_def sampled_def [of "[]"])

lemma stats_inv_RecordTokenSpeed [keeps]: "stats_inv ss \<Longrightarrow> stats_inv (RecordTokenSpeed t v m ss)"
  by (simp add: stats_inv_def RecordTokenSpeed_def recalculateSpeedStats_def)

lemma stats_inv_RecordCacheHit [keeps]: "stats_inv ss \<Longrightarrow> stats_inv (RecordCacheHit hit ss)"
  by (cases hit) (simp_all add: stats_inv_def RecordCacheHit_def Let_def)

lemma stats_inv_zero [keeps]: "stats_inv (zeroStats\<lparr>st_ServiceID := i, st_TimeWindow := w, WindowStart := t\<rparr>)"
  by (simp add: stats_inv_def zeroStats_def sampled_def)

lemma stats_inv_step [keeps]: "stats_inv ss \<Longrightarrow> stats_inv (stats_step op ss)"
  by (cases op) (simp_all add: keeps)

text \<open>
  However a service's statistics are used from their initialisation on, the
  window's token total is the sum of its input and output tokens and equals its cost, the
  cache hit rate is hits over all lookups and lies in [0, 1], every average is the mean of the
  samples kept, and the percentiles are ordered and lie between the smallest and the largest
  sample.
\<close>

theorem service_stats_consistent:
  assumes "st_ServiceID (Stats svc) = []"
  shows "stats_inv (fold stats_step ops (Stats (InitializeStats now svc)))"
proof -
  have "stats_inv (Stats (InitializeStats now svc))"
    using assms by (simp add: InitializeStats_def keeps)
  then show ?thesis by (induction ops rule: rev_induct) (simp_all add: stats_inv_step)
qed

theorem service_stats_consistent_witness:
  "stats_inv (fold stats_step [OpLatency 5 30 2, OpLatency 6 10 2, OpLatency 7 20 2, OpCache True, OpUsage 8 3 4]
     (Stats (InitializeStats 1 (sampleService ''m'' 0))))"
  by (rule service_stats_consistent) (simp add: sampleService_def zeroStats_def)

text \<open>The sample windows are the newest samples.\<close>

lemma keepLast_snoc: "0 < m \<Longrightarrow> keepLast m (keepLast m xs @ [x]) = keepLast m (xs @ [x])"
  by (cases "m < length xs") (auto simp: keepLast_def Suc_diff_le)

lemma RecordLatency_window:
  assumes "0 < m" and "LatencySamples ss = []"
  shows "LatencySamples (fold (\<lambda>(t, l). RecordLatency t l m) ls ss) = keepLast m (map snd ls)"
proof (induction ls rule: rev_induct)
  case Nil
  with assms show ?case by (simp add: keepLast_def)
next
  case (snoc l ls)
  with assms(1) show ?case
    by (cases l) (simp add: RecordLatency_def recalculateLatencyStats_def Let_def keepLast_snoc)
qed

end
