(* ===== verification/TB_SmartRouting.thy ===== *)
theory TB_SmartRouting
  imports TB_Prelude TB_Service
begin

text \<open>
  Smart routing, \<^verbatim>\<open>internal/routing/smartrouting\<close>: the request context and its extraction
  (\<^verbatim>\<open>context.go\<close>, \<^verbatim>\<open>agent_detect.go\<close>), the operations and their validation (\<^verbatim>\<open>op.go\<close>,
  \<^verbatim>\<open>type.go\<close>), time windows (\<^verbatim>\<open>time_range.go\<close>), the evaluation of rules (\<^verbatim>\<open>routing.go\<close>)
  with its trace (\<^verbatim>\<open>eval_trace.go\<close>) and the processor registry (\<^verbatim>\<open>processor.go\<close>).

  Positions, operations and value types are strings in the code and here.  The glob library,
  the JSON decoder of time windows and the time-zone database are the functions of the record
  \<open>smart_ext\<close>.  The texts \<^verbatim>\<open>Reason\<close> and \<^verbatim>\<open>Actual\<close> of a result are for a reader of the
  trace; \<open>Reason\<close> is kept as the branch that produced it, \<open>Actual\<close> is left out.
\<close>

section \<open>Operations\<close>

abbreviation "PositionModel \<equiv> ''model''"
abbreviation "PositionThinking \<equiv> ''thinking''"
abbreviation "PositionContextSystem \<equiv> ''context_system''"
abbreviation "PositionContextUser \<equiv> ''context_user''"
abbreviation "PositionLatestUser \<equiv> ''latest_user''"
abbreviation "PositionToken \<equiv> ''token''"
abbreviation "PositionServiceTTFT \<equiv> ''service_ttft''"
abbreviation "PositionServiceCapacity \<equiv> ''service_capacity''"
abbreviation "PositionServiceQuota \<equiv> ''service_quota''"
abbreviation "PositionAgentClaudeCode \<equiv> ''agent.claude_code''"
abbreviation "PositionTime \<equiv> ''time''"

abbreviation "ValueTypeString \<equiv> ''string''"
abbreviation "ValueTypeInt \<equiv> ''int''"
abbreviation "ValueTypeBool \<equiv> ''bool''"
abbreviation "ValueTypeTimeRange \<equiv> ''time_range''"

record SmartOp =
  op_UUID :: string
  Position :: string
  Operation :: string
  Value :: string
  MetaType :: string

record SmartRouting =
  sr_Description :: string
  Ops :: "SmartOp list"
  sr_Services :: "Service list"

text \<open>The registry \<^verbatim>\<open>Operations\<close>: position, operation and value type of each operation.\<close>

definition Operations :: "(string \<times> string \<times> string) list" where
  "Operations =
     [(PositionTime, ''time_range'', ValueTypeTimeRange),
      (PositionModel, ''contains'', ValueTypeString),
      (PositionModel, ''glob'', ValueTypeString),
      (PositionModel, ''equals'', ValueTypeString),
      (PositionThinking, ''enabled'', ValueTypeBool),
      (PositionThinking, ''disabled'', ValueTypeBool),
      (PositionContextSystem, ''contains'', ValueTypeString),
      (PositionContextSystem, ''regex'', ValueTypeString),
      (PositionContextUser, ''contains'', ValueTypeString),
      (PositionContextUser, ''regex'', ValueTypeString),
      (PositionLatestUser, ''contains'', ValueTypeString),
      (PositionLatestUser, ''type'', ValueTypeString),
      (PositionToken, ''ge'', ValueTypeInt),
      (PositionToken, ''gt'', ValueTypeInt),
      (PositionToken, ''le'', ValueTypeInt),
      (PositionToken, ''lt'', ValueTypeInt),
      (PositionServiceTTFT, ''avg_le'', ValueTypeInt),
      (PositionServiceTTFT, ''avg_ge'', ValueTypeInt),
      (PositionServiceTTFT, ''max_le'', ValueTypeInt),
      (PositionServiceTTFT, ''max_ge'', ValueTypeInt),
      (PositionAgentClaudeCode, ''equals'', ValueTypeString),
      (PositionServiceCapacity, ''util_le'', ValueTypeInt),
      (PositionServiceCapacity, ''util_ge'', ValueTypeInt),
      (PositionServiceCapacity, ''util_lt'', ValueTypeInt),
      (PositionServiceCapacity, ''util_gt'', ValueTypeInt),
      (PositionServiceQuota, ''pct_le'', ValueTypeInt),
      (PositionServiceQuota, ''pct_ge'', ValueTypeInt),
      (PositionServiceQuota, ''pct_lt'', ValueTypeInt),
      (PositionServiceQuota, ''pct_gt'', ValueTypeInt)]"

definition Position_IsValid :: "string \<Rightarrow> bool" where
  "Position_IsValid p \<longleftrightarrow>
     p \<in> {PositionModel, PositionThinking, PositionContextSystem, PositionContextUser,
          PositionLatestUser, PositionToken, PositionServiceTTFT, PositionServiceCapacity,
          PositionServiceQuota, PositionAgentClaudeCode, PositionTime}"

definition parseInt :: "string \<Rightarrow> int option" where
  "parseInt s = (if s = [] then None else Atoi s)"

definition parseBool :: "string \<Rightarrow> bool option" where
  "parseBool s = (if s = [] then Some False else ParseBool s)"

definition Op_String :: "SmartOp \<Rightarrow> string option" where
  "Op_String o1 = Some (Value o1)"

definition Op_Int :: "SmartOp \<Rightarrow> int option" where
  "Op_Int o1 = parseInt (Value o1)"

definition Op_Bool :: "SmartOp \<Rightarrow> bool option" where
  "Op_Bool o1 = parseBool (Value o1)"

section \<open>Time windows\<close>

record smart_ext =
  glob_Compile :: "string \<Rightarrow> (string \<Rightarrow> bool) option"
  decodeTimeRange :: "string \<Rightarrow> (string \<times> string \<times> string \<times> bool) option"
  LoadLocation :: "string \<Rightarrow> (time \<Rightarrow> duration) option"

record timeRange =
  Start :: string
  End :: string
  Timezone :: string
  Outside :: bool
  startMinute :: int
  endMinute :: int
  location :: "time \<Rightarrow> duration"

definition digitAt :: "string \<Rightarrow> nat \<Rightarrow> int" where
  "digitAt s i = int (of_char (s ! i)) - 48"

definition parseTimeOfDay :: "string \<Rightarrow> int option" where
  "parseTimeOfDay value =
     (if length value \<noteq> 5 \<or> value ! 2 \<noteq> CHR '':'' \<or>
         digitAt value 0 < 0 \<or> digitAt value 0 > 2 \<or> digitAt value 1 < 0 \<or> digitAt value 1 > 9 \<or>
         digitAt value 3 < 0 \<or> digitAt value 3 > 5 \<or> digitAt value 4 < 0 \<or> digitAt value 4 > 9
      then None
      else
        (let hour = digitAt value 0 * 10 + digitAt value 1;
             minute = digitAt value 3 * 10 + digitAt value 4
         in if hour > 23 then None else Some (hour * 60 + minute)))"

definition parseTimeRange :: "smart_ext \<Rightarrow> string \<Rightarrow> timeRange option" where
  "parseTimeRange ext value =
     (case decodeTimeRange ext value of
        None \<Rightarrow> None
      | Some (start, end', timezone, outside) \<Rightarrow>
          if start = [] \<or> end' = [] \<or> timezone = [] then None
          else
            (case parseTimeOfDay start of
               None \<Rightarrow> None
             | Some sm \<Rightarrow>
                 (case parseTimeOfDay end' of
                    None \<Rightarrow> None
                  | Some em \<Rightarrow>
                      if sm = em then None
                      else (case LoadLocation ext timezone of
                              None \<Rightarrow> None
                            | Some loc \<Rightarrow>
                                Some \<lparr>Start = start, End = end', Timezone = timezone,
                                      Outside = outside, startMinute = sm, endMinute = em,
                                      location = loc\<rparr>))))"

text \<open>
  The wall clock of a zone: a location maps an instant to its offset from UTC, and the zero
  time is midnight UTC, so hour and minute are those of the shifted instant's day.
\<close>

definition minuteOfDay :: "(time \<Rightarrow> duration) \<Rightarrow> time \<Rightarrow> int" where
  "minuteOfDay loc now = ((now + loc now) div Minute) mod 1440"

definition timeRange_includes :: "timeRange \<Rightarrow> time \<Rightarrow> bool" where
  "timeRange_includes tr now =
     (let minute = minuteOfDay (location tr) now in
      if startMinute tr < endMinute tr then minute \<ge> startMinute tr \<and> minute < endMinute tr
      else minute \<ge> startMinute tr \<or> minute < endMinute tr)"

section \<open>Validation\<close>

datatype op_error =
    InvalidPosition string
  | EmptyOperation
  | InvalidOperation string string
  | TypeError string
  | InvalidTimeRange
  | UnknownType string

definition isValidOperationForPosition :: "string \<Rightarrow> string \<Rightarrow> bool" where
  "isValidOperationForPosition pos op \<longleftrightarrow> (\<exists>(p, o1, t) \<in> set Operations. p = pos \<and> o1 = op)"

definition expectedType :: "SmartOp \<Rightarrow> string" where
  "expectedType op =
     (case List.find (\<lambda>(p, o1, t). p = Position op \<and> o1 = Operation op) Operations of
        Some (p, o1, t) \<Rightarrow> if t \<noteq> [] then t else ValueTypeString
      | None \<Rightarrow> ValueTypeString)"

definition validateOpValueType :: "smart_ext \<Rightarrow> SmartOp \<Rightarrow> op_error option" where
  "validateOpValueType ext op =
     (let t = expectedType op in
      if t = ValueTypeString \<and> MetaType op = [] then None
      else if t = ValueTypeString then None
      else if t = ValueTypeInt then
        (case Op_Int op of Some _ \<Rightarrow> None | None \<Rightarrow> Some (TypeError ValueTypeInt))
      else if t = ValueTypeBool then
        (case Op_Bool op of Some _ \<Rightarrow> None | None \<Rightarrow> Some (TypeError ValueTypeBool))
      else if t = ValueTypeTimeRange then
        (case parseTimeRange ext (Value op) of Some _ \<Rightarrow> None | None \<Rightarrow> Some InvalidTimeRange)
      else Some (UnknownType t))"

definition ValidateSmartOp :: "smart_ext \<Rightarrow> SmartOp \<Rightarrow> op_error option" where
  "ValidateSmartOp ext op =
     (if \<not> Position_IsValid (Position op) then Some (InvalidPosition (Position op))
      else if Operation op = [] then Some EmptyOperation
      else if \<not> isValidOperationForPosition (Position op) (Operation op)
      then Some (InvalidOperation (Operation op) (Position op))
      else validateOpValueType ext op)"

datatype rule_error =
    EmptyDescription
  | EmptyOps
  | BadOp nat op_error
  | EmptyServices
  | EmptyProvider nat
  | EmptyModel nat

fun firstBadOp :: "smart_ext \<Rightarrow> nat \<Rightarrow> SmartOp list \<Rightarrow> rule_error option" where
  "firstBadOp ext i [] = None"
| "firstBadOp ext i (op # ops) =
     (case ValidateSmartOp ext op of
        Some e \<Rightarrow> Some (BadOp i e)
      | None \<Rightarrow> firstBadOp ext (Suc i) ops)"

fun firstBadService :: "nat \<Rightarrow> Service list \<Rightarrow> rule_error option" where
  "firstBadService i [] = None"
| "firstBadService i (svc # svcs) =
     (if Provider svc = [] then Some (EmptyProvider i)
      else if Model svc = [] then Some (EmptyModel i)
      else firstBadService (Suc i) svcs)"

definition ValidateSmartRouting :: "smart_ext \<Rightarrow> SmartRouting \<Rightarrow> rule_error option" where
  "ValidateSmartRouting ext rule =
     (if sr_Description rule = [] then Some EmptyDescription
      else if Ops rule = [] then Some EmptyOps
      else
        (case firstBadOp ext 0 (Ops rule) of
           Some e \<Rightarrow> Some e
         | None \<Rightarrow> if sr_Services rule = [] then Some EmptyServices
                   else firstBadService 0 (sr_Services rule)))"

fun firstBadRule :: "smart_ext \<Rightarrow> nat \<Rightarrow> SmartRouting list \<Rightarrow> (nat \<times> rule_error) option" where
  "firstBadRule ext i [] = None"
| "firstBadRule ext i (r # rs) =
     (case ValidateSmartRouting ext r of
        Some e \<Rightarrow> Some (i, e)
      | None \<Rightarrow> firstBadRule ext (Suc i) rs)"

text \<open>A router is its list of validated rules.\<close>

definition NewRouter :: "smart_ext \<Rightarrow> SmartRouting list \<Rightarrow> (nat \<times> rule_error) + SmartRouting list" where
  "NewRouter ext rules =
     (case firstBadRule ext 0 rules of Some e \<Rightarrow> Inl e | None \<Rightarrow> Inr rules)"

section \<open>The request context\<close>

record ServiceCapacityInfo =
  sc_ServiceID :: string
  Capacity :: int
  ActiveCount :: int

record ServiceQuotaInfo =
  sq_ServiceID :: string
  Pct :: rat

record RequestContext =
  rc_Model :: string
  ThinkingEnabled :: bool
  SystemMessages :: "string list"
  UserMessages :: "string list"
  LatestRole :: string
  LatestContentType :: string
  LatestUserHasText :: bool
  HasImage :: bool
  EstimatedTokens :: int
  ClaudeCodeRequestKind :: string
  rc_ServiceStats :: "ServiceStats list"
  rc_ServiceCapacity :: "ServiceCapacityInfo list"
  rc_ServiceQuota :: "ServiceQuotaInfo list"

definition GetLatestUserMessage :: "RequestContext \<Rightarrow> string" where
  "GetLatestUserMessage rc =
     (if UserMessages rc = [] then [] else UserMessages rc ! (length (UserMessages rc) - 1))"

definition CombineMessages :: "string list \<Rightarrow> string" where
  "CombineMessages messages = Join messages [char_of (10 :: nat)]"

definition EstimateTokens :: "string \<Rightarrow> int" where
  "EstimateTokens text = (if text = [] then 0 else int (length text div 4))"

text \<open>
  The part of an Anthropic beta request the extraction reads: its model, whether thinking is
  enabled, the system texts, and role and content blocks of each message.
\<close>

datatype beta_block = BlockText string | BlockImage | BlockOther

record beta_request =
  br_Model :: string
  br_Thinking :: bool
  br_System :: "string list"
  br_Messages :: "(string \<times> beta_block list) list"

fun blockParts :: "beta_block list \<Rightarrow> string list" where
  "blockParts [] = []"
| "blockParts (BlockText t # bs) = t # blockParts bs"
| "blockParts (BlockImage # bs) = ''[image]'' # blockParts bs"
| "blockParts (BlockOther # bs) = blockParts bs"

definition extractBetaContent :: "beta_block list \<Rightarrow> string" where
  "extractBetaContent content = Join (blockParts content) [char_of (10 :: nat)]"

definition hasImageInBetaContent :: "beta_block list \<Rightarrow> bool" where
  "hasImageInBetaContent content \<longleftrightarrow> BlockImage \<in> set content"

definition ExtractContextFromBetaRequest :: "beta_request \<Rightarrow> RequestContext" where
  "ExtractContextFromBetaRequest req =
     (let msgs = br_Messages req;
          sysm = filter (\<lambda>s. s \<noteq> []) (br_System req);
          users = filter (\<lambda>s. s \<noteq> [])
                    (map (\<lambda>(role, c). extractBetaContent c) (filter (\<lambda>(role, c). role = ''user'') msgs));
          lastUser = List.find (\<lambda>(role, c). role = ''user'') (rev msgs)
      in \<lparr>rc_Model = br_Model req, ThinkingEnabled = br_Thinking req, SystemMessages = sysm,
          UserMessages = users,
          LatestRole = (if msgs = [] then [] else fst (last msgs)),
          LatestContentType =
            (case lastUser of
               Some (role, c) \<Rightarrow> if hasImageInBetaContent c then ''image'' else []
             | None \<Rightarrow> []),
          LatestUserHasText =
            (case lastUser of Some (role, c) \<Rightarrow> extractBetaContent c \<noteq> [] | None \<Rightarrow> False),
          HasImage = (\<exists>(role, c) \<in> set msgs. hasImageInBetaContent c),
          EstimatedTokens = EstimateTokens (Join (sysm @ users) [char_of (10 :: nat)]),
          ClaudeCodeRequestKind = [], rc_ServiceStats = [], rc_ServiceCapacity = [],
          rc_ServiceQuota = []\<rparr>)"

subsection \<open>Claude Code request kinds\<close>

abbreviation "ClaudeCodeKindMain \<equiv> ''main''"
abbreviation "ClaudeCodeKindSubagent \<equiv> ''subagent''"
abbreviation "ClaudeCodeKindCompact \<equiv> ''compact''"

definition isClaudeCodeCompactRequest :: "RequestContext \<Rightarrow> bool" where
  "isClaudeCodeCompactRequest ctx \<longleftrightarrow>
     (\<exists>s \<in> set (SystemMessages ctx). Contains s ''summary of the conversation'') \<or>
     (\<exists>u \<in> set (UserMessages ctx). Contains u ''summary of the conversation'')"

definition isClaudeCodeSubagentRequest :: "RequestContext \<Rightarrow> bool" where
  "isClaudeCodeSubagentRequest ctx \<longleftrightarrow>
     (if \<exists>s \<in> set (SystemMessages ctx). Contains s ''You are Claude Code'' then False
      else \<exists>s \<in> set (SystemMessages ctx). Contains s ''You are an agent'')"

definition DetectClaudeCodeRequestKind :: "RequestContext option \<Rightarrow> string" where
  "DetectClaudeCodeRequestKind octx =
     (case octx of
        None \<Rightarrow> ClaudeCodeKindMain
      | Some ctx \<Rightarrow>
          if isClaudeCodeCompactRequest ctx then ClaudeCodeKindCompact
          else if isClaudeCodeSubagentRequest ctx then ClaudeCodeKindSubagent
          else ClaudeCodeKindMain)"

section \<open>Evaluation of operations\<close>

text \<open>The branches of the evaluators, one per format of the code's \<^verbatim>\<open>Reason\<close> text.\<close>

datatype reason =
    NoReason
  | UnknownPosition
  | Unsupported
  | InvalidValue
  | InvalidGlob
  | RegexError
  | Compared
  | ValueFalse
  | NoData
  | LatestNotUser
  | LatestNoText
  | KindNotSet

record OpEvalResult =
  res_UUID :: string
  res_Position :: string
  res_Operation :: string
  res_Value :: string
  Matched :: bool
  Reason :: reason

definition newOpResult :: "SmartOp \<Rightarrow> OpEvalResult" where
  "newOpResult op =
     \<lparr>res_UUID = op_UUID op, res_Position = Position op, res_Operation = Operation op,
      res_Value = Value op, Matched = False, Reason = NoReason\<rparr>"

abbreviation outcome :: "SmartOp \<Rightarrow> bool \<Rightarrow> reason \<Rightarrow> OpEvalResult" where
  "outcome op m r \<equiv> (newOpResult op)\<lparr>Matched := m, Reason := r\<rparr>"

definition evaluateTimeRangeOp :: "smart_ext \<Rightarrow> time \<Rightarrow> SmartOp \<Rightarrow> OpEvalResult" where
  "evaluateTimeRangeOp ext now op =
     (if Operation op \<noteq> ''time_range'' then outcome op False Unsupported
      else
        (case parseTimeRange ext (Value op) of
           None \<Rightarrow> outcome op False InvalidValue
         | Some tr \<Rightarrow> outcome op (timeRange_includes tr now \<noteq> Outside tr) Compared))"

definition evaluateModelOp :: "smart_ext \<Rightarrow> RequestContext \<Rightarrow> SmartOp \<Rightarrow> OpEvalResult" where
  "evaluateModelOp ext ctx op =
     (case Op_String op of
        None \<Rightarrow> outcome op False InvalidValue
      | Some value \<Rightarrow>
          if Operation op = ''contains'' then outcome op (Contains (rc_Model ctx) value) Compared
          else if Operation op = ''glob'' then
            (case glob_Compile ext value of
               None \<Rightarrow> outcome op False InvalidGlob
             | Some g \<Rightarrow> outcome op (g (rc_Model ctx)) Compared)
          else if Operation op = ''equals'' then outcome op (rc_Model ctx = value) Compared
          else outcome op False Unsupported)"

definition evaluateThinkingOp :: "RequestContext \<Rightarrow> SmartOp \<Rightarrow> OpEvalResult" where
  "evaluateThinkingOp ctx op =
     (let v = Op_Bool op; val = (case v of Some b \<Rightarrow> b | None \<Rightarrow> False) in
      if v = None \<and> Value op \<noteq> [] then outcome op False InvalidValue
      else if Operation op = ''enabled'' then
        (if Value op = [] \<or> val then outcome op (ThinkingEnabled ctx) Compared
         else outcome op False ValueFalse)
      else if Operation op = ''disabled'' then
        (if Value op = [] \<or> val then outcome op (\<not> ThinkingEnabled ctx) Compared
         else outcome op False ValueFalse)
      else outcome op False Unsupported)"

definition stringsMatch :: "smart_ext \<Rightarrow> string \<Rightarrow> string \<Rightarrow> bool \<Rightarrow> bool option" where
  "stringsMatch ext text pattern useRegex =
     (if \<not> useRegex then Some (Contains text pattern)
      else (case glob_Compile ext pattern of
              None \<Rightarrow> Some (Contains text pattern)
            | Some g \<Rightarrow> Some (g text)))"

definition evaluateTextContains ::
    "smart_ext \<Rightarrow> SmartOp \<Rightarrow> string \<Rightarrow> string \<Rightarrow> string \<Rightarrow> OpEvalResult" where
  "evaluateTextContains ext op text containsOp regexOp =
     (case Op_String op of
        None \<Rightarrow> outcome op False InvalidValue
      | Some value \<Rightarrow>
          if Operation op = containsOp then outcome op (Contains text value) Compared
          else if Operation op = regexOp then
            (case stringsMatch ext text value True of
               None \<Rightarrow> outcome op False RegexError
             | Some ok \<Rightarrow> outcome op ok Compared)
          else outcome op False Unsupported)"

definition evaluateContextSystemOp :: "smart_ext \<Rightarrow> RequestContext \<Rightarrow> SmartOp \<Rightarrow> OpEvalResult" where
  "evaluateContextSystemOp ext ctx op =
     evaluateTextContains ext op (CombineMessages (SystemMessages ctx)) ''contains'' ''regex''"

definition evaluateContextUserOp :: "smart_ext \<Rightarrow> RequestContext \<Rightarrow> SmartOp \<Rightarrow> OpEvalResult" where
  "evaluateContextUserOp ext ctx op =
     evaluateTextContains ext op (CombineMessages (UserMessages ctx)) ''contains'' ''regex''"

definition evaluateLatestUserOp :: "RequestContext \<Rightarrow> SmartOp \<Rightarrow> OpEvalResult" where
  "evaluateLatestUserOp ctx op =
     (case Op_String op of
        None \<Rightarrow> outcome op False InvalidValue
      | Some value \<Rightarrow>
          if Operation op = ''contains'' then
            (if LatestRole ctx \<noteq> ''user'' then outcome op False LatestNotUser
             else if \<not> LatestUserHasText ctx then outcome op False LatestNoText
             else outcome op (Contains (GetLatestUserMessage ctx) value) Compared)
          else if Operation op = ''type'' then
            (if LatestRole ctx \<noteq> ''user'' \<or> \<not> LatestUserHasText ctx
             then outcome op False LatestNotUser
             else outcome op (LatestContentType ctx = value) Compared)
          else outcome op False Unsupported)"

definition evaluateTokenOp :: "RequestContext \<Rightarrow> SmartOp \<Rightarrow> OpEvalResult" where
  "evaluateTokenOp ctx op =
     (case Op_Int op of
        None \<Rightarrow> outcome op False InvalidValue
      | Some target \<Rightarrow>
          let tokens = EstimatedTokens ctx in
          if Operation op = ''ge'' then outcome op (tokens \<ge> target) Compared
          else if Operation op = ''gt'' then outcome op (tokens > target) Compared
          else if Operation op = ''le'' then outcome op (tokens \<le> target) Compared
          else if Operation op = ''lt'' then outcome op (tokens < target) Compared
          else outcome op False Unsupported)"

definition minFloat :: "rat list \<Rightarrow> rat" where
  "minFloat vals = fold (\<lambda>v m. if v < m then v else m) (tl vals) (hd vals)"

definition avgFloat :: "rat list \<Rightarrow> rat" where
  "avgFloat vals = sum_list vals / of_nat (length vals)"

definition ttftValues :: "string \<Rightarrow> ServiceStats list \<Rightarrow> rat list" where
  "ttftValues operation stats =
     (if operation \<in> {''avg_le'', ''avg_ge''} then filter (\<lambda>v. v > 0) (map AvgTTFTMs stats)
      else if operation \<in> {''max_le'', ''max_ge''} then filter (\<lambda>v. v > 0) (map P99TTFTMs stats)
      else [])"

definition evaluateServiceTTFTOp :: "RequestContext \<Rightarrow> SmartOp \<Rightarrow> OpEvalResult" where
  "evaluateServiceTTFTOp ctx op =
     (if rc_ServiceStats ctx = [] then outcome op True NoData
      else
        (case Op_Int op of
           None \<Rightarrow> outcome op False InvalidValue
         | Some threshold \<Rightarrow>
             let values = ttftValues (Operation op) (rc_ServiceStats ctx) in
             if values = [] then outcome op True NoData
             else if Operation op = ''avg_le'' then outcome op (minFloat values \<le> of_int threshold) Compared
             else if Operation op = ''avg_ge'' then outcome op (avgFloat values \<ge> of_int threshold) Compared
             else if Operation op = ''max_le'' then outcome op (minFloat values \<le> of_int threshold) Compared
             else if Operation op = ''max_ge'' then outcome op (avgFloat values \<ge> of_int threshold) Compared
             else outcome op False Unsupported))"

definition comparePctThreshold :: "string \<Rightarrow> rat \<Rightarrow> int \<Rightarrow> bool option" where
  "comparePctThreshold operation actual threshold =
     (if HasSuffix operation ''_le'' then Some (actual \<le> of_int threshold)
      else if HasSuffix operation ''_ge'' then Some (actual \<ge> of_int threshold)
      else if HasSuffix operation ''_lt'' then Some (actual < of_int threshold)
      else if HasSuffix operation ''_gt'' then Some (actual > of_int threshold)
      else None)"

definition utilValues :: "ServiceCapacityInfo list \<Rightarrow> rat list" where
  "utilValues cs =
     map (\<lambda>c. of_int (ActiveCount c) / of_int (Capacity c) * 100) (filter (\<lambda>c. \<not> Capacity c \<le> 0) cs)"

definition evaluateServiceCapacityOp :: "RequestContext \<Rightarrow> SmartOp \<Rightarrow> OpEvalResult" where
  "evaluateServiceCapacityOp ctx op =
     (if rc_ServiceCapacity ctx = [] then outcome op True NoData
      else
        (case Op_Int op of
           None \<Rightarrow> outcome op False InvalidValue
         | Some threshold \<Rightarrow>
             let vals = utilValues (rc_ServiceCapacity ctx) in
             if vals = [] then outcome op True NoData
             else (case comparePctThreshold (Operation op) (avgFloat vals) threshold of
                     None \<Rightarrow> outcome op False Unsupported
                   | Some m \<Rightarrow> outcome op m Compared)))"

definition evaluateServiceQuotaOp :: "RequestContext \<Rightarrow> SmartOp \<Rightarrow> OpEvalResult" where
  "evaluateServiceQuotaOp ctx op =
     (if rc_ServiceQuota ctx = [] then outcome op True NoData
      else
        (case Op_Int op of
           None \<Rightarrow> outcome op False InvalidValue
         | Some threshold \<Rightarrow>
             let pcts = map Pct (rc_ServiceQuota ctx);
                 tightest = fold (\<lambda>q m. if q > m then q else m) (tl pcts) (hd pcts)
             in (case comparePctThreshold (Operation op) tightest threshold of
                   None \<Rightarrow> outcome op False Unsupported
                 | Some m \<Rightarrow> outcome op m Compared)))"

definition evaluateAgentClaudeCodeOp :: "RequestContext \<Rightarrow> SmartOp \<Rightarrow> OpEvalResult" where
  "evaluateAgentClaudeCodeOp ctx op =
     (case Op_String op of
        None \<Rightarrow> outcome op False InvalidValue
      | Some value \<Rightarrow>
          if Operation op \<noteq> ''equals'' then outcome op False Unsupported
          else if ClaudeCodeRequestKind ctx = [] then outcome op False KindNotSet
          else outcome op (ClaudeCodeRequestKind ctx = value) Compared)"

definition evaluateOp :: "smart_ext \<Rightarrow> time \<Rightarrow> RequestContext \<Rightarrow> SmartOp \<Rightarrow> OpEvalResult" where
  "evaluateOp ext now ctx op =
     (let pos = Position op in
      if pos = PositionModel then evaluateModelOp ext ctx op
      else if pos = PositionThinking then evaluateThinkingOp ctx op
      else if pos = PositionContextSystem then evaluateContextSystemOp ext ctx op
      else if pos = PositionContextUser then evaluateContextUserOp ext ctx op
      else if pos = PositionLatestUser then evaluateLatestUserOp ctx op
      else if pos = PositionToken then evaluateTokenOp ctx op
      else if pos = PositionServiceTTFT then evaluateServiceTTFTOp ctx op
      else if pos = PositionServiceCapacity then evaluateServiceCapacityOp ctx op
      else if pos = PositionServiceQuota then evaluateServiceQuotaOp ctx op
      else if pos = PositionAgentClaudeCode then evaluateAgentClaudeCodeOp ctx op
      else if pos = PositionTime then evaluateTimeRangeOp ext now op
      else outcome op False UnknownPosition)"

section \<open>Evaluation of rules\<close>

definition collectRuleStats :: "Service list \<Rightarrow> ServiceStats list" where
  "collectRuleStats services = map (\<lambda>svc. GetStats (Stats svc)) services"

definition filterForRule :: "'a list \<Rightarrow> Service list \<Rightarrow> ('a \<Rightarrow> string) \<Rightarrow> 'a list" where
  "filterForRule all services idf = filter (\<lambda>e. idf e \<in> set (map ServiceID services)) all"

record RuleEvalResult =
  RuleIndex :: nat
  res_Description :: string
  rule_Matched :: bool
  OpsEvaluated :: nat
  OpsTotal :: nat
  res_Ops :: "OpEvalResult list"

fun evaluateOps :: "smart_ext \<Rightarrow> time \<Rightarrow> RequestContext \<Rightarrow> SmartOp list \<Rightarrow> bool \<times> OpEvalResult list" where
  "evaluateOps ext now ctx [] = (True, [])"
| "evaluateOps ext now ctx (op # ops) =
     (let opRes = evaluateOp ext now ctx op in
      if \<not> Matched opRes then (False, [opRes])
      else let (m, rest) = evaluateOps ext now ctx ops in (m, opRes # rest))"

text \<open>
  \<^verbatim>\<open>evaluateRule\<close> narrows the context to the rule's services and restores it on return, so
  the caller's context is unchanged.
\<close>

definition ruleContext :: "RequestContext \<Rightarrow> SmartRouting \<Rightarrow> RequestContext" where
  "ruleContext ctx rule =
     ctx\<lparr>rc_ServiceStats := collectRuleStats (sr_Services rule),
         rc_ServiceCapacity := filterForRule (rc_ServiceCapacity ctx) (sr_Services rule) sc_ServiceID,
         rc_ServiceQuota := filterForRule (rc_ServiceQuota ctx) (sr_Services rule) sq_ServiceID\<rparr>"

definition evaluateRule :: "smart_ext \<Rightarrow> time \<Rightarrow> RequestContext \<Rightarrow> SmartRouting \<Rightarrow> nat \<Rightarrow> RuleEvalResult" where
  "evaluateRule ext now ctx rule idx =
     (let (m, ops) = evaluateOps ext now (ruleContext ctx rule) (Ops rule)
      in \<lparr>RuleIndex = idx, res_Description = sr_Description rule, rule_Matched = m,
          OpsEvaluated = length ops, OpsTotal = length (Ops rule), res_Ops = ops\<rparr>)"

fun evaluateRules :: "smart_ext \<Rightarrow> time \<Rightarrow> RequestContext \<Rightarrow> nat \<Rightarrow> SmartRouting list \<Rightarrow>
    (Service list \<times> nat) option \<times> RuleEvalResult list" where
  "evaluateRules ext now ctx i [] = (None, [])"
| "evaluateRules ext now ctx i (rule # rules) =
     (let ruleRes = evaluateRule ext now ctx rule i in
      if rule_Matched ruleRes then (Some (sr_Services rule, i), [ruleRes])
      else let (r, trace) = evaluateRules ext now ctx (Suc i) rules in (r, ruleRes # trace))"

text \<open>
  \<^verbatim>\<open>Evaluate\<close>: the matched services with the rule's index, if a rule matched, and the trace.
\<close>

definition Router_Evaluate :: "smart_ext \<Rightarrow> time \<Rightarrow> SmartRouting list \<Rightarrow> RequestContext \<Rightarrow>
    (Service list \<times> nat) option \<times> RuleEvalResult list" where
  "Router_Evaluate ext now rules ctx = evaluateRules ext now ctx 0 rules"

definition EvaluateRequest :: "smart_ext \<Rightarrow> time \<Rightarrow> SmartRouting list \<Rightarrow> RequestContext \<Rightarrow> Service list option" where
  "EvaluateRequest ext now rules ctx = map_option fst (fst (Router_Evaluate ext now rules ctx))"

definition TraceEvaluation :: "smart_ext \<Rightarrow> time \<Rightarrow> SmartRouting list \<Rightarrow> RequestContext \<Rightarrow> RuleEvalResult list" where
  "TraceEvaluation ext now rules ctx = snd (Router_Evaluate ext now rules ctx)"

subsection \<open>Snippets of the trace\<close>

definition ellipsis :: string where
  "ellipsis = map char_of [0xE2, 0x80, 0xA6 :: nat]"

definition snippetHead :: "string \<Rightarrow> nat \<Rightarrow> string" where
  "snippetHead s n = (if length s \<le> n then s else take n s @ ellipsis)"

definition snippetAround :: "string \<Rightarrow> string \<Rightarrow> string" where
  "snippetAround text needle =
     (if text = [] then []
      else if needle = [] then snippetHead text 120
      else
        (case Index text needle of
           None \<Rightarrow> snippetHead text 120
         | Some idx \<Rightarrow>
             let start = idx - 80;
                 end' = min (idx + length needle + 80) (length text)
             in (if start > 0 then ellipsis else []) @ take (end' - start) (drop start text) @
                (if end' < length text then ellipsis else [])))"

section \<open>Processors\<close>

text \<open>
  The registry of processors, over the type \<open>'p\<close> of processors.
\<close>

definition processorKey :: "string \<Rightarrow> string \<Rightarrow> string" where
  "processorKey pos op = pos @ ''|'' @ op"

definition RegisterProcessor :: "string \<Rightarrow> string \<Rightarrow> 'p \<Rightarrow> (string \<rightharpoonup> 'p) \<Rightarrow> (string \<rightharpoonup> 'p)" where
  "RegisterProcessor pos op p reg = reg(processorKey pos op \<mapsto> p)"

definition LookupProcessor :: "string \<Rightarrow> string \<Rightarrow> (string \<rightharpoonup> 'p) \<Rightarrow> 'p option" where
  "LookupProcessor pos op reg = reg (processorKey pos op)"

definition UnregisterProcessor :: "string \<Rightarrow> string \<Rightarrow> (string \<rightharpoonup> 'p) \<Rightarrow> (string \<rightharpoonup> 'p)" where
  "UnregisterProcessor pos op reg = reg(processorKey pos op := None)"

section \<open>The first matching rule wins\<close>

definition rule_holds :: "smart_ext \<Rightarrow> time \<Rightarrow> RequestContext \<Rightarrow> SmartRouting \<Rightarrow> bool" where
  "rule_holds ext now ctx rule \<longleftrightarrow>
     (\<forall>op \<in> set (Ops rule). Matched (evaluateOp ext now (ruleContext ctx rule) op))"

lemma evaluateOps_matched:
  "fst (evaluateOps ext now ctx ops) \<longleftrightarrow> (\<forall>op \<in> set ops. Matched (evaluateOp ext now ctx op))"
  by (induction ops) (auto simp: Let_def split: prod.splits)

lemma evaluateRule_matched: "rule_Matched (evaluateRule ext now ctx rule i) = rule_holds ext now ctx rule"
  using evaluateOps_matched [of ext now "ruleContext ctx rule" "Ops rule"]
  by (auto simp: evaluateRule_def rule_holds_def split: prod.splits)

lemma evaluateRules_None:
  "fst (evaluateRules ext now ctx i rules) = None \<longleftrightarrow> (\<forall>r \<in> set rules. \<not> rule_holds ext now ctx r)"
  by (induction rules arbitrary: i) (auto simp: Let_def evaluateRule_matched case_prod_unfold)

lemma evaluateRules_Some:
  "fst (evaluateRules ext now ctx i rules) = Some (svcs, k) \<Longrightarrow>
     i \<le> k \<and> k - i < length rules \<and> svcs = sr_Services (rules ! (k - i)) \<and>
     rule_holds ext now ctx (rules ! (k - i)) \<and>
     (\<forall>j < k - i. \<not> rule_holds ext now ctx (rules ! j)) \<and>
     length (snd (evaluateRules ext now ctx i rules)) = Suc (k - i)"
proof (induction rules arbitrary: i)
  case (Cons r rs)
  show ?case
  proof (cases "rule_holds ext now ctx r")
    case True
    with Cons.prems show ?thesis by (simp add: Let_def evaluateRule_matched)
  next
    case False
    with Cons.prems have "fst (evaluateRules ext now ctx (Suc i) rs) = Some (svcs, k)"
      by (simp add: Let_def evaluateRule_matched split: prod.splits)
    note IH = Cons.IH [OF this]
    then obtain d where d: "k - i = Suc d" "k - Suc i = d" by (metis Suc_diff_Suc Suc_le_eq)
    with IH False show ?thesis
      by (auto simp: Let_def evaluateRule_matched less_Suc_eq_0_disj split: prod.splits)
  qed
qed simp


definition noExt :: smart_ext where
  "noExt = \<lparr>glob_Compile = (\<lambda>_. None), decodeTimeRange = (\<lambda>_. None), LoadLocation = (\<lambda>_. None)\<rparr>"

definition sampleOp :: "string \<Rightarrow> string \<Rightarrow> string \<Rightarrow> SmartOp" where
  "sampleOp pos operation value =
     \<lparr>op_UUID = ''u'', Position = pos, Operation = operation, Value = value, MetaType = []\<rparr>"

definition sampleContext :: RequestContext where
  "sampleContext =
     ExtractContextFromBetaRequest
       \<lparr>br_Model = ''m'', br_Thinking = False, br_System = [], br_Messages = [(''user'', [BlockText ''hi''])]\<rparr>"


section \<open>Validated rules evaluate cleanly\<close>

definition misconfigured :: "reason \<Rightarrow> bool" where
  "misconfigured r \<longleftrightarrow> r \<in> {UnknownPosition, Unsupported, InvalidValue, RegexError}"

lemma Operations_cases:
  assumes "isValidOperationForPosition pos op"
  shows "(pos, op) \<in> set (map (\<lambda>(p, o1, t). (p, o1)) Operations)"
  using assms unfolding isValidOperationForPosition_def by force

lemma valid_Int:
  assumes "ValidateSmartOp ext op = None" and "expectedType op = ValueTypeInt"
  shows "\<exists>v. Op_Int op = Some v"
  using assms by (auto simp: ValidateSmartOp_def validateOpValueType_def Let_def split: if_splits option.splits)

lemma valid_Bool:
  assumes "ValidateSmartOp ext op = None" and "expectedType op = ValueTypeBool"
  shows "\<exists>v. Op_Bool op = Some v"
  using assms by (auto simp: ValidateSmartOp_def validateOpValueType_def Let_def split: if_splits option.splits)

lemma valid_TimeRange:
  assumes "ValidateSmartOp ext op = None" and "expectedType op = ValueTypeTimeRange"
  shows "\<exists>v. parseTimeRange ext (Value op) = Some v"
  using assms by (auto simp: ValidateSmartOp_def validateOpValueType_def Let_def split: if_splits option.splits)

lemma valid_position_operation:
  assumes "ValidateSmartOp ext op = None"
  shows "isValidOperationForPosition (Position op) (Operation op)"
  using assms by (auto simp: ValidateSmartOp_def split: if_splits)

lemmas evaluator_defs =
  evaluateModelOp_def evaluateThinkingOp_def evaluateContextSystemOp_def evaluateContextUserOp_def
  evaluateTextContains_def stringsMatch_def evaluateLatestUserOp_def evaluateTokenOp_def
  evaluateServiceTTFTOp_def evaluateServiceCapacityOp_def evaluateServiceQuotaOp_def
  evaluateAgentClaudeCodeOp_def evaluateTimeRangeOp_def comparePctThreshold_def
  Op_String_def misconfigured_def HasSuffix_def Let_def

definition textOperations :: "(string \<times> string) list" where
  "textOperations =
     [(PositionModel, ''contains''), (PositionModel, ''glob''), (PositionModel, ''equals''),
      (PositionContextSystem, ''contains''), (PositionContextSystem, ''regex''),
      (PositionContextUser, ''contains''), (PositionContextUser, ''regex''),
      (PositionLatestUser, ''contains''), (PositionLatestUser, ''type''),
      (PositionAgentClaudeCode, ''equals'')]"

definition intOperations :: "(string \<times> string) list" where
  "intOperations =
     map (Pair PositionToken) [''ge'', ''gt'', ''le'', ''lt''] @
     map (Pair PositionServiceTTFT) [''avg_le'', ''avg_ge'', ''max_le'', ''max_ge''] @
     map (Pair PositionServiceCapacity) [''util_le'', ''util_ge'', ''util_lt'', ''util_gt''] @
     map (Pair PositionServiceQuota) [''pct_le'', ''pct_ge'', ''pct_lt'', ''pct_gt'']"

text \<open>
  An operation that passes validation never falls into an error branch of its
  evaluator, whatever the request: its position and operation are known to the dispatcher and
  its value parses.  (Only a pattern the glob library rejects is left, which validation does
  not compile.)
\<close>

theorem validated_op_evaluates:
  assumes "ValidateSmartOp ext op = None"
  shows "\<not> misconfigured (Reason (evaluateOp ext now ctx op))"
proof -
  have "(Position op, Operation op) \<in> set (map (\<lambda>(p, o1, t). (p, o1)) Operations)"
    using Operations_cases [OF valid_position_operation [OF assms]] .
  then consider
      (time) "Position op = PositionTime" "Operation op = ''time_range''"
    | (thinking) "Position op = PositionThinking" "Operation op \<in> {''enabled'', ''disabled''}"
    | (textual) "(Position op, Operation op) \<in> set textOperations"
    | (integer) "(Position op, Operation op) \<in> set intOperations"
    unfolding Operations_def textOperations_def intOperations_def by simp argo
  then show ?thesis
  proof cases
    case time
    then have "expectedType op = ValueTypeTimeRange" by (simp add: expectedType_def Operations_def)
    from valid_TimeRange [OF assms this] time show ?thesis
      by (auto simp: evaluateOp_def evaluator_defs)
  next
    case thinking
    then have "expectedType op = ValueTypeBool" by (auto simp: expectedType_def Operations_def)
    from valid_Bool [OF assms this] thinking show ?thesis by (auto simp: evaluateOp_def evaluator_defs)
  next
    case textual
    then show ?thesis
      by (simp add: textOperations_def)
         (elim disjE conjE; simp add: evaluateOp_def evaluator_defs split: option.splits)
  next
    case integer
    then have "expectedType op = ValueTypeInt"
      by (simp add: intOperations_def)
         (elim disjE conjE; simp add: expectedType_def Operations_def)
    from valid_Int [OF assms this] integer show ?thesis
      by (simp add: intOperations_def)
         (elim disjE conjE exE; simp add: evaluateOp_def evaluator_defs)
  qed
qed

theorem validated_op_evaluates_witness:
  "\<not> misconfigured (Reason (evaluateOp noExt 0
     (ExtractContextFromBetaRequest
        \<lparr>br_Model = ''m'', br_Thinking = False, br_System = [], br_Messages = [(''user'', [BlockText ''hi''])]\<rparr>)
     (sampleOp PositionToken ''ge'' ''25'')))"
  by (rule validated_op_evaluates)
     (simp add: sampleOp_def ValidateSmartOp_def Position_IsValid_def isValidOperationForPosition_def
        Operations_def validateOpValueType_def expectedType_def Op_Int_def parseInt_def Atoi_def
        is_digit_def digit_value_def)

section \<open>Time windows\<close>

definition clockText :: "nat \<Rightarrow> nat \<Rightarrow> string" where
  "clockText h m =
     [digit_char (h div 10), digit_char (h mod 10), CHR '':'', digit_char (m div 10), digit_char (m mod 10)]"

lemma digit_of: "48 \<le> (of_char c :: nat) \<Longrightarrow> c = digit_char (of_char c - 48)"
  by (simp add: digit_char_def)

lemma two_digits: "b < 10 \<Longrightarrow> (a * 10 + b) div 10 = a \<and> (a * 10 + b) mod 10 = b" for a b :: nat
  by simp

text \<open>
  \<open>parseTimeOfDay\<close> accepts exactly the 1440 strict HH:mm texts of a day and
  reads each as its minute.
\<close>

theorem parseTimeOfDay_exact:
  "parseTimeOfDay v = Some k \<longleftrightarrow>
     (\<exists>h m. h < 24 \<and> m < 60 \<and> v = clockText h m \<and> k = 60 * int h + int m)"
proof
  assume *: "parseTimeOfDay v = Some k"
  then have "length v = 5" by (auto simp: parseTimeOfDay_def split: if_splits)
  then obtain a b c d e where v: "v = [a, b, c, d, e]"
    by (auto simp: numeral_eq_Suc length_Suc_conv)
  let ?n = "of_char :: char \<Rightarrow> nat"
  have c: "c = CHR '':''" and r: "48 \<le> ?n a" "?n a \<le> 50" "48 \<le> ?n b" "?n b \<le> 57"
    "48 \<le> ?n d" "?n d \<le> 53" "48 \<le> ?n e" "?n e \<le> 57"
    and h23: "(int (?n a) - 48) * 10 + (int (?n b) - 48) \<le> 23"
    and keq: "k = ((int (?n a) - 48) * 10 + (int (?n b) - 48)) * 60 + ((int (?n d) - 48) * 10 + (int (?n e) - 48))"
    using * by (auto simp: parseTimeOfDay_def digitAt_def v Let_def split: if_splits)
  let ?h = "(?n a - 48) * 10 + (?n b - 48)" and ?m = "(?n d - 48) * 10 + (?n e - 48)"
  have small: "?n b - 48 < 10" "?n e - 48 < 10" using r by linarith+
  have dv: "?h div 10 = ?n a - 48" "?h mod 10 = ?n b - 48" "?m div 10 = ?n d - 48" "?m mod 10 = ?n e - 48"
    using two_digits [OF small(1)] two_digits [OF small(2)] by blast+
  have "v = clockText ?h ?m"
    unfolding clockText_def v c dv by (simp only: digit_of [OF r(1), symmetric]
      digit_of [OF r(3), symmetric] digit_of [OF r(5), symmetric] digit_of [OF r(7), symmetric])
  moreover have "?h < 24"
  proof -
    have "int ?h \<le> 23" using r h23 by (simp add: of_nat_diff)
    then show ?thesis by linarith
  qed
  moreover have "?m < 60" using r by linarith
  moreover have "k = 60 * int ?h + int ?m" using r keq by (simp add: of_nat_diff)
  ultimately show "\<exists>h m. h < 24 \<and> m < 60 \<and> v = clockText h m \<and> k = 60 * int h + int m" by blast
next
  assume "\<exists>h m. h < 24 \<and> m < 60 \<and> v = clockText h m \<and> k = 60 * int h + int m"
  then obtain h m where hm: "h < 24" "m < 60" "v = clockText h m" "k = 60 * int h + int m" by blast
  have d: "h div 10 < 10" "h mod 10 < 10" "m div 10 < 10" "m mod 10 < 10" using hm(1,2) by auto
  have b: "h div 10 \<le> 2" "m div 10 \<le> 5" using hm(1,2) by auto
  have "int (h div 10) * 10 + int (h mod 10) = int h" "int (m div 10) * 10 + int (m mod 10) = int m"
    by presburger+
  with hm d b show "parseTimeOfDay v = Some k"
    by (simp add: parseTimeOfDay_def digitAt_def clockText_def digit_char_range)
       (intro conjI; use d in linarith)
qed

lemma parseTimeOfDay_range: "parseTimeOfDay v = Some k \<Longrightarrow> 0 \<le> k \<and> k < 1440"
  unfolding parseTimeOfDay_exact by auto

lemma cyclic_window:
  fixes m s e :: int
  assumes "0 \<le> m" "m < 1440" "0 \<le> s" "s < 1440" "0 \<le> e" "e < 1440" "s \<noteq> e"
  shows "(if s < e then m \<ge> s \<and> m < e else m \<ge> s \<or> m < e) \<longleftrightarrow> (m - s) mod 1440 < (e - s) mod 1440"
proof -
  have pos: "x mod 1440 = (if 0 \<le> x then x else x + 1440)" if "-1440 < x" "x < 1440" for x :: int
  proof (cases "0 \<le> x")
    case True
    with that show ?thesis by (simp add: mod_pos_pos_trivial)
  next
    case False
    have "x mod 1440 = (x + 1440) mod 1440" by simp
    also have "\<dots> = x + 1440" using that False by (intro mod_pos_pos_trivial) auto
    finally show ?thesis using False by simp
  qed
  show ?thesis using assms by (simp add: pos)
qed

text \<open>
  For every window the code accepts, the test with its special case for
  windows over midnight is membership in the cyclic interval from start to end: the time gone
  since the start, modulo a day, is shorter than the window.
\<close>

theorem time_window_cyclic:
  assumes "parseTimeRange ext v = Some tr"
  shows "timeRange_includes tr now \<longleftrightarrow>
           (minuteOfDay (location tr) now - startMinute tr) mod 1440 <
           (endMinute tr - startMinute tr) mod 1440"
proof -
  have "0 \<le> startMinute tr" "startMinute tr < 1440" "0 \<le> endMinute tr" "endMinute tr < 1440"
    "startMinute tr \<noteq> endMinute tr"
    using assms parseTimeOfDay_range
    by (fastforce simp: parseTimeRange_def split: option.splits if_splits prod.splits)+
  moreover have "0 \<le> minuteOfDay (location tr) now" "minuteOfDay (location tr) now < 1440"
    by (simp_all add: minuteOfDay_def)
  ultimately show ?thesis using cyclic_window by (simp add: timeRange_includes_def Let_def)
qed

definition nightExt :: smart_ext where
  "nightExt = noExt\<lparr>decodeTimeRange := (\<lambda>_. Some (''22:30'', ''06:00'', ''UTC'', False)),
                    LoadLocation := (\<lambda>_. Some (\<lambda>_. 0))\<rparr>"

theorem time_window_cyclic_witness:
  "(case parseTimeRange nightExt [] of
      Some tr \<Rightarrow> timeRange_includes tr (23 * Hour) \<and> timeRange_includes tr (5 * Hour) \<and>
                 \<not> timeRange_includes tr (7 * Hour)
    | None \<Rightarrow> False)"
proof -
  obtain tr where tr: "parseTimeRange nightExt [] = Some tr" "startMinute tr = 1350"
    "endMinute tr = 360" "location tr = (\<lambda>_. 0)"
    by (simp add: parseTimeRange_def nightExt_def parseTimeOfDay_def digitAt_def)
  then show ?thesis
    using time_window_cyclic [OF tr(1)] by (simp add: minuteOfDay_def Hour_def Minute_def)
qed

end
