(* ===== verification/TB_Tactics.thy ===== *)
theory TB_Tactics
  imports TB_Prelude TB_Breaker TB_Service TB_SmartRouting
begin

text \<open>
  Rules and load-balancing tactics: the rule of \<^verbatim>\<open>internal/typ/type.go\<close> and the tactics of
  \<^verbatim>\<open>internal/typ/tactics.go\<close>.  A tactic reads the rule's services, draws from the random
  supply and, for the tier walk, reads and claims breakers of the store, which is passed
  along explicitly.  The interface between selection and breakers is the locale
  \<open>breaker_registry\<close>: the selection loop is verified once against its laws and the store of
  \<open>TB_Breaker\<close> is shown to satisfy them.
\<close>

section \<open>Rules\<close>

text \<open>
  \<^verbatim>\<open>TacticParams\<close> is a sealed interface whose dynamic value is a struct or a pointer to one;
  the code tells the two apart, so both are constructors here.  An unset interface is
  \<open>None\<close>.
\<close>

datatype TacticParams =
    RandomParams
  | SpeedBasedParams int rat int
  | SpeedBasedParamsPtr int rat int
  | CapacityBasedParamsPtr
  | TierParams TacticType
  | TierParamsPtr TacticType

record Tactic =
  tc_Type :: TacticType
  tc_Params :: "TacticParams option"

record Rule =
  UUID :: string
  Scenario :: string
  RequestModel :: string
  ResponseModel :: string
  Services :: "Service list"
  SessionAffinity :: int
  LBTactic :: Tactic
  rule_Active :: bool
  SmartEnabled :: bool
  rule_SmartRouting :: "SmartRouting list"

definition AffinityEnabled :: "Rule \<Rightarrow> bool" where
  "AffinityEnabled r \<longleftrightarrow> SessionAffinity r > 0"

definition AffinityTTL :: "Rule \<Rightarrow> duration" where
  "AffinityTTL r = (if SessionAffinity r > 0 then SessionAffinity r * Second else 0)"

text \<open>
  \<^verbatim>\<open>GetActiveServices\<close> also stores the initialised statistics in the rule; a second call
  initialises nothing again, so the model hands back the initialised services only.
\<close>

definition GetActiveServices :: "time \<Rightarrow> Rule \<Rightarrow> Service list" where
  "GetActiveServices now r = map (InitializeStats now) (filter Active (Services r))"

definition GetTacticType :: "Rule \<Rightarrow> TacticType" where
  "GetTacticType r = (if tc_Type (LBTactic r) \<noteq> 0 then tc_Type (LBTactic r) else TacticRandom)"

definition GetCurrentService :: "time \<Rightarrow> Rule \<Rightarrow> Service option" where
  "GetCurrentService now r =
     (let activeServices = GetActiveServices now r
      in if activeServices = [] then None else Some (activeServices ! 0))"

definition GetDefaultProvider :: "time \<Rightarrow> Rule \<Rightarrow> string" where
  "GetDefaultProvider now r = (case GetCurrentService now r of Some s \<Rightarrow> Provider s | None \<Rightarrow> [])"

definition GetDefaultModel :: "time \<Rightarrow> Rule \<Rightarrow> string" where
  "GetDefaultModel now r = (case GetCurrentService now r of Some s \<Rightarrow> Model s | None \<Rightarrow> [])"

lemma InitializeStats_fields [simp]:
  "Provider (InitializeStats now s) = Provider s" "Model (InitializeStats now s) = Model s"
  "Weight (InitializeStats now s) = Weight s" "Active (InitializeStats now s) = Active s"
  "Tier (InitializeStats now s) = Tier s" "ModelCapacity (InitializeStats now s) = ModelCapacity s"
  "ServiceID (InitializeStats now s) = ServiceID s"
  by (simp_all add: InitializeStats_def ServiceID_def)

lemma ServiceID_nonempty [simp]: "ServiceID s \<noteq> []"
  by (simp add: ServiceID_def FormatServiceID_def)

lemma InitializeStats_idem [simp]: "InitializeStats t (InitializeStats now s) = InitializeStats now s"
  by (auto simp: InitializeStats_def)

section \<open>The flat tactics\<close>

definition DefaultMinSpeedSamples :: int where "DefaultMinSpeedSamples = 5"
definition DefaultSpeedThresholdTps :: rat where "DefaultSpeedThresholdTps = 50"
definition DefaultSpeedSampleWindow :: int where "DefaultSpeedSampleWindow = 100"

datatype flatTactic =
    RandomTactic
  | SpeedBasedTactic int rat int
  | CapacityBasedTactic

datatype tacticImpl = Flat flatTactic | TierTactic TacticType

definition NewSpeedBasedTactic :: "int \<Rightarrow> rat \<Rightarrow> int \<Rightarrow> flatTactic" where
  "NewSpeedBasedTactic minSamplesRequired speedThresholdTps sampleWindowSize =
     SpeedBasedTactic
       (if minSamplesRequired \<le> 0 then DefaultMinSpeedSamples else minSamplesRequired)
       (if speedThresholdTps \<le> 0 then DefaultSpeedThresholdTps else speedThresholdTps)
       (if sampleWindowSize \<le> 0 then DefaultSpeedSampleWindow else sampleWindowSize)"

definition defaultSpeedBasedTactic :: flatTactic where
  "defaultSpeedBasedTactic =
     NewSpeedBasedTactic DefaultMinSpeedSamples DefaultSpeedThresholdTps DefaultSpeedSampleWindow"

definition NewTierTactic :: "TacticType \<Rightarrow> tacticImpl" where
  "NewTierTactic inner = TierTactic (if inner = 0 \<or> inner = TacticTier then TacticRandom else inner)"

definition GetDefaultTactic :: "TacticType \<Rightarrow> tacticImpl" where
  "GetDefaultTactic tType =
     (if tType = TacticRandom then Flat RandomTactic
      else if tType = TacticSpeedBased then Flat defaultSpeedBasedTactic
      else if tType = TacticCapacityBased then Flat CapacityBasedTactic
      else if tType = TacticTier then NewTierTactic TacticRandom
      else Flat RandomTactic)"

definition CreateTacticWithTypedParams :: "TacticType \<Rightarrow> TacticParams option \<Rightarrow> tacticImpl" where
  "CreateTacticWithTypedParams tacticType params =
     (if tacticType = TacticRandom then Flat RandomTactic
      else if tacticType = TacticSpeedBased then
        (case params of
           Some (SpeedBasedParamsPtr m t w) \<Rightarrow> Flat (NewSpeedBasedTactic m t w)
         | _ \<Rightarrow> Flat defaultSpeedBasedTactic)
      else if tacticType = TacticCapacityBased then Flat CapacityBasedTactic
      else if tacticType = TacticTier then
        (case params of
           Some (TierParamsPtr w) \<Rightarrow> NewTierTactic (if w \<noteq> 0 then w else TacticRandom)
         | _ \<Rightarrow> NewTierTactic TacticRandom)
      else GetDefaultTactic tacticType)"

definition Tactic_Instantiate :: "Tactic option \<Rightarrow> tacticImpl" where
  "Tactic_Instantiate tc =
     (case tc of None \<Rightarrow> Flat RandomTactic
      | Some t \<Rightarrow> CreateTacticWithTypedParams (tc_Type t) (tc_Params t))"

definition NewDefaultTactic :: "TacticType \<Rightarrow> Tactic" where
  "NewDefaultTactic tacticType =
     (if tacticType = TacticSpeedBased then
        \<lparr>tc_Type = tacticType,
         tc_Params = Some (SpeedBasedParams DefaultMinSpeedSamples DefaultSpeedThresholdTps
                             DefaultSpeedSampleWindow)\<rparr>
      else if tacticType = TacticCapacityBased then
        \<lparr>tc_Type = tacticType, tc_Params = Some CapacityBasedParamsPtr\<rparr>
      else if tacticType = TacticTier then
        \<lparr>tc_Type = tacticType, tc_Params = Some (TierParamsPtr TacticRandom)\<rparr>
      else \<lparr>tc_Type = TacticRandom, tc_Params = Some RandomParams\<rparr>)"

fun tactic_GetType :: "tacticImpl \<Rightarrow> TacticType" where
  "tactic_GetType (Flat RandomTactic) = TacticRandom"
| "tactic_GetType (Flat (SpeedBasedTactic m t w)) = TacticSpeedBased"
| "tactic_GetType (Flat CapacityBasedTactic) = TacticCapacityBased"
| "tactic_GetType (TierTactic w) = TacticTier"

fun tactic_GetName :: "tacticImpl \<Rightarrow> string" where
  "tactic_GetName (Flat RandomTactic) = ''Random''"
| "tactic_GetName (Flat (SpeedBasedTactic m t w)) = ''Speed Based''"
| "tactic_GetName (Flat CapacityBasedTactic) = ''Capacity Based''"
| "tactic_GetName (TierTactic w) = ''Tier''"

text \<open>A cumulative-weight walk; \<open>None\<close> when the draw lies beyond the last weight.\<close>

fun weightedWalk :: "int \<Rightarrow> int \<Rightarrow> (Service \<times> int) list \<Rightarrow> Service option" where
  "weightedWalk random currentWeight [] = None"
| "weightedWalk random currentWeight ((service, w) # rest) =
     (let currentWeight' = currentWeight + w in
      if random < currentWeight' then Some service else weightedWalk random currentWeight' rest)"

definition RandomTactic_SelectService :: "time \<Rightarrow> Rule \<Rightarrow> rand_supply \<Rightarrow> Service option \<times> rand_supply" where
  "RandomTactic_SelectService now rule rs =
     (let activeServices = GetActiveServices now rule in
      if activeServices = [] then (None, rs)
      else
        let totalWeight = sum_list (map Weight (filter (\<lambda>s. Weight s > 0) activeServices)) in
        if totalWeight = 0 then
          (let (i, rs') = rand_Intn (int (length activeServices)) rs
           in (Some (activeServices ! nat i), rs'))
        else
          (let (random, rs') = rand_Intn totalWeight rs in
           case weightedWalk random 0 (map (\<lambda>s. (s, Weight s)) activeServices) of
             Some service \<Rightarrow> (Some service, rs')
           | None \<Rightarrow> (Some (activeServices ! 0), rs')))"

text \<open>One step of the speed loop: the state is the best service so far, its score, and
  whether some service met the threshold.\<close>

definition speedStep :: "int \<Rightarrow> rat \<Rightarrow> Service \<Rightarrow> Service option \<times> rat \<times> bool \<Rightarrow> Service option \<times> rat \<times> bool" where
  "speedStep minSamples threshold service st =
     (let (selected, highest, valid) = st;
          (avgSpeed, sampleCount) = GetTokenSpeedStats (Stats service)
      in if sampleCount < minSamples then
           (let score = threshold * (1 / 2)
            in if score > highest then (Some service, score, valid) else (selected, highest, valid))
         else if avgSpeed \<ge> threshold then
           (if avgSpeed > highest then (Some service, avgSpeed, True) else (selected, highest, True))
         else (selected, highest, valid))"

definition speedFallbackStep :: "int \<Rightarrow> rat \<Rightarrow> Service \<Rightarrow> Service option \<times> rat \<Rightarrow> Service option \<times> rat" where
  "speedFallbackStep minSamples threshold service st =
     (let (selected, highest) = st;
          (avgSpeed, sampleCount) = GetTokenSpeedStats (Stats service)
      in if sampleCount < minSamples then
           (let score = threshold * (1 / 2)
            in if score > highest then (Some service, score) else (selected, highest))
         else if avgSpeed > highest then (Some service, avgSpeed) else (selected, highest))"

definition SpeedBasedTactic_SelectService :: "time \<Rightarrow> int \<Rightarrow> rat \<Rightarrow> Rule \<Rightarrow> Service option" where
  "SpeedBasedTactic_SelectService now minSamples threshold rule =
     (let activeServices = GetActiveServices now rule in
      if activeServices = [] then None
      else if length activeServices = 1 then Some (activeServices ! 0)
      else
        let (selected, highest, valid) =
              fold (speedStep minSamples threshold) activeServices (None, -1, False);
            (selected', highest') =
              (if \<not> valid then fold (speedFallbackStep minSamples threshold) activeServices (selected, highest)
               else (selected, highest))
        in (case selected' of None \<Rightarrow> Some (activeServices ! 0) | Some s \<Rightarrow> Some s))"

definition capacityWeight :: "Service \<Rightarrow> int" where
  "capacityWeight svc =
     (case ModelCapacity svc of
        Some c \<Rightarrow> if c > 0 then c else if Weight svc > 0 then Weight svc else 100
      | None \<Rightarrow> if Weight svc > 0 then Weight svc else 100)"

definition CapacityBasedTactic_SelectService :: "time \<Rightarrow> Rule \<Rightarrow> rand_supply \<Rightarrow> Service option \<times> rand_supply" where
  "CapacityBasedTactic_SelectService now rule rs =
     (let activeServices = GetActiveServices now rule in
      if activeServices = [] then (None, rs)
      else if length activeServices = 1 then (Some (activeServices ! 0), rs)
      else
        let weighted = map (\<lambda>s. (s, capacityWeight s)) activeServices;
            totalWeight = sum_list (map snd weighted)
        in if totalWeight = 0 then (Some (activeServices ! 0), rs)
           else
             (let (r, rs') = rand_Intn totalWeight rs in
              case weightedWalk r 0 weighted of
                Some service \<Rightarrow> (Some service, rs')
              | None \<Rightarrow> (Some (fst (weighted ! (length weighted - 1))), rs')))"

fun flat_SelectService :: "time \<Rightarrow> flatTactic \<Rightarrow> Rule \<Rightarrow> rand_supply \<Rightarrow> Service option \<times> rand_supply" where
  "flat_SelectService now RandomTactic rule rs = RandomTactic_SelectService now rule rs"
| "flat_SelectService now (SpeedBasedTactic m t w) rule rs =
     (SpeedBasedTactic_SelectService now m t rule, rs)"
| "flat_SelectService now CapacityBasedTactic rule rs = CapacityBasedTactic_SelectService now rule rs"

section \<open>Breaker-aware selection\<close>

definition removeServiceByID :: "Service list \<Rightarrow> string \<Rightarrow> Service list" where
  "removeServiceByID services serviceID = filter (\<lambda>svc. ServiceID svc \<noteq> serviceID) services"

text \<open>
  The first phase reads every candidate's breaker, the second picks and claims.  The second
  loop ends because each refused pick leaves the candidates; for an arbitrary \<open>pick\<close> it
  might not, and \<open>None\<close> is the result of a loop that does not end.
\<close>

fun gatherAvailable :: "('s \<Rightarrow> string \<Rightarrow> bool \<times> 's) \<Rightarrow> Service list \<Rightarrow> 's \<Rightarrow> Service list \<times> 's" where
  "gatherAvailable available [] s = ([], s)"
| "gatherAvailable available (svc # svcs) s =
     (let (ok, s1) = available s (ServiceID svc);
          (rest, s2) = gatherAvailable available svcs s1
      in (if ok then svc # rest else rest, s2))"

partial_function (option) claimLoop ::
    "('s \<Rightarrow> string \<Rightarrow> bool \<times> 's) \<Rightarrow> (Service list \<Rightarrow> 'r \<Rightarrow> Service option \<times> 'r) \<Rightarrow> bool \<Rightarrow>
     Service list \<Rightarrow> 's \<Rightarrow> 'r \<Rightarrow> (Service option \<times> 's \<times> 'r) option" where
  "claimLoop allow pick claim avail s r =
     (if avail = [] then Some (None, s, r)
      else
        (case pick avail r of
           (None, r') \<Rightarrow> Some (None, s, r')
         | (Some chosen, r') \<Rightarrow>
             if \<not> claim then Some (Some chosen, s, r')
             else
               (let (ok, s') = allow s (ServiceID chosen) in
                if ok then Some (Some chosen, s', r')
                else claimLoop allow pick claim (removeServiceByID avail (ServiceID chosen)) s' r')))"

definition pickAvailable ::
    "('s \<Rightarrow> string \<Rightarrow> bool \<times> 's) \<Rightarrow> ('s \<Rightarrow> string \<Rightarrow> bool \<times> 's) \<Rightarrow>
     Service list \<Rightarrow> (Service list \<Rightarrow> 'r \<Rightarrow> Service option \<times> 'r) \<Rightarrow> bool \<Rightarrow> 's \<Rightarrow> 'r \<Rightarrow>
     (Service option \<times> 's \<times> 'r) option" where
  "pickAvailable available allow candidates pick claim s r =
     (let (avail, s1) = gatherAvailable available candidates s
      in claimLoop allow pick claim avail s1 r)"

definition PickBreakerAvailable ::
    "time \<Rightarrow> string \<Rightarrow> Service list \<Rightarrow> (Service list \<Rightarrow> 'r \<Rightarrow> Service option \<times> 'r) \<Rightarrow> bool \<Rightarrow>
     BreakerStore \<Rightarrow> 'r \<Rightarrow> (Service option \<times> BreakerStore \<times> 'r) option" where
  "PickBreakerAvailable now ruleUUID candidates pick claim s r =
     pickAvailable (\<lambda>s i. Store_IsAvailable now ruleUUID i s) (\<lambda>s i. Store_Allow now ruleUUID i s)
       candidates pick claim s r"

section \<open>The tier tactic\<close>

definition groupServicesByTier :: "Service list \<Rightarrow> (int \<times> Service list) list" where
  "groupServicesByTier services =
     map (\<lambda>k. (k, filter (\<lambda>svc. Tier svc = k) services)) (sort (remdups (map Tier services)))"

text \<open>
  \<^verbatim>\<open>pickWithinTier\<close>.  \<open>NewTierTactic\<close>, the only constructor, never stores \<open>TacticTier\<close> as the
  sub-tactic, so the last case does not arise.
\<close>

definition pickWithinTier :: "time \<Rightarrow> TacticType \<Rightarrow> Rule \<Rightarrow> Service list \<Rightarrow> rand_supply \<Rightarrow>
    Service option \<times> rand_supply" where
  "pickWithinTier now inner rule services rs =
     (if length services = 1 then (Some (services ! 0), rs)
      else
        (case GetDefaultTactic inner of
           Flat f \<Rightarrow>
             (case flat_SelectService now f (rule\<lparr>Services := services\<rparr>) rs of
                (Some chosen, rs') \<Rightarrow> (Some chosen, rs')
              | (None, rs') \<Rightarrow> (Some (services ! 0), rs'))
         | TierTactic _ \<Rightarrow> (Some (services ! 0), rs)))"

fun tierWalk :: "time \<Rightarrow> TacticType \<Rightarrow> Rule \<Rightarrow> bool \<Rightarrow> (int \<times> Service list) list \<Rightarrow>
    BreakerStore \<Rightarrow> rand_supply \<Rightarrow> (Service option \<times> BreakerStore \<times> rand_supply) option" where
  "tierWalk now inner rule claim [] s rs = Some (None, s, rs)"
| "tierWalk now inner rule claim ((tier, services) # buckets) s rs =
     (case PickBreakerAvailable now (UUID rule) services (pickWithinTier now inner rule) claim s rs of
        None \<Rightarrow> None
      | Some (Some chosen, s', rs') \<Rightarrow> Some (Some chosen, s', rs')
      | Some (None, s', rs') \<Rightarrow> tierWalk now inner rule claim buckets s' rs')"

definition TierTactic_selectService :: "time \<Rightarrow> TacticType \<Rightarrow> Rule \<Rightarrow> bool \<Rightarrow>
    BreakerStore \<Rightarrow> rand_supply \<Rightarrow> (Service option \<times> BreakerStore \<times> rand_supply) option" where
  "TierTactic_selectService now inner rule claim s rs =
     (let active = GetActiveServices now rule in
      if active = [] then Some (None, s, rs)
      else
        (let buckets = groupServicesByTier active;
             fallback = (case buckets of [] \<Rightarrow> [] | (tier, services) # _ \<Rightarrow> services)
         in case tierWalk now inner rule claim buckets s rs of
              None \<Rightarrow> None
            | Some (Some chosen, s', rs') \<Rightarrow> Some (Some chosen, s', rs')
            | Some (None, s', rs') \<Rightarrow>
                if length fallback > 0 then
                  (let (svc, rs'') = pickWithinTier now inner rule fallback rs' in Some (svc, s', rs''))
                else Some (Some (active ! 0), s', rs')))"

text \<open>The interface \<^verbatim>\<open>LoadBalancingTactic\<close>: \<^verbatim>\<open>SelectService\<close> of whatever tactic a rule has.\<close>

fun tactic_SelectService :: "time \<Rightarrow> tacticImpl \<Rightarrow> Rule \<Rightarrow> BreakerStore \<Rightarrow> rand_supply \<Rightarrow>
    (Service option \<times> BreakerStore \<times> rand_supply) option" where
  "tactic_SelectService now (Flat f) rule s rs =
     (let (svc, rs') = flat_SelectService now f rule rs in Some (svc, s, rs'))"
| "tactic_SelectService now (TierTactic inner) rule s rs =
     TierTactic_selectService now inner rule True s rs"

definition TierTactic_PreviewService :: "time \<Rightarrow> TacticType \<Rightarrow> Rule \<Rightarrow> BreakerStore \<Rightarrow> rand_supply \<Rightarrow>
    (Service option \<times> BreakerStore \<times> rand_supply) option" where
  "TierTactic_PreviewService now inner rule s rs = TierTactic_selectService now inner rule False s rs"

section \<open>Affinity eligibility\<close>

fun tierWithinPromotionHold :: "time \<Rightarrow> string \<Rightarrow> Service list \<Rightarrow> duration \<Rightarrow> BreakerStore \<Rightarrow> bool \<times> BreakerStore" where
  "tierWithinPromotionHold now ruleUUID [] hold s = (False, s)"
| "tierWithinPromotionHold now ruleUUID (svc # svcs) hold s =
     (let (w, s1) = Store_WithinPromotionHold now ruleUUID (ServiceID svc) hold s
      in if w then (True, s1) else tierWithinPromotionHold now ruleUUID svcs hold s1)"

fun eligibleWalk :: "time \<Rightarrow> string \<Rightarrow> string \<Rightarrow> (int \<times> Service list) list \<Rightarrow> BreakerStore \<Rightarrow>
    bool option \<times> BreakerStore" where
  "eligibleWalk now ruleUUID targetID [] s = (None, s)"
| "eligibleWalk now ruleUUID targetID ((tier, services) # buckets) s =
     (let (avail, s1) = gatherAvailable (\<lambda>s i. Store_IsAvailable now ruleUUID i s) services s in
      if avail = [] then eligibleWalk now ruleUUID targetID buckets s1
      else if targetID \<in> set (map ServiceID avail) then (Some True, s1)
      else (let (w, s2) = tierWithinPromotionHold now ruleUUID services DefaultPromotionHold s1
            in (Some w, s2)))"

definition IsAffinityEligible :: "time \<Rightarrow> string \<Rightarrow> Service list \<Rightarrow> Service option \<Rightarrow> BreakerStore \<Rightarrow>
    bool \<times> BreakerStore" where
  "IsAffinityEligible now ruleUUID services target s =
     (case target of
        None \<Rightarrow> (False, s)
      | Some t \<Rightarrow>
          if \<not> Active t then (False, s)
          else
            (let buckets = groupServicesByTier (filter Active services) in
             case buckets of
               [] \<Rightarrow> (False, s)
             | (tier0, _) # _ \<Rightarrow>
                 (case eligibleWalk now ruleUUID (ServiceID t) buckets s of
                    (Some b, s') \<Rightarrow> (b, s')
                  | (None, s') \<Rightarrow> (Tier t = tier0, s'))))"

section \<open>The selection loop over any registry\<close>

text \<open>
  A pick returns one of its candidates, with its statistics initialised; \<open>P\<close> is what the
  candidates are known to satisfy.
\<close>

definition member_pick ::
    "time \<Rightarrow> (Service \<Rightarrow> bool) \<Rightarrow> (Service list \<Rightarrow> 'r \<Rightarrow> Service option \<times> 'r) \<Rightarrow> bool" where
  "member_pick now P pick \<longleftrightarrow>
     (\<forall>xs r. xs \<noteq> [] \<longrightarrow> (\<forall>x\<in>set xs. P x) \<longrightarrow>
        (\<exists>x\<in>set xs. \<exists>r'. pick xs r = (Some (InitializeStats now x), r')))"

definition same_answers ::
    "('s \<Rightarrow> string \<Rightarrow> bool \<times> 's) \<Rightarrow> ('s \<Rightarrow> string \<Rightarrow> bool \<times> 's) \<Rightarrow> string set \<Rightarrow> 's \<Rightarrow> 's \<Rightarrow> bool" where
  "same_answers available allow X s s' \<longleftrightarrow>
     (\<forall>i. i \<notin> X \<longrightarrow> fst (available s' i) = fst (available s i) \<and> fst (allow s' i) = fst (allow s i))"

lemma same_answers_refl [simp]: "same_answers available allow X s s"
  by (simp add: same_answers_def)

lemma same_answers_trans:
  "same_answers available allow X s s' \<Longrightarrow> same_answers available allow Y s' s'' \<Longrightarrow>
     same_answers available allow (X \<union> Y) s s''"
  by (simp add: same_answers_def)

definition claim_post ::
    "time \<Rightarrow> ('s \<Rightarrow> string \<Rightarrow> bool \<times> 's) \<Rightarrow> ('s \<Rightarrow> string \<Rightarrow> bool \<times> 's) \<Rightarrow> Service list \<Rightarrow> 's \<Rightarrow>
     Service option \<Rightarrow> 's \<Rightarrow> bool" where
  "claim_post now available allow cs s res s' \<longleftrightarrow>
     (case res of
        None \<Rightarrow> (\<forall>c\<in>set cs. \<not> fst (allow s (ServiceID c))) \<and> same_answers available allow {} s s'
      | Some c \<Rightarrow> c \<in> InitializeStats now ` set cs \<and> fst (allow s (ServiceID c)) \<and>
                  same_answers available allow {ServiceID c} s s')"

lemma same_answers_weaken: "same_answers available allow {} s s' \<Longrightarrow> same_answers available allow X s s'"
  by (simp add: same_answers_def)

lemma member_pickE:
  assumes "member_pick now P pick" and "xs \<noteq> []" and "\<forall>x\<in>set xs. P x"
  obtains c r' where "pick xs r = (Some (InitializeStats now c), r')" and "c \<in> set xs"
  using assms unfolding member_pick_def by blast

context breaker_registry
begin

lemma gather_answers:
  "fst (gatherAvailable available cs s) = filter (\<lambda>c. fst (available s (ServiceID c))) cs \<and>
   same_answers available allow {} s (snd (gatherAvailable available cs s))"
proof (induction cs arbitrary: s)
  case (Cons c cs)
  from Cons.IH [of "snd (available s (ServiceID c))"] show ?case
    by (auto simp: Let_def split_beta same_answers_def read_available read_allow)
qed simp

lemma claim_post_mono:
  assumes "claim_post now available allow cs s1 res s'" and "same_answers available allow {} s s1"
    and "set cs \<subseteq> set ds" and "\<forall>d\<in>set ds. d \<notin> set cs \<longrightarrow> \<not> fst (allow s (ServiceID d))"
  shows "claim_post now available allow ds s res s'"
proof -
  have "fst (allow s1 i) = fst (allow s i)" for i using assms(2) by (simp add: same_answers_def)
  then show ?thesis
    using assms same_answers_trans [OF assms(2), of _ s']
    by (cases res) (auto simp: claim_post_def)
qed

lemma claim_answers:
  assumes "member_pick now P pick" and "\<forall>x\<in>set avail. P x"
  shows "\<exists>res s' r'. claimLoop allow pick True avail s r = Some (res, s', r') \<and>
           claim_post now available allow avail s res s'"
  using assms(2)
proof (induction "length avail" arbitrary: avail s r rule: less_induct)
  case less
  show ?case
  proof (cases "avail = []")
    case True
    then show ?thesis by (simp add: claimLoop.simps claim_post_def)
  next
    case False
    with assms(1) less.prems obtain c r' where
      p: "pick avail r = (Some (InitializeStats now c), r')" "c \<in> set avail"
      by (metis member_pickE)
    let ?s' = "snd (allow s (ServiceID c))"
    show ?thesis
    proof (cases "fst (allow s (ServiceID c))")
      case True
      then have "claimLoop allow pick True avail s r = Some (Some (InitializeStats now c), ?s', r')"
        using False p by (subst claimLoop.simps) (simp add: split_beta Let_def)
      moreover have "claim_post now available allow avail s (Some (InitializeStats now c)) ?s'"
        using True p(2) by (simp add: claim_post_def same_answers_def other_available other_allow)
      ultimately show ?thesis by simp
    next
      case refused: False
      let ?rest = "removeServiceByID avail (ServiceID c)"
      have eq: "claimLoop allow pick True avail s r = claimLoop allow pick True ?rest ?s' r'"
        using False p refused by (subst claimLoop.simps) (simp add: split_beta Let_def)
      have "length ?rest < length avail"
        unfolding removeServiceByID_def using p(2) by (rule length_filter_less) simp
      moreover have "\<forall>x\<in>set ?rest. P x" using less.prems by (simp add: removeServiceByID_def)
      ultimately obtain res s'' r'' where
        IH: "claimLoop allow pick True ?rest ?s' r' = Some (res, s'', r'')"
          "claim_post now available allow ?rest ?s' res s''"
        using less.hyps [of ?rest ?s' r'] by blast
      have "claim_post now available allow avail s res s''"
        by (rule claim_post_mono [OF IH(2)])
           (use refused in \<open>auto simp: same_answers_def refused_available refused_allow removeServiceByID_def\<close>)
      then show ?thesis by (simp add: eq IH(1))
    qed
  qed
qed

lemma pick_claims:
  assumes "member_pick now P pick" and "\<forall>x\<in>set cs. P x"
  shows "\<exists>res s' r'. pickAvailable available allow cs pick True s r = Some (res, s', r') \<and>
           claim_post now available allow cs s res s'"
proof -
  let ?avail = "fst (gatherAvailable available cs s)" and ?s1 = "snd (gatherAvailable available cs s)"
  have g: "?avail = filter (\<lambda>c. fst (available s (ServiceID c))) cs"
    "same_answers available allow {} s ?s1"
    using gather_answers [of cs s] by auto
  have "\<forall>x\<in>set ?avail. P x" using assms(2) by (simp add: g(1))
  from claim_answers [OF assms(1) this, of ?s1 r] obtain res s' r' where
    c: "claimLoop allow pick True ?avail ?s1 r = Some (res, s', r')"
      "claim_post now available allow ?avail ?s1 res s'"
    by blast
  have "claim_post now available allow cs s res s'"
    by (rule claim_post_mono [OF c(2) g(2)]) (use g(1) granted_available in auto)
  with c(1) show ?thesis by (simp add: pickAvailable_def split_beta)
qed

lemma pick_previews:
  assumes "member_pick now P pick" and "\<forall>x\<in>set cs. P x"
  shows "\<exists>res s' r'. pickAvailable available allow cs pick False s r = Some (res, s', r') \<and>
           same_answers available allow {} s s' \<and>
           (case res of
              None \<Rightarrow> \<forall>c\<in>set cs. \<not> fst (available s (ServiceID c))
            | Some c \<Rightarrow> c \<in> InitializeStats now ` set cs \<and> fst (available s (ServiceID c)))"
proof -
  let ?avail = "fst (gatherAvailable available cs s)" and ?s1 = "snd (gatherAvailable available cs s)"
  have g: "?avail = filter (\<lambda>c. fst (available s (ServiceID c))) cs"
    "same_answers available allow {} s ?s1"
    using gather_answers [of cs s] by auto
  show ?thesis
  proof (cases "?avail = []")
    case True
    then show ?thesis using g
      by (auto simp: pickAvailable_def split_beta claimLoop.simps filter_empty_conv)
  next
    case False
    moreover have "\<forall>x\<in>set ?avail. P x" using assms(2) by (simp add: g(1))
    ultimately obtain c r' where p: "pick ?avail r = (Some (InitializeStats now c), r')" "c \<in> set ?avail"
      using assms(1) by (metis member_pickE)
    then have "claimLoop allow pick False ?avail ?s1 r = Some (Some (InitializeStats now c), ?s1, r')"
      using False by (subst claimLoop.simps) simp
    with g p(2) show ?thesis by (auto simp: pickAvailable_def split_beta)
  qed
qed

end

section \<open>What every flat tactic promises\<close>

locale flat_tactic =
  fixes now :: time and select :: "Rule \<Rightarrow> rand_supply \<Rightarrow> Service option \<times> rand_supply"
  assumes select_none: "fst (select rule rs) = None \<longleftrightarrow> filter Active (Services rule) = []"
    and select_member: "fst (select rule rs) = Some c \<Longrightarrow> c \<in> set (GetActiveServices now rule)"
begin

lemma select_pick: "member_pick now Active (\<lambda>xs. select (rule\<lparr>Services := xs\<rparr>))"
  unfolding member_pick_def
proof (intro allI impI)
  fix xs :: "Service list" and r :: rand_supply
  assume xs: "xs \<noteq> []" "\<forall>x\<in>set xs. Active x"
  then have act: "filter Active xs = xs" by (simp add: filter_id_conv)
  then obtain c where c: "fst (select (rule\<lparr>Services := xs\<rparr>) r) = Some c"
    using select_none [of "rule\<lparr>Services := xs\<rparr>" r] xs(1) by auto
  then have "c \<in> set (GetActiveServices now (rule\<lparr>Services := xs\<rparr>))" by (rule select_member)
  then obtain x where "x \<in> set xs" "c = InitializeStats now x"
    by (auto simp: GetActiveServices_def act)
  with c show "\<exists>x\<in>set xs. \<exists>r'. select (rule\<lparr>Services := xs\<rparr>) r = (Some (InitializeStats now x), r')"
    by (metis prod.collapse)
qed

end

lemma weightedWalk_mem: "weightedWalk r c ws = Some s \<Longrightarrow> s \<in> fst ` set ws"
  by (induction r c ws rule: weightedWalk.induct) (auto simp: Let_def split: if_splits)

lemma RandomTactic_result:
  assumes "GetActiveServices now rule \<noteq> []"
  shows "\<exists>c \<in> set (GetActiveServices now rule). fst (RandomTactic_SelectService now rule rs) = Some c"
proof -
  let ?act = "GetActiveServices now rule"
  let ?total = "sum_list (map Weight (filter (\<lambda>s. Weight s > 0) ?act))"
  have n: "0 < int (length ?act)" using assms by simp
  have "nat (fst (rand_Intn (int (length ?act)) rs)) < length ?act"
    using rand_Intn_range [OF n, of rs] by (metis nat_less_iff prod.collapse)
  moreover have "?act ! 0 \<in> set ?act" using assms by simp
  moreover have "s \<in> set ?act" if "weightedWalk r 0 (map (\<lambda>s. (s, Weight s)) ?act) = Some s" for r s
    using weightedWalk_mem [OF that] by auto
  ultimately show ?thesis using assms
    by (auto simp: RandomTactic_SelectService_def Let_def split_beta split: option.splits)
qed

lemma CapacityBasedTactic_result:
  assumes "GetActiveServices now rule \<noteq> []"
  shows "\<exists>c \<in> set (GetActiveServices now rule). fst (CapacityBasedTactic_SelectService now rule rs) = Some c"
proof -
  let ?act = "GetActiveServices now rule"
  have "?act ! 0 \<in> set ?act" "?act ! (length ?act - 1) \<in> set ?act" using assms by simp_all
  moreover have "s \<in> set ?act" if "weightedWalk r 0 (map (\<lambda>s. (s, capacityWeight s)) ?act) = Some s" for r s
    using weightedWalk_mem [OF that] by auto
  ultimately show ?thesis using assms
    by (auto simp: CapacityBasedTactic_SelectService_def Let_def split_beta split: option.splits)
qed

lemma speedFold_mem:
  "fst (fold (speedStep m t) xs st) = fst st \<or> fst (fold (speedStep m t) xs st) \<in> Some ` set xs"
proof (induction xs arbitrary: st)
  case (Cons x xs)
  have "fst (speedStep m t x st) = fst st \<or> fst (speedStep m t x st) = Some x"
    by (cases st) (auto simp: speedStep_def GetTokenSpeedStats_def Let_def)
  with Cons.IH [of "speedStep m t x st"] show ?case by auto
qed simp

lemma speedFallback_mem:
  "fst (fold (speedFallbackStep m t) xs st) = fst st \<or> fst (fold (speedFallbackStep m t) xs st) \<in> Some ` set xs"
proof (induction xs arbitrary: st)
  case (Cons x xs)
  have "fst (speedFallbackStep m t x st) = fst st \<or> fst (speedFallbackStep m t x st) = Some x"
    by (cases st) (auto simp: speedFallbackStep_def GetTokenSpeedStats_def Let_def)
  with Cons.IH [of "speedFallbackStep m t x st"] show ?case by auto
qed simp

lemma SpeedBasedTactic_result:
  assumes "GetActiveServices now rule \<noteq> []"
  shows "\<exists>c \<in> set (GetActiveServices now rule). SpeedBasedTactic_SelectService now m t rule = Some c"
proof -
  let ?act = "GetActiveServices now rule"
  obtain sel hi v where 1: "fold (speedStep m t) ?act (None, -1, False) = (sel, hi, v)"
    by (cases "fold (speedStep m t) ?act (None, -1, False)")
  have sel: "sel = None \<or> sel \<in> Some ` set ?act"
    using speedFold_mem [of m t ?act "(None, -1, False)"] by (simp add: 1)
  obtain sel' hi' where 2: "fold (speedFallbackStep m t) ?act (sel, hi) = (sel', hi')"
    by (cases "fold (speedFallbackStep m t) ?act (sel, hi)")
  have "sel' = None \<or> sel' \<in> Some ` set ?act"
    using speedFallback_mem [of m t ?act "(sel, hi)"] sel by (auto simp: 2)
  moreover have "?act ! 0 \<in> set ?act" using assms by simp
  ultimately show ?thesis using assms sel
    by (auto simp: SpeedBasedTactic_SelectService_def Let_def 1 2 split: option.splits)
qed

lemma flat_result:
  "(GetActiveServices now rule \<noteq> [] \<longrightarrow>
      (\<exists>c \<in> set (GetActiveServices now rule). fst (flat_SelectService now f rule rs) = Some c)) \<and>
   (GetActiveServices now rule = [] \<longrightarrow> fst (flat_SelectService now f rule rs) = None)"
proof (cases f)
  case RandomTactic
  then show ?thesis using RandomTactic_result [of now rule rs]
    by (auto simp: RandomTactic_SelectService_def)
next
  case (SpeedBasedTactic m t w)
  then show ?thesis using SpeedBasedTactic_result [of now rule m t]
    by (auto simp: SpeedBasedTactic_SelectService_def)
next
  case CapacityBasedTactic
  then show ?thesis using CapacityBasedTactic_result [of now rule rs]
    by (auto simp: CapacityBasedTactic_SelectService_def)
qed

interpretation flat: flat_tactic now "flat_SelectService now f" for now f
proof
  show "(fst (flat_SelectService now f rule rs) = None) = (filter Active (Services rule) = [])" for rule rs
    using flat_result [of now rule f rs] by (auto simp: GetActiveServices_def)
  show "c \<in> set (GetActiveServices now rule)" if "fst (flat_SelectService now f rule rs) = Some c" for rule rs c
    using flat_result [of now rule f rs] that by (cases "GetActiveServices now rule = []") auto
qed

section \<open>The tier walk\<close>

definition ready :: "Service \<Rightarrow> bool" where
  "ready x \<longleftrightarrow> Active x \<and> st_ServiceID (Stats x) \<noteq> []"

lemma ready_init: "ready x \<Longrightarrow> InitializeStats now x = x"
  by (simp add: ready_def InitializeStats_def)

lemma active_ready: "x \<in> set (GetActiveServices now rule) \<Longrightarrow> ready x"
  by (auto simp: GetActiveServices_def ready_def InitializeStats_def zeroStats_def)

lemma active_idem: "\<forall>x\<in>set xs. ready x \<Longrightarrow> GetActiveServices now (rule\<lparr>Services := xs\<rparr>) = xs"
  by (simp add: GetActiveServices_def filter_id_conv ready_def map_idI InitializeStats_def)

lemma member_pick_ready:
  assumes "member_pick now Active pick"
  shows "member_pick now ready pick"
  using assms by (auto simp: member_pick_def ready_def)

lemma pickWithinTier_pick: "member_pick now ready (pickWithinTier now inner rule)"
  unfolding member_pick_def
proof (intro allI impI)
  fix xs :: "Service list" and r :: rand_supply
  assume xs: "xs \<noteq> []" "\<forall>x\<in>set xs. ready x"
  then have first: "xs ! 0 \<in> set xs" "InitializeStats now (xs ! 0) = xs ! 0"
    by (simp_all add: ready_init)
  from member_pick_ready [OF flat.select_pick] xs
  have flat: "\<exists>x\<in>set xs. \<exists>r'. flat_SelectService now f (rule\<lparr>Services := xs\<rparr>) r = (Some (InitializeStats now x), r')" for f
    unfolding member_pick_def by blast
  show "\<exists>x\<in>set xs. \<exists>r'. pickWithinTier now inner rule xs r = (Some (InitializeStats now x), r')"
  proof (cases "length xs = 1")
    case True
    with first show ?thesis unfolding pickWithinTier_def by (metis (mono_tags, lifting))
  next
    case False
    show ?thesis
    proof (cases "GetDefaultTactic inner")
      case (Flat f)
      with False flat [of f] show ?thesis by (auto simp: pickWithinTier_def)
    next
      case (TierTactic i)
      with False first show ?thesis unfolding pickWithinTier_def by (metis (mono_tags, lifting) tacticImpl.simps(6))
    qed
  qed
qed

definition allowed :: "time \<Rightarrow> string \<Rightarrow> BreakerStore \<Rightarrow> Service \<Rightarrow> bool" where
  "allowed now r st c \<longleftrightarrow> fst (Store_Allow now r (ServiceID c) st)"

definition breakers_same :: "time \<Rightarrow> string \<Rightarrow> string set \<Rightarrow> BreakerStore \<Rightarrow> BreakerStore \<Rightarrow> bool" where
  "breakers_same now r X st st' \<longleftrightarrow>
     same_answers (\<lambda>s i. Store_IsAvailable now r i s) (\<lambda>s i. Store_Allow now r i s) X st st'"

lemma breakers_same_allowed:
  "breakers_same now r X st st' \<Longrightarrow> ServiceID c \<notin> X \<Longrightarrow> allowed now r st' c = allowed now r st c"
  by (simp add: breakers_same_def same_answers_def allowed_def)

lemma breakers_same_refl [simp]: "breakers_same now r X st st"
  by (simp add: breakers_same_def)

lemma breakers_same_trans:
  "breakers_same now r {} st st' \<Longrightarrow> breakers_same now r X st' st'' \<Longrightarrow> breakers_same now r X st st''"
  using same_answers_trans by (fastforce simp: breakers_same_def)

lemma PickBreakerAvailable_ready:
  assumes "\<forall>x\<in>set cs. ready x"
  shows "\<exists>res st' rs'. PickBreakerAvailable now r cs (pickWithinTier now inner rule) True st rs = Some (res, st', rs') \<and>
           (case res of
              None \<Rightarrow> (\<forall>c\<in>set cs. \<not> allowed now r st c) \<and> breakers_same now r {} st st'
            | Some c \<Rightarrow> c \<in> set cs \<and> allowed now r st c \<and> breakers_same now r {ServiceID c} st st')"
proof -
  have im: "InitializeStats now ` set cs = set cs" using assms by (force simp: ready_init)
  obtain res st' rs' where 1: "PickBreakerAvailable now r cs (pickWithinTier now inner rule) True st rs = Some (res, st', rs')"
    and 2: "claim_post now (\<lambda>s i. Store_IsAvailable now r i s) (\<lambda>s i. Store_Allow now r i s) cs st res st'"
    using rule_breakers.pick_claims [OF pickWithinTier_pick assms, of now r now inner rule st rs]
    unfolding PickBreakerAvailable_def by blast
  show ?thesis
    using 1 2 by (cases res) (simp_all add: claim_post_def im allowed_def breakers_same_def)
qed

lemma tierWalk_result:
  assumes "\<forall>b\<in>set bs. \<forall>x\<in>set (snd b). ready x"
  shows "\<exists>res st' rs'. tierWalk now inner rule True bs st rs = Some (res, st', rs') \<and>
           (case res of
              None \<Rightarrow> (\<forall>b\<in>set bs. \<forall>c\<in>set (snd b). \<not> allowed now (UUID rule) st c) \<and>
                      breakers_same now (UUID rule) {} st st'
            | Some c \<Rightarrow> (\<exists>i<length bs. c \<in> set (snd (bs ! i)) \<and>
                           (\<forall>j<i. \<forall>d\<in>set (snd (bs ! j)). \<not> allowed now (UUID rule) st d)) \<and>
                        allowed now (UUID rule) st c \<and> breakers_same now (UUID rule) {ServiceID c} st st')"
  using assms
proof (induction bs arbitrary: st rs)
  case (Cons b bs)
  obtain k cs where b: "b = (k, cs)" by (cases b)
  with Cons.prems have ready: "\<forall>x\<in>set cs. ready x" by simp
  from PickBreakerAvailable_ready [OF ready, of now "UUID rule" inner rule st rs]
  obtain res st1 rs1 where 1: "PickBreakerAvailable now (UUID rule) cs (pickWithinTier now inner rule) True st rs = Some (res, st1, rs1)"
    and post: "case res of
        None \<Rightarrow> (\<forall>c\<in>set cs. \<not> allowed now (UUID rule) st c) \<and> breakers_same now (UUID rule) {} st st1
      | Some c \<Rightarrow> c \<in> set cs \<and> allowed now (UUID rule) st c \<and> breakers_same now (UUID rule) {ServiceID c} st st1"
    by blast
  show ?case
  proof (cases res)
    case (Some c)
    with 1 post have "tierWalk now inner rule True (b # bs) st rs = Some (Some c, st1, rs1)" by (simp add: b)
    moreover have "\<exists>i<length (b # bs). c \<in> set (snd ((b # bs) ! i)) \<and>
        (\<forall>j<i. \<forall>d\<in>set (snd ((b # bs) ! j)). \<not> allowed now (UUID rule) st d)"
      using post Some by (intro exI [of _ 0]) (simp add: b)
    ultimately show ?thesis using post Some by simp
  next
    case None
    with post have none: "\<forall>c\<in>set cs. \<not> allowed now (UUID rule) st c"
      and same: "breakers_same now (UUID rule) {} st st1" by auto
    have al: "allowed now (UUID rule) st1 c = allowed now (UUID rule) st c" for c
      using breakers_same_allowed [OF same] by simp
    have "\<forall>b\<in>set bs. \<forall>x\<in>set (snd b). ready x" using Cons.prems by simp
    from Cons.IH [OF this, of st1 rs1] obtain res2 st2 rs2 where
      2: "tierWalk now inner rule True bs st1 rs1 = Some (res2, st2, rs2)"
      and post2: "case res2 of
          None \<Rightarrow> (\<forall>b\<in>set bs. \<forall>c\<in>set (snd b). \<not> allowed now (UUID rule) st c) \<and>
                  breakers_same now (UUID rule) {} st1 st2
        | Some c \<Rightarrow> (\<exists>i<length bs. c \<in> set (snd (bs ! i)) \<and>
                       (\<forall>j<i. \<forall>d\<in>set (snd (bs ! j)). \<not> allowed now (UUID rule) st d)) \<and>
                    allowed now (UUID rule) st c \<and> breakers_same now (UUID rule) {ServiceID c} st1 st2"
      unfolding al by blast
    have eq: "tierWalk now inner rule True (b # bs) st rs = Some (res2, st2, rs2)"
      using 1 2 None by (simp add: b)
    show ?thesis
    proof (cases res2)
      case None
      with post2 have "breakers_same now (UUID rule) {} st st2"
        using breakers_same_trans [OF same] by simp
      with None post2 none show ?thesis unfolding eq by (simp add: b)
    next
      case (Some c)
      with post2 obtain i where i: "i < length bs" "c \<in> set (snd (bs ! i))"
        "\<forall>j<i. \<forall>d\<in>set (snd (bs ! j)). \<not> allowed now (UUID rule) st d" by auto
      have "\<exists>i<length (b # bs). c \<in> set (snd ((b # bs) ! i)) \<and>
          (\<forall>j<i. \<forall>d\<in>set (snd ((b # bs) ! j)). \<not> allowed now (UUID rule) st d)"
        using i none by (intro exI [of _ "Suc i"]) (auto simp: b less_Suc_eq_0_disj)
      with post2 Some show ?thesis unfolding eq by (simp add: breakers_same_trans [OF same])
    qed
  qed
qed simp

lemma groups_ready:
  "\<forall>x\<in>set xs. ready x \<Longrightarrow> \<forall>b\<in>set (groupServicesByTier xs). \<forall>x\<in>set (snd b). ready x"
  by (auto simp: groupServicesByTier_def)

lemma groups_Nil [simp]: "groupServicesByTier xs = [] \<longleftrightarrow> xs = []"
proof -
  have "sort (remdups (map Tier xs)) = [] \<longleftrightarrow> set (sort (remdups (map Tier xs))) = {}" by (simp only: set_empty)
  then show ?thesis by (simp add: groupServicesByTier_def)
qed

lemma groups_tier: "i < length (groupServicesByTier xs) \<Longrightarrow> c \<in> set (snd (groupServicesByTier xs ! i)) \<Longrightarrow>
    c \<in> set xs \<and> Tier c = fst (groupServicesByTier xs ! i)"
  by (auto simp: groupServicesByTier_def)

lemma groups_sorted: "j < i \<Longrightarrow> i < length (groupServicesByTier xs) \<Longrightarrow>
    fst (groupServicesByTier xs ! j) < fst (groupServicesByTier xs ! i)"
  using sorted_wrt_nth_less [of "(<)" "sort (remdups (map Tier xs))" j i]
  by (simp add: groupServicesByTier_def strict_sorted_iff)

lemma groups_member:
  assumes "c \<in> set xs"
  shows "\<exists>i < length (groupServicesByTier xs). c \<in> set (snd (groupServicesByTier xs ! i))"
proof -
  have "Tier c \<in> set (sort (remdups (map Tier xs)))" using assms by simp
  then obtain i where "i < length (sort (remdups (map Tier xs)))" "sort (remdups (map Tier xs)) ! i = Tier c"
    by (auto simp only: in_set_conv_nth)
  then show ?thesis using assms by (intro exI [of _ i]) (simp add: groupServicesByTier_def)
qed

lemma groups_hd_min:
  assumes "groupServicesByTier xs = (k, svcs) # rest"
  shows "svcs \<noteq> []" "\<forall>c\<in>set svcs. c \<in> set xs \<and> (\<forall>d\<in>set xs. Tier c \<le> Tier d)" "\<forall>d\<in>set xs. k \<le> Tier d"
    "\<exists>d\<in>set xs. Tier d = k"
proof -
  let ?g = "groupServicesByTier xs"
  have k: "fst (?g ! 0) = k" "snd (?g ! 0) = svcs" "0 < length ?g" using assms by simp_all
  have "k \<in> set (sort (remdups (map Tier xs)))"
    using assms by (cases "sort (remdups (map Tier xs))") (simp_all add: groupServicesByTier_def)
  then obtain d where d: "d \<in> set xs" "Tier d = k" by auto
  then show "\<exists>d\<in>set xs. Tier d = k" by blast
  have "svcs = filter (\<lambda>svc. Tier svc = k) xs"
    using assms by (auto simp: groupServicesByTier_def)
  with d show "svcs \<noteq> []" by (auto simp: filter_empty_conv)
  show min: "\<forall>d\<in>set xs. k \<le> Tier d"
  proof
    fix d assume "d \<in> set xs"
    then obtain i where i: "i < length ?g" "d \<in> set (snd (?g ! i))" using groups_member by blast
    then have "Tier d = fst (?g ! i)" using groups_tier by blast
    moreover have "fst (?g ! 0) \<le> fst (?g ! i)" using groups_sorted [of 0 i xs] i(1) by (cases i) auto
    ultimately show "k \<le> Tier d" using k(1) by simp
  qed
  show "\<forall>c\<in>set svcs. c \<in> set xs \<and> (\<forall>d\<in>set xs. Tier c \<le> Tier d)"
    using groups_tier [of 0 xs] k min by auto
qed

lemma TierTactic_select:
  assumes "GetActiveServices now rule \<noteq> []"
  shows "\<exists>c st' rs'. TierTactic_selectService now inner rule True st rs = Some (Some c, st', rs') \<and>
           c \<in> set (GetActiveServices now rule) \<and>
           (if \<exists>d\<in>set (GetActiveServices now rule). allowed now (UUID rule) st d
            then allowed now (UUID rule) st c \<and>
                 (\<forall>d\<in>set (GetActiveServices now rule). allowed now (UUID rule) st d \<longrightarrow> Tier c \<le> Tier d) \<and>
                 breakers_same now (UUID rule) {ServiceID c} st st'
            else (\<forall>d\<in>set (GetActiveServices now rule). Tier c \<le> Tier d) \<and>
                 breakers_same now (UUID rule) {} st st')"
proof -
  let ?act = "GetActiveServices now rule" and ?r = "UUID rule"
  let ?bs = "groupServicesByTier ?act"
  have ready: "\<forall>x\<in>set ?act. ready x" using active_ready by blast
  obtain k svcs rest where bs: "?bs = (k, svcs) # rest"
    using assms groups_Nil by (metis neq_Nil_conv surj_pair)
  note hd = groups_hd_min [OF bs]
  have svcs: "\<forall>x\<in>set svcs. ready x" using hd(2) ready by blast
  obtain res st' rs' where walk: "tierWalk now inner rule True ?bs st rs = Some (res, st', rs')"
    and post: "case res of
        None \<Rightarrow> (\<forall>b\<in>set ?bs. \<forall>c\<in>set (snd b). \<not> allowed now ?r st c) \<and> breakers_same now ?r {} st st'
      | Some c \<Rightarrow> (\<exists>i<length ?bs. c \<in> set (snd (?bs ! i)) \<and>
                     (\<forall>j<i. \<forall>d\<in>set (snd (?bs ! j)). \<not> allowed now ?r st d)) \<and>
                  allowed now ?r st c \<and> breakers_same now ?r {ServiceID c} st st'"
    using tierWalk_result [OF groups_ready [OF ready], of now inner rule st rs] by blast
  show ?thesis
  proof (cases res)
    case None
    have none: "\<not> allowed now ?r st d" if "d \<in> set ?act" for d
      using groups_member [OF that] post None by (auto dest: nth_mem)
    obtain x rs'' where x: "x \<in> set svcs" "pickWithinTier now inner rule svcs rs' = (Some (InitializeStats now x), rs'')"
      using pickWithinTier_pick [of now inner rule] hd(1) svcs unfolding member_pick_def by blast
    have "InitializeStats now x = x" using x(1) svcs by (simp add: ready_init)
    then have "TierTactic_selectService now inner rule True st rs = Some (Some x, st', rs'')"
      using assms walk None x(2) hd(1) by (simp add: TierTactic_selectService_def Let_def bs)
    with hd(2) x(1) none post None show ?thesis by auto
  next
    case (Some c)
    with post obtain i where i: "i < length ?bs" "c \<in> set (snd (?bs ! i))"
      "\<forall>j<i. \<forall>d\<in>set (snd (?bs ! j)). \<not> allowed now ?r st d" by auto
    have c: "c \<in> set ?act" "Tier c = fst (?bs ! i)" using groups_tier [OF i(1,2)] by auto
    have "Tier c \<le> Tier d" if d: "d \<in> set ?act" "allowed now ?r st d" for d
    proof -
      obtain j where j: "j < length ?bs" "d \<in> set (snd (?bs ! j))" using groups_member [OF d(1)] by blast
      with i(3) d(2) have "i \<le> j" by (meson not_less)
      then have "fst (?bs ! i) \<le> fst (?bs ! j)" using groups_sorted [of i j ?act] j(1) by (cases "i = j") auto
      with groups_tier [OF j] c(2) show ?thesis by simp
    qed
    moreover have "TierTactic_selectService now inner rule True st rs = Some (Some c, st', rs')"
      using assms walk Some by (simp add: TierTactic_selectService_def Let_def bs)
    ultimately show ?thesis using c(1) post Some by auto
  qed
qed


definition sampleRule :: "Service list \<Rightarrow> Rule" where
  "sampleRule svcs =
     \<lparr>UUID = ''r1'', Scenario = ''openai'', RequestModel = ''m'', ResponseModel = [], Services = svcs,
      SessionAffinity = 0, LBTactic = \<lparr>tc_Type = TacticTier, tc_Params = None\<rparr>, rule_Active = True,
      SmartEnabled = False, rule_SmartRouting = []\<rparr>"


section \<open>Random weights\<close>

lemma weightedWalk_prefix:
  assumes "i < length ws" and "\<forall>w\<in>set ws. 0 \<le> snd w"
    and "c + sum_list (map snd (take i ws)) \<le> k" and "k < c + sum_list (map snd (take (Suc i) ws))"
  shows "weightedWalk k c ws = Some (fst (ws ! i))"
  using assms
proof (induction ws arbitrary: i c)
  case (Cons w ws)
  obtain s x where w: "w = (s, x)" by (cases w)
  show ?case
  proof (cases i)
    case 0
    with Cons.prems show ?thesis by (simp add: w)
  next
    case (Suc j)
    have "0 \<le> sum_list (map snd (take j ws))"
      using Cons.prems(2) by (intro sum_list_nonneg) (auto dest: in_set_takeD)
    with Cons.prems(3) Suc have "\<not> k < c + x" by (simp add: w)
    moreover have "weightedWalk k (c + x) ws = Some (fst (ws ! j))"
      using Cons.prems Suc by (intro Cons.IH) (auto simp: w algebra_simps)
    ultimately show ?thesis by (simp add: w Suc)
  qed
qed simp

lemma sum_positive_weights:
  "\<forall>s\<in>set xs. 0 \<le> Weight s \<Longrightarrow> sum_list (map Weight (filter (\<lambda>s. Weight s > 0) xs)) = sum_list (map Weight xs)"
  by (induction xs) auto

text \<open>
  With no negative weights, the random tactic gives each active service
  exactly as many of the equally likely draws as its weight says: the draws in the interval of
  length \<open>Weight\<close> that starts at the sum of the weights before it.  In particular a
  zero-weight service is never drawn while another has weight.
\<close>

theorem random_tactic_proportional:
  assumes "\<forall>s\<in>set (GetActiveServices now rule). 0 \<le> Weight s"
    and "i < length (GetActiveServices now rule)"
    and "sum_list (map Weight (take i (GetActiveServices now rule))) \<le>
           int draw mod sum_list (map Weight (GetActiveServices now rule))"
    and "int draw mod sum_list (map Weight (GetActiveServices now rule)) <
           sum_list (map Weight (take (Suc i) (GetActiveServices now rule)))"
  shows "RandomTactic_SelectService now rule (draw # rs) = (Some (GetActiveServices now rule ! i), rs)"
proof -
  let ?act = "GetActiveServices now rule" and ?total = "sum_list (map Weight (GetActiveServices now rule))"
  have tot: "sum_list (map Weight (filter (\<lambda>s. Weight s > 0) ?act)) = ?total"
    using assms(1) by (rule sum_positive_weights)
  have "?total \<noteq> 0"
  proof
    assume "?total = 0"
    have "sum_list (map Weight (take (Suc i) ?act)) + sum_list (map Weight (drop (Suc i) ?act)) = ?total"
      by (metis append_take_drop_id map_append sum_list_append)
    moreover have "0 \<le> sum_list (map Weight (drop (Suc i) ?act))"
      using assms(1) by (intro sum_list_nonneg) (auto dest: in_set_dropD)
    moreover have "0 \<le> sum_list (map Weight (take i ?act))"
      using assms(1) by (intro sum_list_nonneg) (auto dest: in_set_takeD)
    ultimately show False using assms(3,4) \<open>?total = 0\<close> by simp
  qed
  moreover have "?act \<noteq> []" using assms(2) by auto
  moreover have "weightedWalk (int draw mod ?total) 0 (map (\<lambda>s. (s, Weight s)) ?act) = Some (?act ! i)"
    using weightedWalk_prefix [of i "map (\<lambda>s. (s, Weight s)) ?act" 0 "int draw mod ?total"] assms
    by (simp add: take_map comp_def)
  ultimately show ?thesis by (simp add: RandomTactic_SelectService_def Let_def tot)
qed

theorem random_tactic_proportional_witness:
  "\<exists>c. RandomTactic_SelectService 7 (sampleRule [sampleService ''a'' 0, sampleService ''b'' 0]) [5] = (Some c, []) \<and>
       Model c = ''b''"
  using random_tactic_proportional [of 7 "sampleRule [sampleService ''a'' 0, sampleService ''b'' 0]" 1 5 "[]"]
  by (simp add: GetActiveServices_def sampleRule_def sampleService_def)

text \<open>A negative weight counts against the walk but not towards the total, and the walk can
  end without a pick; the code then returns the first service whatever its weight.\<close>

lemma random_tactic_negative_weight:
  "\<exists>c. RandomTactic_SelectService 7
         (sampleRule [sampleService ''a'' 0\<lparr>Weight := -5\<rparr>, sampleService ''b'' 0]) [0] = (Some c, []) \<and>
       Weight c = -5"
  by (simp add: RandomTactic_SelectService_def GetActiveServices_def sampleRule_def sampleService_def)

section \<open>Every tactic answers\<close>

text \<open>
  \<open>SelectService\<close> of every tactic a rule's configuration can name returns:
  a service for a rule with an active one, and no service for a rule without; the service it
  returns is always an active one of the rule.
\<close>

theorem tactic_SelectService_total:
  "\<exists>res st' rs'. tactic_SelectService now (Tactic_Instantiate tc) rule st rs = Some (res, st', rs') \<and>
     (case res of
        None \<Rightarrow> filter Active (Services rule) = []
      | Some c \<Rightarrow> Active c \<and> ServiceID c \<in> set (map ServiceID (filter Active (Services rule))))"
proof (cases "GetActiveServices now rule = []")
  case True
  then have "filter Active (Services rule) = []" by (simp add: GetActiveServices_def)
  with True show ?thesis
  proof (cases "Tactic_Instantiate tc")
    case (Flat f)
    with True flat_result [of now rule f rs] \<open>filter Active (Services rule) = []\<close> show ?thesis
      by (auto simp: split_beta)
  qed (simp add: TierTactic_selectService_def)
next
  case False
  have mem: "Active c \<and> ServiceID c \<in> set (map ServiceID (filter Active (Services rule)))"
    if "c \<in> set (GetActiveServices now rule)" for c
    using that by (auto simp: GetActiveServices_def)
  show ?thesis
  proof (cases "Tactic_Instantiate tc")
    case (Flat f)
    from False flat_result [of now rule f rs] obtain c where
      "c \<in> set (GetActiveServices now rule)" "fst (flat_SelectService now f rule rs) = Some c" by blast
    with mem Flat show ?thesis by (simp add: split_beta)
  next
    case (TierTactic w)
    from TierTactic_select [OF False, of w st rs] mem TierTactic show ?thesis
      by auto
  qed
qed

section \<open>When a pin is kept\<close>

definition available_now :: "time \<Rightarrow> string \<Rightarrow> BreakerStore \<Rightarrow> Service \<Rightarrow> bool" where
  "available_now now r st c \<longleftrightarrow> fst (Store_IsAvailable now r (ServiceID c) st)"

definition held_now :: "time \<Rightarrow> string \<Rightarrow> BreakerStore \<Rightarrow> Service \<Rightarrow> bool" where
  "held_now now r st c \<longleftrightarrow> fst (Store_WithinPromotionHold now r (ServiceID c) DefaultPromotionHold st)"

lemma now_view_cong:
  assumes "store_view st1 = store_view st"
  shows "available_now now r st1 = available_now now r st" "held_now now r st1 = held_now now r st"
  using assms by (auto simp: available_now_def held_now_def store_views)

lemma gather_view:
  "fst (gatherAvailable (\<lambda>s i. Store_IsAvailable now r i s) cs st) = filter (available_now now r st) cs \<and>
   store_view (snd (gatherAvailable (\<lambda>s i. Store_IsAvailable now r i s) cs st)) = store_view st"
proof (induction cs arbitrary: st)
  case (Cons c cs)
  have v: "store_view (snd (Store_IsAvailable now r (ServiceID c) st)) = store_view st"
    by (simp add: store_views)
  from Cons.IH [of "snd (Store_IsAvailable now r (ServiceID c) st)"] show ?case
    by (simp add: split_beta Let_def now_view_cong [OF v] v) (simp add: available_now_def)
qed simp

lemma tierWithinPromotionHold_held:
  "fst (tierWithinPromotionHold now r cs DefaultPromotionHold st) \<longleftrightarrow> (\<exists>c\<in>set cs. held_now now r st c)"
proof (induction cs arbitrary: st)
  case (Cons c cs)
  have v: "store_view (snd (Store_WithinPromotionHold now r (ServiceID c) DefaultPromotionHold st)) = store_view st"
    by (simp add: store_views)
  from Cons.IH [of "snd (Store_WithinPromotionHold now r (ServiceID c) DefaultPromotionHold st)"] show ?case
    by (simp add: split_beta Let_def now_view_cong [OF v]) (simp add: held_now_def)
qed simp

lemma ex_unique_conj: "(\<And>T. A T \<and> B T \<longleftrightarrow> T = t) \<Longrightarrow> (\<exists>T. A T \<and> B T \<and> C T) \<longleftrightarrow> C t"
  by metis

lemma group_none:
  assumes "List.find (\<lambda>b. \<exists>c\<in>set (snd b). Q c) (groupServicesByTier xs) = None" and "d \<in> set xs"
  shows "\<not> Q d"
  using groups_member [OF assms(2)] assms(1) unfolding find_None_iff by (metis nth_mem)

lemma group_found:
  assumes "List.find (\<lambda>b. \<exists>c\<in>set (snd b). Q c) (groupServicesByTier xs) = Some b"
  shows "set (snd b) = {c \<in> set xs. Tier c = fst b}"
    and "\<exists>d\<in>set xs. Q d \<and> Tier d = fst b" and "\<forall>d\<in>set xs. Q d \<longrightarrow> fst b \<le> Tier d"
proof -
  let ?bs = "groupServicesByTier xs"
  obtain i where i: "i < length ?bs" "\<exists>c\<in>set (snd (?bs ! i)). Q c" "b = ?bs ! i"
    "\<forall>j<i. \<not> (\<exists>c\<in>set (snd (?bs ! j)). Q c)"
    using assms by (auto simp: find_Some_iff)
  show mem: "set (snd b) = {c \<in> set xs. Tier c = fst b}"
    using i(1,3) by (auto simp: groupServicesByTier_def)
  show "\<exists>d\<in>set xs. Q d \<and> Tier d = fst b" using i(2) mem by (auto simp: i(3))
  show "\<forall>d\<in>set xs. Q d \<longrightarrow> fst b \<le> Tier d"
  proof (intro ballI impI)
    fix d assume d: "d \<in> set xs" "Q d"
    obtain j where j: "j < length ?bs" "d \<in> set (snd (?bs ! j))" using groups_member [OF d(1)] by blast
    with i(4) d(2) have "i \<le> j" by (meson not_less)
    then have "fst (?bs ! i) \<le> fst (?bs ! j)" using groups_sorted [of i j xs] j(1) by (cases "i = j") auto
    with groups_tier [OF j] show "fst b \<le> Tier d" by (simp add: i(3))
  qed
qed

lemma eligibleWalk_result:
  "fst (eligibleWalk now r tid bs st) =
     (case List.find (\<lambda>b. \<exists>c\<in>set (snd b). available_now now r st c) bs of
        None \<Rightarrow> None
      | Some b \<Rightarrow> Some ((\<exists>c\<in>set (snd b). available_now now r st c \<and> ServiceID c = tid) \<or>
                        (\<exists>c\<in>set (snd b). held_now now r st c)))"
proof (induction bs arbitrary: st)
  case (Cons b bs)
  obtain k cs where b: "b = (k, cs)" by (cases b)
  obtain av st1 where g: "gatherAvailable (\<lambda>s i. Store_IsAvailable now r i s) cs st = (av, st1)"
    by (cases "gatherAvailable (\<lambda>s i. Store_IsAvailable now r i s) cs st")
  with gather_view [of now r cs st] have av: "av = filter (available_now now r st) cs"
    and v: "store_view st1 = store_view st" by simp_all
  note av1 = now_view_cong(1) [OF v] and held1 = now_view_cong(2) [OF v]
  show ?case
  proof (cases "av = []")
    case True
    then have "\<not> (\<exists>c\<in>set cs. available_now now r st c)" by (simp add: av filter_empty_conv)
    with True Cons.IH [of st1, unfolded av1 held1] show ?thesis by (simp add: b g)
  next
    case False
    then have *: "\<exists>c\<in>set cs. available_now now r st c" by (simp add: av filter_empty_conv)
    show ?thesis
      using False * tierWithinPromotionHold_held [of now r cs st1]
      by (auto simp: b g av held1 split_beta Let_def)
  qed
qed simp

lemma IsAffinityEligible_char:
  "fst (IsAffinityEligible now r services (Some t) st) \<longleftrightarrow>
     Active t \<and> filter Active services \<noteq> [] \<and>
     (if \<exists>d\<in>set (filter Active services). available_now now r st d
      then \<exists>T. (\<exists>d\<in>set (filter Active services). available_now now r st d \<and> Tier d = T) \<and>
               (\<forall>d\<in>set (filter Active services). available_now now r st d \<longrightarrow> T \<le> Tier d) \<and>
               ((\<exists>d\<in>set (filter Active services). Tier d = T \<and> available_now now r st d \<and> ServiceID d = ServiceID t) \<or>
                (\<exists>d\<in>set (filter Active services). Tier d = T \<and> held_now now r st d))
      else (\<exists>d\<in>set (filter Active services). Tier d = Tier t) \<and>
           (\<forall>d\<in>set (filter Active services). Tier t \<le> Tier d))"
proof (cases "Active t \<and> filter Active services \<noteq> []")
  case False
  then show ?thesis by (auto simp: IsAffinityEligible_def groupServicesByTier_def)
next
  case True
  let ?act = "filter Active services"
  let ?bs = "groupServicesByTier ?act"
  obtain k svcs rest where bs: "?bs = (k, svcs) # rest"
    using True groups_Nil by (metis neq_Nil_conv surj_pair)
  note hd = groups_hd_min [OF bs] and walk = eligibleWalk_result [of now r "ServiceID t" ?bs st]
  show ?thesis
  proof (cases "List.find (\<lambda>b. \<exists>c\<in>set (snd b). available_now now r st c) ?bs")
    case None
    obtain st' where "eligibleWalk now r (ServiceID t) ?bs st = (None, st')"
      using walk None by (metis option.simps(4) prod.collapse)
    then have "fst (IsAffinityEligible now r services (Some t) st) \<longleftrightarrow> Tier t = k"
      using True by (simp add: IsAffinityEligible_def Let_def bs)
    moreover have "Tier t = k \<longleftrightarrow> (\<exists>d\<in>set ?act. Tier d = Tier t) \<and> (\<forall>d\<in>set ?act. Tier t \<le> Tier d)"
      using hd(3,4) by force
    ultimately show ?thesis using True group_none [OF None] by auto
  next
    case (Some b)
    let ?T = "fst b"
    note b = group_found [OF Some]
    have T: "(\<exists>d\<in>set ?act. available_now now r st d \<and> Tier d = T) \<and>
             (\<forall>d\<in>set ?act. available_now now r st d \<longrightarrow> T \<le> Tier d) \<longleftrightarrow> T = ?T" for T
      using b(2,3) by force
    obtain st' where "eligibleWalk now r (ServiceID t) ?bs st =
        (Some ((\<exists>c\<in>set (snd b). available_now now r st c \<and> ServiceID c = ServiceID t) \<or>
               (\<exists>c\<in>set (snd b). held_now now r st c)), st')"
      using walk Some by (metis option.simps(5) prod.collapse)
    then have F: "fst (IsAffinityEligible now r services (Some t) st) \<longleftrightarrow>
        (\<exists>c\<in>set ?act. Tier c = ?T \<and> available_now now r st c \<and> ServiceID c = ServiceID t) \<or>
        (\<exists>c\<in>set ?act. Tier c = ?T \<and> held_now now r st c)"
      using True by (auto simp: IsAffinityEligible_def Let_def bs b(1))
    have ex: "\<exists>d\<in>set ?act. available_now now r st d" using b(2) by blast
    have E: "(\<exists>T. (\<exists>d\<in>set ?act. available_now now r st d \<and> Tier d = T) \<and>
                 (\<forall>d\<in>set ?act. available_now now r st d \<longrightarrow> T \<le> Tier d) \<and>
                 ((\<exists>d\<in>set ?act. Tier d = T \<and> available_now now r st d \<and> ServiceID d = ServiceID t) \<or>
                  (\<exists>d\<in>set ?act. Tier d = T \<and> held_now now r st d))) \<longleftrightarrow>
             (\<exists>c\<in>set ?act. Tier c = ?T \<and> available_now now r st c \<and> ServiceID c = ServiceID t) \<or>
             (\<exists>c\<in>set ?act. Tier c = ?T \<and> held_now now r st c)"
      by (rule ex_unique_conj [OF T])
    show ?thesis unfolding F if_P [OF ex] E using True by blast
  qed
qed

text \<open>
  When \<open>IsAffinityEligible\<close> keeps a pin.  Only an active target of a rule
  with active services is kept; while some active service is available, the pin is kept
  exactly if the target is an available service of the lowest-numbered tier with an available
  service, or some service of that tier recovered within the promotion hold; when no service
  is available, exactly if the target has the lowest tier number of the rule.
\<close>

theorem IsAffinityEligible_iff:
  "fst (IsAffinityEligible now r services (Some t) st) \<longleftrightarrow>
     Active t \<and> filter Active services \<noteq> [] \<and>
     (if \<exists>d\<in>set (filter Active services). available_now now r st d
      then \<exists>T. (\<exists>d\<in>set (filter Active services). available_now now r st d \<and> Tier d = T) \<and>
               (\<forall>d\<in>set (filter Active services). available_now now r st d \<longrightarrow> T \<le> Tier d) \<and>
               ((\<exists>d\<in>set (filter Active services). Tier d = T \<and> available_now now r st d \<and> ServiceID d = ServiceID t) \<or>
                (\<exists>d\<in>set (filter Active services). Tier d = T \<and> held_now now r st d))
      else (\<exists>d\<in>set (filter Active services). Tier d = Tier t) \<and>
           (\<forall>d\<in>set (filter Active services). Tier t \<le> Tier d))"
  by (rule IsAffinityEligible_char)

theorem IsAffinityEligible_iff_witness:
  "fst (IsAffinityEligible 7 ''r'' [sampleService ''a'' 0, sampleService ''b'' 1]
          (Some (sampleService ''a'' 0)) defaultStore) \<and>
   \<not> fst (IsAffinityEligible 7 ''r'' [sampleService ''a'' 0, sampleService ''b'' 1]
          (Some (sampleService ''b'' 1)) defaultStore)"
proof -
  have b: "available_now 7 ''r'' defaultStore c" "\<not> held_now 7 ''r'' defaultStore c" for c
    by (simp_all add: available_now_def held_now_def store_views store_view_def defaultStore_def
        NewBreakerStore_def Breaker_State_def NewBreaker_def Let_def)
  let ?svcs = "[sampleService ''a'' 0, sampleService ''b'' 1]"
  have "filter Active ?svcs = ?svcs" "Tier (sampleService ''a'' 0) = 0" "Tier (sampleService ''b'' 1) = 1"
    "ServiceID (sampleService ''b'' 1) \<noteq> ServiceID (sampleService ''a'' 0)"
    "Active (sampleService ''a'' 0)" "Active (sampleService ''b'' 1)"
    by (simp_all add: sampleService_def ServiceID_def FormatServiceID_def)
  then show ?thesis
    using IsAffinityEligible_iff [of 7 "''r''" ?svcs "sampleService ''a'' 0" defaultStore]
      IsAffinityEligible_iff [of 7 "''r''" ?svcs "sampleService ''b'' 1" defaultStore] b
    by (auto intro: exI [of _ 0])
qed

text \<open>
  The second way of keeping a pin does not look at the target: a target whose own breaker is
  open stays pinned while a peer of its tier is within the promotion hold.
\<close>

lemma affinity_keeps_open_pin:
  assumes "svcs = [sampleService ''a'' 0, sampleService ''b'' 0]"
    and "store_view st (FormatBreakerKey r (ServiceID (svcs ! 0))) = NewBreaker 3 100\<lparr>br_state := BreakerOpen, openedAt := 1000\<rparr>"
    and "store_view st (FormatBreakerKey r (ServiceID (svcs ! 1))) = NewBreaker 3 100\<lparr>closedSince := 990\<rparr>"
  shows "\<not> available_now 1001 r st (svcs ! 0) \<and>
         fst (IsAffinityEligible 1001 r svcs (Some (svcs ! 0)) st)"
proof -
  have "\<not> available_now 1001 r st (svcs ! 0)" "available_now 1001 r st (svcs ! 1)" "held_now 1001 r st (svcs ! 1)"
    using assms by (simp_all add: available_now_def held_now_def store_views Breaker_State_def
        NewBreaker_def breaker_defaults)
  with assms(1) show ?thesis
    by (auto simp: IsAffinityEligible_char sampleService_def)
qed

end
