(* ===== verification/TB_Affinity.thy ===== *)
theory TB_Affinity
  imports TB_Prelude TB_Tactics
begin

text \<open>
  Session affinity: session identifiers (\<^verbatim>\<open>internal/typ/id.go\<close>), the partition-scoped
  session key (\<^verbatim>\<open>AffinitySessionKey\<close> of \<^verbatim>\<open>internal/routing/stage_affinity.go\<close>) and the store
  of pins (\<^verbatim>\<open>internal/protocolserver/affinity.go\<close>).  The store's map is an association list
  with distinct keys, because sessions are counted by service.  The interface the routing
  pipeline uses, \<^verbatim>\<open>routing.AffinityStore\<close>, is the locale \<open>affinity_store\<close>.
\<close>

section \<open>Session identifiers\<close>

abbreviation "SessionSourceUser \<equiv> ''user''"
abbreviation "SessionSourceHeader \<equiv> ''hdr''"
abbreviation "SessionSourceIP \<equiv> ''ip''"

record SessionID =
  Source :: string
  sid_Value :: string
  IPBackup :: string

definition IsIPFallback :: "SessionID \<Rightarrow> bool" where
  "IsIPFallback s \<longleftrightarrow> Source s = SessionSourceIP"

definition IsEmpty :: "SessionID \<Rightarrow> bool" where
  "IsEmpty s \<longleftrightarrow> sid_Value s = []"

definition GetIP :: "SessionID \<Rightarrow> string" where
  "GetIP s = (if IPBackup s \<noteq> [] then IPBackup s else if Source s = SessionSourceIP then sid_Value s else [])"

text \<open>
  \<^verbatim>\<open>encoding/json\<close> on a struct of strings: fields in order, the backup left out when empty,
  each string quoted and escaped as the encoder does (short escapes, \<^verbatim>\<open>\u00XX\<close> for the other
  control characters and for the HTML-sensitive ones).  Text is valid UTF-8 without U+2028 and
  U+2029, which the encoder also escapes.
\<close>

definition hex_char :: "nat \<Rightarrow> char" where
  "hex_char n = (if n < 10 then char_of (48 + n) else char_of (87 + n))"

definition json_char :: "char \<Rightarrow> string" where
  "json_char c =
     (let n = (of_char c :: nat) in
      if n = 34 then [char_of (92 :: nat), char_of (34 :: nat)]
      else if n = 92 then [char_of (92 :: nat), char_of (92 :: nat)]
      else if n = 8 then [char_of (92 :: nat), CHR ''b'']
      else if n = 9 then [char_of (92 :: nat), CHR ''t'']
      else if n = 10 then [char_of (92 :: nat), CHR ''n'']
      else if n = 12 then [char_of (92 :: nat), CHR ''f'']
      else if n = 13 then [char_of (92 :: nat), CHR ''r'']
      else if n < 32 \<or> n = 60 \<or> n = 62 \<or> n = 38
      then [char_of (92 :: nat), CHR ''u'', CHR ''0'', CHR ''0'', hex_char (n div 16), hex_char (n mod 16)]
      else [c])"

definition json_body :: "string \<Rightarrow> string" where
  "json_body s = concat (map json_char s)"

definition json_string :: "string \<Rightarrow> string" where
  "json_string s = char_of (34 :: nat) # json_body s @ [char_of (34 :: nat)]"

definition json_field :: "string \<Rightarrow> string \<Rightarrow> string" where
  "json_field name v = json_string name @ CHR '':'' # json_string v"

definition SessionID_String :: "SessionID \<Rightarrow> string" where
  "SessionID_String s =
     CHR ''{'' # json_field ''source'' (Source s) @ CHR '','' # json_field ''value'' (sid_Value s) @
     (if IPBackup s = [] then [] else CHR '','' # json_field ''ip_backup'' (IPBackup s)) @ ''}''"

definition AffinitySessionKey :: "string \<Rightarrow> int \<Rightarrow> string" where
  "AffinitySessionKey sessionID matchedSmartRuleIndex =
     (if matchedSmartRuleIndex < 0 then sessionID
      else sessionID @ ''#sr'' @ Itoa matchedSmartRuleIndex)"

subsection \<open>Distinct sessions and partitions have distinct keys\<close>

text \<open>
  A decoder for one escaped character shows that the encoding is prefix-free.
\<close>

definition unhex :: "char \<Rightarrow> nat" where
  "unhex c = (let n = of_char c in if n < 58 then n - 48 else n - 87)"

definition json_uncons :: "string \<Rightarrow> char \<times> string" where
  "json_uncons s =
     (let r = tl s; c = hd r in
      if of_char (hd s) \<noteq> (92 :: nat) then (hd s, r)
      else if c = CHR ''b'' then (char_of (8 :: nat), tl r)
      else if c = CHR ''t'' then (char_of (9 :: nat), tl r)
      else if c = CHR ''n'' then (char_of (10 :: nat), tl r)
      else if c = CHR ''f'' then (char_of (12 :: nat), tl r)
      else if c = CHR ''r'' then (char_of (13 :: nat), tl r)
      else if c = CHR ''u'' then (char_of (16 * unhex (r ! 3) + unhex (r ! 4)), drop 5 r)
      else (c, tl r))"

lemma unhex_hex: "n < 16 \<Longrightarrow> unhex (hex_char n) = n"
  by (simp add: unhex_def hex_char_def Let_def)

lemma char_of_eq: "of_char c = (n :: nat) \<Longrightarrow> char_of n = c"
  by auto

lemma json_uncons_u:
  "json_uncons (char_of (92 :: nat) # CHR ''u'' # a # b # h # l # u) = (char_of (16 * unhex h + unhex l), u)"
  by (simp add: json_uncons_def)

lemma json_uncons_char: "json_uncons (json_char c @ u) = (c, u)"
proof -
  let ?n = "of_char c :: nat"
  have n: "?n div 16 < 16" using nat_of_char_less_256 [of c] by (simp add: less_mult_imp_div_less)
  have hex: "16 * unhex (hex_char (?n div 16)) + unhex (hex_char (?n mod 16)) = ?n"
    using n by (simp add: unhex_hex)
  show ?thesis
  proof (cases "?n \<in> {34, 92, 8, 9, 10, 12, 13}")
    case True
    then have "c \<in> char_of ` {34, 92, 8, 9, 10, 12, 13 :: nat}"
      by (metis char_of_char image_eqI)
    then show ?thesis by (auto simp: json_char_def json_uncons_def) (simp_all add: Let_def char_of_def)
  next
    case short: False
    show ?thesis
    proof (cases "?n < 32 \<or> ?n = 60 \<or> ?n = 62 \<or> ?n = 38")
      case True
      with short have "json_char c =
          [char_of (92 :: nat), CHR ''u'', CHR ''0'', CHR ''0'', hex_char (?n div 16), hex_char (?n mod 16)]"
        by (simp add: json_char_def Let_def)
      then show ?thesis by (simp add: json_uncons_u hex)
    next
      case False
      with short have "json_char c = [c]" by (simp add: json_char_def Let_def)
      then show ?thesis using short by (simp add: json_uncons_def)
    qed
  qed
qed

lemma json_char_prefix: "json_char c @ u = json_char d @ v \<Longrightarrow> c = d \<and> u = v"
  by (metis json_uncons_char prod.inject)

lemma json_body_prefix:
  "json_body a @ char_of (34 :: nat) # x = json_body b @ char_of (34 :: nat) # y \<Longrightarrow> a = b \<and> x = y"
proof (induction a arbitrary: b)
  case Nil
  show ?case
  proof (cases b)
    case Nil
    with \<open>json_body [] @ char_of 34 # x = json_body b @ char_of 34 # y\<close> show ?thesis
      by (simp add: json_body_def)
  next
    case (Cons d b')
    then have eq: "char_of (34 :: nat) # x = json_char d @ json_body b' @ char_of (34 :: nat) # y"
      using Nil.prems by (simp add: json_body_def)
    have "d = char_of (34 :: nat)"
      using arg_cong [OF eq, of json_uncons] by (simp add: json_uncons_char) (simp add: json_uncons_def)
    with eq show ?thesis by (simp add: json_char_def)
  qed
next
  case (Cons c a)
  show ?case
  proof (cases b)
    case Nil
    then have eq: "json_char c @ json_body a @ char_of (34 :: nat) # x = char_of (34 :: nat) # y"
      using Cons.prems by (simp add: json_body_def)
    have "c = char_of (34 :: nat)"
      using arg_cong [OF eq, of json_uncons] by (simp add: json_uncons_char) (simp add: json_uncons_def)
    with eq show ?thesis by (simp add: json_char_def)
  next
    case (Cons d b')
    with Cons.prems have "json_char c @ json_body a @ char_of (34 :: nat) # x =
        json_char d @ json_body b' @ char_of (34 :: nat) # y"
      by (simp add: json_body_def)
    then have "c = d" "json_body a @ char_of (34 :: nat) # x = json_body b' @ char_of (34 :: nat) # y"
      by (auto dest: json_char_prefix)
    with Cons.IH [OF this(2)] Cons show ?thesis by simp
  qed
qed

lemma json_field_prefix:
  assumes "json_field n v @ x = json_field n w @ y"
  shows "v = w \<and> x = y"
  using assms json_body_prefix [of v x w y] by (simp add: json_field_def json_string_def)

lemma SessionID_String_inj: "SessionID_String s = SessionID_String t \<Longrightarrow> s = t"
proof -
  assume eq: "SessionID_String s = SessionID_String t"
  let ?bk = "\<lambda>s. (if IPBackup s = [] then [] else CHR '','' # json_field ''ip_backup'' (IPBackup s)) @ ''}''"
  from eq have 1: "json_field ''source'' (Source s) @ CHR '','' # json_field ''value'' (sid_Value s) @ ?bk s =
      json_field ''source'' (Source t) @ CHR '','' # json_field ''value'' (sid_Value t) @ ?bk t"
    by (simp add: SessionID_String_def)
  from json_field_prefix [OF 1] have "Source s = Source t"
    and 2: "json_field ''value'' (sid_Value s) @ ?bk s = json_field ''value'' (sid_Value t) @ ?bk t"
    by auto
  moreover from json_field_prefix [OF 2] have "sid_Value s = sid_Value t" and 3: "?bk s = ?bk t" by auto
  moreover have "IPBackup s = IPBackup t"
    using 3 json_field_prefix [of "''ip_backup''" "IPBackup s" "''}''" "IPBackup t" "''}''"]
    by (auto split: if_splits)
  ultimately show "s = t" by simp
qed

lemma SessionID_String_last: "SessionID_String s \<noteq> [] \<and> last (SessionID_String s) = CHR ''}''"
  by (simp add: SessionID_String_def)

lemma Itoa_nobrace: "0 \<le> i \<Longrightarrow> CHR ''}'' \<notin> set (Itoa i)"
proof
  assume "0 \<le> i" "CHR ''}'' \<in> set (Itoa i)"
  then obtain d where "d < 10" "CHR ''}'' = digit_char d"
    by (auto simp: Itoa_def dest: show_nat_digits)
  then have "of_char (CHR ''}'') = (48 + d :: nat)" by (metis digit_char_range)
  with \<open>d < 10\<close> show False by simp
qed

lemma Itoa_inj: "0 \<le> i \<Longrightarrow> 0 \<le> j \<Longrightarrow> Itoa i = Itoa j \<longleftrightarrow> i = j"
  by (auto simp: Itoa_def)

lemma split_last_unique:
  assumes "a @ c # b = a' @ c # b'" and "c \<notin> set b" and "c \<notin> set b'"
  shows "a = a' \<and> b = b'"
proof -
  have "rev b @ c # rev a = rev b' @ c # rev a'"
    using arg_cong [OF assms(1), of rev] by simp
  from split_at_unique [OF this] assms(2,3) show ?thesis by simp
qed

definition partition :: "int \<Rightarrow> int" where
  "partition i = (if i < 0 then -1 else i)"

lemma AffinitySessionKey_shape:
  "\<exists>a b. AffinitySessionKey (SessionID_String s) i = a @ CHR ''}'' # b \<and> CHR ''}'' \<notin> set b \<and>
         SessionID_String s = a @ ''}'' \<and> b = (if i < 0 then [] else ''#sr'' @ Itoa i)"
proof -
  obtain a where a: "SessionID_String s = a @ ''}''"
    using SessionID_String_last [of s] by (metis append_butlast_last_id)
  show ?thesis
  proof (cases "i < 0")
    case True
    with a show ?thesis by (intro exI [of _ a] exI [of _ "[]"]) (simp add: AffinitySessionKey_def)
  next
    case False
    with a Itoa_nobrace [of i] show ?thesis
      by (intro exI [of _ a] exI [of _ "''#sr'' @ Itoa i"]) (simp add: AffinitySessionKey_def)
  qed
qed

lemma AffinitySessionKey_inj:
  "AffinitySessionKey (SessionID_String s) i = AffinitySessionKey (SessionID_String t) j \<longleftrightarrow>
     s = t \<and> partition i = partition j"
proof
  assume eq: "AffinitySessionKey (SessionID_String s) i = AffinitySessionKey (SessionID_String t) j"
  obtain a b where ab: "AffinitySessionKey (SessionID_String s) i = a @ CHR ''}'' # b" "CHR ''}'' \<notin> set b"
    "SessionID_String s = a @ ''}''" "b = (if i < 0 then [] else ''#sr'' @ Itoa i)"
    using AffinitySessionKey_shape by blast
  obtain a' b' where ab': "AffinitySessionKey (SessionID_String t) j = a' @ CHR ''}'' # b'" "CHR ''}'' \<notin> set b'"
    "SessionID_String t = a' @ ''}''" "b' = (if j < 0 then [] else ''#sr'' @ Itoa j)"
    using AffinitySessionKey_shape by blast
  have "a = a' \<and> b = b'" using eq ab ab' by (metis split_last_unique)
  moreover from this have "s = t" using ab(3) ab'(3) SessionID_String_inj by metis
  ultimately show "s = t \<and> partition i = partition j"
    using ab(4) ab'(4) Itoa_inj by (auto simp: partition_def split: if_splits)
next
  assume "s = t \<and> partition i = partition j"
  then show "AffinitySessionKey (SessionID_String s) i = AffinitySessionKey (SessionID_String t) j"
    by (auto simp: partition_def AffinitySessionKey_def split: if_splits)
qed

section \<open>The store\<close>

record AffinityEntry =
  ae_Service :: "Service option"
  MessageID :: string
  LockedAt :: time
  ExpiresAt :: time

record AffinityStore =
  entries :: "(string \<times> AffinityEntry) list"
  ttl :: duration

definition defaultAffinityTTL :: duration where "defaultAffinityTTL = 1 * Hour"
definition capacityActiveWindow :: duration where "capacityActiveWindow = 30 * Minute"

definition NewAffinityStore :: "duration \<Rightarrow> AffinityStore" where
  "NewAffinityStore t = \<lparr>entries = [], ttl = (if t \<le> 0 then defaultAffinityTTL else t)\<rparr>"

definition makeKey :: "string \<Rightarrow> string \<Rightarrow> string" where
  "makeKey ruleUUID sessionID = ruleUUID @ CHR '':'' # sessionID"

definition Affinity_Get :: "time \<Rightarrow> string \<Rightarrow> string \<Rightarrow> AffinityStore \<Rightarrow> AffinityEntry option" where
  "Affinity_Get now ruleUUID sessionID s =
     (case map_of (entries s) (makeKey ruleUUID sessionID) of
        None \<Rightarrow> None
      | Some entry \<Rightarrow> if now > ExpiresAt entry then None else Some entry)"

definition Affinity_Set :: "string \<Rightarrow> string \<Rightarrow> AffinityEntry \<Rightarrow> AffinityStore \<Rightarrow> AffinityStore" where
  "Affinity_Set ruleUUID sessionID entry s =
     s\<lparr>entries := AList.update (makeKey ruleUUID sessionID) entry (entries s)\<rparr>"

definition Affinity_UpdateMessageID :: "string \<Rightarrow> string \<Rightarrow> string \<Rightarrow> AffinityStore \<Rightarrow> AffinityStore" where
  "Affinity_UpdateMessageID ruleUUID sessionID messageID s =
     (case map_of (entries s) (makeKey ruleUUID sessionID) of
        None \<Rightarrow> s
      | Some entry \<Rightarrow>
          s\<lparr>entries := AList.update (makeKey ruleUUID sessionID) (entry\<lparr>MessageID := messageID\<rparr>) (entries s)\<rparr>)"

definition Affinity_Delete :: "string \<Rightarrow> string \<Rightarrow> AffinityStore \<Rightarrow> AffinityStore" where
  "Affinity_Delete ruleUUID sessionID s =
     s\<lparr>entries := AList.delete (makeKey ruleUUID sessionID) (entries s)\<rparr>"

definition Affinity_DeleteByRule :: "string \<Rightarrow> AffinityStore \<Rightarrow> AffinityStore" where
  "Affinity_DeleteByRule ruleUUID s =
     (let prefix = ruleUUID @ '':'' in
      s\<lparr>entries := filter (\<lambda>(key, v). \<not> (length key > length prefix \<and> take (length prefix) key = prefix))
                     (entries s)\<rparr>)"

definition Affinity_GC :: "time \<Rightarrow> AffinityStore \<Rightarrow> AffinityStore" where
  "Affinity_GC now s = s\<lparr>entries := filter (\<lambda>(key, entry). \<not> now > ExpiresAt entry) (entries s)\<rparr>"

text \<open>
  \<^verbatim>\<open>CountByService\<close> reads \<^verbatim>\<open>time.Now\<close>, not the clock the other operations share.
\<close>

definition Affinity_CountByService :: "time \<Rightarrow> string \<Rightarrow> AffinityStore \<Rightarrow> int" where
  "Affinity_CountByService wallNow serviceID s =
     (let cutoff = wallNow - capacityActiveWindow in
      int (length (filter (\<lambda>(key, entry). LockedAt entry > cutoff \<and>
             (case ae_Service entry of Some svc \<Rightarrow> ServiceID svc = serviceID | None \<Rightarrow> False))
           (entries s))))"

definition affinity_inv :: "AffinityStore \<Rightarrow> bool" where
  "affinity_inv s \<longleftrightarrow> distinct (map fst (entries s)) \<and> 0 < ttl s"

lemma affinity_inv_ops [keeps]:
  "affinity_inv (NewAffinityStore t)"
  "affinity_inv s \<Longrightarrow> affinity_inv (Affinity_Set r k e s)"
  "affinity_inv s \<Longrightarrow> affinity_inv (Affinity_UpdateMessageID r k m s)"
  "affinity_inv s \<Longrightarrow> affinity_inv (Affinity_Delete r k s)"
  "affinity_inv s \<Longrightarrow> affinity_inv (Affinity_DeleteByRule r s)"
  "affinity_inv s \<Longrightarrow> affinity_inv (Affinity_GC now s)"
  by (auto simp: affinity_inv_def NewAffinityStore_def Affinity_Set_def Affinity_UpdateMessageID_def
      Affinity_Delete_def Affinity_DeleteByRule_def Affinity_GC_def Let_def defaultAffinityTTL_def
      duration_defs distinct_update distinct_delete distinct_keys_filter split: option.splits)

text \<open>
  Rule identifiers may contain the separator, as the built-in ones do, but no brace, and a session
  key begins with one; that keeps the composed keys apart.
\<close>

lemma AffinitySessionKey_head:
  "\<exists>t. AffinitySessionKey (SessionID_String s) i = CHR ''{'' # t"
  by (simp add: AffinitySessionKey_def SessionID_String_def)

lemma makeKey_inj:
  assumes "CHR ''{'' \<notin> set r" and "CHR ''{'' \<notin> set r'" and "k = CHR ''{'' # t" and "k' = CHR ''{'' # t'"
  shows "makeKey r k = makeKey r' k' \<longleftrightarrow> r = r' \<and> k = k'"
proof
  assume "makeKey r k = makeKey r' k'"
  then have "(r @ '':'') @ CHR ''{'' # t = (r' @ '':'') @ CHR ''{'' # t'" using assms(3,4) by (simp add: makeKey_def)
  from split_at_unique [OF this] assms show "r = r' \<and> k = k'" by simp
qed simp

lemma makeKey_same_rule [simp]: "makeKey r k = makeKey r k' \<longleftrightarrow> k = k'"
  by (simp add: makeKey_def)

lemma makeKey_prefix:
  assumes "CHR ''{'' \<notin> set r" and "\<not> prefix (r @ '':'') r'" and "k = CHR ''{'' # t"
  shows "(length (makeKey r' k) > length (r @ '':'') \<and> take (length (r @ '':'')) (makeKey r' k) = r @ '':'') \<longleftrightarrow> r = r'"
proof
  assume *: "length (makeKey r' k) > length (r @ '':'') \<and> take (length (r @ '':'')) (makeKey r' k) = r @ '':''"
  then have "prefix (r @ '':'') ((r' @ '':'') @ k)" by (metis makeKey_def append.assoc append_Cons append_Nil take_is_prefix)
  then have "prefix (r @ '':'') (r' @ '':'') \<or> (\<exists>u. r @ '':'' = (r' @ '':'') @ u \<and> prefix u k)"
    by (simp only: prefix_append)
  then consider "prefix (r @ '':'') (r' @ '':'')" | u where "r @ '':'' = (r' @ '':'') @ u" "u \<noteq> []" "prefix u k"
    by (metis append_Nil2 prefix_order.refl)
  then show "r = r'"
  proof cases
    case 1
    then show ?thesis using assms(2) by (auto simp: prefix_snoc)
  next
    case 2
    then obtain u' where u: "u = CHR ''{'' # u'" using assms(3) by (cases u) auto
    have "CHR ''{'' \<in> set (r @ '':'')" unfolding 2(1) u by simp
    with assms(1) show ?thesis by simp
  qed
next
  assume "r = r'"
  then show "length (makeKey r' k) > length (r @ '':'') \<and> take (length (r @ '':'')) (makeKey r' k) = r @ '':''"
    using assms(3) by (simp add: makeKey_def)
qed

section \<open>What the pipeline relies on\<close>

text \<open>
  \<^verbatim>\<open>routing.AffinityStore\<close>: a pin that was set is what a lookup finds until it expires, and
  setting one pin leaves the others alone.
\<close>

locale affinity_store =
  fixes get :: "'s \<Rightarrow> time \<Rightarrow> string \<Rightarrow> AffinityEntry option"
    and set_entry :: "'s \<Rightarrow> string \<Rightarrow> AffinityEntry \<Rightarrow> 's"
  assumes get_set: "get (set_entry s k e) now k = (if now > ExpiresAt e then None else Some e)"
    and get_set_other: "k \<noteq> k' \<Longrightarrow> get (set_entry s k e) now k' = get s now k'"
begin

lemma get_set_iff:
  "get (set_entry s k e) now k' = (if k = k' then if now > ExpiresAt e then None else Some e else get s now k')"
  by (simp add: get_set get_set_other)

lemma set_set_last_wins: "get (set_entry (set_entry s k e) k e') now j = get (set_entry s k e') now j"
  by (simp add: get_set_iff)

lemma set_commute:
  "k \<noteq> k' \<Longrightarrow> get (set_entry (set_entry s k e) k' e') now j = get (set_entry (set_entry s k' e') k e) now j"
  by (auto simp: get_set_iff)

end

interpretation rule_pins: affinity_store
  "\<lambda>s now k. Affinity_Get now ruleUUID k s" "\<lambda>s k e. Affinity_Set ruleUUID k e s" for ruleUUID
  by unfold_locales (auto simp: Affinity_Get_def Affinity_Set_def update_conv')

text \<open>
  Pins are independent.  For rule identifiers without braces, setting the pin of one
  (rule, session, partition) changes what is found for exactly that one: no other session, no
  other content partition of the same session and no other rule sees it, whatever bytes the
  session identifiers are made of.
\<close>

theorem affinity_pins_independent:
  assumes "CHR ''{'' \<notin> set r" and "CHR ''{'' \<notin> set r'"
  shows "Affinity_Get now r' (AffinitySessionKey (SessionID_String t) j)
           (Affinity_Set r (AffinitySessionKey (SessionID_String s) i) e st) =
         (if r = r' \<and> s = t \<and> partition i = partition j
          then (if now > ExpiresAt e then None else Some e)
          else Affinity_Get now r' (AffinitySessionKey (SessionID_String t) j) st)"
proof -
  have "makeKey r' (AffinitySessionKey (SessionID_String t) j) =
          makeKey r (AffinitySessionKey (SessionID_String s) i) \<longleftrightarrow>
        r = r' \<and> s = t \<and> partition i = partition j"
    using makeKey_inj [OF assms(2,1)] AffinitySessionKey_head AffinitySessionKey_inj by metis
  then show ?thesis by (simp add: Affinity_Get_def Affinity_Set_def update_conv')
qed

definition sampleSession :: "string \<Rightarrow> SessionID" where
  "sampleSession v = \<lparr>Source = SessionSourceUser, sid_Value = v, IPBackup = []\<rparr>"

theorem affinity_pins_independent_witness:
  "Affinity_Get 5 ''r1'' (AffinitySessionKey (SessionID_String (sampleSession ''a'')) 0)
     (Affinity_Set ''r1'' (AffinitySessionKey (SessionID_String (sampleSession ''a'')) 1)
        \<lparr>ae_Service = None, MessageID = [], LockedAt = 1, ExpiresAt = 9\<rparr> (NewAffinityStore 0)) = None"
  using affinity_pins_independent [of "''r1''" "''r1''" 5 "sampleSession ''a''" 0 "sampleSession ''a''" 1]
  by (simp add: partition_def NewAffinityStore_def Affinity_Get_def)

text \<open>
  Dropping a rule's pins removes all of them and, unless the other rule's
  identifier extends this one past a colon, no other rule's; and garbage collection at one time
  is invisible to every lookup at that time or later.
\<close>

theorem affinity_removal_exact:
  assumes "affinity_inv st" and "CHR ''{'' \<notin> set r" and "\<not> prefix (r @ '':'') r'" and "t \<le> now"
    and "k = AffinitySessionKey (SessionID_String s) i"
  shows "Affinity_Get now r' k (Affinity_DeleteByRule r st) =
           (if r = r' then None else Affinity_Get now r' k st) \<and>
         Affinity_Get now r' k (Affinity_GC t st) = Affinity_Get now r' k st"
proof
  let ?pre = "\<lambda>key. length key > length (r @ '':'') \<and> take (length (r @ '':'')) key = r @ '':''"
  obtain u where k: "k = CHR ''{'' # u" using AffinitySessionKey_head assms(5) by blast
  show "Affinity_Get now r' k (Affinity_DeleteByRule r st) =
      (if r = r' then None else Affinity_Get now r' k st)"
    using makeKey_prefix [OF assms(2,3) k] map_of_filter_key [of "\<lambda>key. \<not> ?pre key" "entries st" "makeKey r' k"]
    by (simp add: Affinity_Get_def Affinity_DeleteByRule_def Let_def)
  show "Affinity_Get now r' k (Affinity_GC t st) = Affinity_Get now r' k st"
    using assms(1,4) map_of_filter_val [of "entries st" "\<lambda>e. \<not> t > ExpiresAt e" "makeKey r' k"]
    by (auto simp: Affinity_Get_def Affinity_GC_def affinity_inv_def split: option.splits if_splits)
qed

definition samplePin :: AffinityStore where
  "samplePin = Affinity_Set ''builtin:openai:x'' (SessionID_String (sampleSession ''a''))
     \<lparr>ae_Service = None, MessageID = [], LockedAt = 1, ExpiresAt = 9\<rparr> (NewAffinityStore 0)"

theorem affinity_removal_exact_witness:
  "Affinity_Get 7 ''builtin:openai:x'' (SessionID_String (sampleSession ''a'')) (Affinity_GC 6 samplePin) \<noteq> None \<and>
   Affinity_Get 7 ''builtin:openai:x'' (SessionID_String (sampleSession ''a''))
     (Affinity_DeleteByRule ''builtin:openai:y'' samplePin) \<noteq> None"
  using affinity_removal_exact [of samplePin "''builtin:openai:y''" "''builtin:openai:x''" 6 7
      "SessionID_String (sampleSession ''a'')" "sampleSession ''a''" "-1"]
  by (simp add: samplePin_def keeps AffinitySessionKey_def)
     (simp add: Affinity_Get_def Affinity_Set_def NewAffinityStore_def makeKey_def)

end
