(* ===== verification/TB_LoadBalancer.thy ===== *)
theory TB_LoadBalancer
  imports TB_Prelude TB_Health TB_Tactics
begin

text \<open>
  The load balancer of \<^verbatim>\<open>internal/protocolserver/load_balance.go\<close> with the health filter of
  \<^verbatim>\<open>internal/routing/health_filter.go\<close>: health narrows the active services, the rule's tactic
  picks among the healthy ones, and breakers are consulted and claimed on the way.  The
  mutable state selection touches is the record \<open>world\<close>: breakers, health monitor (if one
  is configured) and the random supply.
\<close>

record world =
  w_breakers :: BreakerStore
  w_health :: "HealthMonitor option"
  w_rand :: rand_supply

section \<open>The health filter\<close>

fun filterLoop :: "time \<Rightarrow> Service list \<Rightarrow> HealthMonitor \<Rightarrow> Service list \<times> HealthMonitor" where
  "filterLoop now [] hm = ([], hm)"
| "filterLoop now (svc # svcs) hm =
     (let (ok, hm1) = IsHealthy now (ServiceID svc) hm;
          (rest, hm2) = filterLoop now svcs hm1
      in (if ok then svc # rest else rest, hm2))"

definition HealthFilter_Filter :: "time \<Rightarrow> Service list \<Rightarrow> HealthMonitor option \<Rightarrow>
    Service list \<times> HealthMonitor option" where
  "HealthFilter_Filter now services monitor =
     (case monitor of
        None \<Rightarrow> (services, None)
      | Some hm \<Rightarrow> (let (healthy, hm') = filterLoop now services hm in (healthy, Some hm')))"

definition FilterWithFallback :: "time \<Rightarrow> Service list \<Rightarrow> HealthMonitor option \<Rightarrow>
    Service list \<times> HealthMonitor option" where
  "FilterWithFallback now services monitor =
     (let (healthy, m) = HealthFilter_Filter now services monitor
      in if length healthy = 0 \<and> length services > 0 then (services, m) else (healthy, m))"

definition HealthFilter_IsHealthy :: "time \<Rightarrow> string \<Rightarrow> HealthMonitor option \<Rightarrow> bool \<times> HealthMonitor option" where
  "HealthFilter_IsHealthy now serviceID monitor =
     (case monitor of
        None \<Rightarrow> (True, None)
      | Some hm \<Rightarrow> (let (ok, hm') = IsHealthy now serviceID hm in (ok, Some hm')))"

section \<open>Selection\<close>

datatype lb_error = RuleIsNil | NoServicesConfigured string | NoActiveServices string

definition ruleView :: "Rule \<Rightarrow> Service list \<Rightarrow> Rule" where
  "ruleView rule services =
     \<lparr>UUID = UUID rule, Scenario = [], RequestModel = RequestModel rule, ResponseModel = ResponseModel rule,
      Services = services, SessionAffinity = 0, LBTactic = LBTactic rule, rule_Active = rule_Active rule,
      SmartEnabled = SmartEnabled rule, rule_SmartRouting = rule_SmartRouting rule\<rparr>"

text \<open>
  The pick after the health narrowing.  \<open>None\<close> is a selection loop that does not end; a
  theorem below shows that it does.
\<close>

definition pickHealthy :: "time \<Rightarrow> Rule \<Rightarrow> bool \<Rightarrow> Service list \<Rightarrow> world \<Rightarrow> (Service \<times> world) option" where
  "pickHealthy now rule claim healthy w =
     (case Tactic_Instantiate (Some (LBTactic rule)) of
        Flat f \<Rightarrow>
          (case PickBreakerAvailable now (UUID rule) healthy
                  (\<lambda>candidates. flat_SelectService now f (ruleView rule candidates)) claim
                  (w_breakers w) (w_rand w) of
             None \<Rightarrow> None
           | Some (Some chosen, s, rs) \<Rightarrow> Some (chosen, w\<lparr>w_breakers := s, w_rand := rs\<rparr>)
           | Some (None, s, rs) \<Rightarrow>
               (let (svc, rs') = flat_SelectService now f (ruleView rule healthy) rs;
                    w' = w\<lparr>w_breakers := s, w_rand := rs'\<rparr>
                in case svc of None \<Rightarrow> Some (healthy ! 0, w') | Some c \<Rightarrow> Some (c, w')))
      | TierTactic inner \<Rightarrow>
          (case (if claim then tactic_SelectService now (TierTactic inner) (ruleView rule healthy)
                                 (w_breakers w) (w_rand w)
                 else TierTactic_PreviewService now inner (ruleView rule healthy)
                        (w_breakers w) (w_rand w)) of
             None \<Rightarrow> None
           | Some (svc, s, rs) \<Rightarrow>
               (let w' = w\<lparr>w_breakers := s, w_rand := rs\<rparr>
                in case svc of None \<Rightarrow> Some (healthy ! 0, w') | Some c \<Rightarrow> Some (c, w'))))"

definition lb_selectService :: "time \<Rightarrow> Rule option \<Rightarrow> bool \<Rightarrow> world \<Rightarrow>
    ((lb_error + Service) \<times> world) option" where
  "lb_selectService now orule claim w =
     (case orule of
        None \<Rightarrow> Some (Inl RuleIsNil, w)
      | Some rule \<Rightarrow>
          if length (Services rule) = 0 then Some (Inl (NoServicesConfigured (RequestModel rule)), w)
          else
            let activeServices = filter Active (Services rule) in
            if length activeServices = 0 then Some (Inl (NoActiveServices (RequestModel rule)), w)
            else
              let (h, m) = HealthFilter_Filter now activeServices (w_health w);
                  w1 = w\<lparr>w_health := m\<rparr>;
                  healthyServices = (if length h = 0 then activeServices else h)
              in if length healthyServices = 1 then Some (Inr (healthyServices ! 0), w1)
                 else map_option (\<lambda>(svc, w2). (Inr svc, w2)) (pickHealthy now rule claim healthyServices w1))"

definition LB_SelectService :: "time \<Rightarrow> Rule option \<Rightarrow> world \<Rightarrow> ((lb_error + Service) \<times> world) option" where
  "LB_SelectService now rule w = lb_selectService now rule True w"

definition LB_PreviewService :: "time \<Rightarrow> Rule option \<Rightarrow> world \<Rightarrow> ((lb_error + Service) \<times> world) option" where
  "LB_PreviewService now rule w = lb_selectService now rule False w"

section \<open>Clearing statistics\<close>

text \<open>
  The in-memory half of \<^verbatim>\<open>ClearServiceStats\<close> and \<^verbatim>\<open>ClearAllStats\<close>; the persisted store is not
  part of the model.
\<close>

definition clearedStats :: "time \<Rightarrow> ServiceStats \<Rightarrow> ServiceStats" where
  "clearedStats now ss =
     ss\<lparr>RequestCount := 0, WindowRequestCount := 0, WindowTokensConsumed := 0, WindowInputTokens := 0,
        WindowOutputTokens := 0, WindowStart := now, LastUsed := zeroTime\<rparr>"

definition ClearServiceStats :: "time \<Rightarrow> string \<Rightarrow> string \<Rightarrow> Rule list \<Rightarrow> Rule list" where
  "ClearServiceStats now provider model rules =
     map (\<lambda>rule. if \<not> rule_Active rule then rule
                 else rule\<lparr>Services := map (\<lambda>svc.
                        if Active svc \<and> Provider svc = provider \<and> Model svc = model
                        then svc\<lparr>Stats := clearedStats now (Stats svc)\<rparr> else svc) (Services rule)\<rparr>) rules"

definition ClearAllStats :: "time \<Rightarrow> Rule list \<Rightarrow> Rule list" where
  "ClearAllStats now rules =
     map (\<lambda>rule. rule\<lparr>Services := map (\<lambda>svc.
            if RequestCount (Stats svc) > 0 \<or> WindowRequestCount (Stats svc) > 0
            then svc\<lparr>Stats := clearedStats now (Stats svc)\<rparr> else svc) (Services rule)\<rparr>) rules"

fun GetServiceStats :: "string \<Rightarrow> string \<Rightarrow> Rule list \<Rightarrow> ServiceStats option" where
  "GetServiceStats provider model [] = None"
| "GetServiceStats provider model (rule # rules) =
     (if \<not> rule_Active rule then GetServiceStats provider model rules
      else
        (case List.find (\<lambda>svc. Active svc \<and> Provider svc = provider \<and> Model svc = model) (Services rule) of
           Some svc \<Rightarrow> Some (GetStats (Stats svc))
         | None \<Rightarrow> GetServiceStats provider model rules))"

text \<open>
  Clearing forgets the token totals of the window but neither its cost nor its cache counters,
  so the statistics of a cleared service no longer agree with each other.
\<close>

lemma clearedStats_inconsistent:
  assumes "WindowCostTokens ss \<noteq> 0"
  shows "\<not> stats_inv (clearedStats now ss)"
  using assms by (simp add: stats_inv_def clearedStats_def)

section \<open>The health filter narrows\<close>

lemma filterLoop_subset: "set (fst (filterLoop now svcs hm)) \<subseteq> set svcs"
proof (induction svcs arbitrary: hm)
  case (Cons svc svcs)
  from Cons.IH [of "snd (IsHealthy now (ServiceID svc) hm)"] show ?case
    by (auto simp: Let_def split_beta)
qed simp

lemma HealthFilter_subset: "set (fst (HealthFilter_Filter now svcs m)) \<subseteq> set svcs"
proof (cases m)
  case (Some hm)
  with filterLoop_subset [of now svcs hm] show ?thesis by (simp add: HealthFilter_Filter_def split_beta)
qed (simp add: HealthFilter_Filter_def)

definition healthyPool :: "time \<Rightarrow> Rule \<Rightarrow> world \<Rightarrow> Service list" where
  "healthyPool now rule w =
     (let act = filter Active (Services rule); h = fst (HealthFilter_Filter now act (w_health w))
      in if h = [] then act else h)"

lemma healthyPool_facts:
  assumes "filter Active (Services rule) \<noteq> []"
  shows "healthyPool now rule w \<noteq> []" "\<forall>x\<in>set (healthyPool now rule w). Active x \<and> x \<in> set (Services rule)"
  using assms HealthFilter_subset [of now "filter Active (Services rule)" "w_health w"]
  by (auto simp: healthyPool_def Let_def)

lemma ruleView_pick:
  "member_pick now Active (\<lambda>xs. flat_SelectService now f (ruleView rule xs))"
  using flat.select_pick [of now f "ruleView rule []"] by (simp add: ruleView_def)

lemma active_view:
  "\<forall>x\<in>set xs. Active x \<Longrightarrow> GetActiveServices now (ruleView rule xs) = map (InitializeStats now) xs"
  by (simp add: GetActiveServices_def ruleView_def filter_id_conv)

section \<open>What the load balancer selects\<close>

definition lb_post :: "time \<Rightarrow> Rule \<Rightarrow> Service list \<Rightarrow> world \<Rightarrow> Service \<Rightarrow> bool" where
  "lb_post now rule pool w c \<longleftrightarrow>
     c \<in> InitializeStats now ` set pool \<and>
     ((\<exists>d\<in>set pool. allowed now (UUID rule) (w_breakers w) d) \<longrightarrow> allowed now (UUID rule) (w_breakers w) c)"

lemma allowed_InitializeStats [simp]: "allowed now r st (InitializeStats t c) = allowed now r st c"
  by (simp add: allowed_def)

lemma ruleView_UUID [simp]: "UUID (ruleView rule xs) = UUID rule"
  by (simp add: ruleView_def)

lemma pickHealthy_flat:
  assumes "Tactic_Instantiate (Some (LBTactic rule)) = Flat f" and "pool \<noteq> []" and "\<forall>x\<in>set pool. Active x"
  shows "\<exists>c w'. pickHealthy now rule True pool w = Some (c, w') \<and> lb_post now rule pool w c"
proof -
  obtain res s rs where 1: "PickBreakerAvailable now (UUID rule) pool
      (\<lambda>candidates. flat_SelectService now f (ruleView rule candidates)) True (w_breakers w) (w_rand w) = Some (res, s, rs)"
    and 2: "claim_post now (\<lambda>s i. Store_IsAvailable now (UUID rule) i s) (\<lambda>s i. Store_Allow now (UUID rule) i s)
              pool (w_breakers w) res s"
    using rule_breakers.pick_claims [OF ruleView_pick assms(3), of now "UUID rule" now f rule "w_breakers w" "w_rand w"]
    unfolding PickBreakerAvailable_def by blast
  show ?thesis
  proof (cases res)
    case (Some c)
    with 1 2 assms(1) show ?thesis by (simp add: pickHealthy_def claim_post_def lb_post_def allowed_def)
  next
    case None
    with 2 have none: "\<not> (\<exists>d\<in>set pool. allowed now (UUID rule) (w_breakers w) d)"
      by (simp add: claim_post_def allowed_def)
    obtain x rs' where x: "x \<in> set pool" "flat_SelectService now f (ruleView rule pool) rs = (Some (InitializeStats now x), rs')"
      using ruleView_pick [of now f rule] assms(2,3) unfolding member_pick_def by blast
    with 1 None assms(1) none show ?thesis by (simp add: pickHealthy_def lb_post_def)
  qed
qed

lemma pickHealthy_tier:
  assumes "Tactic_Instantiate (Some (LBTactic rule)) = TierTactic inner" and "pool \<noteq> []" and "\<forall>x\<in>set pool. Active x"
  shows "\<exists>c w'. pickHealthy now rule True pool w = Some (c, w') \<and> lb_post now rule pool w c"
proof -
  have act: "GetActiveServices now (ruleView rule pool) = map (InitializeStats now) pool"
    using assms(3) by (rule active_view)
  then have ne: "GetActiveServices now (ruleView rule pool) \<noteq> []" using assms(2) by simp
  from TierTactic_select [OF ne, of inner "w_breakers w" "w_rand w"] obtain c st' rs' where
    1: "TierTactic_selectService now inner (ruleView rule pool) True (w_breakers w) (w_rand w) = Some (Some c, st', rs')"
    and 2: "c \<in> set (map (InitializeStats now) pool)"
      "(\<exists>d\<in>set (map (InitializeStats now) pool). allowed now (UUID rule) (w_breakers w) d) \<longrightarrow>
         allowed now (UUID rule) (w_breakers w) c"
    unfolding act by (auto split: if_splits)
  with assms(1) show ?thesis by (simp add: pickHealthy_def lb_post_def)
qed

lemma pickHealthy_selects:
  assumes "pool \<noteq> []" and "\<forall>x\<in>set pool. Active x"
  shows "\<exists>c w'. pickHealthy now rule True pool w = Some (c, w') \<and> lb_post now rule pool w c"
  using pickHealthy_flat [OF _ assms] pickHealthy_tier [OF _ assms]
  by (cases "Tactic_Instantiate (Some (LBTactic rule))") blast+

lemma lb_select_result:
  assumes "filter Active (Services rule) \<noteq> []"
  shows "\<exists>c w'. LB_SelectService now (Some rule) w = Some (Inr c, w') \<and>
           Active c \<and> (\<exists>d\<in>set (healthyPool now rule w). c = d \<or> c = InitializeStats now d) \<and>
           (length (healthyPool now rule w) \<noteq> 1 \<longrightarrow>
              (\<exists>d\<in>set (healthyPool now rule w). allowed now (UUID rule) (w_breakers w) d) \<longrightarrow>
              allowed now (UUID rule) (w_breakers w) c)"
proof -
  let ?act = "filter Active (Services rule)" and ?pool = "healthyPool now rule w"
  obtain h m where hf: "HealthFilter_Filter now ?act (w_health w) = (h, m)"
    by (cases "HealthFilter_Filter now ?act (w_health w)")
  then have pool: "?pool = (if h = [] then ?act else h)" by (simp add: healthyPool_def Let_def)
  have ne: "Services rule \<noteq> []" using assms by auto
  note facts = healthyPool_facts [OF assms, of now w]
  have lb: "LB_SelectService now (Some rule) w =
      (if length ?pool = 1 then Some (Inr (?pool ! 0), w\<lparr>w_health := m\<rparr>)
       else map_option (\<lambda>(svc, w2). (Inr svc, w2)) (pickHealthy now rule True ?pool (w\<lparr>w_health := m\<rparr>)))"
    using assms ne by (simp add: LB_SelectService_def lb_selectService_def hf pool Let_def)
  show ?thesis
  proof (cases "length ?pool = 1")
    case True
    have "?pool ! 0 \<in> set ?pool" using facts(1) by simp
    with True facts(2) show ?thesis unfolding lb by auto
  next
    case False
    have act: "\<forall>x\<in>set ?pool. Active x" using facts(2) by blast
    from pickHealthy_selects [OF facts(1) act, of now rule "w\<lparr>w_health := m\<rparr>"] obtain c w' where
      1: "pickHealthy now rule True ?pool (w\<lparr>w_health := m\<rparr>) = Some (c, w')"
      and 2: "lb_post now rule ?pool (w\<lparr>w_health := m\<rparr>) c" by blast
    from 2 obtain x where x: "x \<in> set ?pool" "c = InitializeStats now x" by (auto simp: lb_post_def)
    with 1 2 False act show ?thesis unfolding lb by (auto simp: lb_post_def)
  qed
qed

text \<open>
  For a rule with an active service the load balancer always returns a
  service and never an error or a loop: an active one from the healthy pool (all active
  services when every one is unhealthy), and, when there is a choice, one whose breaker grants
  the request whenever some service of the pool has such a breaker.
\<close>

theorem lb_selects_healthy_and_allowed:
  assumes "filter Active (Services rule) \<noteq> []"
  shows "\<exists>c w'. LB_SelectService now (Some rule) w = Some (Inr c, w') \<and>
           Active c \<and> ServiceID c \<in> ServiceID ` set (healthyPool now rule w) \<and>
           (length (healthyPool now rule w) \<noteq> 1 \<longrightarrow>
              (\<exists>d\<in>set (healthyPool now rule w). allowed now (UUID rule) (w_breakers w) d) \<longrightarrow>
              allowed now (UUID rule) (w_breakers w) c)"
  using lb_select_result [OF assms, of now w] by (elim exE conjE bexE disjE) (auto intro: image_eqI)

definition sampleWorld :: world where
  "sampleWorld = \<lparr>w_breakers = defaultStore, w_health = None, w_rand = []\<rparr>"

theorem lb_selects_healthy_and_allowed_witness:
  "\<exists>c w'. LB_SelectService 7 (Some (sampleRule [sampleService ''b'' 1, sampleService ''a'' 0])) sampleWorld =
       Some (Inr c, w') \<and> Active c"
  using lb_selects_healthy_and_allowed [of "sampleRule [sampleService ''b'' 1, sampleService ''a'' 0]" 7 sampleWorld]
  by (auto simp: sampleRule_def sampleService_def)

section \<open>Previews leave the breakers alone\<close>

lemma PickBreakerAvailable_preview:
  assumes "member_pick now P pick" and "\<forall>x\<in>set cs. P x"
  shows "\<exists>res s' r'. PickBreakerAvailable now r cs pick False s rs = Some (res, s', r') \<and>
           breakers_same now r {} s s'"
  using rule_breakers.pick_previews [OF assms, of now r s rs]
  unfolding PickBreakerAvailable_def breakers_same_def by blast

lemma tierWalk_preview:
  assumes "\<forall>b\<in>set bs. \<forall>x\<in>set (snd b). ready x"
  shows "\<exists>res st' rs'. tierWalk now inner rule False bs st rs = Some (res, st', rs') \<and>
           breakers_same now (UUID rule) {} st st'"
  using assms
proof (induction bs arbitrary: st rs)
  case (Cons b bs)
  obtain k cs where b: "b = (k, cs)" by (cases b)
  with Cons.prems have ready: "\<forall>x\<in>set cs. ready x" by simp
  obtain res st1 rs1 where 1: "PickBreakerAvailable now (UUID rule) cs (pickWithinTier now inner rule) False st rs = Some (res, st1, rs1)"
    and same: "breakers_same now (UUID rule) {} st st1"
    using PickBreakerAvailable_preview [OF pickWithinTier_pick ready] by blast
  have "\<forall>b\<in>set bs. \<forall>x\<in>set (snd b). ready x" using Cons.prems by simp
  from Cons.IH [OF this, of st1 rs1] 1 same breakers_same_trans [OF same] show ?case
    by (cases res) (auto simp: b)
qed simp

lemma TierTactic_preview:
  "\<exists>res st' rs'. TierTactic_PreviewService now inner rule st rs = Some (res, st', rs') \<and>
     breakers_same now (UUID rule) {} st st'"
proof -
  have "\<forall>x\<in>set (GetActiveServices now rule). ready x" using active_ready by blast
  from tierWalk_preview [OF groups_ready [OF this], of now inner rule st rs] obtain res st' rs' where
    "tierWalk now inner rule False (groupServicesByTier (GetActiveServices now rule)) st rs = Some (res, st', rs')"
    "breakers_same now (UUID rule) {} st st'" by blast
  then show ?thesis
    by (cases res) (auto simp: TierTactic_PreviewService_def TierTactic_selectService_def Let_def split_beta)
qed

text \<open>
  A preview returns like a selection but consumes no probe: afterwards every
  breaker of the rule reads and grants exactly as before, whatever the tactic, the health and
  the breakers.
\<close>

theorem preview_claims_nothing:
  "\<exists>res w'. LB_PreviewService now (Some rule) w = Some (res, w') \<and>
     breakers_same now (UUID rule) {} (w_breakers w) (w_breakers w')"
proof (cases "filter Active (Services rule) = []")
  case True
  then show ?thesis by (simp add: LB_PreviewService_def lb_selectService_def)
next
  case False
  let ?act = "filter Active (Services rule)" and ?pool = "healthyPool now rule w"
  obtain h m where hf: "HealthFilter_Filter now ?act (w_health w) = (h, m)"
    by (cases "HealthFilter_Filter now ?act (w_health w)")
  then have pool: "?pool = (if h = [] then ?act else h)" by (simp add: healthyPool_def Let_def)
  let ?w1 = "w\<lparr>w_health := m\<rparr>"
  have act: "\<forall>x\<in>set ?pool. Active x" using healthyPool_facts [OF False] by blast
  have pick: "\<exists>c w'. pickHealthy now rule False ?pool ?w1 = Some (c, w') \<and>
      breakers_same now (UUID rule) {} (w_breakers w) (w_breakers w')"
  proof (cases "Tactic_Instantiate (Some (LBTactic rule))")
    case (Flat f)
    obtain res st rs where
      "PickBreakerAvailable now (UUID rule) ?pool (\<lambda>xs. flat_SelectService now f (ruleView rule xs)) False
         (w_breakers w) (w_rand w) = Some (res, st, rs)" "breakers_same now (UUID rule) {} (w_breakers w) st"
      using PickBreakerAvailable_preview [OF ruleView_pick act] by blast
    with Flat show ?thesis by (auto simp: pickHealthy_def Let_def split_beta split: option.splits)
  next
    case (TierTactic inner)
    with TierTactic_preview [of now inner "ruleView rule ?pool" "w_breakers w" "w_rand w"]
    show ?thesis by (auto simp: pickHealthy_def Let_def split: option.splits)
  qed
  have ne: "Services rule \<noteq> []" using False by auto
  have "LB_PreviewService now (Some rule) w =
      (if length ?pool = 1 then Some (Inr (?pool ! 0), ?w1)
       else map_option (\<lambda>(svc, w2). (Inr svc, w2)) (pickHealthy now rule False ?pool ?w1))"
    using False ne by (simp add: LB_PreviewService_def lb_selectService_def hf pool Let_def)
  with pick show ?thesis by (cases "length ?pool = 1") auto
qed

end
