(* ===== verification/TB_Selector.thy ===== *)
theory TB_Selector
  imports TB_Prelude TB_SmartRouting TB_Tactics TB_Affinity TB_LoadBalancer
begin

text \<open>
  The selection pipeline of \<^verbatim>\<open>internal/routing\<close>: \<^verbatim>\<open>selector.go\<close> drives the stages health,
  smart routing, affinity and load balancing (\<^verbatim>\<open>stage_*.go\<close>, \<^verbatim>\<open>filters.go\<close>) over a candidate
  set, validates the pick against the provider registry and pins the session.

  Everything a stage mutates is in \<open>sel_state\<close>: the load balancer's world, the pins, and the
  two fields of the request's \<^verbatim>\<open>SelectionContext\<close> that change, the matched partition and the
  bypassed rules, with the request itself, which op processors may rewrite.  What lies outside
  the pipeline is in \<open>sel_env\<close>: the clock, the provider registry, the quota provider, the
  registered processors, and \<open>toBeta\<close>, which stands for the protocol converters that bring a
  request into the shape the context extraction reads (\<open>None\<close>: a type it does not know).
\<close>

record Provider =
  p_UUID :: string
  p_Name :: string
  Enabled :: bool
  APIStyle :: string

record SelectionResult =
  r_Service :: "Service option"
  r_Provider :: "Provider option"
  r_Source :: string
  EvaluatedStages :: "string list"
  r_MatchedSmartRuleIndex :: int

abbreviation "SourceHealth \<equiv> ''health''"
abbreviation "SourceAffinity \<equiv> ''affinity''"
abbreviation "SourceSmartRouting \<equiv> ''smart_routing''"
abbreviation "SourceLoadBalancer \<equiv> ''load_balancer''"

definition NewResult :: "Service \<Rightarrow> string \<Rightarrow> SelectionResult" where
  "NewResult service source =
     \<lparr>r_Service = Some service, r_Provider = None, r_Source = source, EvaluatedStages = [],
      r_MatchedSmartRuleIndex = -1\<rparr>"

record 'req sel_env =
  e_now :: time
  e_smart :: smart_ext
  toBeta :: "'req \<Rightarrow> beta_request option"
  e_processors :: "string \<rightharpoonup> (string \<Rightarrow> Service list \<Rightarrow> 'req \<Rightarrow> 'req)"
  e_quota :: "(string \<Rightarrow> rat option) option"
  GetProviderByUUID :: "string \<Rightarrow> Provider option"

record 'req sel_ctx =
  c_Rule :: Rule
  c_SessionID :: SessionID
  c_Scenario :: string

record 'req sel_state =
  s_world :: world
  s_affinity :: AffinityStore
  s_Request :: "'req option"
  MatchedSmartRuleIndex :: int
  BypassedSmartRules :: "int set"

section \<open>Candidates and filters\<close>

definition FilterActiveServices :: "Service list \<Rightarrow> Service list" where
  "FilterActiveServices services = filter Active services"

definition ContainsService :: "Service list \<Rightarrow> Service option \<Rightarrow> bool" where
  "ContainsService services target =
     (case target of None \<Rightarrow> False | Some t \<Rightarrow> ServiceID t \<in> set (map ServiceID services))"

definition IntersectServices :: "Service list \<Rightarrow> Service list \<Rightarrow> Service list" where
  "IntersectServices left right =
     (if left = [] \<or> right = [] then []
      else filter (\<lambda>svc. ServiceID svc \<in> set (map ServiceID right)) left)"

text \<open>
  \<^verbatim>\<open>initialCandidateServices\<close>: the candidates are an ordered map from service ID to service;
  a later entry with a known ID replaces the earlier one in place.
\<close>

fun addCandidate :: "Service \<Rightarrow> Service list \<Rightarrow> Service list" where
  "addCandidate svc [] = [svc]"
| "addCandidate svc (c # cs) = (if ServiceID c = ServiceID svc then svc # cs else c # addCandidate svc cs)"

definition initialCandidateServices :: "Rule \<Rightarrow> Service list" where
  "initialCandidateServices rule =
     fold (\<lambda>svc cs. if Active svc then addCandidate svc cs else cs)
       (Services rule @ concat (map sr_Services (rule_SmartRouting rule))) []"

definition activeBaseFallback :: "Rule \<Rightarrow> Service list" where
  "activeBaseFallback rule = FilterActiveServices (Services rule)"

section \<open>The stages\<close>

definition HealthStage_Evaluate :: "time \<Rightarrow> Service list \<Rightarrow> world \<Rightarrow> Service list \<times> world" where
  "HealthStage_Evaluate now candidates w =
     (if candidates = [] then (candidates, w)
      else
        let (healthy, m) = HealthFilter_Filter now candidates (w_health w) in
        if healthy = [] then (candidates, w\<lparr>w_health := m\<rparr>)
        else
          let filteredCount = length candidates - length healthy;
              m' = (if filteredCount > 0
                    then fold (\<lambda>svc m. snd (HealthFilter_IsHealthy now (ServiceID svc) m)) candidates m
                    else m)
          in (healthy, w\<lparr>w_health := m'\<rparr>))"

definition hasServiceQuotaOp :: "SmartRouting list \<Rightarrow> bool" where
  "hasServiceQuotaOp rules \<longleftrightarrow> (\<exists>r \<in> set rules. \<exists>op \<in> set (Ops r). Position op = PositionServiceQuota)"

fun uniqueServices :: "string set \<Rightarrow> Service list \<Rightarrow> Service list" where
  "uniqueServices seen [] = []"
| "uniqueServices seen (svc # svcs) =
     (if ServiceID svc \<in> seen then uniqueServices seen svcs
      else svc # uniqueServices (insert (ServiceID svc) seen) svcs)"

definition collectAllCapacityInfo :: "time \<Rightarrow> AffinityStore \<Rightarrow> SmartRouting list \<Rightarrow> ServiceCapacityInfo list" where
  "collectAllCapacityInfo now store rules =
     map (\<lambda>svc. \<lparr>sc_ServiceID = ServiceID svc,
                 Capacity = (case ModelCapacity svc of Some c \<Rightarrow> c | None \<Rightarrow> 0),
                 ActiveCount = Affinity_CountByService now (ServiceID svc) store\<rparr>)
       (uniqueServices {} (concat (map sr_Services rules)))"

definition collectAllQuotaInfo :: "(string \<Rightarrow> rat option) option \<Rightarrow> SmartRouting list \<Rightarrow> ServiceQuotaInfo list" where
  "collectAllQuotaInfo quotaProvider rules =
     (case quotaProvider of
        None \<Rightarrow> []
      | Some quota \<Rightarrow>
          if \<not> hasServiceQuotaOp rules then []
          else List.map_filter (\<lambda>svc.
                 if Provider svc = [] then None
                 else map_option (\<lambda>pct. \<lparr>sq_ServiceID = ServiceID svc, Pct = pct\<rparr>) (quota (Provider svc)))
               (uniqueServices {} (concat (map sr_Services rules))))"

definition ParseScenarioProfile :: "string \<Rightarrow> string \<times> string" where
  "ParseScenarioProfile raw =
     (case Cut raw CHR '':'' of Some (before, after) \<Rightarrow> (before, after) | None \<Rightarrow> (raw, []))"

definition Scenario_Is :: "string \<Rightarrow> string \<Rightarrow> bool" where
  "Scenario_Is s base \<longleftrightarrow> fst (ParseScenarioProfile s) = base"

text \<open>
  \<^verbatim>\<open>runOpProcessors\<close>: the processors registered for the matched rule's operations rewrite the
  request in turn; \<open>None\<close> when the rule has none.
\<close>

definition runOpProcessors :: "'req sel_env \<Rightarrow> SmartRouting \<Rightarrow> Service list \<Rightarrow> 'req \<Rightarrow> 'req option" where
  "runOpProcessors env matchedRule matchedServices req =
     (let procs = List.map_filter (\<lambda>op. map_option (\<lambda>p. (op, p))
                    (LookupProcessor (Position op) (Operation op) (e_processors env))) (Ops matchedRule)
      in if procs = [] then None
         else Some (fold (\<lambda>(op, p) r. p (op_UUID op) matchedServices r) procs req))"

definition SmartRoutingStage_Evaluate :: "'req sel_env \<Rightarrow> 'req sel_ctx \<Rightarrow> Service list \<Rightarrow> 'req sel_state \<Rightarrow>
    Service list \<times> 'req sel_state" where
  "SmartRoutingStage_Evaluate env ctx candidates st =
     (let rule = c_Rule ctx; rules = rule_SmartRouting rule;
          basePool = IntersectServices candidates (Services rule)
      in if rules = [] then (candidates, st)
         else
           (case s_Request st of
              None \<Rightarrow> (basePool, st)
            | Some req \<Rightarrow>
                if \<not> SmartEnabled rule then (basePool, st)
                else
                  (case toBeta env req of
                     None \<Rightarrow> (basePool, st)
                   | Some breq \<Rightarrow>
                       let ctx0 = ExtractContextFromBetaRequest breq;
                           ctx1 = (if Scenario_Is (c_Scenario ctx) ''claude_code''
                                   then ctx0\<lparr>ClaudeCodeRequestKind := DetectClaudeCodeRequestKind (Some ctx0)\<rparr>
                                   else ctx0);
                           reqCtx = ctx1\<lparr>rc_ServiceCapacity := collectAllCapacityInfo (e_now env) (s_affinity st) rules,
                                         rc_ServiceQuota := collectAllQuotaInfo (e_quota env) rules\<rparr>
                       in case NewRouter (e_smart env) rules of
                            Inl e \<Rightarrow> (basePool, st)
                          | Inr router \<Rightarrow>
                              (case fst (Router_Evaluate (e_smart env) (e_now env) router reqCtx) of
                                 None \<Rightarrow> (basePool, st)
                               | Some (matchedServices, idx) \<Rightarrow>
                                   if matchedServices = [] then (basePool, st)
                                   else if int idx \<in> BypassedSmartRules st then (basePool, st)
                                   else
                                     (case runOpProcessors env (rules ! idx) matchedServices req of
                                        Some req' \<Rightarrow>
                                          (basePool, st\<lparr>s_Request := Some req',
                                             BypassedSmartRules := insert (int idx) (BypassedSmartRules st)\<rparr>)
                                      | None \<Rightarrow>
                                          let matched = (if candidates \<noteq> [] then IntersectServices matchedServices candidates
                                                         else matchedServices);
                                              activeServices = FilterActiveServices matched
                                          in if matched = [] then (basePool, st)
                                             else if activeServices = [] then (basePool, st)
                                             else (activeServices, st\<lparr>MatchedSmartRuleIndex := int idx\<rparr>))))))"

definition w_update_breakers :: "BreakerStore \<Rightarrow> 'req sel_state \<Rightarrow> 'req sel_state" where
  "w_update_breakers s st = st\<lparr>s_world := (s_world st)\<lparr>w_breakers := s\<rparr>\<rparr>"

definition AffinityStage_Evaluate :: "'req sel_env \<Rightarrow> 'req sel_ctx \<Rightarrow> Service list \<Rightarrow> 'req sel_state \<Rightarrow>
    SelectionResult option \<times> 'req sel_state" where
  "AffinityStage_Evaluate env ctx candidates st =
     (let rule = c_Rule ctx in
      if \<not> AffinityEnabled rule \<or> IsEmpty (c_SessionID ctx) then (None, st)
      else
        (case Affinity_Get (e_now env) (UUID rule)
                (AffinitySessionKey (SessionID_String (c_SessionID ctx)) (MatchedSmartRuleIndex st))
                (s_affinity st) of
           None \<Rightarrow> (None, st)
         | Some entry \<Rightarrow>
             if e_now env > ExpiresAt entry then (None, st)
             else if \<not> ContainsService candidates (ae_Service entry) then (None, st)
             else
               let (ok, s) = IsAffinityEligible (e_now env) (UUID rule) candidates (ae_Service entry)
                               (w_breakers (s_world st));
                   st' = w_update_breakers s st
               in if \<not> ok then (None, st')
                  else (case ae_Service entry of
                          None \<Rightarrow> (None, st')
                        | Some svc \<Rightarrow>
                            (Some ((NewResult svc SourceAffinity)
                                     \<lparr>r_MatchedSmartRuleIndex := MatchedSmartRuleIndex st\<rparr>), st'))))"

text \<open>
  \<^verbatim>\<open>logOpenBreakerSkips\<close> reads the breakers it reports, which creates missing ones.
\<close>

definition logOpenBreakerSkips :: "time \<Rightarrow> Rule \<Rightarrow> BreakerStore \<Rightarrow> BreakerStore" where
  "logOpenBreakerSkips now rule s =
     (if GetTacticType rule \<noteq> TacticTier then s
      else fold (\<lambda>svc s. snd (Store_Get (UUID rule) (ServiceID svc) s)) (GetActiveServices now rule) s)"

definition LoadBalancerStage_Evaluate :: "'req sel_env \<Rightarrow> 'req sel_ctx \<Rightarrow> Service list \<Rightarrow> 'req sel_state \<Rightarrow>
    ((lb_error + SelectionResult) \<times> 'req sel_state) option" where
  "LoadBalancerStage_Evaluate env ctx candidates st =
     (let tempRule = (c_Rule ctx)\<lparr>Services := candidates\<rparr>;
          s = logOpenBreakerSkips (e_now env) tempRule (w_breakers (s_world st));
          w = (s_world st)\<lparr>w_breakers := s\<rparr>
      in case LB_SelectService (e_now env) (Some tempRule) w of
           None \<Rightarrow> None
         | Some (Inl e, w') \<Rightarrow> Some (Inl e, st\<lparr>s_world := w'\<rparr>)
         | Some (Inr service, w') \<Rightarrow>
             (let source = (if MatchedSmartRuleIndex st \<ge> 0 then SourceSmartRouting else SourceLoadBalancer)
              in Some (Inr ((NewResult service source)\<lparr>r_MatchedSmartRuleIndex := MatchedSmartRuleIndex st\<rparr>),
                       st\<lparr>s_world := w'\<rparr>)))"

section \<open>The pipeline driver\<close>

datatype stage = HealthStage | SmartRoutingStage | AffinityStage | LoadBalancerStage

fun stage_Name :: "stage \<Rightarrow> string" where
  "stage_Name HealthStage = SourceHealth"
| "stage_Name SmartRoutingStage = SourceSmartRouting"
| "stage_Name AffinityStage = SourceAffinity"
| "stage_Name LoadBalancerStage = SourceLoadBalancer"

definition pipeline :: "stage list" where
  "pipeline = [HealthStage, SmartRoutingStage, AffinityStage, LoadBalancerStage]"

text \<open>The interface \<^verbatim>\<open>SelectionStage\<close>: narrowed candidates and a final result, or an error.\<close>

fun stage_Evaluate :: "'req sel_env \<Rightarrow> 'req sel_ctx \<Rightarrow> stage \<Rightarrow> Service list \<Rightarrow> 'req sel_state \<Rightarrow>
    ((lb_error + Service list \<times> SelectionResult option) \<times> 'req sel_state) option" where
  "stage_Evaluate env ctx HealthStage candidates st =
     (let (cs, w) = HealthStage_Evaluate (e_now env) candidates (s_world st)
      in Some (Inr (cs, None), st\<lparr>s_world := w\<rparr>))"
| "stage_Evaluate env ctx SmartRoutingStage candidates st =
     (let (cs, st') = SmartRoutingStage_Evaluate env ctx candidates st in Some (Inr (cs, None), st'))"
| "stage_Evaluate env ctx AffinityStage candidates st =
     (let (r, st') = AffinityStage_Evaluate env ctx candidates st in Some (Inr (candidates, r), st'))"
| "stage_Evaluate env ctx LoadBalancerStage candidates st =
     (case LoadBalancerStage_Evaluate env ctx candidates st of
        None \<Rightarrow> None
      | Some (Inl e, st') \<Rightarrow> Some (Inl e, st')
      | Some (Inr r, st') \<Rightarrow> Some (Inr (candidates, Some r), st'))"

definition GetEffectiveAffinity :: "Rule \<Rightarrow> duration" where
  "GetEffectiveAffinity rule = (if SessionAffinity rule > 0 then SessionAffinity rule * Second else 0)"

definition postProcess :: "'req sel_env \<Rightarrow> 'req sel_ctx \<Rightarrow> SelectionResult \<Rightarrow> 'req sel_state \<Rightarrow> 'req sel_state" where
  "postProcess env ctx result st =
     (if r_Source result = SourceAffinity \<or> IsEmpty (c_SessionID ctx) then st
      else
        let t = GetEffectiveAffinity (c_Rule ctx) in
        if t = 0 then st
        else st\<lparr>s_affinity := Affinity_Set (UUID (c_Rule ctx))
                 (AffinitySessionKey (SessionID_String (c_SessionID ctx)) (MatchedSmartRuleIndex st))
                 \<lparr>ae_Service = r_Service result, MessageID = [], LockedAt = e_now env,
                  ExpiresAt = e_now env + t\<rparr> (s_affinity st)\<rparr>)"

datatype sel_error = StageError string lb_error | NoServiceAvailable string string

text \<open>
  Validation of a final result: an active service of a known, enabled provider.
\<close>

definition validResult :: "'req sel_env \<Rightarrow> SelectionResult \<Rightarrow> Provider option" where
  "validResult env result =
     (case r_Service result of
        None \<Rightarrow> None
      | Some svc \<Rightarrow>
          if \<not> Active svc then None
          else (case GetProviderByUUID env (Provider svc) of
                  None \<Rightarrow> None
                | Some p \<Rightarrow> if Enabled p then Some p else None))"

text \<open>Degrade, don't disappear: an empty narrowing falls back to the active base services.\<close>

definition degrade :: "Rule \<Rightarrow> Service list \<Rightarrow> Service list" where
  "degrade rule narrowed =
     (if narrowed = [] then
        (let fallback = activeBaseFallback rule in if fallback \<noteq> [] then fallback else narrowed)
      else narrowed)"

fun runStages :: "'req sel_env \<Rightarrow> 'req sel_ctx \<Rightarrow> stage list \<Rightarrow> string list \<Rightarrow> Service list \<Rightarrow> 'req sel_state \<Rightarrow>
    ((sel_error + SelectionResult) \<times> 'req sel_state) option" where
  "runStages env ctx [] evaluated candidates st =
     Some (Inl (NoServiceAvailable (UUID (c_Rule ctx)) (RequestModel (c_Rule ctx))), st)"
| "runStages env ctx (stg # stgs) evaluated candidates st =
     (let evaluated' = evaluated @ [stage_Name stg] in
      case stage_Evaluate env ctx stg candidates st of
        None \<Rightarrow> None
      | Some (Inl e, st') \<Rightarrow> Some (Inl (StageError (stage_Name stg) e), st')
      | Some (Inr (narrowed, final), st') \<Rightarrow>
          (let candidates' = degrade (c_Rule ctx) narrowed
           in case final of
                None \<Rightarrow> runStages env ctx stgs evaluated' candidates' st'
              | Some result \<Rightarrow>
                  (case validResult env result of
                     None \<Rightarrow> runStages env ctx stgs evaluated' candidates' st'
                   | Some provider \<Rightarrow>
                       (let result' = result\<lparr>EvaluatedStages := evaluated', r_Provider := Some provider\<rparr>
                        in Some (Inr result', postProcess env ctx result' st')))))"

definition Select :: "'req sel_env \<Rightarrow> 'req sel_ctx \<Rightarrow> 'req sel_state \<Rightarrow>
    ((sel_error + SelectionResult) \<times> 'req sel_state) option" where
  "Select env ctx st = runStages env ctx pipeline [] (initialCandidateServices (c_Rule ctx)) st"

text \<open>\<^verbatim>\<open>NewSelectionContext\<close>: a fresh request has matched no partition and bypassed no rule.\<close>

definition freshState :: "world \<Rightarrow> AffinityStore \<Rightarrow> 'req option \<Rightarrow> 'req sel_state" where
  "freshState w a req =
     \<lparr>s_world = w, s_affinity = a, s_Request = req, MatchedSmartRuleIndex = -1, BypassedSmartRules = {}\<rparr>"

section \<open>The initial candidates\<close>

lemma addCandidate_new: "ServiceID svc \<notin> ServiceID ` set cs \<Longrightarrow> addCandidate svc cs = cs @ [svc]"
  by (induction cs) auto

lemma addCandidate_known:
  "ServiceID svc \<in> ServiceID ` set cs \<Longrightarrow> distinct (map ServiceID cs) \<Longrightarrow>
   addCandidate svc cs = map (\<lambda>c. if ServiceID c = ServiceID svc then svc else c) cs"
proof (induction cs)
  case (Cons c cs)
  show ?case
  proof (cases "ServiceID c = ServiceID svc")
    case True
    with Cons.prems(2) have "ServiceID svc \<notin> ServiceID ` set cs" by auto
    then have "map (\<lambda>c. if ServiceID c = ServiceID svc then svc else c) cs = cs"
      by (intro map_idI) (metis image_eqI)
    with True show ?thesis by simp
  next
    case False
    with Cons.prems have "ServiceID svc \<in> ServiceID ` set cs" by auto
    with Cons.IH Cons.prems(2) False show ?thesis by simp
  qed
qed simp

text \<open>The distinct identifiers of a list in first-seen order, each with its last entry.\<close>

definition firstSeen :: "Service list \<Rightarrow> string list" where
  "firstSeen act = rev (remdups (rev (map ServiceID act)))"

definition lastEntry :: "Service list \<Rightarrow> string \<Rightarrow> Service" where
  "lastEntry act i = last (filter (\<lambda>s. ServiceID s = i) act)"

lemma firstSeen_simps [simp]: "set (firstSeen act) = ServiceID ` set act" "distinct (firstSeen act)"
  by (simp_all add: firstSeen_def)

lemma lastEntry_facts:
  assumes "i \<in> ServiceID ` set act"
  shows "lastEntry act i \<in> set act" "ServiceID (lastEntry act i) = i"
proof -
  from assms have "filter (\<lambda>s. ServiceID s = i) act \<noteq> []" by (auto simp: filter_empty_conv)
  from last_in_set [OF this] show "lastEntry act i \<in> set act" "ServiceID (lastEntry act i) = i"
    by (auto simp: lastEntry_def)
qed

lemma fold_addCandidate:
  "fold addCandidate act [] = map (lastEntry act) (firstSeen act)"
proof (induction act rule: rev_induct)
  case (snoc svc act)
  have ids: "map ServiceID (map (lastEntry act) (firstSeen act)) = firstSeen act"
    by (auto simp: lastEntry_facts(2) intro: map_idI)
  then have ids_set: "ServiceID ` set (map (lastEntry act) (firstSeen act)) = ServiceID ` set act"
    by (metis firstSeen_simps(1) list.set_map)
  have step: "fold addCandidate (act @ [svc]) [] = addCandidate svc (map (lastEntry act) (firstSeen act))"
    using snoc.IH by simp
  show ?case
  proof (cases "ServiceID svc \<in> ServiceID ` set act")
    case True
    have "fold addCandidate (act @ [svc]) [] =
        map (\<lambda>c. if ServiceID c = ServiceID svc then svc else c) (map (lastEntry act) (firstSeen act))"
      unfolding step by (rule addCandidate_known) (use True ids_set ids in \<open>metis, metis firstSeen_simps(2)\<close>)
    also have "\<dots> = map (lastEntry (act @ [svc])) (firstSeen act)"
      by (auto simp: lastEntry_facts(2)) (auto simp: lastEntry_def)
    finally show ?thesis using True by (simp add: firstSeen_def)
  next
    case False
    have "fold addCandidate (act @ [svc]) [] = map (lastEntry act) (firstSeen act) @ [svc]"
      unfolding step by (rule addCandidate_new) (use False ids_set in blast)
    moreover have "map (lastEntry (act @ [svc])) (firstSeen act) = map (lastEntry act) (firstSeen act)"
      using False by (auto simp: lastEntry_def)
    moreover have "lastEntry (act @ [svc]) (ServiceID svc) = svc"
      by (simp add: lastEntry_def)
    ultimately show ?thesis using False by (simp add: firstSeen_def)
  qed
qed (simp add: firstSeen_def)

lemma fold_if_filter: "fold (\<lambda>x a. if P x then f x a else a) xs a = fold f (filter P xs) a"
  by (induction xs arbitrary: a) auto

definition configuredActive :: "Rule \<Rightarrow> Service list" where
  "configuredActive rule = filter Active (Services rule @ concat (map sr_Services (rule_SmartRouting rule)))"

lemma initialCandidates_eq:
  "initialCandidateServices rule = map (lastEntry (configuredActive rule)) (firstSeen (configuredActive rule))"
  unfolding initialCandidateServices_def configuredActive_def fold_if_filter by (rule fold_addCandidate)

text \<open>
  The starting candidates of a rule.  Exactly one candidate per identifier of
  an active service of the base pool or of any content partition, in first-seen order; the
  configuration used is that of the last active entry with the identifier, so a partition's
  entry overrides the base one.
\<close>

theorem initialCandidateServices_exact:
  "initialCandidateServices rule = map (lastEntry (configuredActive rule)) (firstSeen (configuredActive rule))"
  by (rule initialCandidates_eq)

lemma initialCandidates_facts:
  "set (initialCandidateServices rule) \<subseteq> set (configuredActive rule)"
  "ServiceID ` set (initialCandidateServices rule) = ServiceID ` set (configuredActive rule)"
  "\<forall>c\<in>set (initialCandidateServices rule). Active c"
proof -
  show sub: "set (initialCandidateServices rule) \<subseteq> set (configuredActive rule)"
    by (auto simp: initialCandidates_eq lastEntry_facts(1))
  then show "\<forall>c\<in>set (initialCandidateServices rule). Active c" by (auto simp: configuredActive_def)
  show "ServiceID ` set (initialCandidateServices rule) = ServiceID ` set (configuredActive rule)"
    by (simp add: initialCandidates_eq image_image lastEntry_facts(2))
qed
section \<open>What every stage promises\<close>

text \<open>
  The laws of \<^verbatim>\<open>SelectionStage\<close>: given active candidates a stage never fails or loops, narrows
  within them, keeps them active, and a final result is one of them, labelled with the matched
  partition.
\<close>

locale selection_stage =
  fixes evaluate :: "Service list \<Rightarrow> 'st \<Rightarrow> ((lb_error + Service list \<times> SelectionResult option) \<times> 'st) option"
    and matched :: "'st \<Rightarrow> int"
  assumes returns: "cs \<noteq> [] \<Longrightarrow> \<forall>c\<in>set cs. Active c \<Longrightarrow>
      \<exists>cs' fin st'. evaluate cs st = Some (Inr (cs', fin), st')"
    and narrows: "evaluate cs st = Some (Inr (cs', fin), st') \<Longrightarrow> cs \<noteq> [] \<Longrightarrow> \<forall>c\<in>set cs. Active c \<Longrightarrow>
      ServiceID ` set cs' \<subseteq> ServiceID ` set cs \<and> (\<forall>c\<in>set cs'. Active c)"
    and picks: "evaluate cs st = Some (Inr (cs', Some r), st') \<Longrightarrow> cs \<noteq> [] \<Longrightarrow> \<forall>c\<in>set cs. Active c \<Longrightarrow>
      \<exists>svc. r_Service r = Some svc \<and> ServiceID svc \<in> ServiceID ` set cs \<and>
            r_MatchedSmartRuleIndex r = matched st' \<and> cs' = cs"
begin

lemma pick_within:
  assumes "evaluate cs st = Some (Inr (cs', Some r), st')" and "cs \<noteq> []" and "\<forall>c\<in>set cs. Active c"
    and "ServiceID ` set cs \<subseteq> A"
  shows "\<exists>svc. r_Service r = Some svc \<and> ServiceID svc \<in> A \<and> r_MatchedSmartRuleIndex r = matched st'"
  using picks [OF assms(1-3)] assms(4) by blast

lemma narrow_within:
  assumes "evaluate cs st = Some (Inr (cs', fin), st')" and "cs \<noteq> []" and "\<forall>c\<in>set cs. Active c"
    and "ServiceID ` set cs \<subseteq> A"
  shows "ServiceID ` set cs' \<subseteq> A"
  using narrows [OF assms(1-3)] assms(4) by blast

end

lemma FilterActive_facts: "set (FilterActiveServices xs) = {x \<in> set xs. Active x}"
  by (auto simp: FilterActiveServices_def)

lemma IntersectServices_facts:
  "set (IntersectServices l r) = {x \<in> set l. ServiceID x \<in> ServiceID ` set r}"
  by (auto simp: IntersectServices_def)

lemma HealthStage_subset: "set (fst (HealthStage_Evaluate now cs w)) \<subseteq> set cs"
  using HealthFilter_subset [of now cs "w_health w"]
  by (auto simp: HealthStage_Evaluate_def Let_def split: prod.splits)

lemma HealthStage_nonempty: "cs \<noteq> [] \<Longrightarrow> fst (HealthStage_Evaluate now cs w) \<noteq> []"
  by (auto simp: HealthStage_Evaluate_def Let_def split: prod.splits)

text \<open>Where smart routing leaves the candidates: in the base pool, or in the matched partition.\<close>

lemma SmartRouting_cases:
  assumes "SmartRoutingStage_Evaluate env ctx cs st = (cs', st')"
  shows "(MatchedSmartRuleIndex st' = MatchedSmartRuleIndex st \<and>
            cs' = (if rule_SmartRouting (c_Rule ctx) = [] then cs else IntersectServices cs (Services (c_Rule ctx)))) \<or>
         (\<exists>i < length (rule_SmartRouting (c_Rule ctx)).
            MatchedSmartRuleIndex st' = int i \<and> cs' \<noteq> [] \<and>
            (\<forall>c\<in>set cs'. Active c \<and> c \<in> set (sr_Services (rule_SmartRouting (c_Rule ctx) ! i)) \<and>
               (cs \<noteq> [] \<longrightarrow> ServiceID c \<in> ServiceID ` set cs)))"
proof -
  have ev: "i < length rs \<and> svcs = sr_Services (rs ! i)"
    if "fst (Router_Evaluate ext now rs rctx) = Some (svcs, i)" for ext now rs rctx svcs i
    using evaluateRules_Some [of ext now rctx 0 rs svcs i] that by (simp add: Router_Evaluate_def)
  have router: "rs = rule_SmartRouting (c_Rule ctx)"
    if "NewRouter (e_smart env) (rule_SmartRouting (c_Rule ctx)) = Inr rs" for rs
    using that by (auto simp: NewRouter_def split: option.splits)
  show ?thesis
    using assms
    apply (simp add: SmartRoutingStage_Evaluate_def Let_def split: if_splits option.splits sum.splits prod.splits)
    apply (auto dest!: ev router simp: FilterActive_facts IntersectServices_facts)
    done
qed

lemma LoadBalancerStage_selects:
  assumes "cs \<noteq> []" and "\<forall>c\<in>set cs. Active c"
  shows "\<exists>c r st'. LoadBalancerStage_Evaluate env ctx cs st = Some (Inr r, st') \<and> r_Service r = Some c \<and> Active c \<and>
           (\<exists>d\<in>set cs. c = d \<or> c = InitializeStats (e_now env) d) \<and>
           r_MatchedSmartRuleIndex r = MatchedSmartRuleIndex st \<and>
           MatchedSmartRuleIndex st' = MatchedSmartRuleIndex st \<and> s_affinity st' = s_affinity st \<and>
           r_Source r \<noteq> SourceAffinity"
proof -
  let ?rule = "(c_Rule ctx)\<lparr>Services := cs\<rparr>"
  let ?w = "(s_world st)\<lparr>w_breakers := logOpenBreakerSkips (e_now env) ?rule (w_breakers (s_world st))\<rparr>"
  have act: "filter Active (Services ?rule) \<noteq> []" using assms by (cases cs) auto
  from lb_select_result [OF act, of "e_now env" ?w] healthyPool_facts(2) [OF act, of "e_now env" ?w]
  obtain c w' where "LB_SelectService (e_now env) (Some ?rule) ?w = Some (Inr c, w')" "Active c"
    "\<exists>d\<in>set cs. c = d \<or> c = InitializeStats (e_now env) d" by fastforce
  then show ?thesis by (auto simp: LoadBalancerStage_Evaluate_def Let_def NewResult_def)
qed

lemma AffinityStage_pick:
  assumes "AffinityStage_Evaluate env ctx cs st = (Some r, st')"
  shows "\<exists>svc. r_Service r = Some svc \<and> ServiceID svc \<in> ServiceID ` set cs \<and>
           r_MatchedSmartRuleIndex r = MatchedSmartRuleIndex st'"
  using assms
  by (auto simp: AffinityStage_Evaluate_def Let_def NewResult_def ContainsService_def w_update_breakers_def
      split: if_splits option.splits prod.splits)

lemma AffinityStage_frame:
  "MatchedSmartRuleIndex (snd (AffinityStage_Evaluate env ctx cs st)) = MatchedSmartRuleIndex st"
  "s_affinity (snd (AffinityStage_Evaluate env ctx cs st)) = s_affinity st"
  by (auto simp: AffinityStage_Evaluate_def Let_def w_update_breakers_def split: option.splits prod.splits)

interpretation pipeline_stage: selection_stage "stage_Evaluate env ctx stg" MatchedSmartRuleIndex
  for env :: "'req sel_env" and ctx stg
proof unfold_locales
  fix cs :: "Service list" and st :: "'req sel_state"
  assume cs: "cs \<noteq> []" "\<forall>c\<in>set cs. Active c"
  then show "\<exists>cs' fin st'. stage_Evaluate env ctx stg cs st = Some (Inr (cs', fin), st')"
    using LoadBalancerStage_selects [OF cs, of env ctx st] by (cases stg) (auto split: prod.splits)
  fix cs' fin st'
  assume ev: "stage_Evaluate env ctx stg cs st = Some (Inr (cs', fin), st')"
  show "ServiceID ` set cs' \<subseteq> ServiceID ` set cs \<and> (\<forall>c\<in>set cs'. Active c)"
  proof (cases stg)
    case HealthStage
    with ev cs HealthStage_subset [of "e_now env" cs "s_world st"] show ?thesis
      by (auto split: prod.splits)
  next
    case SmartRoutingStage
    with ev have "SmartRoutingStage_Evaluate env ctx cs st = (cs', st')" by (simp split: prod.splits)
    from SmartRouting_cases [OF this] cs show ?thesis by (auto simp: IntersectServices_facts split: if_splits)
  qed (use ev cs in \<open>auto split: prod.splits option.splits sum.splits\<close>)
next
  fix cs :: "Service list" and st :: "'req sel_state" and cs' r st'
  assume cs: "cs \<noteq> []" "\<forall>c\<in>set cs. Active c"
    and ev: "stage_Evaluate env ctx stg cs st = Some (Inr (cs', Some r), st')"
  show "\<exists>svc. r_Service r = Some svc \<and> ServiceID svc \<in> ServiceID ` set cs \<and>
      r_MatchedSmartRuleIndex r = MatchedSmartRuleIndex st' \<and> cs' = cs"
  proof (cases stg)
    case AffinityStage
    with ev AffinityStage_pick [of env ctx cs st r st'] show ?thesis by (auto split: prod.splits)
  next
    case LoadBalancerStage
    with ev LoadBalancerStage_selects [OF cs, of env ctx st] show ?thesis by auto
  qed (use ev in \<open>auto split: prod.splits\<close>)
qed

lemma stage_frame:
  assumes "stage_Evaluate env ctx stg cs st = Some (Inr (cs', fin), st')" and "stg \<noteq> SmartRoutingStage"
    and "cs \<noteq> []" and "\<forall>c\<in>set cs. Active c"
  shows "cs' \<noteq> [] \<and> MatchedSmartRuleIndex st' = MatchedSmartRuleIndex st \<and> s_affinity st' = s_affinity st"
proof (cases stg)
  case HealthStage
  with assms HealthStage_nonempty [of cs "e_now env" "s_world st"] show ?thesis by (auto split: prod.splits)
next
  case AffinityStage
  with assms AffinityStage_frame [of env ctx cs st] show ?thesis by (auto split: prod.splits)
next
  case LoadBalancerStage
  with assms LoadBalancerStage_selects [OF assms(3,4), of env ctx st] show ?thesis by auto
qed (use assms in simp)

section \<open>Running the stages\<close>

definition served :: "'req sel_env \<Rightarrow> SelectionResult \<Rightarrow> bool" where
  "served env r \<longleftrightarrow>
     (case r_Service r of
        None \<Rightarrow> False
      | Some svc \<Rightarrow> Active svc \<and>
          (case GetProviderByUUID env (Provider svc) of
             None \<Rightarrow> False
           | Some p \<Rightarrow> Enabled p \<and> r_Provider r = Some p))"

lemma served_valid:
  "validResult env r = Some p \<Longrightarrow> served env (r\<lparr>EvaluatedStages := ev, r_Provider := Some p\<rparr>)"
  by (auto simp: served_def validResult_def split: option.splits if_splits)

lemma runStages_served:
  "runStages env ctx stgs ev cs st = Some (Inr r, st') \<Longrightarrow> served env r"
proof (induction stgs arbitrary: ev cs st)
  case (Cons stg stgs)
  from Cons.prems show ?case
    by (auto simp: Let_def split: option.splits sum.splits prod.splits intro: Cons.IH served_valid)
qed simp

lemma degrade_id [simp]: "cs \<noteq> [] \<Longrightarrow> degrade rule cs = cs"
  by (simp add: degrade_def)

text \<open>Stages other than smart routing, started on active candidates.\<close>

lemma runStages_within:
  assumes "runStages env ctx stgs ev cs st = Some (Inr r, st')" and "SmartRoutingStage \<notin> set stgs"
    and "cs \<noteq> []" and "\<forall>c\<in>set cs. Active c" and "ServiceID ` set cs \<subseteq> A"
  shows "(\<exists>svc. r_Service r = Some svc \<and> ServiceID svc \<in> A) \<and>
         r_MatchedSmartRuleIndex r = MatchedSmartRuleIndex st"
  using assms
proof (induction stgs arbitrary: ev cs st)
  case (Cons stg stgs)
  obtain cs' fin st1 where ev: "stage_Evaluate env ctx stg cs st = Some (Inr (cs', fin), st1)"
    using pipeline_stage.returns [OF Cons.prems(3,4)] by blast
  from Cons.prems(2) have "stg \<noteq> SmartRoutingStage" by auto
  note fr = stage_frame [OF ev this Cons.prems(3,4)]
  note nw = pipeline_stage.narrows [OF ev Cons.prems(3,4)]
  have sub: "ServiceID ` set cs' \<subseteq> A" using nw Cons.prems(5) by blast
  show ?case
  proof (cases "\<exists>f p. fin = Some f \<and> validResult env f = Some p")
    case True
    then obtain f p where f: "fin = Some f" "validResult env f = Some p" by blast
    with ev pipeline_stage.pick_within [OF _ Cons.prems(3,4,5)] have
      "\<exists>svc. r_Service f = Some svc \<and> ServiceID svc \<in> A \<and> r_MatchedSmartRuleIndex f = MatchedSmartRuleIndex st1"
      by blast
    with Cons.prems(1) ev f fr show ?thesis by (auto simp: Let_def)
  next
    case False
    then have "runStages env ctx stgs (evaluated' @ [stage_Name stg]) cs' st1 = Some (Inr r, st')"
      if "evaluated' = ev" for evaluated'
      using Cons.prems(1) ev fr that by (auto simp: Let_def degrade_id split: option.splits)
    from Cons.IH [OF this [OF refl] _ _ _ sub] Cons.prems(2) fr nw show ?thesis by auto
  qed
qed simp

lemma SmartRouting_frame:
  "s_affinity (snd (SmartRoutingStage_Evaluate env ctx cs st)) = s_affinity st"
  "s_world (snd (SmartRoutingStage_Evaluate env ctx cs st)) = s_world st"
  by (auto simp: SmartRoutingStage_Evaluate_def Let_def split: option.splits sum.splits prod.splits)

lemma configured_partition:
  "i < length (rule_SmartRouting rule) \<Longrightarrow> c \<in> set (sr_Services (rule_SmartRouting rule ! i)) \<Longrightarrow>
   Active c \<Longrightarrow> c \<in> set (configuredActive rule)"
  by (auto simp: configuredActive_def)

lemma degrade_base: "set (degrade rule cs) \<subseteq> set cs \<union> set (FilterActiveServices (Services rule))"
  by (simp add: degrade_def activeBaseFallback_def Let_def)

lemma degrade_Nil: "degrade rule cs = [] \<Longrightarrow> cs = [] \<and> FilterActiveServices (Services rule) = []"
  by (auto simp: degrade_def activeBaseFallback_def Let_def split: if_splits)

lemma runStages_pass:
  assumes "stage_Evaluate env ctx stg cs st = Some (Inr (cs', None), st')"
  shows "runStages env ctx (stg # stgs) ev cs st =
     runStages env ctx stgs (ev @ [stage_Name stg]) (degrade (c_Rule ctx) cs') st'"
  by (simp only: runStages.simps Let_def assms option.case sum.case prod.case)

text \<open>
  The candidates that reach the affinity stage, and the state they reach it in.
\<close>

definition routed :: "'req sel_env \<Rightarrow> 'req sel_ctx \<Rightarrow> 'req sel_state \<Rightarrow> Service list \<times> 'req sel_state" where
  "routed env ctx st =
     (let (cs0, w) = HealthStage_Evaluate (e_now env) (initialCandidateServices (c_Rule ctx)) (s_world st);
          (cs1, st2) = SmartRoutingStage_Evaluate env ctx (degrade (c_Rule ctx) cs0) (st\<lparr>s_world := w\<rparr>)
      in (degrade (c_Rule ctx) cs1, st2))"

lemma Select_routed:
  assumes "routed env ctx st = (cs, st2)"
  shows "Select env ctx st =
    runStages env ctx [AffinityStage, LoadBalancerStage] [SourceHealth, SourceSmartRouting] cs st2"
proof -
  let ?init = "initialCandidateServices (c_Rule ctx)"
  obtain cs0 w where h: "HealthStage_Evaluate (e_now env) ?init (s_world st) = (cs0, w)"
    by (cases "HealthStage_Evaluate (e_now env) ?init (s_world st)")
  let ?st1 = "st\<lparr>s_world := w\<rparr>"
  obtain cs1 st2' where sm: "SmartRoutingStage_Evaluate env ctx (degrade (c_Rule ctx) cs0) ?st1 = (cs1, st2')"
    by (cases "SmartRoutingStage_Evaluate env ctx (degrade (c_Rule ctx) cs0) ?st1")
  have r: "cs = degrade (c_Rule ctx) cs1" "st2 = st2'" using assms by (simp_all add: routed_def h sm)
  have 1: "stage_Evaluate env ctx HealthStage ?init st = Some (Inr (cs0, None), ?st1)" by (simp add: h)
  have 2: "stage_Evaluate env ctx SmartRoutingStage (degrade (c_Rule ctx) cs0) ?st1 = Some (Inr (cs1, None), st2')"
    by (simp add: sm)
  show ?thesis
    unfolding Select_def pipeline_def runStages_pass [OF 1] runStages_pass [OF 2] r by simp
qed

definition in_scope :: "Rule \<Rightarrow> int \<Rightarrow> string \<Rightarrow> bool" where
  "in_scope rule idx i \<longleftrightarrow>
     (if idx < 0 then i \<in> ServiceID ` set (Services rule)
      else nat idx < length (rule_SmartRouting rule) \<and>
           i \<in> ServiceID ` set (sr_Services (rule_SmartRouting rule ! nat idx)))"

lemma routed_facts:
  assumes "routed env ctx st = (cs, st2)" and "MatchedSmartRuleIndex st < 0"
  shows "set cs \<subseteq> set (configuredActive (c_Rule ctx))"
    and "ServiceID ` set cs \<subseteq> {i. in_scope (c_Rule ctx) (MatchedSmartRuleIndex st2) i}"
    and "cs = [] \<Longrightarrow> FilterActiveServices (Services (c_Rule ctx)) = []"
    and "s_affinity st2 = s_affinity st"
proof -
  let ?rule = "c_Rule ctx"
  let ?init = "initialCandidateServices ?rule"
  obtain cs0 w where h: "HealthStage_Evaluate (e_now env) ?init (s_world st) = (cs0, w)"
    by (cases "HealthStage_Evaluate (e_now env) ?init (s_world st)")
  obtain cs1 st2' where sm: "SmartRoutingStage_Evaluate env ctx (degrade ?rule cs0) (st\<lparr>s_world := w\<rparr>) = (cs1, st2')"
    by (cases "SmartRoutingStage_Evaluate env ctx (degrade ?rule cs0) (st\<lparr>s_world := w\<rparr>)")
  have r: "cs = degrade ?rule cs1" "st2 = st2'" using assms by (simp_all add: routed_def h sm)
  have base: "set (FilterActiveServices (Services ?rule)) \<subseteq> set (configuredActive ?rule)"
    by (auto simp: FilterActive_facts configuredActive_def)
  have "set cs0 \<subseteq> set (configuredActive ?rule)"
    using HealthStage_subset [of "e_now env" ?init "s_world st"] initialCandidates_facts(1) [of ?rule]
    by (auto simp: h)
  then have d0: "set (degrade ?rule cs0) \<subseteq> set (configuredActive ?rule)"
    using degrade_base [of ?rule cs0] base by blast
  have noSmart: "configuredActive ?rule = FilterActiveServices (Services ?rule)" if "rule_SmartRouting ?rule = []"
    using that by (simp add: configuredActive_def FilterActiveServices_def)
  note cases = SmartRouting_cases [OF sm]
  have "set cs1 \<subseteq> set (configuredActive ?rule)"
    using cases d0 by (auto simp: IntersectServices_facts configured_partition split: if_splits)
  then show "set cs \<subseteq> set (configuredActive ?rule)" unfolding r using degrade_base [of ?rule cs1] base by blast
  show "FilterActiveServices (Services ?rule) = []" if "cs = []"
    using degrade_Nil [OF r(1) [symmetric, unfolded that]] by (rule conjunct2)
  show "s_affinity st2 = s_affinity st"
    using SmartRouting_frame(1) [of env ctx "degrade ?rule cs0" "st\<lparr>s_world := w\<rparr>"] by (simp add: sm r)
  show "ServiceID ` set cs \<subseteq> {i. in_scope ?rule (MatchedSmartRuleIndex st2) i}"
    using cases
  proof (elim disjE exE conjE)
    assume idx: "MatchedSmartRuleIndex st2' = MatchedSmartRuleIndex (st\<lparr>s_world := w\<rparr>)"
      and cs1: "cs1 = (if rule_SmartRouting ?rule = [] then degrade ?rule cs0
                       else IntersectServices (degrade ?rule cs0) (Services ?rule))"
    have "ServiceID ` set cs1 \<subseteq> ServiceID ` set (Services ?rule)"
    proof (cases "rule_SmartRouting ?rule = []")
      case True
      with cs1 d0 noSmart show ?thesis by (fastforce simp: FilterActive_facts)
    next
      case False
      with cs1 show ?thesis by (auto simp: IntersectServices_facts)
    qed
    then have "ServiceID ` set cs \<subseteq> ServiceID ` set (Services ?rule)"
      unfolding r by (intro order_trans [OF image_mono [OF degrade_base]]) (auto simp: FilterActive_facts)
    with idx assms(2) show ?thesis by (auto simp: in_scope_def r)
  next
    fix i assume "i < length (rule_SmartRouting ?rule)" "MatchedSmartRuleIndex st2' = int i" "cs1 \<noteq> []"
      "\<forall>c\<in>set cs1. Active c \<and> c \<in> set (sr_Services (rule_SmartRouting ?rule ! i)) \<and>
         (degrade ?rule cs0 \<noteq> [] \<longrightarrow> ServiceID c \<in> ServiceID ` set (degrade ?rule cs0))"
    then show ?thesis by (auto simp: in_scope_def r)
  qed
qed


section \<open>What a request is given\<close>

lemma runStages_nothing:
  assumes "FilterActiveServices (Services (c_Rule ctx)) = []"
  shows "\<exists>st'. runStages env ctx [AffinityStage, LoadBalancerStage] ev [] st =
     Some (Inl (StageError SourceLoadBalancer (NoServicesConfigured (RequestModel (c_Rule ctx)))), st')"
proof -
  have 1: "stage_Evaluate env ctx AffinityStage [] st = Some (Inr ([], None), st)"
    by (simp add: AffinityStage_Evaluate_def ContainsService_def Let_def split: option.splits)
  have 2: "degrade (c_Rule ctx) [] = []" using assms by (simp add: degrade_def activeBaseFallback_def)
  show ?thesis unfolding runStages_pass [OF 1] 2
    by (simp add: LoadBalancerStage_Evaluate_def LB_SelectService_def lb_selectService_def Let_def)
qed

lemma served_pick:
  assumes "r_Service r = Some svc" and "Active svc"
    and "case GetProviderByUUID env (Provider svc) of Some p \<Rightarrow> Enabled p | None \<Rightarrow> False"
  shows "\<exists>p. validResult env r = Some p"
  using assms by (auto simp: validResult_def split: option.splits)

lemma runStages_terminal:
  assumes "cs \<noteq> []" and "\<forall>c\<in>set cs. Active c"
    and "\<forall>c\<in>set cs. case GetProviderByUUID env (Provider c) of Some p \<Rightarrow> Enabled p | None \<Rightarrow> False"
  shows "\<exists>r st'. runStages env ctx [AffinityStage, LoadBalancerStage] ev cs st = Some (Inr r, st')"
proof -
  obtain fin st1 where aff: "AffinityStage_Evaluate env ctx cs st = (fin, st1)"
    by (cases "AffinityStage_Evaluate env ctx cs st")
  from LoadBalancerStage_selects [OF assms(1,2), of env ctx st1] obtain c r st2 d where
    lb: "LoadBalancerStage_Evaluate env ctx cs st1 = Some (Inr r, st2)" "r_Service r = Some c" "Active c"
    and d: "d \<in> set cs" "c = d \<or> c = InitializeStats (e_now env) d" by blast
  from d assms(3) have "case GetProviderByUUID env (Provider c) of Some p \<Rightarrow> Enabled p | None \<Rightarrow> False" by auto
  from served_pick [OF lb(2,3) this] obtain p where "validResult env r = Some p" ..
  with aff lb assms(1) show ?thesis by (auto simp: Let_def split: option.splits)
qed

lemma routed_active:
  assumes "routed env ctx (freshState w a req) = (cs, st2)"
  shows "\<forall>c\<in>set cs. Active c"
  using routed_facts(1) [OF assms] by (auto simp: freshState_def configuredActive_def)

lemma select_answers:
  assumes "\<forall>c\<in>set (configuredActive (c_Rule ctx)).
             case GetProviderByUUID env (Provider c) of Some p \<Rightarrow> Enabled p | None \<Rightarrow> False"
    and "FilterActiveServices (Services (c_Rule ctx)) \<noteq> []"
  shows "\<exists>r st'. Select env ctx (freshState w a req) = Some (Inr r, st')"
proof -
  obtain cs st2 where rt: "routed env ctx (freshState w a req) = (cs, st2)"
    by (cases "routed env ctx (freshState w a req)")
  have fresh: "MatchedSmartRuleIndex (freshState w a req) < 0" by (simp add: freshState_def)
  note f = routed_facts [OF rt fresh]
  have "cs \<noteq> []" using f(3) assms(2) by blast
  moreover have "\<forall>c\<in>set cs. case GetProviderByUUID env (Provider c) of Some p \<Rightarrow> Enabled p | None \<Rightarrow> False"
    using f(1) assms(1) by blast
  ultimately show ?thesis unfolding Select_routed [OF rt] using runStages_terminal routed_active [OF rt] by blast
qed

text \<open>
  C3 (safety): whatever the pipeline selects for a fresh request is an active service of a
  known and enabled provider, and it belongs to the scope the request was routed to: the
  services of the matched content partition, or the base services of the rule when none
  matched.  A service that only exists in an unmatched partition is never selected.
\<close>

theorem select_stays_in_scope:
  assumes "Select env ctx (freshState w a req) = Some (Inr r, st')"
  shows "served env r \<and>
    (\<exists>svc. r_Service r = Some svc \<and> in_scope (c_Rule ctx) (r_MatchedSmartRuleIndex r) (ServiceID svc))"
proof -
  obtain cs st2 where rt: "routed env ctx (freshState w a req) = (cs, st2)"
    by (cases "routed env ctx (freshState w a req)")
  have run: "runStages env ctx [AffinityStage, LoadBalancerStage] [SourceHealth, SourceSmartRouting] cs st2 =
      Some (Inr r, st')"
    using assms Select_routed [OF rt] by simp
  have fresh: "MatchedSmartRuleIndex (freshState w a req) < 0" by (simp add: freshState_def)
  note f = routed_facts [OF rt fresh]
  have "cs \<noteq> []"
  proof
    assume "cs = []"
    with runStages_nothing [OF f(3), of env "[SourceHealth, SourceSmartRouting]" st2] run show False by auto
  qed
  moreover have "\<forall>c\<in>set cs. Active c" using f(1) by (auto simp: configuredActive_def)
  ultimately show ?thesis
    using runStages_within [OF run _ _ _ f(2)] runStages_served [OF run] by auto
qed


definition sampleEnv :: "time \<Rightarrow> unit sel_env" where
  "sampleEnv now =
     \<lparr>e_now = now, e_smart = noExt, toBeta = (\<lambda>_. None), e_processors = Map.empty, e_quota = None,
      GetProviderByUUID = (\<lambda>i. Some \<lparr>p_UUID = i, p_Name = ''p'', Enabled = True, APIStyle = ''openai''\<rparr>)\<rparr>"

definition sampleCtx :: "Service list \<Rightarrow> unit sel_ctx" where
  "sampleCtx svcs =
     \<lparr>c_Rule = (sampleRule svcs)\<lparr>SessionAffinity := 60\<rparr>, c_SessionID = sampleSession ''alice'', c_Scenario = ''openai''\<rparr>"

definition samplePair :: "Service list" where
  "samplePair = [sampleService ''b'' 1, sampleService ''a'' 0]"

lemma sample_configured:
  "FilterActiveServices (Services (c_Rule (sampleCtx samplePair))) \<noteq> []"
  "case GetProviderByUUID (sampleEnv t) i of Some p \<Rightarrow> Enabled p | None \<Rightarrow> False"
  by (simp_all add: sampleCtx_def sampleEnv_def sampleRule_def samplePair_def sampleService_def FilterActiveServices_def)

theorem select_stays_in_scope_witness:
  "\<exists>r st'. Select (sampleEnv 7) (sampleCtx samplePair) (freshState sampleWorld (NewAffinityStore 0) None) = Some (Inr r, st') \<and>
     served (sampleEnv 7) r"
  using select_answers [OF _ sample_configured(1), of "sampleEnv 7" sampleWorld "NewAffinityStore 0" None]
    select_stays_in_scope [of "sampleEnv 7" "sampleCtx samplePair" sampleWorld "NewAffinityStore 0" None]
    sample_configured(2) by blast


section \<open>Sessions stay where they were routed\<close>

lemma runStages_pins:
  assumes "runStages env ctx stgs ev cs st = Some (Inr r, st')" and "SmartRoutingStage \<notin> set stgs"
    and "cs \<noteq> []" and "\<forall>c\<in>set cs. Active c"
  shows "s_affinity st' =
    (if r_Source r = SourceAffinity \<or> IsEmpty (c_SessionID ctx) \<or> GetEffectiveAffinity (c_Rule ctx) = 0 then s_affinity st
     else Affinity_Set (UUID (c_Rule ctx))
            (AffinitySessionKey (SessionID_String (c_SessionID ctx)) (r_MatchedSmartRuleIndex r))
            \<lparr>ae_Service = r_Service r, MessageID = [], LockedAt = e_now env,
             ExpiresAt = e_now env + GetEffectiveAffinity (c_Rule ctx)\<rparr> (s_affinity st))"
  using assms
proof (induction stgs arbitrary: ev cs st)
  case (Cons stg stgs)
  obtain cs' fin st1 where ev: "stage_Evaluate env ctx stg cs st = Some (Inr (cs', fin), st1)"
    using pipeline_stage.returns [OF Cons.prems(3,4)] by blast
  from Cons.prems(2) have "stg \<noteq> SmartRoutingStage" by auto
  note fr = stage_frame [OF ev this Cons.prems(3,4)]
  note nw = pipeline_stage.narrows [OF ev Cons.prems(3,4)]
  show ?case
  proof (cases "\<exists>f p. fin = Some f \<and> validResult env f = Some p")
    case True
    then obtain f p where f: "fin = Some f" "validResult env f = Some p" by blast
    with ev pipeline_stage.picks [OF _ Cons.prems(3,4)] have
      "r_MatchedSmartRuleIndex f = MatchedSmartRuleIndex st1" by blast
    with Cons.prems(1) ev f fr show ?thesis by (auto simp: Let_def postProcess_def)
  next
    case False
    then have "runStages env ctx stgs (ev @ [stage_Name stg]) cs' st1 = Some (Inr r, st')"
      using Cons.prems(1) ev fr by (auto simp: Let_def split: option.splits)
    from Cons.IH [OF this] Cons.prems(2) fr nw show ?thesis by auto
  qed
qed simp

lemma select_pin_written:
  assumes "Select env ctx (freshState w a req) = Some (Inr r, st')"
  shows "s_affinity st' =
    (if r_Source r = SourceAffinity \<or> IsEmpty (c_SessionID ctx) \<or> GetEffectiveAffinity (c_Rule ctx) = 0 then a
     else Affinity_Set (UUID (c_Rule ctx))
            (AffinitySessionKey (SessionID_String (c_SessionID ctx)) (r_MatchedSmartRuleIndex r))
            \<lparr>ae_Service = r_Service r, MessageID = [], LockedAt = e_now env,
             ExpiresAt = e_now env + GetEffectiveAffinity (c_Rule ctx)\<rparr> a)"
proof -
  obtain cs st2 where rt: "routed env ctx (freshState w a req) = (cs, st2)"
    by (cases "routed env ctx (freshState w a req)")
  have run: "runStages env ctx [AffinityStage, LoadBalancerStage] [SourceHealth, SourceSmartRouting] cs st2 =
      Some (Inr r, st')"
    using assms Select_routed [OF rt] by simp
  have fresh: "MatchedSmartRuleIndex (freshState w a req) < 0" by (simp add: freshState_def)
  note f = routed_facts [OF rt fresh]
  have "cs \<noteq> []"
  proof
    assume "cs = []"
    with runStages_nothing [OF f(3), of env "[SourceHealth, SourceSmartRouting]" st2] run show False by auto
  qed
  from runStages_pins [OF run _ this routed_active [OF rt]] f(4) show ?thesis by (simp add: freshState_def)
qed

lemma AffinityStage_sticks:
  assumes "Affinity_Get (e_now env) (UUID (c_Rule ctx))
             (AffinitySessionKey (SessionID_String (c_SessionID ctx)) (MatchedSmartRuleIndex st)) (s_affinity st) = Some e"
    and "ae_Service e = Some svc" and "AffinityEnabled (c_Rule ctx)" and "\<not> IsEmpty (c_SessionID ctx)"
    and "ContainsService cs (Some svc)"
    and "fst (IsAffinityEligible (e_now env) (UUID (c_Rule ctx)) cs (Some svc) (w_breakers (s_world st)))"
  shows "\<exists>st'. AffinityStage_Evaluate env ctx cs st =
     (Some ((NewResult svc SourceAffinity)\<lparr>r_MatchedSmartRuleIndex := MatchedSmartRuleIndex st\<rparr>), st')"
proof -
  have "e_now env \<le> ExpiresAt e"
    using assms(1) by (auto simp: Affinity_Get_def split: option.splits if_splits)
  moreover obtain s' where
    "IsAffinityEligible (e_now env) (UUID (c_Rule ctx)) cs (Some svc) (w_breakers (s_world st)) = (True, s')"
    using assms(6) by (metis prod.collapse)
  ultimately show ?thesis using assms(1-5) by (simp add: AffinityStage_Evaluate_def Let_def)
qed


lemma routed_plain:
  assumes "rule_SmartRouting (c_Rule ctx) = []" and "w_health (s_world st) = None"
    and "filter Active (Services (c_Rule ctx)) \<noteq> []"
  shows "routed env ctx st = (initialCandidateServices (c_Rule ctx), st)"
proof -
  have ne: "initialCandidateServices (c_Rule ctx) \<noteq> []"
    using assms(3) initialCandidates_facts(2) [of "c_Rule ctx"] by (auto simp: configuredActive_def)
  have "st\<lparr>s_world := (s_world st)\<lparr>w_health := w_health (s_world st)\<rparr>\<rparr> = st" by simp
  then show ?thesis using ne assms(1,2)
    by (simp add: routed_def HealthStage_Evaluate_def HealthFilter_Filter_def SmartRoutingStage_Evaluate_def Let_def)
qed

definition sampleOne :: "Service list" where "sampleOne = [sampleService ''a'' 0]"

lemma sampleOne_simps [simp]:
  "rule_SmartRouting (c_Rule (sampleCtx sampleOne)) = []" "Services (c_Rule (sampleCtx sampleOne)) = sampleOne"
  "initialCandidateServices (c_Rule (sampleCtx sampleOne)) = sampleOne" "filter Active sampleOne = sampleOne"
  "GetEffectiveAffinity (c_Rule (sampleCtx sampleOne)) = 60 * Second" "sampleOne \<noteq> []"
  "AffinityEnabled (c_Rule (sampleCtx sampleOne))" "\<not> IsEmpty (c_SessionID (sampleCtx sampleOne))"
  by (simp_all add: sampleCtx_def sampleRule_def sampleOne_def sampleService_def initialCandidateServices_def
      GetEffectiveAffinity_def AffinityEnabled_def sampleSession_def IsEmpty_def)

lemma sample_first:
  "\<exists>r st'. Select (sampleEnv 7) (sampleCtx sampleOne) (freshState sampleWorld (NewAffinityStore 0) None) =
     Some (Inr r, st') \<and> r_Service r = Some (sampleService ''a'' 0) \<and> r_Source r = SourceLoadBalancer \<and>
     r_MatchedSmartRuleIndex r = -1"
proof -
  let ?st = "freshState sampleWorld (NewAffinityStore 0) (None :: unit option)"
  have rt: "routed (sampleEnv 7) (sampleCtx sampleOne) ?st = (sampleOne, ?st)"
    using routed_plain [of "sampleCtx sampleOne" ?st "sampleEnv 7"] by (simp add: freshState_def sampleWorld_def)
  have aff: "AffinityStage_Evaluate (sampleEnv 7) (sampleCtx sampleOne) sampleOne ?st = (None, ?st)"
    by (simp add: AffinityStage_Evaluate_def freshState_def Affinity_Get_def NewAffinityStore_def Let_def)
  let ?r = "(NewResult (sampleService ''a'' 0) SourceLoadBalancer)\<lparr>r_MatchedSmartRuleIndex := -1\<rparr>"
  obtain st1 where lb: "LoadBalancerStage_Evaluate (sampleEnv 7) (sampleCtx sampleOne) sampleOne ?st = Some (Inr ?r, st1)"
    by (simp add: LoadBalancerStage_Evaluate_def LB_SelectService_def lb_selectService_def
        HealthFilter_Filter_def freshState_def sampleWorld_def Let_def)
       (simp add: sampleOne_def)
  obtain p where "validResult (sampleEnv 7) ?r = Some p"
    using served_pick [of ?r "sampleService ''a'' 0" "sampleEnv 7"] sample_configured(2)
    by (auto simp: NewResult_def sampleService_def)
  with aff lb show ?thesis unfolding Select_routed [OF rt] by (auto simp: Let_def NewResult_def)
qed


section \<open>An inactive base service that is served\<close>

text \<open>
  The base pool is the intersection with the rule's services, inactive ones included.  A rule
  whose base services are all inactive still serves one of them to an unmatched request when a
  content partition holds an active entry of the same identifier.
\<close>

definition shadowedCtx :: "unit sel_ctx" where
  "shadowedCtx = (sampleCtx [])\<lparr>c_Rule := (sampleRule [(sampleService ''a'' 0)\<lparr>Active := False\<rparr>])
     \<lparr>rule_SmartRouting := [\<lparr>sr_Description = ''vision'', Ops = [], sr_Services = [sampleService ''a'' 0]\<rparr>]\<rparr>\<rparr>"

lemma inactive_base_served:
  "FilterActiveServices (Services (c_Rule shadowedCtx)) = [] \<and>
   (\<exists>r st'. Select (sampleEnv 7) shadowedCtx (freshState sampleWorld (NewAffinityStore 0) None) = Some (Inr r, st') \<and>
      r_MatchedSmartRuleIndex r = -1)"
proof
  show "FilterActiveServices (Services (c_Rule shadowedCtx)) = []"
    by (simp add: shadowedCtx_def sampleRule_def FilterActiveServices_def)
  let ?st = "freshState sampleWorld (NewAffinityStore 0) (None :: unit option)"
  have init: "initialCandidateServices (c_Rule shadowedCtx) = sampleOne"
    by (simp add: shadowedCtx_def sampleRule_def initialCandidateServices_def sampleOne_def)
       (simp add: sampleService_def)
  have base: "rule_SmartRouting (c_Rule shadowedCtx) \<noteq> []"
    "IntersectServices sampleOne (Services (c_Rule shadowedCtx)) = sampleOne"
    by (simp_all add: shadowedCtx_def sampleRule_def IntersectServices_def sampleOne_def ServiceID_def)
  have rt: "routed (sampleEnv 7) shadowedCtx ?st = (sampleOne, ?st)"
    by (simp add: routed_def init HealthStage_Evaluate_def HealthFilter_Filter_def SmartRoutingStage_Evaluate_def
        base Let_def freshState_def sampleWorld_def)
  have act: "\<forall>c\<in>set sampleOne. Active c" by (simp add: sampleOne_def sampleService_def)
  obtain r st' where run: "Select (sampleEnv 7) shadowedCtx ?st = Some (Inr r, st')"
    unfolding Select_routed [OF rt]
    using runStages_terminal [OF sampleOne_simps(6) act] sample_configured(2) by blast
  then have "r_MatchedSmartRuleIndex r = -1"
    using runStages_within [OF _ _ sampleOne_simps(6) act, of "sampleEnv 7" shadowedCtx
        "[AffinityStage, LoadBalancerStage]" _ ?st r st' UNIV]
    unfolding Select_routed [OF rt] by (simp add: freshState_def del: runStages.simps)
  with run show "\<exists>r st'. Select (sampleEnv 7) shadowedCtx ?st = Some (Inr r, st') \<and> r_MatchedSmartRuleIndex r = -1"
    by blast
qed

end
