(* ===== verification/TB_Failover.thy ===== *)
theory TB_Failover
  imports TB_Prelude TB_LoadBalancer TB_Selector
begin

text \<open>
  Mid-request failover, \<^verbatim>\<open>internal/protocolserver/failover_dispatch.go\<close>: the response gate that
  buffers an attempt until it commits, the choice of the next service, and the retry loop.

  The real response writer is the HTTP framework's: it is modelled by the list of the calls that
  reach it.  An attempt is the protocol handler's work for one service: a parameter that gives the
  calls it makes on its response writer, the time it ends and what it does to the breakers and
  the health monitor on its own (usage tracking).
\<close>

section \<open>The response gate\<close>

datatype writer_call =
    SetHeader string "string list"
  | WriteHeader int
  | Write string
  | WriteHeaderNow
  | Flush
  | CopyHeaders "(string \<times> string list) list"

datatype gate_call = Call writer_call | CommitFirstChunk

record firstChunkGate =
  gate_real :: "writer_call list"
  buf :: string
  hdr :: "(string \<times> string list) list"
  status :: int
  committed :: bool

definition StatusOK :: int where "StatusOK = 200"

definition newFirstChunkGate :: "writer_call list \<Rightarrow> firstChunkGate" where
  "newFirstChunkGate w = \<lparr>gate_real = w, buf = [], hdr = [], status = 0, committed = False\<rparr>"

definition gate_delegate :: "writer_call \<Rightarrow> firstChunkGate \<Rightarrow> firstChunkGate" where
  "gate_delegate c g = g\<lparr>gate_real := gate_real g @ [c]\<rparr>"

text \<open>Each method of the gate, by the call the producer makes on it.\<close>

definition gate_Header_Set :: "string \<Rightarrow> string list \<Rightarrow> firstChunkGate \<Rightarrow> firstChunkGate" where
  "gate_Header_Set k v g =
     (if committed g then gate_delegate (SetHeader k v) g else g\<lparr>hdr := AList.update k v (hdr g)\<rparr>)"

definition gate_Write :: "string \<Rightarrow> firstChunkGate \<Rightarrow> firstChunkGate" where
  "gate_Write p g =
     (if committed g then gate_delegate (Write p) g
      else
        let g1 = (if status g = 0 then g\<lparr>status := StatusOK\<rparr> else g)
        in g1\<lparr>buf := buf g1 @ p\<rparr>)"

definition gate_WriteHeader :: "int \<Rightarrow> firstChunkGate \<Rightarrow> firstChunkGate" where
  "gate_WriteHeader code g =
     (if committed g then gate_delegate (WriteHeader code) g else g\<lparr>status := code\<rparr>)"

definition gate_WriteHeaderNow :: "firstChunkGate \<Rightarrow> firstChunkGate" where
  "gate_WriteHeaderNow g = (if committed g then gate_delegate WriteHeaderNow g else g)"

definition gate_Flush :: "firstChunkGate \<Rightarrow> firstChunkGate" where
  "gate_Flush g = (if \<not> committed g then g else gate_delegate Flush g)"

definition gate_Status :: "(writer_call list \<Rightarrow> int) \<Rightarrow> firstChunkGate \<Rightarrow> int" where
  "gate_Status realStatus g = (if committed g then realStatus (gate_real g) else status g)"

definition gate_Size :: "(writer_call list \<Rightarrow> int) \<Rightarrow> firstChunkGate \<Rightarrow> int" where
  "gate_Size realSize g = (if committed g then realSize (gate_real g) else int (length (buf g)))"

definition gate_Written :: "(writer_call list \<Rightarrow> bool) \<Rightarrow> firstChunkGate \<Rightarrow> bool" where
  "gate_Written realWritten g =
     (if committed g then realWritten (gate_real g) else length (buf g) > 0 \<or> status g \<noteq> 0)"

definition gate_commit :: "firstChunkGate \<Rightarrow> firstChunkGate" where
  "gate_commit g =
     (if committed g then g
      else
        let g1 = gate_delegate (CopyHeaders (hdr g)) (g\<lparr>committed := True\<rparr>);
            st = (if status g1 = 0 then StatusOK else status g1);
            g2 = gate_delegate (WriteHeader st) g1
        in if length (buf g2) > 0 then (gate_delegate (Write (buf g2)) g2)\<lparr>buf := []\<rparr>
           else gate_delegate WriteHeaderNow g2)"

definition gate_CommitFirstChunk :: "firstChunkGate \<Rightarrow> firstChunkGate" where
  "gate_CommitFirstChunk g = gate_commit g"

definition gate_CommitIfBuffered :: "firstChunkGate \<Rightarrow> firstChunkGate" where
  "gate_CommitIfBuffered g =
     (if committed g \<or> (length (buf g) = 0 \<and> status g = 0) then g else gate_commit g)"

definition gate_Discard :: "firstChunkGate \<Rightarrow> firstChunkGate" where
  "gate_Discard g = (if committed g then g else g\<lparr>buf := [], status := 0, hdr := []\<rparr>)"

fun gate_apply :: "gate_call \<Rightarrow> firstChunkGate \<Rightarrow> firstChunkGate" where
  "gate_apply (Call (SetHeader k v)) g = gate_Header_Set k v g"
| "gate_apply (Call (WriteHeader code)) g = gate_WriteHeader code g"
| "gate_apply (Call (Write p)) g = gate_Write p g"
| "gate_apply (Call WriteHeaderNow) g = gate_WriteHeaderNow g"
| "gate_apply (Call Flush) g = gate_Flush g"
| "gate_apply (Call (CopyHeaders h)) g = fold (\<lambda>(k, v) g. gate_Header_Set k v g) h g"
| "gate_apply CommitFirstChunk g = gate_CommitFirstChunk g"

definition gate_run :: "gate_call list \<Rightarrow> firstChunkGate \<Rightarrow> firstChunkGate" where
  "gate_run calls g = fold gate_apply calls g"

text \<open>
  Without a gate the calls reach the real writer, and \<^verbatim>\<open>CommitFirstChunkIfGate\<close> does nothing.
\<close>

fun direct_calls :: "gate_call list \<Rightarrow> writer_call list" where
  "direct_calls [] = []"
| "direct_calls (Call c # cs) = c # direct_calls cs"
| "direct_calls (CommitFirstChunk # cs) = direct_calls cs"

section \<open>Choosing the next service\<close>

definition retryableUpstreamStatuses :: "int list" where
  "retryableUpstreamStatuses = [401, 403, 429, 502, 503, 504, 500]"

definition isRetryableStatus :: "int \<Rightarrow> bool" where
  "isRetryableStatus st \<longleftrightarrow> st \<noteq> 0 \<and> st \<in> set retryableUpstreamStatuses"

definition fallbackCandidates :: "time \<Rightarrow> (string \<Rightarrow> Provider option) \<Rightarrow> Rule \<Rightarrow> string list \<Rightarrow> string \<Rightarrow>
    (Service \<times> Provider) list" where
  "fallbackCandidates now providers rule excluded requireAPIStyle =
     List.map_filter (\<lambda>svc.
       if ServiceID svc \<in> set excluded then None
       else
         (case providers (Provider svc) of
            None \<Rightarrow> None
          | Some p \<Rightarrow> if requireAPIStyle \<noteq> [] \<and> APIStyle p \<noteq> requireAPIStyle then None else Some (svc, p)))
       (GetActiveServices now rule)"

text \<open>
  The result is the provider and service Go returns, either possibly nil, or the load balancer's
  error; \<open>None\<close> is a selection that does not end.
\<close>

definition selectFallbackService :: "time \<Rightarrow> (string \<Rightarrow> Provider option) \<Rightarrow> Rule \<Rightarrow> string list \<Rightarrow> string \<Rightarrow>
    world \<Rightarrow> ((lb_error + Provider option \<times> Service option) \<times> world) option" where
  "selectFallbackService now providers rule excluded requireAPIStyle w =
     (let cands = fallbackCandidates now providers rule excluded requireAPIStyle;
          available = map fst cands;
          candidateProviders = map_of (rev (map (\<lambda>(svc, p). (ServiceID svc, p)) cands))
      in if length available = 0 then Some (Inr (None, None), w)
         else
           let tempRule = rule\<lparr>Services := available\<rparr>;
               tac = Tactic_Instantiate (Some (LBTactic rule))
           in if tactic_GetType tac = TacticTier then
                (case tactic_SelectService now tac tempRule (w_breakers w) (w_rand w) of
                   None \<Rightarrow> None
                 | Some (None, s, rs) \<Rightarrow> Some (Inr (None, None), w\<lparr>w_breakers := s, w_rand := rs\<rparr>)
                 | Some (Some svc, s, rs) \<Rightarrow>
                     Some (Inr (candidateProviders (ServiceID svc), Some svc), w\<lparr>w_breakers := s, w_rand := rs\<rparr>))
              else
                (case LB_SelectService now (Some tempRule) w of
                   None \<Rightarrow> None
                 | Some (Inl e, w') \<Rightarrow> Some (Inl e, w')
                 | Some (Inr svc, w') \<Rightarrow> Some (Inr (candidateProviders (ServiceID svc), Some svc), w')))"

section \<open>The retry loop\<close>

record attempt_outcome =
  a_calls :: "gate_call list"
  a_now :: time
  a_effect :: "world \<Rightarrow> world"

type_synonym dispatchAttempt = "nat \<Rightarrow> Provider \<Rightarrow> string \<Rightarrow> attempt_outcome"

definition reportUpstreamStatus :: "time \<Rightarrow> string \<Rightarrow> int \<Rightarrow> world \<Rightarrow> world" where
  "reportUpstreamStatus now serviceID st w =
     (case w_health w of
        None \<Rightarrow> w
      | Some hm \<Rightarrow>
          if st = 429 then w\<lparr>w_health := Some (ReportRateLimit now serviceID hm)\<rparr>
          else if st = 401 \<or> st = 403 then w\<lparr>w_health := Some (ReportAuthError now serviceID hm)\<rparr>
          else w)"

definition attemptID :: "Provider \<times> string \<Rightarrow> string" where
  "attemptID = (\<lambda>(provider, model). FormatServiceID (p_UUID provider) model)"

text \<open>
  \<open>n\<close> counts the iterations left; \<open>tried\<close> lists the attempts made, in order.  The loop ends at a
  return of the code or with the counter.
\<close>

fun failoverLoop :: "(string \<Rightarrow> Provider option) \<Rightarrow> Rule \<Rightarrow> dispatchAttempt \<Rightarrow> nat \<Rightarrow> nat \<Rightarrow> (Provider \<times> string) list \<Rightarrow>
    Provider \<Rightarrow> string \<Rightarrow> world \<Rightarrow> firstChunkGate \<Rightarrow> (world \<times> firstChunkGate \<times> (Provider \<times> string) list) option" where
  "failoverLoop providers rule attempt 0 i tried provider model w g = Some (w, g, tried)"
| "failoverLoop providers rule attempt (Suc n) i tried provider model w g =
     (let serviceID = FormatServiceID (p_UUID provider) model;
          tried' = tried @ [(provider, model)];
          outcome = attempt i provider model;
          now = a_now outcome;
          w1 = a_effect outcome w;
          g1 = gate_run (a_calls outcome) g
      in if committed g1 then
           Some (w1\<lparr>w_breakers := Store_RecordSuccess now (UUID rule) serviceID (w_breakers w1)\<rparr>, g1, tried')
         else if \<not> isRetryableStatus (status g1) then Some (w1, g1, tried')
         else
           let w2 = reportUpstreamStatus now serviceID (status g1) w1;
               w3 = w2\<lparr>w_breakers := Store_RecordFailure now (UUID rule) serviceID (w_breakers w2)\<rparr>
           in case selectFallbackService now providers rule (map attemptID tried') [] w3 of
                None \<Rightarrow> None
              | Some (Inl e, w4) \<Rightarrow> Some (w4, g1, tried')
              | Some (Inr (Some nextProvider, Some nextService), w4) \<Rightarrow>
                  failoverLoop providers rule attempt n (Suc i) tried' nextProvider (Model nextService) w4
                    (gate_Discard g1)
              | Some (Inr _, w4) \<Rightarrow> Some (w4, g1, tried'))"

text \<open>The calls that have reached the real writer when the dispatch returns, and the attempts made.\<close>

definition DispatchWithPriorityFailover :: "time \<Rightarrow> (string \<Rightarrow> Provider option) \<Rightarrow> Rule \<Rightarrow> Provider \<Rightarrow> string \<Rightarrow>
    dispatchAttempt \<Rightarrow> world \<Rightarrow> writer_call list \<Rightarrow> (world \<times> writer_call list \<times> (Provider \<times> string) list) option" where
  "DispatchWithPriorityFailover now providers rule initialProvider initialModel attempt w realWriter =
     (let n = length (GetActiveServices now rule) in
      if n \<le> 1 then
        let outcome = attempt 0 initialProvider initialModel
        in Some (a_effect outcome w, realWriter @ direct_calls (a_calls outcome), [(initialProvider, initialModel)])
      else
        map_option (\<lambda>(w', g, tried). (w', gate_real (gate_CommitIfBuffered g), tried))
          (failoverLoop providers rule attempt n 0 [] initialProvider initialModel w (newFirstChunkGate realWriter)))"

section \<open>What the gate lets through\<close>

lemmas gate_defs =
  gate_Header_Set_def gate_Write_def gate_WriteHeader_def gate_WriteHeaderNow_def gate_Flush_def
  gate_CommitFirstChunk_def gate_commit_def gate_delegate_def

lemma gate_run_simps [simp]:
  "gate_run [] g = g" "gate_run (c # cs) g = gate_run cs (gate_apply c g)"
  by (simp_all add: gate_run_def)

lemma gate_run_append: "gate_run (xs @ ys) g = gate_run ys (gate_run xs g)"
  by (simp add: gate_run_def)

lemma header_fold_buffered:
  "\<not> committed g \<Longrightarrow> let g' = fold (\<lambda>(k, v) g. gate_Header_Set k v g) h g in
     gate_real g' = gate_real g \<and> \<not> committed g' \<and> status g' = status g \<and> buf g' = buf g"
proof (induction h arbitrary: g)
  case (Cons kv h)
  then show ?case by (cases kv) (auto simp: gate_Header_Set_def Let_def)
qed (simp add: Let_def)

lemma gate_apply_buffered:
  "\<not> committed (gate_apply c g) \<Longrightarrow> \<not> committed g \<and> gate_real (gate_apply c g) = gate_real g"
proof (induction c g rule: gate_apply.induct)
  case (6 h g)
  have "committed g \<Longrightarrow> committed (fold (\<lambda>(k, v) g. gate_Header_Set k v g) h g)"
    by (induction h arbitrary: g) (auto simp: gate_Header_Set_def gate_delegate_def)
  with 6 header_fold_buffered [of g h] show ?case by (auto simp: Let_def)
qed (auto simp: gate_defs Let_def split: if_splits)

lemma gate_run_buffered:
  "\<not> committed (gate_run cs g) \<Longrightarrow> \<not> committed g \<and> gate_real (gate_run cs g) = gate_real g"
proof (induction cs arbitrary: g)
  case (Cons c cs)
  from Cons.prems have "\<not> committed (gate_run cs (gate_apply c g))" by simp
  from Cons.IH [OF this] gate_apply_buffered [of c g] show ?case by simp
qed simp

text \<open>What is already on the wire does not change what the gate does: it is only a prefix.\<close>

definition on_wire :: "writer_call list \<Rightarrow> firstChunkGate \<Rightarrow> firstChunkGate" where
  "on_wire R g = g\<lparr>gate_real := R @ gate_real g\<rparr>"

lemma on_wire_simps [simp]:
  "committed (on_wire R g) = committed g" "status (on_wire R g) = status g" "buf (on_wire R g) = buf g"
  "hdr (on_wire R g) = hdr g" "gate_real (on_wire R g) = R @ gate_real g"
  "on_wire R (newFirstChunkGate []) = newFirstChunkGate R"
  by (simp_all add: on_wire_def newFirstChunkGate_def)

lemma gate_apply_on_wire: "gate_apply c (on_wire R g) = on_wire R (gate_apply c g)"
proof (induction c g rule: gate_apply.induct)
  case (6 h g)
  show ?case
  proof (simp, induction h arbitrary: g)
    case (Cons kv h)
    have "gate_Header_Set k v (on_wire R g) = on_wire R (gate_Header_Set k v g)" for k v
      by (simp add: gate_Header_Set_def gate_delegate_def on_wire_def)
    with Cons.IH show ?case by (cases kv) simp
  qed simp
qed (auto simp: gate_defs Let_def on_wire_def)

lemma gate_run_on_wire: "gate_run cs (on_wire R g) = on_wire R (gate_run cs g)"
  by (induction cs arbitrary: g) (simp_all add: gate_apply_on_wire)

lemma gate_CommitIfBuffered_on_wire: "gate_CommitIfBuffered (on_wire R g) = on_wire R (gate_CommitIfBuffered g)"
  by (auto simp: gate_CommitIfBuffered_def gate_commit_def gate_delegate_def Let_def on_wire_def)

lemma gate_Discard_new:
  "\<not> committed g \<Longrightarrow> gate_Discard g = newFirstChunkGate (gate_real g)"
  by (simp add: gate_Discard_def newFirstChunkGate_def)

text \<open>The response of one attempt by itself, and whether it is one the loop retries.\<close>

definition gated :: "gate_call list \<Rightarrow> firstChunkGate" where
  "gated calls = gate_run calls (newFirstChunkGate [])"

definition response :: "gate_call list \<Rightarrow> writer_call list" where
  "response calls = gate_real (gate_CommitIfBuffered (gated calls))"

definition retryable :: "gate_call list \<Rightarrow> bool" where
  "retryable calls \<longleftrightarrow> \<not> committed (gated calls) \<and> isRetryableStatus (status (gated calls))"

lemma gate_run_new: "gate_run calls (newFirstChunkGate R) = on_wire R (gated calls)"
  using gate_run_on_wire [of calls R "newFirstChunkGate []"] by (simp add: gated_def)

lemma response_on_wire: "gate_real (gate_CommitIfBuffered (on_wire R (gated calls))) = R @ response calls"
  by (simp add: gate_CommitIfBuffered_on_wire response_def)

lemma retry_gate: "retryable calls \<Longrightarrow> gate_Discard (on_wire R (gated calls)) = newFirstChunkGate R"
  using gate_run_buffered [of calls "newFirstChunkGate []"]
  by (simp add: retryable_def gate_Discard_new) (simp add: gated_def newFirstChunkGate_def)

fun body :: "writer_call list \<Rightarrow> string" where
  "body [] = []"
| "body (Write p # cs) = p @ body cs"
| "body (c # cs) = body cs"

lemma body_append [simp]: "body (xs @ ys) = body xs @ body ys"
  by (induction xs rule: body.induct) auto

lemma header_set_body [simp]:
  "body (gate_real (gate_Header_Set k v g)) = body (gate_real g)"
  "buf (gate_Header_Set k v g) = buf g" "committed (gate_Header_Set k v g) = committed g"
  by (simp_all add: gate_Header_Set_def gate_delegate_def)

lemma header_fold_body:
  "body (gate_real (fold (\<lambda>(k, v) g. gate_Header_Set k v g) h g)) = body (gate_real g) \<and>
   buf (fold (\<lambda>(k, v) g. gate_Header_Set k v g) h g) = buf g \<and>
   committed (fold (\<lambda>(k, v) g. gate_Header_Set k v g) h g) = committed g"
proof (induction h arbitrary: g)
  case (Cons kv h)
  then show ?case by (cases kv) simp
qed simp

lemma gate_apply_body:
  "committed g \<longrightarrow> buf g = [] \<Longrightarrow>
   (committed (gate_apply c g) \<longrightarrow> buf (gate_apply c g) = []) \<and>
   body (gate_real (gate_apply c g)) @ buf (gate_apply c g) = body (gate_real g) @ buf g @ body (direct_calls [c])"
  by (induction c g rule: gate_apply.induct)
     (auto simp: gate_defs Let_def header_fold_body)

lemma gate_run_body:
  "committed g \<longrightarrow> buf g = [] \<Longrightarrow>
   (committed (gate_run cs g) \<longrightarrow> buf (gate_run cs g) = []) \<and>
   body (gate_real (gate_run cs g)) @ buf (gate_run cs g) = body (gate_real g) @ buf g @ body (direct_calls cs)"
proof (induction cs arbitrary: g)
  case (Cons c cs)
  have d: "body (direct_calls (c # cs)) = body (direct_calls [c]) @ body (direct_calls cs)"
    by (cases c) (simp_all flip: body_append)
  note step = gate_apply_body [OF Cons.prems, of c]
  from Cons.IH [of "gate_apply c g"] step show ?case by (simp add: d del: append_assoc flip: append_assoc)
qed simp

text \<open>
  The gate loses, duplicates and reorders nothing.  The body bytes that reach
  the real writer for an attempt, once the dispatch is over, are exactly those the attempt wrote,
  however its writes and flushes interleave with the first-chunk commit.
\<close>

theorem gate_preserves_body: "body (response calls) = body (direct_calls calls)"
proof -
  have "body (gate_real (gate_CommitIfBuffered g)) = body (gate_real g) @ buf g"
    if "committed g \<longrightarrow> buf g = []" for g
    using that by (auto simp: gate_CommitIfBuffered_def gate_commit_def gate_delegate_def Let_def)
  from this [of "gated calls"] gate_run_body [of "newFirstChunkGate []" calls] show ?thesis
    by (simp add: response_def gated_def newFirstChunkGate_def)
qed

section \<open>The next service\<close>

text \<open>
  What the provider registry documents: it finds a provider by its own UUID.
\<close>

definition registry_ok :: "(string \<Rightarrow> Provider option) \<Rightarrow> bool" where
  "registry_ok providers \<longleftrightarrow> (\<forall>i p. providers i = Some p \<longrightarrow> p_UUID p = i)"

definition slash_free :: "Rule \<Rightarrow> bool" where
  "slash_free rule \<longleftrightarrow> (\<forall>s\<in>set (Services rule). CHR ''/'' \<notin> set (Provider s))"

definition activeIDs :: "Rule \<Rightarrow> string set" where
  "activeIDs rule = ServiceID ` {s \<in> set (Services rule). Active s}"

lemma fallbackCandidates_set:
  "set (fallbackCandidates now providers rule excluded []) =
     {(svc, p). svc \<in> set (GetActiveServices now rule) \<and> ServiceID svc \<notin> set excluded \<and>
                providers (Provider svc) = Some p}"
  by (force simp: fallbackCandidates_def List.map_filter_def split: if_splits option.splits)

lemma candidate_provider:
  assumes "registry_ok providers" and "slash_free rule" and "excluded' = set excluded"
    and "d \<in> set (map fst (fallbackCandidates now providers rule excluded []))" and "ServiceID c = ServiceID d"
    and "Provider c = Provider d"
  shows "\<exists>p. map_of (rev (map (\<lambda>(svc, p). (ServiceID svc, p)) (fallbackCandidates now providers rule excluded [])))
               (ServiceID c) = Some p \<and> providers (Provider c) = Some p"
proof -
  let ?cs = "fallbackCandidates now providers rule excluded []"
  let ?m = "rev (map (\<lambda>(svc, p). (ServiceID svc, p)) ?cs)"
  have "ServiceID c \<in> fst ` set ?m" using assms(4,5) by force
  then obtain p where p: "map_of ?m (ServiceID c) = Some p" by (metis domIff dom_map_of_conv_image_fst option.exhaust)
  from map_of_SomeD [OF this] obtain e where e: "(e, p) \<in> set ?cs" "ServiceID e = ServiceID c" by auto
  from e(1) assms(4) have "e \<in> set (GetActiveServices now rule)" "d \<in> set (GetActiveServices now rule)"
    and pe: "providers (Provider e) = Some p" by (auto simp: fallbackCandidates_set)
  then have "CHR ''/'' \<notin> set (Provider e)" "CHR ''/'' \<notin> set (Provider d)"
    using assms(2) by (auto simp: slash_free_def GetActiveServices_def)
  with e(2) assms(5,6) have "Provider e = Provider c"
    using FormatServiceID_inj by (simp add: ServiceID_def)
  with p pe show ?thesis by auto
qed

text \<open>The services the loop could still try.\<close>

definition untried :: "(string \<Rightarrow> Provider option) \<Rightarrow> Rule \<Rightarrow> string set \<Rightarrow> string set" where
  "untried providers rule X =
     ServiceID ` {s \<in> set (Services rule). Active s \<and> providers (Provider s) \<noteq> None} - X"

lemma fallback_none:
  "fallbackCandidates now providers rule excluded [] = [] \<longleftrightarrow> untried providers rule (set excluded) = {}"
proof -
  have "fallbackCandidates now providers rule excluded [] = [] \<longleftrightarrow>
      set (fallbackCandidates now providers rule excluded []) = {}" by simp
  also have "\<dots> \<longleftrightarrow> untried providers rule (set excluded) = {}"
    unfolding fallbackCandidates_set by (auto simp: untried_def GetActiveServices_def)
  finally show ?thesis .
qed

lemma selectFallback_result:
  assumes "registry_ok providers" and "slash_free rule"
  shows "\<exists>w'. if untried providers rule (set excluded) = {}
     then selectFallbackService now providers rule excluded [] w = Some (Inr (None, None), w')
     else \<exists>p svc. selectFallbackService now providers rule excluded [] w = Some (Inr (Some p, Some svc), w') \<and>
            attemptID (p, Model svc) \<in> untried providers rule (set excluded)"
proof (cases "fallbackCandidates now providers rule excluded [] = []")
  case True
  then show ?thesis using fallback_none [of now providers rule excluded]
    by (simp add: selectFallbackService_def)
next
  case False
  let ?cs = "fallbackCandidates now providers rule excluded []"
  let ?rule = "rule\<lparr>Services := map fst ?cs\<rparr>"
  have ready: "\<forall>d\<in>set (map fst ?cs). Active d"
    by (auto simp: fallbackCandidates_set GetActiveServices_def)
  then have act: "filter Active (Services ?rule) = map fst ?cs" by (simp add: filter_id_conv)
  have pick: "\<exists>p. map_of (rev (map (\<lambda>(svc, p). (ServiceID svc, p)) ?cs)) (ServiceID c) = Some p \<and>
      attemptID (p, Model c) \<in> untried providers rule (set excluded)"
    if "d \<in> set (map fst ?cs)" "c = d \<or> c = InitializeStats now d" for c d
  proof -
    from candidate_provider [OF assms refl that(1), of c] that(2) obtain p where
      p: "map_of (rev (map (\<lambda>(svc, p). (ServiceID svc, p)) ?cs)) (ServiceID c) = Some p"
      "providers (Provider c) = Some p" by auto
    have "p_UUID p = Provider c" using assms(1) p(2) by (simp add: registry_ok_def)
    then have "attemptID (p, Model c) = ServiceID c" by (simp add: attemptID_def ServiceID_def)
    moreover have "ServiceID c = ServiceID d" "Provider c = Provider d" using that(2) by auto
    moreover from that(1) have "d \<in> set (GetActiveServices now rule)" "ServiceID d \<notin> set excluded"
      by (auto simp: fallbackCandidates_set)
    ultimately show ?thesis using p by (auto simp: untried_def GetActiveServices_def)
  qed
  have U: "untried providers rule (set excluded) \<noteq> {}" using False fallback_none by blast
  have sel: "\<exists>c w'. selectFallbackService now providers rule excluded [] w =
        Some (Inr (map_of (rev (map (\<lambda>(svc, p). (ServiceID svc, p)) ?cs)) (ServiceID c), Some c), w') \<and>
        (\<exists>d\<in>set (map fst ?cs). c = d \<or> c = InitializeStats now d)"
  proof (cases "Tactic_Instantiate (Some (LBTactic rule))")
    case (TierTactic inner)
    have ne: "GetActiveServices now ?rule \<noteq> []" using False act by (simp add: GetActiveServices_def)
    from TierTactic_select [OF ne, of inner "w_breakers w" "w_rand w"] obtain c st' rs' where
      "TierTactic_selectService now inner ?rule True (w_breakers w) (w_rand w) = Some (Some c, st', rs')"
      "c \<in> set (GetActiveServices now ?rule)" by blast
    with TierTactic False act show ?thesis
      by (auto simp: selectFallbackService_def Let_def GetActiveServices_def)
  next
    case (Flat f)
    then have "tactic_GetType (Tactic_Instantiate (Some (LBTactic rule))) \<noteq> TacticTier"
      by (cases f) (simp_all add: TacticRandom_def TacticSpeedBased_def TacticCapacityBased_def TacticTier_def)
    moreover have "filter Active (Services ?rule) \<noteq> []" using act False by simp
    from lb_select_result [OF this, of now w] healthyPool_facts(2) [OF this, of now w] obtain c w' where
      "LB_SelectService now (Some ?rule) w = Some (Inr c, w')"
      "\<exists>d\<in>set (map fst ?cs). c = d \<or> c = InitializeStats now d" by fastforce
    ultimately show ?thesis using False by (auto simp: selectFallbackService_def Let_def)
  qed
  then obtain c w' d where
    s: "selectFallbackService now providers rule excluded [] w =
        Some (Inr (map_of (rev (map (\<lambda>(svc, p). (ServiceID svc, p)) ?cs)) (ServiceID c), Some c), w')"
    and d: "d \<in> set (map fst ?cs)" "c = d \<or> c = InitializeStats now d" by blast
  with pick [OF d] U show ?thesis by auto
qed

section \<open>The whole dispatch\<close>

definition calls_at :: "dispatchAttempt \<Rightarrow> (Provider \<times> string) list \<Rightarrow> nat \<Rightarrow> gate_call list" where
  "calls_at attempt trail j = a_calls (attempt j (fst (trail ! j)) (snd (trail ! j)))"

text \<open>One iteration: it stops on a committed or terminal response.\<close>

lemma failoverLoop_stops:
  assumes "\<not> retryable (a_calls (attempt i p m))"
  shows "\<exists>w'. failoverLoop providers rule attempt (Suc n) i tried p m w (newFirstChunkGate R) =
     Some (w', on_wire R (gated (a_calls (attempt i p m))), tried @ [(p, m)])"
  using assms by (auto simp: Let_def gate_run_new retryable_def)

text \<open>On a retryable one it goes on with an untried service, with a fresh gate, if there is one.\<close>

lemma failoverLoop_retries:
  assumes "registry_ok providers" and "slash_free rule" and "retryable (a_calls (attempt i p m))"
  shows "\<exists>w'. if untried providers rule (attemptID ` set (tried @ [(p, m)])) = {}
     then failoverLoop providers rule attempt (Suc n) i tried p m w (newFirstChunkGate R) =
            Some (w', on_wire R (gated (a_calls (attempt i p m))), tried @ [(p, m)])
     else \<exists>np nm. attemptID (np, nm) \<in> untried providers rule (attemptID ` set (tried @ [(p, m)])) \<and>
            failoverLoop providers rule attempt (Suc n) i tried p m w (newFirstChunkGate R) =
            failoverLoop providers rule attempt n (Suc i) (tried @ [(p, m)]) np nm w' (newFirstChunkGate R)"
proof -
  let ?tr = "tried @ [(p, m)]" and ?out = "attempt i p m"
  let ?g = "on_wire R (gated (a_calls ?out))"
  let ?now = "a_now ?out" and ?id = "FormatServiceID (p_UUID p) m"
  define w2 where "w2 = reportUpstreamStatus ?now ?id (status ?g) (a_effect ?out w)"
  define w3 where "w3 = w2\<lparr>w_breakers := Store_RecordFailure ?now (UUID rule) ?id (w_breakers w2)\<rparr>"
  have step: "failoverLoop providers rule attempt (Suc n) i tried p m w (newFirstChunkGate R) =
      (case selectFallbackService ?now providers rule (map attemptID ?tr) [] w3 of
         None \<Rightarrow> None
       | Some (Inl e, w4) \<Rightarrow> Some (w4, ?g, ?tr)
       | Some (Inr (Some np, Some ns), w4) \<Rightarrow>
           failoverLoop providers rule attempt n (Suc i) ?tr np (Model ns) w4 (gate_Discard ?g)
       | Some (Inr _, w4) \<Rightarrow> Some (w4, ?g, ?tr))"
    using assms(3) by (simp add: Let_def gate_run_new retryable_def w2_def w3_def)
  have ids: "set (map attemptID ?tr) = attemptID ` set ?tr" by simp
  note sf = selectFallback_result [OF assms(1,2), of "map attemptID ?tr" ?now w3, unfolded ids]
  show ?thesis
  proof (cases "untried providers rule (attemptID ` set ?tr) = {}")
    case True
    with sf obtain w4 where
      "selectFallbackService ?now providers rule (map attemptID ?tr) [] w3 = Some (Inr (None, None), w4)" by auto
    then show ?thesis unfolding step if_P [OF True] by (intro exI [of _ w4]) simp
  next
    case False
    with sf obtain w4 np ns where
      "selectFallbackService ?now providers rule (map attemptID ?tr) [] w3 = Some (Inr (Some np, Some ns), w4)"
      "attemptID (np, Model ns) \<in> untried providers rule (attemptID ` set ?tr)" by auto
    with retry_gate [OF assms(3), of R] show ?thesis unfolding step if_not_P [OF False] by auto
  qed
qed

text \<open>
  A trail of attempts: distinct services of the rule, all but the last answered retryably, and the
  last one final unless every service with a known provider was tried.
\<close>

definition good_trail :: "(string \<Rightarrow> Provider option) \<Rightarrow> Rule \<Rightarrow> dispatchAttempt \<Rightarrow> (Provider \<times> string) list \<Rightarrow> bool" where
  "good_trail providers rule attempt trail \<longleftrightarrow>
     distinct (map attemptID trail) \<and> attemptID ` set trail \<subseteq> activeIDs rule \<and>
     (\<forall>j < length trail - 1. retryable (calls_at attempt trail j)) \<and>
     (retryable (calls_at attempt trail (length trail - 1)) \<longrightarrow>
        untried providers rule (attemptID ` set trail) = {})"

lemma untried_active: "untried providers rule X \<subseteq> activeIDs rule - X"
  by (auto simp: untried_def activeIDs_def)

lemma trail_room:
  assumes "distinct (map attemptID trail)" and "attemptID ` set trail \<subseteq> activeIDs rule"
  shows "length trail \<le> card (activeIDs rule)"
proof -
  have "finite (activeIDs rule)" by (simp add: activeIDs_def)
  from card_mono [OF this assms(2)] distinct_card [OF assms(1)] show ?thesis by simp
qed

lemma failoverLoop_result:
  assumes "registry_ok providers" and "slash_free rule"
    and "distinct (map attemptID (tried @ [(p, m)]))" and "attemptID ` set (tried @ [(p, m)]) \<subseteq> activeIDs rule"
    and "card (activeIDs rule) \<le> n + length tried"
    and "\<forall>j < length tried. retryable (calls_at attempt (tried @ [(p, m)]) j)"
  shows "\<exists>w' trail. failoverLoop providers rule attempt n (length tried) tried p m w (newFirstChunkGate R) =
      Some (w', on_wire R (gated (calls_at attempt trail (length trail - 1))), trail) \<and>
      take (Suc (length tried)) trail = tried @ [(p, m)] \<and> good_trail providers rule attempt trail"
  using assms(3-6)
proof (induction n arbitrary: tried p m w)
  case 0
  with trail_room [OF 0(1,2)] show ?case by simp
next
  case (Suc n)
  let ?tr = "tried @ [(p, m)]" and ?out = "attempt (length tried) p m"
  have at_last: "calls_at attempt ?tr (length tried) = a_calls ?out" by (simp add: calls_at_def)
  have stop: ?case
    if "failoverLoop providers rule attempt (Suc n) (length tried) tried p m w (newFirstChunkGate R) =
          Some (w', on_wire R (gated (a_calls ?out)), ?tr)"
      and "retryable (a_calls ?out) \<longrightarrow> untried providers rule (attemptID ` set ?tr) = {}" for w'
    using that Suc.prems by (intro exI [of _ w'] exI [of _ ?tr]) (simp add: at_last good_trail_def)
  show ?case
  proof (cases "retryable (a_calls ?out)")
    case False
    with failoverLoop_stops [where attempt = attempt and i = "length tried" and p = p and m = m, OF False] stop show ?thesis by blast
  next
    case True
    note rt = failoverLoop_retries [where attempt = attempt and i = "length tried" and p = p and m = m
        and tried = tried and n = n and w = w and R = R, OF assms(1,2) True]
    show ?thesis
    proof (cases "untried providers rule (attemptID ` set ?tr) = {}")
      case empty: True
      from rt obtain w' where
        "failoverLoop providers rule attempt (Suc n) (length tried) tried p m w (newFirstChunkGate R) =
          Some (w', on_wire R (gated (a_calls ?out)), ?tr)"
        unfolding if_P [OF empty] by blast
      with empty stop show ?thesis by blast
    next
      case False
      with rt obtain w4 np nm where new: "attemptID (np, nm) \<in> untried providers rule (attemptID ` set ?tr)"
        and go: "failoverLoop providers rule attempt (Suc n) (length tried) tried p m w (newFirstChunkGate R) =
          failoverLoop providers rule attempt n (length ?tr) ?tr np nm w4 (newFirstChunkGate R)"
        by auto
      have ids: "attemptID (np, nm) \<in> activeIDs rule" "attemptID (np, nm) \<notin> attemptID ` set ?tr"
        using new untried_active by blast+
      have prev: "\<forall>j<length ?tr. retryable (calls_at attempt (?tr @ [(np, nm)]) j)"
        using Suc.prems(4) True by (auto simp: calls_at_def nth_append less_Suc_eq)
      have "distinct (map attemptID (?tr @ [(np, nm)]))" "attemptID ` set (?tr @ [(np, nm)]) \<subseteq> activeIDs rule"
        using Suc.prems(1,2) ids by auto
      from Suc.IH [OF this _ prev, of w4] Suc.prems(3) obtain w' trail where r:
        "failoverLoop providers rule attempt n (length ?tr) ?tr np nm w4 (newFirstChunkGate R) =
           Some (w', on_wire R (gated (calls_at attempt trail (length trail - 1))), trail)"
        "take (Suc (length ?tr)) trail = ?tr @ [(np, nm)]" "good_trail providers rule attempt trail" by auto
      have "take (Suc (length tried)) trail = ?tr"
        using arg_cong [OF r(2), of "take (Suc (length tried))"] by (simp add: min_def)
      with r go show ?thesis by auto
    qed
  qed
qed

lemma active_card: "card (activeIDs rule) \<le> length (GetActiveServices now rule)"
proof -
  have "activeIDs rule = set (map ServiceID (GetActiveServices now rule))"
    by (auto simp: activeIDs_def GetActiveServices_def)
  then show ?thesis using card_length [of "map ServiceID (GetActiveServices now rule)"] by simp
qed

text \<open>
  C1 (safety): mid-request failover over the rule's own services.  The dispatch always returns;
  the client receives, after what was already on the wire, the response of exactly one attempt,
  the last one, and nothing of the others; no service is tried twice; an attempt is only
  abandoned when it had sent nothing and failed with a retryable status; and a retryable failure
  reaches the client only when every active service with a known provider was tried.
\<close>

theorem failover_single_response:
  assumes "registry_ok providers" and "slash_free rule"
    and "length (GetActiveServices now rule) > 1" and "attemptID (p, m) \<in> activeIDs rule"
  shows "\<exists>w' trail. DispatchWithPriorityFailover now providers rule p m attempt w R =
      Some (w', R @ response (calls_at attempt trail (length trail - 1)), trail) \<and>
      hd trail = (p, m) \<and> trail \<noteq> [] \<and> good_trail providers rule attempt trail"
proof -
  from failoverLoop_result [OF assms(1,2), of "[]" p m "length (GetActiveServices now rule)" attempt w R]
  obtain w' trail where r:
    "failoverLoop providers rule attempt (length (GetActiveServices now rule)) 0 [] p m w (newFirstChunkGate R) =
       Some (w', on_wire R (gated (calls_at attempt trail (length trail - 1))), trail)"
    "take 1 trail = [(p, m)]" "good_trail providers rule attempt trail"
    using assms(4) active_card by auto
  from r(2) have "trail \<noteq> []" "hd trail = (p, m)" by (cases trail; simp)+
  with r(1,3) assms(3) show ?thesis
    by (simp add: DispatchWithPriorityFailover_def Let_def response_on_wire)
qed

lemma samplePair_members: "{s \<in> set (Services (sampleRule samplePair)). Active s} = {sampleService ''b'' 1, sampleService ''a'' 0}"
  by (auto simp: sampleRule_def samplePair_def sampleService_def)

lemma samplePair_active: "activeIDs (sampleRule samplePair) = {FormatServiceID ''p'' ''b'', FormatServiceID ''p'' ''a''}"
  unfolding activeIDs_def samplePair_members by (simp add: sampleService_def ServiceID_def)

definition sampleProviders :: "string \<Rightarrow> Provider option" where
  "sampleProviders i = Some \<lparr>p_UUID = i, p_Name = ''p'', Enabled = True, APIStyle = ''openai''\<rparr>"

definition sampleProvider :: Provider where
  "sampleProvider = \<lparr>p_UUID = ''p'', p_Name = ''p'', Enabled = True, APIStyle = ''openai''\<rparr>"

definition failingAttempt :: dispatchAttempt where
  "failingAttempt i p m = \<lparr>a_calls = [Call (WriteHeader 500), Call (Write ''e'')], a_now = 7, a_effect = id\<rparr>"

lemma failing_retryable: "retryable (a_calls (failingAttempt i p m))"
  by (simp add: retryable_def gated_def failingAttempt_def newFirstChunkGate_def gate_defs
      isRetryableStatus_def retryableUpstreamStatuses_def)

theorem failover_single_response_witness:
  "\<exists>w' trail. DispatchWithPriorityFailover 7 sampleProviders (sampleRule samplePair) sampleProvider ''b''
       failingAttempt sampleWorld [] = Some (w', response (calls_at failingAttempt trail (length trail - 1)), trail) \<and>
     good_trail sampleProviders (sampleRule samplePair) failingAttempt trail"
proof -
  have "registry_ok sampleProviders" "slash_free (sampleRule samplePair)"
    "length (GetActiveServices 7 (sampleRule samplePair)) > 1"
    by (simp_all add: registry_ok_def sampleProviders_def slash_free_def sampleRule_def samplePair_def
        sampleService_def GetActiveServices_def)
  moreover have "attemptID (sampleProvider, ''b'') \<in> activeIDs (sampleRule samplePair)"
    by (simp add: attemptID_def samplePair_active sampleProvider_def)
  ultimately show ?thesis
    using failover_single_response [of sampleProviders "sampleRule samplePair" 7 sampleProvider "''b''"
        failingAttempt sampleWorld "[]"] by auto
qed

section \<open>Two defects\<close>

text \<open>
  When the request was first routed to a service outside the rule's own list, as smart routing
  does for a service of a content partition, the loop's counter runs out early: one service of
  the rule is never tried, the last attempt's error is discarded and the client gets nothing.
\<close>

lemma failover_outside_rule_drops_response:
  assumes "registry_ok providers" and "slash_free rule" and "length (GetActiveServices now rule) = 2"
    and "card (untried providers rule {}) = 2" and "attemptID (p, m) \<notin> activeIDs rule"
    and "\<And>i p m. retryable (a_calls (attempt i p m))"
  shows "\<exists>w' trail. DispatchWithPriorityFailover now providers rule p m attempt w R = Some (w', R, trail) \<and>
           untried providers rule (attemptID ` set trail) \<noteq> {}"
proof -
  have U: "untried providers rule X = untried providers rule {} - X" for X by (auto simp: untried_def)
  obtain a b where ab: "untried providers rule {} = {a, b}" "a \<noteq> b" using assms(4) by (meson card_2_iff)
  have out: "attemptID (p, m) \<notin> {a, b}" using assms(5) ab(1) untried_active [of providers rule "{}"] by auto
  from failoverLoop_retries [where attempt = attempt, OF assms(1,2,6), where n = 1 and tried = "[]" and i = 0 and p = p and m = m
      and w = w and R = R] obtain w1 np nm where 1:
    "attemptID (np, nm) \<in> {a, b}"
    "failoverLoop providers rule attempt 2 0 [] p m w (newFirstChunkGate R) =
     failoverLoop providers rule attempt 1 1 [(p, m)] np nm w1 (newFirstChunkGate R)"
    using out unfolding U [of "attemptID ` _"] ab by (auto simp: numeral_2_eq_2 split: if_splits)
  have left: "untried providers rule (attemptID ` set ([(p, m)] @ [(np, nm)])) \<noteq> {}"
    unfolding U [of "attemptID ` _"] ab using 1(1) out ab(2) by auto
  with failoverLoop_retries [where attempt = attempt, OF assms(1,2,6), where n = 0 and tried = "[(p, m)]" and i = 1 and p = np and m = nm
      and w = w1 and R = R] obtain w2 where
    "failoverLoop providers rule attempt 1 1 [(p, m)] np nm w1 (newFirstChunkGate R) =
       Some (w2, newFirstChunkGate R, [(p, m)] @ [(np, nm)])" by auto
  with 1(2) left assms(3) show ?thesis
    by (auto simp: DispatchWithPriorityFailover_def Let_def gate_CommitIfBuffered_def newFirstChunkGate_def)
qed

text \<open>
  Unlike the selection pipeline, the fallback does not ask whether the provider is enabled.
\<close>

lemma fallback_uses_disabled_provider:
  assumes "providers = (\<lambda>i. Some \<lparr>p_UUID = i, p_Name = ''p'', Enabled = False, APIStyle = ''openai''\<rparr>)"
  shows "\<exists>p svc w'. selectFallbackService 7 providers (sampleRule samplePair) [] [] w =
           Some (Inr (Some p, Some svc), w') \<and> \<not> Enabled p"
proof -
  have ok: "registry_ok providers" "slash_free (sampleRule samplePair)"
    by (simp_all add: registry_ok_def assms slash_free_def sampleRule_def samplePair_def sampleService_def)
  have "untried providers (sampleRule samplePair) (set []) \<noteq> {}"
    using samplePair_members by (auto simp: untried_def assms)
  with selectFallback_result [OF ok, of "[]" 7 w] obtain p svc w' where
    s: "selectFallbackService 7 providers (sampleRule samplePair) [] [] w = Some (Inr (Some p, Some svc), w')"
    by auto
  moreover have "\<not> Enabled p"
    using s map_of_SomeD
    by (fastforce simp: selectFallbackService_def Let_def fallbackCandidates_set assms
        split: if_splits option.splits prod.splits sum.splits dest!: map_of_SomeD)
  ultimately show ?thesis by blast
qed

end
