(* ===== verification/TB_Rules.thy ===== *)
theory TB_Rules
  imports TB_Prelude TB_Service TB_SmartRouting TB_Tactics TB_Selector
begin

text \<open>
  The rule store of \<^verbatim>\<open>internal/config/rule.go\<close>: adding, updating, deleting and matching rules,
  with the checks every write goes through (service references, smart-routing operations,
  extra headers of \<^verbatim>\<open>internal/typ/extra_headers.go\<close>, capture points of
  \<^verbatim>\<open>internal/typ/recording.go\<close>, tier normalisation).

  A stored rule is the routing rule with its flags.  Of the flags, those the store reads are
  fields; the others are one opaque value, empty when all of them have their zero value.
  Writing the configuration file is a parameter that may fail; the identifier
  \<^verbatim>\<open>GenerateUUID\<close> would hand out is an argument of the operations that may need one.
\<close>

section \<open>Capture points\<close>

abbreviation "RecordClientRequest \<equiv> ''client_request''"
abbreviation "RecordUpstreamRequest \<equiv> ''upstream_request''"
abbreviation "RecordUpstreamResponse \<equiv> ''upstream_response''"
abbreviation "RecordFinalResponse \<equiv> ''final_response''"

definition AllRecordingPoints :: "string list" where
  "AllRecordingPoints =
     [RecordClientRequest, RecordUpstreamRequest, RecordUpstreamResponse, RecordFinalResponse]"

definition legacyRecordingModes :: "string \<Rightarrow> string list option" where
  "legacyRecordingModes tok =
     (if tok = ''request'' then Some [RecordUpstreamRequest]
      else if tok = ''request_response'' then Some [RecordUpstreamRequest, RecordFinalResponse]
      else if tok = ''staged_request_response''
      then Some [RecordClientRequest, RecordUpstreamRequest, RecordFinalResponse]
      else None)"

definition isKnownRecordingPoint :: "string \<Rightarrow> bool" where
  "isKnownRecordingPoint p \<longleftrightarrow>
     p = RecordClientRequest \<or> p = RecordUpstreamRequest \<or> p = RecordUpstreamResponse \<or> p = RecordFinalResponse"

text \<open>\<^verbatim>\<open>strings.Split\<close> at a single byte.\<close>

fun Split :: "string \<Rightarrow> char \<Rightarrow> string list" where
  "Split [] sep = [[]]"
| "Split (c # cs) sep =
     (if c = sep then [] # Split cs sep
      else (case Split cs sep of [] \<Rightarrow> [[c]] | p # ps \<Rightarrow> (c # p) # ps))"

definition tokenPoints :: "string \<Rightarrow> string list" where
  "tokenPoints rawTok =
     (let tok = TrimSpace rawTok in
      if tok = [] then []
      else (case legacyRecordingModes tok of
              Some pts \<Rightarrow> pts
            | None \<Rightarrow> if isKnownRecordingPoint tok then [tok] else []))"

definition ParseRecordingMode :: "string \<Rightarrow> string" where
  "ParseRecordingMode raw =
     (let seen = concat (map tokenPoints (Split raw CHR '','')) in
      if seen = [] then []
      else Join (filter (\<lambda>p. p \<in> set seen) AllRecordingPoints) '','')"

definition Recording_Has :: "string \<Rightarrow> string \<Rightarrow> bool" where
  "Recording_Has m p =
     (if m = [] then False else Contains ('','' @ ParseRecordingMode m @ '','') ('','' @ p @ '',''))"

definition Recording_Enabled :: "string \<Rightarrow> bool" where
  "Recording_Enabled m \<longleftrightarrow> ParseRecordingMode m \<noteq> []"

definition IsValidRecordingMode :: "string \<Rightarrow> bool" where
  "IsValidRecordingMode mode =
     (TrimSpace mode = [] \<or>
      (\<forall>rawTok \<in> set (Split mode CHR '','').
         let tok = TrimSpace rawTok in
         tok = [] \<or> legacyRecordingModes tok \<noteq> None \<or> isKnownRecordingPoint tok))"

definition EffectiveRecording :: "string option \<Rightarrow> string option \<Rightarrow> string" where
  "EffectiveRecording rule scenario =
     (let fromScenario = (case scenario of Some s \<Rightarrow> ParseRecordingMode s | None \<Rightarrow> [])
      in case rule of
           Some r \<Rightarrow> (let m = ParseRecordingMode r in if m \<noteq> [] then m else fromScenario)
         | None \<Rightarrow> fromScenario)"

section \<open>Extra headers\<close>

text \<open>
  \<^verbatim>\<open>textproto.CanonicalMIMEHeaderKey\<close>: a token is capitalised after its start and after each
  hyphen and lower-cased elsewhere; any other text is left alone.
\<close>

definition validHeaderFieldByte :: "char \<Rightarrow> bool" where
  "validHeaderFieldByte c =
     (let n = (of_char c :: nat) in
      48 \<le> n \<and> n \<le> 57 \<or> 65 \<le> n \<and> n \<le> 90 \<or> 97 \<le> n \<and> n \<le> 122 \<or>
      n \<in> {33, 35, 36, 37, 38, 39, 42, 43, 45, 46, 94, 95, 96, 124, 126})"

fun canonicalFrom :: "bool \<Rightarrow> string \<Rightarrow> string" where
  "canonicalFrom upper [] = []"
| "canonicalFrom upper (c # cs) =
     (let c' = (if upper then upper_char c else lower_char c) in c' # canonicalFrom (c' = CHR ''-'') cs)"

definition CanonicalMIMEHeaderKey :: "string \<Rightarrow> string" where
  "CanonicalMIMEHeaderKey s = (if \<forall>c\<in>set s. validHeaderFieldByte c then canonicalFrom True s else s)"

text \<open>The checks of \<^verbatim>\<open>golang.org/x/net/http/httpguts\<close>.\<close>

record header_ext =
  ValidHeaderFieldName :: "string \<Rightarrow> bool"
  ValidHeaderFieldValue :: "string \<Rightarrow> bool"

definition ValidateExtraHeaders :: "header_ext \<Rightarrow> (string \<times> string) list \<Rightarrow> bool" where
  "ValidateExtraHeaders ext headers \<longleftrightarrow>
     (\<forall>(name, value) \<in> set headers.
        name \<noteq> [] \<and> ValidHeaderFieldName ext name \<and> ValidHeaderFieldValue ext value) \<and>
     distinct (map (\<lambda>(name, value). CanonicalMIMEHeaderKey name) headers)"

definition CanonicalizeExtraHeaders :: "(string \<times> string) list \<Rightarrow> (string \<times> string) list" where
  "CanonicalizeExtraHeaders headers =
     fold (\<lambda>(name, value) out. AList.update (CanonicalMIMEHeaderKey name) value out) headers []"

section \<open>Rules and the store\<close>

record RuleFlags =
  CursorCompat :: bool
  CleanHeader :: bool
  ClaudeCodeCompat :: bool
  Context1M :: bool
  ExtraHeaders :: "(string \<times> string) list"
  Recording :: string
  OtherFlags :: string

record ConfigRule =
  cr_Rule :: Rule
  Flags :: RuleFlags

record Config =
  Rules :: "ConfigRule list"
  providerStore :: "(string \<Rightarrow> Provider option) option"

datatype cfg_error =
    NonExistentProvider string
  | DisabledProvider string
  | InvalidSmartOp nat nat op_error
  | InvalidExtraHeaders
  | InvalidRecording string
  | NameTaken string
  | UUIDTaken string
  | RuleNotFound string
  | SaveFailed string

record cfg_ext =
  smart :: smart_ext
  headers :: header_ext
  save :: "Config \<Rightarrow> string option"

definition cr_UUID :: "ConfigRule \<Rightarrow> string" where "cr_UUID r = UUID (cr_Rule r)"
definition cr_name :: "ConfigRule \<Rightarrow> string \<times> string" where
  "cr_name r = (RequestModel (cr_Rule r), Scenario (cr_Rule r))"

definition Save :: "cfg_ext \<Rightarrow> Config \<Rightarrow> cfg_error option \<times> Config" where
  "Save ext c = (map_option SaveFailed (save ext c), c)"

definition Flags_IsZero :: "ConfigRule \<Rightarrow> bool" where
  "Flags_IsZero r \<longleftrightarrow> SessionAffinity (cr_Rule r) = 0 \<and>
     Flags r = \<lparr>CursorCompat = False, CleanHeader = False, ClaudeCodeCompat = False, Context1M = False,
                ExtraHeaders = [], Recording = [], OtherFlags = []\<rparr>"

definition ensureRuleUUID :: "string \<Rightarrow> ConfigRule \<Rightarrow> ConfigRule" where
  "ensureRuleUUID newUUID r =
     (if cr_UUID r = [] then r\<lparr>cr_Rule := (cr_Rule r)\<lparr>UUID := newUUID\<rparr>\<rparr> else r)"

definition applyScenarioCreateDefaults :: "ConfigRule \<Rightarrow> ConfigRule" where
  "applyScenarioCreateDefaults r =
     (let r1 = (if Scenario_Is (Scenario (cr_Rule r)) ''team'' \<and> Flags_IsZero r
                then r\<lparr>Flags := (Flags r)\<lparr>ClaudeCodeCompat := True, CleanHeader := True\<rparr>\<rparr> else r)
      in if Scenario_Is (Scenario (cr_Rule r1)) ''cursor'' \<and> Flags_IsZero r1
         then r1\<lparr>Flags := (Flags r1)\<lparr>CursorCompat := True\<rparr>\<rparr> else r1)"

definition ruleServices :: "ConfigRule \<Rightarrow> Service list" where
  "ruleServices r = Services (cr_Rule r) @ concat (map sr_Services (rule_SmartRouting (cr_Rule r)))"

text \<open>
  References the persisted rule already carries are grandfathered; every other one needs an
  existing, enabled provider.
\<close>

definition checkService :: "(string \<Rightarrow> Provider option) \<Rightarrow> string set \<Rightarrow> Service \<Rightarrow> cfg_error option" where
  "checkService providers grandfathered svc =
     (if ServiceID svc \<in> grandfathered then None
      else (case providers (Provider svc) of
              None \<Rightarrow> Some (NonExistentProvider (Provider svc))
            | Some p \<Rightarrow> if \<not> Enabled p then Some (DisabledProvider (Provider svc)) else None))"

fun firstError :: "('a \<Rightarrow> 'e option) \<Rightarrow> 'a list \<Rightarrow> 'e option" where
  "firstError f [] = None"
| "firstError f (x # xs) = (case f x of Some e \<Rightarrow> Some e | None \<Rightarrow> firstError f xs)"

definition validateRuleServices :: "Config \<Rightarrow> ConfigRule \<Rightarrow> ConfigRule option \<Rightarrow> cfg_error option" where
  "validateRuleServices c r existing =
     (case providerStore c of
        None \<Rightarrow> None
      | Some providers \<Rightarrow>
          let grandfathered = (case existing of None \<Rightarrow> {} | Some e \<Rightarrow> ServiceID ` set (ruleServices e))
          in firstError (checkService providers grandfathered) (ruleServices r))"

definition validateSmartRoutingRules :: "smart_ext \<Rightarrow> ConfigRule \<Rightarrow> cfg_error option" where
  "validateSmartRoutingRules ext r =
     (if \<not> SmartEnabled (cr_Rule r) then None
      else firstError (\<lambda>(i, rule).
             firstError (\<lambda>(j, op). map_option (InvalidSmartOp i j) (ValidateSmartOp ext op))
               (List.enumerate 0 (Ops rule)))
             (List.enumerate 0 (rule_SmartRouting (cr_Rule r))))"

definition validateRuleExtraHeaders :: "header_ext \<Rightarrow> ConfigRule \<Rightarrow> cfg_error + ConfigRule" where
  "validateRuleExtraHeaders ext r =
     (if \<not> ValidateExtraHeaders ext (ExtraHeaders (Flags r)) then Inl InvalidExtraHeaders
      else Inr (r\<lparr>Flags := (Flags r)\<lparr>ExtraHeaders := CanonicalizeExtraHeaders (ExtraHeaders (Flags r))\<rparr>\<rparr>))"

definition validateAndNormalizeRuleRecording :: "ConfigRule \<Rightarrow> cfg_error + ConfigRule" where
  "validateAndNormalizeRuleRecording r =
     (if \<not> IsValidRecordingMode (Recording (Flags r)) then Inl (InvalidRecording (Recording (Flags r)))
      else Inr (r\<lparr>Flags := (Flags r)\<lparr>Recording := ParseRecordingMode (Recording (Flags r))\<rparr>\<rparr>))"

definition normalizePool :: "Service list \<Rightarrow> Service list" where
  "normalizePool svcs = map the (snd (NormalizeServiceTiers (map Some svcs)))"

definition normalizeRuleServiceTiers :: "ConfigRule \<Rightarrow> ConfigRule" where
  "normalizeRuleServiceTiers r =
     r\<lparr>cr_Rule := (cr_Rule r)\<lparr>Services := normalizePool (Services (cr_Rule r)),
        rule_SmartRouting := map (\<lambda>sr. sr\<lparr>sr_Services := normalizePool (sr_Services sr)\<rparr>)
                               (rule_SmartRouting (cr_Rule r))\<rparr>\<rparr>"

text \<open>The checks and normalisations \<^verbatim>\<open>AddRule\<close> and \<^verbatim>\<open>UpdateRule\<close> share.\<close>

definition validateRule :: "cfg_ext \<Rightarrow> Config \<Rightarrow> ConfigRule \<Rightarrow> ConfigRule option \<Rightarrow> cfg_error + ConfigRule" where
  "validateRule ext c r existing =
     (case validateRuleServices c r existing of
        Some e \<Rightarrow> Inl e
      | None \<Rightarrow>
          (case validateSmartRoutingRules (smart ext) r of
             Some e \<Rightarrow> Inl e
           | None \<Rightarrow>
               (case validateRuleExtraHeaders (headers ext) r of
                  Inl e \<Rightarrow> Inl e
                | Inr r1 \<Rightarrow>
                    (case validateAndNormalizeRuleRecording r1 of
                       Inl e \<Rightarrow> Inl e
                     | Inr r2 \<Rightarrow> Inr (normalizeRuleServiceTiers r2)))))"

definition AddRule :: "cfg_ext \<Rightarrow> string \<Rightarrow> ConfigRule \<Rightarrow> Config \<Rightarrow> cfg_error option \<times> Config" where
  "AddRule ext newUUID rule c =
     (case validateRule ext c (applyScenarioCreateDefaults (ensureRuleUUID newUUID rule)) None of
        Inl e \<Rightarrow> (Some e, c)
      | Inr r \<Rightarrow>
          if \<exists>rc \<in> set (Rules c). cr_name rc = cr_name r \<and> cr_UUID rc \<noteq> cr_UUID r
          then (Some (NameTaken (RequestModel (cr_Rule r))), c)
          else if \<exists>rc \<in> set (Rules c). cr_UUID rc = cr_UUID r then (Some (UUIDTaken (cr_UUID r)), c)
          else Save ext (c\<lparr>Rules := Rules c @ [r]\<rparr>))"

section \<open>Names with the context-window suffix\<close>

definition Context1MSuffix :: string where "Context1MSuffix = ''[1m]''"

definition TrimSuffix :: "string \<Rightarrow> string \<Rightarrow> string" where
  "TrimSuffix s suf = (if HasSuffix s suf then take (length s - length suf) s else s)"

definition TrimContext1M :: "string \<Rightarrow> string" where
  "TrimContext1M model = TrimSuffix model Context1MSuffix"

definition syncContext1MSuffix :: "string \<Rightarrow> bool \<Rightarrow> string" where
  "syncContext1MSuffix model enabled =
     (if model = [] then model
      else if enabled \<and> \<not> HasSuffix model Context1MSuffix then model @ Context1MSuffix
      else if \<not> enabled then TrimSuffix model Context1MSuffix
      else model)"

definition syncDesktopNames :: "ConfigRule \<Rightarrow> ConfigRule" where
  "syncDesktopNames r =
     (if Scenario_Is (Scenario (cr_Rule r)) ''claude_desktop''
      then r\<lparr>cr_Rule := (cr_Rule r)
               \<lparr>RequestModel := syncContext1MSuffix (RequestModel (cr_Rule r)) (Context1M (Flags r)),
                ResponseModel := syncContext1MSuffix (ResponseModel (cr_Rule r)) (Context1M (Flags r))\<rparr>\<rparr>
      else r)"

section \<open>Looking rules up\<close>

definition legacySimpleRuleUUIDs :: "string \<Rightarrow> string option" where
  "legacySimpleRuleUUIDs =
     map_of [(''tingly'', ''builtin:openai:default''),
             (''built-in-openai'', ''builtin:openai:default''),
             (''built-in-anthropic'', ''builtin:anthropic:default''),
             (''built-in-codex'', ''builtin:codex:default''),
             (''built-in-opencode'', ''builtin:opencode:default''),
             (''built-in-agent'', ''builtin:custom:default''),
             (''built-in-agent-claw'', ''builtin:custom:claw''),
             (''builtin:agent:default'', ''builtin:custom:default''),
             (''builtin:agent:claw'', ''builtin:custom:claw'')]"

definition GetRuleByUUID :: "string \<Rightarrow> Config \<Rightarrow> ConfigRule option" where
  "GetRuleByUUID u c = List.find (\<lambda>r. cr_UUID r = u) (Rules c)"

definition findRuleByUUID :: "string \<Rightarrow> Config \<Rightarrow> ConfigRule option" where
  "findRuleByUUID u c =
     GetRuleByUUID (case legacySimpleRuleUUIDs u of Some modern \<Rightarrow> modern | None \<Rightarrow> u) c"

definition GetRuleByRequestModelAndScenario :: "string \<Rightarrow> string \<Rightarrow> Config \<Rightarrow> ConfigRule option" where
  "GetRuleByRequestModelAndScenario model scenario c =
     List.find (\<lambda>r. cr_name r = (model, scenario)) (Rules c)"

definition IsWildcardRuleName :: "string \<Rightarrow> bool" where
  "IsWildcardRuleName name \<longleftrightarrow> name = ''*''"

definition MatchRuleByModelAndScenario :: "string \<Rightarrow> string \<Rightarrow> Config \<Rightarrow> ConfigRule option" where
  "MatchRuleByModelAndScenario requestModel scenario c =
     (case List.find (\<lambda>r. cr_name r = (requestModel, scenario)) (Rules c) of
        Some r \<Rightarrow> Some r
      | None \<Rightarrow>
          (let base = fst (ParseScenarioProfile scenario);
               want = TrimContext1M requestModel;
               trimmed = (if base = ''claude_code'' \<or> base = ''claude_desktop''
                          then List.find (\<lambda>r. TrimContext1M (RequestModel (cr_Rule r)) = want \<and>
                                 Scenario (cr_Rule r) = scenario) (Rules c)
                          else None)
           in case trimmed of
                Some r \<Rightarrow> Some r
              | None \<Rightarrow>
                  List.find (\<lambda>r. IsWildcardRuleName (RequestModel (cr_Rule r)) \<and>
                                 Scenario (cr_Rule r) = scenario) (Rules c)))"

section \<open>Updates and deletions\<close>

fun replaceFirst :: "('a \<Rightarrow> bool) \<Rightarrow> 'a \<Rightarrow> 'a list \<Rightarrow> 'a list option" where
  "replaceFirst P y [] = None"
| "replaceFirst P y (x # xs) = (if P x then Some (y # xs) else map_option ((#) x) (replaceFirst P y xs))"

definition UpdateRule :: "cfg_ext \<Rightarrow> string \<Rightarrow> ConfigRule \<Rightarrow> Config \<Rightarrow> cfg_error option \<times> Config" where
  "UpdateRule ext uid rule c =
     (case validateRule ext c (ensureRuleUUID uid rule) (findRuleByUUID uid c) of
        Inl e \<Rightarrow> (Some e, c)
      | Inr r1 \<Rightarrow>
          (let r = syncDesktopNames r1 in
           if \<exists>rc \<in> set (Rules c). cr_name rc = cr_name r \<and> cr_UUID rc \<noteq> cr_UUID r
           then (Some (NameTaken (RequestModel (cr_Rule r))), c)
           else (case replaceFirst (\<lambda>rc. cr_UUID rc = uid) r (Rules c) of
                   Some rs \<Rightarrow> Save ext (c\<lparr>Rules := rs\<rparr>)
                 | None \<Rightarrow> (None, c))))"

definition UpdateRequestConfigByUUID :: "cfg_ext \<Rightarrow> string \<Rightarrow> ConfigRule \<Rightarrow> Config \<Rightarrow> cfg_error option \<times> Config" where
  "UpdateRequestConfigByUUID ext u rule c =
     (case replaceFirst (\<lambda>rc. cr_UUID rc = u) (ensureRuleUUID u rule) (Rules c) of
        Some rs \<Rightarrow> Save ext (c\<lparr>Rules := rs\<rparr>)
      | None \<Rightarrow> (Some (RuleNotFound u), c))"

definition AddRequestConfig :: "cfg_ext \<Rightarrow> string \<Rightarrow> ConfigRule \<Rightarrow> Config \<Rightarrow> cfg_error option \<times> Config" where
  "AddRequestConfig ext newUUID rule c =
     (let r = ensureRuleUUID newUUID rule in
      if \<exists>rc \<in> set (Rules c). cr_UUID rc = cr_UUID r then (None, c)
      else Save ext (c\<lparr>Rules := Rules c @ [r]\<rparr>))"

text \<open>\<^verbatim>\<open>DeleteRule\<close> removes the last rule with the identifier.\<close>

definition DeleteRule :: "cfg_ext \<Rightarrow> string \<Rightarrow> Config \<Rightarrow> cfg_error option \<times> Config" where
  "DeleteRule ext u c =
     (case filter (\<lambda>i. cr_UUID (Rules c ! i) = u) [0..<length (Rules c)] of
        [] \<Rightarrow> (Some (RuleNotFound u), c)
      | is \<Rightarrow> (let index = last is in
                Save ext (c\<lparr>Rules := take index (Rules c) @ drop (Suc index) (Rules c)\<rparr>)))"

section \<open>Capture points are kept in a normal form\<close>

lemma Split_free: "sep \<notin> set s \<Longrightarrow> Split s sep = [s]"
  by (induction s) auto

lemma Split_append: "sep \<notin> set s \<Longrightarrow> Split (s @ sep # t) sep = s # Split t sep"
  by (induction s) auto

lemma Split_Join: "ps \<noteq> [] \<Longrightarrow> \<forall>p\<in>set ps. sep \<notin> set p \<Longrightarrow> Split (Join ps [sep]) sep = ps"
proof (induction ps rule: induct_list012)
  case (2 p)
  then show ?case by (simp add: Split_free)
next
  case (3 p q ps)
  then show ?case by (simp add: Split_append)
qed simp

lemma known_point_token: "p \<in> set AllRecordingPoints \<Longrightarrow> tokenPoints p = [p]"
  by (auto simp: AllRecordingPoints_def tokenPoints_def TrimSpace_def ascii_space_def legacyRecordingModes_def
      isKnownRecordingPoint_def)

lemma known_point_plain: "p \<in> set AllRecordingPoints \<Longrightarrow> CHR '','' \<notin> set p \<and> p \<noteq> []"
  by (auto simp: AllRecordingPoints_def)

definition points :: "string \<Rightarrow> string list" where
  "points raw = filter (\<lambda>p. p \<in> set (concat (map tokenPoints (Split raw CHR '','')))) AllRecordingPoints"

lemma tokenPoints_known: "set (tokenPoints t) \<subseteq> set AllRecordingPoints"
  by (auto simp: tokenPoints_def legacyRecordingModes_def isKnownRecordingPoint_def AllRecordingPoints_def Let_def
      split: option.splits if_splits)

lemma Join_Nil_iff: "\<forall>p\<in>set ps. p \<noteq> [] \<Longrightarrow> Join ps sep = [] \<longleftrightarrow> ps = []"
  by (induction ps sep rule: Join.induct) auto

lemma points_facts: "set (points raw) \<subseteq> set AllRecordingPoints"
  "set (points raw) = set (concat (map tokenPoints (Split raw CHR '','')))"
  using tokenPoints_known by (auto simp: points_def)

lemma ParseRecordingMode_points: "ParseRecordingMode raw = Join (points raw) '','' "
proof (cases "concat (map tokenPoints (Split raw CHR '','')) = []")
  case True
  then have "points raw = []" by (simp only: points_def) simp
  with True show ?thesis by (simp add: ParseRecordingMode_def)
next
  case False
  then show ?thesis by (simp only: ParseRecordingMode_def Let_def points_def if_False)
qed

lemma points_idem: "points (ParseRecordingMode raw) = points raw"
proof (cases "points raw = []")
  case True
  then show ?thesis by (simp add: ParseRecordingMode_points) (simp add: points_def tokenPoints_def TrimSpace_def)
next
  case False
  have "Split (Join (points raw) '','') CHR '','' = points raw"
    using Split_Join [OF False, of "CHR '',''"] known_point_plain points_facts(1) by blast
  moreover have "concat (map tokenPoints (points raw)) = points raw"
  proof -
    have "map tokenPoints (points raw) = map (\<lambda>p. [p]) (points raw)"
      using known_point_token points_facts(1) [of raw] by (intro map_cong) auto
    then show ?thesis by (simp only: concat_map_singleton) simp
  qed
  ultimately have "points (ParseRecordingMode raw) = filter (\<lambda>p. p \<in> set (points raw)) AllRecordingPoints"
    unfolding ParseRecordingMode_points points_def [of "Join _ _"] by (simp only:)
  also have "\<dots> = points raw" unfolding points_def [of raw] by (rule filter_cong) auto
  finally show ?thesis .
qed

lemma ParseRecordingMode_idem: "ParseRecordingMode (ParseRecordingMode raw) = ParseRecordingMode raw"
  by (simp add: ParseRecordingMode_points points_idem [unfolded ParseRecordingMode_points])

text \<open>Looking a point up in the normal form.\<close>

lemma Contains_skip_char: "sep \<notin> set q \<Longrightarrow> Contains (q @ s) (sep # t) = Contains s (sep # t)"
  by (induction q) (auto simp: HasPrefix_def)

lemma HasPrefix_framed:
  assumes "sep \<notin> set p" and "sep \<notin> set q"
  shows "HasPrefix (q @ sep # s) (p @ [sep]) \<longleftrightarrow> p = q"
proof
  assume "HasPrefix (q @ sep # s) (p @ [sep])"
  then have "q @ sep # s = (p @ [sep]) @ drop (length (p @ [sep])) (q @ sep # s)"
    by (metis HasPrefix_def append_take_drop_id)
  then have "q @ sep # s = p @ sep # drop (length (p @ [sep])) (q @ sep # s)" by simp
  from split_at_unique [OF this] assms show "p = q" by simp
qed (simp add: HasPrefix_def)

definition framed :: "string list \<Rightarrow> char \<Rightarrow> string" where
  "framed ps sep = concat (map (\<lambda>p. sep # p) ps) @ [sep]"

lemma framed_hd: "\<exists>t. framed ps sep = sep # t"
  by (cases ps) (simp_all add: framed_def)

lemma framed_Join: "ps \<noteq> [] \<Longrightarrow> sep # Join ps [sep] @ [sep] = framed ps sep"
  by (induction ps rule: induct_list012) (simp_all add: framed_def)

lemma Contains_framed:
  assumes "sep \<notin> set p" and "\<forall>q\<in>set ps. sep \<notin> set q"
  shows "Contains (framed ps sep) (sep # p @ [sep]) \<longleftrightarrow> p \<in> set ps"
  using assms(2)
proof (induction ps)
  case Nil
  show ?case by (simp add: framed_def HasPrefix_def)
next
  case (Cons q ps)
  obtain t where t: "framed ps sep = sep # t" using framed_hd by blast
  have "framed (q # ps) sep = sep # q @ framed ps sep" by (simp add: framed_def)
  moreover have "HasPrefix (sep # q @ framed ps sep) (sep # p @ [sep]) \<longleftrightarrow> p = q"
    using HasPrefix_framed [of sep p q t] assms(1) Cons.prems by (simp add: t HasPrefix_def)
  ultimately show ?case using Cons Contains_skip_char [of sep q "framed ps sep" "p @ [sep]"] by simp
qed

lemma Recording_Has_points:
  assumes "p \<in> set AllRecordingPoints"
  shows "Recording_Has raw p \<longleftrightarrow> p \<in> set (points raw)"
proof (cases "points raw = []")
  case True
  then show ?thesis by (simp add: Recording_Has_def ParseRecordingMode_points HasPrefix_def)
    (use assms in \<open>auto simp: AllRecordingPoints_def\<close>)
next
  case False
  then have "raw \<noteq> []" by (auto simp: points_def tokenPoints_def TrimSpace_def)
  moreover have "\<forall>q\<in>set (points raw). CHR '','' \<notin> set q" "CHR '','' \<notin> set p"
    using known_point_plain points_facts(1) assms by blast+
  ultimately show ?thesis
    using Contains_framed [of "CHR '',''" p "points raw"] framed_Join [OF False, of "CHR '',''"]
    by (simp add: Recording_Has_def ParseRecordingMode_points)
qed

text \<open>
  Storing a recording selection.  The stored text is a fixed point of the parser,
  selects exactly the capture points the tokens of the original text name, legacy modes included,
  and is empty exactly when none is named.
\<close>

theorem recording_normal_form:
  "ParseRecordingMode (ParseRecordingMode raw) = ParseRecordingMode raw \<and>
   filter (Recording_Has (ParseRecordingMode raw)) AllRecordingPoints =
     filter (\<lambda>p. p \<in> set (concat (map tokenPoints (Split raw CHR '','')))) AllRecordingPoints \<and>
   (Recording_Enabled raw \<longleftrightarrow> concat (map tokenPoints (Split raw CHR '','')) \<noteq> [])"
proof (intro conjI)
  show "ParseRecordingMode (ParseRecordingMode raw) = ParseRecordingMode raw" by (rule ParseRecordingMode_idem)
  have "filter (Recording_Has (ParseRecordingMode raw)) AllRecordingPoints =
      filter (\<lambda>p. p \<in> set (points raw)) AllRecordingPoints"
    using Recording_Has_points [of _ "ParseRecordingMode raw"] by (intro filter_cong refl) (simp add: points_idem)
  then show "filter (Recording_Has (ParseRecordingMode raw)) AllRecordingPoints =
      filter (\<lambda>p. p \<in> set (concat (map tokenPoints (Split raw CHR '','')))) AllRecordingPoints"
    by (simp only: points_facts(2))
  have "Recording_Enabled raw \<longleftrightarrow> points raw \<noteq> []"
    using Join_Nil_iff [of "points raw"] known_point_plain points_facts(1)
    by (simp add: Recording_Enabled_def ParseRecordingMode_points) blast
  then show "Recording_Enabled raw \<longleftrightarrow> concat (map tokenPoints (Split raw CHR '','')) \<noteq> []"
    using points_facts(2) [of raw] by (metis set_empty)
qed

section \<open>Canonical headers\<close>

lemma case_codes:
  "(of_char (upper_char c) :: nat) =
     (if 97 \<le> (of_char c :: nat) \<and> (of_char c :: nat) \<le> 122 then of_char c - 32 else of_char c)"
  "(of_char (lower_char c) :: nat) =
     (if 65 \<le> (of_char c :: nat) \<and> (of_char c :: nat) \<le> 90 then of_char c + 32 else of_char c)"
  using nat_of_char_less_256 [of c] by (auto simp: upper_char_def lower_char_def Let_def mod_less)

lemma char_eq_code: "c = d \<longleftrightarrow> (of_char c :: nat) = of_char d" for c d :: char
  by simp

lemma upper_lower_char [simp]:
  "upper_char (upper_char c) = upper_char c" "lower_char (lower_char c) = lower_char c"
  unfolding char_eq_code case_codes by (auto split: if_splits)

lemma hyphen_case [simp]: "upper_char c = CHR ''-'' \<longleftrightarrow> c = CHR ''-''" "lower_char c = CHR ''-'' \<longleftrightarrow> c = CHR ''-''"
proof -
  have h: "(of_char (CHR ''-'') :: nat) = 45" by simp
  show "upper_char c = CHR ''-'' \<longleftrightarrow> c = CHR ''-''" "lower_char c = CHR ''-'' \<longleftrightarrow> c = CHR ''-''"
    unfolding char_eq_code case_codes h by (auto split: if_splits)
qed

lemma valid_byte_case [simp]:
  "validHeaderFieldByte (upper_char c) = validHeaderFieldByte c"
  "validHeaderFieldByte (lower_char c) = validHeaderFieldByte c"
  unfolding validHeaderFieldByte_def Let_def case_codes by (simp_all split: if_splits) arith+

lemma canonicalFrom_facts:
  "canonicalFrom u (canonicalFrom u s) = canonicalFrom u s"
  "(\<forall>c\<in>set (canonicalFrom u s). validHeaderFieldByte c) \<longleftrightarrow> (\<forall>c\<in>set s. validHeaderFieldByte c)"
  by (induction s arbitrary: u) (simp_all add: Let_def)

lemma CanonicalMIMEHeaderKey_idem [simp]:
  "CanonicalMIMEHeaderKey (CanonicalMIMEHeaderKey s) = CanonicalMIMEHeaderKey s"
  by (simp add: CanonicalMIMEHeaderKey_def canonicalFrom_facts)

definition headers_canonical :: "(string \<times> string) list \<Rightarrow> bool" where
  "headers_canonical hs \<longleftrightarrow> distinct (map fst hs) \<and> (\<forall>n\<in>set (map fst hs). CanonicalMIMEHeaderKey n = n)"

lemma CanonicalizeExtraHeaders_canonical: "headers_canonical (CanonicalizeExtraHeaders hs)"
proof -
  have "headers_canonical (fold (\<lambda>(name, value) out. AList.update (CanonicalMIMEHeaderKey name) value out) hs out)"
    if "headers_canonical out" for out
    using that
  proof (induction hs arbitrary: out)
    case (Cons h hs)
    obtain n v where h: "h = (n, v)" by (cases h)
    from Cons.prems have "headers_canonical (AList.update (CanonicalMIMEHeaderKey n) v out)"
      by (auto simp: headers_canonical_def distinct_update update_keys)
    from Cons.IH [OF this] show ?case by (simp add: h)
  qed simp
  from this [of "[]"] show ?thesis
    unfolding CanonicalizeExtraHeaders_def by (simp add: headers_canonical_def)
qed

lemma Canonicalize_valid:
  assumes "distinct (map (\<lambda>(name, value). CanonicalMIMEHeaderKey name) hs)"
  shows "CanonicalizeExtraHeaders hs = map (\<lambda>(name, value). (CanonicalMIMEHeaderKey name, value)) hs"
proof -
  have "fold (\<lambda>(name, value) out. AList.update (CanonicalMIMEHeaderKey name) value out) hs out =
      out @ map (\<lambda>(name, value). (CanonicalMIMEHeaderKey name, value)) hs"
    if "distinct (map fst out @ map (\<lambda>(name, value). CanonicalMIMEHeaderKey name) hs)" for out
    using that
  proof (induction hs arbitrary: out)
    case (Cons h hs)
    obtain n v where h: "h = (n, v)" by (cases h)
    from Cons.prems have new: "CanonicalMIMEHeaderKey n \<notin> fst ` set out" by (auto simp: h)
    have "AList.update (CanonicalMIMEHeaderKey n) v out = out @ [(CanonicalMIMEHeaderKey n, v)]"
      using new by (induction out) auto
    with Cons.IH [of "out @ [(CanonicalMIMEHeaderKey n, v)]"] Cons.prems show ?case by (auto simp: h)
  qed simp
  from this [of "[]"] assms show ?thesis by (simp add: CanonicalizeExtraHeaders_def)
qed

section \<open>Every stored rule is well formed\<close>

definition tiers_ok :: "Service list \<Rightarrow> bool" where
  "tiers_ok svcs \<longleftrightarrow> fst (NormalizeServiceTiers (map Some svcs)) = False \<and> normalizePool svcs = svcs"

lemma normalizePool_ok: "tiers_ok (normalizePool svcs)"
proof -
  let ?n = "NormalizeServiceTiers (map Some svcs)"
  have "snd ?n = map (map_option (withRank (serviceTiers (map Some svcs)))) (map Some svcs)"
    by (simp only: NormalizeServiceTiers_def normalizeLoop_map)
  then have "map Some (map the (snd ?n)) = snd ?n" by simp
  moreover have "NormalizeServiceTiers (snd ?n) = (False, snd ?n)"
    by (rule normalized_fixed [of "map Some svcs" "fst ?n"]) simp
  ultimately show ?thesis by (simp add: tiers_ok_def normalizePool_def)
qed

lemma normalizePool_ids: "map ServiceID (normalizePool svcs) = map ServiceID svcs"
  by (simp add: normalizePool_def NormalizeServiceTiers_def normalizeLoop_map withRank_def ServiceID_def)

definition rule_ok :: "smart_ext \<Rightarrow> ConfigRule \<Rightarrow> bool" where
  "rule_ok ext r \<longleftrightarrow>
     (SmartEnabled (cr_Rule r) \<longrightarrow>
        (\<forall>sr\<in>set (rule_SmartRouting (cr_Rule r)). \<forall>op\<in>set (Ops sr). ValidateSmartOp ext op = None)) \<and>
     tiers_ok (Services (cr_Rule r)) \<and>
     (\<forall>sr\<in>set (rule_SmartRouting (cr_Rule r)). tiers_ok (sr_Services sr)) \<and>
     headers_canonical (ExtraHeaders (Flags r)) \<and>
     ParseRecordingMode (Recording (Flags r)) = Recording (Flags r)"

lemma firstError_None: "firstError f xs = None \<longleftrightarrow> (\<forall>x\<in>set xs. f x = None)"
  by (induction xs) (auto split: option.splits)

lemma firstError_Some: "firstError f xs = Some e \<Longrightarrow> \<exists>x\<in>set xs. f x = Some e"
  by (induction xs) (auto split: option.splits)

lemma enumerate_all: "(\<forall>p\<in>set (List.enumerate n xs). P (snd p)) \<longleftrightarrow> (\<forall>x\<in>set xs. P x)"
  by (induction xs arbitrary: n) auto

lemma validateSmart_None:
  "validateSmartRoutingRules ext r = None \<longleftrightarrow>
     (SmartEnabled (cr_Rule r) \<longrightarrow>
        (\<forall>sr\<in>set (rule_SmartRouting (cr_Rule r)). \<forall>op\<in>set (Ops sr). ValidateSmartOp ext op = None))"
  using enumerate_all [of 0 "rule_SmartRouting (cr_Rule r)"
      "\<lambda>sr. \<forall>p\<in>set (List.enumerate 0 (Ops sr)). ValidateSmartOp ext (snd p) = None"]
    enumerate_all [of 0 _ "\<lambda>op. ValidateSmartOp ext op = None"]
  by (simp add: validateSmartRoutingRules_def firstError_None split_beta)

lemma validateRule_ok:
  assumes "validateRule ext c r existing = Inr r'"
  shows "rule_ok (smart ext) r'" and "cr_UUID r' = cr_UUID r" and "cr_name r' = cr_name r"
    and "map ServiceID (ruleServices r') = map ServiceID (ruleServices r)"
  using assms
  by (auto simp: validateRule_def validateRuleExtraHeaders_def validateAndNormalizeRuleRecording_def
      rule_ok_def normalizeRuleServiceTiers_def validateSmart_None normalizePool_ok
      CanonicalizeExtraHeaders_canonical ParseRecordingMode_idem cr_UUID_def cr_name_def
      ruleServices_def normalizePool_ids map_concat comp_def
      split: option.splits sum.splits if_splits)

lemma syncDesktopNames_frame [simp]:
  "rule_ok ext (syncDesktopNames r) = rule_ok ext r" "cr_UUID (syncDesktopNames r) = cr_UUID r"
  by (simp_all add: syncDesktopNames_def rule_ok_def cr_UUID_def)

lemma ensure_defaults_frame [simp]:
  "cr_name (applyScenarioCreateDefaults (ensureRuleUUID u r)) = cr_name r"
  "cr_UUID (applyScenarioCreateDefaults (ensureRuleUUID u r)) = (if cr_UUID r = [] then u else cr_UUID r)"
  "cr_UUID (ensureRuleUUID u r) = (if cr_UUID r = [] then u else cr_UUID r)"
  by (auto simp: applyScenarioCreateDefaults_def ensureRuleUUID_def cr_UUID_def cr_name_def Let_def)

definition store_ok :: "smart_ext \<Rightarrow> Config \<Rightarrow> bool" where
  "store_ok ext c \<longleftrightarrow>
     distinct (map cr_UUID (Rules c)) \<and> distinct (map cr_name (Rules c)) \<and>
     (\<forall>r\<in>set (Rules c). cr_UUID r \<noteq> [] \<and> rule_ok ext r)"

lemma Save_snd [simp]: "snd (Save ext c) = c"
  by (simp add: Save_def)

lemma AddRule_keeps:
  assumes "store_ok (smart ext) c" and "u \<noteq> []"
  shows "store_ok (smart ext) (snd (AddRule ext u rule c))"
proof (cases "validateRule ext c (applyScenarioCreateDefaults (ensureRuleUUID u rule)) None")
  case (Inr r)
  note ok = validateRule_ok [OF Inr]
  have "cr_UUID r \<noteq> []" using ok(2) assms(2) by simp
  with assms(1) ok(1) Inr show ?thesis
    by (auto simp: AddRule_def store_ok_def image_iff)
qed (simp add: AddRule_def assms)

lemma replaceFirst_Some:
  "replaceFirst P y xs = Some ys \<Longrightarrow> \<exists>a x b. xs = a @ x # b \<and> P x \<and> ys = a @ y # b"
proof (induction xs arbitrary: ys)
  case (Cons x xs)
  then show ?case
    by (auto split: if_splits) (metis append_Nil, metis append_Cons)
qed simp

lemma UpdateRule_keeps:
  assumes "store_ok (smart ext) c" and "uid \<noteq> []" and "cr_UUID rule = [] \<or> cr_UUID rule = uid"
  shows "store_ok (smart ext) (snd (UpdateRule ext uid rule c))"
proof (cases "validateRule ext c (ensureRuleUUID uid rule) (findRuleByUUID uid c)")
  case (Inr r1)
  note ok = validateRule_ok [OF Inr]
  let ?r = "syncDesktopNames r1"
  have id: "cr_UUID ?r = uid" using ok(2) assms(3) by auto
  show ?thesis
  proof (cases "\<exists>rc \<in> set (Rules c). cr_name rc = cr_name ?r \<and> cr_UUID rc \<noteq> cr_UUID ?r")
    case False
    show ?thesis
    proof (cases "replaceFirst (\<lambda>rc. cr_UUID rc = uid) ?r (Rules c)")
      case (Some rs)
      from replaceFirst_Some [OF this] obtain a x b where
        s: "Rules c = a @ x # b" "cr_UUID x = uid" "rs = a @ ?r # b" by blast
      from assms(1) s have "uid \<notin> cr_UUID ` (set a \<union> set b)" by (auto simp: store_ok_def)
      then have others: "\<forall>rc \<in> set a \<union> set b. cr_UUID rc \<noteq> uid" by (metis image_eqI)
      with False id s have "\<forall>rc \<in> set a \<union> set b. cr_name rc \<noteq> cr_name ?r" by auto
      with others assms(1,2) ok(1) id s have "store_ok (smart ext) (c\<lparr>Rules := rs\<rparr>)"
        by (auto simp: store_ok_def image_iff)
      with Inr False Some assms(1) show ?thesis by (simp add: UpdateRule_def Let_def)
    qed (use Inr False assms(1) in \<open>simp add: UpdateRule_def Let_def\<close>)
  qed (use Inr assms(1) in \<open>simp add: UpdateRule_def Let_def\<close>)
qed (simp add: UpdateRule_def assms)

lemma DeleteRule_shape:
  "\<exists>a b. snd (DeleteRule ext u c) = c \<or> (\<exists>x. Rules c = a @ x # b \<and> snd (DeleteRule ext u c) = c\<lparr>Rules := a @ b\<rparr>)"
proof (cases "filter (\<lambda>i. cr_UUID (Rules c ! i) = u) [0..<length (Rules c)]")
  case (Cons i js)
  let ?k = "last (i # js)"
  have "?k \<in> set (filter (\<lambda>i. cr_UUID (Rules c ! i) = u) [0..<length (Rules c)])"
    unfolding Cons by (rule last_in_set) simp
  then have "Rules c = take ?k (Rules c) @ Rules c ! ?k # drop (Suc ?k) (Rules c)"
    by (simp add: id_take_nth_drop)
  moreover have "snd (DeleteRule ext u c) = c\<lparr>Rules := take ?k (Rules c) @ drop (Suc ?k) (Rules c)\<rparr>"
    by (simp only: DeleteRule_def Cons list.case Let_def Save_snd)
  ultimately show ?thesis by blast
qed (simp add: DeleteRule_def)

lemma DeleteRule_keeps:
  assumes "store_ok e c"
  shows "store_ok e (snd (DeleteRule ext u c))"
proof -
  obtain a b where "snd (DeleteRule ext u c) = c \<or> (\<exists>x. Rules c = a @ x # b \<and> snd (DeleteRule ext u c) = c\<lparr>Rules := a @ b\<rparr>)"
    using DeleteRule_shape by blast
  with assms show ?thesis by (auto simp: store_ok_def)
qed

text \<open>
  The administrator's calls.  An update carries the identifier it replaces, or none; the
  registry of providers may change at any time.
\<close>

inductive admin_step :: "cfg_ext \<Rightarrow> Config \<Rightarrow> Config \<Rightarrow> bool" for ext where
  add: "newUUID \<noteq> [] \<Longrightarrow> admin_step ext c (snd (AddRule ext newUUID rule c))"
| update: "uid \<noteq> [] \<Longrightarrow> cr_UUID rule = [] \<or> cr_UUID rule = uid \<Longrightarrow>
     admin_step ext c (snd (UpdateRule ext uid rule c))"
| delete: "admin_step ext c (snd (DeleteRule ext u c))"
| registry: "admin_step ext c (c\<lparr>providerStore := ps\<rparr>)"

lemma store_ok_registry [simp]: "store_ok e (c\<lparr>providerStore := ps\<rparr>) = store_ok e c"
  by (simp add: store_ok_def)

lemma admin_step_keeps: "admin_step ext c c' \<Longrightarrow> store_ok (smart ext) c \<Longrightarrow> store_ok (smart ext) c'"
  by (induction rule: admin_step.induct)
     (auto intro: AddRule_keeps UpdateRule_keeps DeleteRule_keeps)

lemma admin_run_keeps:
  "(admin_step ext)\<^sup>*\<^sup>* c c' \<Longrightarrow> store_ok (smart ext) c \<Longrightarrow> store_ok (smart ext) c'"
  by (induction rule: rtranclp_induct) (auto intro: admin_step_keeps)



definition sampleFlags :: RuleFlags where
  "sampleFlags = \<lparr>CursorCompat = False, CleanHeader = False, ClaudeCodeCompat = False, Context1M = False,
     ExtraHeaders = [], Recording = ''request'', OtherFlags = []\<rparr>"

definition sampleConfigRule :: "string \<Rightarrow> string \<Rightarrow> ConfigRule" where
  "sampleConfigRule u n = \<lparr>cr_Rule = (sampleRule [])\<lparr>UUID := u, RequestModel := n\<rparr>, Flags = sampleFlags\<rparr>"

definition sampleExt :: cfg_ext where
  "sampleExt = \<lparr>smart = noExt,
     headers = \<lparr>ValidHeaderFieldName = (\<lambda>_. True), ValidHeaderFieldValue = (\<lambda>_. True)\<rparr>, save = (\<lambda>_. None)\<rparr>"

definition noRules :: Config where "noRules = \<lparr>Rules = [], providerStore = None\<rparr>"


section \<open>Why an addition fails\<close>

lemma find_append: "List.find P (xs @ ys) = (case List.find P xs of None \<Rightarrow> List.find P ys | Some x \<Rightarrow> Some x)"
  by (induction xs) auto

definition rejects :: "cfg_ext \<Rightarrow> Config \<Rightarrow> string \<Rightarrow> ConfigRule \<Rightarrow> cfg_error \<Rightarrow> bool" where
  "rejects ext c u r e \<longleftrightarrow>
     (case e of
        NonExistentProvider p \<Rightarrow>
          \<exists>ps svc. providerStore c = Some ps \<and> svc \<in> set (ruleServices r) \<and> Provider svc = p \<and> ps p = None
      | DisabledProvider p \<Rightarrow>
          \<exists>ps svc q. providerStore c = Some ps \<and> svc \<in> set (ruleServices r) \<and> Provider svc = p \<and>
             ps p = Some q \<and> \<not> Enabled q
      | InvalidSmartOp i j oe \<Rightarrow>
          SmartEnabled (cr_Rule r) \<and> i < length (rule_SmartRouting (cr_Rule r)) \<and>
          j < length (Ops (rule_SmartRouting (cr_Rule r) ! i)) \<and>
          ValidateSmartOp (smart ext) (Ops (rule_SmartRouting (cr_Rule r) ! i) ! j) = Some oe
      | InvalidExtraHeaders \<Rightarrow> \<not> ValidateExtraHeaders (headers ext) (ExtraHeaders (Flags r))
      | InvalidRecording m \<Rightarrow> m = Recording (Flags r) \<and> \<not> IsValidRecordingMode m
      | NameTaken n \<Rightarrow> n = RequestModel (cr_Rule r) \<and> (\<exists>rc\<in>set (Rules c). cr_name rc = cr_name r)
      | UUIDTaken i \<Rightarrow> i = (if cr_UUID r = [] then u else cr_UUID r) \<and> (\<exists>rc\<in>set (Rules c). cr_UUID rc = i)
      | RuleNotFound i \<Rightarrow> False
      | SaveFailed m \<Rightarrow> True)"

lemma defaults_same [simp]:
  "ruleServices (applyScenarioCreateDefaults (ensureRuleUUID u r)) = ruleServices r"
  "SmartEnabled (cr_Rule (applyScenarioCreateDefaults (ensureRuleUUID u r))) = SmartEnabled (cr_Rule r)"
  "rule_SmartRouting (cr_Rule (applyScenarioCreateDefaults (ensureRuleUUID u r))) = rule_SmartRouting (cr_Rule r)"
  "ExtraHeaders (Flags (applyScenarioCreateDefaults (ensureRuleUUID u r))) = ExtraHeaders (Flags r)"
  "Recording (Flags (applyScenarioCreateDefaults (ensureRuleUUID u r))) = Recording (Flags r)"
  by (auto simp: applyScenarioCreateDefaults_def ensureRuleUUID_def ruleServices_def Let_def)

lemma validateServices_Some:
  "validateRuleServices c r None = Some e \<Longrightarrow> rejects ext c u r e"
proof -
  assume "validateRuleServices c r None = Some e"
  then obtain ps where ps: "providerStore c = Some ps" "firstError (checkService ps {}) (ruleServices r) = Some e"
    by (auto simp: validateRuleServices_def split: option.splits)
  from firstError_Some [OF ps(2)] obtain svc where svc: "svc \<in> set (ruleServices r)" "checkService ps {} svc = Some e"
    by blast
  show ?thesis
  proof (cases "ps (Provider svc)")
    case None
    with svc(2) have "e = NonExistentProvider (Provider svc)" by (simp add: checkService_def)
    with ps svc None show ?thesis by (auto simp: rejects_def)
  next
    case (Some q)
    with svc(2) have "e = DisabledProvider (Provider svc)" "\<not> Enabled q"
      by (simp_all add: checkService_def split: if_splits)
    with ps svc Some show ?thesis by (auto simp: rejects_def)
  qed
qed

lemma validateSmart_Some:
  assumes "validateSmartRoutingRules (smart ext) r = Some e"
  shows "rejects ext c u r e"
proof -
  let ?inner = "\<lambda>(i, sr). firstError (\<lambda>(j, op). map_option (InvalidSmartOp i j) (ValidateSmartOp (smart ext) op))
      (List.enumerate 0 (Ops sr))"
  from assms have on: "SmartEnabled (cr_Rule r)"
    and "firstError ?inner (List.enumerate 0 (rule_SmartRouting (cr_Rule r))) = Some e"
    by (simp_all add: validateSmartRoutingRules_def split: if_splits)
  from firstError_Some [OF this(2)] obtain x where
    x: "x \<in> set (List.enumerate 0 (rule_SmartRouting (cr_Rule r)))" "?inner x = Some e" by blast
  obtain i sr where i_sr: "x = (i, sr)" by (cases x)
  have i: "(i, sr) \<in> set (List.enumerate 0 (rule_SmartRouting (cr_Rule r)))"
    and e: "firstError (\<lambda>(j, op). map_option (InvalidSmartOp i j) (ValidateSmartOp (smart ext) op))
              (List.enumerate 0 (Ops sr)) = Some e"
    using x by (simp_all add: i_sr)
  from firstError_Some [OF e] obtain j op oe where j: "(j, op) \<in> set (List.enumerate 0 (Ops sr))"
    "ValidateSmartOp (smart ext) op = Some oe" "e = InvalidSmartOp i j oe" by auto
  from i j on show ?thesis by (auto simp: rejects_def in_set_enumerate_eq)
qed

lemma validateRule_Inl:
  assumes "validateRule ext c r None = Inl e"
  shows "rejects ext c u r e"
  using assms validateServices_Some [of c r e ext u] validateSmart_Some [of ext r e c u]
  by (auto simp: validateRule_def validateRuleExtraHeaders_def validateAndNormalizeRuleRecording_def
      rejects_def [of _ _ _ _ InvalidExtraHeaders] rejects_def [of _ _ _ _ "InvalidRecording _"]
      split: option.splits sum.splits if_splits)

lemma rejects_defaults:
  "rejects ext c u (applyScenarioCreateDefaults (ensureRuleUUID u r)) e \<Longrightarrow>
   (\<And>n. e \<noteq> NameTaken n) \<Longrightarrow> (\<And>n. e \<noteq> UUIDTaken n) \<Longrightarrow> rejects ext c u r e"
  by (cases e) (auto simp: rejects_def)

lemma validateRule_error: "validateRule ext c r ex = Inl e \<Longrightarrow> (\<forall>m. e \<noteq> SaveFailed m \<and> e \<noteq> NameTaken m \<and> e \<noteq> UUIDTaken m)"
  by (auto simp: validateRule_def validateRuleServices_def validateSmartRoutingRules_def checkService_def
      validateRuleExtraHeaders_def validateAndNormalizeRuleRecording_def
      dest!: firstError_Some split: option.splits sum.splits if_splits)

text \<open>
  Every outcome of adding a rule.  An error other than a failed write leaves the store
  as it was and names a true defect of the rule or a conflict with a stored one; otherwise the
  rule has been appended, under its own or the generated identifier and its name, neither used
  before, and it can be looked up, even when the write of the file then failed.
\<close>

theorem AddRule_outcome:
  "case AddRule ext u rule c of (err, c') \<Rightarrow>
     (if \<exists>m. err = Some (SaveFailed m) \<or> err = None
      then \<exists>r. Rules c' = Rules c @ [r] \<and> cr_name r = cr_name rule \<and>
             cr_UUID r = (if cr_UUID rule = [] then u else cr_UUID rule) \<and>
             map ServiceID (ruleServices r) = map ServiceID (ruleServices rule) \<and>
             cr_UUID r \<notin> cr_UUID ` set (Rules c) \<and> cr_name r \<notin> cr_name ` set (Rules c) \<and>
             GetRuleByUUID (cr_UUID r) c' = Some r
      else c' = c \<and> (\<exists>e. err = Some e \<and> rejects ext c u rule e))"
proof (cases "validateRule ext c (applyScenarioCreateDefaults (ensureRuleUUID u rule)) None")
  case (Inl e)
  from validateRule_error [OF Inl] rejects_defaults [OF validateRule_Inl [OF Inl]] Inl show ?thesis
    by (auto simp: AddRule_def)
next
  case (Inr r)
  note ok = validateRule_ok [OF Inr, simplified]
  let ?name = "\<exists>rc\<in>set (Rules c). cr_name rc = cr_name r \<and> cr_UUID rc \<noteq> cr_UUID r"
  let ?uuid = "\<exists>rc\<in>set (Rules c). cr_UUID rc = cr_UUID r"
  have rm: "RequestModel (cr_Rule r) = RequestModel (cr_Rule rule)" using ok(3) by (simp add: cr_name_def)
  consider "?name" | "\<not> ?name" "?uuid" | "\<not> ?name" "\<not> ?uuid" by blast
  then show ?thesis
  proof cases
    case 1
    with Inr ok rm show ?thesis by (auto simp: AddRule_def rejects_def)
  next
    case 2
    with Inr ok have "AddRule ext u rule c = (Some (UUIDTaken (cr_UUID r)), c)" by (simp add: AddRule_def)
    with 2 ok show ?thesis by (auto simp: rejects_def)
  next
    case 3
    then have new: "cr_UUID r \<notin> cr_UUID ` set (Rules c)" "cr_name r \<notin> cr_name ` set (Rules c)" by auto
    then have "List.find (\<lambda>x. cr_UUID x = cr_UUID r) (Rules c) = None"
      unfolding find_None_iff by (metis image_eqI)
    then have find: "List.find (\<lambda>x. cr_UUID x = cr_UUID r) (Rules c @ [r]) = Some r"
      by (simp add: find_append)
    from 3 Inr have "AddRule ext u rule c = Save ext (c\<lparr>Rules := Rules c @ [r]\<rparr>)" by (simp add: AddRule_def)
    with new ok find show ?thesis by (auto simp: Save_def GetRuleByUUID_def split: option.splits)
  qed
qed

section \<open>Which rule serves a model\<close>

lemma find_Some: "List.find P xs = Some x \<Longrightarrow> P x \<and> x \<in> set xs"
  by (auto simp: find_Some_iff)

lemma find_None: "List.find P xs = None \<Longrightarrow> x \<in> set xs \<Longrightarrow> \<not> P x"
  by (auto simp: find_None_iff)

lemma HasSuffix_append [simp]: "HasSuffix (s @ suf) suf"
  by (simp add: HasSuffix_def)

lemma TrimSuffix_append [simp]: "TrimSuffix (s @ suf) suf = s"
  by (simp add: TrimSuffix_def)

lemma HasSuffix_Trim: "HasSuffix s suf \<Longrightarrow> TrimSuffix s suf @ suf = s"
  by (metis HasSuffix_def TrimSuffix_def append_take_drop_id)

text \<open>
  Toggling the context-window flag renames a desktop rule between a name and the same name with
  the suffix, so names compare equal once trimmed.
\<close>

lemma sync_trim:
  assumes "\<not> HasSuffix (TrimContext1M model) Context1MSuffix"
  shows "TrimContext1M (syncContext1MSuffix model enabled) = TrimContext1M model"
  using assms HasSuffix_Trim [of model Context1MSuffix]
  by (auto simp: syncContext1MSuffix_def TrimContext1M_def) (simp_all add: TrimSuffix_def)

definition claude_scenario :: "string \<Rightarrow> bool" where
  "claude_scenario sc \<longleftrightarrow> fst (ParseScenarioProfile sc) = ''claude_code'' \<or> fst (ParseScenarioProfile sc) = ''claude_desktop''"

lemma match_rule_unique:
  assumes "store_ok ext c"
  shows "MatchRuleByModelAndScenario model sc c =
    (if \<exists>r\<in>set (Rules c). cr_name r = (model, sc)
     then Some (THE r. r \<in> set (Rules c) \<and> cr_name r = (model, sc))
     else case List.find (\<lambda>r. claude_scenario sc \<and> Scenario (cr_Rule r) = sc \<and>
                 TrimContext1M (RequestModel (cr_Rule r)) = TrimContext1M model) (Rules c) of
            Some r \<Rightarrow> Some r
          | None \<Rightarrow> if \<exists>r\<in>set (Rules c). cr_name r = (''*'', sc)
                     then Some (THE r. r \<in> set (Rules c) \<and> cr_name r = (''*'', sc)) else None)"
proof -
  have unique: "List.find (\<lambda>r. cr_name r = n) (Rules c) =
      (if \<exists>r\<in>set (Rules c). cr_name r = n then Some (THE r. r \<in> set (Rules c) \<and> cr_name r = n) else None)" for n
  proof (cases "List.find (\<lambda>r. cr_name r = n) (Rules c)")
    case None
    then show ?thesis by (auto simp: find_None_iff)
  next
    case (Some r)
    from find_Some [OF this] have r: "cr_name r = n" "r \<in> set (Rules c)" by auto
    have "(THE x. x \<in> set (Rules c) \<and> cr_name x = n) = r"
    proof (rule the_equality)
      fix x assume "x \<in> set (Rules c) \<and> cr_name x = n"
      with r assms show "x = r" by (auto simp: store_ok_def distinct_map dest: inj_onD)
    qed (use r in simp)
    with r Some show ?thesis by auto
  qed
  have wild: "(\<lambda>r. IsWildcardRuleName (RequestModel (cr_Rule r)) \<and> Scenario (cr_Rule r) = sc) =
      (\<lambda>r. cr_name r = (''*'', sc))"
    by (auto simp: IsWildcardRuleName_def cr_name_def)
  have trim: "(if fst (ParseScenarioProfile sc) = ''claude_code'' \<or> fst (ParseScenarioProfile sc) = ''claude_desktop''
       then List.find (\<lambda>r. TrimContext1M (RequestModel (cr_Rule r)) = TrimContext1M model \<and> Scenario (cr_Rule r) = sc) (Rules c)
       else None) =
      List.find (\<lambda>r. claude_scenario sc \<and> Scenario (cr_Rule r) = sc \<and>
                 TrimContext1M (RequestModel (cr_Rule r)) = TrimContext1M model) (Rules c)"
  proof (cases "claude_scenario sc")
    case False
    have "List.find (\<lambda>r. False) (Rules c) = None" by (simp add: find_None_iff)
    with False show ?thesis by (simp add: claude_scenario_def)
  qed (simp add: claude_scenario_def conj_commute)
  show ?thesis
    unfolding MatchRuleByModelAndScenario_def Let_def trim wild unique
    by (auto split: option.splits)
qed

lemma store_name_unique:
  assumes "store_ok ext c" and "r \<in> set (Rules c)" and "cr_name r = n"
  shows "(THE x. x \<in> set (Rules c) \<and> cr_name x = n) = r"
  using assms by (intro the_equality) (auto simp: store_ok_def distinct_map dest: inj_onD)

text \<open>
  Which rule a request gets in a well-formed store.  The rule of exactly the
  requested name in the scenario, if there is one; else, for the Claude scenarios, a rule whose
  name differs only by the context-window suffix; else the wildcard rule of the scenario; and
  none only when the scenario has none of these.
\<close>

theorem match_rule_priority:
  assumes "store_ok ext c"
  shows "(\<forall>r\<in>set (Rules c). cr_name r = (model, sc) \<longrightarrow> MatchRuleByModelAndScenario model sc c = Some r) \<and>
    ((model, sc) \<notin> cr_name ` set (Rules c) \<longrightarrow>
      (case List.find (\<lambda>r. claude_scenario sc \<and> Scenario (cr_Rule r) = sc \<and>
              TrimContext1M (RequestModel (cr_Rule r)) = TrimContext1M model) (Rules c) of
         Some r \<Rightarrow> MatchRuleByModelAndScenario model sc c = Some r
       | None \<Rightarrow>
           (\<forall>r\<in>set (Rules c). cr_name r = (''*'', sc) \<longrightarrow> MatchRuleByModelAndScenario model sc c = Some r) \<and>
           ((''*'', sc) \<notin> cr_name ` set (Rules c) \<longrightarrow> MatchRuleByModelAndScenario model sc c = None)))"
proof (intro conjI impI ballI)
  fix r assume r: "r \<in> set (Rules c)" "cr_name r = (model, sc)"
  then show "MatchRuleByModelAndScenario model sc c = Some r"
    using store_name_unique [OF assms r] unfolding match_rule_unique [OF assms] by auto
next
  assume "(model, sc) \<notin> cr_name ` set (Rules c)"
  then have "\<not> (\<exists>r\<in>set (Rules c). cr_name r = (model, sc))" by (metis image_eqI)
  note m = match_rule_unique [OF assms, of model sc, unfolded if_not_P [OF this]]
  have w: "Some (THE r. r \<in> set (Rules c) \<and> cr_name r = (''*'', sc)) = Some r"
    if "r \<in> set (Rules c)" "cr_name r = (''*'', sc)" for r
    using store_name_unique [OF assms that] by simp
  show "case List.find (\<lambda>r. claude_scenario sc \<and> Scenario (cr_Rule r) = sc \<and>
          TrimContext1M (RequestModel (cr_Rule r)) = TrimContext1M model) (Rules c) of
     Some r \<Rightarrow> MatchRuleByModelAndScenario model sc c = Some r
   | None \<Rightarrow>
       (\<forall>r\<in>set (Rules c). cr_name r = (''*'', sc) \<longrightarrow> MatchRuleByModelAndScenario model sc c = Some r) \<and>
       ((''*'', sc) \<notin> cr_name ` set (Rules c) \<longrightarrow> MatchRuleByModelAndScenario model sc c = None)"
    unfolding m using w by (auto split: option.splits) (metis image_eqI)
qed

definition wildcardRule :: ConfigRule where
  "wildcardRule = (sampleConfigRule ''w'' ''*'')\<lparr>Flags := sampleFlags\<lparr>Recording := []\<rparr>\<rparr>"

lemma wildcardRule_facts:
  "cr_UUID wildcardRule = ''w''" "cr_name wildcardRule = (''*'', ''openai'')" "rule_ok ext wildcardRule"
  by (simp_all add: wildcardRule_def sampleConfigRule_def sampleRule_def cr_UUID_def cr_name_def rule_ok_def
      sampleFlags_def tiers_ok_def NormalizeServiceTiers_def normalizePool_def headers_canonical_def
      ParseRecordingMode_def tokenPoints_def TrimSpace_def)

theorem match_rule_priority_witness:
  "MatchRuleByModelAndScenario ''gpt'' ''openai'' \<lparr>Rules = [wildcardRule], providerStore = None\<rparr> = Some wildcardRule"
proof -
  let ?c = "\<lparr>Rules = [wildcardRule], providerStore = None\<rparr>"
  have "store_ok noExt ?c" by (simp add: store_ok_def wildcardRule_facts)
  from match_rule_priority [OF this, of "''gpt''" "''openai''"] show ?thesis
    by (simp add: wildcardRule_facts claude_scenario_def ParseScenarioProfile_def)
qed

section \<open>Two surprises of an update\<close>

text \<open>Updating an identifier no rule has reports success and changes nothing.\<close>

lemma UpdateRule_unknown_succeeds:
  assumes "uid \<notin> cr_UUID ` set (Rules c)"
    and "validateRule ext c (ensureRuleUUID uid rule) (findRuleByUUID uid c) = Inr r1"
    and "cr_name (syncDesktopNames r1) \<notin> cr_name ` set (Rules c)"
  shows "UpdateRule ext uid rule c = (None, c)"
proof -
  have "replaceFirst (\<lambda>rc. cr_UUID rc = uid) y xs = None" if "uid \<notin> cr_UUID ` set xs" for y xs
    using that by (induction xs) auto
  moreover from assms(3) have "\<not> (\<exists>rc \<in> set (Rules c). cr_name rc = cr_name (syncDesktopNames r1) \<and>
      cr_UUID rc \<noteq> cr_UUID (syncDesktopNames r1))" by (metis image_eqI)
  ultimately show ?thesis using assms(1,2) unfolding UpdateRule_def assms(2) by (simp add: Let_def)
qed

text \<open>
  An update whose payload carries another rule's identifier leaves two rules with one identifier.
\<close>

lemma sampleConfigRule_simps [simp]:
  "cr_UUID (sampleConfigRule u n) = u" "cr_name (sampleConfigRule u n) = (n, ''openai'')"
  by (simp_all add: sampleConfigRule_def sampleRule_def cr_UUID_def cr_name_def)

lemma UpdateRule_duplicates_identifier:
  "\<not> distinct (map cr_UUID (Rules (snd (UpdateRule sampleExt ''a'' (sampleConfigRule ''b'' ''three'')
      \<lparr>Rules = [sampleConfigRule ''a'' ''one'', sampleConfigRule ''b'' ''two''], providerStore = None\<rparr>))))"
proof -
  let ?c = "\<lparr>Rules = [sampleConfigRule ''a'' ''one'', sampleConfigRule ''b'' ''two''], providerStore = None\<rparr>"
  obtain r1 where v: "validateRule sampleExt ?c (ensureRuleUUID ''a'' (sampleConfigRule ''b'' ''three''))
      (findRuleByUUID ''a'' ?c) = Inr r1"
    by (simp add: validateRule_def validateRuleServices_def validateSmartRoutingRules_def sampleConfigRule_def
        ensureRuleUUID_def cr_UUID_def sampleRule_def validateRuleExtraHeaders_def sampleFlags_def
        ValidateExtraHeaders_def validateAndNormalizeRuleRecording_def IsValidRecordingMode_def
        legacyRecordingModes_def TrimSpace_def ascii_space_def)
  note ok = validateRule_ok [OF v]
  have r1: "cr_UUID r1 = ''b''" "cr_name r1 = (''three'', ''openai'')"
    using ok(2,3) by (simp_all add: ensureRuleUUID_def)
  then have sc: "syncDesktopNames r1 = r1"
    by (simp add: cr_name_def syncDesktopNames_def Scenario_Is_def ParseScenarioProfile_def)
  show ?thesis unfolding UpdateRule_def v by (simp add: sc r1 Let_def)
qed

section \<open>Bulk and by-name writes\<close>

text \<open>
  The remaining writes and queries.  \<open>fresh\<close> is the sequence of identifiers
  \<^verbatim>\<open>GenerateUUID\<close> hands out, one per repaired rule.
\<close>

fun repairUUIDs :: "(nat \<Rightarrow> string) \<Rightarrow> nat \<Rightarrow> string set \<Rightarrow> ConfigRule list \<Rightarrow> bool \<times> ConfigRule list" where
  "repairUUIDs fresh n seen [] = (False, [])"
| "repairUUIDs fresh n seen (r # rs) =
     (if cr_UUID r = [] \<or> cr_UUID r \<in> seen
      then (let r' = r\<lparr>cr_Rule := (cr_Rule r)\<lparr>UUID := fresh n\<rparr>\<rparr>;
                (_, rs') = repairUUIDs fresh (Suc n) (insert (fresh n) seen) rs
            in (True, r' # rs'))
      else (let (changed, rs') = repairUUIDs fresh n (insert (cr_UUID r) seen) rs
            in (changed, r # rs')))"

definition ensureRuleUUIDs :: "(nat \<Rightarrow> string) \<Rightarrow> ConfigRule list \<Rightarrow> bool \<times> ConfigRule list" where
  "ensureRuleUUIDs fresh rules = repairUUIDs fresh 0 {} rules"

definition SetRequestConfigs :: "cfg_ext \<Rightarrow> (nat \<Rightarrow> string) \<Rightarrow> ConfigRule list \<Rightarrow> Config \<Rightarrow> cfg_error option \<times> Config" where
  "SetRequestConfigs ext fresh rules c = Save ext (c\<lparr>Rules := snd (ensureRuleUUIDs fresh rules)\<rparr>)"

text \<open>\<open>None\<close> stands for the out-of-bounds error.\<close>

definition UpdateRequestConfigAt ::
  "cfg_ext \<Rightarrow> string \<Rightarrow> int \<Rightarrow> ConfigRule \<Rightarrow> Config \<Rightarrow> (cfg_error option \<times> Config) option" where
  "UpdateRequestConfigAt ext newUUID index rule c =
     (if index < 0 \<or> int (length (Rules c)) \<le> index then None
      else (let i = nat index in
            Some (Save ext (c\<lparr>Rules := (Rules c)
              [i := ensureRuleUUID newUUID (ensureRuleUUID (cr_UUID (Rules c ! i)) rule)]\<rparr>))))"

fun replaceNamed :: "string \<Rightarrow> string \<Rightarrow> ConfigRule \<Rightarrow> ConfigRule list \<Rightarrow> ConfigRule list option" where
  "replaceNamed newUUID model rule [] = None"
| "replaceNamed newUUID model rule (r # rs) =
     (if RequestModel (cr_Rule r) = model
      then Some (ensureRuleUUID newUUID (ensureRuleUUID (cr_UUID r) rule) # rs)
      else map_option ((#) r) (replaceNamed newUUID model rule rs))"

definition UpdateRequestConfigByRequestModel ::
  "cfg_ext \<Rightarrow> string \<Rightarrow> string \<Rightarrow> ConfigRule \<Rightarrow> Config \<Rightarrow> cfg_error option \<times> Config" where
  "UpdateRequestConfigByRequestModel ext newUUID model rule c =
     (case replaceNamed newUUID model rule (Rules c) of
        Some rs \<Rightarrow> Save ext (c\<lparr>Rules := rs\<rparr>)
      | None \<Rightarrow> (Some (RuleNotFound model), c))"

definition AddOrUpdateRequestConfigByRequestModel ::
  "cfg_ext \<Rightarrow> string \<Rightarrow> ConfigRule \<Rightarrow> Config \<Rightarrow> cfg_error option \<times> Config" where
  "AddOrUpdateRequestConfigByRequestModel ext newUUID rule c =
     (case replaceNamed newUUID (RequestModel (cr_Rule rule)) rule (Rules c) of
        Some rs \<Rightarrow> Save ext (c\<lparr>Rules := rs\<rparr>)
      | None \<Rightarrow> Save ext (c\<lparr>Rules := Rules c @ [ensureRuleUUID newUUID rule]\<rparr>))"

definition IsRequestModel :: "string \<Rightarrow> Config \<Rightarrow> bool" where
  "IsRequestModel model c \<longleftrightarrow> (\<exists>r\<in>set (Rules c). RequestModel (cr_Rule r) = model)"

definition GetUUIDByRequestModel :: "string \<Rightarrow> Config \<Rightarrow> string" where
  "GetUUIDByRequestModel model c =
     (case List.find (\<lambda>r. RequestModel (cr_Rule r) = model) (Rules c) of Some r \<Rightarrow> cr_UUID r | None \<Rightarrow> [])"

definition GetUUIDByRequestModelAndScenario :: "string \<Rightarrow> string \<Rightarrow> Config \<Rightarrow> string" where
  "GetUUIDByRequestModelAndScenario model scenario c =
     (case GetRuleByRequestModelAndScenario model scenario c of Some r \<Rightarrow> cr_UUID r | None \<Rightarrow> [])"

definition IsRequestModelInScenario :: "string \<Rightarrow> string \<Rightarrow> Config \<Rightarrow> bool" where
  "IsRequestModelInScenario model scenario c \<longleftrightarrow> (\<exists>r\<in>set (Rules c). cr_name r = (model, scenario))"

lemma ensureRuleUUID_id: "cr_UUID r \<noteq> [] \<Longrightarrow> ensureRuleUUID u r = r"
  by (simp add: ensureRuleUUID_def)

lemma cr_UUID_update [simp]: "cr_UUID (r\<lparr>cr_Rule := (cr_Rule r)\<lparr>UUID := u\<rparr>\<rparr>) = u"
  by (simp add: cr_UUID_def)

definition sameButUUID :: "ConfigRule \<Rightarrow> ConfigRule \<Rightarrow> bool" where
  "sameButUUID r r' \<longleftrightarrow> r' = r\<lparr>cr_Rule := (cr_Rule r)\<lparr>UUID := cr_UUID r'\<rparr>\<rparr>"

lemma repairUUIDs_ok:
  assumes "repairUUIDs fresh n seen rs = (changed, rs')" and "inj fresh" and "[] \<notin> range fresh"
    and "[] \<notin> seen" and "\<forall>m\<ge>n. fresh m \<notin> seen" and "range fresh \<inter> cr_UUID ` set rs = {}"
  shows "distinct (map cr_UUID rs') \<and> cr_UUID ` set rs' \<inter> insert [] seen = {} \<and>
    list_all2 sameButUUID rs rs' \<and>
    (u \<notin> insert [] seen \<union> range fresh \<longrightarrow> List.find (\<lambda>r. cr_UUID r = u) rs' = List.find (\<lambda>r. cr_UUID r = u) rs) \<and>
    (changed \<longleftrightarrow> \<not> (distinct (map cr_UUID rs) \<and> cr_UUID ` set rs \<inter> insert [] seen = {}))"
  using assms
proof (induction fresh n seen rs arbitrary: changed rs' rule: repairUUIDs.induct)
  case (2 fresh n seen r rs)
  show ?case
  proof (cases "cr_UUID r = [] \<or> cr_UUID r \<in> seen")
    case True
    obtain ch ts where t: "repairUUIDs fresh (Suc n) (insert (fresh n) seen) rs = (ch, ts)" by fastforce
    with True "2.prems"(1) have eq: "changed = True" "rs' = r\<lparr>cr_Rule := (cr_Rule r)\<lparr>UUID := fresh n\<rparr>\<rparr> # ts"
      by (auto simp: Let_def)
    have "cr_UUID r \<notin> range fresh" using "2.prems"(6) by auto
    then have new: "fresh n \<noteq> []" "fresh n \<notin> seen" "fresh n \<noteq> cr_UUID r"
      using "2.prems"(3,5) by (metis rangeI, blast, metis rangeI)
    have "\<forall>m\<ge>Suc n. fresh m \<notin> insert (fresh n) seen"
      using "2.prems"(2,5) by (auto dest: injD)
    moreover have "[] \<notin> insert (fresh n) seen" using new "2.prems"(4) by simp
    moreover have "range fresh \<inter> cr_UUID ` set rs = {}" using "2.prems"(6) by auto
    ultimately have ih: "distinct (map cr_UUID ts) \<and> cr_UUID ` set ts \<inter> insert [] (insert (fresh n) seen) = {} \<and>
      list_all2 sameButUUID rs ts \<and>
      (u \<notin> insert [] (insert (fresh n) seen) \<union> range fresh \<longrightarrow>
         List.find (\<lambda>r. cr_UUID r = u) ts = List.find (\<lambda>r. cr_UUID r = u) rs)"
      using "2.IH"(1) [OF True refl t "2.prems"(2,3)] by blast
    then have "sameButUUID r (r\<lparr>cr_Rule := (cr_Rule r)\<lparr>UUID := fresh n\<rparr>\<rparr>)" by (simp add: sameButUUID_def)
    with ih new True show ?thesis unfolding eq by auto
  next
    case False
    obtain ch ts where t: "repairUUIDs fresh n (insert (cr_UUID r) seen) rs = (ch, ts)" by fastforce
    with False "2.prems"(1) have eq: "changed = ch" "rs' = r # ts"
      by (auto simp: Let_def)
    have "\<forall>m\<ge>n. fresh m \<notin> insert (cr_UUID r) seen"
      using "2.prems"(5,6) by (metis IntI empty_iff image_eqI insertE list.set_intros(1) rangeI)
    moreover have "[] \<notin> insert (cr_UUID r) seen" using False "2.prems"(4) by auto
    moreover have "range fresh \<inter> cr_UUID ` set rs = {}" using "2.prems"(6) by auto
    ultimately have ih: "distinct (map cr_UUID ts) \<and> cr_UUID ` set ts \<inter> insert [] (insert (cr_UUID r) seen) = {} \<and>
      list_all2 sameButUUID rs ts \<and>
      (u \<notin> insert [] (insert (cr_UUID r) seen) \<union> range fresh \<longrightarrow>
         List.find (\<lambda>r. cr_UUID r = u) ts = List.find (\<lambda>r. cr_UUID r = u) rs) \<and>
      (ch \<longleftrightarrow> \<not> (distinct (map cr_UUID rs) \<and> cr_UUID ` set rs \<inter> insert [] (insert (cr_UUID r) seen) = {}))"
      using "2.IH"(2) [OF False t "2.prems"(2,3)] by blast
    moreover have "sameButUUID r r" by (simp add: sameButUUID_def cr_UUID_def)
    ultimately show ?thesis using False unfolding eq by auto
  qed
qed simp

text \<open>
  Repairing the identifiers of a loaded rule list.  Whatever empty or repeated
  identifiers the list has, afterwards the identifiers are distinct and not empty, every rule is
  otherwise as it was, looking up any identifier of the list finds the rule it found before (the
  first of several rules keeps the shared identifier), and a change is reported exactly when the
  list was not already in order.  The generator hands out distinct identifiers the list does not
  use.
\<close>

theorem ensureRuleUUIDs_repairs:
  assumes "inj fresh" and "[] \<notin> range fresh" and "range fresh \<inter> cr_UUID ` set rs = {}"
  shows "case ensureRuleUUIDs fresh rs of (changed, rs') \<Rightarrow>
    distinct (map cr_UUID rs') \<and> [] \<notin> cr_UUID ` set rs' \<and> list_all2 sameButUUID rs rs' \<and>
    (\<forall>u \<in> cr_UUID ` set rs - {[]}. List.find (\<lambda>r. cr_UUID r = u) rs' = List.find (\<lambda>r. cr_UUID r = u) rs) \<and>
    (changed \<longleftrightarrow> \<not> (distinct (map cr_UUID rs) \<and> [] \<notin> cr_UUID ` set rs))"
proof (cases "ensureRuleUUIDs fresh rs")
  case (Pair changed rs')
  note run = Pair [unfolded ensureRuleUUIDs_def]
  have ok: "distinct (map cr_UUID rs') \<and> cr_UUID ` set rs' \<inter> insert [] {} = {} \<and> list_all2 sameButUUID rs rs' \<and>
    (u \<notin> insert [] {} \<union> range fresh \<longrightarrow> List.find (\<lambda>r. cr_UUID r = u) rs' = List.find (\<lambda>r. cr_UUID r = u) rs) \<and>
    (changed \<longleftrightarrow> \<not> (distinct (map cr_UUID rs) \<and> cr_UUID ` set rs \<inter> insert [] {} = {}))" for u
    by (rule repairUUIDs_ok [OF run assms(1,2) _ _ assms(3)]) simp_all
  have "u \<notin> insert [] {} \<union> range fresh" if "u \<in> cr_UUID ` set rs - {[]}" for u
    using that assms(3) by auto
  then have find: "\<forall>u \<in> cr_UUID ` set rs - {[]}. List.find (\<lambda>r. cr_UUID r = u) rs' = List.find (\<lambda>r. cr_UUID r = u) rs"
    using ok by meson
  have empty: "X \<inter> insert [] {} = {} \<longleftrightarrow> [] \<notin> X" for X :: "string set" by simp
  show ?thesis unfolding Pair prod.case using ok [of undefined, unfolded empty] find by (intro conjI) simp_all
qed

definition numberedUUID :: "nat \<Rightarrow> string" where "numberedUUID n = CHR ''#'' # show_nat n"

theorem ensureRuleUUIDs_repairs_witness:
  "distinct (map cr_UUID (snd (ensureRuleUUIDs numberedUUID
     [sampleConfigRule ''a'' ''one'', sampleConfigRule ''a'' ''two'', sampleConfigRule [] ''three''])))"
proof -
  let ?rs = "[sampleConfigRule ''a'' ''one'', sampleConfigRule ''a'' ''two'', sampleConfigRule [] ''three'']"
  have inj: "inj numberedUUID" by (auto simp: inj_def numberedUUID_def)
  have new: "[] \<notin> range numberedUUID" "range numberedUUID \<inter> cr_UUID ` set ?rs = {}"
    by (auto simp: numberedUUID_def)
  show ?thesis using ensureRuleUUIDs_repairs [OF inj new] by (simp only: split_beta)
qed

end
