(* ===== verification/TB_Shell.thy ===== *)
theory TB_Shell
  imports TB_Prelude
begin

text \<open>
  How the guardrails read a shell command: the tokenizer and parser of
  \<^verbatim>\<open>internal/guardrails/core/command_shell.go\<close> and the tool-agnostic view of
  \<^verbatim>\<open>internal/guardrails/core/command_normalized.go\<close> that operation policies are matched
  against.

  The tool arguments are a JSON object: an association list of JSON values, of which strings,
  arrays and objects are told apart.  \<^verbatim>\<open>encoding/json\<close> is a parameter.  The free-form map
  \<^verbatim>\<open>NormalizedCommand.Structured\<close> has three keys, which are three fields here.
\<close>

section \<open>Tokens\<close>

definition shellOperators :: "string list" where
  "shellOperators = [''|'', ''||'', ''&&'', '';'']"

definition shellTokenOperators :: "string list" where
  "shellTokenOperators =
     [''2>>'', ''1>>'', ''>>'', ''<<'', ''&&'', ''||'', ''2>'', ''1>'', ''&>'', ''>'', ''<'', ''|'', '';'']"

text \<open>
  The tokenizer reads bytes but treats each as a rune: \<^verbatim>\<open>unicode.IsSpace\<close> on the runes below
  256, and \<^verbatim>\<open>WriteRune\<close>, which writes a rune of 128 and above as two bytes.
\<close>

definition isSpaceRune :: "char \<Rightarrow> bool" where
  "isSpaceRune c \<longleftrightarrow> (of_char c :: nat) \<in> {9, 10, 11, 12, 13, 32, 133, 160}"

definition WriteRune :: "char \<Rightarrow> string" where
  "WriteRune c =
     (let n = (of_char c :: nat) in
      if n < 128 then [c] else [char_of (192 + n div 64), char_of (128 + n mod 64)])"

definition detectShellOperator :: "string \<Rightarrow> string option" where
  "detectShellOperator rest = List.find (HasPrefix rest) shellTokenOperators"

abbreviation "bsl \<equiv> CHR 0x5C"
abbreviation "dquote \<equiv> CHR 0x22"
abbreviation "squote \<equiv> CHR 0x27"

text \<open>
  The scan over \<^verbatim>\<open>raw\<close>: \<open>quote\<close> is the open quote, if any, \<open>current\<close> the token being built;
  the result is the tokens from here on.
\<close>

definition flushToken :: "string \<Rightarrow> string list" where
  "flushToken current = (if current = [] then [] else [current])"

function splitLoop :: "string \<Rightarrow> char option \<Rightarrow> bool \<Rightarrow> string \<Rightarrow> string list" where
  "splitLoop [] quote escaped current = flushToken current"
| "splitLoop (r # rest) quote escaped current =
     (if escaped then splitLoop rest quote False (current @ WriteRune r)
      else (case quote of
        Some q \<Rightarrow>
          if r = bsl \<and> q = dquote then splitLoop rest quote True current
          else if r = q then splitLoop rest None False current
          else splitLoop rest quote False (current @ WriteRune r)
      | None \<Rightarrow>
          if r = bsl then splitLoop rest quote True current
          else if r = squote \<or> r = dquote then splitLoop rest (Some r) False current
          else if isSpaceRune r then flushToken current @ splitLoop rest None False []
          else (case detectShellOperator (r # rest) of
                  Some op \<Rightarrow> flushToken current @ [op] @ splitLoop (drop (length op - 1) rest) None False []
                | None \<Rightarrow> splitLoop rest None False (current @ WriteRune r))))"
  by pat_completeness auto
termination by (relation "measure (\<lambda>(raw, _). length raw)") auto

definition shellSplit :: "string \<Rightarrow> string list" where
  "shellSplit raw = splitLoop raw None False []"

section \<open>Simple commands, operators and redirects\<close>

record ShellSimpleCommand =
  Program :: string
  Args :: "string list"

record ShellRedirect =
  Op :: string
  Target :: string

record ShellCommand =
  Raw :: string
  Commands :: "ShellSimpleCommand list"
  Operators :: "string list"
  Redirects :: "ShellRedirect list"

definition isShellOperator :: "string \<Rightarrow> bool" where
  "isShellOperator tok \<longleftrightarrow> tok \<in> set shellOperators"

definition isShellRedirect :: "string \<Rightarrow> bool" where
  "isShellRedirect tok \<longleftrightarrow>
     tok \<in> {''>'', ''>>'', ''<'', ''<<'', ''2>'', ''2>>'', ''&>'', ''1>'', ''1>>''} \<and>
     tok \<in> set shellTokenOperators"

record shellCommandParser =
  out :: ShellCommand
  current :: ShellSimpleCommand

definition newShellCommandParser :: "string \<Rightarrow> shellCommandParser" where
  "newShellCommandParser raw =
     \<lparr>out = \<lparr>Raw = raw, Commands = [], Operators = [], Redirects = []\<rparr>, current = \<lparr>Program = [], Args = []\<rparr>\<rparr>"

definition flushCurrent :: "shellCommandParser \<Rightarrow> shellCommandParser" where
  "flushCurrent p =
     (if Program (current p) = [] then p
      else p\<lparr>out := (out p)\<lparr>Commands := Commands (out p) @ [current p]\<rparr>,
             current := \<lparr>Program = [], Args = []\<rparr>\<rparr>)"

definition pushWord :: "string \<Rightarrow> shellCommandParser \<Rightarrow> shellCommandParser" where
  "pushWord token p =
     (if Program (current p) = [] then p\<lparr>current := (current p)\<lparr>Program := token\<rparr>\<rparr>
      else p\<lparr>current := (current p)\<lparr>Args := Args (current p) @ [token]\<rparr>\<rparr>)"

definition pushOperator :: "string \<Rightarrow> shellCommandParser \<Rightarrow> shellCommandParser" where
  "pushOperator tok p = (let p1 = flushCurrent p in p1\<lparr>out := (out p1)\<lparr>Operators := Operators (out p1) @ [tok]\<rparr>\<rparr>)"

definition pushRedirect :: "string \<Rightarrow> string \<Rightarrow> shellCommandParser \<Rightarrow> shellCommandParser" where
  "pushRedirect tok target p =
     p\<lparr>out := (out p)\<lparr>Redirects := Redirects (out p) @ [\<lparr>Op = tok, Target = target\<rparr>]\<rparr>\<rparr>"

fun parseTokens :: "string list \<Rightarrow> shellCommandParser \<Rightarrow> shellCommandParser" where
  "parseTokens [] p = p"
| "parseTokens (tok # toks) p =
     (if isShellOperator tok then parseTokens toks (pushOperator tok p)
      else if isShellRedirect tok
      then (case toks of
              [] \<Rightarrow> parseTokens [] (pushRedirect tok [] p)
            | target # toks' \<Rightarrow> parseTokens toks' (pushRedirect tok target p))
      else parseTokens toks (pushWord tok p))"

definition ParseShellCommand :: "string \<Rightarrow> ShellCommand option" where
  "ParseShellCommand raw =
     (let tokens = shellSplit raw in
      if tokens = [] then None
      else (let sc = out (flushCurrent (parseTokens tokens (newShellCommandParser (TrimSpace raw))))
            in if Commands sc = [] \<and> Redirects sc = [] \<and> Operators sc = [] then None else Some sc))"

text \<open>The text form \<^verbatim>\<open>ShellCommand.MatchText\<close>.\<close>

definition commandText :: "nat \<Rightarrow> ShellSimpleCommand \<Rightarrow> string" where
  "commandText i cmd =
     '' shell.command['' @ Itoa (int i) @ '']: '' @ TrimSpace (Join (Program cmd # Args cmd) '' '') @
     (if Program cmd = [] then [] else '' shell.program['' @ Itoa (int i) @ '']: '' @ Program cmd) @
     (if Args cmd = [] then [] else '' shell.args['' @ Itoa (int i) @ '']: '' @ Join (Args cmd) '' '')"

definition Shell_MatchText :: "ShellCommand \<Rightarrow> string" where
  "Shell_MatchText s =
     (if Raw s = [] then [] else '' shell.raw: '' @ Raw s) @
     concat (map (\<lambda>(i, cmd). commandText i cmd) (List.enumerate 0 (Commands s))) @
     (if Operators s = [] then [] else '' shell.operators: '' @ Join (Operators s) '' '') @
     (if Redirects s = [] then []
      else '' shell.redirects: '' @
        Join (map (\<lambda>r. TrimSpace (Op r @ '' '' @ Target r)) (Redirects s)) '' '')"

section \<open>The normalized command\<close>

abbreviation "ActionRead \<equiv> ''read''"
abbreviation "ActionWrite \<equiv> ''write''"
abbreviation "ActionDelete \<equiv> ''delete''"
abbreviation "ActionExecute \<equiv> ''execute''"
abbreviation "ActionNetwork \<equiv> ''network''"
abbreviation "ActionInstall \<equiv> ''install''"

record NormalizedCommand =
  Kind :: string
  norm_Raw :: string
  Terms :: "string list"
  Resources :: "string list"
  Actions :: "string list"
  programs :: "string list"
  operators :: "string list"
  redirects :: "ShellRedirect list"

definition Normalized_MatchText :: "NormalizedCommand \<Rightarrow> string" where
  "Normalized_MatchText n =
     (if Kind n = [] then [] else '' normalized.kind: '' @ Kind n) @
     (if norm_Raw n = [] then [] else '' normalized.raw: '' @ norm_Raw n) @
     (if Actions n = [] then [] else '' normalized.actions: '' @ Join (Actions n) '' '') @
     (if Resources n = [] then [] else '' normalized.resources: '' @ Join (Resources n) '' '') @
     (if Terms n = [] then [] else '' normalized.terms: '' @ Join (Terms n) '' '')"

definition appendUniqueString :: "string list \<Rightarrow> string \<Rightarrow> string list" where
  "appendUniqueString items value =
     (if value = [] then items else if value \<in> set items then items else items @ [value])"

definition isResourceLikeToken :: "string \<Rightarrow> bool" where
  "isResourceLikeToken token =
     (if token = [] then False
      else if HasPrefix token ''/'' \<or> HasPrefix token ''~/'' \<or> HasPrefix token ''./'' \<or> HasPrefix token ''../''
      then True
      else Contains token ''/'' \<or> Contains token ''.'')"

definition normalizeShellAction :: "string \<Rightarrow> string" where
  "normalizeShellAction program =
     (if program \<in> {''cat'', ''less'', ''more'', ''head'', ''tail'', ''grep'', ''rg'', ''find'', ''ls'', ''stat''}
      then ActionRead
      else if program \<in> {''cp'', ''mv'', ''tee'', ''touch'', ''mkdir'', ''chmod'', ''chown'', ''sed'', ''awk''}
      then ActionWrite
      else if program \<in> {''rm'', ''rmdir'', ''shred''} then ActionDelete
      else if program \<in> {''curl'', ''wget'', ''scp'', ''rsync''} then ActionNetwork
      else ActionExecute)"

definition lowerTrimmed :: "string list \<Rightarrow> string list" where
  "lowerTrimmed values = filter (\<lambda>v. v \<noteq> []) (map (\<lambda>v. ToLower (TrimSpace v)) values)"

definition firstArgIn :: "string list \<Rightarrow> string list \<Rightarrow> bool" where
  "firstArgIn args values = (case args of [] \<Rightarrow> False | first # _ \<Rightarrow> first \<in> set values)"

definition containsArg :: "string list \<Rightarrow> string \<Rightarrow> bool" where
  "containsArg args target \<longleftrightarrow> target \<in> set args"

definition hasArgSequence :: "string list \<Rightarrow> string list \<Rightarrow> bool" where
  "hasArgSequence args sequence =
     (if length args < length sequence \<or> sequence = [] then False
      else (\<exists>i\<in>set [0..<Suc (length args - length sequence)].
              \<forall>j\<in>set [0..<length sequence]. args ! (i + j) = sequence ! j))"

definition isInstallCommand :: "ShellSimpleCommand \<Rightarrow> bool" where
  "isInstallCommand cmd =
     (let program = ToLower (TrimSpace (Program cmd)); args = lowerTrimmed (Args cmd) in
      if program = [] then False
      else if program \<in> {''pip'', ''pip2'', ''pip3'', ''pipx''} then firstArgIn args [''install'']
      else if program = ''uv'' then hasArgSequence args [''pip'', ''install''] \<or> hasArgSequence args [''tool'', ''install'']
      else if program \<in> {''npm'', ''npm.cmd''} then firstArgIn args [''install'', ''i'', ''add'']
      else if program = ''pnpm'' then firstArgIn args [''install'', ''i'', ''add'']
      else if program = ''yarn'' then firstArgIn args [''install'', ''add''] \<or> hasArgSequence args [''global'', ''add'']
      else if program = ''cargo'' then firstArgIn args [''install'', ''add'']
      else if program = ''go'' then firstArgIn args [''install'', ''get'']
      else if program = ''dotnet'' then hasArgSequence args [''add'', ''package''] \<or> hasArgSequence args [''tool'', ''install'']
      else if program \<in> {''nuget'', ''paket''} then firstArgIn args [''install'', ''add'']
      else if program = ''gem'' then firstArgIn args [''install'']
      else if program \<in> {''bundle'', ''bundler''} then firstArgIn args [''install'', ''add'']
      else if program \<in> {''mvn'', ''mvnw''} then firstArgIn args [''dependency:get'', ''dependency:copy'', ''dependency:resolve'']
      else if program \<in> {''code'', ''code-insiders'', ''codium''} then containsArg args ''--install-extension''
      else if program \<in> {''openvsx'', ''ovsx''} then firstArgIn args [''install'']
      else if program = ''git'' then firstArgIn args [''clone'']
      else if HasPrefix program ''python'' then hasArgSequence args [''-m'', ''pip'', ''install'']
      else False)"

text \<open>The three loops of \<^verbatim>\<open>normalizeShellCommand\<close>; the loop state is the three lists.\<close>

type_synonym norm_lists = "string list \<times> string list \<times> string list"

definition addArg :: "string \<Rightarrow> norm_lists \<Rightarrow> norm_lists" where
  "addArg arg = (\<lambda>(terms, resources, actions).
     (appendUniqueString terms arg,
      if isResourceLikeToken arg then appendUniqueString resources arg else resources,
      actions))"

definition addCommand :: "ShellSimpleCommand \<Rightarrow> norm_lists \<Rightarrow> norm_lists" where
  "addCommand cmd = (\<lambda>(terms, resources, actions).
     if Program cmd = [] then (terms, resources, actions)
     else (let actions1 = appendUniqueString actions ActionExecute;
               actions2 = appendUniqueString actions1 (normalizeShellAction (Program cmd));
               actions3 = (if isInstallCommand cmd then appendUniqueString actions2 ActionInstall else actions2)
           in fold addArg (Args cmd) (appendUniqueString terms (Program cmd), resources, actions3)))"

definition addRedirect :: "ShellRedirect \<Rightarrow> norm_lists \<Rightarrow> norm_lists" where
  "addRedirect r = (\<lambda>(terms, resources, actions).
     let terms1 = (if Op r \<noteq> [] then appendUniqueString terms (Op r) else terms) in
     if Target r \<noteq> []
     then (appendUniqueString terms1 (Target r),
           if isResourceLikeToken (Target r) then appendUniqueString resources (Target r) else resources,
           appendUniqueString actions ActionWrite)
     else (terms1, resources, actions))"

definition normalizeShellCommand :: "ShellCommand \<Rightarrow> NormalizedCommand" where
  "normalizeShellCommand shell =
     (case fold addRedirect (Redirects shell) (fold addCommand (Commands shell) ([], [], [])) of
        (terms, resources, actions) \<Rightarrow>
          \<lparr>Kind = ''shell'', norm_Raw = Raw shell,
           Terms = fold (\<lambda>op ts. appendUniqueString ts op) (Operators shell) terms,
           Resources = resources, Actions = actions,
           programs = filter (\<lambda>p. p \<noteq> []) (map Program (Commands shell)),
           operators = Operators shell, redirects = Redirects shell\<rparr>)"

section \<open>The command inside a tool call\<close>

datatype json_value =
    JString string
  | JArray "json_value list"
  | JObject "(string \<times> json_value) list"
  | JOther string

record Command =
  Name :: string
  Arguments :: "(string \<times> json_value) list"
  Shell :: "ShellCommand option"
  Normalized :: "NormalizedCommand option"

type_synonym json_ext = "string \<Rightarrow> (string \<times> json_value) list option"

definition shellCommandArgumentKeys :: "string list" where
  "shellCommandArgumentKeys = [''command'', ''cmd'', ''script'']"

definition genericCommandArgumentKeys :: "string list" where
  "genericCommandArgumentKeys = [''command'', ''cmd'', ''script'', ''raw_command'']"

definition isShellCommandName :: "string \<Rightarrow> bool" where
  "isShellCommandName name \<longleftrightarrow> ToLower (TrimSpace name) \<in> {''bash'', ''sh'', ''zsh''}"

definition commandArgumentKeys :: "string \<Rightarrow> string list" where
  "commandArgumentKeys name =
     (if isShellCommandName name then shellCommandArgumentKeys else genericCommandArgumentKeys)"

definition stringArgument :: "(string \<times> json_value) list \<Rightarrow> string \<Rightarrow> string option" where
  "stringArgument args key =
     (case map_of args key of
        Some (JString text) \<Rightarrow> if TrimSpace text = [] then None else Some text
      | _ \<Rightarrow> None)"

fun firstSome :: "('a \<Rightarrow> 'b option) \<Rightarrow> 'a list \<Rightarrow> 'b option" where
  "firstSome f [] = None"
| "firstSome f (x # xs) = (case f x of Some y \<Rightarrow> Some y | None \<Rightarrow> firstSome f xs)"

definition extractShellCommandFromRawJSON :: "json_ext \<Rightarrow> string \<Rightarrow> string option" where
  "extractShellCommandFromRawJSON unmarshal raw0 =
     (let raw = TrimSpace raw0 in
      if raw = [] then None
      else (let candidates = [raw] @ (case Index raw (CHR ''{'' # [dquote]) of
                                        Some start \<Rightarrow> [drop start raw] | None \<Rightarrow> [])
            in firstSome (\<lambda>candidate. case unmarshal candidate of
                   None \<Rightarrow> None
                 | Some parsed \<Rightarrow> firstSome (stringArgument parsed) genericCommandArgumentKeys) candidates))"

definition ExtractShellCommandText :: "json_ext \<Rightarrow> string \<Rightarrow> (string \<times> json_value) list \<Rightarrow> string option" where
  "ExtractShellCommandText unmarshal name args =
     (if args = [] then None
      else (case firstSome (stringArgument args) (commandArgumentKeys name) of
              Some text \<Rightarrow> Some text
            | None \<Rightarrow> (case map_of args ''_raw'' of
                         Some (JString raw) \<Rightarrow> extractShellCommandFromRawJSON unmarshal raw
                       | _ \<Rightarrow> None)))"

definition AttachDerivedFields :: "json_ext \<Rightarrow> Command \<Rightarrow> Command" where
  "AttachDerivedFields unmarshal c =
     (case ExtractShellCommandText unmarshal (Name c) (Arguments c) of
        None \<Rightarrow> c
      | Some raw \<Rightarrow>
          if TrimSpace raw = [] then c
          else (case ParseShellCommand raw of
                  None \<Rightarrow> c
                | Some parsed \<Rightarrow> c\<lparr>Shell := Some parsed, Normalized := Some (normalizeShellCommand parsed)\<rparr>))"

section \<open>What the tokenizer keeps\<close>

lemma detectShellOperator_Some:
  "detectShellOperator rest = Some op \<Longrightarrow> op \<in> set shellTokenOperators \<and> HasPrefix rest op"
  unfolding detectShellOperator_def by (auto dest: find_Some_mem)

lemma WriteRune_nonempty [simp]: "WriteRune c \<noteq> []"
  by (simp add: WriteRune_def Let_def)

lemma WriteRune_ascii [simp]: "(of_char c :: nat) < 128 \<Longrightarrow> WriteRune c = [c]"
  by (simp add: WriteRune_def)

lemma splitLoop_nonempty: "[] \<notin> set (splitLoop raw quote escaped cur)"
proof (induction raw quote escaped cur rule: splitLoop.induct)
  case (2 r rest quote escaped cur)
  show ?case
    by (cases escaped; cases quote)
      (use 2 detectShellOperator_Some [of "r # rest"] in
        \<open>auto simp: flushToken_def shellTokenOperators_def split: option.splits if_splits\<close>)
qed (simp add: flushToken_def)

lemma shellSplit_nonempty: "[] \<notin> set (shellSplit raw)"
  by (simp add: shellSplit_def splitLoop_nonempty)

section \<open>The parser against a two-pass reading\<close>

text \<open>
  Reading the tokens in two passes: first take the redirects out, each with the token after it,
  then cut what is left at the operators.
\<close>

fun takeRedirects :: "string list \<Rightarrow> ShellRedirect list \<times> string list" where
  "takeRedirects [] = ([], [])"
| "takeRedirects [tok] = (if isShellRedirect tok then ([\<lparr>Op = tok, Target = []\<rparr>], []) else ([], [tok]))"
| "takeRedirects (tok # target # toks) =
     (if isShellRedirect tok
      then (let (rs, rest) = takeRedirects toks in (\<lparr>Op = tok, Target = target\<rparr> # rs, rest))
      else (let (rs, rest) = takeRedirects (target # toks) in (rs, tok # rest)))"

fun cutAtOperators :: "string list \<Rightarrow> string list \<Rightarrow> string list list" where
  "cutAtOperators word_list [] = [word_list]"
| "cutAtOperators word_list (tok # toks) =
     (if isShellOperator tok then word_list # cutAtOperators [] toks
      else cutAtOperators (word_list @ [tok]) toks)"

definition simpleCommand :: "string list \<Rightarrow> ShellSimpleCommand" where
  "simpleCommand ws = \<lparr>Program = hd ws, Args = tl ws\<rparr>"

definition wordsOf :: "ShellSimpleCommand \<Rightarrow> string list" where
  "wordsOf cmd = (if Program cmd = [] then [] else Program cmd # Args cmd)"

lemma operator_not_redirect: "isShellOperator t \<Longrightarrow> \<not> isShellRedirect t"
  by (auto simp: isShellOperator_def isShellRedirect_def shellOperators_def)

definition parserOk :: "shellCommandParser \<Rightarrow> bool" where
  "parserOk p \<longleftrightarrow> (Program (current p) = [] \<longrightarrow> Args (current p) = [])"

lemma flushCurrent_out:
  "out (flushCurrent p) = (out p)\<lparr>Commands := Commands (out p) @ map simpleCommand (filter (\<lambda>ws. ws \<noteq> []) [wordsOf (current p)])\<rparr>"
  "parserOk p \<Longrightarrow> current (flushCurrent p) = \<lparr>Program = [], Args = []\<rparr>"
  by (cases "current p"; auto simp: flushCurrent_def wordsOf_def simpleCommand_def parserOk_def)+

lemma pushWord_out [simp]: "out (pushWord t p) = out p"
  by (simp add: pushWord_def)

lemma wordsOf_push: "t \<noteq> [] \<Longrightarrow> parserOk p \<Longrightarrow> wordsOf (current (pushWord t p)) = wordsOf (current p) @ [t]"
  by (auto simp: pushWord_def wordsOf_def parserOk_def)

lemma parserOk_push: "t \<noteq> [] \<Longrightarrow> parserOk p \<Longrightarrow> parserOk (pushWord t p)"
  by (auto simp: pushWord_def parserOk_def)

lemma takeRedirects_word:
  "\<not> isShellRedirect t \<Longrightarrow> takeRedirects (t # toks) = (fst (takeRedirects toks), t # snd (takeRedirects toks))"
  by (cases toks) (simp_all add: split_beta Let_def)

lemma parseTokens_reference:
  assumes "[] \<notin> set toks" and "parserOk p"
  shows "out (flushCurrent (parseTokens toks p)) =
    (out p)\<lparr>Commands := Commands (out p) @
              map simpleCommand (filter (\<lambda>ws. ws \<noteq> []) (cutAtOperators (wordsOf (current p)) (snd (takeRedirects toks)))),
            Operators := Operators (out p) @ filter isShellOperator (snd (takeRedirects toks)),
            Redirects := Redirects (out p) @ fst (takeRedirects toks)\<rparr>"
  using assms
proof (induction toks p rule: parseTokens.induct)
  case (1 p)
  then show ?case by (simp add: flushCurrent_out)
next
  case (2 tok toks p)
  consider "isShellOperator tok" | "isShellRedirect tok" "\<not> isShellOperator tok"
    | "\<not> isShellRedirect tok" "\<not> isShellOperator tok" by blast
  then show ?case
  proof cases
    case 1
    then have keep: "parserOk (pushOperator tok p)"
      and cur: "current (pushOperator tok p) = \<lparr>Program = [], Args = []\<rparr>"
      using "2.prems" flushCurrent_out(2) [of p] by (simp_all add: pushOperator_def Let_def parserOk_def)
    have outs: "out (pushOperator tok p) = (out p)\<lparr>Commands := Commands (out p) @
        map simpleCommand (filter (\<lambda>ws. ws \<noteq> []) [wordsOf (current p)]), Operators := Operators (out p) @ [tok]\<rparr>"
      by (simp add: pushOperator_def Let_def flushCurrent_out)
    from 1 "2.IH"(1) [OF 1 _ keep] "2.prems"(1) show ?thesis
      by (simp add: takeRedirects_word operator_not_redirect cur outs wordsOf_def)
  next
    case 2
    show ?thesis
    proof (cases toks)
      case Nil
      with 2 show ?thesis by (simp add: pushRedirect_def flushCurrent_out)
    next
      case (Cons target toks')
      have keep: "parserOk (pushRedirect tok target p)" using "2.prems"(2) by (simp add: pushRedirect_def parserOk_def)
      have "[] \<notin> set toks'" using "2.prems"(1) Cons by simp
      from "2.IH"(3) [OF 2(2,1) Cons this keep] 2 Cons show ?thesis
        by (simp add: pushRedirect_def split_beta)
    qed
  next
    case 3
    have "tok \<noteq> []" "[] \<notin> set toks" using "2.prems"(1) by auto
    with 3 "2.IH"(4) [OF 3(2,1) _ parserOk_push] "2.prems"(2) show ?thesis
      by (simp add: takeRedirects_word wordsOf_push)
  qed
qed

lemma cutAtOperators_words:
  "concat (cutAtOperators ws toks) = ws @ filter (\<lambda>t. \<not> isShellOperator t) toks"
  by (induction ws toks rule: cutAtOperators.induct) auto

lemma takeRedirects_tokens:
  "[] \<notin> set toks \<Longrightarrow>
   set toks = set (snd (takeRedirects toks)) \<union> Op ` set (fst (takeRedirects toks)) \<union>
     (Target ` set (fst (takeRedirects toks)) - {[]})"
  by (induction toks rule: takeRedirects.induct) (auto simp: split_beta Let_def)

definition readShell :: "string \<Rightarrow> string list \<Rightarrow> ShellCommand" where
  "readShell raw toks =
     \<lparr>Raw = raw,
      Commands = map simpleCommand (filter (\<lambda>ws. ws \<noteq> []) (cutAtOperators [] (snd (takeRedirects toks)))),
      Operators = filter isShellOperator (snd (takeRedirects toks)),
      Redirects = fst (takeRedirects toks)\<rparr>"

lemma readShell_empty:
  assumes "[] \<notin> set toks"
  shows "Commands (readShell raw toks) = [] \<and> Redirects (readShell raw toks) = [] \<and>
     Operators (readShell raw toks) = [] \<longleftrightarrow> toks = []"
proof
  assume e: "Commands (readShell raw toks) = [] \<and> Redirects (readShell raw toks) = [] \<and>
     Operators (readShell raw toks) = []"
  let ?rest = "snd (takeRedirects toks)"
  from e have "concat (cutAtOperators [] ?rest) = []"
    by (simp add: readShell_def filter_empty_conv)
  then have "filter (\<lambda>t. \<not> isShellOperator t) ?rest = []"
    using cutAtOperators_words [of "[]" ?rest] by (simp only: append_Nil)
  with e have "set ?rest = {}" by (auto simp: readShell_def filter_empty_conv)
  with e takeRedirects_tokens [OF assms] show "toks = []" by (simp add: readShell_def)
qed (simp add: readShell_def)

lemma ParseShellCommand_read:
  "ParseShellCommand raw = (if shellSplit raw = [] then None else Some (readShell (TrimSpace raw) (shellSplit raw)))"
proof -
  let ?p = "newShellCommandParser (TrimSpace raw)"
  have "out (flushCurrent (parseTokens (shellSplit raw) ?p)) = readShell (TrimSpace raw) (shellSplit raw)"
    using parseTokens_reference [OF shellSplit_nonempty, of ?p]
    by (simp add: newShellCommandParser_def parserOk_def readShell_def wordsOf_def)
  then show ?thesis
    using readShell_empty [OF shellSplit_nonempty]
    by (simp add: ParseShellCommand_def Let_def)
qed

text \<open>
  The one-pass parser reads the same structure as the two passes.  A command
  text has no structure exactly when it has no token; otherwise the redirects are the redirect
  tokens with the token after each, and what is left is cut at the operators into simple
  commands, empty ones left out, each a program and its arguments in order.
\<close>

theorem ParseShellCommand_two_pass:
  "ParseShellCommand raw =
     (let toks = shellSplit raw; (rs, rest) = takeRedirects toks in
      if toks = [] then None
      else Some \<lparr>Raw = TrimSpace raw,
        Commands = map (\<lambda>ws. \<lparr>Program = hd ws, Args = tl ws\<rparr>)
          (filter (\<lambda>ws. ws \<noteq> []) (cutAtOperators [] rest)),
        Operators = filter isShellOperator rest, Redirects = rs\<rparr>)"
  by (simp add: ParseShellCommand_read readShell_def simpleCommand_def [abs_def] split_beta Let_def)

section \<open>What the normalized command says\<close>

definition appendAll :: "string list \<Rightarrow> string list \<Rightarrow> string list" where
  "appendAll xs items = fold (\<lambda>x ys. appendUniqueString ys x) xs items"

lemma appendUnique_set: "set (appendUniqueString items v) = set items \<union> ({v} - {[]})"
  by (auto simp: appendUniqueString_def)

lemma appendUnique_distinct: "distinct items \<Longrightarrow> distinct (appendUniqueString items v)"
  by (auto simp: appendUniqueString_def)

lemma appendAll_set: "set (appendAll xs items) = set items \<union> (set xs - {[]})"
  by (induction xs arbitrary: items) (auto simp: appendAll_def appendUnique_set)

lemma appendAll_distinct: "distinct items \<Longrightarrow> distinct (appendAll xs items)"
  by (induction xs arbitrary: items) (auto simp: appendAll_def appendUnique_distinct)

lemma appendAll_append: "appendAll (xs @ ys) items = appendAll ys (appendAll xs items)"
  by (simp add: appendAll_def)

lemma addArg_fold:
  "fold addArg args (terms, resources, actions) =
     (appendAll args terms, appendAll (filter isResourceLikeToken args) resources, actions)"
  by (induction args arbitrary: terms resources) (auto simp: addArg_def appendAll_def)

definition commandActions :: "ShellSimpleCommand \<Rightarrow> string list" where
  "commandActions cmd =
     (if Program cmd = [] then []
      else [ActionExecute, normalizeShellAction (Program cmd)] @ (if isInstallCommand cmd then [ActionInstall] else []))"

definition commandArgs :: "ShellSimpleCommand \<Rightarrow> string list" where
  "commandArgs cmd = (if Program cmd = [] then [] else Args cmd)"

lemma addCommand_eq:
  "addCommand cmd (terms, resources, actions) =
     (appendAll (wordsOf cmd) terms, appendAll (filter isResourceLikeToken (commandArgs cmd)) resources,
      appendAll (commandActions cmd) actions)"
  by (simp add: addCommand_def Let_def addArg_fold wordsOf_def commandArgs_def commandActions_def)
     (simp add: appendAll_def)

lemma addCommand_fold:
  "fold addCommand cmds (terms, resources, actions) =
     (appendAll (concat (map wordsOf cmds)) terms,
      appendAll (filter isResourceLikeToken (concat (map commandArgs cmds))) resources,
      appendAll (concat (map commandActions cmds)) actions)"
  by (induction cmds arbitrary: terms resources actions)
     (simp_all add: addCommand_eq appendAll_append filter_concat, simp_all add: appendAll_def)

lemma addRedirect_eq:
  "addRedirect r (terms, resources, actions) =
     (appendAll [Op r, Target r] terms, appendAll (filter isResourceLikeToken [Target r]) resources,
      appendAll (if Target r = [] then [] else [ActionWrite]) actions)"
  by (simp add: addRedirect_def Let_def appendAll_def appendUniqueString_def isResourceLikeToken_def)

lemma addRedirect_fold:
  "fold addRedirect rs (terms, resources, actions) =
     (appendAll (concat (map (\<lambda>r. [Op r, Target r]) rs)) terms,
      appendAll (filter isResourceLikeToken (map Target rs)) resources,
      appendAll (concat (map (\<lambda>r. if Target r = [] then [] else [ActionWrite]) rs)) actions)"
  by (induction rs arbitrary: terms resources actions)
     (simp_all add: addRedirect_eq appendAll_append, simp_all add: appendAll_def)

lemma normalize_parts:
  "Terms (normalizeShellCommand sc) =
     appendAll (concat (map wordsOf (Commands sc)) @ concat (map (\<lambda>r. [Op r, Target r]) (Redirects sc)) @
       Operators sc) []"
  "Resources (normalizeShellCommand sc) =
     appendAll (filter isResourceLikeToken (concat (map commandArgs (Commands sc)) @ map Target (Redirects sc))) []"
  "Actions (normalizeShellCommand sc) =
     appendAll (concat (map commandActions (Commands sc)) @
       concat (map (\<lambda>r. if Target r = [] then [] else [ActionWrite]) (Redirects sc))) []"
  by (simp_all add: normalizeShellCommand_def addCommand_fold addRedirect_fold appendAll_append)
     (simp add: appendAll_def)

lemma normalizeShellAction_nonempty [simp]: "normalizeShellAction p \<noteq> []" "[] \<noteq> normalizeShellAction p"
  by (simp_all add: normalizeShellAction_def)

lemma wordsOf_simple: "ws \<noteq> [] \<Longrightarrow> [] \<notin> set ws \<Longrightarrow> wordsOf (simpleCommand ws) = ws"
  by (cases ws) (auto simp: wordsOf_def simpleCommand_def)

lemma cut_sub: "ws \<in> set (cutAtOperators cur toks) \<Longrightarrow> set ws \<subseteq> set cur \<union> set toks"
  by (induction cur toks rule: cutAtOperators.induct) (auto split: if_splits)

lemma concat_nonempty: "concat (filter (\<lambda>ws. ws \<noteq> []) xss) = concat xss"
  by (induction xss) auto

lemma readShell_words:
  assumes "[] \<notin> set toks"
  shows "concat (map wordsOf (Commands (readShell raw toks))) =
     filter (\<lambda>t. \<not> isShellOperator t) (snd (takeRedirects toks))"
    and "\<forall>cmd \<in> set (Commands (readShell raw toks)). Program cmd \<noteq> []"
proof -
  let ?rest = "snd (takeRedirects toks)"
  let ?segs = "filter (\<lambda>ws. ws \<noteq> []) (cutAtOperators [] ?rest)"
  have rest: "[] \<notin> set ?rest" using takeRedirects_tokens [OF assms] assms by blast
  have seg: "[] \<notin> set ws \<and> ws \<noteq> []" if "ws \<in> set ?segs" for ws
    using that rest cut_sub [of ws "[]" ?rest] by auto
  then have "map (\<lambda>ws. wordsOf (simpleCommand ws)) ?segs = ?segs"
    by (intro map_idI) (simp add: wordsOf_simple)
  moreover have "concat ?segs = concat (cutAtOperators [] ?rest)" by (rule concat_nonempty)
  ultimately show "concat (map wordsOf (Commands (readShell raw toks))) = filter (\<lambda>t. \<not> isShellOperator t) ?rest"
    using cutAtOperators_words [of "[]" ?rest] by (simp add: readShell_def comp_def)
  show "\<forall>cmd \<in> set (Commands (readShell raw toks)). Program cmd \<noteq> []"
    using seg by (auto simp: readShell_def simpleCommand_def) (metis list.set_sel(1))
qed

lemma normalized_command_facts:
  assumes "ParseShellCommand raw = Some sc"
  shows "distinct (Terms (normalizeShellCommand sc)) \<and>
    set (Terms (normalizeShellCommand sc)) = set (shellSplit raw) \<and>
    set (Resources (normalizeShellCommand sc)) =
      {t. isResourceLikeToken t \<and>
          ((\<exists>cmd\<in>set (Commands sc). t \<in> set (Args cmd)) \<or> (\<exists>r\<in>set (Redirects sc). t = Target r))} \<and>
    set (Actions (normalizeShellCommand sc)) =
      {a. \<exists>cmd\<in>set (Commands sc). a = ActionExecute \<or> a = normalizeShellAction (Program cmd) \<or>
            a = ActionInstall \<and> isInstallCommand cmd} \<union>
      {a. a = ActionWrite \<and> (\<exists>r\<in>set (Redirects sc). Target r \<noteq> [])}"
proof -
  from assms have sc: "sc = readShell (TrimSpace raw) (shellSplit raw)"
    by (simp add: ParseShellCommand_read split: if_splits)
  note ne = shellSplit_nonempty [of raw]
  note w = readShell_words [OF ne, of "TrimSpace raw", folded sc]
  have ops: "Operators sc = filter isShellOperator (snd (takeRedirects (shellSplit raw)))"
    "Redirects sc = fst (takeRedirects (shellSplit raw))" by (simp_all add: sc readShell_def)
  have "set (shellSplit raw) = set (filter (\<lambda>t. \<not> isShellOperator t) (snd (takeRedirects (shellSplit raw)))) \<union>
      set (Operators sc) \<union> Op ` set (Redirects sc) \<union> (Target ` set (Redirects sc) - {[]})"
    using takeRedirects_tokens [OF ne] unfolding ops by auto
  with ne have terms: "set (Terms (normalizeShellCommand sc)) = set (shellSplit raw)"
    unfolding normalize_parts appendAll_set set_append w(1) by auto
  have args: "commandArgs cmd = Args cmd" if "cmd \<in> set (Commands sc)" for cmd
    using that w(2) by (simp add: commandArgs_def)
  have res: "set (Resources (normalizeShellCommand sc)) =
      {t. isResourceLikeToken t \<and>
          ((\<exists>cmd\<in>set (Commands sc). t \<in> set (Args cmd)) \<or> (\<exists>r\<in>set (Redirects sc). t = Target r))}"
  proof -
    have "map commandArgs (Commands sc) = map Args (Commands sc)" using args by simp
    moreover have "\<not> isResourceLikeToken []" by (simp add: isResourceLikeToken_def)
    ultimately show ?thesis unfolding normalize_parts appendAll_set by auto
  qed
  have acts: "set (commandActions cmd) = {ActionExecute, normalizeShellAction (Program cmd)} \<union>
      (if isInstallCommand cmd then {ActionInstall} else {})" if "cmd \<in> set (Commands sc)" for cmd
    using that w(2) by (simp add: commandActions_def)
  have act: "set (Actions (normalizeShellCommand sc)) =
      {a. \<exists>cmd\<in>set (Commands sc). a = ActionExecute \<or> a = normalizeShellAction (Program cmd) \<or>
            a = ActionInstall \<and> isInstallCommand cmd} \<union>
      {a. a = ActionWrite \<and> (\<exists>r\<in>set (Redirects sc). Target r \<noteq> [])}"
    unfolding normalize_parts appendAll_set using acts by (auto split: if_splits)
  show ?thesis using terms res act
    by (simp add: normalize_parts(1) appendAll_distinct)
qed

text \<open>
  What policies see of a command text.  Its terms are its tokens, all of them,
  each once; its resources are the arguments and redirect targets that look like paths; and its
  actions are: execute when there is a command at all, what each program is classified as,
  install for an installer call, and write for a redirect that has a target.
\<close>

theorem normalized_command_exact:
  assumes "ParseShellCommand raw = Some sc"
  shows "distinct (Terms (normalizeShellCommand sc)) \<and>
    set (Terms (normalizeShellCommand sc)) = set (shellSplit raw) \<and>
    set (Resources (normalizeShellCommand sc)) =
      {t. isResourceLikeToken t \<and>
          ((\<exists>cmd\<in>set (Commands sc). t \<in> set (Args cmd)) \<or> (\<exists>r\<in>set (Redirects sc). t = Target r))} \<and>
    set (Actions (normalizeShellCommand sc)) =
      {a. \<exists>cmd\<in>set (Commands sc). a = ActionExecute \<or> a = normalizeShellAction (Program cmd) \<or>
            a = ActionInstall \<and> isInstallCommand cmd} \<union>
      {a. a = ActionWrite \<and> (\<exists>r\<in>set (Redirects sc). Target r \<noteq> [])}"
  by (rule normalized_command_facts [OF assms])

theorem normalized_command_exact_witness:
  "set (Actions (normalizeShellCommand (the (ParseShellCommand ''rm /etc/x > log'')))) =
     {ActionExecute, ActionDelete, ActionWrite}"
proof -
  have p: "ParseShellCommand ''rm /etc/x > log'' = Some \<lparr>Raw = ''rm /etc/x > log'',
      Commands = [\<lparr>Program = ''rm'', Args = [''/etc/x'']\<rparr>], Operators = [],
      Redirects = [\<lparr>Op = ''>'', Target = ''log''\<rparr>]\<rparr>"
    by (simp add: ParseShellCommand_read shellSplit_def isSpaceRune_def detectShellOperator_def shellTokenOperators_def
        HasPrefix_def flushToken_def)
       (simp add: readShell_def TrimSpace_def ascii_space_def isShellRedirect_def isShellOperator_def
          shellTokenOperators_def shellOperators_def simpleCommand_def)
  show ?thesis using normalized_command_exact [OF p] unfolding p
    by (auto simp: normalizeShellAction_def isInstallCommand_def TrimSpace_def ascii_space_def ToLower_def lower_char_def HasPrefix_def)
qed

section \<open>Quoted words are read back\<close>

definition quoteByte :: "char \<Rightarrow> string" where
  "quoteByte c = (if c = bsl \<or> c = dquote then [bsl, c] else [c])"

definition quoteWord :: "string \<Rightarrow> string" where
  "quoteWord w = dquote # concat (map quoteByte w) @ [dquote]"

definition ascii :: "string \<Rightarrow> bool" where
  "ascii s \<longleftrightarrow> (\<forall>c\<in>set s. (of_char c :: nat) < 128)"

lemma ascii_Nil [simp]: "ascii []" by (simp add: ascii_def)

lemma ascii_Cons [simp]: "ascii (c # s) \<longleftrightarrow> (of_char c :: nat) < 128 \<and> ascii s"
  by (auto simp: ascii_def)

lemma splitLoop_quoted:
  "ascii w \<Longrightarrow>
   splitLoop (concat (map quoteByte w) @ dquote # rest) (Some dquote) False cur = splitLoop rest None False (cur @ w)"
  by (induction w arbitrary: cur) (simp_all add: quoteByte_def)

lemma splitLoop_quoteWord:
  "ascii w \<Longrightarrow> splitLoop (quoteWord w @ rest) None False cur = splitLoop rest None False (cur @ w)"
  using splitLoop_quoted [of w rest cur] by (simp add: quoteWord_def)

lemma splitLoop_space: "splitLoop (CHR '' '' # rest) None False cur = flushToken cur @ splitLoop rest None False []"
  by (simp add: isSpaceRune_def)

lemma splitLoop_quoted_words:
  "ws \<noteq> [] \<Longrightarrow> \<forall>w\<in>set ws. ascii w \<and> w \<noteq> [] \<Longrightarrow> splitLoop (Join (map quoteWord ws) '' '') None False [] = ws"
proof (induction ws rule: induct_list012)
  case (2 w)
  then show ?case using splitLoop_quoteWord [of w "[]" "[]"] by (simp add: flushToken_def)
next
  case (3 w v ws)
  then show ?case
    using splitLoop_quoteWord [of w "CHR '' '' # Join (map quoteWord (v # ws)) '' ''" "[]"]
    by (simp add: splitLoop_space flushToken_def del: splitLoop.simps)
qed simp

lemma takeRedirects_none: "\<forall>t\<in>set ts. \<not> isShellRedirect t \<Longrightarrow> takeRedirects ts = ([], ts)"
  by (induction ts rule: takeRedirects.induct) auto

lemma cutAtOperators_none: "\<forall>t\<in>set ts. \<not> isShellOperator t \<Longrightarrow> cutAtOperators cur ts = [cur @ ts]"
  by (induction cur ts rule: cutAtOperators.induct) auto

text \<open>
  A list of non-empty ASCII words, each written in double quotes with its quotes
  and backslashes escaped and joined by spaces, is read back as one command with exactly these
  words: the first as the program, the others as its arguments.  The words may contain spaces,
  quotes, backslashes and operator characters; none may be an operator or a redirect by itself.
\<close>

theorem quoted_words_roundtrip:
  assumes "\<forall>w\<in>set (prog # args). ascii w \<and> w \<noteq> [] \<and> \<not> isShellOperator w \<and> \<not> isShellRedirect w"
  shows "shellSplit (Join (map quoteWord (prog # args)) '' '') = prog # args \<and>
    (\<exists>raw. ParseShellCommand (Join (map quoteWord (prog # args)) '' '') =
       Some \<lparr>Raw = raw, Commands = [\<lparr>Program = prog, Args = args\<rparr>], Operators = [], Redirects = []\<rparr>)"
proof -
  have split: "shellSplit (Join (map quoteWord (prog # args)) '' '') = prog # args"
    unfolding shellSplit_def by (rule splitLoop_quoted_words) (use assms in auto)
  moreover have "filter isShellOperator (prog # args) = []" using assms by (auto simp: filter_empty_conv)
  moreover have "takeRedirects (prog # args) = ([], prog # args)"
    by (rule takeRedirects_none) (use assms in blast)
  moreover have "cutAtOperators [] (prog # args) = [prog # args]"
    using cutAtOperators_none [of "prog # args" "[]"] assms by fastforce
  ultimately show ?thesis
    unfolding ParseShellCommand_read split by (simp add: readShell_def simpleCommand_def)
qed

theorem quoted_words_roundtrip_witness:
  "shellSplit (Join (map quoteWord [''rm'', ''my file; \"x\"'']) '' '') = [''rm'', ''my file; \"x\"'']"
  using quoted_words_roundtrip [of "''rm''" "[''my file; \"x\"'']"]
  by (simp add: isShellOperator_def shellOperators_def isShellRedirect_def shellTokenOperators_def)

section \<open>Where the reading differs from a shell's\<close>

text \<open>A line break separates words, not commands: the second line becomes arguments.\<close>

lemma newline_joins_commands:
  "shellSplit ''ls'' = [''ls''] \<and> shellSplit (''ls'' @ [CHR 0x0A] @ ''rm x'') = [''ls'', ''rm'', ''x'']"
  by (simp add: shellSplit_def isSpaceRune_def detectShellOperator_def shellTokenOperators_def HasPrefix_def flushToken_def)

lemma newline_hides_delete:
  assumes "ParseShellCommand (''ls'' @ [CHR 0x0A] @ ''rm x'') = Some sc"
  shows "ActionDelete \<notin> set (Actions (normalizeShellCommand sc))"
proof -
  have "Commands sc = [\<lparr>Program = ''ls'', Args = [''rm'', ''x'']\<rparr>]" "Redirects sc = []"
    using assms unfolding ParseShellCommand_read newline_joins_commands [THEN conjunct2]
    by (auto simp: readShell_def isShellOperator_def shellOperators_def isShellRedirect_def simpleCommand_def)
  then have "set (Actions (normalizeShellCommand sc)) =
      set (commandActions \<lparr>Program = ''ls'', Args = [''rm'', ''x'']\<rparr>)"
    unfolding normalize_parts appendAll_set by (simp add: commandActions_def)
  then show ?thesis by (simp add: commandActions_def normalizeShellAction_def)
qed

text \<open>The operators are recognised by their text, so a quoted one still cuts the command.\<close>

lemma quoted_operator_cuts:
  "ParseShellCommand (''echo '' @ quoteWord '';'' @ '' rm'') = Some sc \<Longrightarrow> map Program (Commands sc) = [''echo'', ''rm'']"
proof -
  have "shellSplit (''echo '' @ quoteWord '';'' @ '' rm'') = [''echo'', '';'', ''rm'']"
    by (simp add: shellSplit_def quoteWord_def quoteByte_def isSpaceRune_def detectShellOperator_def
        shellTokenOperators_def HasPrefix_def flushToken_def)
  then show "ParseShellCommand (''echo '' @ quoteWord '';'' @ '' rm'') = Some sc \<Longrightarrow> map Program (Commands sc) = [''echo'', ''rm'']"
    unfolding ParseShellCommand_read
    by (auto simp: readShell_def isShellOperator_def shellOperators_def isShellRedirect_def simpleCommand_def)
qed

text \<open>
  Bytes of a multi-byte character are written back one rune each, so its UTF-8 encoding is
  encoded once more: a path with an accented letter never reaches the policies as it is.
\<close>

definition e_acute :: string where "e_acute = [CHR 0xC3, CHR 0xA9]"

lemma utf8_encoded_twice:
  "shellSplit (CHR ''/'' # e_acute) = [CHR ''/'' # [CHR 0xC3, CHR 0x83, CHR 0xC2, CHR 0xA9]]"
  by (simp add: shellSplit_def e_acute_def isSpaceRune_def detectShellOperator_def shellTokenOperators_def
      HasPrefix_def flushToken_def WriteRune_def Let_def char_of_def bit_0)

end
