(* ===== verification/TB_Policy.thy ===== *)
theory TB_Policy
  imports TB_Prelude TB_Shell
begin

text \<open>
  Guardrail policies: the content of a request (\<^verbatim>\<open>core/content.go\<close>), policy scopes
  (\<^verbatim>\<open>core/scope.go\<close>), the operation and content policies (\<^verbatim>\<open>evaluate/operation_policy.go\<close>,
  \<^verbatim>\<open>evaluate/content_policy.go\<close>, \<^verbatim>\<open>evaluate/judge_policy.go\<close>), the engine that merges their
  verdicts (\<^verbatim>\<open>evaluate/engine.go\<close>) and the resolution of a configuration into policies
  (\<^verbatim>\<open>evaluate/config.go\<close>, \<^verbatim>\<open>evaluate/registry.go\<close>, \<^verbatim>\<open>evaluate/build.go\<close>), all under
  \<^verbatim>\<open>internal/guardrails/\<close>.

  Regular expressions, JSON and the judge model are parameters.  The evidence map of a policy
  result, which only the audit log reads, is not modelled.
\<close>

section \<open>Content\<close>

record Message =
  Role :: string
  msg_Content :: string

datatype ContentType = ContentTypeText | ContentTypeMessages | ContentTypeCommand

record Content =
  cnt_Command :: "Command option"
  Text :: string
  Messages :: "Message list"

record guard_ext =
  Unmarshal :: json_ext
  Marshal :: "(string \<times> json_value) list \<Rightarrow> string option"
  RegexCompile :: "string \<Rightarrow> (string \<Rightarrow> bool) option"

definition messageLine :: "Message \<Rightarrow> string" where
  "messageLine m = (if Role m \<noteq> [] then Role m @ '': '' else []) @ msg_Content m"

abbreviation "newline \<equiv> CHR 0x0A"

definition commandBlock :: "guard_ext \<Rightarrow> Command \<Rightarrow> string" where
  "commandBlock ext cmd0 =
     (let cmd = (if Shell cmd0 = None \<or> Normalized cmd0 = None then AttachDerivedFields (Unmarshal ext) cmd0 else cmd0)
      in ''command: '' @ Name cmd @
         (case Normalized cmd of
            Some n \<Rightarrow> Normalized_MatchText n
          | None \<Rightarrow> (case Shell cmd of
              Some s \<Rightarrow> Shell_MatchText s
            | None \<Rightarrow> if Arguments cmd \<noteq> []
                      then (case Marshal ext (Arguments cmd) of Some payload \<Rightarrow> '' arguments: '' @ payload | None \<Rightarrow> [])
                      else [])))"

definition CombinedTextFor :: "guard_ext \<Rightarrow> ContentType list \<Rightarrow> Content \<Rightarrow> string" where
  "CombinedTextFor ext targets c =
     (let useAll = (targets = []);
          b = (if Text c \<noteq> [] \<and> (useAll \<or> ContentTypeText \<in> set targets) then Text c
               else if Messages c \<noteq> [] \<and> (useAll \<or> ContentTypeMessages \<in> set targets)
               then Join (map messageLine (Messages c)) [newline] else [])
      in case cnt_Command c of
           Some cmd \<Rightarrow>
             if useAll \<or> ContentTypeCommand \<in> set targets
             then b @ (if b \<noteq> [] then [newline] else []) @ commandBlock ext cmd
             else b
         | None \<Rightarrow> b)"

definition CombinedText :: "guard_ext \<Rightarrow> Content \<Rightarrow> string" where
  "CombinedText ext c = CombinedTextFor ext [] c"

definition Preview :: "guard_ext \<Rightarrow> int \<Rightarrow> Content \<Rightarrow> string" where
  "Preview ext limit0 c =
     (let limit = (if limit0 \<le> 0 then 120 else limit0); t = CombinedText ext c in
      if t = [] then [] else if limit < int (length t) then take (nat limit) t @ ''...'' else t)"

definition LatestPreview :: "guard_ext \<Rightarrow> int \<Rightarrow> Content \<Rightarrow> string" where
  "LatestPreview ext limit0 c =
     (let limit = (if limit0 \<le> 0 then 120 else limit0);
          empty = \<lparr>cnt_Command = None, Text = [], Messages = []\<rparr>;
          t = (if Text c \<noteq> [] then Text c
               else if cnt_Command c \<noteq> None then CombinedText ext (empty\<lparr>cnt_Command := cnt_Command c\<rparr>)
               else if Messages c \<noteq> [] then CombinedText ext (empty\<lparr>Messages := [last (Messages c)]\<rparr>)
               else [])
      in if limit < int (length t) then take (nat limit) t @ ''...'' else t)"

definition Content_Filter :: "ContentType list \<Rightarrow> Content \<Rightarrow> Content" where
  "Content_Filter targets c =
     (if targets = [] then c
      else \<lparr>cnt_Command = (if ContentTypeCommand \<in> set targets then cnt_Command c else None),
            Text = (if ContentTypeText \<in> set targets then Text c else []),
            Messages = (if ContentTypeMessages \<in> set targets then Messages c else [])\<rparr>)"

definition HasAny :: "ContentType list \<Rightarrow> Content \<Rightarrow> bool" where
  "HasAny targets c =
     (if targets = [] then Text c \<noteq> [] \<or> Messages c \<noteq> [] \<or> cnt_Command c \<noteq> None
      else if ContentTypeText \<in> set targets \<and> Text c \<noteq> [] then True
      else if ContentTypeMessages \<in> set targets \<and> Messages c \<noteq> [] then True
      else if ContentTypeCommand \<in> set targets \<and> cnt_Command c \<noteq> None then True
      else False)"

section \<open>Inputs and scopes\<close>

text \<open>\<open>usedRefs\<close> is \<^verbatim>\<open>UsedRefs\<close> of the credential-mask state attached to the request, if any.\<close>

datatype Direction = DirectionRequest | DirectionResponse

record Input =
  inp_Scenario :: string
  Model :: string
  inp_Direction :: Direction
  Tags :: "string list"
  inp_Content :: Content
  usedRefs :: "string list option"

record Scope =
  Scenarios :: "string list"
  Models :: "string list"
  Directions :: "Direction list"
  sc_Tags :: "string list"
  sc_Content :: "ContentType list"

definition anyTagMatches :: "string list \<Rightarrow> string list \<Rightarrow> bool" where
  "anyTagMatches inputTags scopeTags \<longleftrightarrow> (\<exists>tag\<in>set inputTags. tag \<in> set scopeTags)"

definition Scope_Matches :: "Scope \<Rightarrow> Input \<Rightarrow> bool" where
  "Scope_Matches s input =
     (if Scenarios s \<noteq> [] \<and> inp_Scenario input \<notin> set (Scenarios s) then False
      else if Models s \<noteq> [] \<and> Model input \<notin> set (Models s) then False
      else if Directions s \<noteq> [] \<and> inp_Direction input \<notin> set (Directions s) then False
      else if sc_Tags s \<noteq> [] \<and> \<not> anyTagMatches (Tags input) (sc_Tags s) then False
      else if sc_Content s \<noteq> [] \<and> \<not> HasAny (sc_Content s) (inp_Content input) then False
      else True)"

section \<open>Verdicts and results\<close>

text \<open>A verdict is a string in the code; \<open>VerdictOther\<close> is any text that is none of the constants.\<close>

datatype Verdict =
  VerdictNone | VerdictAllow | VerdictReview | VerdictMask | VerdictRedact | VerdictBlock | VerdictOther string

record PolicyResult =
  PolicyID :: string
  PolicyName :: string
  PolicyType :: string
  res_Verdict :: Verdict
  Reason :: string

definition allowResult :: PolicyResult where
  "allowResult = \<lparr>PolicyID = [], PolicyName = [], PolicyType = [], res_Verdict = VerdictAllow, Reason = []\<rparr>"

section \<open>Operation policies\<close>

record CommandPolicyConfig =
  ToolNames :: "string list"
  cp_Actions :: "string list"
  cp_Resources :: "string list"
  cp_Terms :: "string list"
  ResourceMatch :: string
  cp_Verdict :: Verdict
  cp_Reason :: string

record OperationPolicy =
  op_id :: string
  op_name :: string
  op_enabled :: bool
  op_scope :: Scope
  op_config :: CommandPolicyConfig

definition NewOperationPolicy ::
  "string \<Rightarrow> string \<Rightarrow> bool \<Rightarrow> Scope \<Rightarrow> CommandPolicyConfig \<Rightarrow> OperationPolicy option" where
  "NewOperationPolicy i name enabled scope params =
     (if ToolNames params = [] \<and> cp_Actions params = [] \<and> cp_Resources params = [] \<and> cp_Terms params = [] then None
      else Some \<lparr>op_id = i, op_name = name, op_enabled = enabled, op_scope = scope,
        op_config = params
          \<lparr>ResourceMatch := (if ResourceMatch params = [] then ''prefix'' else ResourceMatch params),
           cp_Verdict := (if cp_Verdict params = VerdictNone then VerdictBlock else cp_Verdict params)\<rparr>\<rparr>)"

definition stringSliceIntersects :: "string \<Rightarrow> string list \<Rightarrow> bool" where
  "stringSliceIntersects value patterns =
     (if value = [] then False else (\<exists>pattern\<in>set patterns. EqualFold value pattern))"

definition sliceIntersects :: "string list \<Rightarrow> string list \<Rightarrow> bool" where
  "sliceIntersects values patterns \<longleftrightarrow> (\<exists>value\<in>set values. \<exists>pattern\<in>set patterns. EqualFold value pattern)"

definition resourcesMatch :: "string list \<Rightarrow> string list \<Rightarrow> string \<Rightarrow> bool" where
  "resourcesMatch resources patterns mode \<longleftrightarrow>
     (\<exists>resource\<in>set resources. \<exists>pattern\<in>set patterns.
        let r = ToLower resource; p = ToLower pattern in
        if mode = ''exact'' then r = p
        else if mode = ''contains'' then Contains r p
        else HasPrefix r p \<or> Contains r p)"

definition sliceContainsPattern :: "string list \<Rightarrow> string list \<Rightarrow> bool" where
  "sliceContainsPattern values patterns =
     (if \<exists>value\<in>set values. \<exists>pattern\<in>set patterns. Contains (ToLower value) (ToLower pattern) then True
      else if values = [] then False
      else (\<exists>pattern\<in>set patterns. Contains (ToLower (Join values '' '')) (ToLower pattern)))"

definition OperationPolicy_Evaluate :: "guard_ext \<Rightarrow> OperationPolicy \<Rightarrow> Input \<Rightarrow> PolicyResult" where
  "OperationPolicy_Evaluate ext r input =
     (if \<not> op_enabled r then allowResult
      else if \<not> Scope_Matches (op_scope r) input then allowResult
      else (case cnt_Command (inp_Content input) of
        None \<Rightarrow> allowResult
      | Some cmd0 \<Rightarrow>
          (let cmd = (if Normalized cmd0 = None then AttachDerivedFields (Unmarshal ext) cmd0 else cmd0);
               config = op_config r
           in case Normalized cmd of
                None \<Rightarrow> allowResult
              | Some n \<Rightarrow>
                  if ToolNames config \<noteq> [] \<and> \<not> stringSliceIntersects (Name cmd) (ToolNames config) then allowResult
                  else if cp_Actions config \<noteq> [] \<and> \<not> sliceIntersects (Actions n) (cp_Actions config) then allowResult
                  else if cp_Resources config \<noteq> [] \<and>
                          \<not> resourcesMatch (Resources n) (cp_Resources config) (ResourceMatch config) then allowResult
                  else if cp_Terms config \<noteq> [] \<and> \<not> sliceContainsPattern (Terms n) (cp_Terms config) then allowResult
                  else \<lparr>PolicyID = op_id r, PolicyName = op_name r, PolicyType = ''command_policy'',
                        res_Verdict = cp_Verdict config,
                        Reason = (if cp_Reason config = [] then ''command policy violation'' else cp_Reason config)\<rparr>)))"

section \<open>Content policies\<close>

record TextMatchConfig =
  Patterns :: "string list"
  CredentialRefs :: "string list"
  Targets :: "ContentType list"
  Mode :: string
  CaseSensitive :: bool
  UseRegex :: bool
  MinMatches :: int
  tm_Verdict :: Verdict
  tm_Reason :: string

record ContentPolicy =
  cp_id :: string
  cp_name :: string
  cp_enabled :: bool
  cp_scope :: Scope
  cp_config :: TextMatchConfig
  patterns :: "string list"
  regex :: "(string \<Rightarrow> bool) list"

datatype policy_error =
    PatternsRequired
  | InvalidRegex string
  | SelectorRequired
  | PolicyIDRequired
  | UnknownGroup string
  | UnsupportedKind
  | GroupIDRequired
  | DuplicateGroup string
  | DuplicatePolicy string
  | EmptyConfig

fun compileAll :: "guard_ext \<Rightarrow> string list \<Rightarrow> policy_error + (string \<Rightarrow> bool) list" where
  "compileAll ext [] = Inr []"
| "compileAll ext (p # ps) =
     (case RegexCompile ext p of
        None \<Rightarrow> Inl (InvalidRegex p)
      | Some re \<Rightarrow> (case compileAll ext ps of Inl e \<Rightarrow> Inl e | Inr res \<Rightarrow> Inr (re # res)))"

definition NewContentPolicy ::
  "guard_ext \<Rightarrow> string \<Rightarrow> string \<Rightarrow> bool \<Rightarrow> Scope \<Rightarrow> TextMatchConfig \<Rightarrow> policy_error + ContentPolicy" where
  "NewContentPolicy ext i name enabled scope params =
     (if Patterns params = [] \<and> CredentialRefs params = [] then Inl PatternsRequired
      else (let config = params\<lparr>Mode := (if Mode params = [] then ''any'' else Mode params),
                  tm_Verdict := (if tm_Verdict params = VerdictNone then VerdictBlock else tm_Verdict params)\<rparr>;
                policy = \<lparr>cp_id = i, cp_name = name, cp_enabled = enabled, cp_scope = scope, cp_config = config,
                          patterns = [], regex = []\<rparr>
            in if UseRegex params
               then (case compileAll ext (Patterns params) of
                       Inl e \<Rightarrow> Inl e
                     | Inr res \<Rightarrow> Inr (policy\<lparr>regex := res\<rparr>))
               else Inr (policy\<lparr>patterns := Patterns params\<rparr>)))"

definition isTriggered :: "TextMatchConfig \<Rightarrow> int \<Rightarrow> int \<Rightarrow> bool" where
  "isTriggered config matches tot =
     (if 0 < MinMatches config then MinMatches config \<le> matches
      else if Mode config = ''all'' then 0 < tot \<and> matches = tot
      else 0 < matches)"

definition matchCredentialRefs :: "string list \<Rightarrow> string list \<Rightarrow> string list" where
  "matchCredentialRefs configured used =
     (if configured = [] \<or> used = [] then []
      else filter (\<lambda>ref. ref \<noteq> [] \<and> ref \<in> set (filter (\<lambda>u. u \<noteq> []) used)) configured)"

definition contentResult :: "ContentPolicy \<Rightarrow> PolicyResult" where
  "contentResult r =
     \<lparr>PolicyID = cp_id r, PolicyName = cp_name r, PolicyType = ''text_match'',
      res_Verdict = tm_Verdict (cp_config r),
      Reason = (if tm_Reason (cp_config r) = [] then ''matched prohibited content'' else tm_Reason (cp_config r))\<rparr>"

definition countMatches :: "ContentPolicy \<Rightarrow> string \<Rightarrow> int" where
  "countMatches r t =
     (if UseRegex (cp_config r) then int (length (filter (\<lambda>re. re t) (regex r)))
      else (let searchText = (if \<not> CaseSensitive (cp_config r) then ToLower t else t)
            in int (length (filter (\<lambda>pattern.
                 Contains searchText (if \<not> CaseSensitive (cp_config r) then ToLower pattern else pattern)) (patterns r)))))"

definition ContentPolicy_Evaluate :: "guard_ext \<Rightarrow> ContentPolicy \<Rightarrow> Input \<Rightarrow> PolicyResult" where
  "ContentPolicy_Evaluate ext r input =
     (let config = cp_config r in
      if \<not> cp_enabled r then allowResult
      else if \<not> Scope_Matches (cp_scope r) input then allowResult
      else if Targets config \<noteq> [] \<and> \<not> HasAny (Targets config) (inp_Content input) then allowResult
      else if Patterns config = [] \<and> CredentialRefs config \<noteq> []
      then (case usedRefs input of
              None \<Rightarrow> allowResult
            | Some used \<Rightarrow>
                if used = [] then allowResult
                else if \<not> isTriggered config (int (length (matchCredentialRefs (CredentialRefs config) used)))
                             (int (length (CredentialRefs config)))
                then allowResult
                else contentResult r)
      else (let t = CombinedTextFor ext (Targets config) (inp_Content input) in
            if t = [] then allowResult
            else if \<not> isTriggered config (countMatches r t) (int (length (Patterns config))) then allowResult
            else contentResult r))"

section \<open>Judge policies\<close>

text \<open>The judge is an external model: given the input, an error or a verdict with a reason.\<close>

type_synonym judge = "Input \<Rightarrow> string + (Verdict \<times> string)"

record JudgePolicy =
  jp_id :: string
  jp_name :: string
  jp_enabled :: bool
  jp_scope :: Scope
  jp_Targets :: "ContentType list"
  jp_judge :: "judge option"

definition JudgePolicy_Evaluate :: "JudgePolicy \<Rightarrow> Input \<Rightarrow> string + PolicyResult" where
  "JudgePolicy_Evaluate r input =
     (if \<not> jp_enabled r then Inr allowResult
      else if \<not> Scope_Matches (jp_scope r) input then Inr allowResult
      else (case jp_judge r of
        None \<Rightarrow> Inl ''judge dependency is not configured''
      | Some judge \<Rightarrow>
          if jp_Targets r \<noteq> [] \<and> \<not> HasAny (jp_Targets r) (inp_Content input) then Inr allowResult
          else (let input' = (if jp_Targets r \<noteq> []
                              then input\<lparr>inp_Content := Content_Filter (jp_Targets r) (inp_Content input)\<rparr>
                              else input)
                in case judge input' of
                     Inl e \<Rightarrow> Inl e
                   | Inr (verdict, reason) \<Rightarrow>
                       Inr \<lparr>PolicyID = jp_id r, PolicyName = jp_name r, PolicyType = ''model_judge'',
                            res_Verdict = (if verdict = VerdictNone then VerdictAllow else verdict),
                            Reason = reason\<rparr>)))"

section \<open>The engine\<close>

datatype Evaluator = OpEvaluator OperationPolicy | ContentEvaluator ContentPolicy | JudgeEvaluator JudgePolicy

fun ev_ID :: "Evaluator \<Rightarrow> string" where
  "ev_ID (OpEvaluator p) = op_id p"
| "ev_ID (ContentEvaluator p) = cp_id p"
| "ev_ID (JudgeEvaluator p) = jp_id p"

fun ev_Name :: "Evaluator \<Rightarrow> string" where
  "ev_Name (OpEvaluator p) = op_name p"
| "ev_Name (ContentEvaluator p) = cp_name p"
| "ev_Name (JudgeEvaluator p) = jp_name p"

fun ev_Type :: "Evaluator \<Rightarrow> string" where
  "ev_Type (OpEvaluator p) = ''command_policy''"
| "ev_Type (ContentEvaluator p) = ''text_match''"
| "ev_Type (JudgeEvaluator p) = ''model_judge''"

fun ev_Enabled :: "Evaluator \<Rightarrow> bool" where
  "ev_Enabled (OpEvaluator p) = op_enabled p"
| "ev_Enabled (ContentEvaluator p) = cp_enabled p"
| "ev_Enabled (JudgeEvaluator p) = jp_enabled p"

fun ev_scope :: "Evaluator \<Rightarrow> Scope" where
  "ev_scope (OpEvaluator p) = op_scope p"
| "ev_scope (ContentEvaluator p) = cp_scope p"
| "ev_scope (JudgeEvaluator p) = jp_scope p"

fun ev_Evaluate :: "guard_ext \<Rightarrow> Evaluator \<Rightarrow> Input \<Rightarrow> string + PolicyResult" where
  "ev_Evaluate ext (OpEvaluator p) input = Inr (OperationPolicy_Evaluate ext p input)"
| "ev_Evaluate ext (ContentEvaluator p) input = Inr (ContentPolicy_Evaluate ext p input)"
| "ev_Evaluate ext (JudgeEvaluator p) input = JudgePolicy_Evaluate p input"

text \<open>Strategies are strings in the code; \<open>StrategyOther\<close> and \<open>ErrorStrategyOther\<close> are any other text.\<close>

datatype CombineStrategy = StrategyMostSevere | StrategyBlockOnAny | StrategyOther string
datatype ErrorStrategy = ErrorStrategyAllow | ErrorStrategyReview | ErrorStrategyBlock | ErrorStrategyOther string

record PolicyError =
  err_PolicyID :: string
  err_PolicyName :: string
  err_PolicyType :: string
  err_Error :: string

record Result =
  Verdict :: Verdict
  Reasons :: "PolicyResult list"
  Errors :: "PolicyError list"

fun verdictForErrorStrategy :: "ErrorStrategy \<Rightarrow> Verdict" where
  "verdictForErrorStrategy ErrorStrategyAllow = VerdictAllow"
| "verdictForErrorStrategy ErrorStrategyBlock = VerdictBlock"
| "verdictForErrorStrategy _ = VerdictReview"

fun severity :: "Verdict \<Rightarrow> nat" where
  "severity VerdictBlock = 4"
| "severity VerdictRedact = 3"
| "severity VerdictReview = 2"
| "severity VerdictAllow = 1"
| "severity _ = 0"

definition mergeVerdict :: "Verdict \<Rightarrow> Verdict \<Rightarrow> CombineStrategy \<Rightarrow> Verdict" where
  "mergeVerdict cur candidate strategy =
     (if candidate = VerdictNone \<or> candidate = VerdictAllow then cur
      else if strategy = StrategyBlockOnAny \<and> candidate = VerdictBlock then VerdictBlock
      else if severity cur < severity candidate then candidate
      else cur)"

record 'e PolicyEngine =
  evaluators :: "'e option list"
  strategy :: CombineStrategy
  errorStrategy :: ErrorStrategy
  shortCircuit :: bool

text \<open>
  The loop of \<^verbatim>\<open>PolicyEngine.Evaluate\<close>, over the methods of the \<^verbatim>\<open>Evaluator\<close> interface:
  \<open>eval\<close> is \<^verbatim>\<open>Evaluate\<close> and \<open>desc\<close> gives identifier, name and type.
\<close>

fun engineLoop ::
  "('e \<Rightarrow> string + PolicyResult) \<Rightarrow> ('e \<Rightarrow> string \<times> string \<times> string) \<Rightarrow> 'e PolicyEngine \<Rightarrow>
   'e option list \<Rightarrow> Result \<Rightarrow> Result" where
  "engineLoop eval desc e [] result = result"
| "engineLoop eval desc e (None # evs) result = engineLoop eval desc e evs result"
| "engineLoop eval desc e (Some ev # evs) result =
     (case eval ev of
        Inl err \<Rightarrow>
          (let (i, name, typ) = desc ev;
               result1 = result\<lparr>Errors := Errors result @
                 [\<lparr>err_PolicyID = i, err_PolicyName = name, err_PolicyType = typ, err_Error = err\<rparr>],
                 Verdict := mergeVerdict (Verdict result) (verdictForErrorStrategy (errorStrategy e)) (strategy e)\<rparr>
           in if shortCircuit e \<and> Verdict result1 = VerdictBlock then result1
              else engineLoop eval desc e evs result1)
      | Inr pr0 \<Rightarrow>
          (let pr = (if res_Verdict pr0 = VerdictNone then pr0\<lparr>res_Verdict := VerdictAllow\<rparr> else pr0) in
           if res_Verdict pr \<noteq> VerdictAllow
           then (let result1 = result\<lparr>Reasons := Reasons result @ [pr],
                       Verdict := mergeVerdict (Verdict result) (res_Verdict pr) (strategy e)\<rparr>
                 in if shortCircuit e \<and> Verdict result1 = VerdictBlock then result1
                    else engineLoop eval desc e evs result1)
           else engineLoop eval desc e evs result))"

definition Engine_Evaluate :: "guard_ext \<Rightarrow> Evaluator PolicyEngine \<Rightarrow> Input \<Rightarrow> Result" where
  "Engine_Evaluate ext e input =
     engineLoop (\<lambda>ev. ev_Evaluate ext ev input) (\<lambda>ev. (ev_ID ev, ev_Name ev, ev_Type ev)) e (evaluators e)
       \<lparr>Verdict = VerdictAllow, Reasons = [], Errors = []\<rparr>"

section \<open>From a configuration to evaluators\<close>

record PolicyGroup =
  grp_ID :: string
  grp_Name :: string
  grp_Enabled :: bool
  grp_Severity :: string

record ActionSelector =
  Include :: "string list"
  Exclude :: "string list"

record ResourceMatcher =
  rm_Type :: string
  rm_Mode :: string
  Values :: "string list"

record PolicyMatch =
  pm_ToolNames :: "string list"
  pm_Actions :: "ActionSelector option"
  pm_Resources :: "ResourceMatcher option"
  pm_Terms :: "string list"
  pm_CredentialRefs :: "string list"
  pm_Patterns :: "string list"
  PatternMode :: string
  MatchMode :: string
  pm_MinMatches :: int
  pm_CaseSensitive :: bool

datatype PolicyKind = PolicyKindResourceAccess | PolicyKindCommandExecution | PolicyKindContent | PolicyKindOther string

record Policy =
  pol_ID :: string
  pol_Name :: string
  Groups :: "string list"
  pol_Kind :: PolicyKind
  pol_Enabled :: bool
  pol_Scope :: Scope
  Match :: PolicyMatch
  pol_Verdict :: Verdict
  pol_Reason :: string

record Config =
  Strategy :: "CombineStrategy option"
  cfg_ErrorStrategy :: "ErrorStrategy option"
  Imports :: "string list"
  cfg_Groups :: "PolicyGroup list"
  Policies :: "Policy list"

definition normalizedPolicyGroups :: "Policy \<Rightarrow> string list" where
  "normalizedPolicyGroups policy =
     fold (\<lambda>groupID out. if groupID = [] then out else if groupID \<in> set out then out else out @ [groupID])
       (Groups policy) []"

type_synonym group_map = "string \<Rightarrow> PolicyGroup option"

fun resolveIDs :: "group_map \<Rightarrow> string list \<Rightarrow> policy_error + PolicyGroup list" where
  "resolveIDs groups [] = Inr []"
| "resolveIDs groups (i # ids) =
     (case groups i of
        None \<Rightarrow> Inl (UnknownGroup i)
      | Some g \<Rightarrow> (case resolveIDs groups ids of Inl e \<Rightarrow> Inl e | Inr gs \<Rightarrow> Inr (g # gs)))"

definition resolvePolicyGroups :: "Policy \<Rightarrow> group_map \<Rightarrow> policy_error + PolicyGroup list" where
  "resolvePolicyGroups policy groups =
     (let ids = normalizedPolicyGroups policy in if ids = [] then Inr [] else resolveIDs groups ids)"

definition resolvePolicyEnabled :: "Policy \<Rightarrow> PolicyGroup list \<Rightarrow> bool" where
  "resolvePolicyEnabled policy groups =
     (if \<not> pol_Enabled policy then False
      else if groups = [] then False
      else (\<exists>g\<in>set groups. grp_Enabled g))"

definition resolvePolicyVerdict :: "Policy \<Rightarrow> Verdict \<Rightarrow> Verdict" where
  "resolvePolicyVerdict policy fallback =
     (if pol_Verdict policy \<noteq> VerdictNone then pol_Verdict policy else fallback)"

definition policyName :: "Policy \<Rightarrow> string" where
  "policyName policy = (if pol_Name policy \<noteq> [] then pol_Name policy else pol_ID policy)"

definition defaultToolNamesForResourceAccess :: "string list \<Rightarrow> string list" where
  "defaultToolNamesForResourceAccess toolNames = (if toolNames \<noteq> [] then toolNames else [''bash''])"

definition defaultToolNamesForCommandExecution :: "string list \<Rightarrow> string list" where
  "defaultToolNamesForCommandExecution toolNames = (if toolNames \<noteq> [] then toolNames else [''bash''])"

definition mergePolicyScope :: "Scope \<Rightarrow> Scope" where
  "mergePolicyScope policyScope = policyScope"

definition fromOperation :: "OperationPolicy option \<Rightarrow> policy_error + Evaluator" where
  "fromOperation r = (case r of None \<Rightarrow> Inl SelectorRequired | Some p \<Rightarrow> Inr (OpEvaluator p))"

definition buildResourceAccessPolicyEvaluator :: "Policy \<Rightarrow> PolicyGroup list \<Rightarrow> policy_error + Evaluator" where
  "buildResourceAccessPolicyEvaluator policy groups =
     (let scope = (mergePolicyScope (pol_Scope policy))\<lparr>sc_Content := [ContentTypeCommand]\<rparr>;
          m = Match policy;
          params = \<lparr>ToolNames = defaultToolNamesForResourceAccess (pm_ToolNames m),
            cp_Actions = (case pm_Actions m of Some a \<Rightarrow> Include a | None \<Rightarrow> []),
            cp_Resources = (case pm_Resources m of Some r \<Rightarrow> Values r | None \<Rightarrow> []),
            cp_Terms = pm_Terms m,
            ResourceMatch = (case pm_Resources m of Some r \<Rightarrow> rm_Mode r | None \<Rightarrow> []),
            cp_Verdict = resolvePolicyVerdict policy VerdictBlock,
            cp_Reason = pol_Reason policy\<rparr>
      in fromOperation (NewOperationPolicy (pol_ID policy) (policyName policy)
           (resolvePolicyEnabled policy groups) scope params))"

definition buildCommandExecutionPolicyEvaluator :: "Policy \<Rightarrow> PolicyGroup list \<Rightarrow> policy_error + Evaluator" where
  "buildCommandExecutionPolicyEvaluator policy groups =
     (let scope = (mergePolicyScope (pol_Scope policy))\<lparr>sc_Content := [ContentTypeCommand]\<rparr>;
          m = Match policy;
          params = \<lparr>ToolNames = defaultToolNamesForCommandExecution (pm_ToolNames m),
            cp_Actions = (case pm_Actions m of
                            Some a \<Rightarrow> if Include a \<noteq> [] then Include a else [''execute'']
                          | None \<Rightarrow> [''execute'']),
            cp_Resources = (case pm_Resources m of Some r \<Rightarrow> Values r | None \<Rightarrow> []),
            cp_Terms = pm_Terms m,
            ResourceMatch = (case pm_Resources m of Some r \<Rightarrow> rm_Mode r | None \<Rightarrow> []),
            cp_Verdict = resolvePolicyVerdict policy VerdictBlock,
            cp_Reason = pol_Reason policy\<rparr>
      in fromOperation (NewOperationPolicy (pol_ID policy) (policyName policy)
           (resolvePolicyEnabled policy groups) scope params))"

definition buildContentPolicyEvaluator :: "guard_ext \<Rightarrow> Policy \<Rightarrow> PolicyGroup list \<Rightarrow> policy_error + Evaluator" where
  "buildContentPolicyEvaluator ext policy groups =
     (let m = Match policy in
      if pm_Patterns m = [] \<and> pm_CredentialRefs m = [] then Inl PatternsRequired
      else (let contentTypes = [ContentTypeText];
                scope = (mergePolicyScope (pol_Scope policy))\<lparr>sc_Content := contentTypes\<rparr>;
                params = \<lparr>Patterns = pm_Patterns m, CredentialRefs = pm_CredentialRefs m, Targets = contentTypes,
                  Mode = MatchMode m, CaseSensitive = pm_CaseSensitive m, UseRegex = (PatternMode m = ''regex''),
                  MinMatches = pm_MinMatches m, tm_Verdict = resolvePolicyVerdict policy VerdictBlock,
                  tm_Reason = pol_Reason policy\<rparr>
            in case NewContentPolicy ext (pol_ID policy) (policyName policy)
                      (resolvePolicyEnabled policy groups) scope params of
                 Inl e \<Rightarrow> Inl e
               | Inr p \<Rightarrow> Inr (ContentEvaluator p)))"

definition buildPolicyEvaluator :: "guard_ext \<Rightarrow> Policy \<Rightarrow> group_map \<Rightarrow> policy_error + Evaluator" where
  "buildPolicyEvaluator ext policy groups =
     (if pol_ID policy = [] then Inl PolicyIDRequired
      else (case resolvePolicyGroups policy groups of
        Inl e \<Rightarrow> Inl e
      | Inr policyGroups \<Rightarrow>
          (case pol_Kind policy of
             PolicyKindResourceAccess \<Rightarrow> buildResourceAccessPolicyEvaluator policy policyGroups
           | PolicyKindCommandExecution \<Rightarrow> buildCommandExecutionPolicyEvaluator policy policyGroups
           | PolicyKindContent \<Rightarrow> buildContentPolicyEvaluator ext policy policyGroups
           | PolicyKindOther k \<Rightarrow> Inl UnsupportedKind)))"

definition usesPolicyConfig :: "Config \<Rightarrow> bool" where
  "usesPolicyConfig cfg \<longleftrightarrow> Policies cfg \<noteq> [] \<or> cfg_Groups cfg \<noteq> []"

abbreviation "DefaultPolicyGroupID \<equiv> ''default''"

definition defaultGroup :: PolicyGroup where
  "defaultGroup = \<lparr>grp_ID = DefaultPolicyGroupID, grp_Name = ''Default'', grp_Enabled = True, grp_Severity = []\<rparr>"

definition normalizePolicyConfig :: "Config \<Rightarrow> Config" where
  "normalizePolicyConfig cfg =
     (let next1 = (if usesPolicyConfig cfg \<and> \<not> (\<exists>g\<in>set (cfg_Groups cfg). grp_ID g = DefaultPolicyGroupID)
                   then cfg\<lparr>cfg_Groups := cfg_Groups cfg @ [defaultGroup]\<rparr> else cfg)
      in if Policies cfg = [] then next1
         else next1\<lparr>Policies := map (\<lambda>p. p\<lparr>Groups := normalizedPolicyGroups p\<rparr>) (Policies cfg)\<rparr>)"

definition StorageConfig :: "Config \<Rightarrow> Config" where
  "StorageConfig cfg = normalizePolicyConfig cfg"

fun validateGroups :: "PolicyGroup list \<Rightarrow> group_map \<Rightarrow> policy_error + group_map" where
  "validateGroups [] m = Inr m"
| "validateGroups (g # gs) m =
     (if grp_ID g = [] then Inl GroupIDRequired
      else if m (grp_ID g) \<noteq> None then Inl (DuplicateGroup (grp_ID g))
      else validateGroups gs (m(grp_ID g \<mapsto> g)))"

fun validatePolicies :: "guard_ext \<Rightarrow> group_map \<Rightarrow> Policy list \<Rightarrow> string set \<Rightarrow> policy_error option" where
  "validatePolicies ext groups [] seen = None"
| "validatePolicies ext groups (p # ps) seen =
     (if pol_ID p = [] then Some PolicyIDRequired
      else if pol_ID p \<in> seen then Some (DuplicatePolicy (pol_ID p))
      else (case buildPolicyEvaluator ext p groups of
              Inl e \<Rightarrow> Some e
            | Inr _ \<Rightarrow> validatePolicies ext groups ps (insert (pol_ID p) seen)))"

definition validatePolicyConfig :: "guard_ext \<Rightarrow> Config \<Rightarrow> policy_error option" where
  "validatePolicyConfig ext cfg =
     (case validateGroups (cfg_Groups cfg) Map.empty of
        Inl e \<Rightarrow> Some e
      | Inr groupByID \<Rightarrow> validatePolicies ext groupByID (Policies cfg) {})"

definition ResolveConfig :: "guard_ext \<Rightarrow> Config \<Rightarrow> policy_error + Config" where
  "ResolveConfig ext cfg0 =
     (let cfg = normalizePolicyConfig cfg0 in
      if \<not> usesPolicyConfig cfg then Inl EmptyConfig
      else (case validatePolicyConfig ext cfg of Some e \<Rightarrow> Inl e | None \<Rightarrow> Inr cfg))"

fun buildAll :: "guard_ext \<Rightarrow> group_map \<Rightarrow> Policy list \<Rightarrow> policy_error + Evaluator list" where
  "buildAll ext groups [] = Inr []"
| "buildAll ext groups (p # ps) =
     (case buildPolicyEvaluator ext p groups of
        Inl e \<Rightarrow> Inl e
      | Inr ev \<Rightarrow> (case buildAll ext groups ps of Inl e \<Rightarrow> Inl e | Inr evs \<Rightarrow> Inr (ev # evs)))"

definition groupByID :: "PolicyGroup list \<Rightarrow> group_map" where
  "groupByID groups = fold (\<lambda>g m. m(grp_ID g \<mapsto> g)) groups Map.empty"

definition BuildEvaluators :: "guard_ext \<Rightarrow> Config \<Rightarrow> policy_error + Evaluator list" where
  "BuildEvaluators ext cfg =
     (case ResolveConfig ext cfg of
        Inl e \<Rightarrow> Inl e
      | Inr resolved \<Rightarrow> buildAll ext (groupByID (cfg_Groups resolved)) (Policies resolved))"

text \<open>\<^verbatim>\<open>BuildPolicyEngine\<close>; the only option its callers add is the short circuit.\<close>

definition BuildPolicyEngine :: "guard_ext \<Rightarrow> bool \<Rightarrow> Config \<Rightarrow> policy_error + Evaluator PolicyEngine" where
  "BuildPolicyEngine ext short cfg =
     (case ResolveConfig ext cfg of
        Inl e \<Rightarrow> Inl e
      | Inr resolved \<Rightarrow>
          (case BuildEvaluators ext resolved of
             Inl e \<Rightarrow> Inl e
           | Inr evs \<Rightarrow> Inr \<lparr>evaluators = map Some evs,
               strategy = (case Strategy resolved of Some s \<Rightarrow> s | None \<Rightarrow> StrategyMostSevere),
               errorStrategy = (case cfg_ErrorStrategy resolved of Some s \<Rightarrow> s | None \<Rightarrow> ErrorStrategyReview),
               shortCircuit = short\<rparr>))"

section \<open>Configuration files\<close>

text \<open>
  \<^verbatim>\<open>LoadConfig\<close> of \<^verbatim>\<open>internal/guardrails/load.go\<close>.  Reading and decoding a file, making a path
  absolute and joining it to a directory are parameters.
\<close>

datatype load_error =
    ImportCycle string
  | DecodeFailed string
  | ImportInvalid string
  | ResolveFailed policy_error

record file_ext =
  Abs :: "string \<Rightarrow> string"
  decodeConfigFile :: "string \<Rightarrow> Config option"
  childPath :: "string \<Rightarrow> string \<Rightarrow> string"

definition ValidateImportedFragment :: "Config \<Rightarrow> bool" where
  "ValidateImportedFragment cfg \<longleftrightarrow>
     Imports cfg = [] \<and> cfg_Groups cfg = [] \<and> Strategy cfg = None \<and> cfg_ErrorStrategy cfg = None"

definition loadImported :: "file_ext \<Rightarrow> string set \<Rightarrow> string \<Rightarrow> load_error + Policy list" where
  "loadImported fe stack path =
     (let resolvedPath = Abs fe path in
      if resolvedPath \<in> stack then Inl (ImportCycle resolvedPath)
      else (case decodeConfigFile fe resolvedPath of
              None \<Rightarrow> Inl (DecodeFailed resolvedPath)
            | Some cfg \<Rightarrow> if \<not> ValidateImportedFragment cfg then Inl (ImportInvalid resolvedPath)
                          else Inr (Policies cfg)))"

fun loadImports :: "file_ext \<Rightarrow> string \<Rightarrow> string list \<Rightarrow> load_error + Policy list" where
  "loadImports fe rootPath [] = Inr []"
| "loadImports fe rootPath (importPath # paths) =
     (if TrimSpace importPath = [] then loadImports fe rootPath paths
      else (case loadImported fe {rootPath} (childPath fe rootPath importPath) of
              Inl e \<Rightarrow> Inl e
            | Inr ps \<Rightarrow> (case loadImports fe rootPath paths of Inl e \<Rightarrow> Inl e | Inr qs \<Rightarrow> Inr (ps @ qs))))"

definition LoadConfig :: "guard_ext \<Rightarrow> file_ext \<Rightarrow> string \<Rightarrow> load_error + Config" where
  "LoadConfig ext fe path =
     (let rootPath = Abs fe path in
      case decodeConfigFile fe rootPath of
        None \<Rightarrow> Inl (DecodeFailed rootPath)
      | Some cfg \<Rightarrow>
          (case loadImports fe rootPath (Imports cfg) of
             Inl e \<Rightarrow> Inl e
           | Inr ps \<Rightarrow> (case ResolveConfig ext (cfg\<lparr>Policies := Policies cfg @ ps\<rparr>) of
                          Inl e \<Rightarrow> Inl (ResolveFailed e) | Inr c \<Rightarrow> Inr c)))"

section \<open>The verdict of the engine\<close>

definition present :: "'e option list \<Rightarrow> 'e list" where
  "present evs = concat (map (case_option [] (\<lambda>ev. [ev])) evs)"

lemma present_simps [simp]:
  "present [] = []" "present (None # evs) = present evs" "present (Some ev # evs) = ev # present evs"
  "present (map Some xs) = xs"
  by (simp_all add: present_def comp_def)

definition contribution :: "('e \<Rightarrow> string + PolicyResult) \<Rightarrow> ErrorStrategy \<Rightarrow> 'e \<Rightarrow> Verdict" where
  "contribution eval es ev =
     (case eval ev of
        Inl _ \<Rightarrow> verdictForErrorStrategy es
      | Inr pr \<Rightarrow> if res_Verdict pr = VerdictNone then VerdictAllow else res_Verdict pr)"

definition rankedVerdict :: "Verdict set \<Rightarrow> Verdict" where
  "rankedVerdict V =
     (if VerdictBlock \<in> V then VerdictBlock
      else if VerdictRedact \<in> V then VerdictRedact
      else if VerdictReview \<in> V then VerdictReview
      else VerdictAllow)"

lemma merge_ranked: "mergeVerdict (rankedVerdict V) v st = rankedVerdict (insert v V)"
  by (cases v) (auto simp: mergeVerdict_def rankedVerdict_def)

lemma rankedVerdict_block: "rankedVerdict V = VerdictBlock \<Longrightarrow> rankedVerdict (V \<union> W) = VerdictBlock"
  by (auto simp: rankedVerdict_def split: if_splits)

lemma rankedVerdict_allow [simp]: "rankedVerdict (insert VerdictAllow V) = rankedVerdict V"
  by (simp add: rankedVerdict_def)

definition engineStep ::
  "('e \<Rightarrow> string + PolicyResult) \<Rightarrow> ('e \<Rightarrow> string \<times> string \<times> string) \<Rightarrow> 'e PolicyEngine \<Rightarrow> 'e \<Rightarrow> Result \<Rightarrow> Result" where
  "engineStep eval desc e ev result =
     result\<lparr>Verdict := mergeVerdict (Verdict result) (contribution eval (errorStrategy e) ev) (strategy e),
       Reasons := Reasons result @
         (case eval ev of Inl _ \<Rightarrow> [] | Inr pr \<Rightarrow> if res_Verdict pr \<in> {VerdictNone, VerdictAllow} then [] else [pr]),
       Errors := Errors result @
         (case eval ev of
            Inl err \<Rightarrow> [\<lparr>err_PolicyID = fst (desc ev), err_PolicyName = fst (snd (desc ev)),
              err_PolicyType = snd (snd (desc ev)), err_Error = err\<rparr>]
          | Inr _ \<Rightarrow> [])\<rparr>"

definition engineStops :: "('e \<Rightarrow> string + PolicyResult) \<Rightarrow> 'e PolicyEngine \<Rightarrow> 'e \<Rightarrow> Result \<Rightarrow> bool" where
  "engineStops eval e ev result \<longleftrightarrow>
     shortCircuit e \<and> Verdict result = VerdictBlock \<and>
     (case eval ev of Inl _ \<Rightarrow> True | Inr pr \<Rightarrow> res_Verdict pr \<notin> {VerdictNone, VerdictAllow})"

lemma merge_inert [simp]: "mergeVerdict v VerdictAllow st = v" "mergeVerdict v VerdictNone st = v"
  by (simp_all add: mergeVerdict_def)

lemma engineLoop_step:
  "engineLoop eval desc e (Some ev # evs) result =
     (if engineStops eval e ev (engineStep eval desc e ev result) then engineStep eval desc e ev result
      else engineLoop eval desc e evs (engineStep eval desc e ev result))"
proof (cases "eval ev")
  case (Inl err)
  obtain i n t where "desc ev = (i, n, t)" by (cases "desc ev")
  with Inl show ?thesis by (cases result) (simp add: engineStep_def engineStops_def contribution_def Let_def)
next
  case (Inr pr)
  then show ?thesis by (cases result) (simp add: engineStep_def engineStops_def contribution_def Let_def)
qed

lemma engineStep_verdict:
  "Verdict result = rankedVerdict V \<Longrightarrow>
   Verdict (engineStep eval desc e ev result) = rankedVerdict (insert (contribution eval (errorStrategy e) ev) V)"
  by (simp add: engineStep_def merge_ranked)

lemma engineLoop_verdict:
  "Verdict result = rankedVerdict V \<Longrightarrow>
   Verdict (engineLoop eval desc e evs result) =
     rankedVerdict (V \<union> contribution eval (errorStrategy e) ` set (present evs))"
proof (induction evs arbitrary: result V)
  case (Cons x evs)
  show ?case
  proof (cases x)
    case (Some ev)
    let ?r = "engineStep eval desc e ev result"
    let ?V = "insert (contribution eval (errorStrategy e) ev) V"
    have v: "Verdict ?r = rankedVerdict ?V" by (rule engineStep_verdict [OF Cons.prems])
    show ?thesis
    proof (cases "engineStops eval e ev ?r")
      case True
      then have "rankedVerdict ?V = VerdictBlock" using v by (simp add: engineStops_def)
      from rankedVerdict_block [OF this, of "contribution eval (errorStrategy e) ` set (present evs)"] this True v
      show ?thesis by (simp only: Some engineLoop_step if_True present_simps list.set image_insert) simp
    next
      case False
      with Cons.IH [OF v] show ?thesis
        by (simp only: Some engineLoop_step if_False present_simps list.set image_insert) simp
    qed
  qed (use Cons in simp)
qed simp

lemma engineLoop_reports:
  "\<not> shortCircuit e \<Longrightarrow>
   Reasons (engineLoop eval desc e evs result) = Reasons result @ concat (map (\<lambda>ev.
      case eval ev of Inl _ \<Rightarrow> [] | Inr pr \<Rightarrow> if res_Verdict pr \<in> {VerdictNone, VerdictAllow} then [] else [pr]) (present evs)) \<and>
   map err_PolicyID (Errors (engineLoop eval desc e evs result)) =
     map err_PolicyID (Errors result) @ map (\<lambda>ev. fst (desc ev)) (filter (\<lambda>ev. \<exists>err. eval ev = Inl err) (present evs))"
proof (induction evs arbitrary: result)
  case (Cons x evs)
  then have "\<not> engineStops eval e ev r" for ev r by (simp add: engineStops_def)
  then show ?case
    by (cases x)
       (use Cons in \<open>simp_all add: engineLoop_step engineStep_def del: engineLoop.simps(3) split: sum.splits\<close>)
qed simp

text \<open>
  C9 (equivalence): the engine's verdict is a function of the set of its policies' verdicts: block
  if any policy blocks, else redact if any redacts, else review if any asks for review, else
  allow, where a policy that fails counts with the verdict of the error strategy.  So the order of
  the policies, the combining strategy and stopping early at a block never change it.
\<close>

theorem engine_verdict:
  "Verdict (Engine_Evaluate ext e input) =
     (let vs = contribution (\<lambda>ev. ev_Evaluate ext ev input) (errorStrategy e) ` set (present (evaluators e)) in
      if VerdictBlock \<in> vs then VerdictBlock
      else if VerdictRedact \<in> vs then VerdictRedact
      else if VerdictReview \<in> vs then VerdictReview
      else VerdictAllow)"
  unfolding Engine_Evaluate_def Let_def
  by (subst engineLoop_verdict [where V = "{}"]) (simp_all add: rankedVerdict_def)

text \<open>
  A policy that asks for masking ranks below allow: its reason is reported, and the verdict stays
  allow.
\<close>

lemma mask_verdict_is_lost:
  assumes "ev_Evaluate ext ev input = Inr pr" and "res_Verdict pr = VerdictMask"
  shows "Verdict (Engine_Evaluate ext \<lparr>evaluators = [Some ev], strategy = st, errorStrategy = es, shortCircuit = sc\<rparr> input) = VerdictAllow"
    and "Reasons (Engine_Evaluate ext \<lparr>evaluators = [Some ev], strategy = st, errorStrategy = es, shortCircuit = sc\<rparr> input) = [pr]"
  using assms by (simp_all add: Engine_Evaluate_def mergeVerdict_def Let_def)

section \<open>The interface of an evaluator\<close>

text \<open>
  What the engine relies on: a policy that is disabled, or whose scope does not cover the input,
  answers allow without consulting anything.
\<close>

locale evaluator =
  fixes eval :: "'e \<Rightarrow> Input \<Rightarrow> string + PolicyResult"
    and enabled :: "'e \<Rightarrow> bool"
    and scope :: "'e \<Rightarrow> Scope"
    and desc :: "'e \<Rightarrow> string \<times> string \<times> string"
  assumes disabled_allows: "\<not> enabled ev \<Longrightarrow> eval ev input = Inr allowResult"
    and unscoped_allows: "\<not> Scope_Matches (scope ev) input \<Longrightarrow> eval ev input = Inr allowResult"
begin

lemma inert_step:
  assumes "\<not> (enabled ev \<and> Scope_Matches (scope ev) input)"
  shows "engineStep (\<lambda>ev. eval ev input) desc e ev result = result"
    and "\<not> engineStops (\<lambda>ev. eval ev input) e ev result"
  using assms disabled_allows [of ev input] unscoped_allows [of ev input]
  by (auto simp: engineStep_def engineStops_def contribution_def allowResult_def)

lemma inert_removed:
  "engineLoop (\<lambda>ev. eval ev input) desc e evs result =
   engineLoop (\<lambda>ev. eval ev input) desc e
     (map Some (filter (\<lambda>ev. enabled ev \<and> Scope_Matches (scope ev) input) (present evs))) result"
proof (induction evs arbitrary: result)
  case (Cons x evs)
  show ?case
  proof (cases x)
    case (Some ev)
    show ?thesis
    proof (cases "enabled ev \<and> Scope_Matches (scope ev) input")
      case True
      then show ?thesis by (simp add: Some engineLoop_step Cons.IH del: engineLoop.simps(3))
    next
      case False
      note inert_step [OF False]
      then show ?thesis using False by (auto simp add: Some engineLoop_step Cons.IH simp del: engineLoop.simps(3))
    qed
  qed (simp add: Cons.IH)
qed simp

lemma blocking_policy_blocks:
  assumes "ev \<in> set (present (evaluators e))" and "eval ev input = Inr pr" and "res_Verdict pr = VerdictBlock"
  shows "Verdict (engineLoop (\<lambda>ev. eval ev input) desc e (evaluators e) \<lparr>Verdict = VerdictAllow, Reasons = [], Errors = []\<rparr>) =
    VerdictBlock"
proof -
  have "contribution (\<lambda>ev. eval ev input) (errorStrategy e) ev = VerdictBlock"
    using assms(2,3) by (simp add: contribution_def)
  with assms(1) have "VerdictBlock \<in> contribution (\<lambda>ev. eval ev input) (errorStrategy e) ` set (present (evaluators e))"
    by (metis image_eqI)
  then show ?thesis
    by (subst engineLoop_verdict [where V = "{}"]) (simp_all add: rankedVerdict_def)
qed

end

interpretation guard: evaluator "ev_Evaluate ext" ev_Enabled ev_scope "\<lambda>ev. (ev_ID ev, ev_Name ev, ev_Type ev)" for ext
proof
  show "\<not> ev_Enabled ev \<Longrightarrow> ev_Evaluate ext ev input = Inr allowResult" for ev input
    by (cases ev)
       (simp_all add: OperationPolicy_Evaluate_def ContentPolicy_Evaluate_def JudgePolicy_Evaluate_def Let_def)
  show "\<not> Scope_Matches (ev_scope ev) input \<Longrightarrow> ev_Evaluate ext ev input = Inr allowResult" for ev input
    by (cases ev)
       (simp_all add: OperationPolicy_Evaluate_def ContentPolicy_Evaluate_def JudgePolicy_Evaluate_def Let_def)
qed

lemma engineStep_evaluators [simp]:
  "engineStep eval desc (e\<lparr>evaluators := x\<rparr>) ev r = engineStep eval desc e ev r"
  "engineStops eval (e\<lparr>evaluators := x\<rparr>) ev r = engineStops eval e ev r"
  by (simp_all add: engineStep_def engineStops_def)

lemma engineLoop_evaluators:
  "engineLoop eval desc (e\<lparr>evaluators := x\<rparr>) evs r = engineLoop eval desc e evs r"
proof (induction evs arbitrary: r)
  case (Cons a evs)
  then show ?case by (cases a) (simp_all add: engineLoop_step del: engineLoop.simps(3))
qed simp

text \<open>
  A policy that is switched off or out of scope has no influence: the engine gives
  the same verdict, reasons and errors as with only the enabled policies whose scope covers the
  input, also when it stops early.
\<close>

theorem inert_policies_removed:
  "Engine_Evaluate ext e input =
   Engine_Evaluate ext
     (e\<lparr>evaluators := map Some (filter (\<lambda>ev. ev_Enabled ev \<and> Scope_Matches (ev_scope ev) input)
        (present (evaluators e)))\<rparr>) input"
  using guard.inert_removed [of ext input e "evaluators e"]
  by (simp add: Engine_Evaluate_def engineLoop_evaluators)

section \<open>Resolved configurations\<close>

lemma normalizedPolicyGroups_fold:
  assumes "distinct acc" and "[] \<notin> set acc"
  shows "let r = fold (\<lambda>groupID acc. if groupID = [] then acc else if groupID \<in> set acc then acc else acc @ [groupID]) gs acc
    in distinct r \<and> set r = set acc \<union> (set gs - {[]})"
  using assms
proof (induction gs arbitrary: acc)
  case (Cons g gs)
  then show ?case
    by (cases "g = [] \<or> g \<in> set acc") (auto simp: Let_def)
qed simp

lemma normalizedPolicyGroups_set:
  "set (normalizedPolicyGroups p) = set (Groups p) - {[]}" "distinct (normalizedPolicyGroups p)"
  using normalizedPolicyGroups_fold [of "[]" "Groups p"] by (simp_all add: normalizedPolicyGroups_def Let_def)

lemma normalize_fold_id:
  "distinct gs \<Longrightarrow> [] \<notin> set gs \<Longrightarrow> set acc \<inter> set gs = {} \<Longrightarrow>
   fold (\<lambda>groupID acc. if groupID = [] then acc else if groupID \<in> set acc then acc else acc @ [groupID]) gs acc = acc @ gs"
  by (induction gs arbitrary: acc) auto

lemma normalizedPolicyGroups_idem:
  "normalizedPolicyGroups (p\<lparr>Groups := normalizedPolicyGroups p\<rparr>) = normalizedPolicyGroups p"
  using normalizedPolicyGroups_set [of p] normalize_fold_id [of "normalizedPolicyGroups p" "[]"]
  by (simp add: normalizedPolicyGroups_def [of "p\<lparr>Groups := normalizedPolicyGroups p\<rparr>"])

lemma normalizePolicyConfig_idem: "normalizePolicyConfig (normalizePolicyConfig cfg) = normalizePolicyConfig cfg"
proof -
  have m: "map (\<lambda>p. p\<lparr>Groups := normalizedPolicyGroups p\<rparr>) (map (\<lambda>p. p\<lparr>Groups := normalizedPolicyGroups p\<rparr>) ps) =
      map (\<lambda>p. p\<lparr>Groups := normalizedPolicyGroups p\<rparr>) ps" for ps
    by (simp add: normalizedPolicyGroups_idem)
  show ?thesis
    by (cases cfg) (auto simp: normalizePolicyConfig_def Let_def usesPolicyConfig_def defaultGroup_def m simp del: map_map)
qed

text \<open>A resolved configuration resolves to itself.\<close>

lemma ResolveConfig_resolved:
  assumes "ResolveConfig ext cfg = Inr r"
  shows "r = normalizePolicyConfig cfg" and "ResolveConfig ext r = Inr r" and "usesPolicyConfig r"
    and "validatePolicyConfig ext r = None"
  using assms by (auto simp: ResolveConfig_def Let_def normalizePolicyConfig_idem split: if_splits option.splits)

lemma validateGroups_map: "validateGroups gs m = Inr m' \<Longrightarrow> m' = fold (\<lambda>g m. m(grp_ID g \<mapsto> g)) gs m"
  by (induction gs m rule: validateGroups.induct) (auto split: if_splits)

lemma validateGroups_find:
  "validateGroups gs m = Inr m' \<Longrightarrow> (\<forall>i g. m i = Some g \<longrightarrow> m' i = Some g) \<and> (\<forall>g\<in>set gs. m' (grp_ID g) = Some g)"
proof (induction gs m rule: validateGroups.induct)
  case (2 g gs m)
  then have new: "grp_ID g \<noteq> []" "m (grp_ID g) = None" and run: "validateGroups gs (m(grp_ID g \<mapsto> g)) = Inr m'"
    by (auto split: if_splits)
  have "\<not> m (grp_ID g) \<noteq> None" using new by simp
  from "2.IH" [OF new(1) this run]
  have ih: "\<And>i h. (m(grp_ID g \<mapsto> g)) i = Some h \<Longrightarrow> m' i = Some h" "\<forall>g\<in>set gs. m' (grp_ID g) = Some g" by blast+
  have "m' i = Some h" if "m i = Some h" for i h using that new(2) by (intro ih(1)) auto
  moreover have "m' (grp_ID g) = Some g" by (intro ih(1)) simp
  ultimately show ?case using ih(2) by simp
qed simp

lemma validateGroups_named: "validateGroups gs m = Inr m' \<Longrightarrow> g \<in> set gs \<Longrightarrow> grp_ID g \<noteq> []"
  by (induction gs m rule: validateGroups.induct) (auto split: if_splits)

lemma validatePolicies_ok:
  "validatePolicies ext groups ps seen = None \<Longrightarrow>
   (\<forall>p\<in>set ps. \<exists>ev. buildPolicyEvaluator ext p groups = Inr ev) \<and> distinct (map pol_ID ps) \<and>
   pol_ID ` set ps \<inter> seen = {}"
  by (induction ext groups ps seen rule: validatePolicies.induct) (auto split: if_splits sum.splits)

definition builtEvaluator :: "guard_ext \<Rightarrow> group_map \<Rightarrow> Policy \<Rightarrow> Evaluator" where
  "builtEvaluator ext groups p = projr (buildPolicyEvaluator ext p groups)"

lemma buildAll_ok:
  "\<forall>p\<in>set ps. \<exists>ev. buildPolicyEvaluator ext p groups = Inr ev \<Longrightarrow>
   buildAll ext groups ps = Inr (map (builtEvaluator ext groups) ps)"
  by (induction ps) (auto simp: builtEvaluator_def)

lemma resolveIDs_groups: "resolveIDs groups ids = Inr gs \<Longrightarrow> map Some gs = map groups ids"
  by (induction ids arbitrary: gs) (auto split: option.splits sum.splits)

lemma resolvePolicyGroups_set:
  assumes "resolvePolicyGroups p groups = Inr gs"
  shows "Some ` set gs = groups ` (set (Groups p) - {[]})"
proof (cases "normalizedPolicyGroups p = []")
  case True
  then have "set (Groups p) - {[]} = {}" using normalizedPolicyGroups_set(1) [of p] by simp
  moreover from True assms have "gs = []" by (simp add: resolvePolicyGroups_def)
  ultimately show ?thesis by simp
next
  case False
  with assms have "map Some gs = map groups (normalizedPolicyGroups p)"
    by (simp add: resolvePolicyGroups_def Let_def resolveIDs_groups)
  then have "set (map Some gs) = set (map groups (normalizedPolicyGroups p))" by simp
  then show ?thesis by (simp add: normalizedPolicyGroups_set)
qed

lemma fromOperation_fields:
  "fromOperation (NewOperationPolicy i n en sc ps) = Inr ev \<Longrightarrow> ev_ID ev = i \<and> ev_Enabled ev = en \<and> ev_scope ev = sc"
  by (auto simp: fromOperation_def NewOperationPolicy_def split: if_splits)

lemma NewContentPolicy_fields:
  "NewContentPolicy ext i n en sc ps = Inr p \<Longrightarrow> cp_id p = i \<and> cp_enabled p = en \<and> cp_scope p = sc"
  by (auto simp: NewContentPolicy_def Let_def split: if_splits sum.splits)

lemma built_fields:
  assumes "buildPolicyEvaluator ext p groups = Inr ev"
  shows "ev_ID ev = pol_ID p \<and>
    (ev_Enabled ev \<longleftrightarrow> pol_Enabled p \<and> (\<exists>i\<in>set (Groups p) - {[]}. \<exists>g. groups i = Some g \<and> grp_Enabled g)) \<and>
    ev_scope ev = (pol_Scope p)\<lparr>sc_Content := (if pol_Kind p = PolicyKindContent then [ContentTypeText] else [ContentTypeCommand])\<rparr>"
proof -
  from assms obtain gs where gs: "resolvePolicyGroups p groups = Inr gs"
    by (auto simp: buildPolicyEvaluator_def split: if_splits sum.splits)
  have en: "resolvePolicyEnabled p gs \<longleftrightarrow> pol_Enabled p \<and> (\<exists>i\<in>set (Groups p) - {[]}. \<exists>g. groups i = Some g \<and> grp_Enabled g)"
  proof -
    have "(\<exists>g\<in>set gs. grp_Enabled g) \<longleftrightarrow> (\<exists>x\<in>Some ` set gs. \<exists>g. x = Some g \<and> grp_Enabled g)" by blast
    also have "\<dots> \<longleftrightarrow> (\<exists>i\<in>set (Groups p) - {[]}. \<exists>g. groups i = Some g \<and> grp_Enabled g)"
      unfolding resolvePolicyGroups_set [OF gs] by blast
    finally show ?thesis by (auto simp: resolvePolicyEnabled_def)
  qed
  show ?thesis
  proof (cases "pol_Kind p")
    case PolicyKindResourceAccess
    with assms gs have "buildResourceAccessPolicyEvaluator p gs = Inr ev"
      by (simp add: buildPolicyEvaluator_def split: if_splits)
    from fromOperation_fields [OF this [unfolded buildResourceAccessPolicyEvaluator_def Let_def]] PolicyKindResourceAccess en
    show ?thesis by (simp add: mergePolicyScope_def)
  next
    case PolicyKindCommandExecution
    with assms gs have "buildCommandExecutionPolicyEvaluator p gs = Inr ev"
      by (simp add: buildPolicyEvaluator_def split: if_splits)
    from fromOperation_fields [OF this [unfolded buildCommandExecutionPolicyEvaluator_def Let_def]]
      PolicyKindCommandExecution en
    show ?thesis by (simp add: mergePolicyScope_def)
  next
    case PolicyKindContent
    with assms gs have "buildContentPolicyEvaluator ext p gs = Inr ev"
      by (simp add: buildPolicyEvaluator_def split: if_splits)
    then obtain q ps where q: "ev = ContentEvaluator q" "NewContentPolicy ext (pol_ID p) (policyName p) (resolvePolicyEnabled p gs)
        ((mergePolicyScope (pol_Scope p))\<lparr>sc_Content := [ContentTypeText]\<rparr>) ps = Inr q"
      by (auto simp: buildContentPolicyEvaluator_def Let_def split: if_splits sum.splits)
    from NewContentPolicy_fields [OF q(2)] PolicyKindContent en q(1)
    show ?thesis by (simp add: mergePolicyScope_def)
  next
    case (PolicyKindOther k)
    with assms gs show ?thesis by (simp add: buildPolicyEvaluator_def split: if_splits)
  qed
qed

definition resolvedMap :: "Config \<Rightarrow> group_map" where
  "resolvedMap cfg = groupByID (cfg_Groups (normalizePolicyConfig cfg))"

lemma normalize_policies [simp]:
  "map pol_ID (Policies (normalizePolicyConfig cfg)) = map pol_ID (Policies cfg)"
  by (simp add: normalizePolicyConfig_def Let_def)

lemma Build_resolved:
  assumes "ResolveConfig ext cfg = Inr r"
  shows "\<forall>p\<in>set (Policies r). buildPolicyEvaluator ext p (resolvedMap cfg) = Inr (builtEvaluator ext (resolvedMap cfg) p)"
    and "BuildEvaluators ext r = Inr (map (builtEvaluator ext (resolvedMap cfg)) (Policies r))"
    and "distinct (map pol_ID (Policies r))"
    and "\<forall>g\<in>set (cfg_Groups r). resolvedMap cfg (grp_ID g) = Some g"
    and "\<forall>g\<in>set (cfg_Groups r). grp_ID g \<noteq> []"
proof -
  note r = ResolveConfig_resolved [OF assms]
  from r(4) obtain m where m: "validateGroups (cfg_Groups r) Map.empty = Inr m" "validatePolicies ext m (Policies r) {} = None"
    by (auto simp: validatePolicyConfig_def split: sum.splits)
  have map: "resolvedMap cfg = m" using validateGroups_map [OF m(1)] r(1) by (simp add: resolvedMap_def groupByID_def)
  note ok = validatePolicies_ok [OF m(2)]
  show "\<forall>p\<in>set (Policies r). buildPolicyEvaluator ext p (resolvedMap cfg) = Inr (builtEvaluator ext (resolvedMap cfg) p)"
    using ok by (auto simp: map builtEvaluator_def)
  have "groupByID (cfg_Groups r) = m" using map r(1) by (simp add: resolvedMap_def)
  with buildAll_ok [of "Policies r" ext m] ok r(2) map
  show "BuildEvaluators ext r = Inr (map (builtEvaluator ext (resolvedMap cfg)) (Policies r))"
    by (simp add: BuildEvaluators_def)
  show "distinct (map pol_ID (Policies r))" using ok by blast
  show "\<forall>g\<in>set (cfg_Groups r). resolvedMap cfg (grp_ID g) = Some g"
    using validateGroups_find [OF m(1)] map by simp
  show "\<forall>g\<in>set (cfg_Groups r). grp_ID g \<noteq> []" using validateGroups_named [OF m(1)] by blast
qed

lemma BuildPolicyEngine_resolved:
  assumes "ResolveConfig ext cfg = Inr r"
  shows "BuildPolicyEngine ext short cfg =
    Inr \<lparr>evaluators = map Some (map (builtEvaluator ext (resolvedMap cfg)) (Policies r)),
         strategy = (case Strategy r of Some s \<Rightarrow> s | None \<Rightarrow> StrategyMostSevere),
         errorStrategy = (case cfg_ErrorStrategy r of Some s \<Rightarrow> s | None \<Rightarrow> ErrorStrategyReview),
         shortCircuit = short\<rparr>"
  using Build_resolved(2) [OF assms] assms by (simp add: BuildPolicyEngine_def)

lemma groups_only:
  "fold (\<lambda>g m. m(grp_ID g \<mapsto> g)) gs m i = Some g \<Longrightarrow> m i = Some g \<or> g \<in> set gs \<and> grp_ID g = i"
proof (induction gs arbitrary: m)
  case (Cons h gs)
  from Cons.prems have "fold (\<lambda>g m. m(grp_ID g \<mapsto> g)) gs (m(grp_ID h \<mapsto> h)) i = Some g"
    by (simp only: fold_simps)
  from Cons.IH [OF this] show ?case by (cases "i = grp_ID h") auto
qed simp

text \<open>
  C15 (error): a configuration is rejected when it is resolved or not at all.  Building an engine
  fails exactly with the error resolving it gives; once it resolves, to a configuration that
  resolves to itself, the engine is built, with one evaluator per policy in the configured order,
  of distinct identifiers, and an evaluator is enabled exactly when its policy is and some group
  of the policy is.
\<close>

theorem accepted_config_builds:
  "case ResolveConfig ext cfg of
     Inl err \<Rightarrow> BuildPolicyEngine ext short cfg = Inl err
   | Inr r \<Rightarrow>
       ResolveConfig ext r = Inr r \<and>
       (\<exists>e. BuildPolicyEngine ext short cfg = Inr e \<and>
          map ev_ID (present (evaluators e)) = map pol_ID (Policies cfg) \<and> distinct (map pol_ID (Policies cfg)) \<and>
          map ev_Enabled (present (evaluators e)) =
            map (\<lambda>p. pol_Enabled p \<and>
                  (\<exists>g\<in>set (cfg_Groups r). grp_ID g \<in> set (Groups p) \<and> grp_Enabled g)) (Policies r))"
proof (cases "ResolveConfig ext cfg")
  case (Inl err)
  then show ?thesis by (simp add: BuildPolicyEngine_def)
next
  case (Inr r)
  note res = ResolveConfig_resolved [OF Inr] and b = Build_resolved [OF Inr]
  have ids: "map pol_ID (Policies r) = map pol_ID (Policies cfg)" using res(1) by simp
  note named = Build_resolved(5) [OF Inr, rule_format]
  have only: "g \<in> set (cfg_Groups r) \<and> grp_ID g = i" if "resolvedMap cfg i = Some g" for i g
    using groups_only [of "cfg_Groups r" Map.empty i g] that res(1) by (simp add: resolvedMap_def groupByID_def)
  have groups: "(\<exists>i\<in>set (Groups p) - {[]}. \<exists>g. resolvedMap cfg i = Some g \<and> grp_Enabled g) \<longleftrightarrow>
     (\<exists>g\<in>set (cfg_Groups r). grp_ID g \<in> set (Groups p) \<and> grp_Enabled g)" for p
  proof
    assume "\<exists>i\<in>set (Groups p) - {[]}. \<exists>g. resolvedMap cfg i = Some g \<and> grp_Enabled g"
    then obtain i g where "i \<in> set (Groups p)" "resolvedMap cfg i = Some g" "grp_Enabled g" by blast
    with only [of i g] show "\<exists>g\<in>set (cfg_Groups r). grp_ID g \<in> set (Groups p) \<and> grp_Enabled g" by blast
  next
    assume "\<exists>g\<in>set (cfg_Groups r). grp_ID g \<in> set (Groups p) \<and> grp_Enabled g"
    then obtain g where "g \<in> set (cfg_Groups r)" "grp_ID g \<in> set (Groups p)" "grp_Enabled g" by blast
    with b(4) named [of g] show "\<exists>i\<in>set (Groups p) - {[]}. \<exists>g. resolvedMap cfg i = Some g \<and> grp_Enabled g" by blast
  qed
  have fields: "ev_ID (builtEvaluator ext (resolvedMap cfg) p) = pol_ID p \<and>
     (ev_Enabled (builtEvaluator ext (resolvedMap cfg) p) \<longleftrightarrow> pol_Enabled p \<and>
        (\<exists>g\<in>set (cfg_Groups r). grp_ID g \<in> set (Groups p) \<and> grp_Enabled g))"
    if "p \<in> set (Policies r)" for p
    using built_fields [OF b(1) [rule_format, OF that]] unfolding groups by blast
  let ?B = "builtEvaluator ext (resolvedMap cfg)"
  have 1: "map ev_ID (map ?B (Policies r)) = map pol_ID (Policies r)"
    unfolding map_map comp_def by (rule map_cong [OF refl]) (simp add: fields)
  have 2: "map ev_Enabled (map ?B (Policies r)) = map (\<lambda>p. pol_Enabled p \<and>
      (\<exists>g\<in>set (cfg_Groups r). grp_ID g \<in> set (Groups p) \<and> grp_Enabled g)) (Policies r)"
    unfolding map_map comp_def by (rule map_cong [OF refl]) (simp add: fields)
  show ?thesis
    unfolding Inr sum.case
  proof (intro conjI exI)
    show "BuildPolicyEngine ext short cfg = Inr \<lparr>evaluators = map Some (map ?B (Policies r)),
         strategy = (case Strategy r of Some s \<Rightarrow> s | None \<Rightarrow> StrategyMostSevere),
         errorStrategy = (case cfg_ErrorStrategy r of Some s \<Rightarrow> s | None \<Rightarrow> ErrorStrategyReview),
         shortCircuit = short\<rparr>"
      by (rule BuildPolicyEngine_resolved [OF Inr])
  qed (simp_all only: res(2) PolicyEngine.simps present_simps 1 2 ids b(3) [unfolded ids])
qed

section \<open>A protected resource\<close>

lemma splitLoop_blank: "\<forall>c\<in>set raw. ascii_space c \<Longrightarrow> splitLoop raw None False [] = []"
proof (induction raw)
  case (Cons c raw)
  then have "(of_char c :: nat) \<in> {9, 10, 11, 12, 13, 32}" by (simp add: ascii_space_def)
  then have "isSpaceRune c" "c \<noteq> bsl" "c \<noteq> squote" "c \<noteq> dquote" by (auto simp: isSpaceRune_def)
  with Cons show ?case by (simp add: flushToken_def)
qed (simp add: flushToken_def)

lemma TrimSpace_Nil: "TrimSpace s = [] \<longleftrightarrow> (\<forall>c\<in>set s. ascii_space c)"
proof
  assume "TrimSpace s = []"
  then have "\<forall>c\<in>set (dropWhile ascii_space s). ascii_space c" by (simp add: TrimSpace_def dropWhile_eq_Nil_conv)
  then have "dropWhile ascii_space s = []" using hd_dropWhile [of ascii_space s] by (metis list.set_sel(1))
  then show "\<forall>c\<in>set s. ascii_space c" by (simp add: dropWhile_eq_Nil_conv)
qed (auto simp: TrimSpace_def dropWhile_eq_Nil_conv dest: set_dropWhileD)

lemma parsed_not_blank: "ParseShellCommand raw = Some sc \<Longrightarrow> TrimSpace raw \<noteq> []"
  using splitLoop_blank [of raw] by (auto simp: ParseShellCommand_read shellSplit_def TrimSpace_Nil split: if_splits)

lemma command_derived:
  assumes "map_of (Arguments c) ''command'' = Some (JString raw)" and "ParseShellCommand raw = Some sc"
  shows "Name (AttachDerivedFields um c) = Name c" and
    "Normalized (AttachDerivedFields um c) = Some (normalizeShellCommand sc)"
  using assms parsed_not_blank [OF assms(2)]
  by (auto simp: AttachDerivedFields_def ExtractShellCommandText_def commandArgumentKeys_def
      shellCommandArgumentKeys_def genericCommandArgumentKeys_def stringArgument_def)

lemma HasPrefix_ToLower: "HasPrefix r v \<Longrightarrow> HasPrefix (ToLower r) (ToLower v)"
  by (auto simp: HasPrefix_iff)

definition protects :: "Policy \<Rightarrow> string \<Rightarrow> bool" where
  "protects p v \<longleftrightarrow>
     pol_Kind p = PolicyKindResourceAccess \<and> pol_Verdict p \<in> {VerdictNone, VerdictBlock} \<and>
     pm_ToolNames (Match p) = [] \<and> pm_Terms (Match p) = [] \<and>
     (case pm_Actions (Match p) of None \<Rightarrow> True | Some a \<Rightarrow> Include a = []) \<and>
     (case pm_Resources (Match p) of None \<Rightarrow> False | Some r \<Rightarrow> v \<in> set (Values r) \<and> rm_Mode r \<noteq> ''exact'')"

lemma built_resource_policy:
  assumes "buildPolicyEvaluator ext p groups = Inr ev" and "protects p v"
  shows "\<exists>r. ev = OpEvaluator r \<and> ToolNames (op_config r) = [''bash''] \<and> cp_Actions (op_config r) = [] \<and>
    v \<in> set (cp_Resources (op_config r)) \<and> ResourceMatch (op_config r) \<noteq> ''exact'' \<and> cp_Terms (op_config r) = [] \<and>
    cp_Verdict (op_config r) = VerdictBlock"
  using assms
  by (auto simp: protects_def buildPolicyEvaluator_def buildResourceAccessPolicyEvaluator_def fromOperation_def
      NewOperationPolicy_def Let_def defaultToolNamesForResourceAccess_def resolvePolicyVerdict_def
      split: if_splits option.splits sum.splits)

lemma operation_blocks:
  assumes "op_enabled r" and "Scope_Matches (op_scope r) input" and "cnt_Command (inp_Content input) = Some c"
    and "Normalized c = Some n \<or> Normalized c = None \<and> Normalized (AttachDerivedFields (Unmarshal ext) c) = Some n"
    and "Name (AttachDerivedFields (Unmarshal ext) c) = ''bash''" and "Name c = ''bash''"
    and "ToolNames (op_config r) = [''bash'']" and "cp_Actions (op_config r) = []" and "cp_Terms (op_config r) = []"
    and "t \<in> set (Resources n)" and "v \<in> set (cp_Resources (op_config r))" and "HasPrefix t v"
    and "ResourceMatch (op_config r) \<noteq> ''exact''"
  shows "res_Verdict (OperationPolicy_Evaluate ext r input) = cp_Verdict (op_config r)"
proof -
  have "Contains (ToLower t) (ToLower v)" using HasPrefix_ToLower [OF assms(12)] Contains_append_mid [of "[]"]
    by (auto simp: HasPrefix_iff)
  with HasPrefix_ToLower [OF assms(12)] assms(10-13)
  have "resourcesMatch (Resources n) (cp_Resources (op_config r)) (ResourceMatch (op_config r))"
    unfolding resourcesMatch_def Let_def by (intro bexI [of _ t] bexI [of _ v]) auto
  with assms show ?thesis
    by (auto simp: OperationPolicy_Evaluate_def Let_def stringSliceIntersects_def)
qed

lemma protected_resource_engine:
  assumes "BuildPolicyEngine ext short cfg = Inr e"
    and "p \<in> set (Policies (normalizePolicyConfig cfg))" and "protects p v" and "pol_Enabled p"
    and "g \<in> set (cfg_Groups (normalizePolicyConfig cfg))" and "grp_ID g \<in> set (Groups p)" and "grp_Enabled g"
    and "Scope_Matches ((pol_Scope p)\<lparr>sc_Content := [ContentTypeCommand]\<rparr>) input"
    and "cnt_Command (inp_Content input) = Some c" and "Normalized c \<in> {None, Some (normalizeShellCommand sc)}" and "Name c = ''bash''"
    and "map_of (Arguments c) ''command'' = Some (JString raw)" and "ParseShellCommand raw = Some sc"
    and "(\<exists>cmd\<in>set (Commands sc). t \<in> set (Args cmd)) \<or> (\<exists>rd\<in>set (Redirects sc). t = Target rd)"
    and "isResourceLikeToken t" and "HasPrefix t v"
  shows "Verdict (Engine_Evaluate ext e input) = VerdictBlock"
proof -
  obtain r where r: "ResolveConfig ext cfg = Inr r"
    using assms(1) by (auto simp: BuildPolicyEngine_def split: sum.splits)
  note b = Build_resolved [OF r] and norm_cfg = ResolveConfig_resolved(1) [OF r]
  let ?ev = "builtEvaluator ext (resolvedMap cfg) p"
  have built: "buildPolicyEvaluator ext p (resolvedMap cfg) = Inr ?ev" using b(1) assms(2) norm_cfg by blast
  have "present (evaluators e) = map (builtEvaluator ext (resolvedMap cfg)) (Policies r)"
    using assms(1) BuildPolicyEngine_resolved [OF r, of short] by (auto simp del: map_map)
  with assms(2) norm_cfg have e: "?ev \<in> set (present (evaluators e))" by auto
  have named: "grp_ID g \<noteq> []" using b(5) assms(5) norm_cfg by blast
  have "resolvedMap cfg (grp_ID g) = Some g" using b(4) assms(5) norm_cfg by simp
  with built_fields [OF built] assms(4,6,7) named have en: "ev_Enabled ?ev" by blast
  have scope: "ev_scope ?ev = (pol_Scope p)\<lparr>sc_Content := [ContentTypeCommand]\<rparr>"
    using built_fields [OF built] assms(3) by (simp add: protects_def)
  obtain q where q: "?ev = OpEvaluator q" "ToolNames (op_config q) = [''bash'']" "cp_Actions (op_config q) = []"
    "v \<in> set (cp_Resources (op_config q))" "ResourceMatch (op_config q) \<noteq> ''exact''" "cp_Terms (op_config q) = []"
    "cp_Verdict (op_config q) = VerdictBlock"
    using built_resource_policy [OF built assms(3)] by blast
  have "t \<in> set (Resources (normalizeShellCommand sc))"
    using normalized_command_facts [OF assms(13)] assms(14,15) by blast
  then have "res_Verdict (OperationPolicy_Evaluate ext q input) = VerdictBlock"
    using operation_blocks [of q input c "normalizeShellCommand sc" ext t v] q en scope assms(8-12,16)
      command_derived [OF assms(12,13)] by auto
  with guard.blocking_policy_blocks [OF e, of ext input] q(1)
  show ?thesis by (simp add: Engine_Evaluate_def)
qed


definition noGuardExt :: guard_ext where
  "noGuardExt = \<lparr>Unmarshal = (\<lambda>_. None), Marshal = (\<lambda>_. None), RegexCompile = (\<lambda>_. None)\<rparr>"

definition anyScope :: Scope where
  "anyScope = \<lparr>Scenarios = [], Models = [], Directions = [], sc_Tags = [], sc_Content = []\<rparr>"

definition sshPolicy :: Policy where
  "sshPolicy = \<lparr>pol_ID = ''ssh'', pol_Name = [], Groups = [''default''], pol_Kind = PolicyKindResourceAccess,
     pol_Enabled = True, pol_Scope = anyScope,
     Match = \<lparr>pm_ToolNames = [], pm_Actions = None,
       pm_Resources = Some \<lparr>rm_Type = ''path'', rm_Mode = ''prefix'', Values = [''~/.ssh'']\<rparr>,
       pm_Terms = [], pm_CredentialRefs = [], pm_Patterns = [], PatternMode = [], MatchMode = [],
       pm_MinMatches = 0, pm_CaseSensitive = False\<rparr>,
     pol_Verdict = VerdictNone, pol_Reason = []\<rparr>"

definition sshConfig :: Config where
  "sshConfig = \<lparr>Strategy = None, cfg_ErrorStrategy = None, Imports = [], cfg_Groups = [], Policies = [sshPolicy]\<rparr>"

definition bashInput :: "string \<Rightarrow> Input" where
  "bashInput raw = \<lparr>inp_Scenario = ''claude_code'', Model = ''m'', inp_Direction = DirectionResponse, Tags = [],
     inp_Content = \<lparr>cnt_Command = Some \<lparr>Name = ''bash'', Arguments = [(''command'', JString raw)],
       Shell = None, Normalized = None\<rparr>, Text = [], Messages = []\<rparr>, usedRefs = None\<rparr>"

lemma sshPolicy_groups: "normalizedPolicyGroups sshPolicy = [''default'']"
  by (simp add: normalizedPolicyGroups_def sshPolicy_def)

lemma sshConfig_normal:
  "normalizePolicyConfig sshConfig = sshConfig\<lparr>cfg_Groups := [defaultGroup]\<rparr>"
proof -
  have "sshPolicy\<lparr>Groups := [''default'']\<rparr> = sshPolicy" by (simp add: sshPolicy_def)
  then show ?thesis
    by (simp add: normalizePolicyConfig_def Let_def usesPolicyConfig_def sshConfig_def sshPolicy_groups)
qed

lemma ssh_built: "\<exists>ev. buildPolicyEvaluator ext sshPolicy [''default'' \<mapsto> defaultGroup] = Inr ev"
  by (simp add: buildPolicyEvaluator_def resolvePolicyGroups_def sshPolicy_groups)
     (simp add: sshPolicy_def buildResourceAccessPolicyEvaluator_def fromOperation_def NewOperationPolicy_def
        Let_def defaultToolNamesForResourceAccess_def)

lemma sshConfig_resolves: "ResolveConfig ext sshConfig = Inr (sshConfig\<lparr>cfg_Groups := [defaultGroup]\<rparr>)"
proof -
  obtain ev where "buildPolicyEvaluator ext sshPolicy [''default'' \<mapsto> defaultGroup] = Inr ev"
    using ssh_built by blast
  then have "validatePolicyConfig ext (sshConfig\<lparr>cfg_Groups := [defaultGroup]\<rparr>) = None"
    by (simp add: validatePolicyConfig_def sshConfig_def defaultGroup_def [THEN arg_cong, of grp_ID, simplified])
       (simp add: sshPolicy_def)
  then show ?thesis
    by (simp add: ResolveConfig_def sshConfig_normal usesPolicyConfig_def)
qed


section \<open>Selectors that have no effect\<close>

text \<open>
  The exclusions of an action selector are never read: a policy built with them is the policy
  built without.
\<close>

lemma action_exclusions_ignored:
  assumes "pm_Actions (Match p) = Some a"
  shows "buildPolicyEvaluator ext (p\<lparr>Match := (Match p)\<lparr>pm_Actions := Some (a\<lparr>Exclude := xs\<rparr>)\<rparr>\<rparr>) groups =
    buildPolicyEvaluator ext p groups" (is "buildPolicyEvaluator ext ?q groups = _")
proof -
  have same: "normalizedPolicyGroups ?q = normalizedPolicyGroups p" "resolvePolicyEnabled ?q = resolvePolicyEnabled p"
    "resolvePolicyVerdict ?q = resolvePolicyVerdict p" "policyName ?q = policyName p"
    by (simp_all add: normalizedPolicyGroups_def resolvePolicyEnabled_def resolvePolicyVerdict_def policyName_def fun_eq_iff)
  have "buildResourceAccessPolicyEvaluator ?q = buildResourceAccessPolicyEvaluator p"
    "buildCommandExecutionPolicyEvaluator ?q = buildCommandExecutionPolicyEvaluator p"
    "buildContentPolicyEvaluator ext ?q = buildContentPolicyEvaluator ext p"
    unfolding buildResourceAccessPolicyEvaluator_def buildCommandExecutionPolicyEvaluator_def Let_def
      buildContentPolicyEvaluator_def same by (simp_all add: assms cong: if_cong)
  then show ?thesis by (auto simp: buildPolicyEvaluator_def resolvePolicyGroups_def same split: sum.split PolicyKind.split)
qed

text \<open>A content policy with patterns never looks at its credential references.\<close>

lemma credential_refs_ignored:
  assumes "Patterns (cp_config r) \<noteq> []"
  shows "ContentPolicy_Evaluate ext (r\<lparr>cp_config := (cp_config r)\<lparr>CredentialRefs := refs\<rparr>\<rparr>) input =
    ContentPolicy_Evaluate ext r input" (is "ContentPolicy_Evaluate ext ?q input = _")
proof -
  have same: "isTriggered ((cp_config r)\<lparr>CredentialRefs := refs\<rparr>) = isTriggered (cp_config r)" "countMatches ?q = countMatches r"
    "contentResult ?q = contentResult r"
    by (simp_all add: fun_eq_iff isTriggered_def countMatches_def contentResult_def)
  have cfg: "cp_config ?q = (cp_config r)\<lparr>CredentialRefs := refs\<rparr>" by simp
  show ?thesis unfolding ContentPolicy_Evaluate_def cfg same Let_def using assms by (simp cong: if_cong)
qed

end
