(* ===== verification/TB_Mask.thy ===== *)
theory TB_Mask
  imports TB_Prelude TB_Shell TB_Policy
begin

text \<open>
  Credential masking, of \<^verbatim>\<open>internal/guardrails/core/credential.go\<close>,
  \<^verbatim>\<open>core/credential_alias.go\<close> and \<^verbatim>\<open>mutate/anthropic_request_mask.go\<close>: secrets are replaced by
  alias tokens before a request leaves, and put back into what the model answers.

  A Go map is an association list with distinct keys whose order stands for the order the map
  happens to be iterated in; the theorems hold for every order.  Random bytes, fresh identifiers
  and the clock are arguments.
\<close>

section \<open>Protected credentials\<close>

record ProtectedCredential =
  cred_ID :: string
  cred_Name :: string
  cred_Type :: string
  Secret :: string
  AliasToken :: string
  Description :: string
  cred_Tags :: "string list"
  cred_Enabled :: bool
  CreatedAt :: time
  UpdatedAt :: time

definition AliasTokenPrefix :: string where "AliasTokenPrefix = ''TINGLY_CRED_''"

definition protectedCredentialTypes :: "string list" where
  "protectedCredentialTypes = [''api_key'', ''token'', ''private_key'']"

definition IsSupportedProtectedCredentialType :: "string \<Rightarrow> bool" where
  "IsSupportedProtectedCredentialType value \<longleftrightarrow> TrimSpace value \<in> set protectedCredentialTypes"

definition hex_digit :: "nat \<Rightarrow> char" where
  "hex_digit n = (if n < 10 then char_of (48 + n) else char_of (87 + n))"

definition EncodeToString :: "nat list \<Rightarrow> string" where
  "EncodeToString bytes = concat (map (\<lambda>b. [hex_digit (b div 16), hex_digit (b mod 16)]) bytes)"

text \<open>\<open>buf\<close> is what \<^verbatim>\<open>rand.Read\<close> put into the 16-byte buffer, \<open>None\<close> if it failed.\<close>

definition GenerateAliasToken :: "nat list option \<Rightarrow> string \<Rightarrow> string option" where
  "GenerateAliasToken buf credentialType =
     (case buf of
        None \<Rightarrow> None
      | Some bytes \<Rightarrow>
          (let typeLabel0 = ToUpper (TrimSpace credentialType);
               typeLabel = (if typeLabel0 = [] then ''CREDENTIAL'' else typeLabel0)
           in Some (AliasTokenPrefix @ typeLabel @ ''_'' @ ToUpper (EncodeToString bytes))))"

definition NormalizeStringSlice :: "string list \<Rightarrow> string list" where
  "NormalizeStringSlice values =
     fold (\<lambda>value acc. let trimmed = TrimSpace value in
             if trimmed = [] then acc else if trimmed \<in> set acc then acc else acc @ [trimmed]) values []"

datatype credential_error = NameRequired | UnsupportedType string | SecretRequired | AliasFailed

definition NewProtectedCredential ::
  "string \<Rightarrow> nat list option \<Rightarrow> time \<Rightarrow> string \<Rightarrow> string \<Rightarrow> string \<Rightarrow> string \<Rightarrow> string list \<Rightarrow> bool \<Rightarrow>
   credential_error + ProtectedCredential" where
  "NewProtectedCredential newUUID buf now name credentialType secret description tags enabled =
     (if TrimSpace name = [] then Inl NameRequired
      else if \<not> IsSupportedProtectedCredentialType credentialType then Inl (UnsupportedType credentialType)
      else if TrimSpace secret = [] then Inl SecretRequired
      else (case GenerateAliasToken buf credentialType of
              None \<Rightarrow> Inl AliasFailed
            | Some aliasToken \<Rightarrow>
                Inr \<lparr>cred_ID = newUUID, cred_Name = TrimSpace name, cred_Type = TrimSpace credentialType,
                     Secret = secret, AliasToken = aliasToken, Description = TrimSpace description,
                     cred_Tags = NormalizeStringSlice tags, cred_Enabled = enabled,
                     CreatedAt = now, UpdatedAt = now\<rparr>))"

definition MaskedSecret :: "string \<Rightarrow> string" where
  "MaskedSecret secret =
     (if secret = [] then []
      else if length secret \<le> 8 then replicate (length secret) CHR ''*''
      else take 4 secret @ replicate (length secret - 8) CHR ''*'' @ drop (length secret - 4) secret)"

section \<open>The mask state\<close>

record CredentialMaskState =
  AliasToReal :: "(string \<times> string) list"
  RealToAlias :: "(string \<times> string) list"
  UsedRefs :: "string list"

definition NewCredentialMaskState :: CredentialMaskState where
  "NewCredentialMaskState = \<lparr>AliasToReal = [], RealToAlias = [], UsedRefs = []\<rparr>"

definition MayContainAliasToken :: "string \<Rightarrow> bool" where
  "MayContainAliasToken t \<longleftrightarrow> t \<noteq> [] \<and> Contains t AliasTokenPrefix"

definition remember :: "ProtectedCredential \<Rightarrow> CredentialMaskState \<Rightarrow> CredentialMaskState" where
  "remember c s =
     (if cred_ID c = [] \<or> Secret c = [] \<or> AliasToken c = [] then s
      else (let s1 = s\<lparr>AliasToReal := AList.update (AliasToken c) (Secret c) (AliasToReal s),
                     RealToAlias := AList.update (Secret c) (AliasToken c) (RealToAlias s)\<rparr>
            in if cred_ID c \<in> set (UsedRefs s1) then s1 else s1\<lparr>UsedRefs := UsedRefs s1 @ [cred_ID c]\<rparr>))"

text \<open>A text, whether it changed, and the state, which may be absent.\<close>

type_synonym masked_text = "string \<times> bool \<times> CredentialMaskState option"

definition aliasOne :: "ProtectedCredential \<Rightarrow> masked_text \<Rightarrow> masked_text" where
  "aliasOne c = (\<lambda>(replaced, changed, state).
     if Secret c = [] \<or> AliasToken c = [] then (replaced, changed, state)
     else if Contains replaced (Secret c)
     then (ReplaceAll replaced (Secret c) (AliasToken c), True, map_option (remember c) state)
     else (replaced, changed, state))"

definition AliasText :: "string \<Rightarrow> ProtectedCredential list \<Rightarrow> CredentialMaskState option \<Rightarrow> masked_text" where
  "AliasText t credentials state =
     (if t = [] \<or> credentials = [] then (t, False, state) else fold aliasOne credentials (t, False, state))"

definition restoreOne :: "CredentialMaskState \<Rightarrow> string \<Rightarrow> string \<times> bool \<Rightarrow> string \<times> bool" where
  "restoreOne state ali = (\<lambda>(replaced, changed).
     (case map_of (AliasToReal state) ali of
        None \<Rightarrow> (replaced, changed)
      | Some secret \<Rightarrow>
          if ali = [] \<or> secret = [] then (replaced, changed)
          else if Contains replaced ali then (ReplaceAll replaced ali secret, True)
          else (replaced, changed)))"

text \<open>\<^verbatim>\<open>sort.Slice\<close> puts longer aliases first; aliases of one length keep the iteration order here.\<close>

definition longestFirst :: "string list \<Rightarrow> string list" where
  "longestFirst aliases = sort_key (\<lambda>a. - int (length a)) aliases"

definition RestoreText :: "string \<Rightarrow> CredentialMaskState option \<Rightarrow> string \<times> bool" where
  "RestoreText t state =
     (case state of
        None \<Rightarrow> (t, False)
      | Some s \<Rightarrow>
          if t = [] \<or> AliasToReal s = [] \<or> \<not> MayContainAliasToken t then (t, False)
          else fold (restoreOne s) (longestFirst (map fst (AliasToReal s))) (t, False))"

section \<open>Structured values\<close>

fun aliasValue :: "ProtectedCredential list \<Rightarrow> json_value \<Rightarrow> CredentialMaskState option \<Rightarrow>
    json_value \<times> bool \<times> CredentialMaskState option"
  and aliasItems :: "ProtectedCredential list \<Rightarrow> json_value list \<Rightarrow> CredentialMaskState option \<Rightarrow>
    json_value list \<times> bool \<times> CredentialMaskState option"
  and aliasFields :: "ProtectedCredential list \<Rightarrow> (string \<times> json_value) list \<Rightarrow> CredentialMaskState option \<Rightarrow>
    (string \<times> json_value) list \<times> bool \<times> CredentialMaskState option" where
  "aliasValue cs (JString t) st = (case AliasText t cs st of (t', ch, st') \<Rightarrow> (JString t', ch, st'))"
| "aliasValue cs (JArray xs) st =
     (case aliasItems cs xs st of (xs', ch, st') \<Rightarrow> if \<not> ch then (JArray xs, False, st') else (JArray xs', True, st'))"
| "aliasValue cs (JObject fs) st =
     (case aliasFields cs fs st of (fs', ch, st') \<Rightarrow> if \<not> ch then (JObject fs, False, st') else (JObject fs', True, st'))"
| "aliasValue cs (JOther v) st = (JOther v, False, st)"
| "aliasItems cs [] st = ([], False, st)"
| "aliasItems cs (x # xs) st =
     (case aliasValue cs x st of (x', ok, st1) \<Rightarrow>
        (case aliasItems cs xs st1 of (xs', ch, st2) \<Rightarrow> (x' # xs', ok \<or> ch, st2)))"
| "aliasFields cs [] st = ([], False, st)"
| "aliasFields cs ((key, item) # fs) st =
     (case aliasValue cs item st of (item', ok, st1) \<Rightarrow>
        (case aliasFields cs fs st1 of (fs', ch, st2) \<Rightarrow> ((key, item') # fs', ok \<or> ch, st2)))"

fun restoreValue :: "CredentialMaskState option \<Rightarrow> json_value \<Rightarrow> json_value \<times> bool"
  and restoreItems :: "CredentialMaskState option \<Rightarrow> json_value list \<Rightarrow> json_value list \<times> bool"
  and restoreFields :: "CredentialMaskState option \<Rightarrow> (string \<times> json_value) list \<Rightarrow> (string \<times> json_value) list \<times> bool" where
  "restoreValue st (JString t) = (case RestoreText t st of (t', ch) \<Rightarrow> (JString t', ch))"
| "restoreValue st (JArray xs) =
     (case restoreItems st xs of (xs', ch) \<Rightarrow> if \<not> ch then (JArray xs, False) else (JArray xs', True))"
| "restoreValue st (JObject fs) =
     (case restoreFields st fs of (fs', ch) \<Rightarrow> if \<not> ch then (JObject fs, False) else (JObject fs', True))"
| "restoreValue st (JOther v) = (JOther v, False)"
| "restoreItems st [] = ([], False)"
| "restoreItems st (x # xs) =
     (case restoreValue st x of (x', ok) \<Rightarrow> (case restoreItems st xs of (xs', ch) \<Rightarrow> (x' # xs', ok \<or> ch)))"
| "restoreFields st [] = ([], False)"
| "restoreFields st ((key, item) # fs) =
     (case restoreValue st item of (item', ok) \<Rightarrow>
        (case restoreFields st fs of (fs', ch) \<Rightarrow> ((key, item') # fs', ok \<or> ch)))"

definition aliasCommandArgs :: "ProtectedCredential list \<Rightarrow> (string \<times> json_value) list \<Rightarrow> CredentialMaskState option \<Rightarrow>
    (string \<times> json_value) list \<times> bool \<times> CredentialMaskState option" where
  "aliasCommandArgs cs arguments st =
     (if arguments = [] then (arguments, False, st)
      else (case aliasValue cs (JObject arguments) st of
              (JObject fs, True, st') \<Rightarrow> (fs, True, st')
            | (_, _, st') \<Rightarrow> (arguments, False, st')))"

definition restoreCommandArgs ::
  "(string \<times> json_value) list \<Rightarrow> CredentialMaskState option \<Rightarrow> (string \<times> json_value) list \<times> bool" where
  "restoreCommandArgs arguments st =
     (if arguments = [] then (arguments, False)
      else (case restoreValue st (JObject arguments) of
              (JObject fs, True) \<Rightarrow> (fs, True)
            | _ \<Rightarrow> (arguments, False)))"

section \<open>Contents and requests\<close>

fun aliasMessages :: "ProtectedCredential list \<Rightarrow> Message list \<Rightarrow> CredentialMaskState option \<Rightarrow>
    Message list \<times> bool \<times> CredentialMaskState option" where
  "aliasMessages cs [] st = ([], False, st)"
| "aliasMessages cs (m # ms) st =
     (case AliasText (msg_Content m) cs st of (t, ok, st1) \<Rightarrow>
        (case aliasMessages cs ms st1 of (ms', ch, st2) \<Rightarrow>
           ((if ok then m\<lparr>msg_Content := t\<rparr> else m) # ms', ok \<or> ch, st2)))"

definition AliasContent :: "json_ext \<Rightarrow> Content \<Rightarrow> ProtectedCredential list \<Rightarrow> CredentialMaskState option \<Rightarrow>
    Content \<times> bool \<times> CredentialMaskState option" where
  "AliasContent um content cs st =
     (case AliasText (Text content) cs st of (t, ch1, st1) \<Rightarrow>
        (case aliasMessages cs (Messages content) st1 of (ms, ch2, st2) \<Rightarrow>
           (case cnt_Command content of
              None \<Rightarrow> (content\<lparr>Text := t, Messages := ms\<rparr>, ch1 \<or> ch2, st2)
            | Some cmd \<Rightarrow>
                (case aliasCommandArgs cs (Arguments cmd) st2 of (args, ch3, st3) \<Rightarrow>
                   (content\<lparr>Text := t, Messages := ms,
                      cnt_Command := Some (if ch3 then AttachDerivedFields um (cmd\<lparr>Arguments := args\<rparr>) else cmd)\<rparr>,
                    ch1 \<or> ch2 \<or> ch3, st3)))))"

definition RestoreContent :: "json_ext \<Rightarrow> Content \<Rightarrow> CredentialMaskState option \<Rightarrow> Content \<times> bool" where
  "RestoreContent um content st =
     (let (t, ch1) = RestoreText (Text content) st;
          ms = map (\<lambda>m. case RestoreText (msg_Content m) st of (t', ok) \<Rightarrow> (if ok then m\<lparr>msg_Content := t'\<rparr> else m, ok))
                 (Messages content);
          ch2 = (\<exists>(m, ok) \<in> set ms. ok)
      in case cnt_Command content of
           None \<Rightarrow> (content\<lparr>Text := t, Messages := map fst ms\<rparr>, ch1 \<or> ch2)
         | Some cmd \<Rightarrow>
             (case restoreCommandArgs (Arguments cmd) st of (args, ch3) \<Rightarrow>
                (content\<lparr>Text := t, Messages := map fst ms,
                   cnt_Command := Some (if ch3 then AttachDerivedFields um (cmd\<lparr>Arguments := args\<rparr>) else cmd)\<rparr>,
                 ch1 \<or> ch2 \<or> ch3)))"

text \<open>
  A content block of an Anthropic request: a text, the text parts of a tool result, or the input
  of a tool call, each if the block has it.
\<close>

record Block =
  OfText :: "string option"
  OfToolResult :: "string option list option"
  OfToolUse :: "json_value option"

record MessageNewParams =
  System :: "string list"
  req_Messages :: "Block list list"

definition aliasOptional :: "ProtectedCredential list \<Rightarrow> string option \<Rightarrow> CredentialMaskState option \<Rightarrow>
    string option \<times> bool \<times> CredentialMaskState option" where
  "aliasOptional cs o0 st =
     (case o0 of None \<Rightarrow> (None, False, st) | Some t \<Rightarrow> (case AliasText t cs st of (t', ch, st') \<Rightarrow> (Some t', ch, st')))"

fun aliasParts :: "ProtectedCredential list \<Rightarrow> string option list \<Rightarrow> CredentialMaskState option \<Rightarrow>
    string option list \<times> bool \<times> CredentialMaskState option" where
  "aliasParts cs [] st = ([], False, st)"
| "aliasParts cs (p # ps) st =
     (case aliasOptional cs p st of (p', ok, st1) \<Rightarrow>
        (case aliasParts cs ps st1 of (ps', ch, st2) \<Rightarrow> (p' # ps', ok \<or> ch, st2)))"

definition aliasBlock :: "ProtectedCredential list \<Rightarrow> Block \<Rightarrow> CredentialMaskState option \<Rightarrow>
    Block \<times> bool \<times> CredentialMaskState option" where
  "aliasBlock cs b st =
     (case aliasOptional cs (OfText b) st of (t, ch1, st1) \<Rightarrow>
        (case (case OfToolResult b of
                 None \<Rightarrow> (None, False, st1)
               | Some ps \<Rightarrow> (case aliasParts cs ps st1 of (ps', ch, st') \<Rightarrow> (Some ps', ch, st'))) of (r, ch2, st2) \<Rightarrow>
           (case OfToolUse b of
              None \<Rightarrow> (b\<lparr>OfText := t, OfToolResult := r\<rparr>, ch1 \<or> ch2, st2)
            | Some v \<Rightarrow>
                (case aliasValue cs v st2 of
                   (JObject fs, True, st3) \<Rightarrow>
                     (b\<lparr>OfText := t, OfToolResult := r, OfToolUse := Some (JObject fs)\<rparr>, True, st3)
                 | (_, _, st3) \<Rightarrow> (b\<lparr>OfText := t, OfToolResult := r\<rparr>, ch1 \<or> ch2, st3)))))"

text \<open>The result of a block list: the blocks, whether any changed, and whether the last one did.\<close>

fun maskAnthropicV1Blocks :: "ProtectedCredential list \<Rightarrow> Block list \<Rightarrow> CredentialMaskState option \<Rightarrow>
    Block list \<times> bool \<times> bool \<times> CredentialMaskState option" where
  "maskAnthropicV1Blocks cs [] st = ([], False, False, st)"
| "maskAnthropicV1Blocks cs (b # bs) st =
     (case aliasBlock cs b st of (b', ok, st1) \<Rightarrow>
        (case maskAnthropicV1Blocks cs bs st1 of (bs', ch, tail, st2) \<Rightarrow>
           (b' # bs', ok \<or> ch, if bs = [] then ok else tail, st2)))"

definition maskAnthropicBetaBlocks :: "ProtectedCredential list \<Rightarrow> Block list \<Rightarrow> CredentialMaskState option \<Rightarrow>
    Block list \<times> bool \<times> CredentialMaskState option" where
  "maskAnthropicBetaBlocks cs bs st =
     (case maskAnthropicV1Blocks cs bs st of (bs', ch, _, st') \<Rightarrow> (bs', ch, st'))"

fun aliasTexts :: "ProtectedCredential list \<Rightarrow> string list \<Rightarrow> CredentialMaskState option \<Rightarrow>
    string list \<times> bool \<times> CredentialMaskState option" where
  "aliasTexts cs [] st = ([], False, st)"
| "aliasTexts cs (t # ts) st =
     (case AliasText t cs st of (t', ok, st1) \<Rightarrow>
        (case aliasTexts cs ts st1 of (ts', ch, st2) \<Rightarrow> (t' # ts', ok \<or> ch, st2)))"

text \<open>\<open>latest\<close> says what the last message contributes: its last block (v1) or any block (beta).\<close>

fun maskMessages :: "(bool \<Rightarrow> bool \<Rightarrow> bool) \<Rightarrow> ProtectedCredential list \<Rightarrow> Block list list \<Rightarrow>
    CredentialMaskState option \<Rightarrow> Block list list \<times> bool \<times> bool \<times> CredentialMaskState option" where
  "maskMessages latest cs [] st = ([], False, False, st)"
| "maskMessages latest cs (m # ms) st =
     (case maskAnthropicV1Blocks cs m st of (m', ok, tail, st1) \<Rightarrow>
        (case maskMessages latest cs ms st1 of (ms', ch, lt, st2) \<Rightarrow>
           (m' # ms', ok \<or> ch, if ms = [] then latest ok tail else lt, st2)))"

definition MaskAnthropicV1RequestCredentials ::
  "MessageNewParams \<Rightarrow> ProtectedCredential list \<Rightarrow> CredentialMaskState option \<Rightarrow>
   MessageNewParams \<times> bool \<times> bool \<times> CredentialMaskState option" where
  "MaskAnthropicV1RequestCredentials req cs st =
     (if cs = [] then (req, False, False, st)
      else (case aliasTexts cs (System req) st of (sys, ch1, st1) \<Rightarrow>
        (case maskMessages (\<lambda>ok tail. tail) cs (req_Messages req) st1 of (ms, ch2, latestTurn, st2) \<Rightarrow>
           (\<lparr>System = sys, req_Messages = ms\<rparr>, ch1 \<or> ch2, latestTurn, st2))))"

definition MaskAnthropicBetaRequestCredentials ::
  "MessageNewParams \<Rightarrow> ProtectedCredential list \<Rightarrow> CredentialMaskState option \<Rightarrow>
   MessageNewParams \<times> bool \<times> bool \<times> CredentialMaskState option" where
  "MaskAnthropicBetaRequestCredentials req cs st =
     (if cs = [] then (req, False, False, st)
      else (case aliasTexts cs (System req) st of (sys, ch1, st1) \<Rightarrow>
        (case maskMessages (\<lambda>ok tail. ok) cs (req_Messages req) st1 of (ms, ch2, latestTurn, st2) \<Rightarrow>
           (\<lparr>System = sys, req_Messages = ms\<rparr>, ch1 \<or> ch2, latestTurn, st2))))"

section \<open>Texts that share no position\<close>

text \<open>
  Two non-empty texts are apart when no occurrence of one can share a position with an
  occurrence of the other: neither contains the other, and no end of one is a start of the other.
\<close>

definition meets :: "string \<Rightarrow> string \<Rightarrow> bool" where
  "meets p q \<longleftrightarrow> (\<exists>k\<in>set [1..<Suc (min (length p) (length q))]. drop (length p - k) p = take k q)"

definition apart :: "string \<Rightarrow> string \<Rightarrow> bool" where
  "apart p q \<longleftrightarrow> p \<noteq> [] \<and> q \<noteq> [] \<and> \<not> Contains p q \<and> \<not> Contains q p \<and> \<not> meets p q \<and> \<not> meets q p"

lemma apart_sym: "apart p q \<longleftrightarrow> apart q p"
  by (auto simp: apart_def)

lemma meetsI: "p = u @ v \<Longrightarrow> q = v @ w \<Longrightarrow> v \<noteq> [] \<Longrightarrow> meets p q"
  by (auto simp: meets_def Suc_le_eq intro!: bexI [of _ "length v"])

lemma apart_border: "apart p q \<Longrightarrow> p = u @ v \<Longrightarrow> q = v @ w \<Longrightarrow> v = []"
  using meetsI [of p u v q w] by (auto simp: apart_def)

lemma HasPrefix_append_cases:
  "HasPrefix (x @ y) s \<longleftrightarrow> HasPrefix x s \<or> (\<exists>p. s = x @ p \<and> p \<noteq> [] \<and> HasPrefix y p)"
  by (auto simp: HasPrefix_iff append_eq_append_conv2)

lemma apart_prefix:
  assumes "apart s a" and "x \<noteq> []"
  shows "HasPrefix (x @ a @ y) s \<longleftrightarrow> HasPrefix x s"
proof
  assume "HasPrefix (x @ a @ y) s"
  then consider "HasPrefix x s" | p where "s = x @ p" "p \<noteq> []" "HasPrefix (a @ y) p"
    unfolding HasPrefix_append_cases [of x] by blast
  then show "HasPrefix x s"
  proof cases
    case (2 p)
    from 2(3) consider "HasPrefix a p" | q where "p = a @ q"
      unfolding HasPrefix_append_cases [of a] by blast
    then show ?thesis
    proof cases
      case 1
      then obtain w where "a = p @ w" by (auto simp: HasPrefix_iff)
      with apart_border [OF assms(1) 2(1)] 2(2) show ?thesis by blast
    next
      case (2 q)
      with \<open>s = x @ p\<close> have "Contains s a" by (auto simp: Contains_iff)
      with assms(1) show ?thesis by (simp add: apart_def)
    qed
  qed
qed (auto simp: HasPrefix_iff)

lemma apart_inside:
  assumes "apart s a" and "a = b @ c" and "c \<noteq> []"
  shows "\<not> HasPrefix (c @ y) s"
proof
  assume "HasPrefix (c @ y) s"
  then consider "HasPrefix c s" | p where "s = c @ p" unfolding HasPrefix_append_cases [of c] by blast
  then show False
  proof cases
    case 1
    then obtain w where "c = s @ w" by (auto simp: HasPrefix_iff)
    with assms(2) have "a = b @ s @ w" by simp
    then have "Contains a s" by (auto simp: Contains_iff)
    with assms(1) show False by (simp add: apart_def)
  next
    case (2 p)
    from apart_border [OF iffD1 [OF apart_sym assms(1)] assms(2) 2] assms(3) show False by simp
  qed
qed

lemma Contains_Cons: "Contains (c # cs) p \<longleftrightarrow> HasPrefix (c # cs) p \<or> Contains cs p"
  by simp

lemma Contains_skip:
  assumes "apart s a"
  shows "a = b @ c \<Longrightarrow> Contains (c @ y) s \<longleftrightarrow> Contains y s"
proof (induction c arbitrary: b)
  case (Cons d c)
  have "\<not> HasPrefix ((d # c) @ y) s" by (rule apart_inside [OF assms Cons.prems]) simp
  with Cons.IH [of "b @ [d]"] Cons.prems show ?case by simp
qed simp

lemma Contains_apart:
  assumes "apart s a"
  shows "Contains (x @ a @ y) s \<longleftrightarrow> Contains x s \<or> Contains y s"
proof (induction x)
  case Nil
  have "\<not> Contains [] s" using assms by (simp add: apart_def)
  then show ?case using Contains_skip [OF assms, of "[]" a] by simp
next
  case (Cons c x)
  with apart_prefix [OF assms, of "c # x" y] show ?case by simp
qed

lemma Replace_skip:
  assumes "apart s a"
  shows "a = b @ c \<Longrightarrow> ReplaceAll (c @ y) s n = c @ ReplaceAll y s n"
proof (induction c arbitrary: b)
  case (Cons d c)
  have "\<not> HasPrefix (d # c @ y) s" using apart_inside [OF assms Cons.prems, of y] by simp
  with Cons.IH [of "b @ [d]"] Cons.prems show ?case by (simp add: ReplaceAll_miss)
qed simp

lemma Replace_apart:
  assumes "apart s a"
  shows "ReplaceAll (x @ a @ y) s n = ReplaceAll x s n @ a @ ReplaceAll y s n"
proof (induction x rule: length_induct)
  case (1 x)
  have s: "s \<noteq> []" using assms by (simp add: apart_def)
  show ?case
  proof (cases x)
    case Nil
    then show ?thesis using Replace_skip [OF assms, of "[]" a y n] by simp
  next
    case (Cons c x')
    show ?thesis
    proof (cases "HasPrefix x s")
      case True
      then obtain t where t: "x = s @ t" by (auto simp: HasPrefix_iff)
      with 1 s have "ReplaceAll (t @ a @ y) s n = ReplaceAll t s n @ a @ ReplaceAll y s n" by simp
      then show ?thesis by (simp add: t ReplaceAll_hit [OF s])
    next
      case False
      then have "\<not> HasPrefix (x @ a @ y) s" using apart_prefix [OF assms, of x y] Cons by simp
      with False 1 Cons show ?thesis by (simp add: ReplaceAll_miss)
    qed
  qed
qed

section \<open>The pieces of a masked text\<close>

text \<open>
  A text with tokens in it: a first literal and then tokens, each with the literal after it.
  \<open>flat f\<close> writes each token \<open>k\<close> as \<open>f k\<close>.
\<close>

type_synonym pieces = "string \<times> (string \<times> string) list"

fun flatTail :: "(string \<Rightarrow> string) \<Rightarrow> (string \<times> string) list \<Rightarrow> string" where
  "flatTail f [] = []"
| "flatTail f ((k, l) # ps) = f k @ l @ flatTail f ps"

definition flat :: "(string \<Rightarrow> string) \<Rightarrow> pieces \<Rightarrow> string" where
  "flat f m = fst m @ flatTail f (snd m)"

definition tokens :: "pieces \<Rightarrow> string set" where "tokens m = fst ` set (snd m)"
definition literals :: "pieces \<Rightarrow> string set" where "literals m = insert (fst m) (snd ` set (snd m))"

text \<open>Cutting a literal at the occurrences of a secret.\<close>

function splitAll :: "string \<Rightarrow> string \<Rightarrow> string \<times> string list" where
  "splitAll l s =
     (if l = [] \<or> s = [] then (l, [])
      else if HasPrefix l s then (let (p, ps) = splitAll (drop (length s) l) s in ([], p # ps))
      else (let (p, ps) = splitAll (tl l) s in (hd l # p, ps)))"
  by pat_completeness auto
termination by (relation "measure (\<lambda>(l, s). length l)") (auto simp: neq_Nil_conv)

declare splitAll.simps [simp del]

lemma splitAll_Nil [simp]: "splitAll [] s = ([], [])"
  by (simp add: splitAll.simps)

definition partsText :: "string \<times> string list \<Rightarrow> string \<Rightarrow> string" where
  "partsText ps n = fst ps @ concat (map (\<lambda>p. n @ p) (snd ps))"

lemma splitAll_Replace: "partsText (splitAll l s) n = ReplaceAll l s n"
proof (induction l s rule: splitAll.induct)
  case (1 l s)
  then show ?case
    by (subst splitAll.simps, subst ReplaceAll.simps) (auto simp: partsText_def split_beta Let_def)
qed

lemma Replace_same: "ReplaceAll l s s = l"
proof (induction l rule: length_induct)
  case (1 l)
  show ?case
  proof (cases "l = [] \<or> s = []")
    case False
    then obtain c l' where l: "l = c # l'" by (cases l) auto
    show ?thesis
    proof (cases "HasPrefix l s")
      case True
      then obtain t where t: "l = s @ t" by (auto simp: HasPrefix_iff)
      with 1 False show ?thesis by (simp add: ReplaceAll_hit)
    next
      case F: False
      with 1 l show ?thesis by (simp add: ReplaceAll_miss)
    qed
  qed (auto simp: ReplaceAll.simps [of l s s])
qed

lemma splitAll_free: "s \<noteq> [] \<Longrightarrow> p \<in> insert (fst (splitAll l s)) (set (snd (splitAll l s))) \<Longrightarrow> \<not> Contains p s"
proof (induction l s arbitrary: p rule: splitAll.induct)
  case (1 l s)
  show ?case
  proof (cases "l = []")
    case True
    with "1.prems" show ?thesis by simp
  next
    case l: False
    show ?thesis
    proof (cases "HasPrefix l s")
      case True
      let ?d = "splitAll (drop (length s) l) s"
      have eq: "splitAll l s = ([], fst ?d # snd ?d)"
        using l True "1.prems"(1) by (subst splitAll.simps) (simp add: split_beta Let_def)
      have "\<not> Contains q s" if "q \<in> insert (fst ?d) (set (snd ?d))" for q
        using "1.IH"(1) l True "1.prems"(1) that by simp
      with "1.prems" show ?thesis by (auto simp: eq)
    next
      case False
      let ?r = "splitAll (tl l) s"
      have eq: "splitAll l s = (hd l # fst ?r, snd ?r)"
        using l False "1.prems"(1) by (subst splitAll.simps) (simp add: split_beta Let_def)
      have ih: "\<not> Contains q s" if "q \<in> insert (fst ?r) (set (snd ?r))" for q
        using "1.IH"(2) l False "1.prems"(1) that by simp
      have "tl l = partsText ?r s" by (simp add: splitAll_Replace Replace_same)
      then have "l = (hd l # fst ?r) @ concat (map (\<lambda>p. s @ p) (snd ?r))"
        using l by (simp add: partsText_def)
      with False have "\<not> HasPrefix (hd l # fst ?r) s" by (metis HasPrefix_iff append_assoc)
      with ih "1.prems"(2) show ?thesis by (auto simp: eq)
    qed
  qed
qed

lemma splitAll_part: "p \<in> insert (fst (splitAll l s)) (set (snd (splitAll l s))) \<Longrightarrow> Contains l p"
proof -
  have l: "l = fst (splitAll l s) @ concat (map (\<lambda>p. s @ p) (snd (splitAll l s)))"
    using splitAll_Replace [of l s s] by (simp add: Replace_same partsText_def)
  assume "p \<in> insert (fst (splitAll l s)) (set (snd (splitAll l s)))"
  then consider "p = fst (splitAll l s)" | "p \<in> set (snd (splitAll l s))" by blast
  then show "Contains l p"
  proof cases
    case 1
    then show ?thesis by (subst l) (metis Contains_append_mid append_Nil)
  next
    case 2
    then obtain a b where "snd (splitAll l s) = a @ p # b" by (meson split_list)
    then have "l = (fst (splitAll l s) @ concat (map (\<lambda>p. s @ p) a) @ s) @ p @ concat (map (\<lambda>p. s @ p) b)"
      using l by simp
    then show ?thesis by (metis Contains_append_mid)
  qed
qed

definition cutLiteral :: "string \<Rightarrow> string \<Rightarrow> string \<Rightarrow> (string \<times> string) list" where
  "cutLiteral k s l = map (Pair k) (snd (splitAll l s))"

fun maskTail :: "string \<Rightarrow> string \<Rightarrow> (string \<times> string) list \<Rightarrow> (string \<times> string) list" where
  "maskTail k s [] = []"
| "maskTail k s ((i, l) # ps) = (i, fst (splitAll l s)) # cutLiteral k s l @ maskTail k s ps"

definition maskStep :: "string \<Rightarrow> string \<Rightarrow> pieces \<Rightarrow> pieces" where
  "maskStep k s m = (fst (splitAll (fst m) s), cutLiteral k s (fst m) @ maskTail k s (snd m))"

lemma flatTail_append [simp]: "flatTail f (xs @ ys) = flatTail f xs @ flatTail f ys"
  by (induction f xs rule: flatTail.induct) auto

lemma flat_cut [simp]: "fst (splitAll l s) @ flatTail f (cutLiteral k s l) = ReplaceAll l s (f k)"
proof -
  have "flatTail f (map (Pair k) ps) = concat (map (\<lambda>p. f k @ p) ps)" for ps by (induction ps) auto
  then show ?thesis using splitAll_Replace [of l s "f k"] by (simp add: cutLiteral_def partsText_def)
qed

lemma flat_maskTail:
  "\<forall>i\<in>fst ` set ps. apart s (f i) \<Longrightarrow>
   ReplaceAll x s (f k) @ flatTail f (maskTail k s ps) = ReplaceAll (x @ flatTail f ps) s (f k)"
proof (induction ps arbitrary: x)
  case (Cons p ps)
  obtain i l where p: "p = (i, l)" by (cases p)
  have a: "apart s (f i)" using Cons.prems p by simp
  have "ReplaceAll (x @ f i @ l @ flatTail f ps) s (f k) =
      ReplaceAll x s (f k) @ f i @ ReplaceAll (l @ flatTail f ps) s (f k)" by (rule Replace_apart [OF a])
  also have "\<dots> = ReplaceAll x s (f k) @ f i @ ReplaceAll l s (f k) @ flatTail f (maskTail k s ps)"
    using Cons by simp
  also have "\<dots> = ReplaceAll x s (f k) @ flatTail f (maskTail k s (p # ps))"
    using flat_cut [of l s f k] by (simp add: p flip: append_assoc)
  finally show ?case by (simp add: p)
qed simp

lemma flat_maskStep:
  assumes "\<forall>i\<in>tokens m. apart s (f i)"
  shows "flat f (maskStep k s m) = ReplaceAll (flat f m) s (f k)"
proof -
  have "flat f (maskStep k s m) = ReplaceAll (fst m) s (f k) @ flatTail f (maskTail k s (snd m))"
    using flat_cut [of "fst m" s f k] by (simp add: flat_def maskStep_def flip: append_assoc)
  also have "\<dots> = ReplaceAll (flat f m) s (f k)"
    using flat_maskTail [of "snd m" s f "fst m" k] assms by (simp add: flat_def tokens_def)
  finally show ?thesis .
qed

lemma flat_mask_real: "f k = s \<Longrightarrow> flat f (maskStep k s m) = flat f m"
proof -
  assume k: "f k = s"
  have "ReplaceAll x s (f k) @ flatTail f (maskTail k s ps) = x @ flatTail f ps" for x ps
  proof (induction ps arbitrary: x)
    case (Cons p ps)
    obtain i l where p: "p = (i, l)" by (cases p)
    have "fst (splitAll l s) @ flatTail f (cutLiteral k s l) @ flatTail f (maskTail k s ps) = l @ flatTail f ps"
      using Cons.IH [of l] flat_cut [of l s f k] by (simp flip: append_assoc)
    then show ?case by (simp add: p k Replace_same)
  qed (simp add: k Replace_same)
  from this [of "fst m" "snd m"] flat_cut [of "fst m" s f k] show ?thesis
    by (simp add: flat_def maskStep_def flip: append_assoc)
qed

lemma maskTail_tokens: "fst ` set (maskTail k s ps) \<subseteq> insert k (fst ` set ps)"
  by (induction k s ps rule: maskTail.induct) (auto simp: cutLiteral_def)

lemma maskStep_tokens: "tokens (maskStep k s m) \<subseteq> insert k (tokens m)"
  using maskTail_tokens [of k s "snd m"] by (auto simp: tokens_def maskStep_def cutLiteral_def)

lemma maskTail_literals:
  "l' \<in> snd ` set (maskTail k s ps) \<Longrightarrow> \<exists>l\<in>snd ` set ps. l' \<in> insert (fst (splitAll l s)) (set (snd (splitAll l s)))"
  by (induction k s ps rule: maskTail.induct) (auto simp: cutLiteral_def)

lemma maskStep_literals:
  assumes "l' \<in> literals (maskStep k s m)"
  shows "\<exists>l\<in>literals m. l' \<in> insert (fst (splitAll l s)) (set (snd (splitAll l s)))"
  using assms maskTail_literals [of l' k s "snd m"] by (auto simp: literals_def maskStep_def cutLiteral_def)

lemma Contains_flatTail:
  "\<forall>i\<in>fst ` set ps. apart s (f i) \<Longrightarrow>
   Contains (x @ flatTail f ps) s \<longleftrightarrow> Contains x s \<or> (\<exists>l\<in>snd ` set ps. Contains l s)"
proof (induction ps arbitrary: x)
  case (Cons p ps)
  obtain i l where p: "p = (i, l)" by (cases p)
  have "apart s (f i)" using Cons.prems p by simp
  from Contains_apart [OF this, of x "l @ flatTail f ps"] Cons.IH [of l] Cons.prems show ?case by (auto simp: p)
qed simp

lemma Contains_flat:
  "\<forall>i\<in>tokens m. apart s (f i) \<Longrightarrow> Contains (flat f m) s \<longleftrightarrow> (\<exists>l\<in>literals m. Contains l s)"
  using Contains_flatTail [of "snd m" s f "fst m"] by (simp add: flat_def tokens_def literals_def)

lemma literal_in_flat: "l \<in> literals m \<Longrightarrow> Contains (flat f m) l"
proof -
  have "l \<in> snd ` set ps \<Longrightarrow> Contains (flatTail f ps) l" for ps
  proof (induction ps)
    case (Cons p ps)
    obtain i l' where p: "p = (i, l')" by (cases p)
    show ?case
    proof (cases "l = l'")
      case False
      with Cons p have "Contains (flatTail f ps) l" by auto
      then obtain a b where "flatTail f ps = a @ l @ b" by (auto simp: Contains_iff)
      then have "flatTail f (p # ps) = (f i @ l' @ a) @ l @ b" by (simp add: p)
      then show ?thesis by (metis Contains_append_mid)
    qed (use p Contains_append_mid [of "f i" l "flatTail f ps"] in simp)
  qed simp
  moreover assume "l \<in> literals m"
  ultimately show ?thesis
    using Contains_append_mid [of "[]" l "flatTail f (snd m)"] Contains_trans [of "flat f m" "flatTail f (snd m)" l]
      Contains_append_mid [of "fst m" "flatTail f (snd m)" "[]"]
    by (auto simp: literals_def flat_def)
qed

section \<open>Putting a token's text back\<close>

definition unbordered :: "string \<Rightarrow> bool" where
  "unbordered a \<longleftrightarrow> a \<noteq> [] \<and> (\<forall>k\<in>set [1..<length a]. drop (length a - k) a \<noteq> take k a)"

lemma unborderedD: "unbordered a \<Longrightarrow> a = u @ v \<Longrightarrow> a = v @ w \<Longrightarrow> u \<noteq> [] \<Longrightarrow> v = []"
proof (rule ccontr)
  assume a: "unbordered a" "a = u @ v" "a = v @ w" "u \<noteq> []" "v \<noteq> []"
  then have "length v < length a" by (metis length_append length_greater_0_conv less_add_same_cancel2)
  moreover have "drop (length a - length v) a = take (length v) a" using a(2,3) by (metis append_eq_conv_conj diff_add_inverse2 length_append)
  ultimately show False using a(1,5) by (auto simp: unbordered_def Suc_le_eq)
qed

lemma Replace_token:
  assumes "unbordered a"
  shows "ReplaceAll (x @ a @ y) a n = ReplaceAll x a n @ n @ ReplaceAll y a n"
proof (induction x rule: length_induct)
  case (1 x)
  have a: "a \<noteq> []" using assms by (simp add: unbordered_def)
  show ?case
  proof (cases x)
    case (Cons c x')
    show ?thesis
    proof (cases "HasPrefix x a")
      case True
      then obtain t where t: "x = a @ t" by (auto simp: HasPrefix_iff)
      with 1 a have "ReplaceAll (t @ a @ y) a n = ReplaceAll t a n @ n @ ReplaceAll y a n" by simp
      then show ?thesis by (simp add: t ReplaceAll_hit [OF a])
    next
      case False
      have "\<not> HasPrefix (x @ a @ y) a"
      proof
        assume "HasPrefix (x @ a @ y) a"
        with False obtain p where p: "a = x @ p" "p \<noteq> []" "HasPrefix (a @ y) p"
          unfolding HasPrefix_append_cases [of x] by blast
        from p(1) Cons have "length p < length a" by simp
        with p(3) have "a = p @ drop (length p) a" by (auto simp: HasPrefix_def) (metis append_take_drop_id)
        from unborderedD [OF assms p(1) this] Cons p(2) show False by simp
      qed
      with False 1 Cons show ?thesis by (simp add: ReplaceAll_miss)
    qed
  qed (simp add: ReplaceAll_hit [OF a])
qed

lemma unmaskTail:
  assumes "unbordered k" and "f k = k"
  shows "\<forall>i\<in>fst ` set ps - {k}. apart k (f i) \<Longrightarrow> \<forall>l\<in>snd ` set ps. \<not> Contains l k \<Longrightarrow>
    ReplaceAll (x @ flatTail f ps) k n = ReplaceAll x k n @ flatTail (f(k := n)) ps"
proof (induction ps arbitrary: x)
  case (Cons p ps)
  obtain i l where p: "p = (i, l)" by (cases p)
  have ih: "ReplaceAll (l @ flatTail f ps) k n = l @ flatTail (f(k := n)) ps"
  proof -
    have "ReplaceAll (l @ flatTail f ps) k n = ReplaceAll l k n @ flatTail (f(k := n)) ps"
      by (rule Cons.IH) (use Cons.prems p in auto)
    moreover have "ReplaceAll l k n = l" using Cons.prems p by (intro ReplaceAll_id) simp
    ultimately show ?thesis by simp
  qed
  show ?case
  proof (cases "i = k")
    case True
    with Replace_token [OF assms(1), of x "l @ flatTail f ps" n] ih assms(2) show ?thesis by (simp add: p fun_upd_def)
  next
    case False
    then have "apart k (f i)" using Cons.prems p by simp
    from Replace_apart [OF this, of x "l @ flatTail f ps" n] ih False show ?thesis by (simp add: p fun_upd_def)
  qed
qed simp

lemma unmaskStep:
  assumes "unbordered k" and "f k = k" and "\<forall>i\<in>tokens m - {k}. apart k (f i)" and "\<forall>l\<in>literals m. \<not> Contains l k"
  shows "ReplaceAll (flat f m) k n = flat (f(k := n)) m"
  using unmaskTail [where f = f and ps = "snd m" and x = "fst m" and n = n, OF assms(1,2)] assms(3,4)
  by (simp add: flat_def tokens_def literals_def ReplaceAll_id)

lemma flat_cong: "(\<And>i. i \<in> tokens m \<Longrightarrow> f i = g i) \<Longrightarrow> flat f m = flat g m"
proof -
  assume "\<And>i. i \<in> tokens m \<Longrightarrow> f i = g i"
  then have "\<forall>i\<in>fst ` set (snd m). f i = g i" by (simp add: tokens_def)
  moreover have "\<forall>i\<in>fst ` set ps. f i = g i \<Longrightarrow> flatTail f ps = flatTail g ps" for ps
    by (induction ps) auto
  ultimately show ?thesis by (simp add: flat_def)
qed

section \<open>Masking hides, restoring undoes\<close>

text \<open>
  What is needed of the configured credentials: distinct alias tokens that are apart from each
  other and from every secret, do not overlap themselves, and carry the alias prefix.
\<close>

definition credentials_ok :: "ProtectedCredential list \<Rightarrow> bool" where
  "credentials_ok cs \<longleftrightarrow>
     distinct (map AliasToken cs) \<and>
     (\<forall>c\<in>set cs. cred_ID c \<noteq> [] \<and> Secret c \<noteq> [] \<and> unbordered (AliasToken c) \<and> Contains (AliasToken c) AliasTokenPrefix \<and>
        (\<forall>d\<in>set cs. apart (Secret c) (AliasToken d) \<and> (AliasToken c \<noteq> AliasToken d \<longrightarrow> apart (AliasToken c) (AliasToken d))))"

definition secretOf :: "ProtectedCredential list \<Rightarrow> string \<Rightarrow> string" where
  "secretOf cs a = (case map_of (map (\<lambda>c. (AliasToken c, Secret c)) cs) a of Some s \<Rightarrow> s | None \<Rightarrow> a)"

lemma secretOf_alias: "credentials_ok cs \<Longrightarrow> c \<in> set cs \<Longrightarrow> secretOf cs (AliasToken c) = Secret c"
proof -
  assume "credentials_ok cs" "c \<in> set cs"
  then have "map_of (map (\<lambda>c. (AliasToken c, Secret c)) cs) (AliasToken c) = Some (Secret c)"
    by (intro map_of_is_SomeI) (auto simp: credentials_ok_def comp_def)
  then show ?thesis by (simp add: secretOf_def)
qed

text \<open>A mask state that only knows configured credentials, and one state extending another.\<close>

definition state_ok :: "ProtectedCredential list \<Rightarrow> CredentialMaskState \<Rightarrow> bool" where
  "state_ok cs s \<longleftrightarrow> distinct (map fst (AliasToReal s)) \<and>
     (\<forall>(a, r)\<in>set (AliasToReal s). \<exists>c\<in>set cs. a = AliasToken c \<and> r = Secret c)"

definition extends :: "CredentialMaskState \<Rightarrow> CredentialMaskState \<Rightarrow> bool" where
  "extends s s' \<longleftrightarrow> fst ` set (AliasToReal s) \<subseteq> fst ` set (AliasToReal s')"

lemma extends_refl [simp]: "extends s s" by (simp add: extends_def)
lemma extends_trans: "extends s t \<Longrightarrow> extends t u \<Longrightarrow> extends s u" by (auto simp: extends_def)

lemma remember_ok:
  assumes "credentials_ok cs" and "c \<in> set cs" and "state_ok cs s"
  shows "state_ok cs (remember c s)" and "extends s (remember c s)" and "AliasToken c \<in> fst ` set (AliasToReal (remember c s))"
proof -
  have c: "cred_ID c \<noteq> []" "Secret c \<noteq> []" "AliasToken c \<noteq> []"
    using assms(1,2) by (auto simp: credentials_ok_def unbordered_def)
  then have r: "AliasToReal (remember c s) = AList.update (AliasToken c) (Secret c) (AliasToReal s)"
    by (simp add: remember_def Let_def)
  have "set (AList.update k v al) \<subseteq> insert (k, v) (set al)" for k v and al :: "(string \<times> string) list"
    by (induction al) auto
  then show "state_ok cs (remember c s)"
    using assms(2,3) unfolding state_ok_def r by (fastforce simp: distinct_update)
  show "extends s (remember c s)" unfolding extends_def r by (auto simp: dom_update)
  show "AliasToken c \<in> fst ` set (AliasToReal (remember c s))" unfolding r by (simp add: dom_update)
qed

text \<open>
  What holds of a text being masked: it is the pieces with the tokens as they are, the pieces with
  each token as its secret are the original, and no literal contains the secret of a credential
  already handled.
\<close>

definition masked :: "ProtectedCredential list \<Rightarrow> ProtectedCredential set \<Rightarrow> string \<Rightarrow> string \<Rightarrow> pieces \<Rightarrow> bool" where
  "masked cs done t t' m \<longleftrightarrow>
     flat (\<lambda>a. a) m = t' \<and> flat (secretOf cs) m = t \<and> tokens m \<subseteq> AliasToken ` set cs \<and>
     (\<forall>c\<in>done. \<forall>l\<in>literals m. \<not> Contains l (Secret c))"

definition state_covers :: "ProtectedCredential list \<Rightarrow> CredentialMaskState option \<Rightarrow> CredentialMaskState option \<Rightarrow> pieces \<Rightarrow> bool" where
  "state_covers cs st st' m \<longleftrightarrow>
     (case st of None \<Rightarrow> st' = None
      | Some s \<Rightarrow> state_ok cs s \<longrightarrow>
          (\<exists>s'. st' = Some s' \<and> state_ok cs s' \<and> extends s s' \<and> tokens m \<subseteq> fst ` set (AliasToReal s')))"

lemma aliasOne_masked:
  assumes "credentials_ok cs" and "c \<in> set cs" and "masked cs don t u m" and "state_covers cs st st1 m"
    and "aliasOne c (u, ch, st1) = (u', ch', st')"
  shows "\<exists>m'. masked cs (insert c don) t u' m' \<and> state_covers cs st st' m' \<and> (\<not> ch' \<longrightarrow> \<not> ch \<and> u' = u)"
proof -
  have c: "Secret c \<noteq> []" "AliasToken c \<noteq> []" "\<forall>d\<in>set cs. apart (Secret c) (AliasToken d)"
    using assms(1,2) by (auto simp: credentials_ok_def unbordered_def)
  show ?thesis
  proof (cases "Contains u (Secret c)")
    case False
    with assms(5) c have "u' = u" "ch' = ch" "st' = st1" by (simp_all add: aliasOne_def)
    moreover have "\<not> Contains l (Secret c)" if "l \<in> literals m" for l
      using False literal_in_flat [OF that, of "\<lambda>a. a"] assms(3) Contains_trans by (auto simp: masked_def)
    ultimately have "masked cs (insert c don) t u' m" "state_covers cs st st' m"
      using assms(3,4) by (auto simp: masked_def)
    with \<open>u' = u\<close> \<open>ch' = ch\<close> show ?thesis by blast
  next
    case True
    with assms(5) c have u: "u' = ReplaceAll u (Secret c) (AliasToken c)" "ch'" "st' = map_option (remember c) st1"
      by (auto simp: aliasOne_def)
    let ?m = "maskStep (AliasToken c) (Secret c) m"
    have toks: "\<forall>i\<in>tokens m. apart (Secret c) i" using c(3) assms(3) by (auto simp: masked_def)
    have "flat (\<lambda>a. a) ?m = u'"
      using flat_maskStep [of m "Secret c" "\<lambda>a. a" "AliasToken c"] toks u(1) assms(3) by (simp add: masked_def)
    moreover have "flat (secretOf cs) ?m = t"
      using flat_mask_real [where f = "secretOf cs", OF secretOf_alias [OF assms(1,2)]] assms(3) by (simp add: masked_def)
    moreover have tm: "tokens ?m \<subseteq> insert (AliasToken c) (tokens m)" by (rule maskStep_tokens)
    moreover have "\<not> Contains l (Secret d)" if "l \<in> literals ?m" "d \<in> insert c don" for l d
    proof -
      from maskStep_literals [OF that(1)] obtain k where k: "k \<in> literals m"
        "l \<in> insert (fst (splitAll k (Secret c))) (set (snd (splitAll k (Secret c))))" by blast
      show ?thesis
      proof (cases "d = c")
        case True
        with splitAll_free [OF c(1) k(2)] show ?thesis by simp
      next
        case False
        with that(2) k(1) assms(3) have "\<not> Contains k (Secret d)" by (auto simp: masked_def)
        with splitAll_part [OF k(2)] Contains_trans show ?thesis by blast
      qed
    qed
    ultimately have "masked cs (insert c don) t u' ?m" using assms(2,3) by (auto simp: masked_def)
    moreover have "state_covers cs st st' ?m"
    proof (cases st)
      case None
      with assms(4) show ?thesis by (simp add: state_covers_def u(3))
    next
      case (Some s)
      have "\<exists>s'. st' = Some s' \<and> state_ok cs s' \<and> extends s s' \<and> tokens ?m \<subseteq> fst ` set (AliasToReal s')" if "state_ok cs s"
      proof -
        from assms(4) Some that obtain s1 where s1: "st1 = Some s1" "state_ok cs s1" "extends s s1"
          "tokens m \<subseteq> fst ` set (AliasToReal s1)" by (auto simp: state_covers_def)
        note r = remember_ok [OF assms(1,2) s1(2)]
        have "tokens ?m \<subseteq> fst ` set (AliasToReal (remember c s1))" using tm s1(4) r(2,3) unfolding extends_def by blast
        with r(1) extends_trans [OF s1(3) r(2)] s1(1) show ?thesis by (simp add: u(3))
      qed
      with Some show ?thesis by (simp add: state_covers_def)
    qed
    ultimately show ?thesis using u(2) by blast
  qed
qed

lemma aliasAll_masked:
  assumes "credentials_ok cs"
  shows "set ds \<subseteq> set cs \<Longrightarrow> masked cs don t u m \<Longrightarrow> state_covers cs st st1 m \<Longrightarrow>
    fold aliasOne ds (u, ch, st1) = (u', ch', st') \<Longrightarrow>
    \<exists>m'. masked cs (don \<union> set ds) t u' m' \<and> state_covers cs st st' m' \<and> (\<not> ch' \<longrightarrow> \<not> ch \<and> u' = u)"
proof (induction ds arbitrary: don u m ch st1)
  case (Cons c ds)
  obtain u1 ch1 st2 where one: "aliasOne c (u, ch, st1) = (u1, ch1, st2)" by (metis surj_pair)
  from aliasOne_masked [OF assms _ Cons.prems(2,3) one] Cons.prems(1) obtain m1 where
    m1: "masked cs (insert c don) t u1 m1" "state_covers cs st st2 m1" "\<not> ch1 \<longrightarrow> \<not> ch \<and> u1 = u" by auto
  have "fold aliasOne ds (u1, ch1, st2) = (u', ch', st')" using Cons.prems(4) one by simp
  from Cons.IH [OF _ m1(1,2) this] Cons.prems(1) m1(3) show ?case by auto
qed auto

lemma AliasText_masked:
  assumes "credentials_ok cs" and "AliasText t cs st = (t', ch, st')"
  shows "\<exists>m. masked cs (set cs) t t' m \<and> state_covers cs st st' m \<and> (\<not> ch \<longrightarrow> t' = t)"
proof -
  have start: "masked cs {} t t (t, [])" "state_covers cs st st (t, [])"
    by (auto simp: masked_def state_covers_def flat_def tokens_def split: option.splits)
  show ?thesis
  proof (cases "t = [] \<or> cs = []")
    case True
    then have r: "t' = t" "st' = st" using assms(2) by (auto simp: AliasText_def)
    have "\<not> Contains [] (Secret c)" if "c \<in> set cs" for c using assms(1) that by (auto simp: credentials_ok_def)
    with start True have "masked cs (set cs) t t (t, [])" by (auto simp: masked_def literals_def)
    with start(2) r show ?thesis by blast
  next
    case False
    with assms(2) have "fold aliasOne cs (t, False, st) = (t', ch, st')" by (simp add: AliasText_def)
    from aliasAll_masked [OF assms(1) subset_refl start this] show ?thesis by auto
  qed
qed

lemma AliasText_hides:
  assumes "credentials_ok cs" and "c \<in> set cs"
  shows "\<not> Contains (fst (AliasText t cs st)) (Secret c)"
proof -
  obtain t' ch st' where r: "AliasText t cs st = (t', ch, st')" by (metis surj_pair)
  from AliasText_masked [OF assms(1) r] obtain m where m: "masked cs (set cs) t t' m" by blast
  have "\<forall>i\<in>tokens m. apart (Secret c) i" using assms m by (auto simp: masked_def credentials_ok_def)
  with Contains_flat [of m "Secret c" "\<lambda>a. a"] m assms(2) show ?thesis by (auto simp: r masked_def)
qed

lemma restoreOne_step:
  assumes "map_of (AliasToReal s) a = Some r" and "a \<noteq> []" and "r \<noteq> []"
  shows "fst (restoreOne s a (x, ch)) = ReplaceAll x a r"
    and "\<not> snd (restoreOne s a (x, ch)) \<Longrightarrow> \<not> ch \<and> fst (restoreOne s a (x, ch)) = x"
  using assms by (auto simp: restoreOne_def ReplaceAll_id)

lemma state_lookup:
  assumes "credentials_ok cs" and "state_ok cs s" and "a \<in> fst ` set (AliasToReal s)"
  shows "map_of (AliasToReal s) a = Some (secretOf cs a)" and "\<exists>c\<in>set cs. a = AliasToken c"
proof -
  from assms(3) obtain r where r: "(a, r) \<in> set (AliasToReal s)" by auto
  with assms(2) obtain c where c: "c \<in> set cs" "a = AliasToken c" "r = Secret c" by (auto simp: state_ok_def)
  with secretOf_alias [OF assms(1)] r assms(2) show "map_of (AliasToReal s) a = Some (secretOf cs a)"
    by (simp add: state_ok_def)
  show "\<exists>c\<in>set cs. a = AliasToken c" using c by blast
qed

lemma restoreAll:
  assumes "credentials_ok cs" and "state_ok cs s" and "masked cs (set cs) t t' m"
    and clean: "\<forall>c\<in>set cs. \<not> Contains t (AliasToken c)"
  shows "distinct as \<Longrightarrow> set as \<subseteq> fst ` set (AliasToReal s) \<Longrightarrow> A \<inter> set as = {} \<Longrightarrow> A \<subseteq> AliasToken ` set cs \<Longrightarrow>
    x = flat (\<lambda>a. if a \<in> A then secretOf cs a else a) m \<Longrightarrow>
    fst (fold (restoreOne s) as (x, ch)) = flat (\<lambda>a. if a \<in> A \<union> set as then secretOf cs a else a) m \<and>
    (\<not> snd (fold (restoreOne s) as (x, ch)) \<longrightarrow> \<not> ch \<and> fst (fold (restoreOne s) as (x, ch)) = x)"
proof (induction as arbitrary: A x ch)
  case (Cons a as)
  let ?f = "\<lambda>B b. if b \<in> B then secretOf cs b else b"
  from Cons.prems(2) have look: "map_of (AliasToReal s) a = Some (secretOf cs a)" "\<exists>c\<in>set cs. a = AliasToken c"
    using state_lookup [OF assms(1,2), of a] by auto
  then obtain c where c: "c \<in> set cs" "a = AliasToken c" by blast
  have ok: "unbordered a" "secretOf cs a \<noteq> []" "a \<noteq> []"
    using assms(1) c secretOf_alias [OF assms(1) c(1)] by (auto simp: credentials_ok_def unbordered_def)
  have "apart a (?f A i)" if "i \<in> tokens m - {a}" for i
  proof -
    from that assms(3) obtain d where d: "d \<in> set cs" "i = AliasToken d" "i \<noteq> a" by (auto simp: masked_def)
    have "apart a (Secret d)" "apart a i"
      using assms(1) c d apart_sym [of a "Secret d"] by (auto simp: credentials_ok_def)
    with d(2) secretOf_alias [OF assms(1) d(1)] show ?thesis by simp
  qed
  moreover have "\<not> Contains l a" if "l \<in> literals m" for l
    using literal_in_flat [OF that, of "secretOf cs"] assms(3) clean c Contains_trans by (auto simp: masked_def)
  ultimately have "ReplaceAll (flat (?f A) m) a (secretOf cs a) = flat ((?f A)(a := secretOf cs a)) m"
    using Cons.prems(3) ok(1) by (intro unmaskStep) auto
  moreover have "(?f A)(a := secretOf cs a) = ?f (insert a A)" by auto
  ultimately have step: "fst (restoreOne s a (x, ch)) = flat (?f (insert a A)) m"
    using restoreOne_step(1) [OF look(1) ok(3,2)] Cons.prems(5) by simp
  obtain x1 ch1 where one: "restoreOne s a (x, ch) = (x1, ch1)" by fastforce
  have "fst (fold (restoreOne s) as (x1, ch1)) = flat (?f (insert a A \<union> set as)) m \<and>
      (\<not> snd (fold (restoreOne s) as (x1, ch1)) \<longrightarrow> \<not> ch1 \<and> fst (fold (restoreOne s) as (x1, ch1)) = x1)"
    by (rule Cons.IH) (use Cons.prems c step one in auto)
  with one restoreOne_step(2) [OF look(1) ok(3,2), of x ch] show ?case by auto
qed simp

lemma AliasText_restores:
  assumes "credentials_ok cs" and "\<forall>c\<in>set cs. \<not> Contains t (AliasToken c)"
    and "AliasText t cs (Some s0) = (t', ch, st')" and "state_ok cs s0"
  shows "\<exists>s1. st' = Some s1 \<and> state_ok cs s1 \<and> extends s0 s1 \<and>
    (\<forall>s. state_ok cs s \<and> extends s1 s \<longrightarrow>
       fst (RestoreText t' (Some s)) = t \<and> (\<not> snd (RestoreText t' (Some s)) \<longrightarrow> t' = t))"
proof -
  from AliasText_masked [OF assms(1,3)] obtain m where m: "masked cs (set cs) t t' m" "state_covers cs (Some s0) st' m"
    by blast
  then obtain s1 where s1: "st' = Some s1" "state_ok cs s1" "extends s0 s1" "tokens m \<subseteq> fst ` set (AliasToReal s1)"
    using assms(4) by (auto simp: state_covers_def)
  have "fst (RestoreText t' (Some s)) = t \<and> (\<not> snd (RestoreText t' (Some s)) \<longrightarrow> t' = t)"
    if s: "state_ok cs s" "extends s1 s" for s
  proof (cases "t' = [] \<or> AliasToReal s = [] \<or> \<not> MayContainAliasToken t'")
    case True
    have "tokens m = {}"
    proof (rule ccontr)
      assume "tokens m \<noteq> {}"
      then obtain a where a: "a \<in> tokens m" by blast
      with s1(4) s(2) have "AliasToReal s \<noteq> []" by (auto simp: extends_def)
      from a m(1) obtain c where c: "c \<in> set cs" "a = AliasToken c" by (auto simp: masked_def)
      have "Contains (flatTail (\<lambda>a. a) ps) a" if "a \<in> fst ` set ps" for ps
        using that
      proof (induction ps)
        case (Cons p ps)
        obtain i l where p: "p = (i, l)" by (cases p)
        show ?case
        proof (cases "a = i")
          case True
          then show ?thesis using Contains_append_mid [of "[]" i "l @ flatTail (\<lambda>a. a) ps"] by (simp add: p)
        next
          case False
          with Cons p have "Contains (flatTail (\<lambda>a. a) ps) a" by simp
          then obtain b d where "flatTail (\<lambda>a. a) ps = b @ a @ d" by (auto simp: Contains_iff)
          then have "flatTail (\<lambda>a. a) (p # ps) = (i @ l @ b) @ a @ d" by (simp add: p)
          then show ?thesis by (metis Contains_append_mid)
        qed
      qed simp
      with a have "Contains (flatTail (\<lambda>a. a) (snd m)) a" by (simp add: tokens_def)
      moreover have "t' = fst m @ flatTail (\<lambda>a. a) (snd m) @ []" using m(1) by (simp add: masked_def flat_def)
      ultimately have "Contains t' a" using Contains_trans Contains_append_mid by metis
      moreover have "Contains a AliasTokenPrefix" using assms(1) c by (auto simp: credentials_ok_def)
      ultimately have "Contains t' AliasTokenPrefix" by (rule Contains_trans)
      then have "MayContainAliasToken t'" by (auto simp: MayContainAliasToken_def AliasTokenPrefix_def)
      with True \<open>AliasToReal s \<noteq> []\<close> show False by (auto simp: MayContainAliasToken_def)
    qed
    then have "flat (\<lambda>a. a) m = flat (secretOf cs) m" by (intro flat_cong) simp
    with m(1) have "t' = t" unfolding masked_def by argo
    with True show ?thesis by (auto simp: RestoreText_def)
  next
    case False
    let ?as = "longestFirst (map fst (AliasToReal s))"
    have as: "distinct ?as" "set ?as = fst ` set (AliasToReal s)"
      using s(1) by (simp_all add: longestFirst_def state_ok_def)
    have start: "t' = flat (\<lambda>a. if a \<in> {} then secretOf cs a else a) m" using m(1) by (simp add: masked_def)
    have all: "flat (\<lambda>a. if a \<in> {} \<union> set ?as then secretOf cs a else a) m = t"
    proof -
      have "flat (\<lambda>a. if a \<in> {} \<union> set ?as then secretOf cs a else a) m = flat (secretOf cs) m"
        using s1(4) s(2) as(2) by (intro flat_cong) (auto simp: extends_def)
      with m(1) show ?thesis by (simp add: masked_def)
    qed
    have r: "RestoreText t' (Some s) = fold (restoreOne s) ?as (t', False)" using False by (simp add: RestoreText_def)
    from restoreAll [OF assms(1) s(1) m(1) assms(2) as(1) _ _ _ start, of False] as(2) all
    show ?thesis unfolding r by auto
  qed
  with s1 show ?thesis by blast
qed

section \<open>The alias tokens the program issues\<close>

text \<open>
  An alias token starts with \<open>TI\<close> and has these two letters nowhere else, and does not end with
  \<open>T\<close>; so no end of one token is a start of another.
\<close>

definition alias_like :: "string \<Rightarrow> bool" where
  "alias_like a \<longleftrightarrow> HasPrefix a AliasTokenPrefix \<and> \<not> Contains (tl a) ''TI'' \<and> last a \<noteq> CHR ''T''"

lemma alias_like_facts:
  assumes "alias_like a"
  shows "HasPrefix a ''TI''" and "a \<noteq> []"
proof -
  from assms obtain w where "a = ''TI'' @ ''NGLY_CRED_'' @ w"
    by (auto simp: alias_like_def HasPrefix_iff AliasTokenPrefix_def)
  then show "HasPrefix a ''TI''" "a \<noteq> []" by (auto simp: HasPrefix_iff)
qed

lemma alias_like_suffix:
  assumes "alias_like a" and "alias_like b" and "a = u @ v" and "b = v @ w" and "u \<noteq> []"
  shows "v = []"
proof (rule ccontr)
  assume "v \<noteq> []"
  then obtain c v' where v: "v = c # v'" by (cases v) auto
  from alias_like_facts [OF assms(2)] obtain y where b: "b = CHR ''T'' # CHR ''I'' # y" by (auto simp: HasPrefix_iff)
  with assms(4) v have c: "c = CHR ''T''" by simp
  show False
  proof (cases v')
    case Nil
    with assms(3) v c have "last a = CHR ''T''" by simp
    with assms(1) show False by (simp add: alias_like_def)
  next
    case (Cons d v'')
    with b assms(4) v have "v = ''TI'' @ v''" by simp
    moreover have "tl a = tl u @ v" using assms(3,5) by simp
    ultimately have "Contains (tl a) ''TI''" by (simp only: Contains_append_mid)
    with assms(1) show False by (simp add: alias_like_def)
  qed
qed

lemma alias_like_unbordered: "alias_like a \<Longrightarrow> unbordered a"
proof -
  assume a: "alias_like a"
  have "drop (length a - k) a \<noteq> take k a" if "k \<in> set [1..<length a]" for k
  proof
    assume eq: "drop (length a - k) a = take k a"
    from that have k: "0 < k" "k < length a" by auto
    have "a = take (length a - k) a @ take k a" by (metis eq append_take_drop_id)
    moreover have "a = take k a @ drop k a" by simp
    note alias_like_suffix [OF a a calculation this]
    with k show False by (cases a) auto
  qed
  with alias_like_facts [OF a] show "unbordered a" by (simp add: unbordered_def)
qed

lemma alias_like_contains: "alias_like a \<Longrightarrow> alias_like b \<Longrightarrow> Contains a b \<Longrightarrow> HasPrefix a b"
proof -
  assume a: "alias_like a" "alias_like b" "Contains a b"
  then obtain x y where x: "a = x @ b @ y" by (auto simp: Contains_iff)
  obtain z where z: "b = ''TI'' @ z" using alias_like_facts [OF a(2)] by (auto simp: HasPrefix_iff)
  show "HasPrefix a b"
  proof (cases x)
    case (Cons c x')
    then have "tl a = x' @ ''TI'' @ z @ y" using x z by simp
    then have "Contains (tl a) ''TI''" by (simp only: Contains_append_mid)
    with a(1) show ?thesis by (simp add: alias_like_def)
  qed (simp add: x)
qed

lemma alias_like_meets: "alias_like a \<Longrightarrow> alias_like b \<Longrightarrow> meets a b \<Longrightarrow> HasPrefix b a"
proof -
  assume a: "alias_like a" "alias_like b" "meets a b"
  then obtain k where m: "k \<in> set [1..<Suc (min (length a) (length b))]" and eq: "drop (length a - k) a = take k b"
    unfolding meets_def by blast
  from m have k: "0 < k" "k \<le> length a" "k \<le> length b" by auto
  show "HasPrefix b a"
  proof (cases "k = length a")
    case True
    with eq have "a = take (length a) b" by simp
    then show ?thesis by (simp add: HasPrefix_def)
  next
    case False
    have "a = take (length a - k) a @ take k b" by (metis eq append_take_drop_id)
    from alias_like_suffix [OF a(1,2) this append_take_drop_id [symmetric]] k False
    show ?thesis by (cases a; cases b) auto
  qed
qed

lemma alias_like_apart:
  "alias_like a \<Longrightarrow> alias_like b \<Longrightarrow> \<not> HasPrefix a b \<Longrightarrow> \<not> HasPrefix b a \<Longrightarrow> apart a b"
  using alias_like_contains alias_like_meets alias_like_facts by (auto simp: apart_def)

definition hex_upper :: "string \<Rightarrow> bool" where
  "hex_upper h \<longleftrightarrow> (\<forall>c\<in>set h. c \<in> set ''0123456789ABCDEF'')"

lemma upper_hex_digit: "n < 16 \<Longrightarrow> upper_char (hex_digit n) \<in> set ''0123456789ABCDEF''"
proof -
  assume "n < 16"
  then consider "n < 10" | "n = 10" | "n = 11" | "n = 12" | "n = 13" | "n = 14" | "n = 15" by linarith
  then show ?thesis
  proof cases
    case 1
    then have "n = 0 \<or> n = 1 \<or> n = 2 \<or> n = 3 \<or> n = 4 \<or> n = 5 \<or> n = 6 \<or> n = 7 \<or> n = 8 \<or> n = 9"
      by presburger
    then show ?thesis by (elim disjE) (simp_all add: hex_digit_def upper_char_def char_of_def bit_0)
  qed (simp_all add: hex_digit_def upper_char_def char_of_def bit_0)
qed

lemma hex_bytes:
  "\<forall>b\<in>set bytes. b < 256 \<Longrightarrow> hex_upper (ToUpper (EncodeToString bytes)) \<and> length (ToUpper (EncodeToString bytes)) = 2 * length bytes"
proof (induction bytes)
  case (Cons b bytes)
  then have "b div 16 < 16" "b mod 16 < 16" by auto
  with Cons upper_hex_digit show ?case by (auto simp: hex_upper_def ToUpper_def EncodeToString_def)
qed (simp add: hex_upper_def ToUpper_def EncodeToString_def)

text \<open>A token as the program issues it: a supported type and sixteen random bytes.\<close>

definition issued :: "ProtectedCredential \<Rightarrow> bool" where
  "issued c \<longleftrightarrow> cred_ID c \<noteq> [] \<and> Secret c \<noteq> [] \<and> IsSupportedProtectedCredentialType (cred_Type c) \<and>
     (\<exists>bytes. length bytes = 16 \<and> (\<forall>b\<in>set bytes. b < 256) \<and>
        GenerateAliasToken (Some bytes) (cred_Type c) = Some (AliasToken c))"

lemma ToUpper_types:
  "t \<in> set protectedCredentialTypes \<Longrightarrow> ToUpper t \<in> {''API_KEY'', ''TOKEN'', ''PRIVATE_KEY''}"
proof -
  have "ToUpper ''api_key'' = ''API_KEY''" "ToUpper ''token'' = ''TOKEN''" "ToUpper ''private_key'' = ''PRIVATE_KEY''"
    by (simp_all add: ToUpper_def upper_char_def char_of_def bit_0)
  then show "t \<in> set protectedCredentialTypes \<Longrightarrow> ToUpper t \<in> {''API_KEY'', ''TOKEN'', ''PRIVATE_KEY''}"
    by (auto simp: protectedCredentialTypes_def)
qed

lemma issued_shape:
  assumes "issued c"
  obtains L H where "AliasToken c = AliasTokenPrefix @ L @ CHR ''_'' # H"
    "L \<in> {''API_KEY'', ''TOKEN'', ''PRIVATE_KEY''}" "hex_upper H" "length H = 32"
proof -
  from assms obtain bytes where b: "length bytes = 16" "\<forall>b\<in>set bytes. b < 256"
    "GenerateAliasToken (Some bytes) (cred_Type c) = Some (AliasToken c)" by (auto simp: issued_def)
  from assms have ty: "ToUpper (TrimSpace (cred_Type c)) \<in> {''API_KEY'', ''TOKEN'', ''PRIVATE_KEY''}"
    by (auto simp: issued_def IsSupportedProtectedCredentialType_def dest: ToUpper_types)
  then have "ToUpper (TrimSpace (cred_Type c)) \<noteq> []" by auto
  with b(3) have "AliasToken c = AliasTokenPrefix @ ToUpper (TrimSpace (cred_Type c)) @ CHR ''_'' # ToUpper (EncodeToString bytes)"
    by (simp add: GenerateAliasToken_def)
  with ty hex_bytes [OF b(2)] b(1) that show ?thesis by simp
qed

lemma hex_no_T: "hex_upper H \<Longrightarrow> CHR ''T'' \<notin> set H"
proof
  assume "hex_upper H" "CHR ''T'' \<in> set H"
  then have "CHR ''T'' \<in> set ''0123456789ABCDEF''" unfolding hex_upper_def by blast
  then show False by simp
qed

lemma hex_no_TI: "hex_upper H \<Longrightarrow> \<not> Contains H ''TI''"
  using hex_no_T by (force simp: Contains_iff)

lemma HasPrefix_Cons [simp]: "HasPrefix (c # cs) (d # ds) \<longleftrightarrow> c = d \<and> HasPrefix cs ds"
  by (auto simp: HasPrefix_iff)

lemma issued_alias_like: "issued c \<Longrightarrow> alias_like (AliasToken c)"
proof (elim issued_shape)
  fix L H assume a: "AliasToken c = AliasTokenPrefix @ L @ CHR ''_'' # H"
    "L \<in> {''API_KEY'', ''TOKEN'', ''PRIVATE_KEY''}" "hex_upper H" "length H = 32"
  then have "H \<noteq> []" by auto
  with hex_no_T [OF a(3)] have "last H \<noteq> CHR ''T''" by (metis last_in_set)
  with a(2-4) \<open>H \<noteq> []\<close> hex_no_TI [OF a(3)] show "alias_like (AliasToken c)"
    unfolding a(1) alias_like_def AliasTokenPrefix_def by auto
qed

lemma issued_prefix:
  assumes "issued c" and "issued d" and "HasPrefix (AliasToken c) (AliasToken d)"
  shows "AliasToken c = AliasToken d"
  using assms(1,2)
proof (elim issued_shape)
  fix L H K G
  assume a: "AliasToken c = AliasTokenPrefix @ L @ CHR ''_'' # H" "AliasToken d = AliasTokenPrefix @ K @ CHR ''_'' # G"
    "L \<in> {''API_KEY'', ''TOKEN'', ''PRIVATE_KEY''}" "K \<in> {''API_KEY'', ''TOKEN'', ''PRIVATE_KEY''}"
    "length H = 32" "length G = 32"
  from assms(3) have "HasPrefix (L @ CHR ''_'' # H) (K @ CHR ''_'' # G)" by (simp add: a(1,2) AliasTokenPrefix_def)
  with a(3,4) have "L = K \<and> HasPrefix H G" by auto
  with a(5,6) have "L = K \<and> H = G" by (auto simp: HasPrefix_def)
  then show "AliasToken c = AliasToken d" by (simp add: a(1,2))
qed

lemma issued_credentials_ok:
  assumes "\<forall>c\<in>set cs. issued c" and "distinct (map AliasToken cs)"
    and "\<forall>c\<in>set cs. \<forall>d\<in>set cs. apart (Secret c) (AliasToken d)"
  shows "credentials_ok cs"
proof -
  have "apart (AliasToken c) (AliasToken d)" if "c \<in> set cs" "d \<in> set cs" "AliasToken c \<noteq> AliasToken d" for c d
    using that assms(1) issued_prefix [of c d] issued_prefix [of d c] issued_alias_like
    by (intro alias_like_apart) auto
  moreover have "Contains (AliasToken c) AliasTokenPrefix" if "c \<in> set cs" for c
  proof -
    have "HasPrefix (AliasToken c) AliasTokenPrefix" using issued_alias_like assms(1) that by (auto simp: alias_like_def)
    then show ?thesis using Contains_append_mid [of "[]"] by (auto simp: HasPrefix_iff)
  qed
  ultimately show ?thesis
    using assms alias_like_unbordered issued_alias_like by (auto simp: credentials_ok_def issued_def)
qed

section \<open>Masked requests\<close>

text \<open>The texts of a JSON value, without its keys, and of a request.\<close>

fun jsonTexts :: "json_value \<Rightarrow> string list" where
  "jsonTexts (JString t) = [t]"
| "jsonTexts (JArray xs) = concat (map jsonTexts xs)"
| "jsonTexts (JObject fs) = concat (map (\<lambda>(k, v). jsonTexts v) fs)"
| "jsonTexts (JOther v) = []"

definition blockTexts :: "Block \<Rightarrow> string list" where
  "blockTexts b =
     (case OfText b of Some t \<Rightarrow> [t] | None \<Rightarrow> []) @
     (case OfToolResult b of Some ps \<Rightarrow> concat (map (case_option [] (\<lambda>t. [t])) ps) | None \<Rightarrow> []) @
     (case OfToolUse b of Some (JObject fs) \<Rightarrow> jsonTexts (JObject fs) | _ \<Rightarrow> [])"

definition requestTexts :: "MessageNewParams \<Rightarrow> string list" where
  "requestTexts req = System req @ concat (map blockTexts (concat (req_Messages req)))"

definition clean :: "ProtectedCredential list \<Rightarrow> string list \<Rightarrow> bool" where
  "clean cs ts \<longleftrightarrow> (\<forall>t\<in>set ts. \<forall>c\<in>set cs. \<not> Contains t (Secret c))"

lemma clean_simps [simp]:
  "clean cs []" "clean cs (t # ts) \<longleftrightarrow> (\<forall>c\<in>set cs. \<not> Contains t (Secret c)) \<and> clean cs ts"
  "clean cs (ts @ us) \<longleftrightarrow> clean cs ts \<and> clean cs us"
  by (auto simp: clean_def)

lemma AliasText_clean:
  "credentials_ok cs \<Longrightarrow> AliasText t cs st = (t', ch, st') \<Longrightarrow> clean cs [t'] \<and> (\<not> ch \<longrightarrow> t' = t)"
  using AliasText_hides [of cs _ t st] AliasText_masked [of cs t st t' ch st'] by (auto simp: clean_def)

lemma alias_json_clean:
  assumes "credentials_ok cs"
  shows "aliasValue cs v st = (v', ch, st') \<Longrightarrow> clean cs (jsonTexts v') \<and> (\<not> ch \<longrightarrow> v' = v)"
    and "aliasItems cs xs st = (xs', ch, st') \<Longrightarrow> clean cs (concat (map jsonTexts xs')) \<and> (\<not> ch \<longrightarrow> xs' = xs)"
    and "aliasFields cs fs st = (fs', ch, st') \<Longrightarrow>
      clean cs (concat (map (\<lambda>(k, v). jsonTexts v) fs')) \<and> (\<not> ch \<longrightarrow> fs' = fs)"
  using assms
proof (induction cs v st and cs xs st and cs fs st arbitrary: v' ch st' and xs' ch st' and fs' ch st'
    rule: aliasValue_aliasItems_aliasFields.induct)
  case (1 cs t st)
  then show ?case using AliasText_clean [OF 1(2)] by (auto split: prod.splits)
qed (fastforce split: prod.splits if_splits)+

lemma aliasOptional_clean:
  assumes "credentials_ok cs" and "aliasOptional cs x st = (x', ch, st')"
  shows "clean cs (case_option [] (\<lambda>t. [t]) x')"
  using assms(2) AliasText_clean [OF assms(1)] by (auto simp: aliasOptional_def split: option.splits prod.splits)

lemma aliasParts_clean:
  assumes "credentials_ok cs"
  shows "aliasParts cs ps st = (ps', ch, st') \<Longrightarrow> clean cs (concat (map (case_option [] (\<lambda>t. [t])) ps'))"
  using assms
proof (induction cs ps st arbitrary: ps' ch st' rule: aliasParts.induct)
  case (2 cs p ps st)
  then show ?case using aliasOptional_clean [OF 2(3)] by (fastforce split: prod.splits)
qed simp

lemma aliasTexts_clean:
  assumes "credentials_ok cs"
  shows "aliasTexts cs ts st = (ts', ch, st') \<Longrightarrow> clean cs ts'"
  using assms
proof (induction cs ts st arbitrary: ts' ch st' rule: aliasTexts.induct)
  case (2 cs t ts st)
  then show ?case using AliasText_clean [OF 2(3)] by (fastforce split: prod.splits)
qed simp

lemma aliasBlock_clean:
  assumes "credentials_ok cs" and "aliasBlock cs b st = (b', ch, st')"
  shows "clean cs (blockTexts b')"
proof -
  obtain t ch1 st1 where t: "aliasOptional cs (OfText b) st = (t, ch1, st1)" by (metis surj_pair)
  obtain r ch2 st2 where r: "(case OfToolResult b of
                 None \<Rightarrow> (None, False, st1)
               | Some ps \<Rightarrow> (case aliasParts cs ps st1 of (ps', ch, st') \<Rightarrow> (Some ps', ch, st'))) = (r, ch2, st2)" by (metis surj_pair)
  have tc: "clean cs (case_option [] (\<lambda>t. [t]) t)" by (rule aliasOptional_clean [OF assms(1) t])
  have rc: "clean cs (case r of Some ps \<Rightarrow> concat (map (case_option [] (\<lambda>t. [t])) ps) | None \<Rightarrow> [])"
    using r aliasParts_clean [OF assms(1)] by (auto split: option.splits prod.splits)
  show ?thesis
  proof (cases "OfToolUse b")
    case None
    with assms(2) t r have "b' = b\<lparr>OfText := t, OfToolResult := r\<rparr>" by (simp add: aliasBlock_def)
    with None tc rc show ?thesis by (simp add: blockTexts_def)
  next
    case (Some v)
    obtain v' ch3 st3 where v: "aliasValue cs v st2 = (v', ch3, st3)" by (metis surj_pair)
    note vc = alias_json_clean(1) [OF assms(1) v]
    have "b' = (if ch3 \<and> (\<exists>fs. v' = JObject fs) then b\<lparr>OfText := t, OfToolResult := r, OfToolUse := Some v'\<rparr>
        else b\<lparr>OfText := t, OfToolResult := r\<rparr>)"
      using assms(2) t r Some v by (auto simp: aliasBlock_def split: json_value.splits bool.splits)
    moreover have "(\<exists>fs. v = JObject fs) \<Longrightarrow> \<exists>fs. v' = JObject fs"
      using v by (auto split: prod.splits if_splits)
    ultimately show ?thesis using tc rc vc Some
      by (auto simp: blockTexts_def split: json_value.splits)
  qed
qed

lemma maskBlocks_clean:
  assumes "credentials_ok cs"
  shows "maskAnthropicV1Blocks cs bs st = (bs', ch, lastCh, st') \<Longrightarrow> clean cs (concat (map blockTexts bs'))"
  using assms
proof (induction cs bs st arbitrary: bs' ch lastCh st' rule: maskAnthropicV1Blocks.induct)
  case (2 cs b bs st)
  then show ?case using aliasBlock_clean [OF 2(3)] by (fastforce split: prod.splits)
qed simp

lemma maskMessages_clean:
  assumes "credentials_ok cs"
  shows "maskMessages latest cs ms st = (ms', ch, lt, st') \<Longrightarrow> clean cs (concat (map blockTexts (concat ms')))"
  using assms
proof (induction latest cs ms st arbitrary: ms' ch lt st' rule: maskMessages.induct)
  case (2 latest cs m ms st)
  then show ?case using maskBlocks_clean [OF 2(3)] by (fastforce split: prod.splits)
qed simp

lemma masked_request_clean:
  assumes "\<forall>c\<in>set cs. issued c" and "distinct (map AliasToken cs)"
    and "\<forall>c\<in>set cs. \<forall>d\<in>set cs. apart (Secret c) (AliasToken d)" and "cs \<noteq> []"
    and "req' = fst (MaskAnthropicV1RequestCredentials req cs st) \<or>
         req' = fst (MaskAnthropicBetaRequestCredentials req cs st)"
  shows "clean cs (requestTexts req')"
proof -
  note ok = issued_credentials_ok [OF assms(1-3)]
  obtain sys ch1 st1 where s: "aliasTexts cs (System req) st = (sys, ch1, st1)" by (metis surj_pair)
  obtain latest ms ch2 lt st2 where m: "maskMessages latest cs (req_Messages req) st1 = (ms, ch2, lt, st2)"
    and req: "req' = \<lparr>System = sys, req_Messages = ms\<rparr>"
    using assms(5) \<open>cs \<noteq> []\<close> s
    by (auto simp: MaskAnthropicV1RequestCredentials_def MaskAnthropicBetaRequestCredentials_def split: prod.splits)
  show ?thesis using aliasTexts_clean [OF ok s] maskMessages_clean [OF ok m] by (simp add: requestTexts_def req)
qed


text \<open>
  C10 (roundtrip): what is masked is restored.  Masking a text that has no alias token in it and
  later restoring the result gives the text back, whatever order the aliases are put back in and
  whatever else of the same credentials was masked in between; and when restoring reports no
  change there was nothing to restore.
\<close>

theorem mask_restore_roundtrip:
  assumes "\<forall>c\<in>set cs. issued c" and "distinct (map AliasToken cs)"
    and "\<forall>c\<in>set cs. \<forall>d\<in>set cs. apart (Secret c) (AliasToken d)"
    and "\<forall>c\<in>set cs. \<not> Contains t (AliasToken c)"
    and "AliasText t cs (Some s0) = (masked_t, ch, st1)" and "state_ok cs s0"
  shows "\<exists>s1. st1 = Some s1 \<and> state_ok cs s1 \<and>
    (\<forall>s. state_ok cs s \<and> extends s1 s \<longrightarrow>
       fst (RestoreText masked_t (Some s)) = t \<and> (\<not> snd (RestoreText masked_t (Some s)) \<longrightarrow> masked_t = t))"
  using AliasText_restores [OF issued_credentials_ok [OF assms(1-3)] assms(4-6)] by blast

definition tokenCredential :: ProtectedCredential where
  "tokenCredential = \<lparr>cred_ID = ''c1'', cred_Name = ''gh'', cred_Type = ''token'', Secret = ''ghp_x'',
     AliasToken = the (GenerateAliasToken (Some (replicate 16 171)) ''token''), Description = [], cred_Tags = [],
     cred_Enabled = True, CreatedAt = 0, UpdatedAt = 0\<rparr>"

lemma replicate_16: "replicate 16 x = [x, x, x, x, x, x, x, x, x, x, x, x, x, x, x, x]"
  by (simp add: numeral_eq_Suc)

lemma tokenCredential_alias:
  "AliasToken tokenCredential = ''TINGLY_CRED_TOKEN_ABABABABABABABABABABABABABABABAB''"
proof -
  have "hex_digit 10 = CHR ''a''" "hex_digit 11 = CHR ''b''" by (simp_all add: hex_digit_def char_of_def bit_0)
  then have "EncodeToString [171] = ''ab''" by (simp add: EncodeToString_def)
  moreover have "EncodeToString (replicate n b) = concat (replicate n (EncodeToString [b]))" for n b
    by (induction n) (simp_all add: EncodeToString_def)
  moreover have "concat (replicate 16 ''ab'') = ''abababababababababababababababab''"
    by (simp add: replicate_16)
  ultimately have "EncodeToString (replicate 16 171) = ''abababababababababababababababab''" by metis
  then show ?thesis
    by (simp add: tokenCredential_def GenerateAliasToken_def AliasTokenPrefix_def ToUpper_def
        upper_char_def TrimSpace_def ascii_space_def char_of_def bit_0)
qed

lemma tokenCredential_issued: "issued tokenCredential"
proof -
  have "IsSupportedProtectedCredentialType (cred_Type tokenCredential)"
    by (simp add: tokenCredential_def IsSupportedProtectedCredentialType_def protectedCredentialTypes_def
        TrimSpace_def ascii_space_def)
  moreover have "\<exists>a. GenerateAliasToken (Some (replicate 16 171)) ''token'' = Some a"
    by (simp add: GenerateAliasToken_def Let_def)
  ultimately show ?thesis
    unfolding issued_def by (auto simp: tokenCredential_def intro!: exI [of _ "replicate 16 171"])
qed

lemma tokenCredential_apart: "apart (Secret tokenCredential) (AliasToken tokenCredential)"
  unfolding tokenCredential_alias
  by (simp add: tokenCredential_def apart_def meets_def)


theorem mask_restore_roundtrip_witness:
  "fst (RestoreText (fst (AliasText ''use ghp_x'' [tokenCredential] (Some NewCredentialMaskState)))
     (snd (snd (AliasText ''use ghp_x'' [tokenCredential] (Some NewCredentialMaskState))))) = ''use ghp_x''"
proof -
  obtain u ch st1 where r: "AliasText ''use ghp_x'' [tokenCredential] (Some NewCredentialMaskState) = (u, ch, st1)"
    by (metis surj_pair)
  have "\<forall>c\<in>set [tokenCredential]. \<not> Contains ''use ghp_x'' (AliasToken c)"
    by (simp add: tokenCredential_alias HasPrefix_iff)
  moreover have "state_ok [tokenCredential] NewCredentialMaskState" by (simp add: state_ok_def NewCredentialMaskState_def)
  ultimately obtain s1 where s1: "st1 = Some s1" "state_ok [tokenCredential] s1"
    "\<forall>s. state_ok [tokenCredential] s \<and> extends s1 s \<longrightarrow> fst (RestoreText u (Some s)) = ''use ghp_x'' \<and>
       (\<not> snd (RestoreText u (Some s)) \<longrightarrow> u = ''use ghp_x'')"
    using mask_restore_roundtrip [OF _ _ _ _ r] tokenCredential_issued tokenCredential_apart by auto
  from s1(3) [rule_format, of s1] s1(1,2) show ?thesis by (simp add: r)
qed

section \<open>Secrets inside secrets\<close>

text \<open>
  The credentials are tried in the order they are given: when a secret starts with one tried before
  it, only the shorter one is masked and remembered, and the rest of the longer secret stays in the
  text.  The credential cache of the runtime gives the longest first, which rules this out.
\<close>

lemma nested_secret_remainder:
  assumes "Secret c = ''sk-1''" and "Secret d = ''sk-12''" and "AliasToken c = ''A''" and "AliasToken d = ''B''"
    and "cred_ID c = ''c''" and "cred_ID d = ''d''"
  shows "AliasText ''sk-12'' [c, d] (Some NewCredentialMaskState) =
    (''A2'', True, Some \<lparr>AliasToReal = [(''A'', ''sk-1'')], RealToAlias = [(''sk-1'', ''A'')], UsedRefs = [''c'']\<rparr>)"
  using assms
  by (simp add: AliasText_def aliasOne_def remember_def NewCredentialMaskState_def Let_def ReplaceAll.simps)

text \<open>The keys of a tool argument are never masked.\<close>

lemma json_keys_unmasked: "map fst (fst (aliasFields cs fs st)) = map fst fs"
proof (induction fs arbitrary: st)
  case (Cons p fs)
  obtain k v where p: "p = (k, v)" by (cases p)
  obtain v' ok st1 where v: "aliasValue cs v st = (v', ok, st1)" by (metis surj_pair)
  obtain fs' ch st2 where f: "aliasFields cs fs st1 = (fs', ch, st2)" by (metis surj_pair)
  from Cons.IH [of st1] show ?case by (simp add: p v f)
qed simp

end
