(* ===== verification/TB_Task.thy ===== *)
theory TB_Task
  imports TB_Prelude "HOL-Library.Word"
begin

unbundle bit_operations_syntax

text \<open>
  Background tasks (\<^verbatim>\<open>internal/task\<close>): the task record and its in-memory store, the FIFO of
  waiting tasks per serialization key, the registry of running tasks and held keys, the retry
  delay, and the manager that submits, dispatches, runs, retries and cancels tasks on several
  goroutines.

  A goroutine of the manager is a program counter: the scheduler's is what is left of its tick, a
  dispatching goroutine that holds \<^verbatim>\<open>m.mu\<close> is in the slot \<open>m_mu\<close>, a running task is a \<open>run\<close>, a
  finished one that has still to wake a waiting task is in \<open>m_waking\<close>, then \<open>m_popped\<close>, then
  \<open>m_ready\<close>, and a call of \<^verbatim>\<open>Cancel\<close> in progress is in \<open>m_signals\<close>, \<open>m_cancels\<close> or \<open>m_removes\<close>.  A step of
  \<open>task_step\<close> is one access to the store, the queue or the registry, each of which is atomic by its
  own mutex, so every interleaving of the goroutines is a sequence of steps.  What a handler does
  is arbitrary; \<open>m_log\<close>, the identifiers of the launched runs, only serves to state properties.
\<close>

section \<open>Tasks\<close>

datatype TaskStatus = StatusPending | StatusQueued | StatusRunning | StatusSucceeded | StatusFailed |
  StatusCancelled | StatusInterrupted

definition IsTerminal :: "TaskStatus \<Rightarrow> bool" where
  "IsTerminal s \<longleftrightarrow> s \<in> {StatusSucceeded, StatusFailed, StatusCancelled, StatusInterrupted}"

record Task =
  t_ID :: string
  t_Type :: string
  t_Status :: TaskStatus
  t_OwnerType :: string
  t_OwnerID :: string
  t_Source :: string
  t_Key :: string
  t_Payload :: string
  t_Result :: string
  t_Progress :: string
  t_Error :: string
  t_Attempt :: int
  t_MaxAttempts :: int
  t_ScheduledAt :: "time option"
  t_StartedAt :: "time option"
  t_FinishedAt :: "time option"
  t_CancelledAt :: "time option"
  t_CreatedAt :: time
  t_UpdatedAt :: time
  t_Recurrence :: string
  t_ParentTaskID :: string

record SubmitRequest =
  req_Type :: string
  req_OwnerType :: string
  req_OwnerID :: string
  req_Source :: string
  req_Key :: string
  req_Payload :: string
  req_MaxAttempts :: int
  req_ScheduledAt :: "time option"

record ListFilter =
  flt_OwnerType :: string
  flt_OwnerID :: string
  flt_Type :: string
  flt_Status :: "TaskStatus list"
  flt_Limit :: int
  flt_Offset :: int

section \<open>The in-memory store\<close>

type_synonym MemoryStore = "(string \<times> Task) list"

definition NewMemoryStore :: MemoryStore where "NewMemoryStore = []"

definition store_Create :: "Task \<Rightarrow> MemoryStore \<Rightarrow> MemoryStore" where
  "store_Create t st = AList.update (t_ID t) t st"

definition store_Get :: "string \<Rightarrow> MemoryStore \<Rightarrow> Task option" where
  "store_Get i st = map_of st i"

definition store_Update :: "Task \<Rightarrow> MemoryStore \<Rightarrow> MemoryStore option" where
  "store_Update t st =
     (if map_of st (t_ID t) = None then None else Some (AList.update (t_ID t) t st))"

definition filterMatches :: "ListFilter \<Rightarrow> Task \<Rightarrow> bool" where
  "filterMatches f t \<longleftrightarrow>
     \<not> (flt_OwnerType f \<noteq> [] \<and> t_OwnerType t \<noteq> flt_OwnerType f) \<and>
     \<not> (flt_OwnerID f \<noteq> [] \<and> t_OwnerID t \<noteq> flt_OwnerID f) \<and>
     \<not> (flt_Type f \<noteq> [] \<and> t_Type t \<noteq> flt_Type f) \<and>
     \<not> (flt_Status f \<noteq> [] \<and> t_Status t \<notin> set (flt_Status f))"

text \<open>
  \<^verbatim>\<open>sort.Slice\<close> after ranging over a Go map: the order of equal elements is arbitrary in the code,
  and is that of the association list here.
\<close>

definition store_List :: "ListFilter \<Rightarrow> MemoryStore \<Rightarrow> Task list" where
  "store_List f st =
     (let result = sort_key (\<lambda>t. - t_CreatedAt t) (filter (filterMatches f) (map snd st)) in
      if flt_Offset f > 0 \<and> flt_Offset f \<ge> int (length result) then []
      else
        let rest = (if flt_Offset f > 0 then drop (nat (flt_Offset f)) result else result) in
        if flt_Limit f > 0 \<and> flt_Limit f < int (length rest) then take (nat (flt_Limit f)) rest else rest)"

definition interrupted :: "time \<Rightarrow> Task \<Rightarrow> Task" where
  "interrupted now t =
     (case t_Status t of
        StatusRunning \<Rightarrow> t\<lparr>t_Status := StatusInterrupted, t_UpdatedAt := now\<rparr>
      | StatusQueued \<Rightarrow> t\<lparr>t_Status := StatusPending, t_ScheduledAt := None, t_UpdatedAt := now\<rparr>
      | _ \<Rightarrow> t)"

definition MarkInterruptedOnStartup :: "time \<Rightarrow> MemoryStore \<Rightarrow> MemoryStore" where
  "MarkInterruptedOnStartup now st = map (\<lambda>(i, t). (i, interrupted now t)) st"

definition isDue :: "time \<Rightarrow> Task \<Rightarrow> bool" where
  "isDue now t \<longleftrightarrow> t_Status t = StatusPending \<and>
     (case t_ScheduledAt t of None \<Rightarrow> True | Some a \<Rightarrow> \<not> now < a)"

definition FindDueTasks :: "time \<Rightarrow> int \<Rightarrow> MemoryStore \<Rightarrow> Task list" where
  "FindDueTasks now limit st =
     (let result = sort_key t_CreatedAt (filter (isDue now) (map snd st)) in
      if limit > 0 \<and> int (length result) > limit then take (nat limit) result else result)"

definition FindQueuedForKey :: "string \<Rightarrow> MemoryStore \<Rightarrow> Task option" where
  "FindQueuedForKey key st =
     fold (\<lambda>t oldest.
       if t_Key t \<noteq> key \<or> t_Status t \<noteq> StatusQueued then oldest
       else case oldest of None \<Rightarrow> Some t
         | Some old \<Rightarrow> if t_CreatedAt t < t_CreatedAt old then Some t else oldest)
     (map snd st) None"

text \<open>
  The column map of \<^verbatim>\<open>UpdateStatus\<close>, one constructor per column it knows.
\<close>

datatype field = F_status TaskStatus | F_attempt int | F_progress string | F_error string |
  F_result string | F_started_at time | F_finished_at time | F_cancelled_at time |
  F_scheduled_at "time option"

fun setField :: "field \<Rightarrow> Task \<Rightarrow> Task" where
  "setField (F_status s) t = t\<lparr>t_Status := s\<rparr>"
| "setField (F_attempt n) t = t\<lparr>t_Attempt := n\<rparr>"
| "setField (F_progress p) t = t\<lparr>t_Progress := p\<rparr>"
| "setField (F_error e) t = t\<lparr>t_Error := e\<rparr>"
| "setField (F_result r) t = (if r \<noteq> [] then t\<lparr>t_Result := r\<rparr> else t)"
| "setField (F_started_at a) t = t\<lparr>t_StartedAt := Some a\<rparr>"
| "setField (F_finished_at a) t = t\<lparr>t_FinishedAt := Some a\<rparr>"
| "setField (F_cancelled_at a) t = t\<lparr>t_CancelledAt := Some a\<rparr>"
| "setField (F_scheduled_at a) t = t\<lparr>t_ScheduledAt := a\<rparr>"

definition UpdateStatus :: "time \<Rightarrow> string \<Rightarrow> field list \<Rightarrow> MemoryStore \<Rightarrow> MemoryStore option" where
  "UpdateStatus now i cols st =
     (case map_of st i of
        None \<Rightarrow> None
      | Some t \<Rightarrow> Some (AList.update i ((fold setField cols t)\<lparr>t_UpdatedAt := now\<rparr>) st))"

section \<open>The queue per serialization key\<close>

type_synonym serialKeyQueue = "string \<rightharpoonup> string list"

definition newSerialKeyQueue :: serialKeyQueue where "newSerialKeyQueue = Map.empty"

definition queued :: "serialKeyQueue \<Rightarrow> string \<Rightarrow> string list" where
  "queued q k = (case q k of None \<Rightarrow> [] | Some ids \<Rightarrow> ids)"

definition setQueue :: "string \<Rightarrow> string list \<Rightarrow> serialKeyQueue \<Rightarrow> serialKeyQueue" where
  "setQueue k ids q = (if ids = [] then q(k := None) else q(k \<mapsto> ids))"

definition enqueue :: "string \<Rightarrow> string \<Rightarrow> serialKeyQueue \<Rightarrow> serialKeyQueue" where
  "enqueue k i q = q(k \<mapsto> queued q k @ [i])"

definition dequeue :: "string \<Rightarrow> serialKeyQueue \<Rightarrow> string \<times> serialKeyQueue" where
  "dequeue k q = (case queued q k of [] \<Rightarrow> ([], q) | i # ids \<Rightarrow> (i, setQueue k ids q))"

definition queue_remove :: "string \<Rightarrow> string \<Rightarrow> serialKeyQueue \<Rightarrow> serialKeyQueue" where
  "queue_remove k i q = (if i \<in> set (queued q k) then setQueue k (remove1 i (queued q k)) q else q)"

definition queue_peek :: "string \<Rightarrow> serialKeyQueue \<Rightarrow> string" where
  "queue_peek k q = (case queued q k of [] \<Rightarrow> [] | i # _ \<Rightarrow> i)"

definition queue_depth :: "string \<Rightarrow> serialKeyQueue \<Rightarrow> nat" where
  "queue_depth k q = length (queued q k)"

section \<open>Running tasks and held keys\<close>

text \<open>A cancel function is the number of the context it cancels.\<close>

record cancelRegistry =
  reg_running :: "string \<rightharpoonup> nat"
  reg_locks :: "string \<rightharpoonup> string"

definition newCancelRegistry :: cancelRegistry where
  "newCancelRegistry = \<lparr>reg_running = Map.empty, reg_locks = Map.empty\<rparr>"

definition isLocked :: "string \<Rightarrow> cancelRegistry \<Rightarrow> bool" where
  "isLocked k r \<longleftrightarrow> reg_locks r k \<noteq> None"

definition lockedBy :: "string \<Rightarrow> cancelRegistry \<Rightarrow> string" where
  "lockedBy k r = (case reg_locks r k of None \<Rightarrow> [] | Some i \<Rightarrow> i)"

definition reg_register :: "string \<Rightarrow> string \<Rightarrow> nat \<Rightarrow> cancelRegistry \<Rightarrow> cancelRegistry option" where
  "reg_register i k c r =
     (if k \<noteq> [] \<and> isLocked k r then None
      else Some (r\<lparr>reg_locks := (if k \<noteq> [] then (reg_locks r)(k \<mapsto> i) else reg_locks r),
                   reg_running := (reg_running r)(i \<mapsto> c)\<rparr>))"

definition reg_unregister :: "string \<Rightarrow> string \<Rightarrow> cancelRegistry \<Rightarrow> cancelRegistry" where
  "reg_unregister i k r =
     r\<lparr>reg_running := (reg_running r)(i := None),
       reg_locks := (if k \<noteq> [] \<and> reg_locks r k = Some i then (reg_locks r)(k := None) else reg_locks r)\<rparr>"

definition reg_cancel :: "string \<Rightarrow> cancelRegistry \<Rightarrow> nat option" where
  "reg_cancel i r = reg_running r i"

section \<open>Errors and the retry delay\<close>

datatype task_error = ErrNotFound | ErrNotCancellable | ErrHandlerNotFound | ErrDuplicateHandler | TypeRequired

text \<open>
  The error a handler returns: a plain one, or one with a \<^verbatim>\<open>RetryableError\<close> in its chain, with its text
  and the delay asked for.
\<close>

datatype run_error = PlainError string | RetryableError string duration

definition error_text :: "run_error \<Rightarrow> string" where
  "error_text e = (case e of PlainError m \<Rightarrow> m | RetryableError m _ \<Rightarrow> m)"

definition IsRetryable :: "run_error \<Rightarrow> bool" where
  "IsRetryable e = (case e of PlainError _ \<Rightarrow> False | RetryableError _ _ \<Rightarrow> True)"

text \<open>
  \<^verbatim>\<open>time.Duration(1<<uint(attempt)) * 5 * time.Second\<close> on 64-bit words, the multiplications left to
  right, read back as a signed number.
\<close>

definition shiftCount :: "int \<Rightarrow> nat" where
  "shiftCount attempt = unat (word_of_int attempt :: 64 word)"

definition defaultBackoff :: "int \<Rightarrow> duration" where
  "defaultBackoff attempt =
     (let d = sint (push_bit (shiftCount attempt) (1 :: 64 word) * 5 * word_of_int Second) in
      if 10 * Minute < d then 10 * Minute else d)"

definition BackoffFor :: "run_error \<Rightarrow> int \<Rightarrow> duration" where
  "BackoffFor e attempt =
     (case e of
        RetryableError _ b \<Rightarrow> if 0 < b then b else defaultBackoff attempt
      | PlainError _ \<Rightarrow> defaultBackoff attempt)"

section \<open>The manager\<close>

datatype outcome = RunSucceeded string | RunFailed run_error

text \<open>
  A goroutine that holds \<^verbatim>\<open>m.mu\<close> in \<^verbatim>\<open>dispatchTask\<close>: it has seen the key held and is about to write
  the status, has written it and is about to enqueue, or has registered the task with a context
  and is about to write that it runs.
\<close>

datatype dispatch = Marking Task | Enqueueing Task | Starting Task nat

text \<open>
  A task's own goroutine: it looks its handler up, is in the handler or has found none, and has
  written the outcome.
\<close>

datatype phase = RunBegun | RunHandled | RunUnhandled | RunDone

record run =
  r_task :: Task
  r_ctx :: nat
  r_sched :: bool
  r_phase :: phase

record Manager =
  m_store :: MemoryStore
  m_handlers :: "string set"
  m_registry :: cancelRegistry
  m_queue :: serialKeyQueue
  m_active :: bool
  m_stopped :: bool
  m_ctxs :: nat
  m_cancelled :: "nat set"
  m_batch :: "Task list"
  m_mu :: "(bool \<times> dispatch) option"
  m_runs :: "run list"
  m_waking :: "string list"
  m_popped :: "string list"
  m_ready :: "Task list"
  m_signals :: "string list"
  m_cancels :: "Task list"
  m_removes :: "Task list"
  m_log :: "string list"

definition NewManager :: "MemoryStore \<Rightarrow> Manager" where
  "NewManager st = \<lparr>m_store = st, m_handlers = {}, m_registry = newCancelRegistry, m_queue = newSerialKeyQueue,
     m_active = False, m_stopped = False, m_ctxs = 0, m_cancelled = {}, m_batch = [], m_mu = None, m_runs = [],
     m_waking = [], m_popped = [], m_ready = [], m_signals = [], m_cancels = [], m_removes = [], m_log = []\<rparr>"

definition Register :: "string \<Rightarrow> Manager \<Rightarrow> (task_error, unit) sum \<times> Manager" where
  "Register typ m =
     (if typ \<in> m_handlers m then (Inl ErrDuplicateHandler, m)
      else (Inr (), m\<lparr>m_handlers := insert typ (m_handlers m)\<rparr>))"

text \<open>\<^verbatim>\<open>Submit\<close>; \<open>i\<close> is what \<^verbatim>\<open>uuid.New\<close> returns.\<close>

definition newTask :: "time \<Rightarrow> string \<Rightarrow> SubmitRequest \<Rightarrow> Task" where
  "newTask now i req = \<lparr>t_ID = i, t_Type = req_Type req, t_Status = StatusPending, t_OwnerType = req_OwnerType req,
     t_OwnerID = req_OwnerID req, t_Source = req_Source req, t_Key = req_Key req, t_Payload = req_Payload req,
     t_Result = [], t_Progress = [], t_Error = [], t_Attempt = 0,
     t_MaxAttempts = (if req_MaxAttempts req \<le> 0 then 1 else req_MaxAttempts req),
     t_ScheduledAt = req_ScheduledAt req, t_StartedAt = None, t_FinishedAt = None, t_CancelledAt = None,
     t_CreatedAt = now, t_UpdatedAt = now, t_Recurrence = [], t_ParentTaskID = []\<rparr>"

definition Submit :: "time \<Rightarrow> string \<Rightarrow> SubmitRequest \<Rightarrow> Manager \<Rightarrow> (task_error, Task) sum \<times> Manager" where
  "Submit now i req m =
     (if req_Type req = [] then (Inl TypeRequired, m)
      else (Inr (newTask now i req), m\<lparr>m_store := store_Create (newTask now i req) (m_store m)\<rparr>))"

text \<open>
  \<^verbatim>\<open>Cancel\<close>: read the task; then signal its context if it runs, or write the status of a task that
  waits and take it out of its queue.
\<close>

definition CancelRead :: "string \<Rightarrow> Manager \<Rightarrow> (task_error, unit) sum \<times> Manager" where
  "CancelRead i m =
     (case store_Get i (m_store m) of
        None \<Rightarrow> (Inl ErrNotFound, m)
      | Some t \<Rightarrow>
          (case t_Status t of
             StatusRunning \<Rightarrow> (Inr (), m\<lparr>m_signals := i # m_signals m\<rparr>)
           | StatusPending \<Rightarrow> (Inr (), m\<lparr>m_cancels := t # m_cancels m\<rparr>)
           | StatusQueued \<Rightarrow> (Inr (), m\<lparr>m_cancels := t # m_cancels m\<rparr>)
           | _ \<Rightarrow> (Inl ErrNotCancellable, m)))"

definition CancelSignal :: "string \<Rightarrow> Manager \<Rightarrow> Manager" where
  "CancelSignal i m =
     (case reg_cancel i (m_registry m) of
        None \<Rightarrow> m\<lparr>m_signals := remove1 i (m_signals m)\<rparr>
      | Some c \<Rightarrow> m\<lparr>m_signals := remove1 i (m_signals m), m_cancelled := insert c (m_cancelled m)\<rparr>)"

definition CancelWrite :: "time \<Rightarrow> string \<Rightarrow> Task \<Rightarrow> Manager \<Rightarrow> Manager" where
  "CancelWrite now reason t m =
     (case UpdateStatus now (t_ID t)
        [F_status StatusCancelled, F_cancelled_at now, F_finished_at now, F_error reason] (m_store m) of
        None \<Rightarrow> m\<lparr>m_cancels := remove1 t (m_cancels m)\<rparr>
      | Some st \<Rightarrow> m\<lparr>m_store := st, m_cancels := remove1 t (m_cancels m),
          m_removes := (if t_Status t = StatusQueued \<and> t_Key t \<noteq> [] then t # m_removes m else m_removes m)\<rparr>)"

definition CancelRemove :: "Task \<Rightarrow> Manager \<Rightarrow> Manager" where
  "CancelRemove t m =
     m\<lparr>m_queue := queue_remove (t_Key t) (t_ID t) (m_queue m), m_removes := remove1 t (m_removes m)\<rparr>"

definition Start :: "time \<Rightarrow> Manager \<Rightarrow> Manager" where
  "Start now m =
     (if m_active m then m
      else m\<lparr>m_store := MarkInterruptedOnStartup now (m_store m), m_active := True\<rparr>)"

definition Stop :: "Manager \<Rightarrow> Manager" where
  "Stop m = (if \<not> m_active m then m else m\<lparr>m_stopped := True, m_active := False\<rparr>)"

definition schedulerBatchSize :: int where "schedulerBatchSize = 50"

definition tick :: "time \<Rightarrow> Manager \<Rightarrow> Manager" where
  "tick now m = m\<lparr>m_batch := FindDueTasks now schedulerBatchSize (m_store m)\<rparr>"

text \<open>
  \<^verbatim>\<open>dispatchTask\<close> up to its first write, then its two branches; \<open>fromSched\<close> tells whether the
  scheduler calls it, with its own context, or a goroutine that wakes a task.
\<close>

definition dispatchTask :: "bool \<Rightarrow> Task \<Rightarrow> Manager \<Rightarrow> Manager" where
  "dispatchTask fromSched t m =
     (if t_Key t \<noteq> [] \<and> isLocked (t_Key t) (m_registry m) then m\<lparr>m_mu := Some (fromSched, Marking t)\<rparr>
      else
        (case reg_register (t_ID t) (t_Key t) (m_ctxs m) (m_registry m) of
           None \<Rightarrow> m\<lparr>m_ctxs := Suc (m_ctxs m), m_cancelled := insert (m_ctxs m) (m_cancelled m)\<rparr>
         | Some reg \<Rightarrow> m\<lparr>m_registry := reg, m_ctxs := Suc (m_ctxs m),
             m_mu := Some (fromSched, Starting t (m_ctxs m))\<rparr>))"

definition markQueued :: "time \<Rightarrow> bool \<Rightarrow> Task \<Rightarrow> Manager \<Rightarrow> Manager" where
  "markQueued now fromSched t m =
     (case UpdateStatus now (t_ID t) [F_status StatusQueued] (m_store m) of
        None \<Rightarrow> m\<lparr>m_mu := None\<rparr>
      | Some st \<Rightarrow> m\<lparr>m_store := st, m_mu := Some (fromSched, Enqueueing t)\<rparr>)"

definition enqueueTask :: "Task \<Rightarrow> Manager \<Rightarrow> Manager" where
  "enqueueTask t m = m\<lparr>m_queue := enqueue (t_Key t) (t_ID t) (m_queue m), m_mu := None\<rparr>"

definition launch :: "time \<Rightarrow> bool \<Rightarrow> Task \<Rightarrow> nat \<Rightarrow> Manager \<Rightarrow> Manager" where
  "launch now fromSched t c m =
     (case UpdateStatus now (t_ID t) [F_status StatusRunning, F_started_at now, F_attempt (t_Attempt t + 1)] (m_store m) of
        None \<Rightarrow> m\<lparr>m_registry := reg_unregister (t_ID t) (t_Key t) (m_registry m), m_mu := None,
          m_cancelled := insert c (m_cancelled m)\<rparr>
      | Some st \<Rightarrow> m\<lparr>m_store := st, m_mu := None, m_log := t_ID t # m_log m,
          m_runs := m_runs m @
            [\<lparr>r_task = t\<lparr>t_Attempt := t_Attempt t + 1, t_Status := StatusRunning, t_StartedAt := Some now\<rparr>,
              r_ctx = c, r_sched = fromSched, r_phase = RunBegun\<rparr>]\<rparr>)"

text \<open>
  \<^verbatim>\<open>runTask\<close>: look the handler up; what is written when it returns depends on whether its context is
  cancelled.
\<close>

definition lookupHandler :: "run list \<Rightarrow> run \<Rightarrow> run list \<Rightarrow> Manager \<Rightarrow> Manager" where
  "lookupHandler rs r rs' m =
     m\<lparr>m_runs := rs @ r\<lparr>r_phase := (if t_Type (r_task r) \<in> m_handlers m then RunHandled else RunUnhandled)\<rparr> # rs'\<rparr>"

definition finalFields :: "time \<Rightarrow> bool \<Rightarrow> bool \<Rightarrow> Task \<Rightarrow> outcome \<Rightarrow> field list" where
  "finalFields now registered ctxErr t result =
     (if \<not> registered then [F_status StatusFailed, F_error ''task: no handler registered for type'', F_finished_at now]
      else
        (case result of
           RunSucceeded r \<Rightarrow> [F_status StatusSucceeded, F_finished_at now, F_result r]
         | RunFailed e \<Rightarrow>
             if ctxErr then
               [F_status StatusCancelled, F_cancelled_at now, F_finished_at now, F_error (error_text e)]
             else if IsRetryable e \<and> t_Attempt t < t_MaxAttempts t then
               [F_status StatusPending, F_scheduled_at (Some (now + BackoffFor e (t_Attempt t))), F_error (error_text e)]
             else [F_status StatusFailed, F_finished_at now, F_error (error_text e)]))"

definition ctxErr :: "run \<Rightarrow> Manager \<Rightarrow> bool" where
  "ctxErr r m \<longleftrightarrow> r_ctx r \<in> m_cancelled m \<or> r_sched r \<and> m_stopped m"

text \<open>
  The rest of \<^verbatim>\<open>runTask\<close>: the final write, then, deferred, cancelling the context and releasing the
  key, and \<^verbatim>\<open>onTaskFinished\<close>: dequeue, read the task, dispatch it if it is still queued.
\<close>

definition finishRun :: "time \<Rightarrow> outcome \<Rightarrow> run list \<Rightarrow> run \<Rightarrow> run list \<Rightarrow> Manager \<Rightarrow> Manager" where
  "finishRun now result rs r rs' m =
     m\<lparr>m_store :=
         (case UpdateStatus now (t_ID (r_task r))
            (finalFields now (r_phase r = RunHandled) (ctxErr r m) (r_task r) result) (m_store m) of
            None \<Rightarrow> m_store m | Some st \<Rightarrow> st),
       m_runs := rs @ r\<lparr>r_phase := RunDone\<rparr> # rs'\<rparr>"

definition releaseRun :: "run list \<Rightarrow> run \<Rightarrow> run list \<Rightarrow> Manager \<Rightarrow> Manager" where
  "releaseRun rs r rs' m =
     m\<lparr>m_cancelled := insert (r_ctx r) (m_cancelled m),
       m_registry := reg_unregister (t_ID (r_task r)) (t_Key (r_task r)) (m_registry m),
       m_runs := rs @ rs',
       m_waking := (if t_Key (r_task r) = [] then m_waking m else m_waking m @ [t_Key (r_task r)])\<rparr>"

definition wakeDequeue :: "string list \<Rightarrow> string \<Rightarrow> string list \<Rightarrow> Manager \<Rightarrow> Manager" where
  "wakeDequeue ks k ks' m =
     (let (i, q) = dequeue k (m_queue m) in
      m\<lparr>m_queue := q, m_waking := ks @ ks', m_popped := (if i = [] then m_popped m else m_popped m @ [i])\<rparr>)"

definition wakeRead :: "string list \<Rightarrow> string \<Rightarrow> string list \<Rightarrow> Manager \<Rightarrow> Manager" where
  "wakeRead is i is' m =
     m\<lparr>m_popped := is @ is',
       m_ready := (case store_Get i (m_store m) of None \<Rightarrow> m_ready m
         | Some t \<Rightarrow> if t_Status t \<noteq> StatusQueued then m_ready m else m_ready m @ [t])\<rparr>"

definition UpdateProgress :: "time \<Rightarrow> run \<Rightarrow> string \<Rightarrow> Manager \<Rightarrow> Manager" where
  "UpdateProgress now r p m =
     (case UpdateStatus now (t_ID (r_task r)) [F_progress p] (m_store m) of None \<Rightarrow> m | Some st \<Rightarrow> m\<lparr>m_store := st\<rparr>)"

section \<open>The steps of the goroutines\<close>

text \<open>
  One step, with one scheduler goroutine.  A tick begins when the previous one has dispatched all
  its tasks.  Submitting needs an identifier no task has, which is what \<^verbatim>\<open>uuid.New\<close> gives.
\<close>

inductive task_step :: "Manager \<Rightarrow> Manager \<Rightarrow> bool" where
  register: "task_step m (snd (Register typ m))"
| submit: "map_of (m_store m) i = None \<Longrightarrow> i \<noteq> [] \<Longrightarrow> task_step m (snd (Submit now i req m))"
| cancel_read: "task_step m (snd (CancelRead i m))"
| cancel_signal: "i \<in> set (m_signals m) \<Longrightarrow> task_step m (CancelSignal i m)"
| cancel_write: "t \<in> set (m_cancels m) \<Longrightarrow> task_step m (CancelWrite now reason t m)"
| cancel_remove: "t \<in> set (m_removes m) \<Longrightarrow> task_step m (CancelRemove t m)"
| stop: "task_step m (Stop m)"
| tick: "m_batch m = [] \<Longrightarrow> \<forall>d. m_mu m \<noteq> Some (True, d) \<Longrightarrow> task_step m (tick now m)"
| dispatch: "m_batch m = t # ts \<Longrightarrow> m_mu m = None \<Longrightarrow>
    task_step m (dispatchTask True t (m\<lparr>m_batch := ts\<rparr>))"
| dispatch_woken: "m_ready m = ts @ t # ts' \<Longrightarrow> m_mu m = None \<Longrightarrow>
    task_step m (dispatchTask False t (m\<lparr>m_ready := ts @ ts'\<rparr>))"
| mark: "m_mu m = Some (f, Marking t) \<Longrightarrow> task_step m (markQueued now f t m)"
| enqueue: "m_mu m = Some (f, Enqueueing t) \<Longrightarrow> task_step m (enqueueTask t m)"
| launch: "m_mu m = Some (f, Starting t c) \<Longrightarrow> task_step m (launch now f t c m)"
| lookup: "m_runs m = rs @ r # rs' \<Longrightarrow> r_phase r = RunBegun \<Longrightarrow> task_step m (lookupHandler rs r rs' m)"
| progress: "r \<in> set (m_runs m) \<Longrightarrow> r_phase r = RunHandled \<Longrightarrow> task_step m (UpdateProgress now r p m)"
| finish: "m_runs m = rs @ r # rs' \<Longrightarrow> r_phase r \<in> {RunHandled, RunUnhandled} \<Longrightarrow>
    task_step m (finishRun now result rs r rs' m)"
| release: "m_runs m = rs @ r # rs' \<Longrightarrow> r_phase r = RunDone \<Longrightarrow> task_step m (releaseRun rs r rs' m)"
| wake_dequeue: "m_waking m = ks @ k # ks' \<Longrightarrow> task_step m (wakeDequeue ks k ks' m)"
| wake_read: "m_popped m = is @ i # is' \<Longrightarrow> task_step m (wakeRead is i is' m)"

text \<open>
  The states of a manager started on what an earlier process left in the store: every task under
  its identifier, and the tasks that wait have attempts left.
\<close>

definition store_ok :: "MemoryStore \<Rightarrow> bool" where
  "store_ok st \<longleftrightarrow> distinct (map fst st) \<and>
     (\<forall>i t. map_of st i = Some t \<longrightarrow> i \<noteq> [] \<and> t_ID t = i \<and> 0 \<le> t_Attempt t \<and> t_Attempt t \<le> t_MaxAttempts t \<and>
        (t_Status t \<in> {StatusPending, StatusQueued} \<longrightarrow> t_Attempt t < t_MaxAttempts t))"

inductive task_reachable :: "MemoryStore \<Rightarrow> Manager \<Rightarrow> bool" for st where
  start: "store_ok st \<Longrightarrow> task_reachable st (Start now (NewManager st))"
| step: "task_reachable st m \<Longrightarrow> task_step m m' \<Longrightarrow> task_reachable st m'"

section \<open>The queue and the store as maps\<close>

lemma queued_setQueue [simp]: "queued (setQueue k ids q) = (queued q)(k := ids)"
  by (auto simp: queued_def setQueue_def fun_eq_iff)

lemma queued_enqueue [simp]: "queued (enqueue k i q) = (queued q)(k := queued q k @ [i])"
  by (auto simp: queued_def enqueue_def fun_eq_iff)

lemma queued_remove: "queued (queue_remove k i q) = (queued q)(k := remove1 i (queued q k))"
  by (auto simp: queue_remove_def remove1_idem)

lemma dequeue_cases:
  "dequeue k q = (case queued q k of [] \<Rightarrow> ([], q) | i # ids \<Rightarrow> (i, setQueue k ids q))"
  by (fact dequeue_def)

lemma setFields_frame [simp]:
  "t_ID (fold setField cols t) = t_ID t" "t_Key (fold setField cols t) = t_Key t"
  "t_MaxAttempts (fold setField cols t) = t_MaxAttempts t" "t_CreatedAt (fold setField cols t) = t_CreatedAt t"
proof -
  have "t_ID (setField f t) = t_ID t \<and> t_Key (setField f t) = t_Key t \<and>
    t_MaxAttempts (setField f t) = t_MaxAttempts t \<and> t_CreatedAt (setField f t) = t_CreatedAt t" for f t
    by (cases f) simp_all
  then show "t_ID (fold setField cols t) = t_ID t" "t_Key (fold setField cols t) = t_Key t"
    "t_MaxAttempts (fold setField cols t) = t_MaxAttempts t" "t_CreatedAt (fold setField cols t) = t_CreatedAt t"
    by (induction cols arbitrary: t) simp_all
qed

definition newAttempt :: "field list \<Rightarrow> int \<Rightarrow> int" where
  "newAttempt cols a = fold (\<lambda>f b. case f of F_attempt n \<Rightarrow> n | _ \<Rightarrow> b) cols a"

definition newStatus :: "field list \<Rightarrow> TaskStatus \<Rightarrow> TaskStatus" where
  "newStatus cols a = fold (\<lambda>f b. case f of F_status n \<Rightarrow> n | _ \<Rightarrow> b) cols a"

lemma setFields_new:
  "t_Attempt (fold setField cols t) = newAttempt cols (t_Attempt t)"
  "t_Status (fold setField cols t) = newStatus cols (t_Status t)"
proof -
  have s: "t_Attempt (setField f t) = (case f of F_attempt n \<Rightarrow> n | _ \<Rightarrow> t_Attempt t)"
    "t_Status (setField f t) = (case f of F_status n \<Rightarrow> n | _ \<Rightarrow> t_Status t)" for f t
    by (cases f; simp)+
  show "t_Attempt (fold setField cols t) = newAttempt cols (t_Attempt t)"
    by (induction cols arbitrary: t) (simp_all add: newAttempt_def s)
  show "t_Status (fold setField cols t) = newStatus cols (t_Status t)"
    by (induction cols arbitrary: t) (simp_all add: newStatus_def s)
qed

text \<open>
  What the invariants need to know of a stored task: its attempts, the maximum and its key, and
  separately its status.
\<close>

definition info :: "MemoryStore \<Rightarrow> string \<Rightarrow> (int \<times> int \<times> string) option" where
  "info st i = map_option (\<lambda>t. (t_Attempt t, t_MaxAttempts t, t_Key t)) (map_of st i)"

definition status :: "MemoryStore \<Rightarrow> string \<Rightarrow> TaskStatus option" where
  "status st i = map_option t_Status (map_of st i)"

definition store_wf :: "MemoryStore \<Rightarrow> bool" where
  "store_wf st \<longleftrightarrow> distinct (map fst st) \<and> (\<forall>i t. map_of st i = Some t \<longrightarrow> t_ID t = i)"

lemma info_None: "info st i = None \<longleftrightarrow> map_of st i = None" by (simp add: info_def)
lemma status_None: "status st i = None \<longleftrightarrow> map_of st i = None" by (simp add: status_def)

lemma UpdateStatus_None: "UpdateStatus now i cols st = None \<longleftrightarrow> map_of st i = None"
  by (simp add: UpdateStatus_def split: option.splits)

lemma UpdateStatus_Some:
  assumes "UpdateStatus now i cols st = Some st'"
  obtains a b k s where "info st i = Some (a, b, k)" "status st i = Some s"
    "info st' = (info st)(i \<mapsto> (newAttempt cols a, b, k))" "status st' = (status st)(i \<mapsto> newStatus cols s)"
    "store_wf st \<Longrightarrow> store_wf st'"
proof -
  from assms obtain t where t: "map_of st i = Some t"
    and st': "st' = AList.update i ((fold setField cols t)\<lparr>t_UpdatedAt := now\<rparr>) st"
    by (auto simp: UpdateStatus_def split: option.splits)
  show thesis
  proof
    show "info st i = Some (t_Attempt t, t_MaxAttempts t, t_Key t)" "status st i = Some (t_Status t)"
      by (simp_all add: info_def status_def t)
    show "info st' = (info st)(i \<mapsto> (newAttempt cols (t_Attempt t), t_MaxAttempts t, t_Key t))"
      "status st' = (status st)(i \<mapsto> newStatus cols (t_Status t))"
      by (auto simp: info_def status_def st' update_conv' setFields_new fun_eq_iff)
    show "store_wf st \<Longrightarrow> store_wf st'"
      using t by (auto simp: store_wf_def st' update_conv' distinct_update)
  qed
qed

section \<open>At most one task runs per serialization key\<close>

text \<open>
  A task holds its key from its registration to its release: while it is being started and while its
  goroutine lives.
\<close>

definition starting :: "(bool \<times> dispatch) option \<Rightarrow> Task list" where
  "starting mu = (case mu of Some (_, Starting t _) \<Rightarrow> [t] | _ \<Rightarrow> [])"

definition holders :: "Manager \<Rightarrow> Task list" where
  "holders m = filter (\<lambda>t. t_Key t \<noteq> []) (map r_task (m_runs m) @ starting (m_mu m))"

definition lock_table :: "Task list \<Rightarrow> (string \<rightharpoonup> string) \<Rightarrow> bool" where
  "lock_table ts locks \<longleftrightarrow> distinct (map t_Key ts) \<and>
     (\<forall>k i. locks k = Some i \<longleftrightarrow> (\<exists>t\<in>set ts. t_Key t = k \<and> t_ID t = i))"

definition key_inv :: "Manager \<Rightarrow> bool" where
  "key_inv m \<longleftrightarrow> lock_table (holders m) (reg_locks (m_registry m))"

lemma lock_table_free: "lock_table ts locks \<Longrightarrow> locks (t_Key t) = None \<Longrightarrow> t_Key t \<notin> t_Key ` set ts"
  by (auto simp: lock_table_def) (metis option.distinct(1))

lemma lock_table_add:
  assumes "lock_table ts locks" and "locks (t_Key t) = None"
  shows "lock_table (ts @ [t]) (locks(t_Key t \<mapsto> t_ID t))"
proof -
  have "t_Key u \<noteq> t_Key t" if "u \<in> set ts" for u using lock_table_free [OF assms] that by (metis imageI)
  then have "t_Key u \<noteq> t_Key t" "t_Key t \<noteq> t_Key u" if "u \<in> set ts" for u using that by metis+
  then show ?thesis using assms(1) unfolding lock_table_def by auto
qed

lemma lock_table_del:
  assumes "lock_table (xs @ t # ys) locks"
  shows "locks (t_Key t) = Some (t_ID t)" "lock_table (xs @ ys) (locks(t_Key t := None))"
proof -
  have d: "distinct (map t_Key (xs @ t # ys))"
    and l: "locks k = Some i \<longleftrightarrow> (\<exists>u\<in>set (xs @ t # ys). t_Key u = k \<and> t_ID u = i)" for k i
    using assms by (simp_all add: lock_table_def)
  show "locks (t_Key t) = Some (t_ID t)" by (subst l) simp
  have other: "t_Key u \<noteq> t_Key t" if "u \<in> set (xs @ ys)" for u
    using d imageI [OF that, of t_Key] by (auto simp: image_iff)
  have "(locks(t_Key t := None)) k = Some i \<longleftrightarrow> (\<exists>u\<in>set (xs @ ys). t_Key u = k \<and> t_ID u = i)" for k i
  proof (cases "k = t_Key t")
    case False
    then show ?thesis using l [of k i] by auto
  qed (use other in auto)
  then show "lock_table (xs @ ys) (locks(t_Key t := None))" using d by (simp add: lock_table_def)
qed

lemma starting_simps [simp]:
  "starting None = []" "starting (Some (f, Marking t)) = []" "starting (Some (f, Enqueueing t)) = []"
  "starting (Some (f, Starting t c)) = [t]"
  by (simp_all add: starting_def)

lemmas step_defs = Register_def Submit_def CancelRead_def CancelSignal_def CancelWrite_def CancelRemove_def Stop_def
  tick_def markQueued_def enqueueTask_def lookupHandler_def UpdateProgress_def finishRun_def wakeDequeue_def wakeRead_def

lemma dispatchTask_locks:
  assumes "key_inv m" and "m_mu m = None"
  shows "key_inv (dispatchTask f t m)"
proof (cases "t_Key t = [] \<or> \<not> isLocked (t_Key t) (m_registry m)")
  case True
  then show ?thesis
    using assms lock_table_add [of "holders m" "reg_locks (m_registry m)" t]
    by (auto simp: key_inv_def dispatchTask_def reg_register_def holders_def isLocked_def)
qed (use assms in \<open>auto simp: key_inv_def dispatchTask_def holders_def\<close>)

lemma release_locks:
  assumes "lock_table (filter (\<lambda>t. t_Key t \<noteq> []) (xs @ t # ys)) (reg_locks r)"
  shows "lock_table (filter (\<lambda>t. t_Key t \<noteq> []) (xs @ ys)) (reg_locks (reg_unregister (t_ID t) (t_Key t) r))"
  using assms lock_table_del [of "filter (\<lambda>t. t_Key t \<noteq> []) xs" t "filter (\<lambda>t. t_Key t \<noteq> []) ys" "reg_locks r"]
  by (cases "t_Key t = []") (simp_all add: reg_unregister_def)

lemma launch_locks:
  assumes "key_inv m" and "m_mu m = Some (f, Starting t c)"
  shows "key_inv (launch now f t c m)"
proof (cases "UpdateStatus now (t_ID t) [F_status StatusRunning, F_started_at now, F_attempt (t_Attempt t + 1)] (m_store m)")
  case None
  have "lock_table (filter (\<lambda>t. t_Key t \<noteq> []) (map r_task (m_runs m) @ t # [])) (reg_locks (m_registry m))"
    using assms by (simp add: key_inv_def holders_def)
  from release_locks [OF this] None show ?thesis by (simp add: launch_def key_inv_def holders_def)
next
  case (Some st)
  then show ?thesis
    using assms by (auto simp: launch_def key_inv_def holders_def lock_table_def)
qed

lemma task_step_locks: "task_step m m' \<Longrightarrow> key_inv m \<Longrightarrow> key_inv m'"
proof (induction rule: task_step.induct)
  case (dispatch m t ts)
  then show ?case by (intro dispatchTask_locks) (simp_all add: key_inv_def holders_def)
next
  case (dispatch_woken m ts t ts')
  then show ?case by (intro dispatchTask_locks) (simp_all add: key_inv_def holders_def)
next
  case (launch m f t c now)
  then show ?case by (intro launch_locks)
next
  case (release m rs r rs')
  then have "lock_table (filter (\<lambda>t. t_Key t \<noteq> []) (map r_task rs @ r_task r # (map r_task rs' @ starting (m_mu m))))
      (reg_locks (m_registry m))"
    by (simp add: key_inv_def holders_def)
  from release_locks [OF this] show ?case by (simp add: releaseRun_def key_inv_def holders_def)
qed (auto simp: key_inv_def holders_def step_defs split: option.splits TaskStatus.splits prod.splits)

lemma reachable_locks: "task_reachable st m \<Longrightarrow> key_inv m"
proof (induction rule: task_reachable.induct)
  case (start now)
  then show ?case
    by (simp add: key_inv_def holders_def lock_table_def Start_def NewManager_def newCancelRegistry_def)
qed (rule task_step_locks)

section \<open>Every run is one attempt\<close>

text \<open>
  A task that is to run is in one place: in the scheduler's tick, in the dispatch that holds the
  mutex, in the queue of its key, on its way from there to a dispatch, or running.  \<open>fresh\<close> counts
  the places where it still has the status pending, \<open>taken\<close> the others.
\<close>

fun slotFresh :: "(bool \<times> dispatch) option \<Rightarrow> Task list" where
  "slotFresh None = []"
| "slotFresh (Some (f, Enqueueing t)) = []"
| "slotFresh (Some (f, Marking t)) = (if f then [t] else [])"
| "slotFresh (Some (f, Starting t c)) = (if f then [t] else [])"

fun slotTaken :: "(bool \<times> dispatch) option \<Rightarrow> Task list" where
  "slotTaken None = []"
| "slotTaken (Some (f, Enqueueing t)) = [t]"
| "slotTaken (Some (f, Marking t)) = (if f then [] else [t])"
| "slotTaken (Some (f, Starting t c)) = (if f then [] else [t])"

definition activeRuns :: "run list \<Rightarrow> Task list" where
  "activeRuns rs = map r_task (filter (\<lambda>r. r_phase r \<noteq> RunDone) rs)"

definition fresh :: "Manager \<Rightarrow> Task list" where
  "fresh m = m_batch m @ slotFresh (m_mu m)"

definition waitingIDs :: "(string \<rightharpoonup> int \<times> int \<times> string) \<Rightarrow> serialKeyQueue \<Rightarrow> string \<Rightarrow> string list" where
  "waitingIDs tab q i = (case tab i of None \<Rightarrow> [] | Some (a, b, k) \<Rightarrow> queued q k)"

definition taken :: "Manager \<Rightarrow> string \<Rightarrow> string list" where
  "taken m i = map t_ID (slotTaken (m_mu m)) @ waitingIDs (info (m_store m)) (m_queue m) i @ m_popped m @ map t_ID (m_ready m) @
     map t_ID (activeRuns (m_runs m))"

text \<open>
  The invariant, in parts: the store is well-formed and its attempts count the launches; an
  identifier is in one place at most, and only in a fresh one while its task is pending; what a
  goroutine holds of a task is what the store has; a queue holds tasks of its key.
\<close>

definition attempts_ok :: "MemoryStore \<Rightarrow> string list \<Rightarrow> bool" where
  "attempts_ok st ids \<longleftrightarrow> store_wf st \<and>
     (\<forall>i a b k. info st i = Some (a, b, k) \<longrightarrow> i \<noteq> [] \<and> int (count_list ids i) \<le> a \<and> a \<le> b \<and>
        (status st i \<in> {Some StatusPending, Some StatusQueued} \<longrightarrow> a < b)) \<and>
     (\<forall>i. info st i = None \<longrightarrow> count_list ids i = 0)"

definition one_place :: "Manager \<Rightarrow> bool" where
  "one_place m \<longleftrightarrow> (\<forall>i. count_list (map t_ID (fresh m)) i + count_list (taken m i) i \<le> 1 \<and>
     (status (m_store m) i = Some StatusPending \<longrightarrow> count_list (taken m i) i = 0))"

definition known :: "MemoryStore \<Rightarrow> Task \<Rightarrow> bool" where
  "known st t \<longleftrightarrow> info st (t_ID t) = Some (t_Attempt t, t_MaxAttempts t, t_Key t)"

definition snapshots_ok :: "Manager \<Rightarrow> bool" where
  "snapshots_ok m \<longleftrightarrow>
     (\<forall>t\<in>set (fresh m @ slotTaken (m_mu m) @ m_ready m). known (m_store m) t \<and> t_Attempt t < t_MaxAttempts t) \<and>
     (\<forall>t\<in>set (activeRuns (m_runs m)). known (m_store m) t) \<and>
     (\<forall>i\<in>set (m_popped m). info (m_store m) i \<noteq> None)"

definition queues_ok :: "Manager \<Rightarrow> bool" where
  "queues_ok m \<longleftrightarrow> (\<forall>k i. i \<in> set (queued (m_queue m) k) \<longrightarrow>
     i \<noteq> [] \<and> (\<exists>a b. info (m_store m) i = Some (a, b, k)))"

definition task_inv :: "Manager \<Rightarrow> bool" where
  "task_inv m \<longleftrightarrow> attempts_ok (m_store m) (m_log m) \<and> one_place m \<and> snapshots_ok m \<and> queues_ok m"

lemma task_inv_cong:
  assumes "info (m_store m') = info (m_store m)" "status (m_store m') = status (m_store m)"
    "store_wf (m_store m) \<Longrightarrow> store_wf (m_store m')" "m_log m' = m_log m" "m_batch m' = m_batch m" "m_mu m' = m_mu m"
    "m_queue m' = m_queue m" "m_popped m' = m_popped m" "m_ready m' = m_ready m"
    "activeRuns (m_runs m') = activeRuns (m_runs m)" "task_inv m"
  shows "task_inv m'"
proof -
  have "fresh m' = fresh m" "taken m' = taken m" using assms by (auto simp: fresh_def taken_def)
  then show ?thesis
    using assms by (simp add: task_inv_def attempts_ok_def one_place_def snapshots_ok_def queues_ok_def known_def)
qed


lemma count_zero: "count_list xs i = 0 \<longleftrightarrow> i \<notin> set xs"
  by (induction xs) auto

lemma count_distinct: "distinct xs \<Longrightarrow> count_list xs i \<le> 1"
  by (induction xs) (auto simp: count_zero)

lemma count_remove1: "count_list (remove1 j xs) i \<le> count_list xs i"
  by (induction xs) auto

lemma activeRuns_simps [simp]:
  "activeRuns [] = []" "activeRuns (rs @ rs') = activeRuns rs @ activeRuns rs'"
  "activeRuns (r # rs) = (if r_phase r = RunDone then activeRuns rs else r_task r # activeRuns rs)"
  by (simp_all add: activeRuns_def)

lemma UpdateStatus_info:
  assumes "UpdateStatus now i cols st = Some st'" and "\<forall>a. newAttempt cols a = a"
  obtains s where "status st i = Some s" "info st' = info st" "status st' = (status st)(i \<mapsto> newStatus cols s)"
    "store_wf st \<Longrightarrow> store_wf st'"
proof -
  obtain a b k s where u: "info st i = Some (a, b, k)" "status st i = Some s"
    "info st' = (info st)(i \<mapsto> (newAttempt cols a, b, k))" "status st' = (status st)(i \<mapsto> newStatus cols s)"
    "store_wf st \<Longrightarrow> store_wf st'"
    using UpdateStatus_Some [OF assms(1)] by metis
  moreover have "info st' = info st" using u(1,3) assms(2) by auto
  ultimately show thesis using that by blast
qed

lemma task_inv_status:
  assumes inv: "task_inv m"
    and "info (m_store m') = info (m_store m)" "store_wf (m_store m')" "m_log m' = m_log m"
    and "\<forall>i a b k. status (m_store m') i \<in> {Some StatusPending, Some StatusQueued} \<longrightarrow>
      info (m_store m) i = Some (a, b, k) \<longrightarrow> a < b"
    and "\<forall>i. count_list (map t_ID (fresh m')) i + count_list (taken m' i) i \<le>
      count_list (map t_ID (fresh m)) i + count_list (taken m i) i"
    and "\<forall>i. status (m_store m') i = Some StatusPending \<longrightarrow> count_list (taken m' i) i = 0"
    and "set (fresh m' @ slotTaken (m_mu m') @ m_ready m') \<subseteq> set (fresh m @ slotTaken (m_mu m) @ m_ready m)"
    and "set (activeRuns (m_runs m')) \<subseteq> set (activeRuns (m_runs m))" "set (m_popped m') \<subseteq> set (m_popped m)"
    and "\<forall>k. set (queued (m_queue m') k) \<subseteq> set (queued (m_queue m) k)"
  shows "task_inv m'"
  unfolding task_inv_def
proof (intro conjI)
  show "attempts_ok (m_store m') (m_log m')" using assms(1-5) by (simp add: task_inv_def attempts_ok_def)
  show "one_place m'" using inv assms(6,7) unfolding task_inv_def one_place_def by (meson le_trans)
  show "snapshots_ok m'" using inv assms(2,8-10) unfolding task_inv_def snapshots_ok_def known_def by (metis subsetD)
  show "queues_ok m'" using inv assms(2,11) unfolding task_inv_def queues_ok_def by (metis subsetD)
qed

lemma waiting_attempts:
  "task_inv m \<Longrightarrow> status (m_store m) i \<in> {Some StatusPending, Some StatusQueued} \<Longrightarrow>
   info (m_store m) i = Some (a, b, k) \<Longrightarrow> a < b"
  unfolding task_inv_def attempts_ok_def by blast

lemma waiting_all:
  "task_inv m \<Longrightarrow> \<forall>i a b k. status (m_store m) i \<in> {Some StatusPending, Some StatusQueued} \<longrightarrow>
     info (m_store m) i = Some (a, b, k) \<longrightarrow> a < b"
  unfolding task_inv_def attempts_ok_def by blast

lemma inv_cancel_write:
  assumes "task_inv m" shows "task_inv (CancelWrite now reason t m)"
proof (cases "UpdateStatus now (t_ID t)
    [F_status StatusCancelled, F_cancelled_at now, F_finished_at now, F_error reason] (m_store m)")
  case None
  show ?thesis by (rule task_inv_cong [OF _ _ _ _ _ _ _ _ _ _ assms]) (simp_all add: CancelWrite_def None)
next
  case (Some st)
  obtain s where u: "status (m_store m) (t_ID t) = Some s" "info st = info (m_store m)"
    "status st = (status (m_store m))(t_ID t \<mapsto> StatusCancelled)" "store_wf (m_store m) \<Longrightarrow> store_wf st"
    by (rule UpdateStatus_info [OF Some]) (simp_all add: newAttempt_def newStatus_def)
  have wf: "store_wf (m_store m)" using assms by (simp add: task_inv_def attempts_ok_def)
  show ?thesis
    by (rule task_inv_status [OF assms])
       (use u wf assms waiting_all [OF assms] in \<open>auto simp: CancelWrite_def Some fresh_def taken_def
          task_inv_def one_place_def split: if_splits\<close>)
qed


lemma inv_places:
  "task_inv m \<Longrightarrow> count_list (map t_ID (fresh m)) i + count_list (taken m i) i \<le> 1"
  "task_inv m \<Longrightarrow> status (m_store m) i = Some StatusPending \<Longrightarrow> count_list (taken m i) i = 0"
  "task_inv m \<Longrightarrow> store_wf (m_store m)"
  by (simp_all add: task_inv_def one_place_def attempts_ok_def)

lemma places_all:
  "task_inv m \<Longrightarrow> \<forall>i. count_list (map t_ID (fresh m)) i + count_list (taken m i) i \<le> 1"
  "task_inv m \<Longrightarrow> \<forall>i. status (m_store m) i = Some StatusPending \<longrightarrow> count_list (taken m i) i = 0"
  "task_inv m \<Longrightarrow> store_wf (m_store m)"
  using inv_places by blast+

lemma inv_cancel_remove:
  assumes "task_inv m" shows "task_inv (CancelRemove t m)"
proof (rule task_inv_status [OF assms])
  let ?w = "waitingIDs (info (m_store m))" and ?m' = "CancelRemove t m"
  have le: "count_list (?w (queue_remove (t_Key t) (t_ID t) (m_queue m)) i) i \<le> count_list (?w (m_queue m) i) i" for i
    by (auto simp: waitingIDs_def queued_remove count_remove1 split: option.split)
  show "\<forall>i. count_list (map t_ID (fresh ?m')) i + count_list (taken ?m' i) i \<le>
      count_list (map t_ID (fresh m)) i + count_list (taken m i) i"
    using le by (simp add: CancelRemove_def fresh_def taken_def)
  show "\<forall>i. status (m_store ?m') i = Some StatusPending \<longrightarrow> count_list (taken ?m' i) i = 0"
  proof (intro allI impI)
    fix i assume "status (m_store ?m') i = Some StatusPending"
    then have "count_list (taken m i) i = 0" by (intro inv_places(2) [OF assms]) (simp add: CancelRemove_def)
    then show "count_list (taken ?m' i) i = 0" using le [of i] by (simp add: CancelRemove_def taken_def)
  qed
  show "\<forall>k. set (queued (m_queue ?m') k) \<subseteq> set (queued (m_queue m) k)"
    using set_remove1_subset [of "t_ID t"] by (auto simp: CancelRemove_def queued_remove)
qed (use places_all [OF assms] waiting_all [OF assms] in \<open>auto simp: CancelRemove_def fresh_def\<close>)

lemma dispatchTask_frame:
  obtains (dropped) "m_mu (dispatchTask f t m) = m_mu m"
  | (taken) d where "m_mu (dispatchTask f t m) = Some (f, d)" "d = Marking t \<or> d = Starting t (m_ctxs m)"
proof -
  have "m_mu (dispatchTask f t m) = m_mu m \<or> m_mu (dispatchTask f t m) = Some (f, Marking t) \<or>
    m_mu (dispatchTask f t m) = Some (f, Starting t (m_ctxs m))"
    by (simp add: dispatchTask_def split: option.split)
  then show thesis using dropped taken by blast
qed

lemma dispatchTask_frame_simps [simp]:
  "m_store (dispatchTask f t m) = m_store m" "m_log (dispatchTask f t m) = m_log m"
  "m_queue (dispatchTask f t m) = m_queue m" "m_popped (dispatchTask f t m) = m_popped m"
  "m_ready (dispatchTask f t m) = m_ready m" "m_batch (dispatchTask f t m) = m_batch m"
  "m_runs (dispatchTask f t m) = m_runs m"
  by (simp_all add: dispatchTask_def split: option.split)

lemma inv_dispatch:
  assumes "task_inv m" and "m_batch m = t # ts" and "m_mu m = None"
  shows "task_inv (dispatchTask True t (m\<lparr>m_batch := ts\<rparr>))"
proof -
  note p = places_all [OF assms(1)]
  note w = waiting_all [OF assms(1)]
  show ?thesis
    by (cases rule: dispatchTask_frame [of True t "m\<lparr>m_batch := ts\<rparr>"]; rule task_inv_status [OF assms(1)])
       (use assms(2,3) w p in \<open>auto simp: fresh_def taken_def split: if_splits\<close>)
qed

lemma inv_dispatch_woken:
  assumes "task_inv m" and "m_ready m = ts @ t # ts'" and "m_mu m = None"
  shows "task_inv (dispatchTask False t (m\<lparr>m_ready := ts @ ts'\<rparr>))"
proof -
  note p = places_all [OF assms(1)]
  note w = waiting_all [OF assms(1)]
  show ?thesis
    by (cases rule: dispatchTask_frame [of False t "m\<lparr>m_ready := ts @ ts'\<rparr>"]; rule task_inv_status [OF assms(1)])
       (use assms(2,3) w p in \<open>auto simp: fresh_def taken_def split: if_splits\<close>)
qed

lemma slot_snapshot:
  assumes "task_inv m" and "t \<in> set (slotFresh (m_mu m) @ slotTaken (m_mu m))"
  shows "info (m_store m) (t_ID t) = Some (t_Attempt t, t_MaxAttempts t, t_Key t)" "t_Attempt t < t_MaxAttempts t"
  using assms by (auto simp: task_inv_def snapshots_ok_def known_def fresh_def)

lemma inv_mark:
  assumes inv: "task_inv m" and mu: "m_mu m = Some (f, Marking t)"
  shows "task_inv (markQueued now f t m)"
proof (cases "UpdateStatus now (t_ID t) [F_status StatusQueued] (m_store m)")
  case None
  then show ?thesis
    by (intro task_inv_status [OF inv])
       (use mu places_all [OF inv] waiting_all [OF inv] in
         \<open>auto simp: markQueued_def fresh_def taken_def split: if_splits\<close>)
next
  case (Some st)
  obtain s where u: "status (m_store m) (t_ID t) = Some s" "info st = info (m_store m)"
    "status st = (status (m_store m))(t_ID t \<mapsto> StatusQueued)" "store_wf (m_store m) \<Longrightarrow> store_wf st"
    by (rule UpdateStatus_info [OF Some]) (simp_all add: newAttempt_def newStatus_def)
  have t: "info (m_store m) (t_ID t) = Some (t_Attempt t, t_MaxAttempts t, t_Key t)" "t_Attempt t < t_MaxAttempts t"
    using slot_snapshot [OF inv, of t] mu by (cases f; simp)+
  show ?thesis
    by (rule task_inv_status [OF inv])
       (use mu u t places_all [OF inv] waiting_all [OF inv] in
         \<open>auto simp: markQueued_def Some fresh_def taken_def split: if_splits\<close>)
qed

lemma inv_finish:
  assumes inv: "task_inv m" and rs: "m_runs m = rs @ r # rs'" and ph: "r_phase r \<in> {RunHandled, RunUnhandled}"
  shows "task_inv (finishRun now result rs r rs' m)"
proof -
  let ?t = "r_task r" and ?cols = "finalFields now (r_phase r = RunHandled) (ctxErr r m) (r_task r) result"
  have k: "info (m_store m) (t_ID ?t) = Some (t_Attempt ?t, t_MaxAttempts ?t, t_Key ?t)"
    using inv rs ph by (auto simp: task_inv_def snapshots_ok_def known_def)
  then obtain st where st: "UpdateStatus now (t_ID ?t) ?cols (m_store m) = Some st"
    using UpdateStatus_None [of now "t_ID ?t" ?cols "m_store m"] info_None [of "m_store m" "t_ID ?t"] by fastforce
  obtain s where u: "status (m_store m) (t_ID ?t) = Some s" "info st = info (m_store m)"
    "status st = (status (m_store m))(t_ID ?t \<mapsto> newStatus ?cols s)" "store_wf (m_store m) \<Longrightarrow> store_wf st"
    by (rule UpdateStatus_info [OF st]) (auto simp: newAttempt_def finalFields_def split: outcome.split)
  have w: "newStatus ?cols s \<noteq> StatusQueued" "newStatus ?cols s = StatusPending \<Longrightarrow> t_Attempt ?t < t_MaxAttempts ?t"
    by (auto simp: newStatus_def finalFields_def split: outcome.splits if_splits)
  have p: "count_list (map t_ID (fresh m)) i + count_list (taken m i) i \<le> 1" for i by (rule inv_places [OF inv])
  show ?thesis
  proof (rule task_inv_status [OF inv])
    show "\<forall>i. status (m_store (finishRun now result rs r rs' m)) i = Some StatusPending \<longrightarrow>
        count_list (taken (finishRun now result rs r rs' m) i) i = 0"
    proof (intro allI impI)
      fix i assume a: "status (m_store (finishRun now result rs r rs' m)) i = Some StatusPending"
      show "count_list (taken (finishRun now result rs r rs' m) i) i = 0"
      proof (cases "i = t_ID ?t")
        case True
        then show ?thesis using p [of i] rs ph u(2) by (auto simp: finishRun_def st taken_def)
      next
        case False
        then have "status (m_store m) i = Some StatusPending" using a u(3) by (simp add: finishRun_def st)
        from inv_places(2) [OF inv this] show ?thesis using rs ph u(2) False by (auto simp: finishRun_def st taken_def)
      qed
    qed
  qed (use rs ph u k w inv_places(3) [OF inv] waiting_all [OF inv] in
      \<open>auto simp: finishRun_def st fresh_def taken_def split: if_splits\<close>)
qed


lemma known_ids:
  assumes "task_inv m" and "info (m_store m) i = None"
  shows "i \<notin> set (map t_ID (fresh m))" "i \<notin> set (map t_ID (slotTaken (m_mu m)))" "i \<notin> set (m_popped m)"
    "i \<notin> set (map t_ID (m_ready m))" "i \<notin> set (map t_ID (activeRuns (m_runs m)))" "i \<notin> set (queued (m_queue m) k)"
proof -
  show "i \<notin> set (map t_ID (fresh m))" "i \<notin> set (map t_ID (slotTaken (m_mu m)))" "i \<notin> set (m_popped m)"
    "i \<notin> set (map t_ID (m_ready m))" "i \<notin> set (map t_ID (activeRuns (m_runs m)))"
    using assms by (auto simp: task_inv_def snapshots_ok_def known_def)
  show "i \<notin> set (queued (m_queue m) k)"
    using assms unfolding task_inv_def queues_ok_def by (metis option.distinct(1))
qed

lemma inv_submit:
  assumes inv: "task_inv m" and new: "map_of (m_store m) i = None" and "i \<noteq> []"
  shows "task_inv (snd (Submit now i req m))"
proof (cases "req_Type req = []")
  case False
  let ?m' = "snd (Submit now i req m)" and ?t = "newTask now i req"
  have st: "info (m_store ?m') = (info (m_store m))(i \<mapsto> (0, t_MaxAttempts ?t, req_Key req))"
    "status (m_store ?m') = (status (m_store m))(i \<mapsto> StatusPending)"
    using False by (auto simp: Submit_def store_Create_def newTask_def info_def status_def update_conv' fun_eq_iff)
  have pos: "0 < t_MaxAttempts ?t" by (simp add: newTask_def)
  have same: "m_log ?m' = m_log m" "m_mu ?m' = m_mu m" "m_batch ?m' = m_batch m" "m_queue ?m' = m_queue m"
    "m_popped ?m' = m_popped m" "m_ready ?m' = m_ready m" "m_runs ?m' = m_runs m" "fresh ?m' = fresh m"
    using False by (simp_all add: Submit_def fresh_def)
  have none: "info (m_store m) i = None" using new by (simp add: info_None)
  note absent = known_ids [OF inv none]
  have w: "waitingIDs (info (m_store ?m')) q j = (if j = i then queued q (req_Key req) else waitingIDs (info (m_store m)) q j)" for q j
    by (simp add: st waitingIDs_def)
  have zero: "count_list (map t_ID (fresh m)) i + count_list (taken ?m' i) i = 0"
    using absent(1-5) absent(6) [of "req_Key req"] by (simp add: taken_def w same count_zero)
  have other: "taken ?m' j = taken m j" if "j \<noteq> i" for j using that by (simp add: taken_def w same)
  have wf: "store_wf (m_store ?m')"
    using inv_places(3) [OF inv] new False
    by (auto simp: store_wf_def Submit_def store_Create_def newTask_def update_conv' distinct_update)
  show ?thesis unfolding task_inv_def
  proof (intro conjI)
    have "count_list (m_log m) i = 0" using inv none by (simp add: task_inv_def attempts_ok_def)
    moreover have "attempts_ok (m_store m) (m_log m)" using inv by (simp add: task_inv_def)
    ultimately show "attempts_ok (m_store ?m') (m_log ?m')"
      using wf pos \<open>i \<noteq> []\<close> unfolding attempts_ok_def st same by auto
    show "one_place ?m'"
      unfolding one_place_def same st
    proof (intro allI)
      fix j
      show "count_list (map t_ID (fresh m)) j + count_list (taken ?m' j) j \<le> 1 \<and>
        (((status (m_store m))(i \<mapsto> StatusPending)) j = Some StatusPending \<longrightarrow> count_list (taken ?m' j) j = 0)"
        using zero other [of j] inv_places(1,2) [OF inv, of j] by (cases "j = i") simp_all
    qed
    have k: "known (m_store m) u \<Longrightarrow> known (m_store ?m') u" for u using none by (auto simp: known_def st)
    have "snapshots_ok m" using inv by (simp add: task_inv_def)
    then show "snapshots_ok ?m'" using k unfolding snapshots_ok_def same st by auto
    have "queues_ok m" using inv by (simp add: task_inv_def)
    then show "queues_ok ?m'" using none unfolding queues_ok_def same st by auto (metis option.distinct(1))+
  qed
qed (use inv in \<open>simp add: Submit_def\<close>)

lemma FindDueTasks_facts:
  "set (FindDueTasks now n st) \<subseteq> {t \<in> set (map snd st). isDue now t}"
  "distinct (map t_ID (map snd st)) \<Longrightarrow> distinct (map t_ID (FindDueTasks now n st))"
proof -
  let ?l = "sort_key t_CreatedAt (filter (isDue now) (map snd st))"
  obtain k where k: "FindDueTasks now n st = take k ?l"
    by (cases "n > 0 \<and> int (length ?l) > n") (auto simp: FindDueTasks_def Let_def intro: that [of "length ?l"])
  show "set (FindDueTasks now n st) \<subseteq> {t \<in> set (map snd st). isDue now t}"
    using set_take_subset [of k ?l] by (auto simp: k)
  assume "distinct (map t_ID (map snd st))"
  then have "distinct (map t_ID (filter (isDue now) (map snd st)))" by (rule distinct_map_filter)
  then have "distinct (map t_ID ?l)" by (simp add: distinct_map)
  then show "distinct (map t_ID (FindDueTasks now n st))" by (simp add: k take_map [symmetric])
qed

lemma inv_tick:
  assumes inv: "task_inv m" and idle: "m_batch m = []" "\<forall>d. m_mu m \<noteq> Some (True, d)"
  shows "task_inv (tick now m)"
proof -
  let ?due = "FindDueTasks now schedulerBatchSize (m_store m)"
  have wf: "store_wf (m_store m)" by (rule inv_places(3) [OF inv])
  then have ids: "map t_ID (map snd (m_store m)) = map fst (m_store m)"
    by (auto simp: store_wf_def intro!: map_cong dest: map_of_is_SomeI)
  then have dist: "distinct (map t_ID ?due)"
    using FindDueTasks_facts(2) wf by (metis store_wf_def)
  have due: "map_of (m_store m) (t_ID t) = Some t \<and> t_Status t = StatusPending" if "t \<in> set ?due" for t
  proof -
    from that FindDueTasks_facts(1) obtain i where i: "(i, t) \<in> set (m_store m)" "isDue now t" by force
    then have "map_of (m_store m) i = Some t" using wf by (simp add: store_wf_def)
    then show ?thesis using wf i(2) by (auto simp: store_wf_def isDue_def)
  qed
  have "slotFresh (m_mu m) = []"
    using idle(2) by (cases "m_mu m" rule: slotFresh.cases) auto
  then have f: "fresh m = []" "fresh (tick now m) = ?due" by (simp_all add: fresh_def idle tick_def)
  have t: "taken (tick now m) = taken m" by (simp add: taken_def tick_def fun_eq_iff)
  have zero: "count_list (taken m i) i = 0" if "i \<in> set (map t_ID ?due)" for i
    using that due by (auto intro!: inv_places(2) [OF inv] simp: status_def)
  show ?thesis unfolding task_inv_def
  proof (intro conjI)
    show "attempts_ok (m_store (tick now m)) (m_log (tick now m))" using inv by (simp add: task_inv_def tick_def)
    show "one_place (tick now m)"
      unfolding one_place_def t f
    proof (intro allI conjI)
      fix i
      show "count_list (map t_ID ?due) i + count_list (taken m i) i \<le> 1"
        using zero [of i] count_distinct [OF dist, of i] inv_places(1) [OF inv, of i]
        by (cases "i \<in> set (map t_ID ?due)") (simp_all add: count_zero [THEN iffD2])
      show "status (m_store (tick now m)) i = Some StatusPending \<longrightarrow> count_list (taken m i) i = 0"
        using inv_places(2) [OF inv] by (simp add: tick_def)
    qed
    have "known (m_store m) u \<and> t_Attempt u < t_MaxAttempts u" if "u \<in> set ?due" for u
      using due [OF that] waiting_attempts [OF inv, of "t_ID u"] by (simp add: known_def info_def status_def)
    moreover have "m_mu (tick now m) = m_mu m" "m_ready (tick now m) = m_ready m" "m_runs (tick now m) = m_runs m"
      "m_popped (tick now m) = m_popped m" "m_store (tick now m) = m_store m"
      by (simp_all add: tick_def)
    moreover have "snapshots_ok m" using inv by (simp add: task_inv_def)
    ultimately show "snapshots_ok (tick now m)" unfolding snapshots_ok_def f by auto
    show "queues_ok (tick now m)" using inv by (simp add: task_inv_def queues_ok_def tick_def)
  qed
qed


lemma inv_enqueue:
  assumes inv: "task_inv m" and mu: "m_mu m = Some (f, Enqueueing t)"
  shows "task_inv (enqueueTask t m)"
  unfolding task_inv_def
proof (intro conjI)
  let ?m' = "enqueueTask t m" and ?w = "waitingIDs (info (m_store m))"
  have k: "info (m_store m) (t_ID t) = Some (t_Attempt t, t_MaxAttempts t, t_Key t)"
    using slot_snapshot [OF inv, of t] mu by simp
  have w: "count_list (?w (enqueue (t_Key t) (t_ID t) (m_queue m)) i) i =
      count_list (?w (m_queue m) i) i + (if i = t_ID t then 1 else 0)" for i
    using k by (auto simp: waitingIDs_def split: option.split)
  have taken: "count_list (taken ?m' i) i = count_list (taken m i) i" for i
    using w [of i] mu by (simp add: enqueueTask_def taken_def)
  have f: "fresh ?m' = fresh m" using mu by (simp add: enqueueTask_def fresh_def)
  show "attempts_ok (m_store ?m') (m_log ?m')" using inv by (simp add: task_inv_def enqueueTask_def)
  show "one_place ?m'" using inv unfolding task_inv_def one_place_def taken f by (simp add: enqueueTask_def)
  show "snapshots_ok ?m'" using inv mu unfolding task_inv_def snapshots_ok_def f by (simp add: enqueueTask_def)
  have "t_ID t \<noteq> []" using inv k unfolding task_inv_def attempts_ok_def by blast
  then show "queues_ok ?m'"
    using inv k unfolding task_inv_def queues_ok_def by (auto simp: enqueueTask_def split: if_splits)
qed

lemma inv_wake_read:
  assumes inv: "task_inv m" and pop: "m_popped m = is @ i # is'"
  shows "task_inv (wakeRead is i is' m)"
proof -
  let ?m' = "wakeRead is i is' m"
  obtain t where t: "map_of (m_store m) i = Some t" "t_ID t = i"
    using inv pop by (auto simp: task_inv_def snapshots_ok_def attempts_ok_def store_wf_def info_def)
  then have k: "known (m_store m) t" by (simp add: known_def info_def)
  have a: "t_Attempt t < t_MaxAttempts t" if "t_Status t = StatusQueued"
    using waiting_attempts [OF inv, of i] t that by (simp add: info_def status_def)
  have ready: "m_ready ?m' = m_ready m @ (if t_Status t = StatusQueued then [t] else [])"
    by (simp add: wakeRead_def store_Get_def t)
  have taken: "count_list (taken ?m' j) j \<le> count_list (taken m j) j" for j
    using t(2) pop by (auto simp: taken_def ready) (simp_all add: wakeRead_def)
  have f: "fresh ?m' = fresh m" by (simp add: wakeRead_def fresh_def)
  show ?thesis unfolding task_inv_def
  proof (intro conjI)
    show "attempts_ok (m_store ?m') (m_log ?m')" using inv by (simp add: task_inv_def wakeRead_def)
    show "one_place ?m'" unfolding one_place_def f
    proof (intro allI conjI impI)
      fix j
      show "count_list (map t_ID (fresh m)) j + count_list (taken ?m' j) j \<le> 1"
        using taken [of j] inv_places(1) [OF inv, of j] by simp
      assume "status (m_store ?m') j = Some StatusPending"
      then show "count_list (taken ?m' j) j = 0"
        using taken [of j] inv_places(2) [OF inv, of j] by (simp add: wakeRead_def)
    qed
    have "snapshots_ok m" using inv by (simp add: task_inv_def)
    then show "snapshots_ok ?m'"
      unfolding snapshots_ok_def f ready using k a pop by (auto simp: wakeRead_def)
    show "queues_ok ?m'" using inv by (simp add: task_inv_def queues_ok_def wakeRead_def)
  qed
qed

lemma inv_wake_dequeue:
  assumes inv: "task_inv m"
  shows "task_inv (wakeDequeue ks k ks' m)"
proof (cases "queued (m_queue m) k")
  case Nil
  show ?thesis by (rule task_inv_cong [OF _ _ _ _ _ _ _ _ _ _ inv]) (simp_all add: wakeDequeue_def dequeue_def Nil)
next
  case (Cons i ids)
  let ?m' = "wakeDequeue ks k ks' m" and ?w = "waitingIDs (info (m_store m))"
  have q: "queues_ok m" using inv by (simp add: task_inv_def)
  then have i: "i \<noteq> []" "\<exists>a b. info (m_store m) i = Some (a, b, k)" using Cons unfolding queues_ok_def by (metis list.set_intros(1))+
  have m': "m_queue ?m' = setQueue k ids (m_queue m)" "m_popped ?m' = m_popped m @ [i]"
    using i(1) by (simp_all add: wakeDequeue_def dequeue_def Cons)
  have same: "m_store ?m' = m_store m" "m_log ?m' = m_log m" "m_mu ?m' = m_mu m" "m_ready ?m' = m_ready m"
    "m_runs ?m' = m_runs m" "fresh ?m' = fresh m"
    by (simp_all add: wakeDequeue_def split_beta fresh_def)
  have w: "count_list (?w (setQueue k ids (m_queue m)) j) j + (if j = i then 1 else 0) = count_list (?w (m_queue m) j) j" for j
    using i(2) Cons by (auto simp: waitingIDs_def split: option.split)
  have taken: "count_list (taken ?m' j) j = count_list (taken m j) j" for j
    using w [of j] by (auto simp: taken_def m' same)
  show ?thesis unfolding task_inv_def
  proof (intro conjI)
    show "attempts_ok (m_store ?m') (m_log ?m')" using inv by (simp add: task_inv_def same)
    show "one_place ?m'" using inv unfolding task_inv_def one_place_def taken same by simp
    show "snapshots_ok ?m'" using inv i(2) unfolding task_inv_def snapshots_ok_def same m' by auto
    show "queues_ok ?m'"
      unfolding queues_ok_def m' same
    proof (intro allI impI)
      fix k' j assume "j \<in> set (queued (setQueue k ids (m_queue m)) k')"
      then have "j \<in> set (queued (m_queue m) k')" using Cons by (auto split: if_splits)
      then show "j \<noteq> [] \<and> (\<exists>a b. info (m_store m) j = Some (a, b, k'))" using q unfolding queues_ok_def by blast
    qed
  qed
qed

lemma inv_launch:
  assumes inv: "task_inv m" and mu: "m_mu m = Some (f, Starting t c)"
  shows "task_inv (launch now f t c m)"
proof -
  let ?m' = "launch now f t c m" and ?i = "t_ID t"
  let ?cols = "[F_status StatusRunning, F_started_at now, F_attempt (t_Attempt t + 1)]"
  have t: "info (m_store m) ?i = Some (t_Attempt t, t_MaxAttempts t, t_Key t)" "t_Attempt t < t_MaxAttempts t"
    using slot_snapshot [OF inv, of t] mu by (cases f; simp)+
  then obtain st where st: "UpdateStatus now ?i ?cols (m_store m) = Some st"
    using UpdateStatus_None [of now ?i ?cols "m_store m"] info_None [of "m_store m" ?i] by fastforce
  obtain s where u: "info st = (info (m_store m))(?i \<mapsto> (t_Attempt t + 1, t_MaxAttempts t, t_Key t))"
    "status st = (status (m_store m))(?i \<mapsto> StatusRunning)" "store_wf (m_store m) \<Longrightarrow> store_wf st"
    by (rule UpdateStatus_Some [OF st]) (use t(1) in \<open>auto simp: newAttempt_def newStatus_def\<close>)
  define r where "r = \<lparr>r_task = t\<lparr>t_Attempt := t_Attempt t + 1, t_Status := StatusRunning, t_StartedAt := Some now\<rparr>,
    r_ctx = c, r_sched = f, r_phase = RunBegun\<rparr>"
  have r: "t_ID (r_task r) = ?i" "r_phase r \<noteq> RunDone" "t_Attempt (r_task r) = t_Attempt t + 1"
    "t_MaxAttempts (r_task r) = t_MaxAttempts t" "t_Key (r_task r) = t_Key t"
    by (simp_all add: r_def)
  have m': "m_store ?m' = st" "m_log ?m' = ?i # m_log m" "m_mu ?m' = None" "m_runs ?m' = m_runs m @ [r]"
    "m_batch ?m' = m_batch m" "m_queue ?m' = m_queue m" "m_popped ?m' = m_popped m" "m_ready ?m' = m_ready m"
    by (simp_all add: launch_def st r_def)
  have w: "waitingIDs (info st) = waitingIDs (info (m_store m))"
    using t(1) by (auto simp: fun_eq_iff waitingIDs_def u split: option.split)
  have p: "count_list (map t_ID (fresh ?m')) j + count_list (taken ?m' j) j \<le>
      count_list (map t_ID (fresh m)) j + count_list (taken m j) j" for j
    using mu r(1,2) by (auto simp: fresh_def taken_def m' w)
  have only: "count_list (map t_ID (fresh ?m')) ?i + count_list (taken ?m' ?i) ?i \<le> 1"
    using p [of ?i] inv_places(1) [OF inv, of ?i] by simp
  have "count_list (map t_ID (activeRuns (m_runs ?m'))) ?i \<ge> 1" using r by (simp add: m')
  then have "count_list (map t_ID (fresh ?m')) ?i = 0" "count_list (map t_ID (m_ready m)) ?i = 0"
    "count_list (map t_ID (activeRuns (m_runs m))) ?i = 0"
    using only r by (simp_all add: taken_def m')
  then have away: "t_ID v \<noteq> ?i" if "v \<in> set (fresh ?m' @ m_ready m @ activeRuns (m_runs m))" for v
    using that unfolding count_zero by (auto simp: image_iff)
  have other: "count_list (taken ?m' j) j = count_list (taken m j) j" if "j \<noteq> ?i" for j
    using mu r(1,2) that by (auto simp: taken_def m' w)
  show ?thesis unfolding task_inv_def
  proof (intro conjI)
    have "attempts_ok (m_store m) (m_log m)" using inv by (simp add: task_inv_def)
    moreover have "int (count_list (m_log m) ?i) \<le> t_Attempt t" using calculation t(1) by (simp add: attempts_ok_def)
    ultimately show "attempts_ok (m_store ?m') (m_log ?m')"
      using u t unfolding attempts_ok_def m' by auto
    show "one_place ?m'" unfolding one_place_def
    proof (intro allI conjI impI)
      fix j
      show "count_list (map t_ID (fresh ?m')) j + count_list (taken ?m' j) j \<le> 1"
        using p [of j] inv_places(1) [OF inv, of j] by simp
      assume "status (m_store ?m') j = Some StatusPending"
      then have "j \<noteq> ?i" "status (m_store m) j = Some StatusPending" by (auto simp: m' u split: if_splits)
      then show "count_list (taken ?m' j) j = 0" using other inv_places(2) [OF inv, of j] by simp
    qed
    have sub: "set (fresh ?m') \<subseteq> set (fresh m)" by (auto simp: fresh_def m')
    have keep: "known st v" if "known (m_store m) v" "t_ID v \<noteq> ?i" for v using that by (simp add: known_def u)
    have "snapshots_ok m" using inv by (simp add: task_inv_def)
    then show "snapshots_ok ?m'"
      using sub away keep r t unfolding snapshots_ok_def m' by (auto simp: known_def u)
    have "queues_ok m" using inv by (simp add: task_inv_def)
    then show "queues_ok ?m'" using t(1) unfolding queues_ok_def m' u by fastforce
  qed
qed

lemma task_step_inv: "task_step m m' \<Longrightarrow> task_inv m \<Longrightarrow> task_inv m'"
proof (induction rule: task_step.induct)
  case (progress r m now p)
  show ?case
  proof (cases "UpdateStatus now (t_ID (r_task r)) [F_progress p] (m_store m)")
    case (Some st)
    obtain s where u: "status (m_store m) (t_ID (r_task r)) = Some s" "info st = info (m_store m)"
      "status st = (status (m_store m))(t_ID (r_task r) \<mapsto> s)" "store_wf (m_store m) \<Longrightarrow> store_wf st"
      by (rule UpdateStatus_info [OF Some]) (simp_all add: newAttempt_def newStatus_def)
    then have "status st = status (m_store m)" by auto
    with u show ?thesis
      by (intro task_inv_cong [OF _ _ _ _ _ _ _ _ _ _ progress(3)]) (simp_all add: UpdateProgress_def Some)
  qed (use progress(3) in \<open>simp add: UpdateProgress_def\<close>)
qed (blast intro: inv_submit inv_tick inv_dispatch inv_dispatch_woken inv_mark inv_enqueue inv_launch inv_finish
      inv_wake_dequeue inv_wake_read inv_cancel_write inv_cancel_remove |
    (erule task_inv_cong [rotated -1];
     simp add: Register_def CancelRead_def CancelSignal_def Stop_def lookupHandler_def releaseRun_def
       split: option.split TaskStatus.split))+

section \<open>What holds in every state\<close>

lemma map_of_interrupted:
  "map_of (MarkInterruptedOnStartup now st) i = map_option (interrupted now) (map_of st i)"
  unfolding MarkInterruptedOnStartup_def by (simp add: map_of_map)

lemma interrupted_simps [simp]:
  "t_ID (interrupted now t) = t_ID t" "t_Attempt (interrupted now t) = t_Attempt t"
  "t_MaxAttempts (interrupted now t) = t_MaxAttempts t" "t_Key (interrupted now t) = t_Key t"
  by (simp_all add: interrupted_def split: TaskStatus.split)

lemma interrupted_status:
  "t_Status (interrupted now t) = (case t_Status t of StatusRunning \<Rightarrow> StatusInterrupted
     | StatusQueued \<Rightarrow> StatusPending | s \<Rightarrow> s)"
  by (simp add: interrupted_def split: TaskStatus.split)

lemma start_inv: "store_ok st \<Longrightarrow> task_inv (Start now (NewManager st))"
proof -
  assume ok: "store_ok st"
  let ?st = "MarkInterruptedOnStartup now st"
  have wf: "store_wf ?st"
    using ok by (auto simp: store_wf_def store_ok_def map_of_interrupted MarkInterruptedOnStartup_def case_prod_beta comp_def)
  have "i \<noteq> [] \<and> 0 \<le> a \<and> a \<le> b \<and> (status ?st i \<in> {Some StatusPending, Some StatusQueued} \<longrightarrow> a < b)"
    if "info ?st i = Some (a, b, k)" for i a b k
  proof -
    from that obtain t where t: "map_of st i = Some t" "a = t_Attempt t" "b = t_MaxAttempts t"
      by (auto simp: info_def map_of_interrupted)
    have "i \<noteq> [] \<and> 0 \<le> t_Attempt t \<and> t_Attempt t \<le> t_MaxAttempts t \<and>
        (t_Status t \<in> {StatusPending, StatusQueued} \<longrightarrow> t_Attempt t < t_MaxAttempts t)"
      using ok t(1) unfolding store_ok_def by blast
    then show ?thesis
      using t by (simp add: status_def map_of_interrupted interrupted_status split: TaskStatus.splits)
  qed
  with wf show ?thesis
    by (auto simp: Start_def NewManager_def task_inv_def attempts_ok_def one_place_def snapshots_ok_def queues_ok_def
        fresh_def taken_def waitingIDs_def queued_def newSerialKeyQueue_def split: option.split)
qed

lemma reachable_inv: "task_reachable st m \<Longrightarrow> task_inv m"
  by (induction rule: task_reachable.induct) (auto intro: start_inv task_step_inv)

lemma reachable_held:
  "task_reachable st m \<Longrightarrow> lock_table (holders m) (reg_locks (m_registry m))"
  using reachable_locks by (simp add: key_inv_def)

lemma distinct_counts: "(\<forall>i. count_list xs i \<le> 1) \<Longrightarrow> distinct xs"
proof (induction xs)
  case (Cons x xs)
  have "count_list xs i \<le> 1" for i using Cons.prems [rule_format, of i] by (auto split: if_splits)
  moreover have "x \<notin> set xs" using Cons.prems [rule_format, of x] by (simp add: count_zero)
  ultimately show ?case using Cons.IH by simp
qed simp

text \<open>
  C12 (safety): tasks of one serialization key never run at the same time.  However the
  goroutines interleave, the tasks whose goroutine lives, from the launch until the key is released,
  have distinct non-empty keys, and the lock of each such key names the task that holds it.
\<close>

theorem one_run_per_key:
  assumes "task_reachable st m"
  shows "distinct (filter (\<lambda>k. k \<noteq> []) (map (\<lambda>r. t_Key (r_task r)) (m_runs m))) \<and>
    (\<forall>r\<in>set (m_runs m). t_Key (r_task r) \<noteq> [] \<longrightarrow> lockedBy (t_Key (r_task r)) (m_registry m) = t_ID (r_task r))"
proof
  note l = reachable_held [OF assms]
  have "map t_Key (holders m) = filter (\<lambda>k. k \<noteq> []) (map (\<lambda>r. t_Key (r_task r)) (m_runs m)) @
      map t_Key (filter (\<lambda>t. t_Key t \<noteq> []) (starting (m_mu m)))"
    by (simp add: holders_def filter_map comp_def)
  with l show "distinct (filter (\<lambda>k. k \<noteq> []) (map (\<lambda>r. t_Key (r_task r)) (m_runs m)))"
    by (simp add: lock_table_def)
  show "\<forall>r\<in>set (m_runs m). t_Key (r_task r) \<noteq> [] \<longrightarrow> lockedBy (t_Key (r_task r)) (m_registry m) = t_ID (r_task r)"
  proof (intro ballI impI)
    fix r assume "r \<in> set (m_runs m)" "t_Key (r_task r) \<noteq> []"
    then have "r_task r \<in> set (holders m)" by (simp add: holders_def)
    then have "reg_locks (m_registry m) (t_Key (r_task r)) = Some (t_ID (r_task r))"
      using l unfolding lock_table_def by blast
    then show "lockedBy (t_Key (r_task r)) (m_registry m) = t_ID (r_task r)" by (simp add: lockedBy_def)
  qed
qed

text \<open>
  C13 (invariant): a task is never run more often than its maximum of attempts, and never twice at
  the same time.  In every reachable state the launches of a task are at most its recorded
  attempts, these are at most its maximum, and the tasks in their handlers are distinct.
\<close>

theorem launches_bounded:
  assumes "task_reachable st m"
  shows "distinct (map (\<lambda>r. t_ID (r_task r)) (filter (\<lambda>r. r_phase r \<noteq> RunDone) (m_runs m))) \<and>
    (\<forall>i t. map_of (m_store m) i = Some t \<longrightarrow>
       int (count_list (m_log m) i) \<le> t_Attempt t \<and> t_Attempt t \<le> t_MaxAttempts t)"
proof
  note inv = reachable_inv [OF assms]
  have "count_list (map t_ID (activeRuns (m_runs m))) i \<le> 1" for i
    using inv_places(1) [OF inv, of i] by (simp add: taken_def)
  then have "distinct (map t_ID (activeRuns (m_runs m)))" by (blast intro: distinct_counts)
  then show "distinct (map (\<lambda>r. t_ID (r_task r)) (filter (\<lambda>r. r_phase r \<noteq> RunDone) (m_runs m)))"
    by (simp add: activeRuns_def comp_def)
  show "\<forall>i t. map_of (m_store m) i = Some t \<longrightarrow>
      int (count_list (m_log m) i) \<le> t_Attempt t \<and> t_Attempt t \<le> t_MaxAttempts t"
    using inv by (auto simp: task_inv_def attempts_ok_def info_def)
qed

section \<open>The retry delay\<close>

lemma signed_bound: "sint (w :: 64 word) < 2 ^ 63" using sint_lt [of w] by simp

lemma defaultBackoff_small:
  assumes "0 \<le> a" and "a \<le> 30"
  shows "defaultBackoff a = min (2 ^ nat a * (5 * Second)) (10 * Minute)"
proof -
  have c: "shiftCount a = nat a"
    using assms by (simp add: shiftCount_def unat_eq_nat_uint uint_word_of_int take_bit_int_eq_self)
  have p: "push_bit (nat a) (1 :: 64 word) * 5 * word_of_int Second = word_of_int (2 ^ nat a * (5 * Second))"
    by (simp add: push_bit_eq_mult Second_def)
  have "(2::int) ^ nat a \<le> 2 ^ 30" using assms by (intro power_increasing) auto
  then have lt: "2 ^ nat a * (5 * Second) < 2 ^ 63" by (simp add: Second_def)
  have ge: "- (2 ^ 63) \<le> 2 ^ nat a * (5 * Second)" by (rule order_trans [of _ 0]) (simp_all add: Second_def)
  have v: "sint (word_of_int (2 ^ nat a * (5 * Second)) :: 64 word) = 2 ^ nat a * (5 * Second)"
    using signed_take_bit_int_eq_self [OF ge lt] by (subst sint_sbintrunc') simp
  show ?thesis unfolding defaultBackoff_def Let_def c p v by (simp add: min_def)
qed

text \<open>
  The delay before a retry.  An explicit positive delay is used as it is; otherwise
  the delay after attempt \<open>a\<close> is 5 seconds doubled \<open>a\<close> times, at most 10 minutes, for every attempt up
  to the thirtieth, and never above 10 minutes for any attempt.
\<close>

theorem backoff_bounds:
  "BackoffFor e a =
     (case e of RetryableError _ b \<Rightarrow> if 0 < b then b else defaultBackoff a | PlainError _ \<Rightarrow> defaultBackoff a) \<and>
   defaultBackoff a \<le> 10 * Minute \<and>
   (0 \<le> a \<and> a \<le> 30 \<longrightarrow> defaultBackoff a = min (2 ^ nat a * (5 * Second)) (10 * Minute) \<and> 5 * Second \<le> defaultBackoff a)"
proof (intro conjI impI)
  show "BackoffFor e a =
     (case e of RetryableError _ b \<Rightarrow> if 0 < b then b else defaultBackoff a | PlainError _ \<Rightarrow> defaultBackoff a)"
    by (cases e) (simp_all add: BackoffFor_def)
  show "defaultBackoff a \<le> 10 * Minute" by (simp add: defaultBackoff_def Let_def)
  assume a: "0 \<le> a \<and> a \<le> 30"
  then show "defaultBackoff a = min (2 ^ nat a * (5 * Second)) (10 * Minute)" by (intro defaultBackoff_small) auto
  have "1 \<le> (2::int) ^ nat a" by simp
  then have "5 * Second \<le> 2 ^ nat a * (5 * Second)" by (simp add: Second_def)
  then show "5 * Second \<le> defaultBackoff a" using a by (simp add: defaultBackoff_small Second_def Minute_def)
qed


section \<open>The scheduler's choice\<close>

lemma sorted_key_take:
  assumes "t \<in> set (take n (sort_key f xs))" and "u \<in> set xs" and "u \<notin> set (take n (sort_key f xs))"
  shows "f t \<le> f u"
proof -
  let ?l = "sort_key f xs"
  have "u \<in> set ?l" using assms(2) by simp
  then have "u \<in> set (take n ?l @ drop n ?l)" by simp
  then have "u \<in> set (drop n ?l)" using assms(3) by (simp only: set_append) blast
  moreover have "sorted (map f (take n ?l @ drop n ?l))" by simp
  ultimately show ?thesis using assms(1) unfolding map_append sorted_append by auto
qed

text \<open>
  The scheduler takes the oldest due tasks.  \<open>FindDueTasks\<close> gives, by age, stored tasks that
  are pending and due, at most \<open>limit\<close> of them; a due task is left out only when the limit is
  reached, and then it is not older than any that is taken.
\<close>

theorem due_tasks_oldest_first:
  assumes "0 < limit"
  shows "sorted (map t_CreatedAt (FindDueTasks now limit st)) \<and> int (length (FindDueTasks now limit st)) \<le> limit \<and>
    set (FindDueTasks now limit st) \<subseteq> {t \<in> set (map snd st). isDue now t} \<and>
    (\<forall>u\<in>set (map snd st). isDue now u \<and> u \<notin> set (FindDueTasks now limit st) \<longrightarrow>
       int (length (FindDueTasks now limit st)) = limit \<and>
       (\<forall>t\<in>set (FindDueTasks now limit st). t_CreatedAt t \<le> t_CreatedAt u))"
proof -
  let ?xs = "filter (isDue now) (map snd st)"
  have f: "FindDueTasks now limit st = take (nat limit) (sort_key t_CreatedAt ?xs)"
    using assms by (auto simp: FindDueTasks_def Let_def)
  have "sorted (map t_CreatedAt (take (nat limit) (sort_key t_CreatedAt ?xs)))"
    by (simp flip: take_map add: sorted_wrt_take)
  moreover have "int (length (FindDueTasks now limit st)) = limit"
    if "u \<in> set (map snd st)" "isDue now u" "u \<notin> set (FindDueTasks now limit st)" for u
  proof (rule ccontr)
    assume "int (length (FindDueTasks now limit st)) \<noteq> limit"
    then have "length (sort_key t_CreatedAt ?xs) \<le> nat limit" using assms unfolding f by (simp add: min_def split: if_splits)
    then have "set (FindDueTasks now limit st) = set ?xs" by (simp add: f)
    then show False using that by simp
  qed
  moreover have "t_CreatedAt t \<le> t_CreatedAt u"
    if "u \<in> set (map snd st)" "isDue now u" "u \<notin> set (FindDueTasks now limit st)" "t \<in> set (FindDueTasks now limit st)" for t u
    using sorted_key_take [of t "nat limit" t_CreatedAt ?xs u] that by (simp add: f)
  ultimately show ?thesis
    using assms FindDueTasks_facts(1) [of now limit st] unfolding f by (auto simp: min_def)
qed

section \<open>A lost wake-up\<close>

text \<open>
  Two tasks of one key.  The second is dispatched while the first holds the key; before it is
  marked queued and enqueued, the first releases the key and finds its queue empty.  Nothing is
  left that would ever dispatch the second: it is queued, its key is free, no goroutine is at work,
  and the scheduler only looks at pending tasks.
\<close>

definition sampleTask :: "string \<Rightarrow> time \<Rightarrow> Task" where
  "sampleTask i created = \<lparr>t_ID = i, t_Type = ''job'', t_Status = StatusPending, t_OwnerType = [], t_OwnerID = [],
     t_Source = [], t_Key = ''k'', t_Payload = [], t_Result = [], t_Progress = [], t_Error = [], t_Attempt = 0,
     t_MaxAttempts = 1, t_ScheduledAt = None, t_StartedAt = None, t_FinishedAt = None, t_CancelledAt = None,
     t_CreatedAt = created, t_UpdatedAt = created, t_Recurrence = [], t_ParentTaskID = []\<rparr>"

definition pairStore :: MemoryStore where
  "pairStore = [(''a'', sampleTask ''a'' 1), (''b'', sampleTask ''b'' 2)]"

definition startedPair :: Manager where
  "startedPair = tick 3 (snd (Register ''job'' (Start 3 (NewManager pairStore))))"

definition sampleRun :: "phase \<Rightarrow> run" where
  "sampleRun p = \<lparr>r_task = (sampleTask ''a'' 1)\<lparr>t_Attempt := 1, t_Status := StatusRunning, t_StartedAt := Some 4\<rparr>,
     r_ctx = 0, r_sched = True, r_phase = p\<rparr>"

definition runningPair :: Manager where
  "runningPair = lookupHandler [] (sampleRun RunBegun) []
     (launch 4 True (sampleTask ''a'' 1) 0
        (dispatchTask True (sampleTask ''a'' 1) (startedPair\<lparr>m_batch := [sampleTask ''b'' 2]\<rparr>)))"

lemma pairStore_ok: "store_ok pairStore"
  by (auto simp: store_ok_def pairStore_def sampleTask_def split: if_splits)

lemma startedPair_simps:
  "startedPair = (NewManager pairStore)\<lparr>m_handlers := {''job''}, m_active := True,
     m_batch := [sampleTask ''a'' 1, sampleTask ''b'' 2]\<rparr>"
  by (simp add: startedPair_def tick_def Register_def Start_def NewManager_def pairStore_def MarkInterruptedOnStartup_def
      interrupted_def sampleTask_def FindDueTasks_def schedulerBatchSize_def isDue_def)

lemma startedPair_reachable: "task_reachable pairStore startedPair"
proof -
  let ?m = "snd (Register ''job'' (Start 3 (NewManager pairStore)))"
  have "task_reachable pairStore ?m"
    by (intro task_reachable.step [OF task_reachable.start task_step.register] pairStore_ok)
  then show ?thesis unfolding startedPair_def
    by (rule task_reachable.step [OF _ task_step.tick])
       (simp_all add: Register_def Start_def NewManager_def)
qed

lemmas manager_eval = NewManager_def newCancelRegistry_def newSerialKeyQueue_def dispatchTask_def reg_register_def
  isLocked_def launch_def UpdateStatus_def pairStore_def sampleTask_def sampleRun_def lookupHandler_def

lemma runningPair_simps:
  "m_runs runningPair = [sampleRun RunHandled]" "m_batch runningPair = [sampleTask ''b'' 2]"
  "m_mu runningPair = None" "m_handlers runningPair = {''job''}" "m_queue runningPair = Map.empty"
  "m_waking runningPair = []" "m_popped runningPair = []" "m_ready runningPair = []"
  "m_registry runningPair = \<lparr>reg_running = [''a'' \<mapsto> 0], reg_locks = [''k'' \<mapsto> ''a'']\<rparr>"
  "m_cancelled runningPair = {}" "m_stopped runningPair = False" "m_log runningPair = [''a'']"
  "m_store runningPair = [(''a'', (sampleTask ''a'' 1)\<lparr>t_Status := StatusRunning, t_StartedAt := Some 4,
      t_Attempt := 1, t_UpdatedAt := 4\<rparr>), (''b'', sampleTask ''b'' 2)]"
  by (simp_all add: runningPair_def startedPair_simps manager_eval)

lemma runningPair_reachable: "task_reachable pairStore runningPair"
proof -
  let ?d = "dispatchTask True (sampleTask ''a'' 1) (startedPair\<lparr>m_batch := [sampleTask ''b'' 2]\<rparr>)"
  let ?l = "launch 4 True (sampleTask ''a'' 1) 0 ?d"
  have "task_reachable pairStore ?d"
    by (rule task_reachable.step [OF startedPair_reachable task_step.dispatch])
       (simp_all add: startedPair_simps NewManager_def)
  then have "task_reachable pairStore ?l"
    by (rule task_reachable.step [OF _ task_step.launch])
       (simp add: startedPair_simps manager_eval)
  then show ?thesis unfolding runningPair_def
    by (rule task_reachable.step [OF _ task_step.lookup])
       (simp_all add: startedPair_simps manager_eval)
qed

theorem one_run_per_key_witness:
  "distinct (filter (\<lambda>k. k \<noteq> []) (map (\<lambda>r. t_Key (r_task r)) (m_runs runningPair))) \<and>
   m_runs runningPair \<noteq> [] \<and> lockedBy ''k'' (m_registry runningPair) = ''a''"
  using one_run_per_key [OF runningPair_reachable]
  by (simp add: runningPair_simps sampleRun_def sampleTask_def)

theorem launches_bounded_witness:
  "count_list (m_log runningPair) ''a'' = 1 \<and>
   (\<exists>t. map_of (m_store runningPair) ''a'' = Some t \<and> 1 \<le> t_Attempt t \<and> t_Attempt t \<le> t_MaxAttempts t)"
  using launches_bounded [OF runningPair_reachable] by (simp add: runningPair_simps sampleTask_def)

theorem backoff_bounds_witness:
  "BackoffFor (PlainError ''timeout'') 3 = 40 * Second \<and> BackoffFor (PlainError ''timeout'') 9 = 10 * Minute"
  using backoff_bounds [of "PlainError ''timeout''" 3] backoff_bounds [of "PlainError ''timeout''" 9]
  by (simp add: Second_def Minute_def)

theorem due_tasks_oldest_first_witness:
  "FindDueTasks 3 1 pairStore = [sampleTask ''a'' 1]"
proof -
  have d: "isDue 3 (sampleTask i c)" for i c by (simp add: isDue_def sampleTask_def)
  have "int (length (FindDueTasks 3 1 pairStore)) \<le> 1"
    "set (FindDueTasks 3 1 pairStore) \<subseteq> {sampleTask ''a'' 1, sampleTask ''b'' 2}"
    "sampleTask ''a'' 1 \<notin> set (FindDueTasks 3 1 pairStore) \<Longrightarrow> length (FindDueTasks 3 1 pairStore) = 1 \<and>
      (\<forall>t\<in>set (FindDueTasks 3 1 pairStore). t_CreatedAt t \<le> 1)"
    using due_tasks_oldest_first [of 1 3 pairStore] d by (auto simp: pairStore_def sampleTask_def)
  then show ?thesis by (cases "FindDueTasks 3 1 pairStore") (auto simp: sampleTask_def)
qed

definition idle :: "Manager \<Rightarrow> bool" where
  "idle m \<longleftrightarrow> m_batch m = [] \<and> m_mu m = None \<and> m_runs m = [] \<and> m_waking m = [] \<and> m_popped m = [] \<and> m_ready m = []"

lemma wakeup_lost:
  "\<exists>m t. task_reachable pairStore m \<and> idle m \<and> map_of (m_store m) ''b'' = Some t \<and> t_Status t = StatusQueued \<and>
     queued (m_queue m) ''k'' = [''b''] \<and> \<not> isLocked ''k'' (m_registry m) \<and> \<not> isDue now t"
proof -
  let ?b = "sampleTask ''b'' 2"
  define f where "f = finishRun 5 (RunSucceeded ''done'') [] (sampleRun RunHandled) [] runningPair"
  define d where "d = dispatchTask True ?b (f\<lparr>m_batch := []\<rparr>)"
  define r where "r = releaseRun [] (sampleRun RunDone) [] d"
  define w where "w = wakeDequeue [] ''k'' [] r"
  define q where "q = markQueued 6 True ?b w"
  define e where "e = enqueueTask ?b q"
  note chain = finishRun_def finalFields_def releaseRun_def reg_unregister_def wakeDequeue_def dequeue_def queued_def
    markQueued_def enqueueTask_def enqueue_def
  have "task_reachable pairStore f"
    unfolding f_def by (rule task_reachable.step [OF runningPair_reachable task_step.finish])
      (simp_all add: runningPair_simps sampleRun_def)
  moreover have f: "m_batch f = [?b]" "m_mu f = None" "m_runs f = [sampleRun RunDone]" "m_queue f = Map.empty"
    "m_waking f = []" "m_popped f = []" "m_ready f = []" "map_of (m_store f) ''b'' = Some ?b"
    "m_registry f = \<lparr>reg_running = [''a'' \<mapsto> 0], reg_locks = [''k'' \<mapsto> ''a'']\<rparr>"
    by (simp_all add: f_def finishRun_def finalFields_def runningPair_simps sampleRun_def UpdateStatus_def)
      (simp add: sampleTask_def)
  ultimately have "task_reachable pairStore d"
    unfolding d_def by (intro task_reachable.step [OF _ task_step.dispatch]) simp_all
  moreover have d: "m_batch d = []" "m_mu d = Some (True, Marking ?b)" "m_runs d = [sampleRun RunDone]"
    "m_queue d = Map.empty" "m_waking d = []" "m_popped d = []" "m_ready d = []" "map_of (m_store d) ''b'' = Some ?b"
    "m_registry d = m_registry f"
    using f by (simp_all add: d_def dispatchTask_def isLocked_def) (simp_all add: sampleTask_def)
  ultimately have "task_reachable pairStore r"
    unfolding r_def by (intro task_reachable.step [OF _ task_step.release]) (simp_all add: sampleRun_def)
  moreover have r: "m_batch r = []" "m_mu r = Some (True, Marking ?b)" "m_runs r = []" "m_queue r = Map.empty"
    "m_waking r = [''k'']" "m_popped r = []" "m_ready r = []" "map_of (m_store r) ''b'' = Some ?b"
    "\<not> isLocked ''k'' (m_registry r)"
    using d f by (simp_all add: r_def releaseRun_def reg_unregister_def sampleRun_def isLocked_def)
      (simp_all add: sampleTask_def)
  ultimately have "task_reachable pairStore w"
    unfolding w_def by (intro task_reachable.step [OF _ task_step.wake_dequeue]) simp_all
  moreover have w: "m_batch w = []" "m_mu w = Some (True, Marking ?b)" "m_runs w = []" "m_queue w = Map.empty"
    "m_waking w = []" "m_popped w = []" "m_ready w = []" "map_of (m_store w) ''b'' = Some ?b"
    "\<not> isLocked ''k'' (m_registry w)"
    using r by (simp_all add: w_def wakeDequeue_def dequeue_def queued_def)
  ultimately have "task_reachable pairStore q"
    unfolding q_def by (intro task_reachable.step [OF _ task_step.mark])
  moreover have t: "t_ID ?b = ''b''" "t_Key ?b = ''k''" by (simp_all add: sampleTask_def)
  moreover have q: "m_batch q = []" "m_mu q = Some (True, Enqueueing ?b)" "m_runs q = []" "m_queue q = Map.empty"
    "m_waking q = []" "m_popped q = []" "m_ready q = []"
    "map_of (m_store q) ''b'' = Some (?b\<lparr>t_Status := StatusQueued, t_UpdatedAt := 6\<rparr>)" "\<not> isLocked ''k'' (m_registry q)"
    using w t by (simp_all add: q_def markQueued_def UpdateStatus_def update_conv')
  ultimately have "task_reachable pairStore e"
    unfolding e_def by (intro task_reachable.step [OF _ task_step.enqueue])
  moreover have "idle e" "map_of (m_store e) ''b'' = Some (?b\<lparr>t_Status := StatusQueued, t_UpdatedAt := 6\<rparr>)"
    "queued (m_queue e) ''k'' = [''b'']" "\<not> isLocked ''k'' (m_registry e)"
    using q t by (simp_all add: e_def enqueueTask_def idle_def queued_def enqueue_def)
  ultimately show ?thesis by (intro exI [of _ e] exI) (auto simp: isDue_def)
qed


section \<open>Other surprises\<close>

text \<open>
  A task that \<^verbatim>\<open>Cancel\<close> has marked cancelled, with success, still runs when the scheduler's tick had
  read it before: \<^verbatim>\<open>dispatchTask\<close> does not look at the stored status again.
\<close>

lemma cancelled_task_runs:
  "\<exists>m m' t. task_reachable pairStore m \<and> map_of (m_store m) ''a'' = Some t \<and> t_Status t = StatusCancelled \<and>
     task_step\<^sup>*\<^sup>* m m' \<and> m_log m' = [''a'']"
proof -
  let ?a = "sampleTask ''a'' 1"
  define c where "c = CancelWrite 4 ''user'' ?a (snd (CancelRead ''a'' startedPair))"
  define d where "d = dispatchTask True ?a (c\<lparr>m_batch := [sampleTask ''b'' 2]\<rparr>)"
  define l where "l = launch 5 True ?a (m_ctxs c) d"
  have get: "map_of (m_store startedPair) ''a'' = Some ?a" "t_Status ?a = StatusPending" "t_ID ?a = ''a''" "t_Key ?a = ''k''"
    by (simp_all add: startedPair_simps NewManager_def pairStore_def sampleTask_def)
  have "task_reachable pairStore (snd (CancelRead ''a'' startedPair))"
    by (rule task_reachable.step [OF startedPair_reachable task_step.cancel_read])
  then have "task_reachable pairStore c" unfolding c_def
    by (rule task_reachable.step [OF _ task_step.cancel_write]) (simp add: CancelRead_def store_Get_def get)
  moreover have c: "m_batch c = [?a, sampleTask ''b'' 2]" "m_mu c = None" "m_log c = []"
    "m_registry c = newCancelRegistry"
    "map_of (m_store c) ''a'' = Some (?a\<lparr>t_Status := StatusCancelled, t_CancelledAt := Some 4, t_FinishedAt := Some 4,
        t_Error := ''user'', t_UpdatedAt := 4\<rparr>)"
    by (simp_all add: c_def CancelWrite_def CancelRead_def store_Get_def get UpdateStatus_def update_conv')
      (simp_all add: startedPair_simps NewManager_def)
  moreover have d: "m_mu d = Some (True, Starting ?a (m_ctxs c))" "m_log d = []" "m_store d = m_store c"
    using c get by (simp_all add: d_def dispatchTask_def reg_register_def isLocked_def newCancelRegistry_def)
  moreover have "task_step c d" unfolding d_def by (rule task_step.dispatch) (simp_all add: c)
  moreover have "task_step d l" unfolding l_def by (rule task_step.launch) (simp add: d)
  moreover have "m_log l = [''a'']"
    using c(5) d get by (simp add: l_def launch_def UpdateStatus_def)
  ultimately show ?thesis by (intro exI [of _ c] exI [of _ l] exI conjI) (auto intro: rtranclp.intros)
qed

text \<open>\<^verbatim>\<open>Stop\<close> ends the context of every running task the scheduler has launched.\<close>

lemma Stop_interrupts_running:
  "m_active m \<Longrightarrow> r_sched r \<Longrightarrow> ctxErr r (Stop m)"
  by (simp add: ctxErr_def Stop_def)

text \<open>The shifted delay overflows its 64 bits: negative after attempt 31, and none at all from 63 on.\<close>

lemma backoff_overflow: "defaultBackoff 31 < 0" "defaultBackoff 63 = 0"
  by (simp_all add: defaultBackoff_def shiftCount_def Second_def Minute_def)

end
