(* ===== verification/TB_RateLimit.thy ===== *)
theory TB_RateLimit
  imports TB_Prelude
begin

text \<open>
  The limit on authentication attempts (\<^verbatim>\<open>internal/middleware/ratelimit.go\<close>): a sliding window of attempts
  per address and a block that outlasts it.  Requests are handled one at a time, each with the
  time it reads.
\<close>

section \<open>The limiter\<close>

record RateLimiter =
  rl_attempts :: "(string \<times> time list) list"
  rl_blockUntil :: "(string \<times> time) list"
  rl_maxAttempts :: int
  rl_windowSize :: duration
  rl_blockDuration :: duration

definition NewRateLimiter :: "int \<Rightarrow> duration \<Rightarrow> duration \<Rightarrow> RateLimiter" where
  "NewRateLimiter maxAttempts windowSize blockDuration =
     \<lparr>rl_attempts = [], rl_blockUntil = [], rl_maxAttempts = maxAttempts, rl_windowSize = windowSize,
      rl_blockDuration = blockDuration\<rparr>"

definition attemptsOf :: "string \<Rightarrow> RateLimiter \<Rightarrow> time list" where
  "attemptsOf ip rl = (case map_of (rl_attempts rl) ip of None \<Rightarrow> [] | Some ts \<Rightarrow> ts)"

definition isBlocked :: "time \<Rightarrow> string \<Rightarrow> RateLimiter \<Rightarrow> bool \<times> RateLimiter" where
  "isBlocked now ip rl =
     (case map_of (rl_blockUntil rl) ip of
        None \<Rightarrow> (False, rl)
      | Some unblockAt \<Rightarrow>
          if now < unblockAt then (True, rl)
          else (False, rl\<lparr>rl_blockUntil := AList.delete ip (rl_blockUntil rl)\<rparr>))"

definition recordAttempt :: "time \<Rightarrow> string \<Rightarrow> RateLimiter \<Rightarrow> bool \<times> RateLimiter" where
  "recordAttempt now ip rl =
     (let recent = filter (\<lambda>t. now - rl_windowSize rl < t) (attemptsOf ip rl) @ [now];
          rl1 = rl\<lparr>rl_attempts := AList.update ip recent (rl_attempts rl)\<rparr>
      in if int (length recent) \<ge> rl_maxAttempts rl
         then (False, rl1\<lparr>rl_blockUntil := AList.update ip (now + rl_blockDuration rl) (rl_blockUntil rl)\<rparr>)
         else (True, rl1))"

definition getRemainingAttempts :: "time \<Rightarrow> string \<Rightarrow> RateLimiter \<Rightarrow> int" where
  "getRemainingAttempts now ip rl =
     (let remaining = rl_maxAttempts rl -
            int (length (filter (\<lambda>t. now - rl_windowSize rl < t) (attemptsOf ip rl)))
      in if remaining < 0 then 0 else remaining)"

definition Cleanup :: "time \<Rightarrow> RateLimiter \<Rightarrow> RateLimiter" where
  "Cleanup now rl =
     (let cutoff = now - rl_windowSize rl - rl_blockDuration rl in
      rl\<lparr>rl_attempts := filter (\<lambda>(ip, ts). ts \<noteq> []) (map (\<lambda>(ip, ts). (ip, filter (\<lambda>t. cutoff < t) ts)) (rl_attempts rl)),
         rl_blockUntil := filter (\<lambda>(ip, u). \<not> u < now) (rl_blockUntil rl)\<rparr>)"

definition ResetIP :: "string \<Rightarrow> RateLimiter \<Rightarrow> RateLimiter" where
  "ResetIP ip rl =
     rl\<lparr>rl_attempts := AList.delete ip (rl_attempts rl), rl_blockUntil := AList.delete ip (rl_blockUntil rl)\<rparr>"

text \<open>\<^verbatim>\<open>GetStats\<close>: the addresses tracked and those blocked now.\<close>

definition GetStats :: "time \<Rightarrow> RateLimiter \<Rightarrow> nat \<times> nat" where
  "GetStats now rl = (length (rl_attempts rl), length (filter (\<lambda>(ip, u). now < u) (rl_blockUntil rl)))"

text \<open>The middleware: the result tells whether the request goes on to its handler.\<close>

definition RateLimitMiddleware ::
    "string list \<Rightarrow> time \<Rightarrow> string \<Rightarrow> string \<Rightarrow> string \<Rightarrow> RateLimiter \<Rightarrow> bool \<times> RateLimiter" where
  "RateLimitMiddleware authPaths now ip meth path rl =
     (let (blocked, rl1) = isBlocked now ip rl in
      if blocked then (False, rl1)
      else if path \<in> set authPaths \<and> meth = ''POST'' then recordAttempt now ip rl1
      else (True, rl1))"

section \<open>Runs\<close>

datatype rl_event = Request string string string | CleanupTick | Reset string

text \<open>
  A run of the server's limiter, with the attempts it has let through: their times and addresses.
\<close>

definition rl_step :: "string list \<Rightarrow> time \<times> rl_event \<Rightarrow> RateLimiter \<times> (time \<times> string) list \<Rightarrow>
    RateLimiter \<times> (time \<times> string) list" where
  "rl_step authPaths = (\<lambda>(now, e) (rl, passed).
     case e of
       Request ip meth path \<Rightarrow>
         (let (ok, rl') = RateLimitMiddleware authPaths now ip meth path rl in
          (rl', if ok \<and> path \<in> set authPaths \<and> meth = ''POST'' then (now, ip) # passed else passed))
     | CleanupTick \<Rightarrow> (Cleanup now rl, passed)
     | Reset ip \<Rightarrow> (ResetIP ip rl, passed))"

definition rl_run :: "string list \<Rightarrow> (time \<times> rl_event) list \<Rightarrow> RateLimiter \<times> (time \<times> string) list \<Rightarrow>
    RateLimiter \<times> (time \<times> string) list" where
  "rl_run authPaths = fold (rl_step authPaths)"

definition inWindow :: "time \<Rightarrow> duration \<Rightarrow> string \<Rightarrow> (time \<times> string) list \<Rightarrow> nat" where
  "inWindow t w ip passed = length (filter (\<lambda>(a, j). j = ip \<and> t - w < a \<and> a \<le> t) passed)"

section \<open>The window\<close>

lemma attemptsOf_simps:
  "attemptsOf ip (snd (isBlocked now j rl)) = attemptsOf ip rl"
  "attemptsOf ip (ResetIP j rl) = (if j = ip then [] else attemptsOf ip rl)"
  "attemptsOf ip (snd (recordAttempt now j rl)) =
     (if j = ip then filter (\<lambda>t. now - rl_windowSize rl < t) (attemptsOf ip rl) @ [now] else attemptsOf ip rl)"
  by (auto simp: attemptsOf_def isBlocked_def ResetIP_def recordAttempt_def Let_def update_conv' delete_conv'
      split: option.split)

lemma attemptsOf_Cleanup:
  assumes "distinct (map fst (rl_attempts rl))"
  shows "attemptsOf ip (Cleanup now rl) = filter (\<lambda>t. now - rl_windowSize rl - rl_blockDuration rl < t) (attemptsOf ip rl)"
proof -
  have "map_of (filter (\<lambda>(ip, ts). ts \<noteq> []) (map (\<lambda>(ip, ts). (ip, filter P ts)) xs)) ip =
      (case map_of xs ip of None \<Rightarrow> None | Some ts \<Rightarrow> if filter P ts = [] then None else Some (filter P ts))"
    if "distinct (map fst xs)" for P and xs :: "(string \<times> time list) list"
    using that
  proof (induction xs)
    case (Cons x xs)
    obtain j ts where x: "x = (j, ts)" by (cases x)
    have none: "map_of xs ip = None" if "j = ip"
      using Cons.prems that x by (metis distinct.simps(2) fst_conv list.simps(9) map_of_eq_None_iff set_map)
    show ?case using Cons none by (auto simp: x)
  qed simp
  from this [OF assms] show ?thesis by (auto simp: attemptsOf_def Cleanup_def Let_def split: option.split)
qed

definition rl_config :: "RateLimiter \<Rightarrow> int \<times> duration \<times> duration" where
  "rl_config rl = (rl_maxAttempts rl, rl_windowSize rl, rl_blockDuration rl)"

lemma rl_config_ops [frame]:
  "rl_config (snd (isBlocked now ip rl)) = rl_config rl" "rl_config (snd (recordAttempt now ip rl)) = rl_config rl"
  "rl_config (Cleanup now rl) = rl_config rl" "rl_config (ResetIP ip rl) = rl_config rl"
  by (simp_all add: rl_config_def isBlocked_def recordAttempt_def Cleanup_def ResetIP_def Let_def split: option.split)

text \<open>
  The invariant for one address: at any point of the current window or later, the limiter remembers
  at least the attempts it has let through.
\<close>

definition remembers :: "time \<Rightarrow> string \<Rightarrow> RateLimiter \<times> (time \<times> string) list \<Rightarrow> bool" where
  "remembers now ip = (\<lambda>(rl, passed).
     distinct (map fst (rl_attempts rl)) \<and> (\<forall>(a, j)\<in>set passed. a \<le> now) \<and>
     (\<forall>c \<ge> now - rl_windowSize rl.
        length (filter (\<lambda>(a, j). j = ip \<and> c < a) passed) \<le> length (filter (\<lambda>a. c < a) (attemptsOf ip rl))))"

definition window_ok :: "string \<Rightarrow> RateLimiter \<times> (time \<times> string) list \<Rightarrow> bool" where
  "window_ok ip = (\<lambda>(rl, passed). \<forall>t. int (inWindow t (rl_windowSize rl) ip passed) < rl_maxAttempts rl)"

lemma remembers_later:
  assumes "remembers now ip s" and "now \<le> now'"
  shows "remembers now' ip s"
proof -
  obtain rl passed where s: "s = (rl, passed)" by (cases s)
  have "now - rl_windowSize rl \<le> c" if "now' - rl_windowSize rl \<le> c" for c using that assms(2) by linarith
  then show ?thesis using assms unfolding s remembers_def by fastforce
qed

lemma window_shut:
  assumes ok: "window_ok ip (rl, passed)" and rem: "remembers now ip (rl, passed)"
    and few: "int (length (filter (\<lambda>a. now - rl_windowSize rl < a) (attemptsOf ip rl))) + 1 < rl_maxAttempts rl"
  shows "window_ok ip (rl, (now, ip) # passed)"
  unfolding window_ok_def split
proof (intro allI)
  fix t
  let ?w = "rl_windowSize rl"
  show "int (inWindow t ?w ip ((now, ip) # passed)) < rl_maxAttempts rl"
  proof (cases "t - ?w < now \<and> now \<le> t")
    case False
    then have "inWindow t ?w ip ((now, ip) # passed) = inWindow t ?w ip passed" by (auto simp: inWindow_def)
    then show ?thesis using ok by (simp add: window_ok_def)
  next
    case True
    have "inWindow t ?w ip passed \<le> length (filter (\<lambda>(a, j). j = ip \<and> t - ?w < a) passed)"
      unfolding inWindow_def by (induction passed) auto
    also have "\<dots> \<le> length (filter (\<lambda>a. t - ?w < a) (attemptsOf ip rl))"
      using rem True by (simp add: remembers_def)
    also have "\<dots> \<le> length (filter (\<lambda>a. now - ?w < a) (attemptsOf ip rl))"
    proof -
      have "length (filter (\<lambda>a. t - ?w < a) xs) \<le> length (filter (\<lambda>a. now - ?w < a) xs)" for xs
        using True by (induction xs) auto
      then show ?thesis .
    qed
    finally have "inWindow t ?w ip passed \<le> length (filter (\<lambda>a. now - ?w < a) (attemptsOf ip rl))" .
    then have "int (inWindow t ?w ip passed) + 1 < rl_maxAttempts rl" using few by linarith
    moreover have "inWindow t ?w ip ((now, ip) # passed) = Suc (inWindow t ?w ip passed)"
      using True by (simp add: inWindow_def)
    ultimately show ?thesis by simp
  qed
qed

lemma remembers_attempt:
  fixes j :: string
  assumes rem: "remembers now ip (rl, passed)"
  defines "rl' \<equiv> snd (recordAttempt now j rl)"
  shows "remembers now ip (rl', passed)" "remembers now ip (rl', (now, j) # passed)"
proof -
  have d: "distinct (map fst (rl_attempts rl'))"
    using rem by (simp add: rl'_def recordAttempt_def Let_def remembers_def distinct_update)
  have w: "rl_windowSize rl' = rl_windowSize rl"
    using rl_config_ops(2) [of now j rl] by (simp add: rl'_def rl_config_def)
  have le: "\<forall>(a, j)\<in>set passed. a \<le> now" using rem by (simp add: remembers_def)
  have grow: "length (filter (\<lambda>a. c < a) (attemptsOf ip rl)) + (if j = ip \<and> c < now then 1 else 0) \<le>
      length (filter (\<lambda>a. c < a) (attemptsOf ip rl'))" if "now - rl_windowSize rl \<le> c" for c
  proof -
    have "filter (\<lambda>a. c < a \<and> now - rl_windowSize rl < a) xs = filter (\<lambda>a. c < a) xs" for xs :: "time list"
      using that by (induction xs) auto
    then show ?thesis by (simp add: rl'_def attemptsOf_simps conj_commute)
  qed
  have rec: "length (filter (\<lambda>(a, j). j = ip \<and> c < a) passed) \<le> length (filter (\<lambda>a. c < a) (attemptsOf ip rl))"
    if "now - rl_windowSize rl \<le> c" for c using rem that by (simp add: remembers_def)
  show "remembers now ip (rl', passed)"
    unfolding remembers_def split w
  proof (intro conjI allI impI d le)
    fix c assume c: "now - rl_windowSize rl \<le> c"
    show "length (filter (\<lambda>(a, j). j = ip \<and> c < a) passed) \<le> length (filter (\<lambda>a. c < a) (attemptsOf ip rl'))"
      using grow [OF c] rec [OF c] by linarith
  qed
  have "length (filter (\<lambda>(a, j). j = ip \<and> c < a) ((now, j) # passed)) \<le> length (filter (\<lambda>a. c < a) (attemptsOf ip rl'))"
    if c: "now - rl_windowSize rl \<le> c" for c
    using grow [OF c] rec [OF c] by (auto split: if_splits)
  then show "remembers now ip (rl', (now, j) # passed)"
    using d le unfolding remembers_def split w by simp
qed

lemma remembers_frame:
  assumes "remembers now ip (rl, passed)" and "attemptsOf ip rl' = attemptsOf ip rl"
    and "distinct (map fst (rl_attempts rl'))" and "rl_config rl' = rl_config rl"
  shows "remembers now ip (rl', passed)"
  using assms by (simp add: remembers_def rl_config_def)

lemma rl_step_keeps:
  fixes authPaths :: "string list"
  assumes rem: "remembers now ip (rl, passed)" and ok: "window_ok ip (rl, passed)" and later: "now \<le> now'"
    and e: "e \<noteq> Reset ip" and block: "0 \<le> rl_blockDuration rl"
  defines "s' \<equiv> rl_step authPaths (now', e) (rl, passed)"
  shows "remembers now' ip s' \<and> window_ok ip s' \<and> rl_config (fst s') = rl_config rl"
proof (cases e)
  case (Request j meth path)
  note rem' = remembers_later [OF rem later]
  define rl1 where "rl1 = snd (isBlocked now' j rl)"
  have at1: "rl_attempts rl1 = rl_attempts rl" by (simp add: rl1_def isBlocked_def split: option.split)
  have c1: "rl_config rl1 = rl_config rl" by (simp add: rl1_def rl_config_ops)
  have r1: "remembers now' ip (rl1, passed)"
    using rem' c1 at1 by (simp add: remembers_def attemptsOf_def rl_config_def)
  have ok1: "window_ok ip (rl1, passed)" using ok c1 by (simp add: window_ok_def rl_config_def)
  show ?thesis
  proof (cases "fst (isBlocked now' j rl) \<or> \<not> (path \<in> set authPaths \<and> meth = ''POST'')")
    case True
    then have "s' = (rl1, passed)"
      by (auto simp: s'_def rl_step_def Request RateLimitMiddleware_def rl1_def split_beta)
    then show ?thesis using r1 ok1 c1 by simp
  next
    case False
    define ok2 where "ok2 = fst (recordAttempt now' j rl1)"
    define rl2 where "rl2 = snd (recordAttempt now' j rl1)"
    have s': "s' = (rl2, if ok2 then (now', j) # passed else passed)"
      using False by (auto simp: s'_def rl_step_def Request RateLimitMiddleware_def rl1_def rl2_def ok2_def split_beta)
    have c2: "rl_config rl2 = rl_config rl1" by (simp add: rl2_def rl_config_ops)
    have r2: "remembers now' ip s'" using remembers_attempt [OF r1, of j] by (simp add: s' rl2_def)
    have "window_ok ip (rl1, (now', j) # passed)" if ok2
    proof (cases "j = ip")
      case True
      have "int (length (filter (\<lambda>a. now' - rl_windowSize rl1 < a) (attemptsOf ip rl1))) + 1 < rl_maxAttempts rl1"
        using that True by (simp add: ok2_def recordAttempt_def Let_def split: if_splits)
      from window_shut [OF ok1 r1 this] show ?thesis by (simp add: True)
    next
      case False
      then show ?thesis using ok1 by (simp add: window_ok_def inWindow_def)
    qed
    then have "window_ok ip s'" using ok1 c2 by (simp add: s' window_ok_def rl_config_def)
    then show ?thesis using r2 c1 c2 by (simp add: s')
  qed
next
  case CleanupTick
  note rem' = remembers_later [OF rem later]
  have d: "distinct (map fst (rl_attempts rl))" using rem by (simp add: remembers_def)
  have "distinct (map fst (rl_attempts (Cleanup now' rl)))"
    using d by (auto simp: Cleanup_def Let_def case_prod_beta comp_def intro!: distinct_map_filter)
  moreover have "filter (\<lambda>a. c < a) (attemptsOf ip (Cleanup now' rl)) = filter (\<lambda>a. c < a) (attemptsOf ip rl)"
    if "now' - rl_windowSize rl \<le> c" for c
  proof -
    have "filter (\<lambda>a. now' - rl_windowSize rl - rl_blockDuration rl < a \<and> c < a) xs = filter (\<lambda>a. c < a) xs" for xs
      using that block by (induction xs) auto
    then show ?thesis by (simp add: attemptsOf_Cleanup [OF d] conj_commute)
  qed
  ultimately have "remembers now' ip (Cleanup now' rl, passed)"
    using rem' rl_config_ops(3) [of now' rl] by (simp add: remembers_def rl_config_def)
  then show ?thesis
    using ok rl_config_ops(3) [of now' rl] by (simp add: s'_def rl_step_def CleanupTick window_ok_def rl_config_def)
next
  case (Reset j)
  have "remembers now' ip (ResetIP j rl, passed)"
  proof (rule remembers_frame [OF remembers_later [OF rem later]])
    show "attemptsOf ip (ResetIP j rl) = attemptsOf ip rl" using e Reset by (simp add: attemptsOf_simps)
    show "distinct (map fst (rl_attempts (ResetIP j rl)))" using rem by (simp add: ResetIP_def remembers_def distinct_delete)
  qed (rule rl_config_ops)
  then show ?thesis
    using ok rl_config_ops(4) [of j rl] by (simp add: s'_def rl_step_def Reset window_ok_def rl_config_def)
qed

lemma rl_run_keeps:
  assumes "sorted (now # map fst es)" and "\<forall>(t, e)\<in>set es. e \<noteq> Reset ip" and "0 \<le> rl_blockDuration (fst s)"
    and "remembers now ip s" and "window_ok ip s"
  shows "window_ok ip (rl_run authPaths es s) \<and> rl_config (fst (rl_run authPaths es s)) = rl_config (fst s)"
  using assms
proof (induction es arbitrary: now s)
  case (Cons te es)
  obtain t e where te: "te = (t, e)" by (cases te)
  obtain rl passed where s: "s = (rl, passed)" by (cases s)
  let ?s' = "rl_step authPaths (t, e) s"
  have "remembers t ip ?s' \<and> window_ok ip ?s' \<and> rl_config (fst ?s') = rl_config rl"
    unfolding s by (rule rl_step_keeps) (use Cons.prems te s in auto)
  moreover have "0 \<le> rl_blockDuration (fst ?s')" using calculation Cons.prems(3) by (simp add: rl_config_def s)
  ultimately have "window_ok ip (rl_run authPaths es ?s') \<and> rl_config (fst (rl_run authPaths es ?s')) = rl_config (fst ?s')"
    using Cons.prems(1,2) by (intro Cons.IH [of t]) (auto simp: te)
  then show ?case using \<open>remembers t ip ?s' \<and> _\<close> by (simp add: rl_run_def te s)
qed (simp add: rl_run_def)

text \<open>
  Brute force is bounded by the window.  Whatever requests arrive, from any addresses,
  with the cleaning goroutine in between, in no window of the configured length does an address get as
  many attempts through to the authentication handlers as the limit, unless an administrator resets it.
\<close>

theorem attempts_bounded_in_window:
  assumes "1 \<le> limit" and "0 \<le> block" and "sorted (map fst es)" and "\<forall>(t, e)\<in>set es. e \<noteq> Reset ip"
  shows "int (inWindow t w ip (snd (rl_run authPaths es (NewRateLimiter limit w block, [])))) < limit"
proof -
  let ?s = "(NewRateLimiter limit w block, [] :: (time \<times> string) list)"
  define now where "now = (if es = [] then 0 else fst (hd es))"
  have a: "sorted (now # map fst es)" using assms(3) by (cases es) (auto simp: now_def)
  have r: "remembers now ip ?s" by (simp add: remembers_def NewRateLimiter_def attemptsOf_def)
  have k: "window_ok ip ?s" using assms(1) by (simp add: window_ok_def inWindow_def NewRateLimiter_def)
  have b: "0 \<le> rl_blockDuration (fst ?s)" using assms(2) by (simp add: NewRateLimiter_def)
  have "window_ok ip (rl_run authPaths es ?s) \<and> rl_config (fst (rl_run authPaths es ?s)) = rl_config (fst ?s)"
    by (rule rl_run_keeps [OF a assms(4) b r k])
  then show ?thesis by (auto simp: window_ok_def rl_config_def NewRateLimiter_def split_beta)
qed


definition loginBurst :: "(time \<times> rl_event) list" where
  "loginBurst = [(1, Request ''10.0.0.1'' ''POST'' ''/login''), (2, Request ''10.0.0.1'' ''POST'' ''/login''),
     (3, Request ''10.0.0.1'' ''POST'' ''/login''), (4, Request ''10.0.0.1'' ''GET'' ''/'')]"

theorem attempts_bounded_in_window_witness:
  "int (inWindow 4 60 ''10.0.0.1'' (snd (rl_run [''/login''] loginBurst (NewRateLimiter 3 60 300, [])))) < 3"
  using attempts_bounded_in_window [of 3 300 loginBurst "''10.0.0.1''" 4 60 "[''/login'']"]
  by (simp add: loginBurst_def)

section \<open>The block\<close>

lemma blocked_until:
  assumes "map_of (rl_blockUntil rl) ip = Some u" and "now < u"
  shows "RateLimitMiddleware authPaths now ip meth path rl = (False, rl)"
  using assms by (simp add: RateLimitMiddleware_def isBlocked_def)

lemma middleware_block_frame:
  "j \<noteq> ip \<Longrightarrow> map_of (rl_blockUntil (snd (RateLimitMiddleware authPaths now j meth path rl))) ip = map_of (rl_blockUntil rl) ip"
  by (simp add: RateLimitMiddleware_def isBlocked_def recordAttempt_def Let_def split_beta update_conv' delete_conv'
      split: option.split)

lemma Cleanup_block:
  "distinct (map fst (rl_blockUntil rl)) \<Longrightarrow> map_of (rl_blockUntil rl) ip = Some u \<Longrightarrow> now \<le> u \<Longrightarrow>
   map_of (rl_blockUntil (Cleanup now rl)) ip = Some u"
  by (auto simp: Cleanup_def Let_def map_of_eq_Some_iff distinct_map_filter map_of_filter_val intro!: map_of_is_SomeI)

lemma rl_step_blocked:
  assumes "distinct (map fst (rl_blockUntil rl))" and "map_of (rl_blockUntil rl) ip = Some u" and "now < u"
    and "e \<noteq> Reset ip"
  shows "map_of (rl_blockUntil (fst (rl_step authPaths (now, e) (rl, passed)))) ip = Some u"
    and "distinct (map fst (rl_blockUntil (fst (rl_step authPaths (now, e) (rl, passed)))))"
    and "filter (\<lambda>(a, j). j = ip) (snd (rl_step authPaths (now, e) (rl, passed))) = filter (\<lambda>(a, j). j = ip) passed"
proof -
  show "distinct (map fst (rl_blockUntil (fst (rl_step authPaths (now, e) (rl, passed)))))"
    using assms(1)
    by (cases e) (auto simp: rl_step_def RateLimitMiddleware_def isBlocked_def recordAttempt_def Cleanup_def ResetIP_def
        Let_def split_beta distinct_update distinct_delete distinct_map_filter split: option.split)
  have "map_of (rl_blockUntil (fst (rl_step authPaths (now, e) (rl, passed)))) ip = Some u \<and>
    filter (\<lambda>(a, j). j = ip) (snd (rl_step authPaths (now, e) (rl, passed))) = filter (\<lambda>(a, j). j = ip) passed"
  proof (cases e)
    case (Request j meth path)
    then show ?thesis
      using assms(2) blocked_until [OF assms(2,3)] middleware_block_frame [of j ip authPaths now meth path rl]
      by (cases "j = ip") (simp_all add: rl_step_def split_beta)
  next
    case CleanupTick
    then show ?thesis using assms(1-3) by (simp add: rl_step_def Cleanup_block)
  next
    case (Reset j)
    then show ?thesis using assms(2,4) by (simp add: rl_step_def ResetIP_def delete_conv')
  qed
  then show "map_of (rl_blockUntil (fst (rl_step authPaths (now, e) (rl, passed)))) ip = Some u"
    "filter (\<lambda>(a, j). j = ip) (snd (rl_step authPaths (now, e) (rl, passed))) = filter (\<lambda>(a, j). j = ip) passed"
    by blast+
qed

lemma block_lasts:
  assumes "distinct (map fst (rl_blockUntil rl))" and "map_of (rl_blockUntil rl) ip = Some u"
    and "\<forall>(t, e)\<in>set es. t < u \<and> e \<noteq> Reset ip"
  shows "filter (\<lambda>(a, j). j = ip) (snd (rl_run authPaths es (rl, passed))) = filter (\<lambda>(a, j). j = ip) passed"
  using assms
proof (induction es arbitrary: rl passed)
  case (Cons te es)
  obtain t e where te: "te = (t, e)" by (cases te)
  obtain rl' passed' where s: "rl_step authPaths (t, e) (rl, passed) = (rl', passed')" by fastforce
  have *: "t < u" "e \<noteq> Reset ip" using Cons.prems(3) by (auto simp: te)
  note step = rl_step_blocked [OF Cons.prems(1,2) *, of authPaths passed, unfolded s fst_conv snd_conv]
  have "filter (\<lambda>(a, j). j = ip) (snd (rl_run authPaths es (rl', passed'))) = filter (\<lambda>(a, j). j = ip) passed'"
    using Cons.prems(3) by (intro Cons.IH step) auto
  then show ?case using step(3) by (simp add: rl_run_def te s)
qed (simp add: rl_run_def)

lemma recordAttempt_blocks:
  "\<not> fst (recordAttempt now ip rl) \<Longrightarrow>
   map_of (rl_blockUntil (snd (recordAttempt now ip rl))) ip = Some (now + rl_blockDuration rl)"
  by (simp add: recordAttempt_def Let_def update_conv' split: if_splits)

end
