(* ===== verification/TB_Session.thy ===== *)
theory TB_Session
  imports TB_Prelude
begin

text \<open>
  Long-lived agent sessions (\<^verbatim>\<open>agentboot/persistent_session.go\<close>) and the pool that holds them
  (\<^verbatim>\<open>agentboot/pool/pool.go\<close>).

  A session is one agent process that answers turn after turn.  Its state changes under its mutex from
  four sides: callers that send, respond, interrupt and close, and the pump, the one goroutine that
  reads the process's events.  A step of \<open>session_step\<close> is one critical section, one write to the process
  or one event delivered to the consumer; what a goroutine has still to do is part of the state
  (\<open>ps_writes\<close>, \<open>ps_todo\<close>), so other goroutines' steps come in between as they do in the code.  How the
  transport encodes messages and classifies events is an argument.  \<open>ps_registered\<close> and \<open>ps_answered\<close> log the
  control requests and their answers and only serve to state properties.
\<close>

section \<open>Sessions\<close>

datatype SessionState = SessionStateIdle | SessionStateRunning | SessionStateClosing | SessionStateTerminated

text \<open>The events of the stream; a turn's result carries its events, duration and error.\<close>

datatype StreamEvent = MessageEvent string | ApprovalRequestEvent string string | AskRequestEvent string string |
  TurnStartEvent | TurnCompleteEvent "string list" duration "string option" | SessionStateEvent string | OtherEvent string

datatype session_error = ErrTurnInFlight | ErrSessionClosed | ErrUnknownRequestID | ErrControlUnsupported |
  TaskIDRequired | NilControlResponse

datatype ControlRequest = InterruptRequest | StopTaskRequest string

datatype EventKind = EventKindIgnore | EventKindMessage "string list" | EventKindControl "StreamEvent option" |
  EventKindTerminalSuccess | EventKindTerminalError string

text \<open>The transport; a transport without control requests has \<open>None\<close> there.\<close>

record transport =
  EncodeUserMessage :: "string \<Rightarrow> string"
  EncodeControlResponse :: "string \<Rightarrow> string \<Rightarrow> string \<Rightarrow> string option"
  EncodeControlRequest :: "(string \<Rightarrow> ControlRequest \<Rightarrow> string option) option"

text \<open>What the pump has still to do before it reads the next event.\<close>

datatype pump_act = Emit StreamEvent | AddPending string string | CompleteTurn "string option" |
  MarkTerminated | CloseStreams

record PersistentSession =
  ps_state :: SessionState
  ps_pending :: "(string \<times> string) list"
  ps_turnStart :: time
  ps_turnEvents :: "string list"
  ps_controlSeq :: nat
  ps_stdinClosed :: bool
  ps_cancelled :: bool
  ps_done :: bool
  ps_ended :: bool
  ps_todo :: "pump_act list"
  ps_writes :: "string list"
  ps_wire :: "string list"
  ps_events :: "StreamEvent list"
  ps_registered :: "string list"
  ps_answered :: "string list"

text \<open>The session \<^verbatim>\<open>Runner.Open\<close> returns: its prompt runs as the first turn.\<close>

definition openSession :: "time \<Rightarrow> PersistentSession" where
  "openSession now = \<lparr>ps_state = SessionStateRunning, ps_pending = [], ps_turnStart = now, ps_turnEvents = [],
     ps_controlSeq = 0, ps_stdinClosed = False, ps_cancelled = False, ps_done = False, ps_ended = False, ps_todo = [],
     ps_writes = [], ps_wire = [], ps_events = [], ps_registered = [], ps_answered = []\<rparr>"

definition Send :: "transport \<Rightarrow> time \<Rightarrow> string \<Rightarrow> PersistentSession \<Rightarrow> session_error option \<times> PersistentSession" where
  "Send tr now prompt s =
     (case ps_state s of
        SessionStateIdle \<Rightarrow> (None, s\<lparr>ps_state := SessionStateRunning, ps_turnStart := now, ps_turnEvents := [],
          ps_writes := ps_writes s @ [EncodeUserMessage tr prompt]\<rparr>)
      | SessionStateRunning \<Rightarrow> (Some ErrTurnInFlight, s)
      | _ \<Rightarrow> (Some ErrSessionClosed, s))"

definition Respond :: "transport \<Rightarrow> string \<Rightarrow> string \<Rightarrow> PersistentSession \<Rightarrow> session_error option \<times> PersistentSession" where
  "Respond tr reqID resp s =
     (if ps_state s = SessionStateTerminated then (Some ErrSessionClosed, s)
      else
        (case map_of (ps_pending s) reqID of
           None \<Rightarrow> (Some ErrUnknownRequestID, s)
         | Some input \<Rightarrow>
             (let s1 = s\<lparr>ps_pending := AList.delete reqID (ps_pending s)\<rparr> in
              case EncodeControlResponse tr reqID resp input of
                None \<Rightarrow> (Some NilControlResponse, s1)
              | Some w \<Rightarrow> (None, s1\<lparr>ps_writes := ps_writes s @ [w], ps_answered := reqID # ps_answered s\<rparr>))))"

definition sendControl :: "transport \<Rightarrow> ControlRequest \<Rightarrow> PersistentSession \<Rightarrow> session_error option \<times> PersistentSession" where
  "sendControl tr req s =
     (case EncodeControlRequest tr of
        None \<Rightarrow> (Some ErrControlUnsupported, s)
      | Some enc \<Rightarrow>
          (let n = Suc (ps_controlSeq s); s1 = s\<lparr>ps_controlSeq := n\<rparr> in
           case enc (''agentboot_ctl_'' @ show_nat n) req of
             None \<Rightarrow> (Some ErrControlUnsupported, s1)
           | Some w \<Rightarrow> (None, s1\<lparr>ps_writes := ps_writes s @ [w]\<rparr>)))"

text \<open>\<^verbatim>\<open>Interrupt\<close> and \<^verbatim>\<open>StopTask\<close> read the state first; \<open>Inr\<close> is the control request they go on with.\<close>

definition Interrupt :: "PersistentSession \<Rightarrow> session_error option + ControlRequest" where
  "Interrupt s =
     (case ps_state s of
        SessionStateRunning \<Rightarrow> Inr InterruptRequest
      | SessionStateIdle \<Rightarrow> Inl None
      | _ \<Rightarrow> Inl (Some ErrSessionClosed))"

definition StopTask :: "string \<Rightarrow> PersistentSession \<Rightarrow> session_error option + ControlRequest" where
  "StopTask taskID s =
     (if taskID = [] then Inl (Some TaskIDRequired)
      else if ps_state s = SessionStateClosing \<or> ps_state s = SessionStateTerminated then Inl (Some ErrSessionClosed)
      else Inr (StopTaskRequest taskID))"

text \<open>\<^verbatim>\<open>Close\<close> up to its wait for the process; \<^verbatim>\<open>shutdown\<close> closes the standard input.\<close>

definition Close :: "PersistentSession \<Rightarrow> PersistentSession" where
  "Close s = s\<lparr>ps_state := (if ps_state s \<noteq> SessionStateTerminated then SessionStateClosing else SessionStateTerminated),
     ps_stdinClosed := True\<rparr>"

definition completeTurn :: "time \<Rightarrow> string option \<Rightarrow> PersistentSession \<Rightarrow> PersistentSession" where
  "completeTurn now err s =
     s\<lparr>ps_turnEvents := [],
       ps_state := (if ps_state s = SessionStateRunning then SessionStateIdle else ps_state s),
       ps_todo := Emit (TurnCompleteEvent (ps_turnEvents s) (now - ps_turnStart s) err) # tl (ps_todo s)\<rparr>"

text \<open>The pump reads an event: what it has to do then, by the event's kind.\<close>

definition controlActs :: "StreamEvent \<Rightarrow> pump_act list" where
  "controlActs ev =
     (case ev of
        ApprovalRequestEvent i inp \<Rightarrow> (if i \<noteq> [] then [AddPending i inp] else [])
      | AskRequestEvent i inp \<Rightarrow> (if i \<noteq> [] then [AddPending i inp] else [])
      | _ \<Rightarrow> []) @ [Emit ev]"

definition pumpActs :: "EventKind \<Rightarrow> pump_act list" where
  "pumpActs k =
     (case k of
        EventKindIgnore \<Rightarrow> []
      | EventKindMessage ms \<Rightarrow> map (\<lambda>m. Emit (MessageEvent m)) ms
      | EventKindControl None \<Rightarrow> []
      | EventKindControl (Some ev) \<Rightarrow> controlActs ev
      | EventKindTerminalSuccess \<Rightarrow> [CompleteTurn None]
      | EventKindTerminalError e \<Rightarrow> [CompleteTurn (Some e)])"

definition pumpEvent :: "time \<Rightarrow> string \<Rightarrow> bool \<Rightarrow> EventKind \<Rightarrow> PersistentSession \<Rightarrow> PersistentSession" where
  "pumpEvent now ev isTurnStart kind s =
     (let unsolicited = isTurnStart \<and> ps_state s = SessionStateIdle;
          s1 = (if unsolicited then s\<lparr>ps_state := SessionStateRunning, ps_turnStart := now, ps_turnEvents := []\<rparr> else s)
      in s1\<lparr>ps_turnEvents := ps_turnEvents s1 @ [ev],
            ps_todo := (if unsolicited then [Emit TurnStartEvent] else []) @ pumpActs kind\<rparr>)"

text \<open>\<^verbatim>\<open>terminate\<close>, after the process has ended.\<close>

definition pumpEnd :: "string \<Rightarrow> PersistentSession \<Rightarrow> PersistentSession" where
  "pumpEnd reason s =
     s\<lparr>ps_ended := True, ps_stdinClosed := True,
       ps_todo := [MarkTerminated, Emit (SessionStateEvent reason), CloseStreams]\<rparr>"

definition pendingID :: "StreamEvent \<Rightarrow> string" where
  "pendingID ev = (case ev of ApprovalRequestEvent i _ \<Rightarrow> i | AskRequestEvent i _ \<Rightarrow> i | _ \<Rightarrow> [])"

text \<open>
  One action of the pump.  \<^verbatim>\<open>emit\<close> delivers the event, or drops it, and its pending request, when the run
  context is cancelled: \<open>deliver\<close> is its choice when both are possible.
\<close>

definition emit :: "bool \<Rightarrow> StreamEvent \<Rightarrow> PersistentSession \<Rightarrow> PersistentSession" where
  "emit deliver ev s =
     (if \<not> ps_cancelled s \<or> deliver then s\<lparr>ps_events := ps_events s @ [ev]\<rparr>
      else if pendingID ev \<noteq> [] then s\<lparr>ps_pending := AList.delete (pendingID ev) (ps_pending s)\<rparr>
      else s)"

definition pumpAct :: "time \<Rightarrow> bool \<Rightarrow> PersistentSession \<Rightarrow> PersistentSession" where
  "pumpAct now deliver s =
     (case ps_todo s of
        [] \<Rightarrow> s
      | Emit ev # acts \<Rightarrow> emit deliver ev (s\<lparr>ps_todo := acts\<rparr>)
      | AddPending i inp # acts \<Rightarrow> s\<lparr>ps_todo := acts, ps_pending := AList.update i inp (ps_pending s),
          ps_registered := i # ps_registered s\<rparr>
      | CompleteTurn err # acts \<Rightarrow> completeTurn now err s
      | MarkTerminated # acts \<Rightarrow> s\<lparr>ps_todo := acts, ps_state := SessionStateTerminated\<rparr>
      | CloseStreams # acts \<Rightarrow> s\<lparr>ps_todo := acts, ps_done := True, ps_cancelled := True\<rparr>)"

inductive session_step :: "transport \<Rightarrow> PersistentSession \<Rightarrow> PersistentSession \<Rightarrow> bool" for tr where
  send: "session_step tr s (snd (Send tr now prompt s))"
| respond: "session_step tr s (snd (Respond tr reqID resp s))"
| control: "session_step tr s (snd (sendControl tr req s))"
| close: "session_step tr s (Close s)"
| write_ok: "ps_writes s = ws @ w # ws' \<Longrightarrow>
    session_step tr s (s\<lparr>ps_writes := ws @ ws', ps_wire := ps_wire s @ [w]\<rparr>)"
| write_fail: "ps_writes s = ws @ w # ws' \<Longrightarrow> session_step tr s (s\<lparr>ps_writes := ws @ ws'\<rparr>)"
| cancel: "session_step tr s (s\<lparr>ps_cancelled := True\<rparr>)"
| read: "ps_todo s = [] \<Longrightarrow> \<not> ps_ended s \<Longrightarrow> session_step tr s (pumpEvent now ev isTurnStart kind s)"
| ended: "ps_todo s = [] \<Longrightarrow> \<not> ps_ended s \<Longrightarrow> session_step tr s (pumpEnd reason s)"
| act: "ps_todo s \<noteq> [] \<Longrightarrow> session_step tr s (pumpAct now deliver s)"

inductive session_reachable :: "transport \<Rightarrow> PersistentSession \<Rightarrow> bool" for tr where
  start: "session_reachable tr (openSession now)"
| step: "session_reachable tr s \<Longrightarrow> session_step tr s s' \<Longrightarrow> session_reachable tr s'"

section \<open>Facts about sessions\<close>

text \<open>What the pump has still to do when it stands at each point of its loop.\<close>

fun todo_ok :: "pump_act list \<Rightarrow> bool" where
  "todo_ok [] = True"
| "todo_ok (Emit e # acts) = todo_ok acts"
| "todo_ok (AddPending i x # acts) = todo_ok acts"
| "todo_ok (CompleteTurn e # acts) = todo_ok acts"
| "todo_ok _ = False"

definition ending :: "PersistentSession \<Rightarrow> bool" where
  "ending s \<longleftrightarrow> (\<exists>e. ps_todo s = [MarkTerminated, Emit e, CloseStreams] \<and> ps_state s \<noteq> SessionStateTerminated \<and> \<not> ps_done s) \<or>
     ((\<exists>e. ps_todo s = [Emit e, CloseStreams]) \<or> ps_todo s = [CloseStreams]) \<and> ps_state s = SessionStateTerminated \<and> \<not> ps_done s \<or>
     ps_todo s = [] \<and> ps_state s = SessionStateTerminated \<and> ps_done s"

definition session_ok :: "PersistentSession \<Rightarrow> bool" where
  "session_ok s \<longleftrightarrow>
     (if ps_ended s then ending s else todo_ok (ps_todo s) \<and> ps_state s \<noteq> SessionStateTerminated \<and> \<not> ps_done s)"

lemma todo_ok_append: "todo_ok (a @ b) \<longleftrightarrow> todo_ok a \<and> todo_ok b"
  by (induction a rule: todo_ok.induct) auto

lemma todo_ok_Emits: "todo_ok (map (\<lambda>m. Emit (f m)) ms)"
  by (induction ms) auto

lemma todo_ok_pumpActs: "todo_ok (pumpActs k)"
  by (auto simp: pumpActs_def controlActs_def todo_ok_Emits todo_ok_append split: EventKind.splits option.splits StreamEvent.splits)

text \<open>Everything but the pump leaves the pump's part of the session alone.\<close>

definition same_pump :: "PersistentSession \<Rightarrow> PersistentSession \<Rightarrow> bool" where
  "same_pump s s' \<longleftrightarrow> ps_todo s' = ps_todo s \<and> ps_ended s' = ps_ended s \<and> ps_done s' = ps_done s \<and>
     ps_events s' = ps_events s \<and> ps_registered s' = ps_registered s \<and>
     (ps_state s' = SessionStateTerminated \<longleftrightarrow> ps_state s = SessionStateTerminated) \<and>
     (ps_state s = SessionStateClosing \<longrightarrow> ps_state s' = SessionStateClosing)"

lemma same_pump_Send: "same_pump s (snd (Send tr now p s))"
  by (simp add: same_pump_def Send_def split: SessionState.splits)

lemma same_pump_Respond: "same_pump s (snd (Respond tr i r s))"
  by (simp add: same_pump_def Respond_def Let_def split: option.splits)

lemma same_pump_sendControl: "same_pump s (snd (sendControl tr r s))"
  by (simp add: same_pump_def sendControl_def Let_def split: option.splits)

lemma same_pump_Close: "same_pump s (Close s)"
  by (simp add: same_pump_def Close_def)

lemma same_pump_other:
  "same_pump s (s\<lparr>ps_writes := a, ps_wire := b\<rparr>)" "same_pump s (s\<lparr>ps_writes := a\<rparr>)" "same_pump s (s\<lparr>ps_cancelled := c\<rparr>)"
  by (simp_all add: same_pump_def)

lemmas same_pump_intros = same_pump_Send same_pump_Respond same_pump_sendControl same_pump_Close same_pump_other

lemma same_pump_ok: "same_pump s s' \<Longrightarrow> session_ok s \<Longrightarrow> session_ok s'"
  by (auto simp: same_pump_def session_ok_def ending_def split: if_splits)

lemma emit_fields [simp]:
  "ps_todo (emit d e s) = ps_todo s" "ps_ended (emit d e s) = ps_ended s" "ps_done (emit d e s) = ps_done s"
  "ps_state (emit d e s) = ps_state s" "ps_registered (emit d e s) = ps_registered s" "ps_answered (emit d e s) = ps_answered s"
  by (simp_all add: emit_def)

lemma session_ok_pumpEvent:
  assumes "session_ok s" "ps_todo s = []" "\<not> ps_ended s"
  shows "session_ok (pumpEvent now ev ts k s)"
  using assms by (simp add: session_ok_def pumpEvent_def Let_def todo_ok_pumpActs)

lemma session_ok_pumpEnd:
  assumes "session_ok s" "ps_todo s = []" "\<not> ps_ended s"
  shows "session_ok (pumpEnd r s)"
  using assms by (simp add: session_ok_def pumpEnd_def ending_def)

lemma session_ok_pumpAct:
  assumes "session_ok s" "ps_todo s \<noteq> []"
  shows "session_ok (pumpAct now d s)"
proof (cases "ps_ended s")
  case True
  then have "ending s" using assms(1) by (simp add: session_ok_def)
  then show ?thesis using True assms(2)
    by (auto simp: session_ok_def ending_def pumpAct_def completeTurn_def split: pump_act.splits)
next
  case False
  then show ?thesis using assms
    by (auto simp: session_ok_def pumpAct_def completeTurn_def split: list.splits pump_act.splits)
qed

lemma session_ok_step: "session_step tr s s' \<Longrightarrow> session_ok s \<Longrightarrow> session_ok s'"
  by (induction rule: session_step.induct)
     (auto intro: same_pump_ok same_pump_intros session_ok_pumpEvent session_ok_pumpEnd session_ok_pumpAct)

lemma session_ok_reachable: "session_reachable tr s \<Longrightarrow> session_ok s"
proof (induction rule: session_reachable.induct)
  case (start now)
  show ?case by (simp add: session_ok_def openSession_def)
next
  case (step s s')
  show ?case by (rule session_ok_step [OF step.hyps(2) step.IH])
qed

definition closed_or_closing :: "PersistentSession \<Rightarrow> bool" where
  "closed_or_closing s \<longleftrightarrow> ps_state s = SessionStateClosing \<or> ps_state s = SessionStateTerminated"

lemma pump_keeps_closed:
  assumes "closed_or_closing s"
  shows "closed_or_closing (pumpEvent now ev ts k s)" "closed_or_closing (pumpEnd r s)" "closed_or_closing (pumpAct now d s)"
  using assms
  by (auto simp: closed_or_closing_def pumpEvent_def Let_def pumpEnd_def pumpAct_def completeTurn_def
      split: list.splits pump_act.splits)

lemma step_keeps_closed:
  assumes "session_step tr s s'" "closed_or_closing s"
  shows "closed_or_closing s'"
  using assms(1)
proof cases
  case (read ts ev k now)
  then show ?thesis using pump_keeps_closed(1) [OF assms(2)] by simp
next
  case (ended r)
  then show ?thesis using pump_keeps_closed(2) [OF assms(2)] by simp
next
  case (act now d)
  then show ?thesis using pump_keeps_closed(3) [OF assms(2)] by simp
qed (use assms(2) in \<open>auto simp: closed_or_closing_def Send_def Respond_def sendControl_def Close_def Let_def
       split: option.splits SessionState.splits\<close>)

text \<open>Answers and pending requests come out of registered requests.\<close>

definition answers_ok :: "PersistentSession \<Rightarrow> bool" where
  "answers_ok s \<longleftrightarrow> (\<forall>i. count_list (ps_answered s) i + (if i \<in> fst ` set (ps_pending s) then 1 else 0) \<le>
     count_list (ps_registered s) i)"

lemma answers_okI:
  assumes "answers_ok s" "ps_answered s' = ps_answered s" "ps_registered s' = ps_registered s"
    "fst ` set (ps_pending s') \<subseteq> fst ` set (ps_pending s)"
  shows "answers_ok s'"
  unfolding answers_ok_def
proof
  fix i
  have "count_list (ps_answered s) i + (if i \<in> fst ` set (ps_pending s) then 1 else 0) \<le> count_list (ps_registered s) i"
    using assms(1) by (simp add: answers_ok_def)
  then show "count_list (ps_answered s') i + (if i \<in> fst ` set (ps_pending s') then 1 else 0) \<le>
      count_list (ps_registered s') i"
    using assms(2-4) by (auto split: if_splits)
qed

lemma fst_delete_subset: "fst ` set (AList.delete k al) \<subseteq> fst ` set al"
  by (auto simp: AList.delete_eq)

lemma answers_ok_Respond:
  assumes "answers_ok s" shows "answers_ok (snd (Respond tr i r s))"
proof (cases "\<exists>inp w. ps_state s \<noteq> SessionStateTerminated \<and> map_of (ps_pending s) i = Some inp \<and>
    EncodeControlResponse tr i r inp = Some w")
  case True
  then obtain inp w where h: "ps_state s \<noteq> SessionStateTerminated" "map_of (ps_pending s) i = Some inp"
    "EncodeControlResponse tr i r inp = Some w" by blast
  have mem: "i \<in> fst ` set (ps_pending s)" using h(2) by (metis domI dom_map_of_conv_image_fst)
  let ?s = "snd (Respond tr i r s)"
  have f: "ps_answered ?s = i # ps_answered s" "ps_registered ?s = ps_registered s"
    "ps_pending ?s = AList.delete i (ps_pending s)" using h by (simp_all add: Respond_def Let_def)
  have d: "fst ` set (AList.delete i (ps_pending s)) = fst ` set (ps_pending s) - {i}"
    by (force simp: AList.delete_eq)
  show ?thesis unfolding answers_ok_def
  proof
    fix j
    have "count_list (ps_answered s) j + (if j \<in> fst ` set (ps_pending s) then 1 else 0) \<le> count_list (ps_registered s) j"
      using assms by (simp add: answers_ok_def)
    then show "count_list (ps_answered ?s) j + (if j \<in> fst ` set (ps_pending ?s) then 1 else 0) \<le>
        count_list (ps_registered ?s) j"
      unfolding f d using mem by (cases "i = j") (auto split: if_splits)
  qed
next
  case False
  then show ?thesis
    by (intro answers_okI [OF assms]) (auto simp: Respond_def Let_def AList.delete_eq split: option.splits)
qed

lemma answers_ok_AddPending:
  assumes "answers_ok s"
  shows "answers_ok (s\<lparr>ps_todo := acts, ps_pending := AList.update i inp (ps_pending s), ps_registered := i # ps_registered s\<rparr>)"
  unfolding answers_ok_def
proof
  fix j
  have "count_list (ps_answered s) j + (if j \<in> fst ` set (ps_pending s) then 1 else 0) \<le> count_list (ps_registered s) j"
    using assms by (simp add: answers_ok_def)
  moreover have "fst ` set (AList.update i inp (ps_pending s)) = insert i (fst ` set (ps_pending s))"
    by (metis AList.dom_update image_set list.simps(15) set_append sup_bot_right insert_is_Un Un_commute dom_map_of_conv_image_fst)
  ultimately show "count_list (ps_answered (s\<lparr>ps_todo := acts, ps_pending := AList.update i inp (ps_pending s),
      ps_registered := i # ps_registered s\<rparr>)) j + (if j \<in> fst ` set (ps_pending (s\<lparr>ps_todo := acts,
      ps_pending := AList.update i inp (ps_pending s), ps_registered := i # ps_registered s\<rparr>)) then 1 else 0) \<le>
      count_list (ps_registered (s\<lparr>ps_todo := acts, ps_pending := AList.update i inp (ps_pending s),
      ps_registered := i # ps_registered s\<rparr>)) j"
    by (auto split: if_splits)
qed

lemma answers_ok_pumpAct:
  assumes "answers_ok s" shows "answers_ok (pumpAct now d s)"
proof (cases "\<exists>i inp acts. ps_todo s = AddPending i inp # acts")
  case True
  then show ?thesis using answers_ok_AddPending [OF assms] by (auto simp: pumpAct_def)
next
  case False
  then show ?thesis
    by (intro answers_okI [OF assms])
       (auto simp: pumpAct_def emit_def completeTurn_def AList.delete_eq split: list.splits pump_act.splits if_splits)
qed

lemma answers_ok_step:
  assumes "session_step tr s s'" "answers_ok s"
  shows "answers_ok s'"
  using assms(1)
proof cases
  case (respond i r)
  then show ?thesis using answers_ok_Respond [OF assms(2)] by simp
next
  case (act now d)
  then show ?thesis using answers_ok_pumpAct [OF assms(2)] by simp
qed (rule answers_okI [OF assms(2)];
     simp add: Send_def sendControl_def Close_def pumpEvent_def pumpEnd_def Let_def split: option.splits SessionState.splits)+

lemma answers_ok_reachable: "session_reachable tr s \<Longrightarrow> answers_ok s"
proof (induction rule: session_reachable.induct)
  case (start now)
  show ?case by (simp add: answers_ok_def openSession_def)
next
  case (step s s')
  show ?case by (rule answers_ok_step [OF step.hyps(2) step.IH])
qed

text \<open>After the process has ended, three actions of the pump close the streams.\<close>

lemma pump_terminates:
  assumes "\<not> ps_cancelled s"
  shows "let s' = pumpAct t3 d3 (pumpAct t2 d2 (pumpAct t1 d1 (pumpEnd reason s))) in
    ps_done s' \<and> ps_state s' = SessionStateTerminated \<and> ps_todo s' = [] \<and>
    ps_events s' = ps_events s @ [SessionStateEvent reason]"
  using assms by (simp add: pumpEnd_def pumpAct_def emit_def Let_def)

lemma steps_reachable:
  assumes "(session_step tr)\<^sup>*\<^sup>* s s'" "session_reachable tr s"
  shows "session_reachable tr s'"
  using assms by (induction rule: rtranclp_induct) (auto intro: session_reachable.step)

lemma terminated_step:
  assumes "session_ok s" "session_step tr s s'" "ps_state s = SessionStateTerminated"
  shows "ps_state s' = SessionStateTerminated"
  using assms(2)
proof cases
  case (act now d)
  then show ?thesis using assms(3)
    by (auto simp: pumpAct_def completeTurn_def split: list.splits pump_act.splits)
next
  case (read ts ev k now)
  then show ?thesis using assms(1,3) by (simp add: session_ok_def)
next
  case (ended r)
  then show ?thesis using assms(3) by (simp add: pumpEnd_def)
qed (use assms(3) in \<open>auto simp: Send_def Respond_def sendControl_def Close_def Let_def split: option.splits\<close>)

lemma done_step:
  assumes "session_ok s" "session_step tr s s'" "ps_done s"
  shows "ps_done s' \<and> ps_events s' = ps_events s"
proof -
  have e: "ps_ended s" "ps_todo s = []" using assms(1,3) by (auto simp: session_ok_def ending_def split: if_splits)
  show ?thesis using assms(2)
    by cases (use e assms(3) in \<open>auto simp: Send_def Respond_def sendControl_def Close_def Let_def
      split: option.splits SessionState.splits\<close>)
qed

lemma pumpAct_complete: "ps_todo s = CompleteTurn e # acts \<Longrightarrow> pumpAct now d s = completeTurn now e s"
  by (simp add: pumpAct_def)

section \<open>Properties of sessions\<close>

text \<open>
  C26 (safety): closing a session is final: whatever its callers, its pump and the process do from a
  reachable state on, a session that is closing or terminated is never idle or running again, a
  terminated one stays terminated, and once the event stream is closed no event is written to it any more.
\<close>

theorem closed_session_final:
  assumes "session_reachable tr s" "(session_step tr)\<^sup>*\<^sup>* s s'"
  shows "(ps_state s \<in> {SessionStateClosing, SessionStateTerminated} \<longrightarrow>
      ps_state s' \<in> {SessionStateClosing, SessionStateTerminated} \<and>
      Send tr now prompt s' = (Some ErrSessionClosed, s')) \<and>
    (ps_state s = SessionStateTerminated \<longrightarrow> ps_state s' = SessionStateTerminated) \<and>
    (ps_done s \<longrightarrow> ps_done s' \<and> ps_events s' = ps_events s \<and> ps_state s' = SessionStateTerminated)"
proof -
  have "session_reachable tr s' \<and> (closed_or_closing s \<longrightarrow> closed_or_closing s') \<and>
      (ps_state s = SessionStateTerminated \<longrightarrow> ps_state s' = SessionStateTerminated) \<and>
      (ps_done s \<longrightarrow> ps_done s' \<and> ps_events s' = ps_events s)"
    using assms(2)
  proof (induction rule: rtranclp_induct)
    case base
    show ?case using assms(1) by simp
  next
    case (step y z)
    have ok: "session_ok y" using step.IH session_ok_reachable by blast
    show ?case using step.IH step.hyps(2) terminated_step [OF ok step.hyps(2)] done_step [OF ok step.hyps(2)]
        step_keeps_closed [OF step.hyps(2)] session_reachable.step by metis
  qed
  then show ?thesis using session_ok_reachable [of tr s']
    by (auto simp: closed_or_closing_def Send_def session_ok_def ending_def split: if_splits)
qed

text \<open>A transport that encodes everything as it is, for the witnesses.\<close>

definition plainTransport :: transport where
  "plainTransport = \<lparr>EncodeUserMessage = (\<lambda>p. p), EncodeControlResponse = (\<lambda>i r inp. Some (i @ r)),
     EncodeControlRequest = Some (\<lambda>i r. Some i)\<rparr>"

theorem closed_session_final_witness:
  "ps_state (Close (openSession 1)) = SessionStateClosing \<and>
   ps_state (completeTurn 3 None (pumpEvent 2 ''r'' False EventKindTerminalSuccess (Close (openSession 1)))) \<in>
     {SessionStateClosing, SessionStateTerminated}"
proof -
  let ?c = "Close (openSession 1)"
  let ?r = "pumpEvent 2 ''r'' False EventKindTerminalSuccess ?c"
  let ?e = "pumpAct 3 True ?r"
  have c: "session_reachable plainTransport ?c" by (rule session_reachable.step [OF session_reachable.start session_step.close])
  have t: "ps_todo ?r = [CompleteTurn None]" by (simp add: pumpEvent_def Let_def pumpActs_def)
  have "session_step plainTransport ?c ?r" by (rule session_step.read) (simp_all add: openSession_def Close_def)
  moreover have "session_step plainTransport ?r ?e" by (rule session_step.act) (simp add: t)
  ultimately have "(session_step plainTransport)\<^sup>*\<^sup>* ?c ?e" by (meson converse_rtranclp_into_rtranclp rtranclp.rtrancl_refl)
  note f = closed_session_final [OF c this, of 0 "[]"]
  have st: "ps_state ?c = SessionStateClosing" by (simp add: Close_def openSession_def)
  have e: "?e = completeTurn 3 None ?r" by (rule pumpAct_complete [OF t])
  show ?thesis using f [THEN conjunct1] st unfolding e by blast
qed

text \<open>
  C27 (invariant): in every reachable state, whatever the interleaving of the answering callers with the
  pump, a control request has been answered at most as often as the agent has raised it, and one that is
  still pending is short of an answer: two concurrent answers to one request never both reach the agent.
\<close>

theorem control_answered_once:
  assumes "session_reachable tr s"
  shows "count_list (ps_answered s) i \<le> count_list (ps_registered s) i \<and>
    (map_of (ps_pending s) i \<noteq> None \<longrightarrow> count_list (ps_answered s) i < count_list (ps_registered s) i) \<and>
    (map_of (ps_pending s) i = None \<longrightarrow> fst (Respond tr i r s) \<noteq> None \<and> snd (Respond tr i r s) = s)"
proof -
  have "count_list (ps_answered s) i + (if i \<in> fst ` set (ps_pending s) then 1 else 0) \<le> count_list (ps_registered s) i"
    using answers_ok_reachable [OF assms] by (simp add: answers_ok_def)
  moreover have "map_of (ps_pending s) i = None \<Longrightarrow> fst (Respond tr i r s) \<noteq> None \<and> snd (Respond tr i r s) = s"
    by (simp add: Respond_def)
  ultimately show ?thesis by (auto simp: map_of_eq_None_iff split: if_splits)
qed

theorem control_answered_once_witness:
  "\<exists>s. session_reachable plainTransport s \<and> ps_answered s = [''q''] \<and> ps_registered s = [''q''] \<and>
     fst (Respond plainTransport ''q'' ''yes'' s) \<noteq> None"
proof -
  let ?o = "openSession 1"
  let ?r = "pumpEvent 2 ''e'' False (EventKindControl (Some (ApprovalRequestEvent ''q'' ''ls''))) ?o"
  let ?a = "pumpAct 3 True ?r"
  let ?b = "snd (Respond plainTransport ''q'' ''yes'' ?a)"
  have t: "ps_todo ?r = [AddPending ''q'' ''ls'', Emit (ApprovalRequestEvent ''q'' ''ls'')]"
    by (simp add: pumpEvent_def Let_def pumpActs_def controlActs_def)
  have 1: "session_step plainTransport ?o ?r" by (rule session_step.read) (simp_all add: openSession_def)
  have 2: "session_step plainTransport ?r ?a" by (rule session_step.act) (simp add: t)
  have r: "session_reachable plainTransport ?b"
    by (rule session_reachable.step [OF session_reachable.step [OF session_reachable.step
        [OF session_reachable.start 1] 2] session_step.respond])
  have f: "ps_answered ?b = [''q'']" "ps_registered ?b = [''q'']" "ps_pending ?b = []"
    by (simp_all add: pumpAct_def t Respond_def Let_def plainTransport_def)
       (simp_all add: pumpEvent_def openSession_def Let_def)
  show ?thesis using control_answered_once [OF r, of "''q''" "''yes''"] r f by auto
qed

text \<open>A closing session still answers the agent's requests.\<close>

lemma closing_session_answers:
  assumes "ps_state s = SessionStateClosing" "map_of (ps_pending s) i = Some inp" "EncodeControlResponse tr i r inp = Some w"
  shows "fst (Respond tr i r s) = None"
  using assms by (simp add: Respond_def)

text \<open>
  An interrupt is decided on one reading of the state and written later: the turn it was meant for may be
  over and the next one running when it is written.
\<close>

lemma interrupt_hits_next_turn:
  "\<exists>s s'. session_reachable plainTransport s \<and> Interrupt s = Inr InterruptRequest \<and>
     (session_step plainTransport)\<^sup>*\<^sup>* s s' \<and> ps_state s' = SessionStateRunning \<and> ps_turnStart s' \<noteq> ps_turnStart s \<and>
     fst (sendControl plainTransport InterruptRequest s') = None"
proof -
  let ?o = "openSession 1"
  let ?r = "pumpEvent 2 ''r'' False EventKindTerminalSuccess ?o"
  let ?e = "pumpAct 3 True ?r"
  let ?n = "snd (Send plainTransport 4 ''p'' ?e)"
  have t: "ps_todo ?r = [CompleteTurn None]" by (simp add: pumpEvent_def Let_def pumpActs_def)
  have 1: "session_step plainTransport ?o ?r" by (rule session_step.read) (simp_all add: openSession_def)
  have 2: "session_step plainTransport ?r ?e" by (rule session_step.act) (simp add: t)
  have 3: "session_step plainTransport ?e ?n" by (rule session_step.send)
  have s: "(session_step plainTransport)\<^sup>*\<^sup>* ?o ?n" using 1 2 3 by (meson converse_rtranclp_into_rtranclp rtranclp.rtrancl_refl)
  have "ps_state ?e = SessionStateIdle" by (simp add: pumpAct_def t completeTurn_def) (simp add: pumpEvent_def openSession_def Let_def)
  then have "ps_state ?n = SessionStateRunning" "ps_turnStart ?n = 4" by (simp_all add: Send_def)
  moreover have "Interrupt ?o = Inr InterruptRequest" "ps_turnStart ?o = 1" by (simp_all add: Interrupt_def openSession_def)
  ultimately show ?thesis using s session_reachable.start
    by (intro exI [of _ ?o] exI [of _ ?n]) (auto simp: sendControl_def plainTransport_def)
qed

end
