(* ===== verification/TB_Pool.thy ===== *)
theory TB_Pool
  imports TB_Session
begin

text \<open>
  The pool of long-lived sessions (\<^verbatim>\<open>agentboot/pool/pool.go\<close>): at most one session per key, a capacity,
  and eviction of the idle session touched longest ago.  A session is named by a number; what its
  \<^verbatim>\<open>Status\<close> returns while the pool holds its mutex is the argument \<open>st\<close> of each operation, since the
  pool reads every session's status at most once per operation.  The operations that close sessions do so
  after they release the mutex: \<open>pl_closing\<close> holds the sessions whose \<^verbatim>\<open>Close\<close> is still to be called.
\<close>

section \<open>The pool\<close>

record pool_config =
  MaxSessions :: int
  IdleTimeout :: duration
  SweepInterval :: duration
  CloseTimeout :: duration

definition normalizeConfig :: "pool_config \<Rightarrow> pool_config" where
  "normalizeConfig cfg =
     (let c1 = (if CloseTimeout cfg \<le> 0 then cfg\<lparr>CloseTimeout := 10 * Second\<rparr> else cfg) in
      if IdleTimeout c1 > 0 \<and> SweepInterval c1 \<le> 0
      then (let i = IdleTimeout c1 div 4 in c1\<lparr>SweepInterval := (if i < Second then Second else i)\<rparr>)
      else c1)"

record pool_entry =
  pe_session :: nat
  pe_lastActivity :: time

record Pool =
  pl_cfg :: pool_config
  pl_entries :: "(string \<times> pool_entry) list"
  pl_closing :: "nat list"

datatype pool_error = ErrKeyAlreadyOpen | ErrFull

definition New :: "pool_config \<Rightarrow> Pool" where
  "New cfg = \<lparr>pl_cfg = normalizeConfig cfg, pl_entries = [], pl_closing = []\<rparr>"

definition Acquire :: "(nat \<Rightarrow> SessionState) \<Rightarrow> string \<Rightarrow> Pool \<Rightarrow> nat option \<times> Pool" where
  "Acquire st k p =
     (case map_of (pl_entries p) k of
        None \<Rightarrow> (None, p)
      | Some e \<Rightarrow>
          (if st (pe_session e) = SessionStateTerminated then (None, p\<lparr>pl_entries := AList.delete k (pl_entries p)\<rparr>)
           else (Some (pe_session e), p)))"

definition Touch :: "time \<Rightarrow> string \<Rightarrow> Pool \<Rightarrow> Pool" where
  "Touch now k p = p\<lparr>pl_entries := map (\<lambda>(k', e). (k', if k' = k then e\<lparr>pe_lastActivity := now\<rparr> else e)) (pl_entries p)\<rparr>"

fun lruIdle :: "(nat \<Rightarrow> SessionState) \<Rightarrow> string \<Rightarrow> (string \<times> pool_entry) list \<Rightarrow> (string \<times> pool_entry) option \<Rightarrow>
    (string \<times> pool_entry) option" where
  "lruIdle st x [] oldest = oldest"
| "lruIdle st x ((k, e) # es) oldest =
     (if k = x \<or> st (pe_session e) \<noteq> SessionStateIdle then lruIdle st x es oldest
      else
        (case oldest of
           None \<Rightarrow> lruIdle st x es (Some (k, e))
         | Some (k', e') \<Rightarrow>
             lruIdle st x es (if pe_lastActivity e < pe_lastActivity e' then Some (k, e) else oldest)))"

definition lruIdleLocked :: "(nat \<Rightarrow> SessionState) \<Rightarrow> string \<Rightarrow> Pool \<Rightarrow> (string \<times> pool_entry) option" where
  "lruIdleLocked st excludeKey p = lruIdle st excludeKey (pl_entries p) None"

definition Open :: "(nat \<Rightarrow> SessionState) \<Rightarrow> time \<Rightarrow> string \<Rightarrow> nat \<Rightarrow> Pool \<Rightarrow> pool_error option \<times> Pool" where
  "Open st now k sess p =
     (if (\<exists>e. map_of (pl_entries p) k = Some e \<and> st (pe_session e) \<noteq> SessionStateTerminated)
      then (Some ErrKeyAlreadyOpen, p)
      else
        (let new = AList.update k \<lparr>pe_session = sess, pe_lastActivity = now\<rparr> in
         if MaxSessions (pl_cfg p) > 0 \<and> MaxSessions (pl_cfg p) \<le> int (length (pl_entries p)) then
           (case lruIdleLocked st k p of
              None \<Rightarrow> (Some ErrFull, p)
            | Some (k', e') \<Rightarrow>
                (None, p\<lparr>pl_entries := new (AList.delete k' (pl_entries p)), pl_closing := pl_closing p @ [pe_session e']\<rparr>))
         else (None, p\<lparr>pl_entries := new (pl_entries p)\<rparr>)))"

definition CloseAndRemove :: "string \<Rightarrow> Pool \<Rightarrow> Pool" where
  "CloseAndRemove k p =
     (case map_of (pl_entries p) k of
        None \<Rightarrow> p
      | Some e \<Rightarrow> p\<lparr>pl_entries := AList.delete k (pl_entries p), pl_closing := pl_closing p @ [pe_session e]\<rparr>)"

definition Remove :: "string \<Rightarrow> Pool \<Rightarrow> Pool" where
  "Remove k p = p\<lparr>pl_entries := AList.delete k (pl_entries p)\<rparr>"

definition Len :: "Pool \<Rightarrow> nat" where "Len p = length (pl_entries p)"

definition removeWhere :: "(string \<times> pool_entry \<Rightarrow> bool) \<Rightarrow> Pool \<Rightarrow> Pool" where
  "removeWhere P p =
     p\<lparr>pl_entries := filter (\<lambda>x. \<not> P x) (pl_entries p),
       pl_closing := pl_closing p @ map (pe_session \<circ> snd) (filter P (pl_entries p))\<rparr>"

definition sweepIdle :: "(nat \<Rightarrow> SessionState) \<Rightarrow> time \<Rightarrow> Pool \<Rightarrow> Pool" where
  "sweepIdle st now p =
     (let cutoff = now - IdleTimeout (pl_cfg p) in
      removeWhere (\<lambda>(k, e). st (pe_session e) = SessionStateIdle \<and> pe_lastActivity e < cutoff) p)"

definition CloseAllWhere :: "(string \<Rightarrow> bool) \<Rightarrow> Pool \<Rightarrow> nat \<times> Pool" where
  "CloseAllWhere match p =
     (length (filter (\<lambda>(k, e). match k) (pl_entries p)), removeWhere (\<lambda>(k, e). match k) p)"

definition Shutdown :: "Pool \<Rightarrow> Pool" where
  "Shutdown p = p\<lparr>pl_entries := [], pl_closing := pl_closing p @ map (pe_session \<circ> snd) (pl_entries p)\<rparr>"

text \<open>
  A pool with the sessions it names: \<open>closeEntry\<close> calls \<^verbatim>\<open>Close\<close> on a session that is to be closed, and the
  sessions take steps of their own in between.
\<close>

type_synonym pool_system = "Pool \<times> (nat \<Rightarrow> PersistentSession)"

definition statusOf :: "(nat \<Rightarrow> PersistentSession) \<Rightarrow> nat \<Rightarrow> SessionState" where
  "statusOf ss i = ps_state (ss i)"

definition closeEntry :: "nat \<Rightarrow> pool_system \<Rightarrow> pool_system" where
  "closeEntry i q = (case q of (p, ss) \<Rightarrow> (p\<lparr>pl_closing := remove1 i (pl_closing p)\<rparr>, ss(i := Close (ss i))))"

inductive pool_step :: "transport \<Rightarrow> pool_system \<Rightarrow> pool_system \<Rightarrow> bool" for tr where
  acquire: "pool_step tr (p, ss) (snd (Acquire (statusOf ss) k p), ss)"
| touch: "pool_step tr (p, ss) (Touch now k p, ss)"
| opened: "i \<notin> pe_session ` snd ` set (pl_entries p) \<Longrightarrow> i \<notin> set (pl_closing p) \<Longrightarrow>
    pool_step tr (p, ss) (snd (Open (statusOf ss) now k i p), ss)"
| close_remove: "pool_step tr (p, ss) (CloseAndRemove k p, ss)"
| remove: "pool_step tr (p, ss) (Remove k p, ss)"
| sweep: "pool_step tr (p, ss) (sweepIdle (statusOf ss) now p, ss)"
| close_where: "pool_step tr (p, ss) (snd (CloseAllWhere match p), ss)"
| shutdown: "pool_step tr (p, ss) (Shutdown p, ss)"
| close_entry: "i \<in> set (pl_closing p) \<Longrightarrow> pool_step tr (p, ss) (closeEntry i (p, ss))"
| session: "session_step tr (ss i) s' \<Longrightarrow> pool_step tr (p, ss) (p, ss(i := s'))"

inductive pool_reachable :: "transport \<Rightarrow> pool_config \<Rightarrow> pool_system \<Rightarrow> bool" for tr cfg where
  start: "(\<forall>i. session_reachable tr (ss i)) \<Longrightarrow> pool_reachable tr cfg (New cfg, ss)"
| step: "pool_reachable tr cfg q \<Longrightarrow> pool_step tr q q' \<Longrightarrow> pool_reachable tr cfg q'"

section \<open>Facts about the pool\<close>

definition evictable :: "(nat \<Rightarrow> SessionState) \<Rightarrow> string \<Rightarrow> (string \<times> pool_entry) list \<Rightarrow> (string \<times> pool_entry) set" where
  "evictable st x es = {ke \<in> set es. fst ke \<noteq> x \<and> st (pe_session (snd ke)) = SessionStateIdle}"

lemma evictable_Cons:
  "evictable st x (ke # es) = (if fst ke = x \<or> st (pe_session (snd ke)) \<noteq> SessionStateIdle then evictable st x es
     else insert ke (evictable st x es))"
  by (auto simp: evictable_def)

lemma lruIdle_spec:
  "case lruIdle st x es oldest of
     None \<Rightarrow> oldest = None \<and> evictable st x es = {}
   | Some w \<Rightarrow> (w \<in> evictable st x es \<or> oldest = Some w) \<and>
       (\<forall>v \<in> evictable st x es \<union> set_option oldest. pe_lastActivity (snd w) \<le> pe_lastActivity (snd v))"
proof (induction st x es oldest rule: lruIdle.induct)
  case (1 st x oldest)
  show ?case by (cases oldest) (auto simp: evictable_def)
next
  case (2 st x k e es oldest)
  show ?case
  proof (cases "k = x \<or> st (pe_session e) \<noteq> SessionStateIdle")
    case True
    then have e: "evictable st x ((k, e) # es) = evictable st x es" "lruIdle st x ((k, e) # es) oldest = lruIdle st x es oldest"
      by (auto simp: evictable_Cons)
    show ?thesis unfolding e by (rule 2(1) [OF True])
  next
    case False
    show ?thesis
    proof (cases oldest)
      case None
      then show ?thesis using 2(2) [OF False None] False by (auto simp: evictable_Cons split: option.splits)
    next
      case (Some o')
      then obtain k' e' where o: "oldest = Some (k', e')" by (cases o') auto
      show ?thesis using 2(3) [OF False o refl] False o
        by (fastforce simp: evictable_Cons split: option.splits if_splits)
    qed
  qed
qed

lemma lruIdleLocked_spec:
  "case lruIdleLocked st k p of
     None \<Rightarrow> evictable st k (pl_entries p) = {}
   | Some w \<Rightarrow> w \<in> evictable st k (pl_entries p) \<and>
       (\<forall>v \<in> evictable st k (pl_entries p). pe_lastActivity (snd w) \<le> pe_lastActivity (snd v))"
  using lruIdle_spec [where st = st and x = k and es = "pl_entries p" and oldest = None] by (auto simp: lruIdleLocked_def split: option.splits)

text \<open>Every key once, never more entries than the capacity, and no session under two keys or both resident and closing.\<close>

definition pool_ok :: "Pool \<Rightarrow> bool" where
  "pool_ok p \<longleftrightarrow> distinct (map fst (pl_entries p)) \<and>
     (MaxSessions (pl_cfg p) > 0 \<longrightarrow> int (length (pl_entries p)) \<le> MaxSessions (pl_cfg p)) \<and>
     distinct (map (pe_session \<circ> snd) (pl_entries p) @ pl_closing p)"

definition residents :: "Pool \<Rightarrow> nat list" where
  "residents p = map (pe_session \<circ> snd) (pl_entries p)"

lemma delete_filter: "AList.delete k es = filter (\<lambda>x. fst x \<noteq> k) es"
  by (auto simp: AList.delete_eq intro!: filter_cong)

lemma distinct_map_partition:
  "distinct (map f xs) \<Longrightarrow> distinct (map f (filter (\<lambda>x. \<not> P x) xs) @ map f (filter P xs))"
  by (induction xs) auto

lemma distinct_partition_append:
  assumes "distinct (map f xs @ ys)"
  shows "distinct (map f (filter (\<lambda>x. \<not> P x) xs) @ ys @ map f (filter P xs))"
  using assms distinct_map_partition [of f xs P] by auto

lemma pool_ok_removeWhere: "pool_ok p \<Longrightarrow> pool_ok (removeWhere P p)"
  using distinct_partition_append [of "pe_session \<circ> snd" "pl_entries p" "pl_closing p" P]
    length_filter_le [of "\<lambda>x. \<not> P x" "pl_entries p"]
  by (auto simp: pool_ok_def removeWhere_def distinct_map_filter simp del: length_filter_le)

lemma pool_ok_Remove: "pool_ok p \<Longrightarrow> pool_ok (Remove k p)"
  using length_filter_le [of "\<lambda>x. fst x \<noteq> k" "pl_entries p"]
  by (auto simp: pool_ok_def Remove_def delete_filter distinct_map_filter simp del: length_filter_le)

lemma filter_key:
  assumes "distinct (map fst es)" "map_of es k = Some e"
  shows "filter (\<lambda>x. fst x = k) es = [(k, e)]"
  using assms
proof (induction es)
  case (Cons a es)
  show ?case
  proof (cases "fst a = k")
    case True
    then have "k \<notin> fst ` set es" using Cons.prems by auto
    then have "filter (\<lambda>x. fst x = k) es = []" by (force simp: filter_empty_conv)
    then show ?thesis using Cons.prems True by (cases a) auto
  next
    case False
    then show ?thesis using Cons by (cases a) auto
  qed
qed simp

lemma CloseAndRemove_where:
  assumes "distinct (map fst (pl_entries p))"
  shows "CloseAndRemove k p = removeWhere (\<lambda>x. fst x = k) p"
proof (cases "map_of (pl_entries p) k")
  case None
  then have "k \<notin> fst ` set (pl_entries p)" by (simp add: map_of_eq_None_iff)
  then have "filter (\<lambda>x. fst x = k) (pl_entries p) = []" "filter (\<lambda>x. fst x \<noteq> k) (pl_entries p) = pl_entries p"
    by (auto simp: filter_empty_conv filter_id_conv)
  then show ?thesis using None by (simp add: CloseAndRemove_def removeWhere_def)
next
  case (Some e)
  then show ?thesis using filter_key [OF assms Some] by (simp add: CloseAndRemove_def removeWhere_def delete_filter)
qed

lemma Shutdown_where: "Shutdown p = removeWhere (\<lambda>x. True) p"
  by (simp add: Shutdown_def removeWhere_def)

lemma Touch_keeps: "pool_ok p \<Longrightarrow> pool_ok (Touch now k p)"
proof -
  have "map fst (pl_entries (Touch now k p)) = map fst (pl_entries p)"
    "map (pe_session \<circ> snd) (pl_entries (Touch now k p)) = map (pe_session \<circ> snd) (pl_entries p)"
    by (auto simp: Touch_def case_prod_unfold)
  moreover have "length (pl_entries (Touch now k p)) = length (pl_entries p)" "pl_closing (Touch now k p) = pl_closing p"
    "pl_cfg (Touch now k p) = pl_cfg p" by (simp_all add: Touch_def)
  ultimately show "pool_ok p \<Longrightarrow> pool_ok (Touch now k p)" by (simp add: pool_ok_def)
qed

definition putEntry :: "string \<Rightarrow> pool_entry \<Rightarrow> Pool \<Rightarrow> Pool" where
  "putEntry k e p = p\<lparr>pl_entries := AList.update k e (pl_entries p)\<rparr>"

lemma map_fst_update: "map fst (AList.update k e es) = (if k \<in> fst ` set es then map fst es else map fst es @ [k])"
  by (induction es) auto

lemma length_update: "length (AList.update k e es) \<le> Suc (length es)"
  using arg_cong [OF map_fst_update [of k e es], of length] by (simp split: if_splits)

lemma sessions_update:
  "distinct (map (f \<circ> snd) es @ ys) \<Longrightarrow> f e \<notin> set (map (f \<circ> snd) es @ ys) \<Longrightarrow>
   distinct (map (f \<circ> snd) (AList.update k e es) @ ys) \<and>
   set (map (f \<circ> snd) (AList.update k e es)) \<subseteq> insert (f e) (set (map (f \<circ> snd) es))"
  by (induction es) auto

lemma pool_ok_putEntry:
  assumes "pool_ok p" "MaxSessions (pl_cfg p) > 0 \<longrightarrow> int (length (pl_entries p)) < MaxSessions (pl_cfg p)"
    "pe_session e \<notin> pe_session ` snd ` set (pl_entries p)" "pe_session e \<notin> set (pl_closing p)"
  shows "pool_ok (putEntry k e p)"
proof -
  have "distinct (map (pe_session \<circ> snd) (AList.update k e (pl_entries p)) @ pl_closing p)"
    using sessions_update [of pe_session "pl_entries p" "pl_closing p" e k] assms by (auto simp: pool_ok_def image_image)
  then show ?thesis using assms(1,2) length_update [of k e "pl_entries p"]
    by (auto simp: pool_ok_def putEntry_def map_fst_update)
qed

text \<open>What \<open>Open\<close> does, by cases.\<close>

lemma Open_cases:
  assumes "distinct (map fst (pl_entries p))"
  obtains (live) e where "map_of (pl_entries p) k = Some e" "st (pe_session e) \<noteq> SessionStateTerminated"
      "Open st now k i p = (Some ErrKeyAlreadyOpen, p)"
  | (full) "\<nexists>e. map_of (pl_entries p) k = Some e \<and> st (pe_session e) \<noteq> SessionStateTerminated"
      "0 < MaxSessions (pl_cfg p)" "MaxSessions (pl_cfg p) \<le> int (length (pl_entries p))"
      "evictable st k (pl_entries p) = {}" "Open st now k i p = (Some ErrFull, p)"
  | (evicts) k' e' where "\<nexists>e. map_of (pl_entries p) k = Some e \<and> st (pe_session e) \<noteq> SessionStateTerminated"
      "0 < MaxSessions (pl_cfg p)" "MaxSessions (pl_cfg p) \<le> int (length (pl_entries p))"
      "(k', e') \<in> evictable st k (pl_entries p)"
      "\<forall>v \<in> evictable st k (pl_entries p). pe_lastActivity e' \<le> pe_lastActivity (snd v)"
      "Open st now k i p = (None, putEntry k \<lparr>pe_session = i, pe_lastActivity = now\<rparr> (CloseAndRemove k' p))"
  | (room) "\<nexists>e. map_of (pl_entries p) k = Some e \<and> st (pe_session e) \<noteq> SessionStateTerminated"
      "\<not> (0 < MaxSessions (pl_cfg p) \<and> MaxSessions (pl_cfg p) \<le> int (length (pl_entries p)))"
      "Open st now k i p = (None, putEntry k \<lparr>pe_session = i, pe_lastActivity = now\<rparr> p)"
proof -
  consider (a) "\<exists>e. map_of (pl_entries p) k = Some e \<and> st (pe_session e) \<noteq> SessionStateTerminated"
    | (b) "\<nexists>e. map_of (pl_entries p) k = Some e \<and> st (pe_session e) \<noteq> SessionStateTerminated"
        "\<not> (0 < MaxSessions (pl_cfg p) \<and> MaxSessions (pl_cfg p) \<le> int (length (pl_entries p)))"
    | (c) "\<nexists>e. map_of (pl_entries p) k = Some e \<and> st (pe_session e) \<noteq> SessionStateTerminated"
        "0 < MaxSessions (pl_cfg p)" "MaxSessions (pl_cfg p) \<le> int (length (pl_entries p))" by blast
  then show thesis
  proof cases
    case a
    then show thesis using live by (auto simp: Open_def)
  next
    case b
    then have "Open st now k i p = (None, putEntry k \<lparr>pe_session = i, pe_lastActivity = now\<rparr> p)"
      unfolding Open_def putEntry_def Let_def by (simp only: if_False)
    then show thesis using room b by blast
  next
    case c
    show thesis
    proof (cases "lruIdleLocked st k p")
      case None
      have "Open st now k i p = (Some ErrFull, p)" using c None by (simp add: Open_def Let_def)
      then show thesis using full c lruIdleLocked_spec [where st = st and k = k and p = p] None by simp
    next
      case (Some w)
      obtain k' e' where w: "w = (k', e')" by fastforce
      have ev: "(k', e') \<in> evictable st k (pl_entries p)"
        "\<forall>v \<in> evictable st k (pl_entries p). pe_lastActivity e' \<le> pe_lastActivity (snd v)"
        using lruIdleLocked_spec [where st = st and k = k and p = p] Some w by simp_all
      have "map_of (pl_entries p) k' = Some e'" using ev(1) assms by (simp add: evictable_def)
      then have "Open st now k i p = (None, putEntry k \<lparr>pe_session = i, pe_lastActivity = now\<rparr> (CloseAndRemove k' p))"
        using c Some w by (simp add: Open_def Let_def CloseAndRemove_def putEntry_def)
      then show thesis using evicts c ev by blast
    qed
  qed
qed

definition fresh :: "nat \<Rightarrow> Pool \<Rightarrow> bool" where
  "fresh i p \<longleftrightarrow> i \<notin> pe_session ` snd ` set (pl_entries p) \<and> i \<notin> set (pl_closing p)"

lemma length_CloseAndRemove:
  "k' \<in> fst ` set (pl_entries p) \<Longrightarrow> length (pl_entries (CloseAndRemove k' p)) < length (pl_entries p)"
proof -
  assume k: "k' \<in> fst ` set (pl_entries p)"
  then obtain e where e: "map_of (pl_entries p) k' = Some e" by (metis map_of_eq_None_iff not_None_eq)
  have "length (filter (\<lambda>x. fst x \<noteq> k') (pl_entries p)) < length (pl_entries p)"
    using k by (intro length_filter_less [OF map_of_SomeD [OF e]]) simp
  then show ?thesis using e by (simp add: CloseAndRemove_def delete_filter)
qed

lemma removeWhere_fresh: "fresh i p \<Longrightarrow> fresh i (removeWhere P p)"
  by (auto simp: fresh_def removeWhere_def image_iff)

lemma pl_cfg_CloseAndRemove [simp]: "pl_cfg (CloseAndRemove k p) = pl_cfg p"
  by (simp add: CloseAndRemove_def split: option.splits)

lemma pool_ok_Open:
  assumes "pool_ok p" "fresh i p"
  shows "pool_ok (snd (Open st now k i p))"
proof -
  have d: "distinct (map fst (pl_entries p))" using assms(1) by (simp add: pool_ok_def)
  show ?thesis
  proof (rule Open_cases [OF d, of k st now i])
    fix k' e'
    assume h: "(k', e') \<in> evictable st k (pl_entries p)"
      "Open st now k i p = (None, putEntry k \<lparr>pe_session = i, pe_lastActivity = now\<rparr> (CloseAndRemove k' p))"
    let ?q = "CloseAndRemove k' p"
    have q: "pool_ok ?q" "fresh i ?q"
      using assms by (simp_all add: CloseAndRemove_where [OF d] pool_ok_removeWhere removeWhere_fresh)
    have "length (pl_entries ?q) < length (pl_entries p)"
      using h(1) by (intro length_CloseAndRemove) (force simp: evictable_def)
    then have "pool_ok (putEntry k \<lparr>pe_session = i, pe_lastActivity = now\<rparr> ?q)"
      using q assms(1) by (intro pool_ok_putEntry) (auto simp: fresh_def pool_ok_def)
    then show ?thesis using h(2) by simp
  next
    assume h: "\<not> (0 < MaxSessions (pl_cfg p) \<and> MaxSessions (pl_cfg p) \<le> int (length (pl_entries p)))"
      "Open st now k i p = (None, putEntry k \<lparr>pe_session = i, pe_lastActivity = now\<rparr> p)"
    have "pool_ok (putEntry k \<lparr>pe_session = i, pe_lastActivity = now\<rparr> p)"
      using assms h(1) by (intro pool_ok_putEntry) (auto simp: fresh_def)
    then show ?thesis using h(2) by simp
  qed (use assms in simp_all)
qed

lemma pool_ok_CloseAndRemove: "pool_ok p \<Longrightarrow> pool_ok (CloseAndRemove k p)"
  by (metis CloseAndRemove_where pool_ok_def pool_ok_removeWhere)

lemma pool_ok_Acquire: "pool_ok p \<Longrightarrow> pool_ok (snd (Acquire st k p))"
  using pool_ok_Remove [of p k] by (simp add: Acquire_def Remove_def split: option.splits)

lemma pool_ok_closeEntry: "pool_ok p \<Longrightarrow> pool_ok (fst (closeEntry i (p, ss)))"
  by (auto simp: closeEntry_def pool_ok_def dest: notin_set_remove1 split: if_splits)

lemma pool_ok_step: "pool_step tr q q' \<Longrightarrow> pool_ok (fst q) \<Longrightarrow> pool_ok (fst q')"
proof (induction rule: pool_step.induct)
  case (opened i p ss now k)
  then show ?case using pool_ok_Open [of p i] by (simp add: fresh_def)
next
  case (close_entry i p ss)
  then show ?case using pool_ok_closeEntry by simp
qed (simp_all add: pool_ok_Acquire Touch_keeps pool_ok_CloseAndRemove pool_ok_Remove sweepIdle_def CloseAllWhere_def
      Shutdown_where Let_def pool_ok_removeWhere)

lemma pl_cfg_ops [simp]:
  "pl_cfg (snd (Open st now k i p)) = pl_cfg p" "pl_cfg (snd (Acquire st k p)) = pl_cfg p" "pl_cfg (Touch now k p) = pl_cfg p"
  "pl_cfg (Remove k p) = pl_cfg p" "pl_cfg (removeWhere P p) = pl_cfg p"
  by (simp_all add: Open_def Acquire_def Touch_def Remove_def removeWhere_def Let_def split: option.split prod.split)

lemma pool_cfg_step: "pool_step tr q q' \<Longrightarrow> pl_cfg (fst q') = pl_cfg (fst q)"
  by (induction rule: pool_step.induct)
     (simp_all add: Let_def sweepIdle_def CloseAllWhere_def Shutdown_where closeEntry_def)

lemma pool_ok_reachable: "pool_reachable tr cfg q \<Longrightarrow> pool_ok (fst q) \<and> pl_cfg (fst q) = normalizeConfig cfg"
proof (induction rule: pool_reachable.induct)
  case (start ss)
  show ?case by (simp add: pool_ok_def New_def)
next
  case (step q q')
  then show ?case using pool_ok_step [OF step.hyps(2)] pool_cfg_step [OF step.hyps(2)] by simp
qed

lemma MaxSessions_normalize [simp]: "MaxSessions (normalizeConfig cfg) = MaxSessions cfg"
  by (simp add: normalizeConfig_def Let_def)

section \<open>Properties of the pool\<close>


lemma open_step:
  "fresh i p \<Longrightarrow> pool_step tr (p, ss) (snd (Open (statusOf ss) now k i p), ss)"
  by (rule pool_step.opened) (simp_all add: fresh_def)

definition oneSlot :: pool_config where
  "oneSlot = \<lparr>MaxSessions = 1, IdleTimeout = 0, SweepInterval = 0, CloseTimeout = 10\<rparr>"

definition idleSession :: PersistentSession where
  "idleSession = (openSession 1)\<lparr>ps_state := SessionStateIdle, ps_events := [TurnCompleteEvent [''r''] 1 None]\<rparr>"

lemma idleSession_reachable: "session_reachable tr idleSession"
proof -
  let ?r = "pumpEvent 2 ''r'' False EventKindTerminalSuccess (openSession 1)"
  let ?c = "completeTurn 2 None ?r"
  have t: "ps_todo ?r = [CompleteTurn None]" by (simp add: pumpEvent_def Let_def pumpActs_def)
  have 1: "session_step tr (openSession 1) ?r" by (rule session_step.read) (simp_all add: openSession_def)
  have "session_step tr ?r (pumpAct 2 True ?r)" by (rule session_step.act) (simp add: t)
  then have 2: "session_step tr ?r ?c" by (simp add: pumpAct_complete [OF t])
  have tc: "ps_todo ?c \<noteq> []" by (simp add: completeTurn_def)
  have e: "pumpAct 3 True ?c = idleSession"
    by (simp add: completeTurn_def t pumpAct_def emit_def)
       (simp add: pumpEvent_def Let_def pumpActs_def openSession_def idleSession_def)
  have "session_step tr ?c idleSession" using session_step.act [OF tc, of tr 3 True] unfolding e .
  then show ?thesis using session_reachable.step [OF session_reachable.step [OF session_reachable.step
      [OF session_reachable.start 1] 2]] by blast
qed


text \<open>
  Opening a session under a key fails with \<open>ErrKeyAlreadyOpen\<close> exactly when the key has a
  session that has not terminated, and with \<open>ErrFull\<close> exactly when the pool is at its capacity and no other
  key has an idle session; both leave the pool as it was.  Otherwise the key names the new session, touched
  now, and the only other entry that may go is one that was idle and was touched no later than every other
  idle entry, and only at capacity; exactly that one is then to be closed.
\<close>

theorem Open_exact:
  assumes "distinct (map fst (pl_entries p))" "Open st now k i p = (err, p')"
  shows "let live = (\<exists>e. map_of (pl_entries p) k = Some e \<and> st (pe_session e) \<noteq> SessionStateTerminated);
             at_cap = (0 < MaxSessions (pl_cfg p) \<and> MaxSessions (pl_cfg p) \<le> int (length (pl_entries p)));
             idle = (\<lambda>k' e'. map_of (pl_entries p) k' = Some e' \<and> k' \<noteq> k \<and> st (pe_session e') = SessionStateIdle);
             new = \<lparr>pe_session = i, pe_lastActivity = now\<rparr> in
    (err = Some ErrKeyAlreadyOpen \<longleftrightarrow> live) \<and>
    (err = Some ErrFull \<longleftrightarrow> \<not> live \<and> at_cap \<and> (\<nexists>k' e'. idle k' e')) \<and>
    (err \<noteq> None \<longrightarrow> p' = p) \<and>
    (err = None \<longrightarrow>
      (if at_cap then \<exists>k' e'. idle k' e' \<and> (\<forall>k2 e2. idle k2 e2 \<longrightarrow> pe_lastActivity e' \<le> pe_lastActivity e2) \<and>
           map_of (pl_entries p') = ((map_of (pl_entries p))(k' := None))(k \<mapsto> new) \<and>
           pl_closing p' = pl_closing p @ [pe_session e']
       else map_of (pl_entries p') = (map_of (pl_entries p))(k \<mapsto> new) \<and> pl_closing p' = pl_closing p))"
proof -
  have ev: "(k', e') \<in> evictable st k (pl_entries p) \<longleftrightarrow>
      map_of (pl_entries p) k' = Some e' \<and> k' \<noteq> k \<and> st (pe_session e') = SessionStateIdle" for k' e'
    using assms(1) by (auto simp: evictable_def)
  show ?thesis
  proof (rule Open_cases [OF assms(1), of k st now i])
    fix k' e'
    assume h: "\<nexists>e. map_of (pl_entries p) k = Some e \<and> st (pe_session e) \<noteq> SessionStateTerminated"
      "0 < MaxSessions (pl_cfg p)" "MaxSessions (pl_cfg p) \<le> int (length (pl_entries p))"
      "(k', e') \<in> evictable st k (pl_entries p)"
      "\<forall>v \<in> evictable st k (pl_entries p). pe_lastActivity e' \<le> pe_lastActivity (snd v)"
      "Open st now k i p = (None, putEntry k \<lparr>pe_session = i, pe_lastActivity = now\<rparr> (CloseAndRemove k' p))"
    have e: "map_of (pl_entries p) k' = Some e'" using h(4) ev by blast
    have le: "\<forall>k2 e2. map_of (pl_entries p) k2 = Some e2 \<and> k2 \<noteq> k \<and> st (pe_session e2) = SessionStateIdle \<longrightarrow>
        pe_lastActivity e' \<le> pe_lastActivity e2" using h(5) ev by fastforce
    have r: "err = None" "map_of (pl_entries p') = ((map_of (pl_entries p))(k' := None))(k \<mapsto> \<lparr>pe_session = i, pe_lastActivity = now\<rparr>)"
      "pl_closing p' = pl_closing p @ [pe_session e']"
      using assms(2) h(6) e by (auto simp: putEntry_def CloseAndRemove_def update_conv' delete_conv')
    show ?thesis unfolding Let_def using h(1-3) h(4) [unfolded ev] le r by auto
  next
    assume h: "\<nexists>e. map_of (pl_entries p) k = Some e \<and> st (pe_session e) \<noteq> SessionStateTerminated"
      "0 < MaxSessions (pl_cfg p)" "MaxSessions (pl_cfg p) \<le> int (length (pl_entries p))"
      "evictable st k (pl_entries p) = {}" "Open st now k i p = (Some ErrFull, p)"
    have "\<nexists>k' e'. map_of (pl_entries p) k' = Some e' \<and> k' \<noteq> k \<and> st (pe_session e') = SessionStateIdle"
      using h(4) ev by blast
    then show ?thesis unfolding Let_def using h assms(2) by auto
  qed (use assms(2) in \<open>auto simp: putEntry_def update_conv'\<close>)
qed

theorem Open_exact_witness:
  "let p = \<lparr>pl_cfg = oneSlot, pl_entries = [(''a'', \<lparr>pe_session = 0, pe_lastActivity = 5\<rparr>)], pl_closing = []\<rparr>;
       q = Open (\<lambda>i. SessionStateIdle) 6 ''b'' 1 p in
   fst q = None \<and> pl_closing (snd q) = [0]"
proof -
  let ?p = "\<lparr>pl_cfg = oneSlot, pl_entries = [(''a'', \<lparr>pe_session = 0, pe_lastActivity = 5\<rparr>)], pl_closing = []\<rparr>"
  let ?q = "Open (\<lambda>i. SessionStateIdle) 6 ''b'' 1 ?p"
  have n: "fst ?q = None" by (simp add: Open_def Let_def lruIdleLocked_def)
  have d: "distinct (map fst (pl_entries ?p))" by simp
  have q: "Open (\<lambda>i. SessionStateIdle) 6 ''b'' 1 ?p = (None, snd ?q)" using n by (simp add: prod_eq_iff)
  have "pl_closing (snd ?q) = [0]"
    using Open_exact [OF d q] by (simp add: Let_def oneSlot_def split: if_splits)
  then show ?thesis using n by (simp add: Let_def)
qed

text \<open>A terminated session under another key fills the pool.\<close>

lemma terminated_session_fills_pool:
  "fst (Open (\<lambda>i. SessionStateTerminated) 6 ''b'' 1
     \<lparr>pl_cfg = oneSlot, pl_entries = [(''a'', \<lparr>pe_session = 0, pe_lastActivity = 5\<rparr>)], pl_closing = []\<rparr>) = Some ErrFull"
  by (simp add: Open_def Let_def lruIdleLocked_def oneSlot_def)

text \<open>A session that was idle when it was evicted can run a turn before it is closed.\<close>

lemma evicted_session_may_run:
  assumes "Open (statusOf ss) now k j p = (None, p')" "pl_closing p' = pl_closing p @ [i]" "statusOf ss i = SessionStateIdle"
  shows "\<exists>ss'. pool_step tr (p', ss) (p', ss') \<and> statusOf ss' i = SessionStateRunning \<and> i \<in> set (pl_closing p')"
proof -
  let ?s = "snd (Send tr now x (ss i))"
  have "pool_step tr (p', ss) (p', ss(i := ?s))" by (intro pool_step.session session_step.send)
  moreover have "statusOf (ss(i := ?s)) i = SessionStateRunning" using assms(3) by (simp add: statusOf_def Send_def)
  ultimately show ?thesis using assms(2) by auto
qed

end
