(* ===== verification/TB_Provider.thy ===== *)
theory TB_Provider
  imports TB_Prelude "HOL-Library.Multiset"
begin

text \<open>
  Providers (\<^verbatim>\<open>ai/provider.go\<close>), their credential fields (\<^verbatim>\<open>ai/credential.go\<close>) and the catalog of
  templates a provider is matched to (\<^verbatim>\<open>internal/catalog/provider_catalog.go\<close>).  Authentication types,
  protocol styles and endpoint modes are Go strings and stay strings, since the code compares them as such
  and meets values outside its constants.  The catalog's map of templates is a list whose order stands for
  the order of one iteration.
\<close>

section \<open>Providers\<close>

definition AuthTypeAPIKey :: string where "AuthTypeAPIKey = ''api_key''"
definition AuthTypeOAuth :: string where "AuthTypeOAuth = ''oauth''"
definition AuthTypeVirtual :: string where "AuthTypeVirtual = ''vmodel''"
definition AuthTypeAWSSigV4 :: string where "AuthTypeAWSSigV4 = ''aws_sigv4''"
definition AuthTypeAzureKey :: string where "AuthTypeAzureKey = ''azure_key''"
definition AuthTypeGCPVertex :: string where "AuthTypeGCPVertex = ''gcp_sa''"

lemmas auth_types = AuthTypeAPIKey_def AuthTypeOAuth_def AuthTypeVirtual_def AuthTypeAWSSigV4_def
  AuthTypeAzureKey_def AuthTypeGCPVertex_def

definition AuthType_IsMultiFieldCredential :: "string \<Rightarrow> bool" where
  "AuthType_IsMultiFieldCredential a \<longleftrightarrow> a = AuthTypeAWSSigV4 \<or> a = AuthTypeAzureKey \<or> a = AuthTypeGCPVertex"

definition AuthType_IsValid :: "string \<Rightarrow> bool" where
  "AuthType_IsValid a \<longleftrightarrow> a \<in> {AuthTypeAPIKey, AuthTypeOAuth, AuthTypeVirtual, AuthTypeAWSSigV4, AuthTypeAzureKey, AuthTypeGCPVertex}"

definition APIStyleOpenAI :: string where "APIStyleOpenAI = ''openai''"
definition APIStyleAnthropic :: string where "APIStyleAnthropic = ''anthropic''"
definition APIStyleGoogle :: string where "APIStyleGoogle = ''google''"

lemmas api_styles = APIStyleOpenAI_def APIStyleAnthropic_def APIStyleGoogle_def

definition EndpointModeUnknown :: string where "EndpointModeUnknown = []"
definition EndpointModeChat :: string where "EndpointModeChat = ''chat''"
definition EndpointModeResponses :: string where "EndpointModeResponses = ''responses''"
definition EndpointModeBoth :: string where "EndpointModeBoth = ''both''"

lemmas endpoint_modes = EndpointModeUnknown_def EndpointModeChat_def EndpointModeResponses_def EndpointModeBoth_def

definition CodexAPIBase :: string where "CodexAPIBase = ''https://chatgpt.com/backend-api''"
definition IssuerClaudeCode :: string where "IssuerClaudeCode = ''claude_code''"
definition IssuerCodex :: string where "IssuerCodex = ''codex''"
definition IssuerZCode :: string where "IssuerZCode = ''zcode''"
definition IssuerZCodeCN :: string where "IssuerZCodeCN = ''zcode_cn''"

lemmas issuers = IssuerClaudeCode_def IssuerCodex_def IssuerZCode_def IssuerZCodeCN_def

text \<open>The untyped extra fields of an OAuth credential are left out.\<close>

record OAuthDetail =
  od_AccessToken :: string
  od_Issuer :: string
  od_UserID :: string
  od_RefreshToken :: string
  od_ExpiresAt :: string
  od_DeviceID :: string
  od_ProviderType :: string

record VModelDetail =
  vd_Models :: "string list"
  vd_LatencyProfile :: string

record AIProvider =
  ap_UUID :: string
  ap_Name :: string
  ap_APIBase :: string
  ap_APIStyle :: string
  ap_Token :: string
  ap_NoKeyRequired :: bool
  ap_Enabled :: bool
  ap_ProxyURL :: string
  ap_Timeout :: int
  ap_Tags :: "string list"
  ap_Models :: "string list"
  ap_LastUpdated :: string
  ap_APIBaseOpenAI :: string
  ap_APIBaseAnthropic :: string
  ap_AuthType :: string
  ap_OAuthDetail :: "OAuthDetail option"
  ap_VModelDetail :: "VModelDetail option"
  ap_Credential :: "(string \<times> string) list option"
  ap_Source :: string
  ap_OpenAIEndpointMode :: string

definition GetIssuer :: "OAuthDetail option \<Rightarrow> string" where
  "GetIssuer o' = (case o' of None \<Rightarrow> [] | Some d \<Rightarrow> if od_Issuer d \<noteq> [] then od_Issuer d else od_ProviderType d)"

definition OpenAIEndpointModeForIssuer :: "string \<Rightarrow> string" where
  "OpenAIEndpointModeForIssuer i = (if i = IssuerCodex then EndpointModeResponses else EndpointModeChat)"

definition IsVirtual :: "AIProvider \<Rightarrow> bool" where "IsVirtual p \<longleftrightarrow> ap_AuthType p = AuthTypeVirtual"

definition IsBuiltin :: "AIProvider \<Rightarrow> bool" where "IsBuiltin p \<longleftrightarrow> ap_Source p = ''builtin''"

definition IsOAuth :: "AIProvider \<Rightarrow> bool" where "IsOAuth p \<longleftrightarrow> ap_AuthType p = AuthTypeOAuth"

definition IsAPIKey :: "AIProvider \<Rightarrow> bool" where
  "IsAPIKey p \<longleftrightarrow> ap_AuthType p = AuthTypeAPIKey \<or> ap_AuthType p = []"

definition OAuthIssuer :: "AIProvider \<Rightarrow> string" where
  "OAuthIssuer p = (if ap_AuthType p = AuthTypeOAuth \<and> ap_OAuthDetail p \<noteq> None then GetIssuer (ap_OAuthDetail p) else [])"

definition IsMultiFieldCredential :: "AIProvider \<Rightarrow> bool" where
  "IsMultiFieldCredential p \<longleftrightarrow> AuthType_IsMultiFieldCredential (ap_AuthType p)"

definition IssuerSupportsDual :: "string \<Rightarrow> bool" where
  "IssuerSupportsDual i \<longleftrightarrow> i = IssuerZCode \<or> i = IssuerZCodeCN"

definition dualEligible :: "AIProvider \<Rightarrow> bool" where
  "dualEligible p = (if ap_AuthType p \<noteq> AuthTypeOAuth then True else IssuerSupportsDual (OAuthIssuer p))"

definition HasDualURL :: "string \<Rightarrow> AIProvider \<Rightarrow> bool" where
  "HasDualURL style p =
     (if style = APIStyleOpenAI then ap_APIBaseOpenAI p \<noteq> []
      else if style = APIStyleAnthropic then ap_APIBaseAnthropic p \<noteq> []
      else False)"

definition IsDual :: "AIProvider \<Rightarrow> bool" where
  "IsDual p \<longleftrightarrow> dualEligible p \<and> ap_APIBaseOpenAI p \<noteq> [] \<and> ap_APIBaseAnthropic p \<noteq> []"

definition ResolveEndpoint :: "string \<Rightarrow> AIProvider \<Rightarrow> string \<times> string" where
  "ResolveEndpoint style p =
     (if dualEligible p \<and> style = APIStyleOpenAI \<and> ap_APIBaseOpenAI p \<noteq> [] then (ap_APIBaseOpenAI p, APIStyleOpenAI)
      else if dualEligible p \<and> style = APIStyleAnthropic \<and> ap_APIBaseAnthropic p \<noteq> []
      then (ap_APIBaseAnthropic p, APIStyleAnthropic)
      else (ap_APIBase p, ap_APIStyle p))"

definition ResolveStyle :: "string \<Rightarrow> AIProvider \<Rightarrow> AIProvider" where
  "ResolveStyle style p =
     (let (baseURL, st) = ResolveEndpoint style p in
      if baseURL = ap_APIBase p \<and> st = ap_APIStyle p then p else p\<lparr>ap_APIBase := baseURL, ap_APIStyle := st\<rparr>)"

definition VModelSentinelToken :: string where "VModelSentinelToken = ''EMPTY''"

definition GetAccessToken :: "AIProvider \<Rightarrow> string" where
  "GetAccessToken p =
     (if ap_AuthType p = AuthTypeOAuth then (case ap_OAuthDetail p of None \<Rightarrow> [] | Some d \<Rightarrow> od_AccessToken d)
      else if ap_AuthType p = AuthTypeVirtual then VModelSentinelToken
      else if ap_AuthType p = AuthTypeAPIKey \<or> ap_AuthType p = [] then ap_Token p
      else [])"

definition IsOAuthToken :: "AIProvider \<Rightarrow> bool" where
  "IsOAuthToken p = (let token = GetAccessToken p in if token = [] then False else HasPrefix token ''sk-ant-oat'')"

definition IsClaudeCodeProvider :: "AIProvider \<Rightarrow> bool" where
  "IsClaudeCodeProvider p =
     (if ap_AuthType p = AuthTypeOAuth \<and> ap_OAuthDetail p \<noteq> None then GetIssuer (ap_OAuthDetail p) = IssuerClaudeCode
      else False)"

definition IsCodexProvider :: "AIProvider \<Rightarrow> bool" where
  "IsCodexProvider p =
     (if ap_AuthType p = AuthTypeOAuth \<and> ap_OAuthDetail p \<noteq> None then GetIssuer (ap_OAuthDetail p) = IssuerCodex
      else ap_APIBase p = CodexAPIBase)"

section \<open>Credentials with several fields\<close>

definition CredentialField :: "(string \<times> string) list option \<Rightarrow> string \<Rightarrow> string" where
  "CredentialField c key = (case c of None \<Rightarrow> [] | Some fs \<Rightarrow> (case map_of fs key of None \<Rightarrow> [] | Some v \<Rightarrow> v))"

record CredentialFieldSpec =
  cf_Key :: string
  cf_Required :: bool
  cf_Secret :: bool

definition CredentialSchema :: "string \<Rightarrow> CredentialFieldSpec list" where
  "CredentialSchema a =
     (let spec = (\<lambda>k r s. \<lparr>cf_Key = k, cf_Required = r, cf_Secret = s\<rparr>) in
      if a = AuthTypeAWSSigV4 then
        [spec ''region'' True False, spec ''access_key_id'' False False, spec ''secret_access_key'' False True,
         spec ''session_token'' False True, spec ''bearer_token'' False True]
      else if a = AuthTypeGCPVertex then
        [spec ''project_id'' True False, spec ''location'' True False, spec ''service_account_json'' True True]
      else if a = AuthTypeAzureKey then
        [spec ''endpoint'' True False, spec ''api_version'' True False, spec ''api_key'' True True]
      else [])"

definition IsSecretCredentialField :: "string \<Rightarrow> string \<Rightarrow> bool" where
  "IsSecretCredentialField a k =
     (case find (\<lambda>f. cf_Key f = k) (CredentialSchema a) of None \<Rightarrow> True | Some f \<Rightarrow> cf_Secret f)"

text \<open>The order of iteration decides when two keys become equal by trimming.\<close>

definition NormalizeCredential :: "(string \<times> string) list \<Rightarrow> (string \<times> string) list" where
  "NormalizeCredential fs =
     fold (\<lambda>(k, v) m. let k' = TrimSpace k; v' = TrimSpace v in if k' = [] \<or> v' = [] then m else AList.update k' v' m) fs []"

definition AllowedAPIStyles :: "string \<Rightarrow> string list" where
  "AllowedAPIStyles a =
     (if a = AuthTypeAWSSigV4 then [''anthropic'']
      else if a = AuthTypeGCPVertex then [''anthropic'', ''google'']
      else if a = AuthTypeAzureKey then [''openai'']
      else [])"

definition ValidateCredentialAPIStyle :: "string \<Rightarrow> string \<Rightarrow> bool" where
  "ValidateCredentialAPIStyle a style =
     (let allowed = AllowedAPIStyles a in if allowed = [] then True else style \<in> set allowed)"

section \<open>The catalog\<close>

record ModelInfo =
  mi_ID :: string
  mi_Description :: string
  mi_Context :: int
  mi_MaxOutput :: int
  mi_OpenAIEndpoints :: "string list"

text \<open>The fields of a template that matching, validation and the limits read; the others describe it to users.\<close>

record ProviderCatalog =
  pc_ID :: string
  pc_Name :: string
  pc_CanonicalDomain :: string
  pc_BaseURLOpenAI :: string
  pc_BaseURLAnthropic :: string
  pc_APIStyle :: string
  pc_Models :: "ModelInfo list"
  pc_AuthType :: string
  pc_OAuthProvider :: string
  pc_ModelCapacities :: "(string \<times> int) list"

type_synonym catalog = "ProviderCatalog list"

datatype catalog_error = TemplateIDRequired | TemplateNameRequired | BaseURLRequired | OAuthProviderRequired

definition ValidateProviderCatalog :: "ProviderCatalog \<Rightarrow> catalog_error option" where
  "ValidateProviderCatalog tmpl =
     (if pc_ID tmpl = [] then Some TemplateIDRequired
      else if pc_Name tmpl = [] then Some TemplateNameRequired
      else if pc_AuthType tmpl \<noteq> ''oauth'' \<and> \<not> AuthType_IsMultiFieldCredential (pc_AuthType tmpl) \<and>
        pc_BaseURLOpenAI tmpl = [] \<and> pc_BaseURLAnthropic tmpl = [] then Some BaseURLRequired
      else if pc_AuthType tmpl = ''oauth'' \<and> pc_OAuthProvider tmpl = [] then Some OAuthProviderRequired
      else None)"

definition TrimRightSlash :: "string \<Rightarrow> string" where
  "TrimRightSlash s = rev (dropWhile (\<lambda>c. c = CHR ''/'') (rev s))"

definition cloudTemplateMatcher :: "AIProvider \<Rightarrow> ProviderCatalog \<Rightarrow> bool" where
  "cloudTemplateMatcher p tmpl \<longleftrightarrow>
     pc_AuthType tmpl = ap_AuthType p \<and> (pc_APIStyle tmpl = [] \<or> pc_APIStyle tmpl = ap_APIStyle p)"

text \<open>One base URL of one candidate, against the best so far and its length; \<open>None\<close> is the length -1.\<close>

definition betterBase :: "string \<Rightarrow> ProviderCatalog \<Rightarrow> string \<Rightarrow> ProviderCatalog \<times> nat option \<Rightarrow> ProviderCatalog \<times> nat option" where
  "betterBase apiBase tmpl base best =
     (let b = TrimRightSlash base in
      if b = [] \<or> \<not> HasPrefix apiBase b then best
      else if (case snd best of None \<Rightarrow> True | Some n \<Rightarrow> n < length b) then (tmpl, Some (length b))
      else best)"

definition mostSpecificTemplate :: "ProviderCatalog list \<Rightarrow> string \<Rightarrow> ProviderCatalog" where
  "mostSpecificTemplate candidates apiBase =
     fst (fold (\<lambda>tmpl best. betterBase apiBase tmpl (pc_BaseURLAnthropic tmpl) (betterBase apiBase tmpl (pc_BaseURLOpenAI tmpl) best))
       candidates (hd candidates, None))"

definition domainMatches :: "AIProvider \<Rightarrow> string \<Rightarrow> ProviderCatalog \<Rightarrow> bool" where
  "domainMatches p apiBase tmpl \<longleftrightarrow>
     pc_CanonicalDomain tmpl \<noteq> [] \<and> Contains apiBase (pc_CanonicalDomain tmpl) \<and>
     (pc_APIStyle tmpl = [] \<or> pc_APIStyle tmpl = ap_APIStyle p)"

definition matchProviderTemplate :: "AIProvider \<Rightarrow> catalog \<Rightarrow> ProviderCatalog option" where
  "matchProviderTemplate p cat =
     (case (if IsOAuth p then ap_OAuthDetail p else None) of
        Some d \<Rightarrow> find (\<lambda>tmpl. pc_OAuthProvider tmpl = od_Issuer d) cat
      | None \<Rightarrow>
          (if IsMultiFieldCredential p then find (cloudTemplateMatcher p) cat
           else
             (let apiBase = TrimRightSlash (ap_APIBase p) in
              if apiBase = [] then None
              else
                (case filter (domainMatches p apiBase) cat of
                   [tmpl] \<Rightarrow> Some tmpl
                 | t1 # t2 # ts \<Rightarrow> Some (mostSpecificTemplate (t1 # t2 # ts) apiBase)
                 | [] \<Rightarrow>
                     (if ap_APIStyle p = APIStyleAnthropic then find (\<lambda>tmpl. pc_BaseURLAnthropic tmpl = apiBase) cat
                      else find (\<lambda>tmpl. pc_BaseURLOpenAI tmpl = apiBase) cat)))))"

definition DefaultMaxTokens :: int where "DefaultMaxTokens = 8192"

text \<open>A nil manager has no catalog.\<close>

definition GetMaxTokensForModelByProvider :: "catalog option \<Rightarrow> AIProvider \<Rightarrow> string \<Rightarrow> int" where
  "GetMaxTokensForModelByProvider tm p model =
     (case Option.bind tm (matchProviderTemplate p) of
        None \<Rightarrow> DefaultMaxTokens
      | Some tmpl \<Rightarrow>
          (case find (\<lambda>m. mi_ID m = model \<and> mi_MaxOutput m > 0) (pc_Models tmpl) of
             Some m \<Rightarrow> mi_MaxOutput m
           | None \<Rightarrow> (case map_of (pc_ModelCapacities tmpl) model of Some n \<Rightarrow> n | None \<Rightarrow> DefaultMaxTokens)))"

definition openAIEndpointModeFromList :: "string list \<Rightarrow> string" where
  "openAIEndpointModeFromList es =
     (let hasChat = ''chat'' \<in> set es; hasResponses = ''responses'' \<in> set es in
      if hasChat \<and> hasResponses then EndpointModeBoth
      else if hasResponses then EndpointModeResponses
      else if hasChat then EndpointModeChat
      else EndpointModeUnknown)"

definition GetOpenAIEndpointOverrideForModel :: "catalog option \<Rightarrow> AIProvider \<Rightarrow> string \<Rightarrow> string" where
  "GetOpenAIEndpointOverrideForModel tm p model =
     (if model = [] then EndpointModeUnknown
      else
        (case Option.bind tm (matchProviderTemplate p) of
           None \<Rightarrow> EndpointModeUnknown
         | Some tmpl \<Rightarrow>
             (case find (\<lambda>m. mi_ID m = model) (pc_Models tmpl) of
                None \<Rightarrow> EndpointModeUnknown
              | Some m \<Rightarrow> openAIEndpointModeFromList (mi_OpenAIEndpoints m))))"

section \<open>Facts about endpoints and templates\<close>

lemma ResolveStyle_fields:
  "ap_APIBase (ResolveStyle st p) = fst (ResolveEndpoint st p)" "ap_APIStyle (ResolveStyle st p) = snd (ResolveEndpoint st p)"
  "ap_OpenAIEndpointMode (ResolveStyle st p) = ap_OpenAIEndpointMode p" "ap_AuthType (ResolveStyle st p) = ap_AuthType p"
  "ap_OAuthDetail (ResolveStyle st p) = ap_OAuthDetail p" "ap_Token (ResolveStyle st p) = ap_Token p"
  "GetAccessToken (ResolveStyle st p) = GetAccessToken p" "ap_Name (ResolveStyle st p) = ap_Name p"
  by (auto simp: ResolveStyle_def GetAccessToken_def split: prod.splits)

lemma ResolveEndpoint_dual:
  "dualEligible p \<Longrightarrow> HasDualURL st p \<Longrightarrow> snd (ResolveEndpoint st p) = st"
  "dualEligible p \<Longrightarrow> HasDualURL st p \<Longrightarrow>
     fst (ResolveEndpoint st p) = (if st = APIStyleOpenAI then ap_APIBaseOpenAI p else ap_APIBaseAnthropic p)"
  by (auto simp: ResolveEndpoint_def HasDualURL_def split: if_splits)

lemma ResolveEndpoint_cases:
  "ResolveEndpoint st p = (ap_APIBase p, ap_APIStyle p) \<or> snd (ResolveEndpoint st p) = st \<and> dualEligible p \<and> HasDualURL st p"
  by (auto simp: ResolveEndpoint_def HasDualURL_def api_styles)

text \<open>The lengths of the base URLs of a template that are prefixes of the provider's.\<close>

definition prefixLens :: "string \<Rightarrow> ProviderCatalog \<Rightarrow> nat set" where
  "prefixLens apiBase tmpl =
     {length b |b. b \<in> {TrimRightSlash (pc_BaseURLOpenAI tmpl), TrimRightSlash (pc_BaseURLAnthropic tmpl)} \<and>
        b \<noteq> [] \<and> HasPrefix apiBase b}"

definition betterBoth :: "string \<Rightarrow> ProviderCatalog \<Rightarrow> ProviderCatalog \<times> nat option \<Rightarrow> ProviderCatalog \<times> nat option" where
  "betterBoth apiBase tmpl best =
     betterBase apiBase tmpl (pc_BaseURLAnthropic tmpl) (betterBase apiBase tmpl (pc_BaseURLOpenAI tmpl) best)"

lemma mostSpecificTemplate_betterBoth:
  "mostSpecificTemplate cs apiBase = fst (fold (betterBoth apiBase) cs (hd cs, None))"
  by (simp add: mostSpecificTemplate_def betterBoth_def [abs_def])

definition above :: "nat \<Rightarrow> nat option \<Rightarrow> bool" where
  "above n best \<longleftrightarrow> (case best of None \<Rightarrow> True | Some k \<Rightarrow> k < n)"

lemma betterBase_skip:
  assumes "\<forall>n \<in> prefixLens apiBase tmpl. n \<le> k" "base \<in> {pc_BaseURLOpenAI tmpl, pc_BaseURLAnthropic tmpl}"
  shows "betterBase apiBase tmpl base (t, Some k) = (t, Some k)"
  using assms by (auto simp: betterBase_def Let_def prefixLens_def not_less)

lemma betterBoth_other:
  assumes "\<forall>n \<in> prefixLens apiBase tmpl. n < nb"
  shows "above nb (snd best) \<Longrightarrow> above nb (snd (betterBoth apiBase tmpl best))"
    and "nb \<le> k \<Longrightarrow> betterBoth apiBase tmpl (t, Some k) = (t, Some k)"
proof -
  show "above nb (snd best) \<Longrightarrow> above nb (snd (betterBoth apiBase tmpl best))"
    using assms by (auto simp: betterBoth_def betterBase_def Let_def above_def prefixLens_def)
next
  assume "nb \<le> k"
  then have "\<forall>n \<in> prefixLens apiBase tmpl. n \<le> k" using assms by fastforce
  then show "betterBoth apiBase tmpl (t, Some k) = (t, Some k)" by (simp add: betterBoth_def betterBase_skip)
qed

lemma betterBoth_same:
  assumes "nb \<in> prefixLens apiBase tmpl" "above nb (snd best) \<or> fst best = tmpl \<and> (\<exists>k\<ge>nb. snd best = Some k)"
  shows "fst (betterBoth apiBase tmpl best) = tmpl \<and> (\<exists>k\<ge>nb. snd (betterBoth apiBase tmpl best) = Some k)"
  using assms by (cases best) (auto simp: betterBoth_def betterBase_def Let_def above_def prefixLens_def split: option.splits)

lemma fold_betterBoth_settled:
  assumes "\<forall>t \<in> set cs. t \<noteq> t0 \<longrightarrow> (\<forall>n \<in> prefixLens apiBase t. n < nb)" "nb \<in> prefixLens apiBase t0"
    "fst best = t0 \<and> (\<exists>k\<ge>nb. snd best = Some k)"
  shows "fst (fold (betterBoth apiBase) cs best) = t0"
  using assms(1,3)
proof (induction cs arbitrary: best)
  case (Cons t cs)
  have "fst (betterBoth apiBase t best) = t0 \<and> (\<exists>k\<ge>nb. snd (betterBoth apiBase t best) = Some k)"
  proof (cases "t = t0")
    case True
    then show ?thesis using betterBoth_same [OF assms(2), of best] Cons.prems(2) by blast
  next
    case False
    obtain k where k: "k \<ge> nb" "best = (t0, Some k)" using Cons.prems(2) by (metis prod.collapse)
    then show ?thesis using betterBoth_other(2) [of apiBase t nb k t0] Cons.prems(1) False by simp
  qed
  then show ?case using Cons by simp
qed simp

lemma fold_betterBoth_pending:
  assumes "\<forall>t \<in> set cs. t \<noteq> t0 \<longrightarrow> (\<forall>n \<in> prefixLens apiBase t. n < nb)" "nb \<in> prefixLens apiBase t0"
    "above nb (snd best)" "t0 \<in> set cs"
  shows "fst (fold (betterBoth apiBase) cs best) = t0"
  using assms(1,3,4)
proof (induction cs arbitrary: best)
  case (Cons t cs)
  show ?case
  proof (cases "t = t0")
    case True
    have "fst (betterBoth apiBase t best) = t0 \<and> (\<exists>k\<ge>nb. snd (betterBoth apiBase t best) = Some k)"
      using betterBoth_same [OF assms(2), of best] Cons.prems(2) True by blast
    then show ?thesis using fold_betterBoth_settled [OF _ assms(2)] Cons.prems(1) by simp
  next
    case False
    have "above nb (snd (betterBoth apiBase t best))"
      using betterBoth_other(1) [of apiBase t nb best] Cons.prems False by simp
    then show ?thesis using Cons False by simp
  qed
qed simp

section \<open>Properties\<close>

text \<open>
  The template an API-key provider is matched to is the candidate whose base URL is the
  longest prefix of the provider's URL, wherever the candidates stand in the catalog: when one candidate's
  base is longer than every other candidate's, every order of iteration of the map gives that one.
\<close>

theorem template_match_longest_prefix:
  assumes "\<not> IsOAuth p" "\<not> IsMultiFieldCredential p" "t0 \<in> set cat" "domainMatches p (TrimRightSlash (ap_APIBase p)) t0"
    "nb \<in> prefixLens (TrimRightSlash (ap_APIBase p)) t0"
    "\<forall>t \<in> set cat. t \<noteq> t0 \<longrightarrow> domainMatches p (TrimRightSlash (ap_APIBase p)) t \<longrightarrow>
       (\<forall>n \<in> prefixLens (TrimRightSlash (ap_APIBase p)) t. n < nb)"
    "mset cat' = mset cat"
  shows "matchProviderTemplate p cat' = Some t0"
proof -
  let ?b = "TrimRightSlash (ap_APIBase p)"
  let ?cs = "filter (domainMatches p ?b) cat'"
  have s: "set cat' = set cat" using assms(7) by (rule mset_eq_setD)
  have t: "t0 \<in> set ?cs" using assms(3,4) s by simp
  have o: "\<forall>t \<in> set ?cs. t \<noteq> t0 \<longrightarrow> (\<forall>n \<in> prefixLens ?b t. n < nb)" using assms(6) s by auto
  have b: "?b \<noteq> []" using assms(5) by (auto simp: prefixLens_def HasPrefix_def)
  have m: "mostSpecificTemplate ?cs ?b = t0"
    unfolding mostSpecificTemplate_betterBoth
    by (rule fold_betterBoth_pending [OF o assms(5) _ t]) (simp add: above_def)
  show ?thesis
  proof (cases ?cs)
    case Nil
    then show ?thesis using t by simp
  next
    case (Cons t1 ts)
    then show ?thesis using assms(1,2) b m t by (cases ts) (auto simp: matchProviderTemplate_def Let_def)
  qed
qed

definition sampleProvider2 :: AIProvider where
  "sampleProvider2 = \<lparr>ap_UUID = ''u'', ap_Name = ''zen'', ap_APIBase = ''opencode/zen/go/v1/'', ap_APIStyle = ''openai'', ap_Token = ''k'',
     ap_NoKeyRequired = False, ap_Enabled = True, ap_ProxyURL = [], ap_Timeout = 0, ap_Tags = [], ap_Models = [], ap_LastUpdated = [],
     ap_APIBaseOpenAI = [], ap_APIBaseAnthropic = [], ap_AuthType = ''api_key'', ap_OAuthDetail = None, ap_VModelDetail = None,
     ap_Credential = None,
     ap_Source = ''user'', ap_OpenAIEndpointMode = []\<rparr>"

definition sampleTemplate :: "string \<Rightarrow> ProviderCatalog" where
  "sampleTemplate base = \<lparr>pc_ID = base, pc_Name = base, pc_CanonicalDomain = ''opencode'', pc_BaseURLOpenAI = base,
     pc_BaseURLAnthropic = [], pc_APIStyle = [], pc_Models = [], pc_AuthType = [], pc_OAuthProvider = [],
     pc_ModelCapacities = [(''m'', 4)]\<rparr>"

theorem template_match_longest_prefix_witness:
  "matchProviderTemplate sampleProvider2 [sampleTemplate ''opencode/zen'', sampleTemplate ''opencode/zen/go''] =
     Some (sampleTemplate ''opencode/zen/go'')"
proof -
  let ?a = "sampleTemplate ''opencode/zen''" and ?b = "sampleTemplate ''opencode/zen/go''"
  have b: "TrimRightSlash (ap_APIBase sampleProvider2) = ''opencode/zen/go/v1''"
    by (simp add: TrimRightSlash_def sampleProvider2_def)
  have n: "15 \<in> prefixLens ''opencode/zen/go/v1'' ?b"
    by (auto simp: prefixLens_def sampleTemplate_def TrimRightSlash_def HasPrefix_def intro!: exI [of _ "''opencode/zen/go''"])
  have o: "\<forall>n \<in> prefixLens ''opencode/zen/go/v1'' ?a. n < 15"
    by (auto simp: prefixLens_def sampleTemplate_def TrimRightSlash_def)
  have kind: "\<not> IsOAuth sampleProvider2" "\<not> IsMultiFieldCredential sampleProvider2"
    by (simp_all add: IsOAuth_def IsMultiFieldCredential_def AuthType_IsMultiFieldCredential_def auth_types sampleProvider2_def)
  have d: "domainMatches sampleProvider2 ''opencode/zen/go/v1'' ?b"
    by (simp add: domainMatches_def sampleTemplate_def HasPrefix_def)
  show ?thesis
    by (rule template_match_longest_prefix [where cat = "[?a, ?b]" and nb = 15])
       (use n o d in \<open>simp_all add: b kind\<close>)
qed

section \<open>Findings\<close>

text \<open>The seats of a model are taken for its output-token limit.\<close>

lemma seats_taken_as_tokens:
  "GetMaxTokensForModelByProvider (Some [sampleTemplate ''opencode/zen/go'']) sampleProvider2 ''m'' = 4"
  by (simp add: GetMaxTokensForModelByProvider_def matchProviderTemplate_def sampleProvider2_def sampleTemplate_def IsOAuth_def
      IsMultiFieldCredential_def AuthType_IsMultiFieldCredential_def auth_types TrimRightSlash_def domainMatches_def HasPrefix_def)

text \<open>An OAuth provider without an issuer matches whichever template comes first without an OAuth provider.\<close>

lemma empty_issuer_matches_any:
  assumes "ap_AuthType p = AuthTypeOAuth" "ap_OAuthDetail p = Some d" "od_Issuer d = []" "pc_OAuthProvider t = []"
  shows "matchProviderTemplate p (t # ts) = Some t"
  using assms by (simp add: matchProviderTemplate_def IsOAuth_def)

end
