(* ===== verification/TB_Attempt.thy ===== *)
theory TB_Attempt
  imports TB_Provider TB_Rules
begin

text \<open>
  What one attempt resolves before the request is touched: the protocol it is sent in, the provider's URL,
  the flags and the rule's transforms (\<^verbatim>\<open>internal/protocolserver/attempt_plan.go\<close>, \<^verbatim>\<open>protocol_endpoint.go\<close>,
  \<^verbatim>\<open>rule_flags.go\<close>, \<^verbatim>\<open>user_agent.go\<close>).  Protocols are the Go strings.  A request is its headers and whether
  it has the header of a probe: decoding that header is JSON and is the argument \<open>probe\<close>.  The flags that
  the plan only carries are the field \<open>OtherAttemptFlags\<close>.
\<close>

section \<open>Protocols and endpoint overrides\<close>

definition TypeOpenAIChat :: string where "TypeOpenAIChat = ''openai_chat''"
definition TypeOpenAIResponses :: string where "TypeOpenAIResponses = ''openai_responses''"
definition TypeAnthropicV1 :: string where "TypeAnthropicV1 = ''anthropic_v1''"
definition TypeAnthropicBeta :: string where "TypeAnthropicBeta = ''anthropic_beta''"
definition TypeGoogle :: string where "TypeGoogle = ''google''"

lemmas api_types = TypeOpenAIChat_def TypeOpenAIResponses_def TypeAnthropicV1_def TypeAnthropicBeta_def TypeGoogle_def

datatype IncomingAPIType = IncomingAPIChat | IncomingAPIResponses

datatype EndpointOverride = OverrideAuto | OverrideChat | OverrideResponses

definition ParseEndpointOverride :: "string \<Rightarrow> EndpointOverride" where
  "ParseEndpointOverride s =
     (if s = ''chat'' then OverrideChat else if s = ''responses'' then OverrideResponses else OverrideAuto)"

datatype AnthropicOverride = AnthropicOverrideAuto | AnthropicOverrideAnthropic

definition ParseAnthropicOverride :: "string \<Rightarrow> AnthropicOverride" where
  "ParseAnthropicOverride s = (if s = ''anthropic'' then AnthropicOverrideAnthropic else AnthropicOverrideAuto)"

definition resolveEndpointMode :: "string \<Rightarrow> IncomingAPIType \<Rightarrow> string" where
  "resolveEndpointMode mode incoming =
     (if mode = EndpointModeResponses then TypeOpenAIResponses
      else if mode = EndpointModeBoth then
        (if incoming = IncomingAPIResponses then TypeOpenAIResponses else TypeOpenAIChat)
      else TypeOpenAIChat)"

section \<open>Flags\<close>

record AttemptFlags =
  af_CursorCompat :: bool
  af_CursorCompatAuto :: bool
  af_SkipUsage :: bool
  af_CustomUserAgent :: string
  af_UseMaxCompletionTokens :: bool
  af_UseMaxTokens :: bool
  af_OpenAIEndpointOverride :: string
  af_AnthropicEndpointOverride :: string
  af_BlockTools :: string
  af_ThinkingEffort :: string
  af_CleanHeader :: bool
  af_ClaudeCodeCompat :: bool
  af_Recording :: string
  af_ClaudeCodeVersion :: string
  af_SessionAffinity :: int
  af_VisionProxyService :: "(string \<times> string) option"
  af_Context1M :: bool
  af_ExtraHeaders :: "(string \<times> string) list"
  af_ClaudeOrgID :: string

definition zeroFlags :: AttemptFlags where
  "zeroFlags = \<lparr>af_CursorCompat = False, af_CursorCompatAuto = False, af_SkipUsage = False, af_CustomUserAgent = [],
     af_UseMaxCompletionTokens = False, af_UseMaxTokens = False, af_OpenAIEndpointOverride = [],
     af_AnthropicEndpointOverride = [], af_BlockTools = [], af_ThinkingEffort = [], af_CleanHeader = False,
     af_ClaudeCodeCompat = False, af_Recording = [], af_ClaudeCodeVersion = [],
     af_SessionAffinity = 0, af_VisionProxyService = None, af_Context1M = False, af_ExtraHeaders = [], af_ClaudeOrgID = []\<rparr>"

record ScenarioFlags =
  sf_Unified :: bool
  sf_Separate :: bool
  sf_SmartCompact :: bool
  sf_RecordingV2 :: string
  sf_SkipUsage :: bool
  sf_ThinkingEffort :: string
  sf_CustomUserAgent :: string
  sf_ClaudeCodeCompat :: bool
  sf_ClaudeCodeVersion :: string

text \<open>The transforms a plan selects; what each does to a request is not part of the plan.\<close>

datatype Transform = OpenAICursorCompatTransform | CleanHeaderTransform | ToolBlockTransform "string list" |
  ClaudeCodeCompatTransform | OpenAIMaxTokensRewriteTransform bool bool | RuleThinkingTransform string |
  ClaudeCodeVersionTransform string

definition parseBlockTools :: "string \<Rightarrow> string list" where
  "parseBlockTools raw =
     (if TrimSpace raw = [] then [] else filter (\<lambda>n. n \<noteq> []) (map TrimSpace (Split raw CHR '','')))"

definition RulePreBaseTransforms :: "AttemptFlags \<Rightarrow> Transform list" where
  "RulePreBaseTransforms f =
     (if af_CursorCompat f then [OpenAICursorCompatTransform] else []) @
     (if af_CleanHeader f then [CleanHeaderTransform] else []) @
     (if parseBlockTools (af_BlockTools f) \<noteq> [] then [ToolBlockTransform (parseBlockTools (af_BlockTools f))] else []) @
     (if af_ClaudeCodeCompat f then [ClaudeCodeCompatTransform] else [])"

definition ClaudeCodeVersionLegacy :: string where "ClaudeCodeVersionLegacy = ''2.1.86''"
definition ClaudeCodeVersionLatest :: string where "ClaudeCodeVersionLatest = ''2.1.280''"

definition ResolveClaudeCodeVersion :: "string \<Rightarrow> string" where
  "ResolveClaudeCodeVersion v = (if v = ClaudeCodeVersionLegacy \<or> v = ClaudeCodeVersionLatest then v else ClaudeCodeVersionLatest)"

definition ClaudeCodeVersionEnabled :: "string \<Rightarrow> bool" where
  "ClaudeCodeVersionEnabled v \<longleftrightarrow> v = ClaudeCodeVersionLatest"

definition RulePreVendorTransforms :: "AttemptFlags \<Rightarrow> Transform list" where
  "RulePreVendorTransforms f =
     (if af_UseMaxCompletionTokens f \<or> af_UseMaxTokens f
      then [OpenAIMaxTokensRewriteTransform (af_UseMaxCompletionTokens f) (af_UseMaxTokens f)] else []) @
     (if af_ThinkingEffort f \<noteq> [] then [RuleThinkingTransform (af_ThinkingEffort f)] else []) @
     (if ClaudeCodeVersionEnabled (af_ClaudeCodeVersion f) then [ClaudeCodeVersionTransform (af_ClaudeCodeVersion f)] else [])"

text \<open>\<open>hdr\<close> is \<^verbatim>\<open>c.GetHeader\<close>; an absent header is the empty string.\<close>

definition isCursorRequest :: "(string \<Rightarrow> string) \<Rightarrow> bool" where
  "isCursorRequest hdr \<longleftrightarrow>
     Contains (ToLower (hdr ''User-Agent'')) ''cursor'' \<or> ToLower (hdr ''X-Client-Name'') = ''cursor'' \<or>
     Contains (ToLower (hdr ''X-Client-App'')) ''cursor''"

definition ResolveRuleFlags :: "(string \<Rightarrow> string) \<Rightarrow> AttemptFlags option \<Rightarrow> AttemptFlags" where
  "ResolveRuleFlags hdr rule =
     (case rule of
        None \<Rightarrow> zeroFlags
      | Some flags \<Rightarrow> if af_CursorCompatAuto flags \<and> isCursorRequest hdr then flags\<lparr>af_CursorCompat := True\<rparr> else flags)"

definition isBillingHeaderScenario :: "string \<Rightarrow> bool" where
  "isBillingHeaderScenario scenario \<longleftrightarrow>
     fst (ParseScenarioProfile scenario) = ''claude_code'' \<or> fst (ParseScenarioProfile scenario) = ''claude_desktop''"

definition autoSetCleanHeaderFlag :: "AttemptFlags \<Rightarrow> string \<Rightarrow> string \<Rightarrow> string \<Rightarrow> AttemptFlags" where
  "autoSetCleanHeaderFlag f src target scenario =
     (if af_CleanHeader f then f
      else if src \<noteq> target \<and> isBillingHeaderScenario scenario then f\<lparr>af_CleanHeader := True\<rparr>
      else f)"

definition inheritScenario :: "ScenarioFlags option \<Rightarrow> AttemptFlags \<Rightarrow> AttemptFlags" where
  "inheritScenario sc f =
     (case sc of
        None \<Rightarrow> f
      | Some s \<Rightarrow>
          f\<lparr>af_ThinkingEffort := (if af_ThinkingEffort f = [] \<and> sf_ThinkingEffort s \<noteq> [] then sf_ThinkingEffort s else af_ThinkingEffort f),
            af_ClaudeCodeCompat := af_ClaudeCodeCompat f \<or> sf_ClaudeCodeCompat s,
            af_SkipUsage := af_SkipUsage f \<or> sf_SkipUsage s,
            af_CustomUserAgent := (if af_CustomUserAgent f = [] \<and> sf_CustomUserAgent s \<noteq> [] then sf_CustomUserAgent s
                                   else af_CustomUserAgent f),
            af_ClaudeCodeVersion := (if af_ClaudeCodeVersion f = [] \<and> sf_ClaudeCodeVersion s \<noteq> [] then sf_ClaudeCodeVersion s
                                     else af_ClaudeCodeVersion f)\<rparr>)"

definition resolveRecording :: "ScenarioFlags option \<Rightarrow> string \<Rightarrow> string" where
  "resolveRecording sc rec =
     (if ParseRecordingMode rec \<noteq> [] then ParseRecordingMode rec
      else (case sc of Some s \<Rightarrow> ParseRecordingMode (sf_RecordingV2 s) | None \<Rightarrow> []))"

definition ResolveRuleFlagsWithScenario :: "(string \<Rightarrow> string) \<Rightarrow> (AttemptFlags \<Rightarrow> AttemptFlags) \<Rightarrow> AttemptFlags option \<Rightarrow> string \<Rightarrow>
    ScenarioFlags option \<Rightarrow> string \<Rightarrow> string \<Rightarrow> AIProvider option \<Rightarrow> AttemptFlags" where
  "ResolveRuleFlagsWithScenario hdr probe rule scenario sc sourceAPI targetAPI provider =
     (let f1 = inheritScenario sc (ResolveRuleFlags hdr rule);
          f2 = f1\<lparr>af_Recording := resolveRecording sc (af_Recording f1)\<rparr>;
          f3 = autoSetCleanHeaderFlag (probe f2) sourceAPI targetAPI scenario;
          f4 = (if af_CleanHeader f3 \<and> (case provider of None \<Rightarrow> False | Some p \<Rightarrow> IsClaudeCodeProvider p)
                then f3\<lparr>af_CleanHeader := False\<rparr> else f3)
      in (case provider of
            None \<Rightarrow> f4
          | Some p \<Rightarrow>
              f4\<lparr>af_ClaudeCodeVersion := (if IsClaudeCodeProvider p then ResolveClaudeCodeVersion (af_ClaudeCodeVersion f4) else [])\<rparr>))"

section \<open>The plan\<close>

datatype plan_error = ProviderRequired | GoogleResponsesUnsupported string | UnsupportedAPIStyle string string

definition ResolveOpenAIEndpoint :: "AIProvider option \<Rightarrow> AttemptFlags \<Rightarrow> IncomingAPIType \<Rightarrow> string \<Rightarrow> plan_error + string" where
  "ResolveOpenAIEndpoint provider flags incoming modelOverride =
     (case provider of
        None \<Rightarrow> Inl ProviderRequired
      | Some p \<Rightarrow>
          (case ParseEndpointOverride (af_OpenAIEndpointOverride flags) of
             OverrideChat \<Rightarrow> Inr TypeOpenAIChat
           | OverrideResponses \<Rightarrow> Inr TypeOpenAIResponses
           | OverrideAuto \<Rightarrow>
               if modelOverride \<noteq> EndpointModeUnknown then Inr (resolveEndpointMode modelOverride incoming)
               else Inr (resolveEndpointMode (ap_OpenAIEndpointMode p) incoming)))"

definition supportsAnthropicStyle :: "AIProvider option \<Rightarrow> bool" where
  "supportsAnthropicStyle provider =
     (case provider of None \<Rightarrow> False | Some p \<Rightarrow> snd (ResolveEndpoint APIStyleAnthropic p) = APIStyleAnthropic)"

definition clientAPIStyle :: "string \<Rightarrow> string" where
  "clientAPIStyle src =
     (if src = TypeAnthropicV1 \<or> src = TypeAnthropicBeta then APIStyleAnthropic
      else if src = TypeGoogle then APIStyleGoogle
      else APIStyleOpenAI)"

definition resolveAttemptStyle :: "(string \<Rightarrow> string) \<Rightarrow> AttemptFlags option \<Rightarrow> AIProvider \<Rightarrow> string \<Rightarrow> string" where
  "resolveAttemptStyle hdr rule p src =
     (if ParseAnthropicOverride (af_AnthropicEndpointOverride (ResolveRuleFlags hdr rule)) \<noteq> AnthropicOverrideAnthropic
      then clientAPIStyle src
      else if supportsAnthropicStyle (Some p) then APIStyleAnthropic
      else clientAPIStyle src)"

definition anthropicClient :: "string \<Rightarrow> bool" where
  "anthropicClient src \<longleftrightarrow> src = TypeAnthropicV1 \<or> src = TypeAnthropicBeta"

definition resolveAttemptTarget :: "catalog option \<Rightarrow> (string \<Rightarrow> string) \<Rightarrow> AttemptFlags option \<Rightarrow> AIProvider \<Rightarrow> string \<Rightarrow> string \<Rightarrow>
    plan_error + string" where
  "resolveAttemptTarget tm hdr rule p model src =
     (if ap_APIStyle p = APIStyleAnthropic then Inr (if anthropicClient src then src else TypeAnthropicBeta)
      else if ap_APIStyle p = APIStyleGoogle then
        (if src = TypeOpenAIResponses then Inl (GoogleResponsesUnsupported (ap_Name p)) else Inr TypeGoogle)
      else if ap_APIStyle p = APIStyleOpenAI then
        ResolveOpenAIEndpoint (Some p) (ResolveRuleFlags hdr rule)
          (if src = TypeOpenAIChat then IncomingAPIChat else IncomingAPIResponses)
          (GetOpenAIEndpointOverrideForModel tm p model)
      else if anthropicClient src then Inr src
      else Inl (UnsupportedAPIStyle (ap_Name p) (ap_APIStyle p)))"

record attemptPlan =
  pl_Source :: string
  pl_Target :: string
  pl_Provider :: AIProvider
  pl_Model :: string
  pl_Flags :: AttemptFlags
  pl_PreBase :: "Transform list"
  pl_PreVendor :: "Transform list"
  pl_MaxAllowed :: int
  pl_DefaultMaxTokens :: int

definition DefaultRequestTimeout :: int where "DefaultRequestTimeout = 1800"

definition planAttempt :: "catalog option \<Rightarrow> int \<Rightarrow> (string \<Rightarrow> string) \<Rightarrow> (AttemptFlags \<Rightarrow> AttemptFlags) \<Rightarrow> AttemptFlags option \<Rightarrow>
    AIProvider \<Rightarrow> string \<Rightarrow> string \<Rightarrow> string \<Rightarrow> ScenarioFlags option \<Rightarrow> plan_error + attemptPlan" where
  "planAttempt tm defaultMaxTokens hdr probe rule provider model src scenario sc =
     (let p1 = ResolveStyle (resolveAttemptStyle hdr rule provider src) provider;
          p = (if ap_Timeout p1 \<le> 0 then p1\<lparr>ap_Timeout := DefaultRequestTimeout\<rparr> else p1)
      in case resolveAttemptTarget tm hdr rule p model src of
           Inl e \<Rightarrow> Inl e
         | Inr target \<Rightarrow>
             (let flags = ResolveRuleFlagsWithScenario hdr probe rule scenario sc src target (Some p) in
              Inr \<lparr>pl_Source = src, pl_Target = target, pl_Provider = p, pl_Model = model, pl_Flags = flags,
                   pl_PreBase = RulePreBaseTransforms flags, pl_PreVendor = RulePreVendorTransforms flags,
                   pl_MaxAllowed = GetMaxTokensForModelByProvider tm p model, pl_DefaultMaxTokens = defaultMaxTokens\<rparr>))"

definition servedByStage :: "attemptPlan \<Rightarrow> bool" where
  "servedByStage pl =
     (if anthropicClient (pl_Source pl) then pl_Target pl = TypeOpenAIChat \<or> pl_Target pl = TypeOpenAIResponses
      else if pl_Source pl = TypeOpenAIChat \<or> pl_Source pl = TypeOpenAIResponses then pl_Target pl = TypeAnthropicBeta
      else False)"

section \<open>Facts about plans\<close>

named_theorems attempt_simps

lemmas [attempt_simps] = api_types api_styles anthropicClient_def clientAPIStyle_def

lemma ResolveOpenAIEndpoint_OpenAI:
  "ResolveOpenAIEndpoint (Some p) f inc m = Inr t \<Longrightarrow> t = TypeOpenAIChat \<or> t = TypeOpenAIResponses"
  by (auto simp: ResolveOpenAIEndpoint_def resolveEndpointMode_def split: EndpointOverride.splits if_splits)

lemma ResolveOpenAIEndpoint_total: "\<exists>t. ResolveOpenAIEndpoint (Some p) f inc m = Inr t"
  by (auto simp: ResolveOpenAIEndpoint_def split: EndpointOverride.splits)

lemma styles_differ: "APIStyleOpenAI \<noteq> APIStyleAnthropic" "APIStyleOpenAI \<noteq> APIStyleGoogle" "APIStyleAnthropic \<noteq> APIStyleGoogle"
  by (simp_all add: api_styles)

lemma target_cases:
  assumes "resolveAttemptTarget tm hdr rule p model src = Inr t"
  obtains "ap_APIStyle p = APIStyleAnthropic" "t = (if anthropicClient src then src else TypeAnthropicBeta)"
  | "ap_APIStyle p = APIStyleGoogle" "t = TypeGoogle" "src \<noteq> TypeOpenAIResponses"
  | "ap_APIStyle p = APIStyleOpenAI" "t = TypeOpenAIChat \<or> t = TypeOpenAIResponses"
  | "ap_APIStyle p \<notin> {APIStyleAnthropic, APIStyleGoogle, APIStyleOpenAI}" "anthropicClient src" "t = src"
  using assms
  by (auto simp: resolveAttemptTarget_def dest: ResolveOpenAIEndpoint_OpenAI split: if_splits)

lemma target_fails_iff:
  "(\<exists>e. resolveAttemptTarget tm hdr rule p model src = Inl e) \<longleftrightarrow>
     ap_APIStyle p = APIStyleGoogle \<and> src = TypeOpenAIResponses \<or>
     ap_APIStyle p \<notin> {APIStyleAnthropic, APIStyleGoogle, APIStyleOpenAI} \<and> \<not> anthropicClient src"
proof -
  have "\<not> (\<exists>e. ResolveOpenAIEndpoint (Some p) f inc m = Inl e)" for f inc m
    using ResolveOpenAIEndpoint_total [of p f inc m] by auto
  then show ?thesis by (auto simp: resolveAttemptTarget_def api_styles)
qed

definition attemptProvider :: "(string \<Rightarrow> string) \<Rightarrow> AttemptFlags option \<Rightarrow> AIProvider \<Rightarrow> string \<Rightarrow> AIProvider" where
  "attemptProvider hdr rule p src =
     (let p1 = ResolveStyle (resolveAttemptStyle hdr rule p src) p in
      if ap_Timeout p1 \<le> 0 then p1\<lparr>ap_Timeout := DefaultRequestTimeout\<rparr> else p1)"

lemma attemptProvider_fields:
  "(ap_APIBase (attemptProvider hdr rule p src), ap_APIStyle (attemptProvider hdr rule p src)) =
     ResolveEndpoint (resolveAttemptStyle hdr rule p src) p"
  "GetAccessToken (attemptProvider hdr rule p src) = GetAccessToken p"
  "ap_Timeout (attemptProvider hdr rule p src) > 0"
  "ap_AuthType (attemptProvider hdr rule p src) = ap_AuthType p"
  by (auto simp: attemptProvider_def Let_def ResolveStyle_fields DefaultRequestTimeout_def GetAccessToken_def)

lemma planAttempt_Inr:
  assumes "planAttempt tm d hdr probe rule p model src scenario sc = Inr pl"
  shows "pl_Source pl = src" "pl_Provider pl = attemptProvider hdr rule p src"
    "resolveAttemptTarget tm hdr rule (pl_Provider pl) model src = Inr (pl_Target pl)"
    "pl_Flags pl = ResolveRuleFlagsWithScenario hdr probe rule scenario sc src (pl_Target pl) (Some (pl_Provider pl))"
    "pl_PreVendor pl = RulePreVendorTransforms (pl_Flags pl)" "pl_PreBase pl = RulePreBaseTransforms (pl_Flags pl)"
  using assms by (auto simp: planAttempt_def attemptProvider_def Let_def split: sum.splits)

lemma planAttempt_fails_iff:
  "(\<exists>e. planAttempt tm d hdr probe rule p model src scenario sc = Inl e) \<longleftrightarrow>
     (\<exists>e. resolveAttemptTarget tm hdr rule (attemptProvider hdr rule p src) model src = Inl e)"
  by (auto simp: planAttempt_def attemptProvider_def Let_def split: sum.splits)

section \<open>Properties\<close>

text \<open>
  C22 (type): what an attempt sends is typed by the provider it sends it to: the target protocol is one the
  resolved style of the provider speaks, except that an Anthropic client keeps its own protocol on a provider
  of an unknown style; the URL and style are the provider's own pair or the pair of a URL configured for the
  client's or the forced style; the credential is the provider's; and the attempt goes through the protocol
  stages exactly when an Anthropic client meets an OpenAI target or the other way round.
\<close>

theorem attempt_target_typed:
  assumes "planAttempt tm d hdr probe rule p model src scenario sc = Inr pl"
    "src \<in> {TypeAnthropicV1, TypeAnthropicBeta, TypeOpenAIChat, TypeOpenAIResponses}"
  shows "(clientAPIStyle (pl_Target pl) = ap_APIStyle (pl_Provider pl) \<or>
      anthropicClient src \<and> pl_Target pl = src \<and> ap_APIStyle (pl_Provider pl) \<notin> {APIStyleAnthropic, APIStyleGoogle, APIStyleOpenAI}) \<and>
    ((ap_APIBase (pl_Provider pl), ap_APIStyle (pl_Provider pl)) \<in>
      {(ap_APIBase p, ap_APIStyle p), (ap_APIBaseOpenAI p, APIStyleOpenAI), (ap_APIBaseAnthropic p, APIStyleAnthropic)}) \<and>
    GetAccessToken (pl_Provider pl) = GetAccessToken p \<and> ap_Timeout (pl_Provider pl) > 0 \<and>
    (servedByStage pl \<longleftrightarrow> {clientAPIStyle src, clientAPIStyle (pl_Target pl)} = {APIStyleAnthropic, APIStyleOpenAI})"
proof -
  note f = planAttempt_Inr [OF assms(1)]
  have "servedByStage pl \<longleftrightarrow> {clientAPIStyle src, clientAPIStyle (pl_Target pl)} = {APIStyleAnthropic, APIStyleOpenAI}"
    using f(3) by (cases rule: target_cases) (use assms(2) f(1) in \<open>auto simp: servedByStage_def attempt_simps doubleton_eq_iff\<close>)
  moreover have "clientAPIStyle (pl_Target pl) = ap_APIStyle (pl_Provider pl) \<or>
      anthropicClient src \<and> pl_Target pl = src \<and> ap_APIStyle (pl_Provider pl) \<notin> {APIStyleAnthropic, APIStyleGoogle, APIStyleOpenAI}"
    using f(3) by (cases rule: target_cases) (auto simp: attempt_simps)
  moreover have "(ap_APIBase (pl_Provider pl), ap_APIStyle (pl_Provider pl)) \<in>
      {(ap_APIBase p, ap_APIStyle p), (ap_APIBaseOpenAI p, APIStyleOpenAI), (ap_APIBaseAnthropic p, APIStyleAnthropic)}"
    unfolding f(2) attemptProvider_fields by (auto simp: ResolveEndpoint_def)
  ultimately show ?thesis unfolding f(2) using attemptProvider_fields by blast
qed

definition dualProvider :: AIProvider where
  "dualProvider = \<lparr>ap_UUID = ''u'', ap_Name = ''glm'', ap_APIBase = ''https://a/openai'', ap_APIStyle = ''openai'', ap_Token = ''k'',
     ap_NoKeyRequired = False, ap_Enabled = True, ap_ProxyURL = [], ap_Timeout = 0, ap_Tags = [], ap_Models = [], ap_LastUpdated = [],
     ap_APIBaseOpenAI = ''https://a/openai'', ap_APIBaseAnthropic = ''https://a/anthropic'', ap_AuthType = ''api_key'',
     ap_OAuthDetail = None, ap_VModelDetail = None, ap_Credential = None,
     ap_Source = ''user'', ap_OpenAIEndpointMode = []\<rparr>"

lemma dualProvider_facts:
  "dualEligible dualProvider" "HasDualURL APIStyleAnthropic dualProvider" "HasDualURL APIStyleOpenAI dualProvider"
  by (simp_all add: dualEligible_def HasDualURL_def dualProvider_def auth_types api_styles)

lemma dualProvider_plan:
  "\<exists>pl. planAttempt None 100 (\<lambda>h. []) (\<lambda>f. f) None dualProvider ''m'' TypeAnthropicBeta ''claude_code'' None = Inr pl"
  using planAttempt_fails_iff [of None 100 "\<lambda>h. []" "\<lambda>f. f" None dualProvider "''m''" TypeAnthropicBeta "''claude_code''" None]
  unfolding target_fails_iff
  by (cases "planAttempt None 100 (\<lambda>h. []) (\<lambda>f. f) None dualProvider ''m'' TypeAnthropicBeta ''claude_code'' None")
     (auto simp: anthropicClient_def api_types)

theorem attempt_target_typed_witness:
  "\<exists>pl. planAttempt None 100 (\<lambda>h. []) (\<lambda>f. f) None dualProvider ''m'' TypeAnthropicBeta ''claude_code'' None = Inr pl \<and>
     ap_Timeout (pl_Provider pl) > 0"
  using dualProvider_plan attempt_target_typed by fastforce

text \<open>
  An attempt is native when it can be: when the provider has a URL for the client's own
  style that its credentials may use, and the rule does not force the Anthropic style, the request goes to that
  URL, an Anthropic client in its own protocol and an OpenAI client in the endpoint the rule's override, the
  model's catalog entry or the provider's mode gives, in this order; planning never fails then.
\<close>

theorem attempt_native_first:
  assumes "dualEligible p" "HasDualURL (clientAPIStyle src) p"
    "ParseAnthropicOverride (af_AnthropicEndpointOverride (ResolveRuleFlags hdr rule)) = AnthropicOverrideAuto"
  shows "\<exists>pl. planAttempt tm d hdr probe rule p model src scenario sc = Inr pl \<and>
    ap_APIBase (pl_Provider pl) = (if anthropicClient src then ap_APIBaseAnthropic p else ap_APIBaseOpenAI p) \<and>
    \<not> servedByStage pl \<and> (anthropicClient src \<longrightarrow> pl_Target pl = src) \<and>
    (\<not> anthropicClient src \<longrightarrow> pl_Target pl =
      (case ParseEndpointOverride (af_OpenAIEndpointOverride (ResolveRuleFlags hdr rule)) of
         OverrideChat \<Rightarrow> TypeOpenAIChat
       | OverrideResponses \<Rightarrow> TypeOpenAIResponses
       | OverrideAuto \<Rightarrow>
           (let modelMode = GetOpenAIEndpointOverrideForModel tm (pl_Provider pl) model;
                mode = (if modelMode \<noteq> EndpointModeUnknown then modelMode else ap_OpenAIEndpointMode p)
            in if mode = EndpointModeResponses \<or> mode = EndpointModeBoth \<and> src \<noteq> TypeOpenAIChat
               then TypeOpenAIResponses else TypeOpenAIChat)))"
proof -
  let ?p = "attemptProvider hdr rule p src"
  have st: "resolveAttemptStyle hdr rule p src = clientAPIStyle src" using assms(3) by (simp add: resolveAttemptStyle_def)
  have g: "clientAPIStyle src \<noteq> APIStyleGoogle" using assms(2) by (auto simp: HasDualURL_def api_styles)
  have e: "ap_APIStyle ?p = clientAPIStyle src" "ap_APIBase ?p = (if clientAPIStyle src = APIStyleOpenAI then ap_APIBaseOpenAI p else ap_APIBaseAnthropic p)"
    using attemptProvider_fields(1) [of hdr rule p src] ResolveEndpoint_dual [OF assms(1,2)]
    by (simp_all add: st prod_eq_iff)
  have m: "ap_OpenAIEndpointMode ?p = ap_OpenAIEndpointMode p"
    by (simp add: attemptProvider_def Let_def ResolveStyle_fields)
  have ok: "\<not> (\<exists>e. planAttempt tm d hdr probe rule p model src scenario sc = Inl e)"
    unfolding planAttempt_fails_iff target_fails_iff e(1) using g by (auto simp: clientAPIStyle_def)
  then obtain pl where pl: "planAttempt tm d hdr probe rule p model src scenario sc = Inr pl"
    by (cases "planAttempt tm d hdr probe rule p model src scenario sc") auto
  note f = planAttempt_Inr [OF pl]
  have t: "resolveAttemptTarget tm hdr rule ?p model src = Inr (pl_Target pl)" using f(2,3) by simp
  show ?thesis
  proof (cases "anthropicClient src")
    case True
    then have s: "clientAPIStyle src = APIStyleAnthropic" by (simp add: anthropicClient_def clientAPIStyle_def)
    have tt: "pl_Target pl = src" using t True by (simp add: resolveAttemptTarget_def e(1) s)
    have "\<not> servedByStage pl" using True f(1) tt by (auto simp: servedByStage_def attempt_simps)
    then show ?thesis using pl e(2) s True f(2) tt by (auto simp: api_styles)
  next
    case False
    have s: "clientAPIStyle src = APIStyleOpenAI" using False g by (auto simp: anthropicClient_def clientAPIStyle_def split: if_splits)
    have tt: "ResolveOpenAIEndpoint (Some ?p) (ResolveRuleFlags hdr rule)
        (if src = TypeOpenAIChat then IncomingAPIChat else IncomingAPIResponses)
        (GetOpenAIEndpointOverrideForModel tm ?p model) = Inr (pl_Target pl)"
      using t styles_differ by (simp add: resolveAttemptTarget_def e(1) s)
    have "pl_Target pl = TypeOpenAIChat \<or> pl_Target pl = TypeOpenAIResponses" using ResolveOpenAIEndpoint_OpenAI [OF tt] .
    then have "\<not> servedByStage pl" using False f(1) by (auto simp: servedByStage_def api_types)
    then show ?thesis using pl e(2) s False f(2) tt
      by (auto simp: ResolveOpenAIEndpoint_def resolveEndpointMode_def m Let_def split: EndpointOverride.splits if_splits)
  qed
qed

theorem attempt_native_first_witness:
  "\<exists>pl. planAttempt None 100 (\<lambda>h. []) (\<lambda>f. f) None dualProvider ''m'' TypeAnthropicV1 ''claude_code'' None = Inr pl \<and>
     ap_APIBase (pl_Provider pl) = ''https://a/anthropic'' \<and> pl_Target pl = TypeAnthropicV1"
proof -
  have s: "clientAPIStyle TypeAnthropicV1 = APIStyleAnthropic" "anthropicClient TypeAnthropicV1"
    by (simp_all add: clientAPIStyle_def anthropicClient_def)
  have o: "ParseAnthropicOverride (af_AnthropicEndpointOverride (ResolveRuleFlags (\<lambda>h. []) None)) = AnthropicOverrideAuto"
    by (simp add: ParseAnthropicOverride_def ResolveRuleFlags_def zeroFlags_def)
  have d: "HasDualURL (clientAPIStyle TypeAnthropicV1) dualProvider" using dualProvider_facts s by simp
  show ?thesis
    using attempt_native_first [OF dualProvider_facts(1) d o, of None 100 "\<lambda>f. f" "''m''" "''claude_code''" None] s(2)
    by (auto simp: dualProvider_def)
qed

text \<open>
  Whatever the rule, the scenario and a probe's header ask for, the flags of an attempt respect
  its provider: on a Claude OAuth provider the billing header is never stripped and the version is one the
  client can impersonate; on every other provider no version is impersonated, and between different protocols
  of a billing scenario the header is always stripped before the request is converted.
\<close>

theorem attempt_flags_respect_provider:
  assumes "planAttempt tm d hdr probe rule p model src scenario sc = Inr pl"
  shows "if IsClaudeCodeProvider (pl_Provider pl)
    then CleanHeaderTransform \<notin> set (pl_PreBase pl) \<and> af_ClaudeCodeVersion (pl_Flags pl) \<in> {ClaudeCodeVersionLegacy, ClaudeCodeVersionLatest}
    else (\<forall>v. ClaudeCodeVersionTransform v \<notin> set (pl_PreVendor pl)) \<and> af_ClaudeCodeVersion (pl_Flags pl) = [] \<and>
      (isBillingHeaderScenario scenario \<and> pl_Target pl \<noteq> src \<longrightarrow> CleanHeaderTransform \<in> set (pl_PreBase pl))"
  unfolding planAttempt_Inr(5,6) [OF assms] planAttempt_Inr(4) [OF assms]
  by (auto simp: RulePreBaseTransforms_def RulePreVendorTransforms_def ResolveRuleFlagsWithScenario_def Let_def
      autoSetCleanHeaderFlag_def ResolveClaudeCodeVersion_def ClaudeCodeVersionEnabled_def ClaudeCodeVersionLatest_def)

theorem attempt_flags_respect_provider_witness:
  "\<exists>pl. planAttempt None 100 (\<lambda>h. []) (\<lambda>f. f) None dualProvider ''m'' TypeAnthropicBeta ''claude_code'' None = Inr pl \<and>
     af_ClaudeCodeVersion (pl_Flags pl) = []"
proof -
  obtain pl where pl: "planAttempt None 100 (\<lambda>h. []) (\<lambda>f. f) None dualProvider ''m'' TypeAnthropicBeta ''claude_code'' None = Inr pl"
    using dualProvider_plan by blast
  have "ap_AuthType (pl_Provider pl) = ''api_key''"
    using planAttempt_Inr(2) [OF pl] attemptProvider_fields(4) by (simp add: dualProvider_def)
  then have "\<not> IsClaudeCodeProvider (pl_Provider pl)" by (simp add: IsClaudeCodeProvider_def AuthTypeOAuth_def)
  then show ?thesis using pl attempt_flags_respect_provider [OF pl] by auto
qed

section \<open>Findings\<close>

text \<open>A rule that forces the chat endpoint is obeyed on Codex, which has none.\<close>

lemma codex_chat_override_obeyed:
  assumes "IsCodexProvider p" "ap_APIStyle p = APIStyleOpenAI" "af_OpenAIEndpointOverride f = ''chat''" "\<not> af_CursorCompatAuto f"
  shows "resolveAttemptTarget tm hdr (Some f) p model src = Inr TypeOpenAIChat"
  using assms by (simp add: resolveAttemptTarget_def ResolveRuleFlags_def ResolveOpenAIEndpoint_def ParseEndpointOverride_def api_styles)

end
