(* ===== verification/TB_Stage.thy ===== *)
theory TB_Stage
  imports TB_Prelude
begin

text \<open>
  The protocol stages (\<^verbatim>\<open>internal/protocol/stage\<close>): endpoints, stages that wrap an endpoint of the same
  protocol, and bridges between protocols.  \<open>'v\<close> stands for the requests, responses and events of all
  protocols (Go's \<^verbatim>\<open>any\<close>), \<open>'w\<close> for the state an endpoint reads and changes, its network included; a stream
  is a handle on that state.  A nil endpoint, stage, session or stream is \<open>None\<close>.
\<close>

section \<open>Errors\<close>

text \<open>\<open>Wrapped\<close> is \<^verbatim>\<open>fmt.Errorf\<close> with \<open>%w\<close>, \<open>Joined\<close> is \<^verbatim>\<open>errors.Join\<close>.\<close>

datatype stage_error = EOF | Err string | Wrapped string stage_error | Joined stage_error stage_error |
  CommittedError stage_error

fun HasCommittedSideEffects :: "stage_error \<Rightarrow> bool" where
  "HasCommittedSideEffects (CommittedError e) \<longleftrightarrow> True"
| "HasCommittedSideEffects (Wrapped s e) \<longleftrightarrow> HasCommittedSideEffects e"
| "HasCommittedSideEffects (Joined a b) \<longleftrightarrow> HasCommittedSideEffects a \<or> HasCommittedSideEffects b"
| "HasCommittedSideEffects _ \<longleftrightarrow> False"

text \<open>\<^verbatim>\<open>errors.Is(err, io.EOF)\<close>.\<close>

fun IsEOF :: "stage_error \<Rightarrow> bool" where
  "IsEOF EOF \<longleftrightarrow> True"
| "IsEOF (Err s) \<longleftrightarrow> False"
| "IsEOF (Wrapped s e) \<longleftrightarrow> IsEOF e"
| "IsEOF (Joined a b) \<longleftrightarrow> IsEOF a \<or> IsEOF b"
| "IsEOF (CommittedError e) \<longleftrightarrow> IsEOF e"

definition WrapCommitted :: "stage_error \<Rightarrow> bool \<Rightarrow> stage_error" where
  "WrapCommitted e committed = (if \<not> committed \<or> HasCommittedSideEffects e then e else CommittedError e)"

section \<open>Endpoints\<close>

record TokenUsage =
  InputTokens :: int
  OutputTokens :: int
  CacheReadTokens :: int
  CacheWriteTokens :: int
  ReasoningTokens :: int
  SystemTokens :: int

text \<open>\<open>'s\<close> is the typed state a call carries beside its request.\<close>

record ('v, 's) Call =
  call_Request :: 'v
  call_State :: 's

record 'v Response =
  resp_Value :: 'v
  resp_Usage :: "TokenUsage option"

record ('v, 'w) EventStream =
  st_Next :: "'w \<Rightarrow> (stage_error + 'v) \<times> 'w"
  st_Close :: "'w \<Rightarrow> stage_error option \<times> 'w"
  st_Result :: "'w \<Rightarrow> TokenUsage option"

record ('v, 's, 'w) Endpoint =
  ep_Protocol :: string
  ep_Complete :: "('v, 's) Call \<Rightarrow> 'w \<Rightarrow> (stage_error + 'v Response option) \<times> 'w"
  ep_Stream :: "('v, 's) Call \<Rightarrow> 'w \<Rightarrow> (stage_error + ('v, 'w) EventStream option) \<times> 'w"

record ('v, 's, 'w) Stage =
  sg_Name :: string
  sg_Protocol :: string
  sg_Wrap :: "('v, 's, 'w) Endpoint \<Rightarrow> ('v, 's, 'w) Endpoint option"

datatype chain_error = EmptyProtocol | EdgeProtocol

definition checkChainProtocol :: "string \<Rightarrow> chain_error option" where
  "checkChainProtocol api =
     (if api = [] then Some EmptyProtocol else if api = ''anthropic_v1'' then Some EdgeProtocol else None)"

section \<open>Composition\<close>

datatype compose_error = TerminalNil | TerminalProtocol chain_error | StageNil nat | StageNameEmpty nat |
  StageProtocolBad string chain_error | StageMismatch string string string | StageReturnedNil string |
  StageReturnedOther string string string

text \<open>The loop, over the stages from the innermost on, with their indices.\<close>

fun composeLoop :: "(nat \<times> ('v, 's, 'w) Stage option) list \<Rightarrow> ('v, 's, 'w) Endpoint \<Rightarrow> string \<Rightarrow>
    compose_error + ('v, 's, 'w) Endpoint" where
  "composeLoop [] cur curProtocol = Inr cur"
| "composeLoop ((i, None) # rest) cur curProtocol = Inl (StageNil i)"
| "composeLoop ((i, Some sg) # rest) cur curProtocol =
     (let name = TrimSpace (sg_Name sg) in
      if name = [] then Inl (StageNameEmpty i)
      else
        (case checkChainProtocol (sg_Protocol sg) of
           Some e \<Rightarrow> Inl (StageProtocolBad name e)
         | None \<Rightarrow>
             if sg_Protocol sg \<noteq> curProtocol then Inl (StageMismatch name (sg_Protocol sg) curProtocol)
             else
               (case sg_Wrap sg cur of
                  None \<Rightarrow> Inl (StageReturnedNil name)
                | Some wrapped \<Rightarrow>
                    if ep_Protocol wrapped \<noteq> sg_Protocol sg
                    then Inl (StageReturnedOther name (ep_Protocol wrapped) (sg_Protocol sg))
                    else composeLoop rest wrapped (sg_Protocol sg))))"

definition Compose :: "('v, 's, 'w) Endpoint option \<Rightarrow> ('v, 's, 'w) Stage option list \<Rightarrow> compose_error + ('v, 's, 'w) Endpoint" where
  "Compose terminal stages =
     (case terminal of
        None \<Rightarrow> Inl TerminalNil
      | Some t \<Rightarrow>
          (case checkChainProtocol (ep_Protocol t) of
             Some e \<Rightarrow> Inl (TerminalProtocol e)
           | None \<Rightarrow> composeLoop (rev (enumerate 0 stages)) t (ep_Protocol t)))"

section \<open>Bridges\<close>

datatype Operation = OperationComplete | OperationStream

record ('v, 's, 'w) BridgeSession =
  bs_TargetCall :: "('v, 's) Call"
  bs_ConvertComplete :: "'v Response \<Rightarrow> 'w \<Rightarrow> (stage_error + 'v Response option) \<times> 'w"
  bs_ConvertStream :: "('v, 'w) EventStream \<Rightarrow> 'w \<Rightarrow> (stage_error + ('v, 'w) EventStream option) \<times> 'w"

record ('v, 's, 'w) Bridge =
  br_Source :: string
  br_Target :: string
  br_Open :: "('v, 's) Call \<Rightarrow> Operation \<Rightarrow> 'w \<Rightarrow> (stage_error + ('v, 's, 'w) BridgeSession option) \<times> 'w"

datatype adapt_error = AdaptEndpointNil | AdaptBridgeNil | AdaptSource chain_error | AdaptTarget chain_error |
  AdaptMismatch string string string

definition bridge_open :: "('v, 's, 'w) Bridge \<Rightarrow> ('v, 's) Call \<Rightarrow> Operation \<Rightarrow> 'w \<Rightarrow>
    (stage_error + ('v, 's, 'w) BridgeSession) \<times> 'w" where
  "bridge_open br call op w =
     (case br_Open br call op w of
        (Inl e, w1) \<Rightarrow> (Inl e, w1)
      | (Inr None, w1) \<Rightarrow> (Inl (Err ''Open returned a nil session''), w1)
      | (Inr (Some session), w1) \<Rightarrow> (Inr session, w1))"

definition mergeUsage :: "TokenUsage option \<Rightarrow> TokenUsage option \<Rightarrow> TokenUsage option" where
  "mergeUsage converted target = (case converted of None \<Rightarrow> target | Some u \<Rightarrow> Some u)"

definition bridge_Complete :: "('v, 's, 'w) Endpoint \<Rightarrow> ('v, 's, 'w) Bridge \<Rightarrow> ('v, 's) Call \<Rightarrow> 'w \<Rightarrow>
    (stage_error + 'v Response option) \<times> 'w" where
  "bridge_Complete nxt br call w =
     (case bridge_open br call OperationComplete w of
        (Inl e, w1) \<Rightarrow> (Inl e, w1)
      | (Inr session, w1) \<Rightarrow>
          (case ep_Complete nxt (bs_TargetCall session) w1 of
             (Inl e, w2) \<Rightarrow> (Inl e, w2)
           | (Inr None, w2) \<Rightarrow> (Inl (Err ''target endpoint returned a nil response''), w2)
           | (Inr (Some response), w2) \<Rightarrow>
               (case bs_ConvertComplete session response w2 of
                  (Inl e, w3) \<Rightarrow> (Inl e, w3)
                | (Inr None, w3) \<Rightarrow> (Inl (Err ''session returned a nil converted response''), w3)
                | (Inr (Some c), w3) \<Rightarrow>
                    (Inr (Some (c\<lparr>resp_Usage := mergeUsage (resp_Usage c) (resp_Usage response)\<rparr>)), w3))))"

definition factPreservingStream :: "('v, 'w) EventStream \<Rightarrow> ('v, 'w) EventStream \<Rightarrow> ('v, 'w) EventStream" where
  "factPreservingStream converted target =
     \<lparr>st_Next = st_Next converted, st_Close = st_Close converted,
      st_Result = (\<lambda>w. mergeUsage (st_Result converted w) (st_Result target w))\<rparr>"

definition closeAfterConversionFailure :: "('v, 'w) EventStream \<Rightarrow> stage_error \<Rightarrow> 'w \<Rightarrow> stage_error \<times> 'w" where
  "closeAfterConversionFailure stream e w =
     (case st_Close stream w of
        (None, w1) \<Rightarrow> (e, w1)
      | (Some ce, w1) \<Rightarrow> (Joined e (Wrapped ''close target stream after conversion failure'' ce), w1))"

definition bridge_Stream :: "('v, 's, 'w) Endpoint \<Rightarrow> ('v, 's, 'w) Bridge \<Rightarrow> ('v, 's) Call \<Rightarrow> 'w \<Rightarrow>
    (stage_error + ('v, 'w) EventStream option) \<times> 'w" where
  "bridge_Stream nxt br call w =
     (case bridge_open br call OperationStream w of
        (Inl e, w1) \<Rightarrow> (Inl e, w1)
      | (Inr session, w1) \<Rightarrow>
          (case ep_Stream nxt (bs_TargetCall session) w1 of
             (Inl e, w2) \<Rightarrow> (Inl e, w2)
           | (Inr None, w2) \<Rightarrow> (Inl (Err ''target endpoint returned a nil stream''), w2)
           | (Inr (Some target), w2) \<Rightarrow>
               (case bs_ConvertStream session target w2 of
                  (Inl e, w3) \<Rightarrow> map_prod Inl id (closeAfterConversionFailure target e w3)
                | (Inr None, w3) \<Rightarrow>
                    map_prod Inl id (closeAfterConversionFailure target (Err ''session returned a nil converted stream'') w3)
                | (Inr (Some c), w3) \<Rightarrow> (Inr (Some (factPreservingStream c target)), w3))))"

definition bridgeEndpoint :: "('v, 's, 'w) Endpoint \<Rightarrow> ('v, 's, 'w) Bridge \<Rightarrow> ('v, 's, 'w) Endpoint" where
  "bridgeEndpoint nxt br =
     \<lparr>ep_Protocol = br_Source br, ep_Complete = bridge_Complete nxt br, ep_Stream = bridge_Stream nxt br\<rparr>"

definition Adapt :: "('v, 's, 'w) Endpoint option \<Rightarrow> ('v, 's, 'w) Bridge option \<Rightarrow> adapt_error + ('v, 's, 'w) Endpoint" where
  "Adapt nxt bridge =
     (case nxt of
        None \<Rightarrow> Inl AdaptEndpointNil
      | Some n \<Rightarrow>
          (case bridge of
             None \<Rightarrow> Inl AdaptBridgeNil
           | Some br \<Rightarrow>
               (case checkChainProtocol (br_Source br) of
                  Some e \<Rightarrow> Inl (AdaptSource e)
                | None \<Rightarrow>
                    (case checkChainProtocol (br_Target br) of
                       Some e \<Rightarrow> Inl (AdaptTarget e)
                     | None \<Rightarrow>
                         if ep_Protocol n \<noteq> br_Target br then Inl (AdaptMismatch (br_Source br) (br_Target br) (ep_Protocol n))
                         else Inr (bridgeEndpoint n br)))))"

section \<open>Facts\<close>

lemma WrapCommitted_cases:
  "HasCommittedSideEffects (WrapCommitted e c) \<longleftrightarrow> c \<or> HasCommittedSideEffects e"
  "WrapCommitted (WrapCommitted e c) c = WrapCommitted e c"
  by (auto simp: WrapCommitted_def)

text \<open>When a stage fits the endpoint it wraps, and what the fold of all stages is.\<close>

definition fits :: "string \<Rightarrow> ('v, 's, 'w) Stage option \<Rightarrow> ('v, 's, 'w) Endpoint \<Rightarrow> bool" where
  "fits proto sg e \<longleftrightarrow>
     (case sg of None \<Rightarrow> False
      | Some s \<Rightarrow> TrimSpace (sg_Name s) \<noteq> [] \<and> sg_Protocol s = proto \<and>
          (case sg_Wrap s e of None \<Rightarrow> False | Some e' \<Rightarrow> ep_Protocol e' = proto))"

fun chain :: "('v, 's, 'w) Stage option list \<Rightarrow> ('v, 's, 'w) Endpoint \<Rightarrow> ('v, 's, 'w) Endpoint option" where
  "chain [] t = Some t"
| "chain (sg # sgs) t =
     (case chain sgs t of None \<Rightarrow> None | Some e \<Rightarrow> if fits (ep_Protocol t) sg e then sg_Wrap (the sg) e else None)"

lemma composeLoop_fits:
  assumes "checkChainProtocol proto = None" "fits proto sg cur"
  shows "composeLoop ((i, sg) # rest) cur proto = composeLoop rest (the (sg_Wrap (the sg) cur)) proto"
  using assms by (cases sg) (auto simp: fits_def Let_def split: option.splits)

lemma composeLoop_not_fits:
  assumes "checkChainProtocol proto = None" "\<not> fits proto sg cur"
  shows "\<exists>e. composeLoop ((i, sg) # rest) cur proto = Inl e"
  using assms by (cases sg) (auto simp: fits_def Let_def split: option.splits)

lemma chain_protocol: "chain sgs t = Some e \<Longrightarrow> ep_Protocol e = ep_Protocol t"
  by (induction sgs arbitrary: e) (auto simp: fits_def split: option.splits if_splits)

lemma chain_snoc:
  "chain (sgs @ [sg]) t = (if fits (ep_Protocol t) sg t then chain sgs (the (sg_Wrap (the sg) t)) else None)"
proof (induction sgs)
  case (Cons a sgs)
  show ?case
  proof (cases "fits (ep_Protocol t) sg t")
    case True
    then have "ep_Protocol (the (sg_Wrap (the sg) t)) = ep_Protocol t" by (auto simp: fits_def split: option.splits)
    then show ?thesis using Cons True by (cases "chain sgs (the (sg_Wrap (the sg) t))") simp_all
  qed (simp add: Cons)
qed (auto simp: fits_def split: option.splits)

lemma composeLoop_chain:
  assumes "checkChainProtocol (ep_Protocol cur) = None"
  shows "case composeLoop (rev (enumerate n sgs)) cur (ep_Protocol cur) of
    Inl e \<Rightarrow> chain sgs cur = None | Inr e \<Rightarrow> chain sgs cur = Some e"
  using assms
proof (induction sgs arbitrary: cur rule: rev_induct)
  case (snoc sg sgs)
  show ?case
  proof (cases "fits (ep_Protocol cur) sg cur")
    case True
    let ?e = "the (sg_Wrap (the sg) cur)"
    have p: "ep_Protocol ?e = ep_Protocol cur" using True by (auto simp: fits_def split: option.splits)
    have c: "chain (sgs @ [sg]) cur = chain sgs ?e" using True by (simp add: chain_snoc)
    have l: "composeLoop (rev (enumerate n (sgs @ [sg]))) cur (ep_Protocol cur) =
        composeLoop (rev (enumerate n sgs)) ?e (ep_Protocol ?e)"
      using composeLoop_fits [OF snoc.prems True] p by (simp add: enumerate_append_eq del: composeLoop.simps)
    show ?thesis unfolding c l by (rule snoc.IH) (simp add: p snoc.prems)
  next
    case False
    obtain e where "composeLoop ((n + length sgs, sg) # rev (enumerate n sgs)) cur (ep_Protocol cur) = Inl e"
      using composeLoop_not_fits [OF snoc.prems False] by blast
    then show ?thesis using False by (simp add: enumerate_append_eq chain_snoc del: composeLoop.simps)
  qed
qed simp

section \<open>Properties\<close>

text \<open>
  C23 (equivalence): composing stages yields exactly the nested endpoint, the first stage outermost: it
  succeeds when and only when the terminal speaks a chain protocol and every stage is named, speaks the
  terminal's protocol and wraps the endpoint below it into one of that protocol, and the result speaks it too.
\<close>

theorem Compose_exact:
  "(Compose terminal stages = Inr e) \<longleftrightarrow>
     (\<exists>t. terminal = Some t \<and> checkChainProtocol (ep_Protocol t) = None \<and> chain stages t = Some e \<and> ep_Protocol e = ep_Protocol t)"
proof (cases terminal)
  case (Some t)
  show ?thesis
  proof (cases "checkChainProtocol (ep_Protocol t)")
    case None
    then show ?thesis using Some composeLoop_chain [OF None, where n = 0 and sgs = stages] chain_protocol [where sgs = stages and t = t]
      by (cases "composeLoop (rev (enumerate 0 stages)) t (ep_Protocol t)") (auto simp: Compose_def)
  qed (simp add: Compose_def Some)
qed (simp add: Compose_def)


text \<open>An endpoint that answers, and a bridge to it whose stream conversion fails.\<close>

definition echoEndpoint :: "(string, unit, nat) Endpoint" where
  "echoEndpoint = \<lparr>ep_Protocol = ''openai_chat'',
     ep_Complete = (\<lambda>c w. (Inl (CommittedError (Err ''late'')), w)),
     ep_Stream = (\<lambda>c w. (Inr (Some \<lparr>st_Next = (\<lambda>w. (Inl EOF, w)), st_Close = (\<lambda>w. (None, Suc w)), st_Result = (\<lambda>w. None)\<rparr>), w))\<rparr>"

definition failingBridge :: "(string, unit, nat) Bridge" where
  "failingBridge = \<lparr>br_Source = ''anthropic_beta'', br_Target = ''openai_chat'',
     br_Open = (\<lambda>c op w. (Inr (Some \<lparr>bs_TargetCall = c, bs_ConvertComplete = (\<lambda>r w. (Inr (Some r), w)),
       bs_ConvertStream = (\<lambda>s w. (Inl (Err ''bad''), w))\<rparr>), w))\<rparr>"


end
