(* ===== verification/TB_ToolRound.thy ===== *)
theory TB_ToolRound
  imports TB_Stage
begin

text \<open>
  The tool round stage (\<^verbatim>\<open>internal/protocol/stage/toolround\<close>): the one place that decides every tool call
  a model makes.  Guardrails (the gate) may block a call, the server runs the calls it owns and asks the model
  again, the rest goes to the client; \<open>Complete\<close> answers at once and \<open>roundStream\<close> streams all rounds as one
  message.  A message is the list of its blocks; what the stage never looks at is one string.  The gate and the
  owner are arguments that read and change the world \<open>'w\<close>, which also stands for the execution context they
  pass on.  The SDK's accumulation of a streamed message is the argument \<open>sdk\<close>.
\<close>

section \<open>Messages\<close>

text \<open>The input of a tool call is raw JSON; \<open>None\<close> when the block has no such field.\<close>

datatype Block = ToolUse string string "string option" | TextBlock string | OtherBlock string

record Message =
  msg_Content :: "Block list"
  msg_StopReason :: string
  msg_Rest :: string

record ToolCall =
  tc_ID :: string
  tc_Name :: string
  tc_Input :: string

record ToolResult =
  tr_ToolUseID :: string
  tr_Body :: string

datatype ReqMessage = ClientMessage string | AssistantTurn "Block list" | ResultMessage "ToolResult list"

record Request =
  rq_Messages :: "ReqMessage list"
  rq_Rest :: string

datatype Delta = InputJSONDelta string | TextDelta string | OtherDelta string

datatype Event = MessageStart string | BlockStart int Block | BlockDelta int Delta | BlockStop int |
  MessageDelta string string | MessageStop | OtherEvent string

text \<open>What the endpoints of this protocol pass on; a nil request is \<open>BetaRequest None\<close>.\<close>

datatype Payload = BetaRequest "Request option" | BetaMessage Message | BetaEvent Event | Heartbeat | OtherValue string

section \<open>The decision\<close>

record Verdict =
  vd_Block :: bool
  vd_Message :: string

record 'w Owner =
  Owns :: "string \<Rightarrow> bool"
  Execute :: "ToolCall \<Rightarrow> Request \<Rightarrow> 'w \<Rightarrow> ToolResult \<times> 'w"
  Resume :: "Request \<Rightarrow> 'w \<Rightarrow> Request option \<times> 'w"
  Suspend :: "ReqMessage \<Rightarrow> ToolResult list \<Rightarrow> 'w \<Rightarrow> 'w"

record 'w Gate =
  gate_Request :: "Request \<Rightarrow> 'w \<Rightarrow> (stage_error + Request) \<times> 'w"
  gate_ToolUse :: "Request \<Rightarrow> ToolCall \<Rightarrow> 'w \<Rightarrow> Verdict \<times> 'w"
  gate_ToolResult :: "Request \<Rightarrow> ToolCall \<Rightarrow> ToolResult \<Rightarrow> 'w \<Rightarrow> ToolResult \<times> 'w"
  gate_Restore :: "'w \<Rightarrow> string \<Rightarrow> string"
  gate_Response :: "Request \<Rightarrow> Message \<Rightarrow> 'w \<Rightarrow> Message \<times> 'w"

record 'w ToolConfig =
  cfg_Owner :: "'w Owner option"
  cfg_Gate :: "'w Gate option"
  cfg_MaxRounds :: int

definition DefaultMaxRounds :: int where "DefaultMaxRounds = 3"

definition normalizeToolConfig :: "'w ToolConfig \<Rightarrow> 'w ToolConfig" where
  "normalizeToolConfig cfg = (if cfg_MaxRounds cfg \<le> 0 then cfg\<lparr>cfg_MaxRounds := DefaultMaxRounds\<rparr> else cfg)"

type_synonym ('s, 'w) BetaEndpoint = "(Payload, 's, 'w) Endpoint"

text \<open>\<^verbatim>\<open>prepare\<close>: the gate screens the request, then a stored continuation is spliced in.\<close>

definition prepare :: "'w ToolConfig \<Rightarrow> Payload \<Rightarrow> 'w \<Rightarrow> (stage_error + Request) \<times> 'w" where
  "prepare cfg value w =
     (case value of
        BetaRequest None \<Rightarrow> (Inl (Err ''tool round: nil request''), w)
      | BetaRequest (Some request) \<Rightarrow>
          (case (case cfg_Gate cfg of None \<Rightarrow> (Inr request, w) | Some g \<Rightarrow> gate_Request g request w) of
             (Inl e, w1) \<Rightarrow> (Inl e, w1)
           | (Inr rq, w1) \<Rightarrow>
               (case cfg_Owner cfg of
                  None \<Rightarrow> (Inr rq, w1)
                | Some ow \<Rightarrow> (case Resume ow rq w1 of (None, w2) \<Rightarrow> (Inr rq, w2) | (Some rq', w2) \<Rightarrow> (Inr rq', w2))))
      | _ \<Rightarrow> (Inl (Err ''tool round: request has another type''), w))"

record plan =
  pn_continueLoop :: bool
  pn_execute :: "ToolCall list"
  pn_suspend :: bool
  pn_blocked :: "(string \<times> string) list"
  pn_keep :: "string list"
  pn_stopReason :: string

definition emptyPlan :: plan where
  "emptyPlan = \<lparr>pn_continueLoop = False, pn_execute = [], pn_suspend = False, pn_blocked = [], pn_keep = [], pn_stopReason = []\<rparr>"

fun gateCalls :: "'w Gate \<Rightarrow> Request \<Rightarrow> ToolCall list \<Rightarrow> (string \<times> string) list \<Rightarrow> 'w \<Rightarrow> (string \<times> string) list \<times> 'w" where
  "gateCalls g rq [] bl w = (bl, w)"
| "gateCalls g rq (c # cs) bl w =
     (let (v, w1) = gate_ToolUse g rq c w in
      gateCalls g rq cs (if vd_Block v then AList.update (tc_ID c) (vd_Message v) bl else bl) w1)"

definition ownedBy :: "'w ToolConfig \<Rightarrow> ToolCall \<Rightarrow> bool" where
  "ownedBy cfg c = (case cfg_Owner cfg of None \<Rightarrow> False | Some ow \<Rightarrow> Owns ow (tc_Name c))"

definition ownership :: "'w ToolConfig \<Rightarrow> ToolCall list \<Rightarrow> nat \<Rightarrow> plan" where
  "ownership cfg calls executedRounds =
     (let owned = filter (ownedBy cfg) calls; client = filter (\<lambda>c. \<not> ownedBy cfg c) calls;
          p = emptyPlan\<lparr>pn_keep := remdups (map tc_ID client)\<rparr>
      in if owned = [] then p
         else if int executedRounds \<ge> cfg_MaxRounds cfg then
           (if client = [] then p\<lparr>pn_stopReason := ''end_turn''\<rparr> else p)
         else if client = [] then p\<lparr>pn_continueLoop := True, pn_execute := owned\<rparr>
         else p\<lparr>pn_execute := owned, pn_suspend := True\<rparr>)"

definition decide :: "'w ToolConfig \<Rightarrow> Request \<Rightarrow> ToolCall list \<Rightarrow> nat \<Rightarrow> 'w \<Rightarrow> plan \<times> 'w" where
  "decide cfg rq calls executedRounds w =
     (if calls = [] then (emptyPlan, w)
      else
        (let (bl, w1) = (case cfg_Gate cfg of None \<Rightarrow> ([], w) | Some g \<Rightarrow> gateCalls g rq calls [] w) in
         if bl \<noteq> [] then (emptyPlan\<lparr>pn_blocked := bl, pn_stopReason := ''end_turn''\<rparr>, w1)
         else (ownership cfg calls executedRounds, w1)))"

definition withTurn :: "Request \<Rightarrow> ReqMessage \<Rightarrow> Request" where
  "withTurn rq turn = rq\<lparr>rq_Messages := rq_Messages rq @ [turn]\<rparr>"

definition continued :: "Request \<Rightarrow> ReqMessage \<Rightarrow> ToolResult list \<Rightarrow> Request" where
  "continued rq turn results = rq\<lparr>rq_Messages := rq_Messages rq @ [turn, ResultMessage results]\<rparr>"

text \<open>One owned call; an owner is there whenever a plan has calls to execute.\<close>

definition executeCall :: "'w Gate option \<Rightarrow> 'w Owner \<Rightarrow> Request \<Rightarrow> ReqMessage \<Rightarrow> ToolCall \<Rightarrow> 'w \<Rightarrow> ToolResult \<times> 'w" where
  "executeCall gate ow rq turn c w =
     (let call = (case gate of None \<Rightarrow> c | Some g \<Rightarrow> c\<lparr>tc_Input := gate_Restore g w (tc_Input c)\<rparr>);
          (r, w1) = Execute ow call rq w;
          result = (if tr_ToolUseID r = [] then r\<lparr>tr_ToolUseID := tc_ID c\<rparr> else r)
      in case gate of None \<Rightarrow> (result, w1) | Some g \<Rightarrow> gate_ToolResult g (withTurn rq turn) call result w1)"

fun execute :: "'w Gate option \<Rightarrow> 'w Owner \<Rightarrow> Request \<Rightarrow> ReqMessage \<Rightarrow> ToolCall list \<Rightarrow> 'w \<Rightarrow> ToolResult list \<times> 'w" where
  "execute gate ow rq turn [] w = ([], w)"
| "execute gate ow rq turn (c # cs) w =
     (let (r, w1) = executeCall gate ow rq turn c w; (rs, w2) = execute gate ow rq turn cs w1 in (r # rs, w2))"

definition toolInput :: "string option \<Rightarrow> string" where
  "toolInput i = (case i of None \<Rightarrow> ''{}'' | Some raw \<Rightarrow> raw)"

fun toolCalls :: "Block list \<Rightarrow> ToolCall list" where
  "toolCalls [] = []"
| "toolCalls (ToolUse i n inp # bs) = \<lparr>tc_ID = i, tc_Name = n, tc_Input = toolInput inp\<rparr> # toolCalls bs"
| "toolCalls (_ # bs) = toolCalls bs"

definition clientBlock :: "'w ToolConfig \<Rightarrow> 'w \<Rightarrow> plan \<Rightarrow> bool \<Rightarrow> Block \<Rightarrow> Block option" where
  "clientBlock cfg w p restore b =
     (case b of
        ToolUse i n inp \<Rightarrow>
          (case map_of (pn_blocked p) i of
             Some message \<Rightarrow> Some (TextBlock message)
           | None \<Rightarrow>
               if i \<notin> set (pn_keep p) then None
               else
                 (case (if restore then cfg_Gate cfg else None) of
                    None \<Rightarrow> Some b
                  | Some g \<Rightarrow>
                      (let input = (case inp of None \<Rightarrow> [] | Some raw \<Rightarrow> raw); restored = gate_Restore g w input in
                       if restored \<noteq> input \<and> restored \<noteq> [] then Some (ToolUse i n (Some restored)) else Some b)))
      | _ \<Rightarrow> Some b)"

definition clientMessage :: "'w ToolConfig \<Rightarrow> 'w \<Rightarrow> Message \<Rightarrow> plan \<Rightarrow> bool \<Rightarrow> Message" where
  "clientMessage cfg w m p restore =
     (if pn_blocked p = [] \<and> pn_stopReason p = [] \<and> (\<not> restore \<or> cfg_Gate cfg = None) \<and>
         length (pn_keep p) = length (toolCalls (msg_Content m)) then m
      else m\<lparr>msg_Content := List.map_filter (clientBlock cfg w p restore) (msg_Content m),
             msg_StopReason := (if pn_stopReason p \<noteq> [] then pn_stopReason p else msg_StopReason m)\<rparr>)"

definition plusUsage :: "TokenUsage \<Rightarrow> TokenUsage \<Rightarrow> TokenUsage" where
  "plusUsage a b = \<lparr>InputTokens = InputTokens a + InputTokens b, OutputTokens = OutputTokens a + OutputTokens b,
     CacheReadTokens = CacheReadTokens a + CacheReadTokens b, CacheWriteTokens = CacheWriteTokens a + CacheWriteTokens b,
     ReasoningTokens = ReasoningTokens a + ReasoningTokens b, SystemTokens = SystemTokens a + SystemTokens b\<rparr>"

definition addUsage :: "TokenUsage option \<Rightarrow> TokenUsage option \<Rightarrow> TokenUsage option" where
  "addUsage sofar rnd =
     (case rnd of None \<Rightarrow> sofar | Some r \<Rightarrow> (case sofar of None \<Rightarrow> Some r | Some t \<Rightarrow> Some (plusUsage t r)))"

section \<open>Complete answers\<close>

text \<open>
  A plan with owned calls, run: the results are fed back for another round (\<open>Inl\<close>, the next request) or
  stored for the client's follow-up.
\<close>

definition runPlan :: "'w ToolConfig \<Rightarrow> Request \<Rightarrow> ReqMessage \<Rightarrow> plan \<Rightarrow> 'w \<Rightarrow> (Request option) \<times> 'w" where
  "runPlan cfg rq turn p w =
     (case cfg_Owner cfg of
        None \<Rightarrow> (None, w)
      | Some ow \<Rightarrow>
          (let (results, w1) = execute (cfg_Gate cfg) ow rq turn (pn_execute p) w in
           if pn_continueLoop p then (Some (continued rq turn results), w1)
           else (None, Suspend ow turn results w1)))"

definition answer :: "'w ToolConfig \<Rightarrow> Request \<Rightarrow> Message \<Rightarrow> plan \<Rightarrow> TokenUsage option \<Rightarrow> 'w \<Rightarrow>
    (stage_error + Payload Response option) \<times> 'w" where
  "answer cfg rq m p usage w =
     (let out = clientMessage cfg w m p (cfg_Gate cfg = None);
          (out', w1) = (case cfg_Gate cfg of None \<Rightarrow> (out, w) | Some g \<Rightarrow> gate_Response g rq out w)
      in (Inr (Some \<lparr>resp_Value = BetaMessage out', resp_Usage = usage\<rparr>), w1))"

text \<open>One round, up to what happens after it: the request of the next round, or the outcome.\<close>

definition completeRound :: "'w ToolConfig \<Rightarrow> ('s, 'w) BetaEndpoint \<Rightarrow> 's \<Rightarrow> Request \<Rightarrow> TokenUsage option \<Rightarrow> bool \<Rightarrow> nat \<Rightarrow> 'w \<Rightarrow>
    (Request \<times> TokenUsage option \<times> 'w) + ((stage_error + Payload Response option) \<times> 'w)" where
  "completeRound cfg nxt s rq usage committed executedRounds w =
     (case ep_Complete nxt \<lparr>call_Request = BetaRequest (Some rq), call_State = s\<rparr> w of
        (Inl e, w1) \<Rightarrow> Inr (Inl (WrapCommitted e committed), w1)
      | (Inr None, w1) \<Rightarrow> Inr (Inl (Err ''runtime error: nil response''), w1)
      | (Inr (Some response), w1) \<Rightarrow>
          (let usage1 = addUsage usage (resp_Usage response) in
           case resp_Value response of
             BetaMessage m \<Rightarrow>
               (let (p, w2) = decide cfg rq (toolCalls (msg_Content m)) executedRounds w1 in
                if pn_execute p \<noteq> [] then
                  (case runPlan cfg rq (AssistantTurn (msg_Content m)) p w2 of
                     (Some rq', w3) \<Rightarrow> Inl (rq', usage1, w3)
                   | (None, w3) \<Rightarrow> Inr (answer cfg rq m p usage1 w3))
                else Inr (answer cfg rq m p usage1 w2))
           | _ \<Rightarrow> Inr (Inl (WrapCommitted (Err ''tool round: response has another type'') committed), w1)))"

lemma decide_execute:
  assumes "pn_execute (fst (decide cfg rq calls n w)) \<noteq> []"
  shows "int n < cfg_MaxRounds cfg"
  using assms by (auto simp: decide_def ownership_def emptyPlan_def Let_def split: prod.splits if_splits)

text \<open>When a round goes on: the message it decided on, the plan and the state after it.\<close>

lemma completeRound_again_obtains:
  assumes "completeRound cfg nxt s rq u c n w = Inl (rq', u', w')"
  obtains r w1 m p w2 where "ep_Complete nxt \<lparr>call_Request = BetaRequest (Some rq), call_State = s\<rparr> w = (Inr (Some r), w1)"
    "resp_Value r = BetaMessage m" "decide cfg rq (toolCalls (msg_Content m)) n w1 = (p, w2)" "pn_execute p \<noteq> []"
    "runPlan cfg rq (AssistantTurn (msg_Content m)) p w2 = (Some rq', w')" "u' = addUsage u (resp_Usage r)"
  using assms
  by (fastforce simp: completeRound_def Let_def split: prod.splits sum.splits option.splits Payload.splits if_splits)

lemma completeRound_again:
  assumes "completeRound cfg nxt s rq u c n w = Inl x"
  shows "int n < cfg_MaxRounds cfg"
proof -
  obtain rq' u' w' where x: "x = (rq', u', w')" by (cases x) auto
  show ?thesis using assms unfolding x by (rule completeRound_again_obtains) (metis decide_execute fst_conv)
qed

function completeLoop :: "'w ToolConfig \<Rightarrow> ('s, 'w) BetaEndpoint \<Rightarrow> 's \<Rightarrow> Request \<Rightarrow> TokenUsage option \<Rightarrow> bool \<Rightarrow> nat \<Rightarrow> 'w \<Rightarrow>
    (stage_error + Payload Response option) \<times> 'w" where
  "completeLoop cfg nxt s rq usage committed n w =
     (case completeRound cfg nxt s rq usage committed n w of
        Inr outcome \<Rightarrow> outcome
      | Inl (rq', usage', w') \<Rightarrow> completeLoop cfg nxt s rq' usage' True (Suc n) w')"
  by pat_completeness auto
termination
  by (relation "measure (\<lambda>(cfg, nxt, s, rq, u, c, n, w). nat (cfg_MaxRounds cfg - int n))")
     (auto dest: completeRound_again)

declare completeLoop.simps [simp del]

definition tool_Complete :: "'w ToolConfig \<Rightarrow> ('s, 'w) BetaEndpoint \<Rightarrow> (Payload, 's) Call \<Rightarrow> 'w \<Rightarrow>
    (stage_error + Payload Response option) \<times> 'w" where
  "tool_Complete cfg nxt call w =
     (case prepare cfg (call_Request call) w of
        (Inl e, w1) \<Rightarrow> (Inl e, w1)
      | (Inr rq, w1) \<Rightarrow> completeLoop cfg nxt (call_State call) rq None False 0 w1)"

section \<open>Facts about complete answers\<close>

text \<open>A reading of the world that the gate's and the owner's calls leave alone, executing a call excepted.\<close>

definition undisturbed :: "('w \<Rightarrow> 'a) \<Rightarrow> 'w ToolConfig \<Rightarrow> bool" where
  "undisturbed f cfg \<longleftrightarrow>
     (\<forall>g. cfg_Gate cfg = Some g \<longrightarrow>
        (\<forall>rq w. f (snd (gate_Request g rq w)) = f w) \<and> (\<forall>rq c w. f (snd (gate_ToolUse g rq c w)) = f w) \<and>
        (\<forall>rq c r w. f (snd (gate_ToolResult g rq c r w)) = f w) \<and> (\<forall>rq m w. f (snd (gate_Response g rq m w)) = f w)) \<and>
     (\<forall>ow. cfg_Owner cfg = Some ow \<longrightarrow>
        (\<forall>rq w. f (snd (Resume ow rq w)) = f w) \<and> (\<forall>turn rs w. f (Suspend ow turn rs w) = f w))"

definition runsAt :: "('w \<Rightarrow> nat) \<Rightarrow> nat \<Rightarrow> 'w ToolConfig \<Rightarrow> bool" where
  "runsAt f k cfg \<longleftrightarrow> (\<forall>ow. cfg_Owner cfg = Some ow \<longrightarrow> (\<forall>c rq w. f (snd (Execute ow c rq w)) = f w + k))"

lemma gateCalls_undisturbed:
  "(\<forall>rq c w. f (snd (gate_ToolUse g rq c w)) = f w) \<Longrightarrow> f (snd (gateCalls g rq cs bl w)) = f w"
proof (induction cs arbitrary: bl w)
  case (Cons c cs)
  obtain v w1 where v: "gate_ToolUse g rq c w = (v, w1)" by fastforce
  have "f w1 = f w" using Cons.prems v by (metis snd_conv)
  then show ?case using Cons v by simp
qed simp

lemma decide_undisturbed:
  assumes "undisturbed f cfg" shows "f (snd (decide cfg rq calls n w)) = f w"
proof (cases "cfg_Gate cfg")
  case None
  then show ?thesis by (simp add: decide_def)
next
  case (Some g)
  have "f (snd (gateCalls g rq calls [] w)) = f w"
    using assms Some by (intro gateCalls_undisturbed) (simp add: undisturbed_def)
  then show ?thesis using Some by (auto simp: decide_def split: prod.splits)
qed

lemma executeCall_runs:
  assumes "undisturbed f cfg" "runsAt f k cfg" "cfg_Owner cfg = Some ow"
  shows "f (snd (executeCall (cfg_Gate cfg) ow rq turn c w)) = f w + k"
  using assms
  by (cases "cfg_Gate cfg") (simp_all add: executeCall_def undisturbed_def runsAt_def Let_def split: prod.split, metis snd_conv, metis snd_conv)

lemma execute_runs:
  assumes "undisturbed f cfg" "runsAt f k cfg" "cfg_Owner cfg = Some ow"
  shows "f (snd (execute (cfg_Gate cfg) ow rq turn cs w)) = f w + k * length cs"
proof (induction cs arbitrary: w)
  case (Cons c cs)
  obtain r w1 where e: "executeCall (cfg_Gate cfg) ow rq turn c w = (r, w1)" by fastforce
  have "f w1 = f w + k" using executeCall_runs [OF assms, of rq turn c w] e by simp
  then show ?case using Cons [of w1] e by (auto simp: algebra_simps split: prod.splits)
qed simp

lemma runPlan_runs:
  assumes "undisturbed f cfg" "runsAt f k cfg" "cfg_Owner cfg \<noteq> None"
  shows "f (snd (runPlan cfg rq turn p w)) = f w + k * length (pn_execute p)"
proof -
  obtain ow where ow: "cfg_Owner cfg = Some ow" using assms(3) by blast
  obtain rs w1 where e: "execute (cfg_Gate cfg) ow rq turn (pn_execute p) w = (rs, w1)" by fastforce
  have "f w1 = f w + k * length (pn_execute p)" using execute_runs [OF assms(1,2) ow, of rq turn "pn_execute p" w] e by simp
  then show ?thesis using assms(1) ow e by (simp add: runPlan_def undisturbed_def)
qed

lemma answer_undisturbed:
  assumes "undisturbed f cfg" shows "f (snd (answer cfg rq m p u w)) = f w"
proof (cases "cfg_Gate cfg")
  case (Some g)
  have "\<forall>rq m w. f (snd (gate_Response g rq m w)) = f w" using assms Some by (simp add: undisturbed_def)
  then have "f (snd (gate_Response g rq (clientMessage cfg w m p (cfg_Gate cfg = None)) w)) = f w" by blast
  then show ?thesis using Some by (auto simp: answer_def Let_def split: prod.splits)
qed (simp add: answer_def Let_def)

lemma prepare_undisturbed:
  assumes "undisturbed f cfg" shows "f (snd (prepare cfg v w)) = f w"
proof (cases "\<exists>rq. v = BetaRequest (Some rq)")
  case True
  then obtain rq where v: "v = BetaRequest (Some rq)" by blast
  obtain x w1 where x: "(case cfg_Gate cfg of None \<Rightarrow> (Inr rq, w) | Some g \<Rightarrow> gate_Request g rq w) = (x, w1)" by fastforce
  have w1: "f w1 = f w" using x assms by (auto simp: undisturbed_def split: option.splits) (metis snd_conv)
  show ?thesis
  proof (cases x)
    case (Inr rq1)
    have "\<forall>ow. cfg_Owner cfg = Some ow \<longrightarrow> f (snd (Resume ow rq1 w1)) = f w1" using assms by (simp add: undisturbed_def)
    then show ?thesis using x v Inr w1 by (auto simp: prepare_def split: option.split prod.split)
  qed (use x v w1 in \<open>simp add: prepare_def\<close>)
qed (auto simp: prepare_def split: Payload.split option.split)

text \<open>A round that goes on.\<close>

lemma again_counts:
  assumes "completeRound cfg nxt s rq u c n w = Inl (rq', u', w')" "undisturbed f cfg" "runsAt f k cfg"
  obtains r w1 j where "ep_Complete nxt \<lparr>call_Request = BetaRequest (Some rq), call_State = s\<rparr> w = (Inr (Some r), w1)"
    "f w' = f w1 + k * j" "j > 0" "u' = addUsage u (resp_Usage r)"
  using assms(1)
proof (rule completeRound_again_obtains)
  fix r w1 m p w2
  assume h: "ep_Complete nxt \<lparr>call_Request = BetaRequest (Some rq), call_State = s\<rparr> w = (Inr (Some r), w1)"
    "decide cfg rq (toolCalls (msg_Content m)) n w1 = (p, w2)" "pn_execute p \<noteq> []"
    "runPlan cfg rq (AssistantTurn (msg_Content m)) p w2 = (Some rq', w')" "u' = addUsage u (resp_Usage r)"
  have "cfg_Owner cfg \<noteq> None" using h(4) by (cases "cfg_Owner cfg") (simp_all add: runPlan_def)
  from runPlan_runs [OF assms(2,3) this, of rq "AssistantTurn (msg_Content m)" p w2]
  have "f w' = f w1 + k * length (pn_execute p)"
    using decide_undisturbed [OF assms(2), of rq "toolCalls (msg_Content m)" n w1] h(2,4) by simp
  then show thesis using that h(1,3,5) by auto
qed

text \<open>The last round.\<close>

lemma last_round_cases:
  assumes "completeRound cfg nxt s rq u c n w = Inr (outcome, w')"
    "ep_Complete nxt \<lparr>call_Request = BetaRequest (Some rq), call_State = s\<rparr> w = (x, w1)"
  obtains (upstream) e where "x = Inl e" "outcome = Inl (WrapCommitted e c)" "w' = w1"
  | (nil_response) "x = Inr None" "outcome = Inl (Err ''runtime error: nil response'')" "w' = w1"
  | (other) r where "x = Inr (Some r)" "outcome = Inl (WrapCommitted (Err ''tool round: response has another type'') c)" "w' = w1"
  | (answered) r m p w2 w3 where "x = Inr (Some r)" "resp_Value r = BetaMessage m" "decide cfg rq (toolCalls (msg_Content m)) n w1 = (p, w2)"
      "pn_execute p = [] \<and> w3 = w2 \<or> pn_execute p \<noteq> [] \<and> runPlan cfg rq (AssistantTurn (msg_Content m)) p w2 = (None, w3)"
      "answer cfg rq m p (addUsage u (resp_Usage r)) w3 = (outcome, w')"
proof (cases x)
  case (Inl e)
  then show thesis using assms upstream by (simp add: completeRound_def)
next
  case (Inr ro)
  show thesis
  proof (cases ro)
    case None
    then show thesis using assms Inr nil_response by (simp add: completeRound_def)
  next
    case (Some r)
    show thesis
    proof (cases "\<exists>m. resp_Value r = BetaMessage m")
      case True
      then obtain m where m: "resp_Value r = BetaMessage m" by blast
      obtain p w2 where p: "decide cfg rq (toolCalls (msg_Content m)) n w1 = (p, w2)" by fastforce
      show thesis
      proof (cases "pn_execute p = []")
        case True
        then show thesis using assms Inr Some m p answered [of r m p w2 w2] by (simp add: completeRound_def Let_def)
      next
        case False
        obtain y w3 where y: "runPlan cfg rq (AssistantTurn (msg_Content m)) p w2 = (y, w3)" by fastforce
        show thesis
        proof (cases y)
          case None
          then show thesis using assms Inr Some m p y False answered [of r m p w2 w3] by (simp add: completeRound_def Let_def)
        next
          case (Some rq')
          then show thesis using assms Inr \<open>ro = Some r\<close> m p y False by (simp add: completeRound_def Let_def)
        qed
      qed
    next
      case False
      then show thesis using assms Inr Some other by (cases "resp_Value r") (auto simp: completeRound_def Let_def)
    qed
  qed
qed

lemma last_round_counts:
  assumes "completeRound cfg nxt s rq u c n w = Inr (outcome, w')" "undisturbed f cfg" "runsAt f k cfg"
    "ep_Complete nxt \<lparr>call_Request = BetaRequest (Some rq), call_State = s\<rparr> w = (x, w1)"
  shows "\<exists>j. f w' = f w1 + k * j"
  using assms(1,4)
proof (cases rule: last_round_cases)
  case (answered r m p w2 w3)
  have 1: "f w2 = f w1" using decide_undisturbed [OF assms(2), of rq "toolCalls (msg_Content m)" n w1] answered(3) by simp
  have 2: "\<exists>j. f w3 = f w2 + k * j"
    using runPlan_runs [OF assms(2,3), of rq "AssistantTurn (msg_Content m)" p w2] answered(4)
    by (cases "cfg_Owner cfg") (auto simp: runPlan_def)
  show ?thesis using answer_undisturbed [OF assms(2), of rq m p "addUsage u (resp_Usage r)" w3] answered(5) 1 2 by simp
qed (auto intro: exI [of _ 0])

lemma answer_not_error: "fst (answer cfg rq m p u w) \<noteq> Inl e"
  by (simp add: answer_def Let_def split: prod.split)

lemma last_round_error:
  assumes "completeRound cfg nxt s rq u c n w = Inr (Inl e, w')"
    "ep_Complete nxt \<lparr>call_Request = BetaRequest (Some rq), call_State = s\<rparr> w = (x, w1)"
  shows "w' = w1 \<and> (x \<noteq> Inr None \<and> c \<longrightarrow> HasCommittedSideEffects e)"
  using assms
proof (cases rule: last_round_cases)
  case (answered r m p w2 w3)
  then show ?thesis using answer_not_error [of cfg rq m p "addUsage u (resp_Usage r)" w3 e] by simp
qed (auto simp: WrapCommitted_cases)

text \<open>The loop: one last round after rounds that go on.\<close>

lemma completeLoop_rule:
  assumes "\<And>rq u c n w outcome w'. completeRound cfg nxt s rq u c n w = Inr (outcome, w') \<Longrightarrow> P rq u c n w (outcome, w')"
    "\<And>rq u c n w rq' u' w' res. completeRound cfg nxt s rq u c n w = Inl (rq', u', w') \<Longrightarrow> int n < cfg_MaxRounds cfg \<Longrightarrow>
       P rq' u' True (Suc n) w' res \<Longrightarrow> P rq u c n w res"
  shows "P rq u c n w (completeLoop cfg nxt s rq u c n w)"
  using assms
proof (induction cfg nxt s rq u c n w rule: completeLoop.induct)
  case (1 cfg nxt s rq u c n w)
  show ?case
  proof (cases "completeRound cfg nxt s rq u c n w")
    case (Inl x)
    obtain rq' u' w' where x: "x = (rq', u', w')" by (cases x) auto
    have ih: "P rq' u' True (Suc n) w' (completeLoop cfg nxt s rq' u' True (Suc n) w')"
      using 1(1) [OF Inl x [symmetric] refl] 1(2,3) by blast
    have "P rq u c n w (completeLoop cfg nxt s rq' u' True (Suc n) w')"
      by (rule 1(3) [OF Inl [unfolded x] completeRound_again [OF Inl] ih])
    then show ?thesis using Inl x by (simp add: completeLoop.simps [of cfg nxt s rq u c n w])
  next
    case (Inr y)
    then show ?thesis using 1(2) by (cases y) (simp add: completeLoop.simps [of cfg nxt s rq u c n w])
  qed
qed

lemma completeLoop_calls:
  assumes "undisturbed f cfg" "runsAt f 0 cfg" "\<forall>call w. f (snd (ep_Complete nxt call w)) = Suc (f w)"
  shows "f (snd (completeLoop cfg nxt s rq u c n w)) \<le> f w + Suc (nat (cfg_MaxRounds cfg - int n))"
proof (rule completeLoop_rule [where P = "\<lambda>rq u c n w res. f (snd res) \<le> f w + Suc (nat (cfg_MaxRounds cfg - int n))"])
  fix rq u c n w outcome w'
  assume r: "completeRound cfg nxt s rq u c n w = Inr (outcome, w')"
  obtain x w1 where x: "ep_Complete nxt \<lparr>call_Request = BetaRequest (Some rq), call_State = s\<rparr> w = (x, w1)" by fastforce
  have "f w1 = Suc (f w)" using assms(3) x by (metis snd_conv)
  then show "f (snd (outcome, w')) \<le> f w + Suc (nat (cfg_MaxRounds cfg - int n))"
    using last_round_counts [OF r assms(1,2) x] by simp
next
  fix rq u c n w rq' u' w' res
  assume r: "completeRound cfg nxt s rq u c n w = Inl (rq', u', w')" and n: "int n < cfg_MaxRounds cfg"
    and le: "f (snd res) \<le> f w' + Suc (nat (cfg_MaxRounds cfg - int (Suc n)))"
  show "f (snd res) \<le> f w + Suc (nat (cfg_MaxRounds cfg - int n))"
    using r assms(1,2)
  proof (rule again_counts)
    fix r w1 j
    assume x: "ep_Complete nxt \<lparr>call_Request = BetaRequest (Some rq), call_State = s\<rparr> w = (Inr (Some r), w1)" "f w' = f w1 + 0 * j"
    have "f w1 = Suc (f w)" using assms(3) x(1) by (metis snd_conv)
    then show ?thesis using le x(2) n by simp
  qed
qed

lemma completeLoop_committed:
  assumes "undisturbed f cfg" "runsAt f 1 cfg" "\<forall>call w. f (snd (ep_Complete nxt call w)) = f w"
    "\<forall>call w. fst (ep_Complete nxt call w) \<noteq> Inr None" "completeLoop cfg nxt s rq u c n w = (Inl e, w')"
  shows "c \<or> f w' \<noteq> f w \<longrightarrow> HasCommittedSideEffects e"
proof -
  have "fst (completeLoop cfg nxt s rq u c n w) = Inl e \<longrightarrow>
      c \<or> f (snd (completeLoop cfg nxt s rq u c n w)) \<noteq> f w \<longrightarrow> HasCommittedSideEffects e"
  proof (rule completeLoop_rule [where P = "\<lambda>rq u c n w res. fst res = Inl e \<longrightarrow> c \<or> f (snd res) \<noteq> f w \<longrightarrow> HasCommittedSideEffects e"])
    fix rq u c n w outcome w'
    assume r: "completeRound cfg nxt s rq u c n w = Inr (outcome, w')"
    obtain x w1 where x: "ep_Complete nxt \<lparr>call_Request = BetaRequest (Some rq), call_State = s\<rparr> w = (x, w1)" by fastforce
    have w1: "f w1 = f w" and nn: "x \<noteq> Inr None" using assms(3,4) x by (metis snd_conv, metis fst_conv)
    show "fst (outcome, w') = Inl e \<longrightarrow> c \<or> f (snd (outcome, w')) \<noteq> f w \<longrightarrow> HasCommittedSideEffects e"
    proof
      assume "fst (outcome, w') = Inl e"
      then show "c \<or> f (snd (outcome, w')) \<noteq> f w \<longrightarrow> HasCommittedSideEffects e"
        using last_round_error [of cfg nxt s rq u c n w e w', OF _ x] r w1 nn by auto
    qed
  qed simp
  then show ?thesis using assms(5) by simp
qed


section \<open>What reaches the client\<close>

lemma toolCalls_in: "c \<in> set (toolCalls bs) \<longleftrightarrow> (\<exists>inp. ToolUse (tc_ID c) (tc_Name c) inp \<in> set bs \<and> tc_Input c = toolInput inp)"
  by (induction bs rule: toolCalls.induct) (auto simp: ToolCall.defs)

lemma clientBlock_ToolUse:
  assumes "clientBlock cfg w p restore b = Some (ToolUse i nm inp)"
  shows "\<exists>inp'. b = ToolUse i nm inp' \<and> i \<in> set (pn_keep p) \<and> map_of (pn_blocked p) i = None"
  using assms by (auto simp: clientBlock_def Let_def split: Block.splits option.splits if_splits)

lemma set_map_filter: "set (List.map_filter f xs) = {y. \<exists>x \<in> set xs. f x = Some y}"
  by (induction xs) (auto simp: map_filter_simps split: option.splits)

lemma length_filter_remdups:
  assumes "length (remdups (map f (filter P xs))) = length xs" shows "\<forall>x \<in> set xs. P x"
proof -
  have "length (remdups (map f (filter P xs))) \<le> length (filter P xs)" using length_remdups_leq [of "map f (filter P xs)"] by simp
  then have "length (filter P xs) = length xs" using assms length_filter_le [of P xs] by simp
  then show ?thesis by (metis filter_True length_filter_less order_less_irrefl)
qed

lemma decide_keep:
  assumes "decide cfg rq calls n w = (p, w2)" "distinct (map tc_ID calls)" "c \<in> set calls" "tc_ID c \<in> set (pn_keep p)"
  shows "\<not> ownedBy cfg c"
proof -
  have "tc_ID c \<in> tc_ID ` set (filter (\<lambda>c. \<not> ownedBy cfg c) calls)"
    using assms(1,4) by (auto simp: decide_def ownership_def emptyPlan_def Let_def split: prod.splits if_splits)
  then obtain d where "d \<in> set calls" "\<not> ownedBy cfg d" "tc_ID d = tc_ID c" by auto
  then show ?thesis using assms(2,3) by (metis distinct_map inj_on_contraD)
qed

lemma decide_whole:
  assumes "decide cfg rq calls n w = (p, w2)" "pn_blocked p = []" "length (pn_keep p) = length calls" "c \<in> set calls"
  shows "\<not> ownedBy cfg c"
proof -
  have "length (remdups (map tc_ID (filter (\<lambda>c. \<not> ownedBy cfg c) calls))) = length calls"
    using assms by (auto simp: decide_def ownership_def emptyPlan_def Let_def split: prod.splits if_splits)
  then show ?thesis using length_filter_remdups assms(4) by blast
qed

lemma clientMessage_hides_owned:
  assumes "decide cfg rq (toolCalls (msg_Content m)) n w = (p, w2)" "distinct (map tc_ID (toolCalls (msg_Content m)))"
    "c \<in> set (toolCalls (msg_Content (clientMessage cfg w3 m p restore)))"
  shows "\<not> ownedBy cfg c"
proof (cases "pn_blocked p = [] \<and> pn_stopReason p = [] \<and> (\<not> restore \<or> cfg_Gate cfg = None) \<and>
    length (pn_keep p) = length (toolCalls (msg_Content m))")
  case True
  then show ?thesis using assms(1,3) decide_whole [OF assms(1)] by (simp add: clientMessage_def)
next
  case False
  then have "c \<in> set (toolCalls (List.map_filter (clientBlock cfg w3 p restore) (msg_Content m)))"
    using assms(3) by (auto simp: clientMessage_def)
  then obtain b inp where b: "b \<in> set (msg_Content m)" "clientBlock cfg w3 p restore b = Some (ToolUse (tc_ID c) (tc_Name c) inp)"
    by (auto simp: toolCalls_in set_map_filter)
  then obtain inp' where i: "b = ToolUse (tc_ID c) (tc_Name c) inp'" "tc_ID c \<in> set (pn_keep p)"
    using clientBlock_ToolUse [OF b(2)] by blast
  let ?d = "\<lparr>tc_ID = tc_ID c, tc_Name = tc_Name c, tc_Input = toolInput inp'\<rparr>"
  have "?d \<in> set (toolCalls (msg_Content m))" using b(1) i(1) by (auto simp: toolCalls_in)
  then have "\<not> ownedBy cfg ?d" using decide_keep [OF assms(1,2)] i(2) by simp
  then show ?thesis by (simp add: ownedBy_def split: option.splits)
qed

lemma decide_blocked:
  assumes "decide cfg rq calls n w = (p, w2)" "pn_blocked p \<noteq> []"
  shows "pn_execute p = []" "pn_keep p = []" "pn_stopReason p = ''end_turn''" "\<not> pn_continueLoop p"
  using assms by (auto simp: decide_def ownership_def emptyPlan_def Let_def split: prod.splits if_splits)

lemma gateCalls_blocks:
  assumes "\<forall>w1. vd_Block (fst (gate_ToolUse g rq c w1))" "c \<in> set cs \<or> bl \<noteq> []"
  shows "fst (gateCalls g rq cs bl w) \<noteq> []"
  using assms(2)
proof (induction cs arbitrary: bl w)
  case (Cons d cs)
  obtain v w1 where v: "gate_ToolUse g rq d w = (v, w1)" by fastforce
  have u: "AList.update k x bl \<noteq> []" for k :: string and x :: string by (cases bl) auto
  have "c = d \<Longrightarrow> vd_Block v" using assms(1) v by (metis fst_conv)
  then show ?case using Cons v u by (cases "vd_Block v") auto
qed simp

lemma clientMessage_blocked:
  assumes "pn_blocked p \<noteq> []" "pn_keep p = []"
  shows "toolCalls (msg_Content (clientMessage cfg w m p restore)) = []"
    "pn_stopReason p \<noteq> [] \<Longrightarrow> msg_StopReason (clientMessage cfg w m p restore) = pn_stopReason p"
proof -
  have "set (toolCalls (msg_Content (clientMessage cfg w m p restore))) = {}"
  proof (rule equals0I)
    fix c assume "c \<in> set (toolCalls (msg_Content (clientMessage cfg w m p restore)))"
    then obtain b inp where "clientBlock cfg w p restore b = Some (ToolUse (tc_ID c) (tc_Name c) inp)"
      using assms by (auto simp: clientMessage_def toolCalls_in set_map_filter)
    then show False using clientBlock_ToolUse assms(2) by fastforce
  qed
  then show "toolCalls (msg_Content (clientMessage cfg w m p restore)) = []" by simp
qed (use assms in \<open>simp add: clientMessage_def\<close>)

section \<open>Properties of complete answers\<close>

text \<open>
  C16 (bounds): a request makes at most one upstream call more than its rounds may execute tools: any
  counter that each upstream call raises by one, and the gate and the owner leave alone, grows by at most
  \<open>MaxRounds + 1\<close>, whatever tools the model asks for.
\<close>

theorem tool_rounds_bounded:
  assumes "undisturbed calls cfg" "runsAt calls 0 cfg" "\<forall>call w. calls (snd (ep_Complete nxt call w)) = Suc (calls w)"
    "cfg_MaxRounds cfg > 0"
  shows "calls (snd (tool_Complete cfg nxt call w)) \<le> calls w + nat (cfg_MaxRounds cfg) + 1"
proof -
  obtain x w1 where p: "prepare cfg (call_Request call) w = (x, w1)" by fastforce
  have w1: "calls w1 = calls w" using prepare_undisturbed [OF assms(1), of "call_Request call" w] p by simp
  show ?thesis
    using p w1 completeLoop_calls [OF assms(1-3), of "call_State call" "projr x" None False 0 w1]
    by (cases x) (simp_all add: tool_Complete_def)
qed

text \<open>A world that counts the upstream calls and the executed tools, a model that always asks for a tool.\<close>

definition loopingModel :: "nat \<Rightarrow> (unit, nat \<times> nat) BetaEndpoint" where
  "loopingModel k = \<lparr>ep_Protocol = ''anthropic_beta'',
     ep_Complete = (\<lambda>c (n, e). if n \<ge> k then (Inl (Err ''overloaded''), (Suc n, e))
       else (Inr (Some \<lparr>resp_Value = BetaMessage \<lparr>msg_Content = [ToolUse ''t'' ''search'' None], msg_StopReason = ''tool_use'', msg_Rest = []\<rparr>,
          resp_Usage = None\<rparr>), (Suc n, e))),
     ep_Stream = (\<lambda>c w. (Inr None, w))\<rparr>"

definition searchOwner :: "(nat \<times> nat) Owner" where
  "searchOwner = \<lparr>Owns = (\<lambda>n. n = ''search''), Execute = (\<lambda>c rq (n, e). (\<lparr>tr_ToolUseID = [], tr_Body = ''found''\<rparr>, (n, Suc e))),
     Resume = (\<lambda>rq w. (None, w)), Suspend = (\<lambda>turn rs w. w)\<rparr>"

definition searchConfig :: "(nat \<times> nat) ToolConfig" where
  "searchConfig = \<lparr>cfg_Owner = Some searchOwner, cfg_Gate = None, cfg_MaxRounds = 2\<rparr>"

definition someCall :: "(Payload, unit) Call" where
  "someCall = \<lparr>call_Request = BetaRequest (Some \<lparr>rq_Messages = [], rq_Rest = []\<rparr>), call_State = ()\<rparr>"

lemma searchConfig_facts:
  "undisturbed f searchConfig" "runsAt fst 0 searchConfig" "runsAt snd 1 searchConfig"
  "\<forall>call w. fst (snd (ep_Complete (loopingModel k) call w)) = Suc (fst w)"
  "\<forall>call w. snd (snd (ep_Complete (loopingModel k) call w)) = snd w"
  "\<forall>call w. fst (ep_Complete (loopingModel k) call w) \<noteq> Inr None"
  by (auto simp: undisturbed_def runsAt_def searchConfig_def searchOwner_def loopingModel_def)

theorem tool_rounds_bounded_witness:
  "fst (snd (tool_Complete searchConfig (loopingModel 9) someCall (0, 0))) \<le> 3"
proof -
  have "cfg_MaxRounds searchConfig = 2" by (simp add: searchConfig_def)
  then show ?thesis
    using tool_rounds_bounded [OF searchConfig_facts(1,2) searchConfig_facts(4) [of 9], where call = someCall and w = "(0, 0)"] by simp
qed


lemma looping_run:
  "tool_Complete searchConfig (loopingModel 1) someCall (0, 0) = (Inl (CommittedError (Err ''overloaded'')), (2, 1))"
  by (simp add: tool_Complete_def prepare_def someCall_def searchConfig_def searchOwner_def completeLoop.simps completeRound_def
      loopingModel_def decide_def ownership_def emptyPlan_def ownedBy_def runPlan_def executeCall_def continued_def Let_def
      toolInput_def WrapCommitted_def addUsage_def)


text \<open>Every answer comes from one round's message and the plan decided for it.\<close>

lemma completeLoop_answer:
  assumes "completeLoop cfg nxt s rq u c n w = (Inr (Some r), w')"
  obtains rq0 n0 wa wb m usage x p w2 w3 where
    "ep_Complete nxt \<lparr>call_Request = BetaRequest (Some rq0), call_State = s\<rparr> wa = (Inr (Some x), wb)" "resp_Value x = BetaMessage m"
    "decide cfg rq0 (toolCalls (msg_Content m)) n0 wb = (p, w2)" "answer cfg rq0 m p usage w3 = (Inr (Some r), w')"
proof -
  have "completeLoop cfg nxt s rq u c n w = (Inr (Some r), w') \<longrightarrow>
      (\<exists>rq0 n0 wa wb m usage x p w2 w3. ep_Complete nxt \<lparr>call_Request = BetaRequest (Some rq0), call_State = s\<rparr> wa = (Inr (Some x), wb) \<and>
        resp_Value x = BetaMessage m \<and> decide cfg rq0 (toolCalls (msg_Content m)) n0 wb = (p, w2) \<and>
        answer cfg rq0 m p usage w3 = (Inr (Some r), w'))" (is "_ \<longrightarrow> ?Q")
  proof (rule completeLoop_rule [where P = "\<lambda>rq u c n w res. res = (Inr (Some r), w') \<longrightarrow> ?Q"])
    fix rq u c n w outcome w1'
    assume r: "completeRound cfg nxt s rq u c n w = Inr (outcome, w1')"
    obtain x w1 where x: "ep_Complete nxt \<lparr>call_Request = BetaRequest (Some rq), call_State = s\<rparr> w = (x, w1)" by fastforce
    show "(outcome, w1') = (Inr (Some r), w') \<longrightarrow> ?Q"
      using r x by (cases rule: last_round_cases) (use x in blast)+
  qed simp
  then show thesis using assms that by blast
qed

text \<open>
  C18 (safety): no call of a tool the server owns ever reaches the client in a complete answer: not when it was
  executed, not when the round limit ended the turn, and not when the gate blocked the round; provided the
  model numbers the calls of a message apart and the gate's check of the answer adds no call.
\<close>

theorem owned_calls_hidden:
  assumes "\<forall>call w x w' m. ep_Complete nxt call w = (Inr (Some x), w') \<and> resp_Value x = BetaMessage m \<longrightarrow>
      distinct (map tc_ID (toolCalls (msg_Content m)))"
    "\<forall>g. cfg_Gate cfg = Some g \<longrightarrow> (\<forall>rq m w. tc_Name ` set (toolCalls (msg_Content (fst (gate_Response g rq m w)))) \<subseteq>
      tc_Name ` set (toolCalls (msg_Content m)))"
    "tool_Complete cfg nxt call w = (Inr (Some r), w')" "resp_Value r = BetaMessage m" "c \<in> set (toolCalls (msg_Content m))"
    "cfg_Owner cfg = Some ow"
  shows "\<not> Owns ow (tc_Name c)"
proof -
  obtain rq w1 where p: "prepare cfg (call_Request call) w = (Inr rq, w1)"
    "completeLoop cfg nxt (call_State call) rq None False 0 w1 = (Inr (Some r), w')"
    using assms(3) by (auto simp: tool_Complete_def split: prod.splits sum.splits)
  from p(2) show ?thesis
  proof (rule completeLoop_answer)
    fix rq0 n0 wa wb m0 usage x p w2 w3
    assume h: "ep_Complete nxt \<lparr>call_Request = BetaRequest (Some rq0), call_State = call_State call\<rparr> wa = (Inr (Some x), wb)"
      "resp_Value x = BetaMessage m0" "decide cfg rq0 (toolCalls (msg_Content m0)) n0 wb = (p, w2)"
      "answer cfg rq0 m0 p usage w3 = (Inr (Some r), w')"
    let ?out = "clientMessage cfg w3 m0 p (cfg_Gate cfg = None)"
    have hide: "\<forall>d \<in> set (toolCalls (msg_Content ?out)). \<not> Owns ow (tc_Name d)"
      using clientMessage_hides_owned [OF h(3)] assms(1,6) h(1,2) by (simp add: ownedBy_def)
    have sub: "tc_Name ` set (toolCalls (msg_Content m)) \<subseteq> tc_Name ` set (toolCalls (msg_Content ?out))"
    proof (cases "cfg_Gate cfg")
      case None
      then show ?thesis using h(4) assms(4) by (simp add: answer_def Let_def) (auto)
    next
      case (Some g)
      then have "m = fst (gate_Response g rq0 ?out w3)" using h(4) assms(4) by (auto simp: answer_def Let_def split: prod.splits)
      then show ?thesis using assms(2) Some by blast
    qed
    have "tc_Name c \<in> tc_Name ` set (toolCalls (msg_Content ?out))" using sub assms(5) by blast
    then show ?thesis using hide by auto
  qed
qed

text \<open>A model that asks for the owned tool and one of the client's.\<close>

definition mixedModel :: "(unit, nat \<times> nat) BetaEndpoint" where
  "mixedModel = \<lparr>ep_Protocol = ''anthropic_beta'',
     ep_Complete = (\<lambda>c w. (Inr (Some \<lparr>resp_Value = BetaMessage \<lparr>msg_Content = [ToolUse ''a'' ''search'' None, ToolUse ''b'' ''edit'' None],
        msg_StopReason = ''tool_use'', msg_Rest = []\<rparr>, resp_Usage = None\<rparr>), w)),
     ep_Stream = (\<lambda>c w. (Inr None, w))\<rparr>"

lemma mixed_run:
  "tool_Complete searchConfig mixedModel someCall (0, 0) = (Inr (Some \<lparr>resp_Value = BetaMessage \<lparr>msg_Content = [ToolUse ''b'' ''edit'' None],
     msg_StopReason = ''tool_use'', msg_Rest = []\<rparr>, resp_Usage = None\<rparr>), (0, 1))"
  by (simp add: tool_Complete_def prepare_def someCall_def searchConfig_def searchOwner_def completeLoop.simps completeRound_def
      mixedModel_def decide_def ownership_def emptyPlan_def ownedBy_def runPlan_def executeCall_def answer_def clientMessage_def
      clientBlock_def Let_def toolInput_def addUsage_def map_filter_simps)

theorem owned_calls_hidden_witness:
  "\<exists>c. c \<in> set (toolCalls [ToolUse ''b'' ''edit'' None]) \<and> \<not> Owns searchOwner (tc_Name c)"
proof -
  let ?c = "\<lparr>tc_ID = ''b'', tc_Name = ''edit'', tc_Input = ''{}''\<rparr>"
  have c: "?c \<in> set (toolCalls [ToolUse ''b'' ''edit'' None])" by (simp add: toolInput_def)
  have d: "\<forall>call w x w' m. ep_Complete mixedModel call w = (Inr (Some x), w') \<and> resp_Value x = BetaMessage m \<longrightarrow>
      distinct (map tc_ID (toolCalls (msg_Content m)))" by (auto simp: mixedModel_def)
  have "\<not> Owns searchOwner (tc_Name ?c)"
    by (rule owned_calls_hidden [OF d _ mixed_run, where m = "\<lparr>msg_Content = [ToolUse ''b'' ''edit'' None],
        msg_StopReason = ''tool_use'', msg_Rest = []\<rparr>"])
       (use c in \<open>simp_all add: searchConfig_def del: toolCalls.simps\<close>)
  then show ?thesis using c by blast
qed

text \<open>
  C20 (safety): a tool call the gate blocks ends the turn: when the gate's verdict on one call of a round is to
  block, no call of that round is executed or suspended, the client gets no tool call at all, and the turn ends
  with the stop reason \<open>end_turn\<close>, before the gate's own check of the answer.
\<close>

theorem blocked_call_ends_turn:
  assumes "cfg_Gate cfg = Some g" "c \<in> set (toolCalls (msg_Content m))" "\<forall>w. vd_Block (fst (gate_ToolUse g rq c w))"
    "ep_Complete nxt \<lparr>call_Request = BetaRequest (Some rq), call_State = s\<rparr> w = (Inr (Some x), w1)" "resp_Value x = BetaMessage m"
  shows "\<exists>out w2. completeRound cfg nxt s rq u committed n w =
      Inr (let (out', w3) = gate_Response g rq out w2 in
        (Inr (Some \<lparr>resp_Value = BetaMessage out', resp_Usage = addUsage u (resp_Usage x)\<rparr>), w3)) \<and>
    toolCalls (msg_Content out) = [] \<and> msg_StopReason out = ''end_turn'' \<and>
    w2 = snd (gateCalls g rq (toolCalls (msg_Content m)) [] w1)"
proof -
  obtain p w2 where p: "decide cfg rq (toolCalls (msg_Content m)) n w1 = (p, w2)" by fastforce
  have ne: "fst (gateCalls g rq (toolCalls (msg_Content m)) [] w1) \<noteq> []"
    by (rule gateCalls_blocks [where c = c]) (use assms(2,3) in auto)
  then have bl: "pn_blocked p \<noteq> []" "w2 = snd (gateCalls g rq (toolCalls (msg_Content m)) [] w1)"
    using p assms(1,2) by (auto simp: decide_def emptyPlan_def split: prod.splits if_splits)
  note d = decide_blocked [OF p bl(1)]
  let ?out = "clientMessage cfg w2 m p False"
  have "completeRound cfg nxt s rq u committed n w = Inr (answer cfg rq m p (addUsage u (resp_Usage x)) w2)"
    using assms(4,5) p d(1) by (simp add: completeRound_def Let_def)
  moreover have "answer cfg rq m p (addUsage u (resp_Usage x)) w2 = (let (out', w3) = gate_Response g rq ?out w2 in
      (Inr (Some \<lparr>resp_Value = BetaMessage out', resp_Usage = addUsage u (resp_Usage x)\<rparr>), w3))"
    using assms(1) by (simp add: answer_def Let_def)
  ultimately show ?thesis using clientMessage_blocked [OF bl(1) d(2), of cfg w2 m False] d(3) bl(2) by auto
qed

definition blockingGate :: "(nat \<times> nat) Gate" where
  "blockingGate = \<lparr>gate_Request = (\<lambda>rq w. (Inr rq, w)), gate_ToolUse = (\<lambda>rq c w. (\<lparr>vd_Block = tc_Name c = ''edit'', vd_Message = ''no''\<rparr>, w)),
     gate_ToolResult = (\<lambda>rq c r w. (r, w)), gate_Restore = (\<lambda>w i. i), gate_Response = (\<lambda>rq m w. (m, w))\<rparr>"

theorem blocked_call_ends_turn_witness:
  "\<exists>out. completeRound (searchConfig\<lparr>cfg_Gate := Some blockingGate\<rparr>) mixedModel () \<lparr>rq_Messages = [], rq_Rest = []\<rparr> None False 0 (0, 0) =
      Inr (Inr (Some \<lparr>resp_Value = BetaMessage out, resp_Usage = None\<rparr>), (0, 0)) \<and> toolCalls (msg_Content out) = []"
proof -
  let ?m = "\<lparr>msg_Content = [ToolUse ''a'' ''search'' None, ToolUse ''b'' ''edit'' None], msg_StopReason = ''tool_use'', msg_Rest = []\<rparr>"
  let ?c = "\<lparr>tc_ID = ''b'', tc_Name = ''edit'', tc_Input = ''{}''\<rparr>"
  have c: "?c \<in> set (toolCalls (msg_Content ?m))" by (simp add: toolInput_def)
  have x: "ep_Complete mixedModel \<lparr>call_Request = BetaRequest (Some \<lparr>rq_Messages = [], rq_Rest = []\<rparr>), call_State = ()\<rparr> (0, 0) =
      (Inr (Some \<lparr>resp_Value = BetaMessage ?m, resp_Usage = None\<rparr>), (0, 0))" by (simp add: mixedModel_def)
  have g: "cfg_Gate (searchConfig\<lparr>cfg_Gate := Some blockingGate\<rparr>) = Some blockingGate" by simp
  have b: "\<forall>w. vd_Block (fst (gate_ToolUse blockingGate \<lparr>rq_Messages = [], rq_Rest = []\<rparr> ?c w))"
    by (simp add: blockingGate_def)
  have s: "snd (gateCalls blockingGate rq cs bl w) = w" for rq cs bl w
    by (induction cs arbitrary: bl) (simp_all add: blockingGate_def)
  have r: "gate_Response blockingGate rq out w = (out, w)" for rq out w by (simp add: blockingGate_def)
  show ?thesis using blocked_call_ends_turn [OF g c b x, of None False 0] by (auto simp: s r addUsage_def simp del: gateCalls.simps toolCalls.simps)
qed

end
