(* ===== verification/TB_RoundStream.thy ===== *)
theory TB_RoundStream
  imports TB_ToolRound
begin

text \<open>
  Streamed answers of the tool round stage (\<^verbatim>\<open>internal/protocol/stage/toolround/stream.go\<close>): every round of
  a request is shown to the client as one message.  Text streams as it comes, with its block numbered anew;
  the blocks of tool calls are held until their round is decided.  \<open>streamNext\<close> is one pass of the loop of
  \<^verbatim>\<open>roundStream.next\<close>: it returns to the caller or goes on with the changed state.  The state \<open>rs_sent\<close> logs what
  the client has read and only serves to state properties.
\<close>

section \<open>The stream\<close>

text \<open>The SDK's accumulated message: whether it accepts an event after others, and the turn it makes of them.\<close>

record sdk =
  Accumulate :: "Event list \<Rightarrow> Event \<Rightarrow> bool"
  ToParam :: "Event list \<Rightarrow> ReqMessage"

record heldBlock =
  hb_index :: int
  hb_events :: "Event list"
  hb_id :: string
  hb_name :: string
  hb_input :: string
  hb_startInput :: string

record pendingRound =
  pr_plan :: plan
  pr_turn :: ReqMessage

record 'w roundStream =
  rs_request :: Request
  rs_current :: "(Payload, 'w) EventStream option"
  rs_queue :: "Payload list"
  rs_done :: bool
  rs_err :: "stage_error option"
  rs_started :: bool
  rs_nextIndex :: int
  rs_executedRounds :: nat
  rs_committed :: bool
  rs_usage :: "TokenUsage option"
  rs_pending :: "pendingRound option"
  rs_message :: "Event list"
  rs_live :: "(int \<times> int) list"
  rs_held :: "heldBlock list"
  rs_delta :: "(string \<times> string) option"
  rs_stop :: bool
  rs_closed :: "stage_error option option"
  rs_sent :: "Payload list"

definition setIndex :: "int \<Rightarrow> Event \<Rightarrow> Event" where
  "setIndex i ev =
     (case ev of
        BlockStart _ b \<Rightarrow> BlockStart i b
      | BlockDelta _ d \<Rightarrow> BlockDelta i d
      | BlockStop _ \<Rightarrow> BlockStop i
      | _ \<Rightarrow> ev)"

definition emit :: "Event \<Rightarrow> 'w roundStream \<Rightarrow> 'w roundStream" where
  "emit ev s = s\<lparr>rs_queue := rs_queue s @ [BetaEvent ev]\<rparr>"

definition emitAt :: "Event \<Rightarrow> int \<Rightarrow> 'w roundStream \<Rightarrow> 'w roundStream" where
  "emitAt ev i s = emit (setIndex i ev) s"

definition take_index :: "'w roundStream \<Rightarrow> int \<times> 'w roundStream" where
  "take_index s = (rs_nextIndex s, s\<lparr>rs_nextIndex := rs_nextIndex s + 1\<rparr>)"

definition startRound :: "('s, 'w) BetaEndpoint \<Rightarrow> 's \<Rightarrow> 'w roundStream \<Rightarrow> 'w \<Rightarrow> (stage_error + 'w roundStream) \<times> 'w" where
  "startRound nxt st s w =
     (case ep_Stream nxt \<lparr>call_Request = BetaRequest (Some (rs_request s)), call_State = st\<rparr> w of
        (Inl e, w1) \<Rightarrow> (Inl (WrapCommitted e (rs_committed s)), w1)
      | (Inr cur, w1) \<Rightarrow>
          (Inr (s\<lparr>rs_current := cur, rs_message := [], rs_live := [], rs_held := [], rs_delta := None, rs_stop := False\<rparr>), w1))"

definition newStream :: "Request \<Rightarrow> 'w roundStream" where
  "newStream rq = \<lparr>rs_request = rq, rs_current = None, rs_queue = [], rs_done = False, rs_err = None, rs_started = False,
     rs_nextIndex = 0, rs_executedRounds = 0, rs_committed = False, rs_usage = None, rs_pending = None, rs_message = [],
     rs_live = [], rs_held = [], rs_delta = None, rs_stop = False, rs_closed = None, rs_sent = []\<rparr>"

definition tool_Stream :: "'w ToolConfig \<Rightarrow> ('s, 'w) BetaEndpoint \<Rightarrow> (Payload, 's) Call \<Rightarrow> 'w \<Rightarrow>
    (stage_error + 'w roundStream) \<times> 'w" where
  "tool_Stream cfg nxt call w =
     (case prepare cfg (call_Request call) w of
        (Inl e, w1) \<Rightarrow> (Inl e, w1)
      | (Inr rq, w1) \<Rightarrow> startRound nxt (call_State call) (newStream rq) w1)"

text \<open>One event of the upstream round.\<close>

definition isHeld :: "int \<Rightarrow> 'w roundStream \<Rightarrow> bool" where
  "isHeld i s \<longleftrightarrow> (\<exists>b \<in> set (rs_held s). hb_index b = i)"

definition holdEvent :: "Event \<Rightarrow> heldBlock \<Rightarrow> heldBlock" where
  "holdEvent ev b =
     b\<lparr>hb_events := hb_events b @ [ev],
       hb_input := (case ev of BlockDelta _ (InputJSONDelta j) \<Rightarrow> hb_input b @ j | _ \<Rightarrow> hb_input b)\<rparr>"

text \<open>The first held block with the index gets the event.\<close>

fun holdFirst :: "int \<Rightarrow> Event \<Rightarrow> heldBlock list \<Rightarrow> heldBlock list" where
  "holdFirst i ev [] = []"
| "holdFirst i ev (b # bs) = (if hb_index b = i then holdEvent ev b # bs else b # holdFirst i ev bs)"

definition blockEvent :: "int \<Rightarrow> Event \<Rightarrow> 'w roundStream \<Rightarrow> stage_error + 'w roundStream" where
  "blockEvent i ev s =
     (if isHeld i s then Inr (s\<lparr>rs_held := holdFirst i ev (rs_held s)\<rparr>)
      else (case map_of (rs_live s) i of
              None \<Rightarrow> Inl (Err ''tool round: event for unknown block'')
            | Some j \<Rightarrow> Inr (emitAt ev j s)))"

definition startBlock :: "int \<Rightarrow> Block \<Rightarrow> 'w roundStream \<Rightarrow> 'w roundStream" where
  "startBlock i b s =
     (case b of
        ToolUse cid nm inp \<Rightarrow>
          s\<lparr>rs_held := rs_held s @ [\<lparr>hb_index = i, hb_events = [BlockStart i b], hb_id = cid, hb_name = nm, hb_input = [],
              hb_startInput = (case inp of None \<Rightarrow> [] | Some raw \<Rightarrow> raw)\<rparr>]\<rparr>
      | _ \<Rightarrow> emitAt (BlockStart i b) (rs_nextIndex s)
          (s\<lparr>rs_live := AList.update i (rs_nextIndex s) (rs_live s), rs_nextIndex := rs_nextIndex s + 1\<rparr>))"

definition consume :: "sdk \<Rightarrow> Payload \<Rightarrow> 'w roundStream \<Rightarrow> stage_error + 'w roundStream" where
  "consume sdk v s =
     (case v of
        BetaEvent ev \<Rightarrow>
          (if \<not> Accumulate sdk (rs_message s) ev then Inl (Err ''tool round: accumulate'')
           else
             (let s1 = s\<lparr>rs_message := rs_message s @ [ev]\<rparr> in
              case ev of
                MessageStart m \<Rightarrow> Inr (if rs_started s1 then s1 else emit ev (s1\<lparr>rs_started := True\<rparr>))
              | BlockStart i b \<Rightarrow> Inr (startBlock i b s1)
              | BlockDelta i d \<Rightarrow> blockEvent i ev s1
              | BlockStop i \<Rightarrow> blockEvent i ev s1
              | MessageDelta reason rest \<Rightarrow> Inr (s1\<lparr>rs_delta := Some (reason, rest)\<rparr>)
              | MessageStop \<Rightarrow> Inr (s1\<lparr>rs_stop := True\<rparr>)
              | OtherEvent x \<Rightarrow> Inr (emit ev s1)))
      | _ \<Rightarrow> Inl (Err ''tool round: event has another type''))"

section \<open>The end of a round\<close>

definition heldCall :: "heldBlock \<Rightarrow> ToolCall" where
  "heldCall b = \<lparr>tc_ID = hb_id b, tc_Name = hb_name b,
     tc_Input = (if hb_input b \<noteq> [] then hb_input b else if hb_startInput b \<noteq> [] then hb_startInput b else ''{}'')\<rparr>"

definition absorb :: "'w roundStream \<Rightarrow> 'w \<Rightarrow> 'w roundStream \<times> 'w" where
  "absorb s w =
     (case rs_current s of
        None \<Rightarrow> (s, w)
      | Some cur \<Rightarrow>
          (let u = addUsage (rs_usage s) (st_Result cur w) in (s\<lparr>rs_usage := u, rs_current := None\<rparr>, snd (st_Close cur w))))"

definition emitHeld :: "'w ToolConfig \<Rightarrow> 'w \<Rightarrow> plan \<Rightarrow> heldBlock \<Rightarrow> 'w roundStream \<Rightarrow> 'w roundStream" where
  "emitHeld cfg w p b s =
     (case map_of (pn_blocked p) (hb_id b) of
        Some message \<Rightarrow>
          (let (i, s1) = take_index s in
           emit (BlockStop i) (emit (BlockDelta i (TextDelta message)) (emit (BlockStart i (TextBlock [])) s1)))
      | None \<Rightarrow>
          if hb_id b \<notin> set (pn_keep p) then s
          else
            (let (i, s1) = take_index s;
                 input = tc_Input (heldCall b);
                 restored = (case cfg_Gate cfg of None \<Rightarrow> [] | Some g \<Rightarrow> gate_Restore g w input)
             in if restored \<noteq> [] \<and> restored \<noteq> input
                then emit (BlockStop i) (emit (BlockDelta i (InputJSONDelta restored)) (emitAt (hd (hb_events b)) i s1))
                else fold (\<lambda>ev. emitAt ev i) (hb_events b) s1))"

definition emitEnd :: "string \<Rightarrow> 'w roundStream \<Rightarrow> 'w roundStream" where
  "emitEnd stopReason s =
     (let s1 = (case rs_delta s of
                  None \<Rightarrow> s
                | Some (reason, rest) \<Rightarrow> emit (MessageDelta (if stopReason \<noteq> [] then stopReason else reason) rest) s)
      in if rs_stop s then emit MessageStop s1 else s1)"

definition emitRound :: "'w ToolConfig \<Rightarrow> 'w \<Rightarrow> plan \<Rightarrow> 'w roundStream \<Rightarrow> 'w roundStream" where
  "emitRound cfg w p s = (emitEnd (pn_stopReason p) (fold (emitHeld cfg w p) (rs_held s) s))\<lparr>rs_done := True\<rparr>"

text \<open>\<open>ctxErr\<close> is the error of the caller's context, if it has one.\<close>

definition finishRound :: "'w ToolConfig \<Rightarrow> sdk \<Rightarrow> stage_error option \<Rightarrow> 'w roundStream \<Rightarrow> 'w \<Rightarrow>
    (stage_error \<times> 'w roundStream + 'w roundStream) \<times> 'w" where
  "finishRound cfg sdk ctxErr s w =
     (let (s1, w1) = absorb s w in
      if \<not> rs_stop s1 \<and> rs_held s1 \<noteq> []
      then (Inl (WrapCommitted (Err ''tool round: upstream stream ended without message_stop'') (rs_committed s1), s1), w1)
      else
        (let (p, w2) = decide cfg (rs_request s1) (map heldCall (rs_held s1)) (rs_executedRounds s1) w1 in
         if pn_execute p \<noteq> [] then
           (case ctxErr of
              Some e \<Rightarrow> (Inl (e, s1), w2)
            | None \<Rightarrow> (Inr (s1\<lparr>rs_pending := Some \<lparr>pr_plan = p, pr_turn = ToParam sdk (rs_message s1)\<rparr>,
                                rs_queue := rs_queue s1 @ [Heartbeat]\<rparr>), w2))
         else (Inr (emitRound cfg w2 p s1), w2)))"

definition runRound :: "'w ToolConfig \<Rightarrow> ('s, 'w) BetaEndpoint \<Rightarrow> 's \<Rightarrow> pendingRound \<Rightarrow> 'w roundStream \<Rightarrow> 'w \<Rightarrow>
    (stage_error \<times> 'w roundStream + 'w roundStream) \<times> 'w" where
  "runRound cfg nxt st pend s w =
     (let (ran, w1) = runPlan cfg (rs_request s) (pr_turn pend) (pr_plan pend) w;
          s1 = s\<lparr>rs_committed := True, rs_executedRounds := Suc (rs_executedRounds s)\<rparr>
      in case ran of
           Some rq \<Rightarrow>
             (case startRound nxt st (s1\<lparr>rs_request := rq\<rparr>) w1 of
                (Inl e, w2) \<Rightarrow> (Inl (e, s1\<lparr>rs_request := rq\<rparr>), w2)
              | (Inr s2, w2) \<Rightarrow> (Inr s2, w2))
         | None \<Rightarrow> (Inr (emitRound cfg w1 (pr_plan pend) s1), w1))"

section \<open>The loop\<close>

text \<open>One pass: \<open>Inl\<close> is what \<^verbatim>\<open>next\<close> returns, \<open>Inr\<close> goes on.  A round without a stream to read is a nil dereference.\<close>

definition failWith :: "stage_error \<Rightarrow> 'w roundStream \<Rightarrow> 'w \<Rightarrow> ((stage_error + Payload) + unit) \<times> 'w roundStream \<times> 'w" where
  "failWith e s w = (Inl (Inl e), s, w)"

definition streamNext :: "'w ToolConfig \<Rightarrow> sdk \<Rightarrow> ('s, 'w) BetaEndpoint \<Rightarrow> 's \<Rightarrow> stage_error option \<Rightarrow> 'w roundStream \<Rightarrow> 'w \<Rightarrow>
    ((stage_error + Payload) + unit) \<times> 'w roundStream \<times> 'w" where
  "streamNext cfg sdk nxt st ctxErr s w =
     (case rs_queue s of
        v # q \<Rightarrow> (Inl (Inr v), s\<lparr>rs_queue := q, rs_sent := rs_sent s @ [v]\<rparr>, w)
      | [] \<Rightarrow>
          if rs_done s then failWith EOF s w
          else if ctxErr \<noteq> None then failWith (the ctxErr) s w
          else
            (case rs_pending s of
               Some pend \<Rightarrow>
                 (case runRound cfg nxt st pend (s\<lparr>rs_pending := None\<rparr>) w of
                    (Inl (e, s1), w1) \<Rightarrow> failWith e s1 w1
                  | (Inr s1, w1) \<Rightarrow> (Inr (), s1, w1))
             | None \<Rightarrow>
                 (case rs_current s of
                    None \<Rightarrow> failWith (Err ''runtime error: nil stream'') s w
                  | Some cur \<Rightarrow>
                      (case st_Next cur w of
                         (Inr v, w1) \<Rightarrow>
                           (case consume sdk v s of
                              Inl e \<Rightarrow> failWith (WrapCommitted e (rs_committed s)) s w1
                            | Inr s1 \<Rightarrow> (Inr (), s1, w1))
                       | (Inl e, w1) \<Rightarrow>
                           (if IsEOF e then
                              (case finishRound cfg sdk ctxErr s w1 of
                                 (Inl (e', s1), w2) \<Rightarrow> failWith e' s1 w2
                               | (Inr s1, w2) \<Rightarrow> (Inr (), s1, w2))
                            else failWith (WrapCommitted e (rs_committed s)) s w1)))))"

text \<open>\<^verbatim>\<open>next\<close>: passes until one returns.  An upstream that never ends its round makes it run forever.\<close>

partial_function (option) streamLoop :: "'w ToolConfig \<Rightarrow> sdk \<Rightarrow> ('s, 'w) BetaEndpoint \<Rightarrow> 's \<Rightarrow> stage_error option \<Rightarrow> 'w roundStream \<Rightarrow> 'w \<Rightarrow>
    ((stage_error + Payload) \<times> 'w roundStream \<times> 'w) option" where
  "streamLoop cfg sdk nxt st ctxErr s w =
     (case streamNext cfg sdk nxt st ctxErr s w of
        (Inl r, s1, w1) \<Rightarrow> Some (r, s1, w1)
      | (Inr u, s1, w1) \<Rightarrow> streamLoop cfg sdk nxt st ctxErr s1 w1)"

definition round_Next :: "'w ToolConfig \<Rightarrow> sdk \<Rightarrow> ('s, 'w) BetaEndpoint \<Rightarrow> 's \<Rightarrow> stage_error option \<Rightarrow> 'w roundStream \<Rightarrow> 'w \<Rightarrow>
    ((stage_error + Payload) \<times> 'w roundStream \<times> 'w) option" where
  "round_Next cfg sdk nxt st ctxErr s w =
     (case rs_err s of
        Some e \<Rightarrow> Some (Inl e, s, w)
      | None \<Rightarrow>
          map_option (\<lambda>(r, s1, w1). (r, (case r of Inl e \<Rightarrow> if IsEOF e then s1 else s1\<lparr>rs_err := Some e\<rparr> | Inr v \<Rightarrow> s1), w1))
            (streamLoop cfg sdk nxt st ctxErr s w))"

text \<open>The summary: the rounds absorbed and the one that is being read.\<close>

definition round_Result :: "'w roundStream \<Rightarrow> 'w \<Rightarrow> TokenUsage option" where
  "round_Result s w =
     (case rs_current s of None \<Rightarrow> rs_usage s | Some cur \<Rightarrow> addUsage (rs_usage s) (st_Result cur w))"

text \<open>The first close ends the round being read and keeps its error; later ones only return it.\<close>

definition round_Close :: "'w roundStream \<Rightarrow> 'w \<Rightarrow> stage_error option \<times> 'w roundStream \<times> 'w" where
  "round_Close s w =
     (case rs_closed s of
        Some e \<Rightarrow> (e, s, w)
      | None \<Rightarrow>
          (let (e, w1) = (case rs_current s of None \<Rightarrow> (None, w) | Some cur \<Rightarrow> st_Close cur w)
           in (e, s\<lparr>rs_closed := Some e\<rparr>, w1)))"

section \<open>Runs of a stream\<close>

text \<open>The states a consumer of the stream can bring about, whatever its context does between its calls.\<close>

definition settle :: "((stage_error + Payload) + unit) \<Rightarrow> 'w roundStream \<Rightarrow> 'w roundStream" where
  "settle r s = (case r of Inl (Inl e) \<Rightarrow> if IsEOF e then s else s\<lparr>rs_err := Some e\<rparr> | _ \<Rightarrow> s)"

inductive stream_reachable :: "'w ToolConfig \<Rightarrow> sdk \<Rightarrow> ('s, 'w) BetaEndpoint \<Rightarrow> 's \<Rightarrow> 'w roundStream \<Rightarrow> 'w \<Rightarrow> bool"
  for cfg sdk nxt st where
  start: "tool_Stream cfg nxt \<lparr>call_Request = v, call_State = st\<rparr> w0 = (Inr s, w) \<Longrightarrow> stream_reachable cfg sdk nxt st s w"
| step: "stream_reachable cfg sdk nxt st s w \<Longrightarrow> rs_err s = None \<Longrightarrow> streamNext cfg sdk nxt st ctxErr s w = (r, s1, w1) \<Longrightarrow>
    stream_reachable cfg sdk nxt st (settle r s1) w1"
| close: "stream_reachable cfg sdk nxt st s w \<Longrightarrow> round_Close s w = (e, s1, w1) \<Longrightarrow> stream_reachable cfg sdk nxt st s1 w1"

section \<open>What the client reads\<close>

text \<open>A client's check of the events it reads: block indices count up from 0, and only started blocks go on.\<close>

fun check :: "int \<Rightarrow> Payload list \<Rightarrow> int option" where
  "check n [] = Some n"
| "check n (BetaEvent (BlockStart i b) # vs) = (if i = n then check (n + 1) vs else None)"
| "check n (BetaEvent (BlockDelta i d) # vs) = (if 0 \<le> i \<and> i < n then check n vs else None)"
| "check n (BetaEvent (BlockStop i) # vs) = (if 0 \<le> i \<and> i < n then check n vs else None)"
| "check n (_ # vs) = check n vs"

lemma check_append: "check n (xs @ ys) = Option.bind (check n xs) (\<lambda>m. check m ys)"
  by (induction n xs rule: check.induct) auto

lemma check_mono: "check n xs = Some m \<Longrightarrow> n \<le> m"
  by (induction n xs arbitrary: m rule: check.induct) (fastforce split: if_splits)+

definition written :: "'w roundStream \<Rightarrow> Payload list" where
  "written s = rs_sent s @ rs_queue s"

fun isStart :: "Payload \<Rightarrow> bool" where
  "isStart (BetaEvent (MessageStart m)) = True"
| "isStart _ = False"

definition startCount :: "Payload list \<Rightarrow> nat" where
  "startCount vs = length (filter isStart vs)"

text \<open>The tool calls shown to the client.\<close>

definition shown :: "Payload list \<Rightarrow> string set" where
  "shown vs = {nm. \<exists>i cid inp. BetaEvent (BlockStart i (ToolUse cid nm inp)) \<in> set vs}"

lemma written_emit: "written (emit ev s) = written s @ [BetaEvent ev]"
  by (simp add: written_def emit_def)

lemma streamEmit_fields [simp]:
  "rs_nextIndex (emit ev s) = rs_nextIndex s" "rs_live (emit ev s) = rs_live s" "rs_held (emit ev s) = rs_held s"
  "rs_started (emit ev s) = rs_started s" "rs_done (emit ev s) = rs_done s" "rs_pending (emit ev s) = rs_pending s"
  "rs_delta (emit ev s) = rs_delta s" "rs_stop (emit ev s) = rs_stop s" "rs_executedRounds (emit ev s) = rs_executedRounds s"
  "rs_request (emit ev s) = rs_request s" "rs_committed (emit ev s) = rs_committed s"
  by (simp_all add: emit_def)

lemma emitAt_fields [simp]:
  "rs_nextIndex (emitAt ev i s) = rs_nextIndex s" "rs_live (emitAt ev i s) = rs_live s" "rs_held (emitAt ev i s) = rs_held s"
  "rs_started (emitAt ev i s) = rs_started s" "rs_done (emitAt ev i s) = rs_done s" "rs_pending (emitAt ev i s) = rs_pending s"
  "rs_delta (emitAt ev i s) = rs_delta s" "rs_stop (emitAt ev i s) = rs_stop s"
  by (simp_all add: emitAt_def)

lemma written_emitAt: "written (emitAt ev i s) = written s @ [BetaEvent (setIndex i ev)]"
  by (simp add: emitAt_def written_emit)

lemmas written_simps = written_emit written_emitAt check_append startCount_def shown_def

section \<open>The invariant\<close>

text \<open>A held block begins with the start of a tool call and goes on with events of its own block.\<close>

definition held_ok :: "heldBlock \<Rightarrow> bool" where
  "held_ok b \<longleftrightarrow> (\<exists>i inp evs. hb_events b = BlockStart i (ToolUse (hb_id b) (hb_name b) inp) # evs \<and>
     (\<forall>ev \<in> set evs. (\<exists>j d. ev = BlockDelta j d) \<or> (\<exists>j. ev = BlockStop j)))"

definition stream_ok :: "'w roundStream \<Rightarrow> bool" where
  "stream_ok s \<longleftrightarrow> check 0 (written s) = Some (rs_nextIndex s) \<and> startCount (written s) = (if rs_started s then 1 else 0) \<and>
     (\<forall>(i, j) \<in> set (rs_live s). 0 \<le> j \<and> j < rs_nextIndex s) \<and> (\<forall>b \<in> set (rs_held s). held_ok b) \<and>
     (BetaEvent MessageStop \<in> set (written s) \<longrightarrow> rs_done s)"

text \<open>Writing whole blocks.\<close>

lemma written_block:
  assumes "\<forall>ev \<in> set evs. (\<exists>j d. ev = BlockDelta j d) \<or> (\<exists>j. ev = BlockStop j)"
  shows "written (fold (\<lambda>ev. emitAt ev i) evs s) = written s @ map (\<lambda>ev. BetaEvent (setIndex i ev)) evs"
  by (induction evs arbitrary: s) (simp_all add: written_emitAt)

lemma fold_emitAt_fields:
  "rs_nextIndex (fold (\<lambda>ev. emitAt ev i) evs s) = rs_nextIndex s" "rs_live (fold (\<lambda>ev. emitAt ev i) evs s) = rs_live s"
  "rs_held (fold (\<lambda>ev. emitAt ev i) evs s) = rs_held s" "rs_started (fold (\<lambda>ev. emitAt ev i) evs s) = rs_started s"
  "rs_done (fold (\<lambda>ev. emitAt ev i) evs s) = rs_done s" "rs_delta (fold (\<lambda>ev. emitAt ev i) evs s) = rs_delta s"
  "rs_stop (fold (\<lambda>ev. emitAt ev i) evs s) = rs_stop s"
  by (induction evs arbitrary: s) simp_all

lemma check_body:
  assumes "\<forall>ev \<in> set evs. (\<exists>j d. ev = BlockDelta j d) \<or> (\<exists>j. ev = BlockStop j)" "0 \<le> i" "i < n"
  shows "check n (map (\<lambda>ev. BetaEvent (setIndex i ev)) evs) = Some n"
  using assms by (induction evs) (auto simp: setIndex_def)

lemma body_plain:
  assumes "\<forall>ev \<in> set evs. (\<exists>j d. ev = BlockDelta j d) \<or> (\<exists>j. ev = BlockStop j)"
  shows "startCount (map (\<lambda>ev. BetaEvent (setIndex i ev)) evs) = 0" "shown (map (\<lambda>ev. BetaEvent (setIndex i ev)) evs) = {}"
    "BetaEvent MessageStop \<notin> set (map (\<lambda>ev. BetaEvent (setIndex i ev)) evs)"
proof -
  have e: "\<forall>ev \<in> set evs. \<not> isStart (BetaEvent (setIndex i ev)) \<and> (\<forall>j b. setIndex i ev \<noteq> BlockStart j b) \<and> setIndex i ev \<noteq> MessageStop"
    using assms by (auto simp: setIndex_def)
  then show "startCount (map (\<lambda>ev. BetaEvent (setIndex i ev)) evs) = 0"
    by (induction evs) (simp_all add: startCount_def)
  show "shown (map (\<lambda>ev. BetaEvent (setIndex i ev)) evs) = {}" using e by (auto simp: shown_def) metis
  show "BetaEvent MessageStop \<notin> set (map (\<lambda>ev. BetaEvent (setIndex i ev)) evs)" using e by auto
qed

lemma startCount_append [simp]: "startCount (xs @ ys) = startCount xs + startCount ys"
  by (simp add: startCount_def)

lemma shown_append [simp]: "shown (xs @ ys) = shown xs \<union> shown ys"
  by (auto simp: shown_def)

text \<open>A piece of writing: what was written and that only the numbering moved.\<close>

definition wrote :: "'w roundStream \<Rightarrow> Payload list \<Rightarrow> 'w roundStream \<Rightarrow> bool" where
  "wrote s vs s' \<longleftrightarrow> written s' = written s @ vs \<and> check (rs_nextIndex s) vs = Some (rs_nextIndex s') \<and>
     rs_nextIndex s \<le> rs_nextIndex s' \<and> startCount vs = 0 \<and>
     rs_live s' = rs_live s \<and> rs_held s' = rs_held s \<and> rs_started s' = rs_started s \<and> rs_delta s' = rs_delta s \<and>
     rs_stop s' = rs_stop s \<and> rs_done s' = rs_done s"

lemma wrote_refl: "wrote s [] s"
  by (simp add: wrote_def startCount_def)

lemma wrote_trans: "wrote s vs s' \<Longrightarrow> wrote s' us s'' \<Longrightarrow> wrote s (vs @ us) s''"
  by (auto simp: wrote_def check_append)

definition heldShown :: "plan \<Rightarrow> heldBlock \<Rightarrow> string set" where
  "heldShown p b = (if map_of (pn_blocked p) (hb_id b) = None \<and> hb_id b \<in> set (pn_keep p) then {hb_name b} else {})"

lemma wrote_nextIndex: "written (s\<lparr>rs_nextIndex := n\<rparr>) = written s"
  by (simp add: written_def)

lemma emitHeld_wrote:
  assumes "held_ok b" "0 \<le> rs_nextIndex s"
  shows "\<exists>vs. wrote s vs (emitHeld cfg w p b s) \<and> BetaEvent MessageStop \<notin> set vs \<and> shown vs \<subseteq> heldShown p b"
proof -
  let ?n = "rs_nextIndex s"
  let ?s1 = "s\<lparr>rs_nextIndex := ?n + 1\<rparr>"
  obtain i inp evs where b: "hb_events b = BlockStart i (ToolUse (hb_id b) (hb_name b) inp) # evs"
    "\<forall>ev \<in> set evs. (\<exists>j d. ev = BlockDelta j d) \<or> (\<exists>j. ev = BlockStop j)" using assms(1) unfolding held_ok_def by blast
  define r where "r = (case cfg_Gate cfg of None \<Rightarrow> [] | Some g \<Rightarrow> gate_Restore g w (tc_Input (heldCall b)))"
  consider (blocked) m where "map_of (pn_blocked p) (hb_id b) = Some m"
    | (dropped) "map_of (pn_blocked p) (hb_id b) = None" "hb_id b \<notin> set (pn_keep p)"
    | (kept) "map_of (pn_blocked p) (hb_id b) = None" "hb_id b \<in> set (pn_keep p)"
    by (cases "map_of (pn_blocked p) (hb_id b)") auto
  then show ?thesis
  proof cases
    case blocked
    let ?vs = "[BetaEvent (BlockStart ?n (TextBlock [])), BetaEvent (BlockDelta ?n (TextDelta m)), BetaEvent (BlockStop ?n)]"
    have "wrote s ?vs (emitHeld cfg w p b s)"
      using blocked assms(2) by (simp add: emitHeld_def take_index_def Let_def wrote_def written_emit wrote_nextIndex startCount_def)
    then show ?thesis by (intro exI [of _ ?vs]) (simp add: shown_def)
  next
    case dropped
    then have "emitHeld cfg w p b s = s" by (simp add: emitHeld_def)
    then show ?thesis using wrote_refl [of s] by (intro exI [of _ "[]"]) (simp add: shown_def)
  next
    case kept
    show ?thesis
    proof (cases "r \<noteq> [] \<and> r \<noteq> tc_Input (heldCall b)")
      case True
      let ?vs = "[BetaEvent (BlockStart ?n (ToolUse (hb_id b) (hb_name b) inp)),
        BetaEvent (BlockDelta ?n (InputJSONDelta r)), BetaEvent (BlockStop ?n)]"
      have "emitHeld cfg w p b s =
          emit (BlockStop ?n) (emit (BlockDelta ?n (InputJSONDelta r)) (emitAt (hd (hb_events b)) ?n ?s1))"
        using kept True by (simp add: emitHeld_def take_index_def Let_def r_def [symmetric])
      then have "wrote s ?vs (emitHeld cfg w p b s)"
        using assms(2) b(1) by (simp add: wrote_def written_emit written_emitAt wrote_nextIndex setIndex_def startCount_def)
      then show ?thesis using kept by (intro exI [of _ ?vs]) (auto simp: shown_def heldShown_def)
    next
      case False
      let ?body = "map (\<lambda>ev. BetaEvent (setIndex ?n ev)) evs"
      let ?vs = "BetaEvent (BlockStart ?n (ToolUse (hb_id b) (hb_name b) inp)) # ?body"
      have e: "emitHeld cfg w p b s = fold (\<lambda>ev. emitAt ev ?n) evs (emitAt (hd (hb_events b)) ?n ?s1)"
        using kept False b(1) by (auto simp add: emitHeld_def take_index_def Let_def r_def [symmetric])
      have "wrote s ?vs (emitHeld cfg w p b s)"
        unfolding e using assms(2) b check_body [OF b(2), of ?n "?n + 1"] body_plain(1) [OF b(2), of ?n]
        by (simp add: wrote_def written_block written_emitAt wrote_nextIndex setIndex_def fold_emitAt_fields)
           (simp add: startCount_def)
      moreover have "shown ?vs \<subseteq> heldShown p b" using kept body_plain(2) [OF b(2), of ?n] by (auto simp: shown_def heldShown_def)
      ultimately show ?thesis using body_plain(3) [OF b(2), of ?n] by (intro exI [of _ ?vs]) simp
    qed
  qed
qed

lemma fold_emitHeld_wrote:
  assumes "\<forall>b \<in> set bs. held_ok b" "0 \<le> rs_nextIndex s"
  shows "\<exists>vs. wrote s vs (fold (emitHeld cfg w p) bs s) \<and> BetaEvent MessageStop \<notin> set vs \<and> shown vs \<subseteq> (\<Union>b \<in> set bs. heldShown p b)"
  using assms
proof (induction bs arbitrary: s)
  case Nil
  then show ?case using wrote_refl [of s] by (intro exI [of _ "[]"]) (simp add: shown_def)
next
  case (Cons b bs)
  obtain vs where vs: "wrote s vs (emitHeld cfg w p b s)" "BetaEvent MessageStop \<notin> set vs" "shown vs \<subseteq> heldShown p b"
    using emitHeld_wrote [of b s cfg w p] Cons.prems by auto
  have "0 \<le> rs_nextIndex (emitHeld cfg w p b s)" using vs(1) Cons.prems(2) by (simp add: wrote_def)
  then obtain us where us: "wrote (emitHeld cfg w p b s) us (fold (emitHeld cfg w p) bs (emitHeld cfg w p b s))"
    "BetaEvent MessageStop \<notin> set us" "shown us \<subseteq> (\<Union>b \<in> set bs. heldShown p b)"
    using Cons.IH [of "emitHeld cfg w p b s"] Cons.prems(1) by auto
  show ?case using wrote_trans [OF vs(1) us(1)] vs(2,3) us(2,3) by (intro exI [of _ "vs @ us"]) auto
qed

lemma stream_ok_wrote:
  assumes "stream_ok s" "wrote s vs s'" "BetaEvent MessageStop \<notin> set vs \<or> rs_done s'"
  shows "stream_ok s'"
  using assms by (auto simp: stream_ok_def wrote_def check_append)

lemma stream_ok_index: "stream_ok s \<Longrightarrow> 0 \<le> rs_nextIndex s"
  using check_mono by (auto simp: stream_ok_def)

section \<open>Every pass keeps it\<close>

lemma written_upd [simp]:
  "written (s\<lparr>rs_message := a\<rparr>) = written s" "written (s\<lparr>rs_started := c\<rparr>) = written s" "written (s\<lparr>rs_live := d\<rparr>) = written s"
  "written (s\<lparr>rs_nextIndex := e\<rparr>) = written s" "written (s\<lparr>rs_held := f\<rparr>) = written s" "written (s\<lparr>rs_delta := g\<rparr>) = written s"
  "written (s\<lparr>rs_stop := h\<rparr>) = written s" "written (s\<lparr>rs_usage := k, rs_current := l\<rparr>) = written s"
  "written (s\<lparr>rs_pending := m\<rparr>) = written s" "written (s\<lparr>rs_err := n\<rparr>) = written s" "written (s\<lparr>rs_done := p\<rparr>) = written s"
  "written (s\<lparr>rs_committed := q, rs_executedRounds := r\<rparr>) = written s" "written (s\<lparr>rs_request := t\<rparr>) = written s"
  "written (s\<lparr>rs_live := d, rs_nextIndex := e\<rparr>) = written s"
  "written (s\<lparr>rs_queue := v, rs_sent := x\<rparr>) = x @ v" "written (s\<lparr>rs_pending := m, rs_queue := v\<rparr>) = rs_sent s @ v"
  by (simp_all add: written_def)

lemma startRound_cases:
  assumes "startRound nxt st s w = (Inr s1, w1)"
  obtains cur where "s1 = s\<lparr>rs_current := cur, rs_message := [], rs_live := [], rs_held := [], rs_delta := None, rs_stop := False\<rparr>"
  using assms by (auto simp: startRound_def split: prod.splits sum.splits)

lemma stream_ok_startRound:
  assumes "stream_ok s" "startRound nxt st s w = (Inr s1, w1)"
  shows "stream_ok s1" "written s1 = written s" "rs_pending s1 = rs_pending s" "rs_held s1 = []"
  using assms(2) by (rule startRound_cases; use assms(1) in \<open>simp add: stream_ok_def written_def\<close>)+

lemma holdFirst_ok:
  assumes "\<forall>b \<in> set bs. held_ok b" "(\<exists>j d. ev = BlockDelta j d) \<or> (\<exists>j. ev = BlockStop j)"
  shows "\<forall>b \<in> set (holdFirst i ev bs). held_ok b"
  using assms by (induction bs) (auto simp: held_ok_def holdEvent_def)

lemma blockEvent_ok:
  assumes "stream_ok s" "blockEvent i ev s = Inr s1" "(\<exists>d. ev = BlockDelta i d) \<or> ev = BlockStop i"
  shows "stream_ok s1 \<and> shown (written s1) = shown (written s) \<and> rs_pending s1 = rs_pending s \<and> rs_done s1 = rs_done s"
proof (cases "isHeld i s")
  case True
  then have "s1 = s\<lparr>rs_held := holdFirst i ev (rs_held s)\<rparr>" using assms(2) by (simp add: blockEvent_def)
  then show ?thesis using assms(1,3) holdFirst_ok [of "rs_held s" ev i] by (auto simp: stream_ok_def)
next
  case False
  then obtain j where j: "map_of (rs_live s) i = Some j" "s1 = emitAt ev j s"
    using assms(2) by (auto simp: blockEvent_def split: option.splits)
  have "0 \<le> j" "j < rs_nextIndex s" using assms(1) map_of_SomeD [OF j(1)] by (auto simp: stream_ok_def)
  then have "wrote s [BetaEvent (setIndex j ev)] s1"
    using assms(3) unfolding j(2) by (auto simp: wrote_def written_emitAt setIndex_def startCount_def)
  moreover have "BetaEvent MessageStop \<notin> set [BetaEvent (setIndex j ev)]" "shown [BetaEvent (setIndex j ev)] = {}"
    using assms(3) by (auto simp: setIndex_def shown_def)
  ultimately show ?thesis using stream_ok_wrote [OF assms(1)] unfolding j(2) by (auto simp: written_emitAt)
qed

lemma set_update_in: "x \<in> set (AList.update k v al) \<Longrightarrow> x = (k, v) \<or> x \<in> set al"
  by (induction al) (auto split: if_splits)

lemma live_update_ok:
  assumes "\<forall>(i, j) \<in> set al. 0 \<le> j \<and> j < n" "0 \<le> n"
  shows "\<forall>(i, j) \<in> set (AList.update k n al). 0 \<le> j \<and> j < n + (1::int)"
  using assms by (fastforce dest: set_update_in)

lemma startBlock_ok:
  assumes "stream_ok s"
  shows "stream_ok (startBlock i b s) \<and> shown (written (startBlock i b s)) = shown (written s) \<and>
    rs_pending (startBlock i b s) = rs_pending s \<and> rs_done (startBlock i b s) = rs_done s"
proof (cases "\<exists>cid nm inp. b = ToolUse cid nm inp")
  case True
  then show ?thesis using assms by (auto simp: startBlock_def stream_ok_def held_ok_def)
next
  case False
  let ?n = "rs_nextIndex s"
  let ?s1 = "s\<lparr>rs_live := AList.update i ?n (rs_live s), rs_nextIndex := ?n + 1\<rparr>"
  have e: "startBlock i b s = emitAt (BlockStart i b) ?n ?s1" using False by (cases b) (simp_all add: startBlock_def)
  have v: "BetaEvent MessageStop \<notin> set [BetaEvent (BlockStart ?n b)]" "shown [BetaEvent (BlockStart ?n b)] = {}"
    "startCount [BetaEvent (BlockStart ?n b)] = 0"
    using False by (auto simp: shown_def startCount_def)
  have l: "\<forall>(i', j) \<in> set (AList.update i ?n (rs_live s)). 0 \<le> j \<and> j < ?n + 1"
    by (rule live_update_ok) (use assms stream_ok_index [OF assms] in \<open>auto simp: stream_ok_def\<close>)
  have w: "written (emitAt (BlockStart i b) ?n ?s1) = written s @ [BetaEvent (BlockStart ?n b)]"
    by (simp add: written_emitAt setIndex_def)
  show ?thesis unfolding e using assms l v by (auto simp: stream_ok_def w check_append)
qed

lemma consume_ok:
  assumes "stream_ok s" "consume sdk v s = Inr s1"
  shows "stream_ok s1 \<and> shown (written s1) = shown (written s) \<and> rs_pending s1 = rs_pending s"
proof -
  obtain ev where v: "v = BetaEvent ev" "Accumulate sdk (rs_message s) ev"
    using assms(2) by (auto simp: consume_def split: Payload.splits if_splits)
  let ?s = "s\<lparr>rs_message := rs_message s @ [ev]\<rparr>"
  have ok: "stream_ok ?s" using assms(1) by (simp add: stream_ok_def)
  have one: "written (emit e x) = written x @ [BetaEvent e]" "check n [BetaEvent (MessageStart m)] = Some n"
    "check n [BetaEvent (OtherEvent y)] = Some n" "startCount [BetaEvent (MessageStart m)] = 1" "startCount [BetaEvent (OtherEvent y)] = 0"
    "shown [BetaEvent (MessageStart m)] = {}" "shown [BetaEvent (OtherEvent y)] = {}" for e x n m y
    by (simp_all add: written_emit startCount_def shown_def)
  show ?thesis
  proof (cases ev)
    case (MessageStart m)
    then show ?thesis using assms(2) v ok by (auto simp: consume_def Let_def stream_ok_def check_append one split: if_splits)
  next
    case (BlockStart i b)
    then have "s1 = startBlock i b ?s" using assms(2) v by (simp add: consume_def Let_def)
    then show ?thesis using startBlock_ok [OF ok, of i b] by simp
  next
    case (BlockDelta i d)
    then have "blockEvent i ev ?s = Inr s1" using assms(2) v by (simp add: consume_def Let_def)
    then show ?thesis using blockEvent_ok [OF ok, of i ev s1] BlockDelta by simp
  next
    case (BlockStop i)
    then have "blockEvent i ev ?s = Inr s1" using assms(2) v by (simp add: consume_def Let_def)
    then show ?thesis using blockEvent_ok [OF ok, of i ev s1] BlockStop by simp
  next
    case (MessageDelta reason rest)
    then show ?thesis using assms(2) v ok by (auto simp: consume_def Let_def stream_ok_def)
  next
    case MessageStop
    then show ?thesis using assms(2) v ok by (auto simp: consume_def Let_def stream_ok_def)
  next
    case (OtherEvent y)
    then show ?thesis using assms(2) v ok by (auto simp: consume_def Let_def stream_ok_def check_append one)
  qed
qed

lemma emitEnd_written:
  "\<exists>vs. written (emitEnd r s) = written s @ vs \<and> (\<forall>n. check n vs = Some n) \<and> startCount vs = 0 \<and> shown vs = {} \<and>
     rs_nextIndex (emitEnd r s) = rs_nextIndex s \<and> rs_live (emitEnd r s) = rs_live s \<and> rs_held (emitEnd r s) = rs_held s \<and>
     rs_started (emitEnd r s) = rs_started s \<and> rs_pending (emitEnd r s) = rs_pending s"
proof (cases "rs_delta s")
  case None
  then show ?thesis
    by (intro exI [of _ "if rs_stop s then [BetaEvent MessageStop] else []"])
       (simp add: emitEnd_def written_emit startCount_def shown_def)
next
  case (Some d)
  obtain a b where d: "d = (a, b)" by fastforce
  show ?thesis using Some d
    by (intro exI [of _ "BetaEvent (MessageDelta (if r \<noteq> [] then r else a) b) # (if rs_stop s then [BetaEvent MessageStop] else [])"])
       (simp add: emitEnd_def Let_def written_emit startCount_def shown_def)
qed

lemma emitHeld_pending: "rs_pending (emitHeld cfg w p b s) = rs_pending s"
proof -
  have f: "rs_pending (fold (\<lambda>ev. emitAt ev i) evs x) = rs_pending x" for i evs x by (induction evs arbitrary: x) simp_all
  show ?thesis by (simp add: emitHeld_def take_index_def Let_def f split: option.split)
qed

lemma fold_emitHeld_pending: "rs_pending (fold (emitHeld cfg w p) bs s) = rs_pending s"
  by (induction bs arbitrary: s) (simp_all add: emitHeld_pending)

lemma emitRound_ok:
  assumes "stream_ok s"
  shows "stream_ok (emitRound cfg w p s) \<and> rs_pending (emitRound cfg w p s) = rs_pending s \<and> rs_done (emitRound cfg w p s) \<and>
    shown (written (emitRound cfg w p s)) \<subseteq> shown (written s) \<union> (\<Union>b \<in> set (rs_held s). heldShown p b)"
proof -
  let ?s1 = "fold (emitHeld cfg w p) (rs_held s) s"
  obtain vs where vs: "wrote s vs ?s1" "BetaEvent MessageStop \<notin> set vs" "shown vs \<subseteq> (\<Union>b \<in> set (rs_held s). heldShown p b)"
    using fold_emitHeld_wrote [of "rs_held s" s cfg w p] assms stream_ok_index [OF assms] by (auto simp: stream_ok_def)
  have ok: "stream_ok ?s1" using stream_ok_wrote [OF assms vs(1)] vs(2) by blast
  obtain us where us: "written (emitEnd (pn_stopReason p) ?s1) = written ?s1 @ us" "\<forall>n. check n us = Some n" "startCount us = 0"
    "shown us = {}" "rs_nextIndex (emitEnd (pn_stopReason p) ?s1) = rs_nextIndex ?s1"
    "rs_live (emitEnd (pn_stopReason p) ?s1) = rs_live ?s1" "rs_held (emitEnd (pn_stopReason p) ?s1) = rs_held ?s1"
    "rs_started (emitEnd (pn_stopReason p) ?s1) = rs_started ?s1" "rs_pending (emitEnd (pn_stopReason p) ?s1) = rs_pending ?s1"
    using emitEnd_written [of "pn_stopReason p" ?s1] by blast
  have e: "emitRound cfg w p s = (emitEnd (pn_stopReason p) ?s1)\<lparr>rs_done := True\<rparr>" by (simp add: emitRound_def)
  have "stream_ok (emitRound cfg w p s)" using ok us(2,3) unfolding e stream_ok_def by (simp add: us check_append)
  moreover have "written (emitRound cfg w p s) = written s @ vs @ us" using vs(1) us(1) unfolding e by (simp add: wrote_def)
  ultimately show ?thesis using vs(3) us(4) us(9) fold_emitHeld_pending by (auto simp: e)
qed

definition unowned :: "'w ToolConfig \<Rightarrow> string set \<Rightarrow> bool" where
  "unowned cfg nms \<longleftrightarrow> (\<forall>ow nm. cfg_Owner cfg = Some ow \<and> nm \<in> nms \<longrightarrow> \<not> Owns ow nm)"

definition safe_plan :: "'w ToolConfig \<Rightarrow> plan \<Rightarrow> heldBlock list \<Rightarrow> bool" where
  "safe_plan cfg p bs \<longleftrightarrow> unowned cfg (\<Union>b \<in> set bs. heldShown p b)"

definition hidden_ok :: "'w ToolConfig \<Rightarrow> 'w roundStream \<Rightarrow> bool" where
  "hidden_ok cfg s \<longleftrightarrow> unowned cfg (shown (written s)) \<and>
     (\<forall>pend. rs_pending s = Some pend \<longrightarrow> safe_plan cfg (pr_plan pend) (rs_held s))"

lemma unowned_Un: "unowned cfg (a \<union> b) \<longleftrightarrow> unowned cfg a \<and> unowned cfg b"
  by (auto simp: unowned_def)

lemma unowned_mono: "unowned cfg b \<Longrightarrow> a \<subseteq> b \<Longrightarrow> unowned cfg a"
  by (auto simp: unowned_def)

lemma decide_safe_plan:
  assumes "decide cfg rq (map heldCall bs) n w = (p, w2)" "distinct (map hb_id bs)"
  shows "safe_plan cfg p bs"
proof -
  have d: "distinct (map tc_ID (map heldCall bs))" using assms(2) by (simp add: heldCall_def comp_def)
  have "\<not> ownedBy cfg (heldCall b)" if "b \<in> set bs" "hb_id b \<in> set (pn_keep p)" for b
    using decide_keep [OF assms(1) d, of "heldCall b"] that by (simp add: heldCall_def)
  then show ?thesis by (force simp: safe_plan_def unowned_def heldShown_def ownedBy_def heldCall_def)
qed

lemma absorb_fields:
  "written (fst (absorb s w)) = written s" "rs_held (fst (absorb s w)) = rs_held s" "rs_pending (fst (absorb s w)) = rs_pending s"
  "rs_sent (fst (absorb s w)) = rs_sent s" "rs_queue (fst (absorb s w)) = rs_queue s" "rs_committed (fst (absorb s w)) = rs_committed s"
  "stream_ok (fst (absorb s w)) = stream_ok s"
  by (simp_all add: absorb_def Let_def written_def stream_ok_def split: option.split)

lemma stream_ok_upd:
  "stream_ok (s\<lparr>rs_pending := m\<rparr>) = stream_ok s" "stream_ok (s\<lparr>rs_err := n\<rparr>) = stream_ok s"
  "stream_ok (s\<lparr>rs_committed := q, rs_executedRounds := r\<rparr>) = stream_ok s" "stream_ok (s\<lparr>rs_request := t\<rparr>) = stream_ok s"
  by (simp_all add: stream_ok_def)

lemma heartbeat_ok:
  "stream_ok s \<Longrightarrow> stream_ok (s\<lparr>rs_pending := m, rs_queue := rs_queue s @ [Heartbeat]\<rparr>)"
  "shown (written (s\<lparr>rs_pending := m, rs_queue := rs_queue s @ [Heartbeat]\<rparr>)) = shown (written s)"
proof -
  have w: "written (s\<lparr>rs_pending := m, rs_queue := rs_queue s @ [Heartbeat]\<rparr>) = written s @ [Heartbeat]" by (simp add: written_def)
  have c: "startCount [Heartbeat] = 0" "shown [Heartbeat] = {}" by (simp_all add: startCount_def shown_def)
  show "stream_ok s \<Longrightarrow> stream_ok (s\<lparr>rs_pending := m, rs_queue := rs_queue s @ [Heartbeat]\<rparr>)"
    unfolding stream_ok_def w by (simp add: check_append c)
  show "shown (written (s\<lparr>rs_pending := m, rs_queue := rs_queue s @ [Heartbeat]\<rparr>)) = shown (written s)" unfolding w by (simp add: c)
qed

text \<open>\<open>finishRound\<close> and \<open>runRound\<close>, whether they fail or not.\<close>

definition after :: "(stage_error \<times> 'w roundStream + 'w roundStream) \<Rightarrow> 'w roundStream" where
  "after r = (case r of Inl (e, s) \<Rightarrow> s | Inr s \<Rightarrow> s)"

lemma finishRound_ok:
  assumes "stream_ok s" "rs_pending s = None"
  shows "stream_ok (after (fst (finishRound cfg sdk ctxErr s w)))"
    and "hidden_ok cfg s \<Longrightarrow> distinct (map hb_id (rs_held s)) \<Longrightarrow> hidden_ok cfg (after (fst (finishRound cfg sdk ctxErr s w)))"
proof -
  obtain s1 w1 where a: "absorb s w = (s1, w1)" by fastforce
  have f: "written s1 = written s" "rs_held s1 = rs_held s" "rs_pending s1 = None" "stream_ok s1"
    using absorb_fields [of s w] a assms by simp_all
  obtain p w2 where d: "decide cfg (rs_request s1) (map heldCall (rs_held s1)) (rs_executedRounds s1) w1 = (p, w2)" by fastforce
  let ?pend = "s1\<lparr>rs_pending := Some \<lparr>pr_plan = p, pr_turn = ToParam sdk (rs_message s1)\<rparr>, rs_queue := rs_queue s1 @ [Heartbeat]\<rparr>"
  have "after (fst (finishRound cfg sdk ctxErr s w)) \<in> {s1, ?pend, emitRound cfg w2 p s1}"
    using a d by (simp add: finishRound_def after_def Let_def split: option.split)
  moreover have "stream_ok ?pend" using heartbeat_ok(1) [OF f(4)] .
  moreover have "stream_ok (emitRound cfg w2 p s1)" using emitRound_ok [OF f(4)] by blast
  ultimately show "stream_ok (after (fst (finishRound cfg sdk ctxErr s w)))" using f(4) by auto
  assume h: "hidden_ok cfg s" "distinct (map hb_id (rs_held s))"
  have safe: "safe_plan cfg p (rs_held s1)" using decide_safe_plan [OF d] h(2) f(2) by simp
  have "hidden_ok cfg s1" using h(1) f by (simp add: hidden_ok_def)
  moreover have "hidden_ok cfg ?pend"
    using safe h(1) f(1) heartbeat_ok(2) [of s1] by (simp add: hidden_ok_def)
  moreover have "hidden_ok cfg (emitRound cfg w2 p s1)"
  proof -
    have "unowned cfg (shown (written s1) \<union> (\<Union>b \<in> set (rs_held s1). heldShown p b))"
      using h(1) safe f(1) by (simp add: unowned_Un safe_plan_def hidden_ok_def)
    then show ?thesis using emitRound_ok [OF f(4), of cfg w2 p] f(3) unowned_mono unfolding hidden_ok_def by fastforce
  qed
  ultimately show "hidden_ok cfg (after (fst (finishRound cfg sdk ctxErr s w)))"
    using \<open>after (fst (finishRound cfg sdk ctxErr s w)) \<in> _\<close> by auto
qed

lemma runRound_ok:
  assumes "stream_ok s" "rs_pending s = None"
  shows "stream_ok (after (fst (runRound cfg nxt st pend s w)))"
    and "unowned cfg (shown (written s)) \<Longrightarrow> safe_plan cfg (pr_plan pend) (rs_held s) \<Longrightarrow>
      hidden_ok cfg (after (fst (runRound cfg nxt st pend s w)))"
proof -
  obtain ran w1 where r: "runPlan cfg (rs_request s) (pr_turn pend) (pr_plan pend) w = (ran, w1)" by fastforce
  let ?s1 = "s\<lparr>rs_committed := True, rs_executedRounds := Suc (rs_executedRounds s)\<rparr>"
  have ok1: "stream_ok ?s1" using assms(1) by (simp add: stream_ok_upd)
  have cases: "(\<exists>rq. after (fst (runRound cfg nxt st pend s w)) = ?s1\<lparr>rs_request := rq\<rparr>) \<or>
      (\<exists>rq s2 w2. startRound nxt st (?s1\<lparr>rs_request := rq\<rparr>) w1 = (Inr s2, w2) \<and> after (fst (runRound cfg nxt st pend s w)) = s2) \<or>
      after (fst (runRound cfg nxt st pend s w)) = emitRound cfg w1 (pr_plan pend) ?s1"
  proof (cases ran)
    case None
    then show ?thesis using r by (simp add: runRound_def Let_def after_def)
  next
    case (Some rq)
    obtain x w2 where x: "startRound nxt st (?s1\<lparr>rs_request := rq\<rparr>) w1 = (x, w2)" by fastforce
    show ?thesis
    proof (cases x)
      case (Inl e)
      then show ?thesis using r Some x by (auto simp: runRound_def Let_def after_def)
    next
      case (Inr s2)
      then have "after (fst (runRound cfg nxt st pend s w)) = s2" using r Some x by (simp add: runRound_def Let_def after_def)
      then show ?thesis using x Inr by blast
    qed
  qed
  have okq: "stream_ok (?s1\<lparr>rs_request := rq\<rparr>)" for rq using ok1 by (simp add: stream_ok_upd)
  show "stream_ok (after (fst (runRound cfg nxt st pend s w)))"
    using cases
  proof (elim disjE exE conjE)
    fix rq s2 w2
    assume a: "startRound nxt st (?s1\<lparr>rs_request := rq\<rparr>) w1 = (Inr s2, w2)" and b: "after (fst (runRound cfg nxt st pend s w)) = s2"
    show ?thesis unfolding b by (rule stream_ok_startRound(1) [OF okq a])
  qed (use okq emitRound_ok [OF ok1] in simp_all)
  assume h: "unowned cfg (shown (written s))" "safe_plan cfg (pr_plan pend) (rs_held s)"
  have 1: "hidden_ok cfg (?s1\<lparr>rs_request := rq\<rparr>)" for rq using h(1) assms(2) by (simp add: hidden_ok_def)
  have 2: "hidden_ok cfg s2" if "startRound nxt st (?s1\<lparr>rs_request := rq\<rparr>) w1 = (Inr s2, w2)" for rq s2 w2
    using stream_ok_startRound(2,3) [OF okq that] h(1) assms(2) by (simp add: hidden_ok_def)
  have 3: "hidden_ok cfg (emitRound cfg w1 (pr_plan pend) ?s1)"
  proof -
    have "unowned cfg (shown (written ?s1) \<union> (\<Union>b \<in> set (rs_held ?s1). heldShown (pr_plan pend) b))"
      using h by (simp add: unowned_Un safe_plan_def)
    then show ?thesis using emitRound_ok [OF ok1, of cfg w1 "pr_plan pend"] assms(2) unowned_mono
      unfolding hidden_ok_def by fastforce
  qed
  show "hidden_ok cfg (after (fst (runRound cfg nxt st pend s w)))" using cases
  proof (elim disjE exE conjE)
    fix rq s2 w2
    assume a: "startRound nxt st (?s1\<lparr>rs_request := rq\<rparr>) w1 = (Inr s2, w2)" and b: "after (fst (runRound cfg nxt st pend s w)) = s2"
    show ?thesis unfolding b by (rule 2 [OF a])
  qed (use 1 3 in simp_all)
qed

text \<open>The state a pass ends in.\<close>

lemma streamNext_state:
  "fst (snd (streamNext cfg sdk nxt st ctxErr s w)) \<in>
     {s} \<union> {s\<lparr>rs_queue := q, rs_sent := rs_sent s @ [v]\<rparr> |v q. rs_queue s = v # q} \<union>
     {after (fst (runRound cfg nxt st pend (s\<lparr>rs_pending := None\<rparr>) w)) |pend. rs_pending s = Some pend} \<union>
     {s1. rs_pending s = None \<and> (\<exists>v. consume sdk v s = Inr s1)} \<union>
     {after (fst (finishRound cfg sdk ctxErr s w1)) |w1. rs_pending s = None}"
proof (cases "rs_queue s")
  case (Cons v q)
  then have "fst (snd (streamNext cfg sdk nxt st ctxErr s w)) = s\<lparr>rs_queue := q, rs_sent := rs_sent s @ [v]\<rparr>"
    by (simp add: streamNext_def)
  then show ?thesis using Cons by simp
next
  case Nil
  show ?thesis
  proof (cases "rs_done s \<or> ctxErr \<noteq> None")
    case True
    then have "fst (snd (streamNext cfg sdk nxt st ctxErr s w)) = s" using Nil by (auto simp: streamNext_def failWith_def)
    then show ?thesis by simp
  next
    case False
    show ?thesis
    proof (cases "rs_pending s")
      case (Some pend)
      obtain x w1 where x: "runRound cfg nxt st pend (s\<lparr>rs_pending := None\<rparr>) w = (x, w1)" by fastforce
      have "fst (snd (streamNext cfg sdk nxt st ctxErr s w)) = after x"
        using Nil False Some x by (cases x) (auto simp: streamNext_def failWith_def after_def)
      then have "fst (snd (streamNext cfg sdk nxt st ctxErr s w)) = after (fst (runRound cfg nxt st pend (s\<lparr>rs_pending := None\<rparr>) w))"
        using x by simp
      then show ?thesis using Some by blast
    next
      case None
      show ?thesis
      proof (cases "rs_current s")
        case None': None
        have "fst (snd (streamNext cfg sdk nxt st ctxErr s w)) = s"
          using Nil False None None' by (simp add: streamNext_def failWith_def)
        then show ?thesis by simp
      next
        case (Some cur)
        obtain x w1 where x: "st_Next cur w = (x, w1)" by fastforce
        show ?thesis
        proof (cases x)
          case (Inr v)
          show ?thesis
          proof (cases "consume sdk v s")
            case (Inl e)
            have "fst (snd (streamNext cfg sdk nxt st ctxErr s w)) = s"
              using Nil False None Some x Inr Inl by (simp add: streamNext_def failWith_def)
            then show ?thesis by simp
          next
            case (Inr s1)
            have "fst (snd (streamNext cfg sdk nxt st ctxErr s w)) = s1"
              using Nil False None Some x \<open>x = Inr v\<close> Inr by (simp add: streamNext_def)
            then show ?thesis using None Inr by blast
          qed
        next
          case (Inl e)
          obtain y w2 where y: "finishRound cfg sdk ctxErr s w1 = (y, w2)" by fastforce
          show ?thesis
          proof (cases "IsEOF e")
            case True
            have "fst (snd (streamNext cfg sdk nxt st ctxErr s w)) = after y"
              using Nil False None Some x Inl True y by (cases y) (auto simp: streamNext_def failWith_def after_def)
            then have "fst (snd (streamNext cfg sdk nxt st ctxErr s w)) = after (fst (finishRound cfg sdk ctxErr s w1))"
              using y by simp
            then show ?thesis using None by blast
          next
            case False': False
            have "fst (snd (streamNext cfg sdk nxt st ctxErr s w)) = s"
              using Nil False None Some x Inl False' by (simp add: streamNext_def failWith_def)
            then show ?thesis by simp
          qed
        qed
      qed
    qed
  qed
qed

lemma written_pop: "rs_queue s = v # q \<Longrightarrow> written (s\<lparr>rs_queue := q, rs_sent := rs_sent s @ [v]\<rparr>) = written s"
  by (simp add: written_def)

lemma streamNext_ok:
  assumes "stream_ok s" "streamNext cfg sdk nxt st ctxErr s w = (r, s1, w1)"
  shows "stream_ok s1" "hidden_ok cfg s \<Longrightarrow> distinct (map hb_id (rs_held s)) \<Longrightarrow> hidden_ok cfg s1"
proof -
  have np: "stream_ok (s\<lparr>rs_pending := None\<rparr>)" using assms(1) by (simp add: stream_ok_upd)
  have st: "fst (snd (streamNext cfg sdk nxt st ctxErr s w)) = s1" using assms(2) by simp
  have "stream_ok s1 \<and> (hidden_ok cfg s \<longrightarrow> distinct (map hb_id (rs_held s)) \<longrightarrow> hidden_ok cfg s1)"
    using streamNext_state [of cfg sdk nxt st ctxErr s w] unfolding st
  proof (elim UnE)
    assume "s1 \<in> {s\<lparr>rs_queue := q, rs_sent := rs_sent s @ [v]\<rparr> |v q. rs_queue s = v # q}"
    then obtain v q where e: "s1 = s\<lparr>rs_queue := q, rs_sent := rs_sent s @ [v]\<rparr>" "rs_queue s = v # q" by blast
    show ?thesis using assms(1) written_pop [OF e(2)] unfolding e(1) by (simp add: stream_ok_def hidden_ok_def del: written_upd)
  next
    assume "s1 \<in> {after (fst (runRound cfg nxt st pend (s\<lparr>rs_pending := None\<rparr>) w)) |pend. rs_pending s = Some pend}"
    then obtain pend where e: "s1 = after (fst (runRound cfg nxt st pend (s\<lparr>rs_pending := None\<rparr>) w))" "rs_pending s = Some pend" by blast
    have "rs_pending (s\<lparr>rs_pending := None\<rparr>) = None" by simp
    note ro = runRound_ok [OF np this, where cfg = cfg and nxt = nxt and st = st and pend = pend and w = w]
    show ?thesis unfolding e(1) using ro e(2) by (simp add: hidden_ok_def)
  next
    assume "s1 \<in> {s1. rs_pending s = None \<and> (\<exists>v. consume sdk v s = Inr s1)}"
    then obtain v where e: "rs_pending s = None" "consume sdk v s = Inr s1" by blast
    show ?thesis using consume_ok [OF assms(1) e(2)] e(1) by (simp add: hidden_ok_def)
  next
    assume "s1 \<in> {after (fst (finishRound cfg sdk ctxErr s w1)) |w1. rs_pending s = None}"
    then obtain w2 where e: "s1 = after (fst (finishRound cfg sdk ctxErr s w2))" "rs_pending s = None" by blast
    show ?thesis unfolding e(1) using finishRound_ok [OF assms(1) e(2)] by blast
  qed (use assms(1) in simp)
  then show "stream_ok s1" "hidden_ok cfg s \<Longrightarrow> distinct (map hb_id (rs_held s)) \<Longrightarrow> hidden_ok cfg s1" by blast+
qed

lemma tool_Stream_start:
  assumes "tool_Stream cfg nxt call w = (Inr s, w1)"
  shows "stream_ok s" "hidden_ok cfg s"
proof -
  obtain rq w2 where p: "startRound nxt (call_State call) (newStream rq) w2 = (Inr s, w1)"
    using assms by (auto simp: tool_Stream_def split: prod.splits sum.splits)
  have n: "stream_ok (newStream rq)" "written (newStream rq) = []" "rs_pending (newStream rq) = None"
    by (simp_all add: stream_ok_def newStream_def written_def startCount_def)
  show "stream_ok s" using stream_ok_startRound(1) [OF n(1) p] .
  have "written s = []" "rs_pending s = None" using stream_ok_startRound(2,3) [OF n(1) p] n(2,3) by simp_all
  then show "hidden_ok cfg s" by (simp add: hidden_ok_def unowned_def shown_def)
qed

lemma settle_fields: "stream_ok (settle r s) = stream_ok s" "hidden_ok cfg (settle r s) = hidden_ok cfg s"
  by (auto simp: settle_def stream_ok_upd hidden_ok_def split: sum.split)

lemma round_Close_state: "round_Close s w = (e, s1, w1) \<Longrightarrow> s1 = s \<or> (\<exists>x. s1 = s\<lparr>rs_closed := x\<rparr>)"
  by (auto simp: round_Close_def split: option.splits prod.splits)

lemma round_Close_fields:
  assumes "round_Close s w = (e, s1, w1)"
  shows "stream_ok s1 = stream_ok s" "hidden_ok cfg s1 = hidden_ok cfg s" "rs_held s1 = rs_held s" "rs_message s1 = rs_message s"
proof -
  have "stream_ok (s\<lparr>rs_closed := x\<rparr>) = stream_ok s" "hidden_ok cfg (s\<lparr>rs_closed := x\<rparr>) = hidden_ok cfg s" for x
    by (simp_all add: stream_ok_def hidden_ok_def written_def)
  then show "stream_ok s1 = stream_ok s" "hidden_ok cfg s1 = hidden_ok cfg s" "rs_held s1 = rs_held s" "rs_message s1 = rs_message s"
    using round_Close_state [OF assms] by auto
qed

lemma stream_ok_reachable: "stream_reachable cfg sdk nxt st s w \<Longrightarrow> stream_ok s"
proof (induction rule: stream_reachable.induct)
  case (start v w0 s w)
  then show ?case by (rule tool_Stream_start)
next
  case (step s w ctxErr r s1 w1)
  show ?case using streamNext_ok(1) [OF step.IH step.hyps(3)] by (simp add: settle_fields)
next
  case (close s w e s1 w1)
  show ?case using close.IH round_Close_fields(1) [OF close.hyps(2)] by simp
qed

lemma hidden_ok_reachable:
  "stream_reachable cfg sdk nxt st s w \<Longrightarrow> \<forall>s w. stream_reachable cfg sdk nxt st s w \<longrightarrow> distinct (map hb_id (rs_held s)) \<Longrightarrow>
     hidden_ok cfg s"
proof (induction rule: stream_reachable.induct)
  case (start v w0 s w)
  show ?case by (rule tool_Stream_start(2) [OF start.hyps])
next
  case (step s w ctxErr r s1 w1)
  show ?case using streamNext_ok(2) [OF stream_ok_reachable [OF step.hyps(1)] step.hyps(3)] step by (simp add: settle_fields)
next
  case (close s w e s1 w1)
  then show ?case using round_Close_fields(2) [OF close.hyps(2)] by simp
qed

text \<open>A stream that has ended, read to its end, gives nothing more.\<close>

lemma ended_stream: "rs_done s \<Longrightarrow> rs_queue s = [] \<Longrightarrow> streamNext cfg sdk nxt st ctxErr s w = (Inl (Inl EOF), s, w)"
  by (simp add: streamNext_def failWith_def)

text \<open>What \<^verbatim>\<open>Next\<close> does is such passes.\<close>

text \<open>Nothing but a failed call of \<^verbatim>\<open>Next\<close> records an error.\<close>

lemma rs_err_emit [simp]: "rs_err (emit ev s) = rs_err s" "rs_err (emitAt ev i s) = rs_err s"
  by (simp_all add: emit_def emitAt_def)

lemma rs_err_emitHeld: "rs_err (emitHeld cfg w p b s) = rs_err s"
proof -
  have f: "rs_err (fold (\<lambda>ev. emitAt ev i) evs x) = rs_err x" for i evs x by (induction evs arbitrary: x) simp_all
  show ?thesis by (simp add: emitHeld_def take_index_def Let_def f split: option.split)
qed

lemma rs_err_emitRound: "rs_err (emitRound cfg w p s) = rs_err s"
proof -
  have "rs_err (fold (emitHeld cfg w p) bs x) = rs_err x" for bs x by (induction bs arbitrary: x) (simp_all add: rs_err_emitHeld)
  then show ?thesis by (simp add: emitRound_def emitEnd_def Let_def split: option.split prod.split)
qed

lemma rs_err_startRound: "startRound nxt st s w = (Inr s1, w1) \<Longrightarrow> rs_err s1 = rs_err s"
  by (auto simp: startRound_def split: prod.splits sum.splits)

lemma rs_err_finishRound: "rs_err (after (fst (finishRound cfg sdk ctxErr s w))) = rs_err s"
proof -
  obtain s1 w1 where a: "absorb s w = (s1, w1)" by fastforce
  have "rs_err s1 = rs_err s" using a by (auto simp: absorb_def Let_def split: option.splits)
  then show ?thesis using a by (simp add: finishRound_def after_def Let_def rs_err_emitRound split: option.split prod.split)
qed

lemma rs_err_runRound: "rs_err (after (fst (runRound cfg nxt st pend s w))) = rs_err s"
  by (auto simp: runRound_def after_def Let_def rs_err_emitRound dest!: rs_err_startRound split: option.split prod.split sum.split)

lemma rs_err_consume: "consume sdk v s = Inr s1 \<Longrightarrow> rs_err s1 = rs_err s"
  by (auto simp: consume_def blockEvent_def startBlock_def Let_def split: Payload.splits Event.splits Block.splits option.splits if_splits)

lemma rs_err_streamNext:
  assumes "streamNext cfg sdk nxt st ctxErr s w = (r, s1, w1)" shows "rs_err s1 = rs_err s"
proof -
  have "fst (snd (streamNext cfg sdk nxt st ctxErr s w)) = s1" using assms by simp
  then show ?thesis using streamNext_state [of cfg sdk nxt st ctxErr s w]
    by (auto simp: rs_err_finishRound rs_err_runRound rs_err_consume)
qed

text \<open>The held blocks are the tool calls of the message read so far.\<close>

definition toolIds :: "Event list \<Rightarrow> string list" where
  "toolIds evs = concat (map (\<lambda>ev. case ev of BlockStart i (ToolUse cid nm inp) \<Rightarrow> [cid] | _ \<Rightarrow> []) evs)"

text \<open>A pass keeps the message read and the blocks held, clears both, or consumes one event.\<close>

lemma rs_message_emit [simp]: "rs_message (emit ev s) = rs_message s" "rs_message (emitAt ev i s) = rs_message s"
  by (simp_all add: emit_def emitAt_def)

definition sameRound :: "'w roundStream \<Rightarrow> 'w roundStream \<Rightarrow> bool" where
  "sameRound s t \<longleftrightarrow> rs_held t = rs_held s \<and> rs_message t = rs_message s"

definition newRound :: "'w roundStream \<Rightarrow> bool" where
  "newRound t \<longleftrightarrow> rs_held t = [] \<and> rs_message t = []"

lemma sameRound_refl [simp]: "sameRound s s"
  by (simp add: sameRound_def)

lemma sameRound_trans: "sameRound s t \<Longrightarrow> sameRound t u \<Longrightarrow> sameRound s u"
  by (simp add: sameRound_def)

lemma sameRound_emit [simp]: "sameRound s (emit ev t) = sameRound s t" "sameRound s (emitAt ev i t) = sameRound s t"
  by (simp_all add: sameRound_def emit_def emitAt_def)

lemma sameRound_fold [simp]: "sameRound s (fold (\<lambda>ev. emitAt ev i) evs t) = sameRound s t"
  by (induction evs arbitrary: t) simp_all

lemma sameRound_upd [simp]:
  "sameRound s (t\<lparr>rs_nextIndex := n\<rparr>) = sameRound s t" "sameRound s (t\<lparr>rs_done := d\<rparr>) = sameRound s t"
  "sameRound s (t\<lparr>rs_pending := p\<rparr>) = sameRound s t" "sameRound s (t\<lparr>rs_queue := q\<rparr>) = sameRound s t"
  "sameRound s (t\<lparr>rs_sent := q\<rparr>) = sameRound s t" "sameRound s (t\<lparr>rs_err := e\<rparr>) = sameRound s t"
  "sameRound s (t\<lparr>rs_committed := c\<rparr>) = sameRound s t" "sameRound s (t\<lparr>rs_executedRounds := k\<rparr>) = sameRound s t"
  "sameRound s (t\<lparr>rs_request := rq\<rparr>) = sameRound s t" "sameRound s (t\<lparr>rs_usage := u\<rparr>) = sameRound s t"
  "sameRound s (t\<lparr>rs_current := cur\<rparr>) = sameRound s t"
  by (simp_all add: sameRound_def)

lemma sameRound_emitHeld [simp]: "sameRound s (emitHeld cfg w p b t) = sameRound s t"
  by (simp add: emitHeld_def take_index_def Let_def split: option.split)

lemma sameRound_emitRound [simp]: "sameRound s (emitRound cfg w p t) = sameRound s t"
proof -
  have "sameRound s (fold (emitHeld cfg w p) bs t) = sameRound s t" for bs by (induction bs arbitrary: t) simp_all
  then show ?thesis by (simp add: emitRound_def emitEnd_def Let_def split: option.split)
qed

lemma newRound_startRound: "startRound nxt st s w = (Inr s1, w1) \<Longrightarrow> newRound s1"
  by (auto simp: startRound_def newRound_def split: prod.splits sum.splits)

lemma sameRound_finishRound: "sameRound s (after (fst (finishRound cfg sdk ctxErr s w)))"
proof -
  obtain s1 w1 where a: "absorb s w = (s1, w1)" by fastforce
  have "sameRound s s1" using a by (auto simp: absorb_def Let_def split: option.splits)
  then show ?thesis using a by (simp add: finishRound_def after_def Let_def split: option.split prod.split)
qed

lemma round_runRound:
  "sameRound s (after (fst (runRound cfg nxt st pend s w))) \<or> newRound (after (fst (runRound cfg nxt st pend s w)))"
  by (auto simp: runRound_def after_def Let_def dest!: newRound_startRound split: option.split prod.split sum.split)

lemma streamNext_round:
  assumes "streamNext cfg sdk nxt st ctxErr s w = (r, s1, w1)"
  shows "sameRound s s1 \<or> newRound s1 \<or> (\<exists>v. consume sdk v s = Inr s1)"
proof -
  have e: "fst (snd (streamNext cfg sdk nxt st ctxErr s w)) = s1" using assms by simp
  have "sameRound s (after (fst (runRound cfg nxt st pend (s\<lparr>rs_pending := None\<rparr>) w))) \<or>
      newRound (after (fst (runRound cfg nxt st pend (s\<lparr>rs_pending := None\<rparr>) w)))" for pend
    using round_runRound [of "s\<lparr>rs_pending := None\<rparr>" cfg nxt st pend w] by (simp add: sameRound_def)
  then show ?thesis using streamNext_state [of cfg sdk nxt st ctxErr s w] sameRound_finishRound unfolding e by fastforce
qed

text \<open>So what holds of an empty round and is kept by every event holds of every round.\<close>

lemma round_reachable:
  fixes s :: "'w roundStream"
  assumes "stream_reachable cfg sdk nxt st s w" "P [] []"
    "\<And>v (s :: 'w roundStream) s1. P (rs_held s) (rs_message s) \<Longrightarrow> consume sdk v s = Inr s1 \<Longrightarrow> P (rs_held s1) (rs_message s1)"
  shows "P (rs_held s) (rs_message s)"
  using assms(1)
proof (induction rule: stream_reachable.induct)
  case (start v w0 s w)
  then obtain s0 w1 where "startRound nxt st s0 w1 = (Inr s, w)" by (auto simp: tool_Stream_def split: prod.splits sum.splits)
  then show ?case using newRound_startRound [of nxt st s0 w1 s w] assms(2) by (simp add: newRound_def)
next
  case (step s w ctxErr r s1 w1)
  have "P (rs_held s1) (rs_message s1)"
    using streamNext_round [OF step.hyps(3)] step.IH assms(2) assms(3) [OF step.IH] by (auto simp: sameRound_def newRound_def)
  then show ?case by (simp add: settle_def split: sum.split)
next
  case (close s w e s1 w1)
  then show ?case using round_Close_fields(3,4) [OF close.hyps(2)] by simp
qed

lemma hb_id_holdFirst: "map hb_id (holdFirst i ev bs) = map hb_id bs"
  by (induction i ev bs rule: holdFirst.induct) (auto simp: holdEvent_def)

lemma held_are_tool_calls:
  assumes "stream_reachable cfg sdk nxt st s w" shows "map hb_id (rs_held s) = toolIds (rs_message s)"
proof (rule round_reachable [OF assms, of "\<lambda>h m. map hb_id h = toolIds m"])
  fix v s s1
  assume "map hb_id (rs_held s) = toolIds (rs_message s)" "consume sdk v s = Inr s1"
  then show "map hb_id (rs_held s1) = toolIds (rs_message s1)"
    by (auto simp: consume_def blockEvent_def startBlock_def Let_def toolIds_def hb_id_holdFirst
        split: Payload.splits Event.splits Block.splits option.splits if_splits)
qed (simp add: toolIds_def)

lemma streamLoop_reachable:
  assumes "streamLoop cfg sdk nxt st ctxErr s w = Some y" "stream_reachable cfg sdk nxt st s w" "rs_err s = None"
  shows "stream_reachable cfg sdk nxt st (settle (Inl (fst y)) (fst (snd y))) (snd (snd y))"
  using assms
proof (induction cfg sdk nxt st ctxErr s w y rule: streamLoop.raw_induct [rotated 1, consumes 1])
  case (1 sl cfg sdk nxt st ctxErr s w y)
  obtain x s2 w2 where x: "streamNext cfg sdk nxt st ctxErr s w = (x, s2, w2)" by (metis prod_cases3)
  have re: "stream_reachable cfg sdk nxt st (settle x s2) w2" by (rule stream_reachable.step [OF 1(3,4) x])
  have er: "rs_err s2 = None" using rs_err_streamNext [OF x] 1(4) by simp
  show ?case
  proof (cases x)
    case (Inl a)
    then show ?thesis using 1(2) x re by auto
  next
    case (Inr u)
    have "settle x s2 = s2" using Inr by (simp add: settle_def)
    then show ?thesis using 1(1) [of cfg sdk nxt st ctxErr s2 w2 y] 1(2) x Inr re er by simp
  qed
qed

lemma round_Next_reachable:
  assumes "round_Next cfg sdk nxt st ctxErr s w = Some (r, s1, w1)" "stream_reachable cfg sdk nxt st s w"
  shows "stream_reachable cfg sdk nxt st s1 w1"
proof (cases "rs_err s")
  case None
  obtain r' s' w' where y: "streamLoop cfg sdk nxt st ctxErr s w = Some (r', s', w')"
    "(r, s1, w1) = (r', (case r' of Inl e \<Rightarrow> if IsEOF e then s' else s'\<lparr>rs_err := Some e\<rparr> | Inr v \<Rightarrow> s'), w')"
    using assms(1) None by (auto simp: round_Next_def)
  have "s1 = settle (Inl r') s'" using y(2) by (simp add: settle_def split: sum.split)
  then show ?thesis using streamLoop_reachable [OF y(1) assms(2) None] y(2) by simp
qed (use assms in \<open>auto simp: round_Next_def\<close>)

section \<open>Properties of streamed answers\<close>

text \<open>
  C17 (invariant): whatever the rounds, the gate and the owner do, what the client of a stream has been sent is
  one well-formed message: its blocks are numbered from 0 without a gap although they come from several
  upstream messages and held blocks are left out, every delta and stop belongs to a block started before, the
  message starts at most once, and it is not stopped before the last round is over, after which a reader gets
  nothing but the end.
\<close>

theorem streamed_message_well_formed:
  assumes "stream_reachable cfg sdk nxt st s w"
  shows "check 0 (rs_sent s @ rs_queue s) = Some (rs_nextIndex s) \<and> startCount (rs_sent s @ rs_queue s) \<le> 1 \<and>
    (BetaEvent MessageStop \<in> set (rs_sent s @ rs_queue s) \<longrightarrow> rs_done s) \<and>
    (rs_done s \<and> rs_queue s = [] \<longrightarrow> streamNext cfg sdk nxt st ctxErr s w = (Inl (Inl EOF), s, w))"
  using stream_ok_reachable [OF assms] ended_stream [where s = s and cfg = cfg and sdk = sdk and nxt = nxt and st = st]
  by (auto simp: stream_ok_def written_def)

text \<open>A world that is what is left of one upstream round.\<close>

definition roundEndpoint :: "(Payload, unit, Payload list) Endpoint" where
  "roundEndpoint = \<lparr>ep_Protocol = ''anthropic_beta'', ep_Complete = (\<lambda>c w. (Inr None, w)),
     ep_Stream = (\<lambda>c w. (Inr (Some \<lparr>st_Next = (\<lambda>w. case w of [] \<Rightarrow> (Inl EOF, []) | v # vs \<Rightarrow> (Inr v, vs)),
        st_Close = (\<lambda>w. (None, w)), st_Result = (\<lambda>w. None)\<rparr>), w))\<rparr>"

definition textRound :: "Payload list" where
  "textRound = [BetaEvent (BlockStart 4 (TextBlock [])), BetaEvent (BlockDelta 4 (TextDelta ''hi'')), BetaEvent (BlockStop 4)]"

definition sampleSDK :: sdk where
  "sampleSDK = \<lparr>Accumulate = (\<lambda>evs ev. True), ToParam = (\<lambda>evs. ClientMessage [])\<rparr>"

definition clientConfig :: "Payload list ToolConfig" where
  "clientConfig = \<lparr>cfg_Owner = Some \<lparr>Owns = (\<lambda>n. n = ''search''), Execute = (\<lambda>c rq w. (\<lparr>tr_ToolUseID = [], tr_Body = []\<rparr>, w)),
       Resume = (\<lambda>rq w. (None, w)), Suspend = (\<lambda>turn rs w. w)\<rparr>, cfg_Gate = None, cfg_MaxRounds = 3\<rparr>"

definition firstState :: "Payload list roundStream" where
  "firstState = projr (fst (tool_Stream clientConfig roundEndpoint \<lparr>call_Request = BetaRequest (Some \<lparr>rq_Messages = [], rq_Rest = []\<rparr>), call_State = ()\<rparr> textRound))"

lemma firstState_start:
  "tool_Stream clientConfig roundEndpoint \<lparr>call_Request = BetaRequest (Some \<lparr>rq_Messages = [], rq_Rest = []\<rparr>), call_State = ()\<rparr> textRound =
     (Inr firstState, textRound)"
  by (simp add: firstState_def tool_Stream_def prepare_def clientConfig_def startRound_def roundEndpoint_def)

theorem streamed_message_well_formed_witness:
  "\<exists>s w. stream_reachable clientConfig sampleSDK roundEndpoint () s w \<and> rs_queue s = [BetaEvent (BlockStart 0 (TextBlock []))] \<and>
     check 0 (rs_sent s @ rs_queue s) = Some 1"
proof -
  obtain r s1 w1 where x: "streamNext clientConfig sampleSDK roundEndpoint () None firstState textRound = (r, s1, w1)"
    by (metis prod_cases3)
  have e: "rs_err firstState = None"
    by (simp add: firstState_def tool_Stream_def prepare_def clientConfig_def startRound_def roundEndpoint_def newStream_def)
  have "settle r s1 = s1 \<and> rs_queue s1 = [BetaEvent (BlockStart 0 (TextBlock []))] \<and> rs_nextIndex s1 = 1"
    using x by (auto simp: firstState_def tool_Stream_def prepare_def clientConfig_def startRound_def roundEndpoint_def newStream_def
        streamNext_def textRound_def consume_def sampleSDK_def startBlock_def emitAt_def emit_def setIndex_def settle_def Let_def)
  moreover have "stream_reachable clientConfig sampleSDK roundEndpoint () (settle r s1) w1"
    by (rule stream_reachable.step [OF stream_reachable.start [OF firstState_start] e x])
  ultimately show ?thesis using streamed_message_well_formed [of clientConfig sampleSDK roundEndpoint "()" s1 w1 None] by auto
qed


text \<open>A reader of events that takes one tool call in a message, and a round with a call of the client's own.\<close>

definition oneCallSDK :: sdk where
  "oneCallSDK = \<lparr>Accumulate = (\<lambda>evs ev. length (toolIds (evs @ [ev])) \<le> 1), ToParam = (\<lambda>evs. ClientMessage [])\<rparr>"

definition callRound :: "Payload list" where
  "callRound = [BetaEvent (BlockStart 7 (ToolUse ''t1'' ''lookup'' None)), BetaEvent MessageStop]"

lemma firstState_start_call:
  "tool_Stream clientConfig roundEndpoint \<lparr>call_Request = BetaRequest (Some \<lparr>rq_Messages = [], rq_Rest = []\<rparr>), call_State = ()\<rparr> callRound =
     (Inr firstState, callRound)"
  by (simp add: firstState_def tool_Stream_def prepare_def clientConfig_def startRound_def roundEndpoint_def)

lemma oneCall_distinct: "stream_reachable cfg oneCallSDK nxt st s w \<Longrightarrow> distinct (toolIds (rs_message s))"
proof -
  assume a: "stream_reachable cfg oneCallSDK nxt st s w"
  have "length (toolIds (rs_message s)) \<le> 1"
  proof (rule round_reachable [OF a, of "\<lambda>h m. length (toolIds m) \<le> 1"])
    fix v :: Payload and s s1 :: "'a roundStream"
    assume "length (toolIds (rs_message s)) \<le> 1" "consume oneCallSDK v s = Inr s1"
    then show "length (toolIds (rs_message s1)) \<le> 1"
      by (auto simp: consume_def blockEvent_def startBlock_def Let_def oneCallSDK_def
          split: Payload.splits Event.splits Block.splits option.splits if_splits)
  qed (simp add: toolIds_def)
  then show ?thesis by (cases "toolIds (rs_message s)" rule: remdups_adj.cases) auto
qed


section \<open>Findings\<close>

text \<open>A context that ends after tools were run gives an error that is not marked as committed.\<close>

lemma context_error_unmarked:
  assumes "rs_queue s = []" "\<not> rs_done s" "rs_committed s" "\<not> HasCommittedSideEffects e"
  shows "streamNext cfg sdk nxt st (Some e) s w = (Inl (Inl e), s, w) \<and> \<not> HasCommittedSideEffects e"
  using assms by (simp add: streamNext_def failWith_def)

end
