(* ===== verification/TB_Usage.thy ===== *)
theory TB_Usage
  imports TB_Stage
begin

text \<open>
  Token accounting: the canonical usage of a call (\<^verbatim>\<open>ai/protocol.go\<close>), its extraction from the usage of each
  protocol and back (\<^verbatim>\<open>internal/protocol/usage\<close>), the accumulator of a stream of Anthropic events and the counter of
  a stream of OpenAI chunks (\<^verbatim>\<open>internal/protocol/token/stream_counter.go\<close>).  A usage block is the numbers it
  decodes to, an absent one being 0; \<open>us_Valid\<close> is whether it was there at all.  The tokenizer is the argument \<open>enc\<close>.
\<close>

section \<open>Canonical usage\<close>

definition TotalTokens :: "TokenUsage \<Rightarrow> int" where "TotalTokens u = InputTokens u + OutputTokens u"

definition HasUsage :: "TokenUsage \<Rightarrow> bool" where
  "HasUsage u \<longleftrightarrow> InputTokens u > 0 \<or> OutputTokens u > 0 \<or> CacheReadTokens u > 0 \<or> SystemTokens u > 0"

definition HasCacheUsage :: "TokenUsage \<Rightarrow> bool" where "HasCacheUsage u \<longleftrightarrow> CacheReadTokens u > 0"

definition UncachedInputTokens :: "TokenUsage \<Rightarrow> int" where
  "UncachedInputTokens u =
     (if CacheWriteTokens u \<le> 0 then InputTokens u
      else if InputTokens u - CacheWriteTokens u > 0 then InputTokens u - CacheWriteTokens u
      else 0)"

definition PromptTotalTokens :: "TokenUsage \<Rightarrow> int" where "PromptTotalTokens u = InputTokens u + CacheReadTokens u"

definition NewTokenUsageFull :: "int \<Rightarrow> int \<Rightarrow> int \<Rightarrow> int \<Rightarrow> int \<Rightarrow> TokenUsage" where
  "NewTokenUsageFull i o' cr cw r = \<lparr>InputTokens = i, OutputTokens = o', CacheReadTokens = cr, CacheWriteTokens = cw,
     ReasoningTokens = r, SystemTokens = 0\<rparr>"

definition ZeroTokenUsage :: TokenUsage where "ZeroTokenUsage = NewTokenUsageFull 0 0 0 0 0"

section \<open>The usage of each protocol\<close>

record chatUsage =
  us_Valid :: bool
  us_PromptTokens :: int
  us_CompletionTokens :: int
  us_TotalTokens :: int
  us_CachedTokens :: int
  us_CacheWriteTokens :: int
  us_ReasoningTokens :: int

text \<open>The usage of the Responses protocol has the same numbers under other names.\<close>

type_synonym responseUsage = chatUsage

record anthropicUsage =
  au_InputTokens :: int
  au_OutputTokens :: int
  au_CacheReadInputTokens :: int
  au_CacheCreationInputTokens :: int
  au_ThinkingTokens :: int

definition FromOpenAIChatCompletion :: "chatUsage \<Rightarrow> TokenUsage" where
  "FromOpenAIChatCompletion u =
     NewTokenUsageFull (us_PromptTokens u - us_CachedTokens u) (us_CompletionTokens u) (us_CachedTokens u)
       (us_CacheWriteTokens u) (us_ReasoningTokens u)"

definition FromOpenAIResponses :: "responseUsage \<Rightarrow> TokenUsage" where
  "FromOpenAIResponses u =
     NewTokenUsageFull (us_PromptTokens u - us_CachedTokens u) (us_CompletionTokens u) (us_CachedTokens u)
       (us_CacheWriteTokens u) (us_ReasoningTokens u)"

definition FromAnthropicMessage :: "anthropicUsage \<Rightarrow> TokenUsage" where
  "FromAnthropicMessage u =
     NewTokenUsageFull (au_InputTokens u + au_CacheCreationInputTokens u) (au_OutputTokens u) (au_CacheReadInputTokens u)
       (au_CacheCreationInputTokens u) (au_ThinkingTokens u)"

text \<open>What is written: optional numbers are left out when there is nothing to report.\<close>

record chatUsageWire =
  cw_PromptTokens :: int
  cw_CompletionTokens :: int
  cw_TotalTokens :: int
  cw_PromptTokensDetails :: "(int \<times> int) option"
  cw_CompletionTokensDetails :: "int option"

definition ToChatStreamUsageWire :: "TokenUsage \<Rightarrow> chatUsageWire" where
  "ToChatStreamUsageWire u =
     \<lparr>cw_PromptTokens = PromptTotalTokens u, cw_CompletionTokens = OutputTokens u,
      cw_TotalTokens = PromptTotalTokens u + OutputTokens u,
      cw_PromptTokensDetails =
        (if CacheReadTokens u > 0 \<or> CacheWriteTokens u > 0 then Some (CacheReadTokens u, CacheWriteTokens u) else None),
      cw_CompletionTokensDetails = (if ReasoningTokens u > 0 then Some (ReasoningTokens u) else None)\<rparr>"

definition ToChatUsageWire :: "TokenUsage option \<Rightarrow> chatUsageWire" where
  "ToChatUsageWire u =
     (case u of
        None \<Rightarrow> \<lparr>cw_PromptTokens = 0, cw_CompletionTokens = 0, cw_TotalTokens = 0, cw_PromptTokensDetails = None,
          cw_CompletionTokensDetails = None\<rparr>
      | Some v \<Rightarrow> ToChatStreamUsageWire v)"

record responsesUsageWire =
  rw_InputTokens :: int
  rw_OutputTokens :: int
  rw_TotalTokens :: int
  rw_CachedTokens :: int
  rw_CacheWriteTokens :: int
  rw_ReasoningTokens :: int

definition ToResponsesUsageWire :: "TokenUsage \<Rightarrow> responsesUsageWire" where
  "ToResponsesUsageWire u =
     \<lparr>rw_InputTokens = PromptTotalTokens u, rw_OutputTokens = OutputTokens u,
      rw_TotalTokens = PromptTotalTokens u + OutputTokens u, rw_CachedTokens = CacheReadTokens u,
      rw_CacheWriteTokens = CacheWriteTokens u, rw_ReasoningTokens = ReasoningTokens u\<rparr>"

record anthropicUsageMap =
  am_input_tokens :: int
  am_output_tokens :: int
  am_cache_read_input_tokens :: "int option"
  am_cache_creation_input_tokens :: "int option"
  am_thinking_tokens :: "int option"

definition ToAnthropicUsageMap :: "TokenUsage \<Rightarrow> anthropicUsageMap" where
  "ToAnthropicUsageMap u =
     \<lparr>am_input_tokens = UncachedInputTokens u, am_output_tokens = OutputTokens u,
      am_cache_read_input_tokens = (if CacheReadTokens u > 0 then Some (CacheReadTokens u) else None),
      am_cache_creation_input_tokens = (if CacheWriteTokens u > 0 then Some (CacheWriteTokens u) else None),
      am_thinking_tokens = (if ReasoningTokens u > 0 then Some (ReasoningTokens u) else None)\<rparr>"

definition ChatUsage :: "TokenUsage \<Rightarrow> chatUsage" where
  "ChatUsage u =
     \<lparr>us_Valid = False, us_PromptTokens = InputTokens u + CacheReadTokens u, us_CompletionTokens = OutputTokens u,
      us_TotalTokens = InputTokens u + CacheReadTokens u + OutputTokens u,
      us_CachedTokens = (if CacheReadTokens u > 0 then CacheReadTokens u else 0),
      us_CacheWriteTokens = (if CacheWriteTokens u > 0 then CacheWriteTokens u else 0),
      us_ReasoningTokens = (if ReasoningTokens u > 0 then ReasoningTokens u else 0)\<rparr>"

section \<open>Usage of an Anthropic stream\<close>

text \<open>
  The usage one event carries: of its message, of its own, and of both as read from the raw text.  \<open>ue_Mentions\<close>
  is whether the raw text has the word at all.
\<close>

record usageEvent =
  ue_Type :: string
  ue_Mentions :: bool
  ue_Message :: anthropicUsage
  ue_Delta :: anthropicUsage
  ue_MessageRaw :: anthropicUsage
  ue_DeltaRaw :: anthropicUsage

record AnthropicAccumulator =
  ac_usage :: TokenUsage
  ac_hasUsage :: bool

definition NewAnthropicAccumulator :: AnthropicAccumulator where
  "NewAnthropicAccumulator = \<lparr>ac_usage = ZeroTokenUsage, ac_hasUsage = False\<rparr>"

text \<open>The first positive number, which is how each count of an event is chosen.\<close>

fun firstPositive :: "int list \<Rightarrow> int option" where
  "firstPositive [] = None"
| "firstPositive (n # ns) = (if n > 0 then Some n else firstPositive ns)"

definition noteTokens :: "(int \<Rightarrow> TokenUsage \<Rightarrow> TokenUsage) \<Rightarrow> int list \<Rightarrow> AnthropicAccumulator \<Rightarrow> AnthropicAccumulator" where
  "noteTokens set' ns a =
     (case firstPositive ns of None \<Rightarrow> a | Some n \<Rightarrow> a\<lparr>ac_usage := set' n (ac_usage a), ac_hasUsage := True\<rparr>)"

definition consumeRaw :: "anthropicUsage \<Rightarrow> anthropicUsage \<Rightarrow> anthropicUsage \<Rightarrow> anthropicUsage \<Rightarrow> AnthropicAccumulator \<Rightarrow> AnthropicAccumulator" where
  "consumeRaw msg msgRaw dl dlRaw a =
     (let a1 = noteTokens (\<lambda>n u. u\<lparr>InputTokens := n\<rparr>)
            [au_InputTokens msg, au_InputTokens msgRaw, au_InputTokens dl, au_InputTokens dlRaw] a;
          a2 = noteTokens (\<lambda>n u. u\<lparr>OutputTokens := n\<rparr>) [au_OutputTokens dl, au_OutputTokens dlRaw] a1;
          a3 = noteTokens (\<lambda>n u. u\<lparr>CacheReadTokens := n\<rparr>)
            [au_CacheReadInputTokens msg, au_CacheReadInputTokens dl, au_CacheReadInputTokens msgRaw, au_CacheReadInputTokens dlRaw] a2;
          a4 = (case firstPositive [au_CacheCreationInputTokens msg, au_CacheCreationInputTokens dl] of
                  None \<Rightarrow> a3
                | Some n \<Rightarrow> a3\<lparr>ac_usage := (ac_usage a3)\<lparr>CacheWriteTokens := n, InputTokens := InputTokens (ac_usage a3) + n\<rparr>\<rparr>)
      in noteTokens (\<lambda>n u. u\<lparr>ReasoningTokens := n\<rparr>) [au_ThinkingTokens dl, au_ThinkingTokens dlRaw] a4)"

definition noUsage :: anthropicUsage where
  "noUsage = \<lparr>au_InputTokens = 0, au_OutputTokens = 0, au_CacheReadInputTokens = 0, au_CacheCreationInputTokens = 0, au_ThinkingTokens = 0\<rparr>"

definition Consume :: "usageEvent \<Rightarrow> AnthropicAccumulator \<Rightarrow> AnthropicAccumulator" where
  "Consume evt a =
     (if ue_Type evt \<noteq> ''message_start'' \<and> ue_Type evt \<noteq> ''message_delta'' \<and> \<not> ue_Mentions evt then a
      else consumeRaw (ue_Message evt) (ue_MessageRaw evt) (ue_Delta evt) (ue_DeltaRaw evt) a)"

definition ConsumeBeta :: "usageEvent \<Rightarrow> AnthropicAccumulator \<Rightarrow> AnthropicAccumulator" where
  "ConsumeBeta evt a = consumeRaw (ue_Message evt) noUsage (ue_Delta evt) noUsage a"

section \<open>The counter of a stream of chunks\<close>

record toolDelta =
  td_Index :: int
  td_ID :: string
  td_Name :: string
  td_Arguments :: string

text \<open>A decoded JSON value that is a string, null, or another one with the text \<^verbatim>\<open>%v\<close> gives it.\<close>

datatype xvalue = XNil | XStr string | XOther string

text \<open>\<open>dl_Raw\<close> are the fields of the raw delta, if it is an object.\<close>

record chatDelta =
  dl_Raw :: "(string \<times> xvalue) list option"
  dl_Refusal :: string
  dl_Content :: string
  dl_ToolCalls :: "toolDelta list"
  dl_FunctionName :: string
  dl_FunctionArguments :: string

record chatChoice =
  ch_Delta :: chatDelta
  ch_FinishReason :: string

record chatChunk =
  ck_Choices :: "chatChoice list"
  ck_Usage :: chatUsage

record StreamTokenCounter =
  sc_inputTokens :: int
  sc_outputTokens :: int
  sc_pendingOutput :: string
  sc_upstreamInputTokens :: int
  sc_upstreamOutputTokens :: int
  sc_upstreamCacheTokens :: int
  sc_upstreamCacheWriteTokens :: int
  sc_upstreamReasoning :: int

definition NewStreamTokenCounter :: StreamTokenCounter where
  "NewStreamTokenCounter = \<lparr>sc_inputTokens = 0, sc_outputTokens = 0, sc_pendingOutput = [], sc_upstreamInputTokens = 0,
     sc_upstreamOutputTokens = 0, sc_upstreamCacheTokens = 0, sc_upstreamCacheWriteTokens = 0, sc_upstreamReasoning = 0\<rparr>"

definition countTokens :: "(string \<Rightarrow> int option) \<Rightarrow> string \<Rightarrow> int" where
  "countTokens enc text =
     (if text = [] then 0 else (case enc text of Some n \<Rightarrow> n | None \<Rightarrow> int (length text div 4)))"

definition flushPending :: "(string \<Rightarrow> int option) \<Rightarrow> StreamTokenCounter \<Rightarrow> StreamTokenCounter" where
  "flushPending enc c =
     (if sc_pendingOutput c = [] then c
      else
        (if sc_upstreamOutputTokens c = 0
         then c\<lparr>sc_outputTokens := sc_outputTokens c + countTokens enc (sc_pendingOutput c), sc_pendingOutput := []\<rparr>
         else c\<lparr>sc_pendingOutput := []\<rparr>))"

definition deltaText :: "chatDelta \<Rightarrow> string" where
  "deltaText d = dl_Content d @ dl_Refusal d @ concat (map (\<lambda>t. td_ID t @ td_Name t @ td_Arguments t) (dl_ToolCalls d)) @
     dl_FunctionName d @ dl_FunctionArguments d"

definition positiveOr :: "int \<Rightarrow> int \<Rightarrow> int" where "positiveOr n old = (if n > 0 then n else old)"

definition ConsumeOpenAIChunk :: "chatChunk \<Rightarrow> StreamTokenCounter \<Rightarrow> StreamTokenCounter" where
  "ConsumeOpenAIChunk k c =
     (let u = ck_Usage k in
      if us_Valid u \<or> us_PromptTokens u > 0 \<or> us_CompletionTokens u > 0 then
        (let c1 = c\<lparr>sc_inputTokens := positiveOr (us_PromptTokens u) (sc_inputTokens c),
              sc_outputTokens := positiveOr (us_CompletionTokens u) (sc_outputTokens c),
              sc_upstreamInputTokens := positiveOr (us_PromptTokens u) (sc_upstreamInputTokens c),
              sc_upstreamOutputTokens := positiveOr (us_CompletionTokens u) (sc_upstreamOutputTokens c),
              sc_upstreamCacheTokens := positiveOr (us_CachedTokens u) (sc_upstreamCacheTokens c),
              sc_upstreamCacheWriteTokens := positiveOr (us_CacheWriteTokens u) (sc_upstreamCacheWriteTokens c),
              sc_upstreamReasoning := positiveOr (us_ReasoningTokens u) (sc_upstreamReasoning c)\<rparr>
         in if sc_upstreamOutputTokens c1 > 0 then c1\<lparr>sc_pendingOutput := []\<rparr> else c1)
      else if sc_upstreamOutputTokens c > 0 then c
      else c\<lparr>sc_pendingOutput := sc_pendingOutput c @ concat (map (deltaText \<circ> ch_Delta) (ck_Choices k))\<rparr>)"

definition GetCounts :: "(string \<Rightarrow> int option) \<Rightarrow> StreamTokenCounter \<Rightarrow> (int \<times> int) \<times> StreamTokenCounter" where
  "GetCounts enc c =
     (let c1 = flushPending enc c in
      ((if sc_upstreamInputTokens c1 > 0 then sc_upstreamInputTokens c1 - sc_upstreamCacheTokens c1 else sc_inputTokens c1,
        if sc_upstreamOutputTokens c1 > 0 then sc_upstreamOutputTokens c1 else sc_outputTokens c1), c1))"

definition GetUpstreamDetails :: "StreamTokenCounter \<Rightarrow> int \<times> int \<times> int" where
  "GetUpstreamDetails c = (sc_upstreamCacheTokens c, sc_upstreamCacheWriteTokens c, sc_upstreamReasoning c)"

definition SetInputTokens :: "int \<Rightarrow> StreamTokenCounter \<Rightarrow> StreamTokenCounter" where
  "SetInputTokens n c = c\<lparr>sc_inputTokens := n\<rparr>"

definition SetOutputTokens :: "int \<Rightarrow> StreamTokenCounter \<Rightarrow> StreamTokenCounter" where
  "SetOutputTokens n c = c\<lparr>sc_pendingOutput := [], sc_outputTokens := n\<rparr>"

definition AddToOutputTokens :: "int \<Rightarrow> StreamTokenCounter \<Rightarrow> StreamTokenCounter" where
  "AddToOutputTokens n c = c\<lparr>sc_outputTokens := sc_outputTokens c + n\<rparr>"

definition AddInputTokens :: "int \<Rightarrow> StreamTokenCounter \<Rightarrow> StreamTokenCounter" where
  "AddInputTokens n c = c\<lparr>sc_inputTokens := sc_inputTokens c + n\<rparr>"

definition Counter_Reset :: "StreamTokenCounter \<Rightarrow> StreamTokenCounter" where
  "Counter_Reset c = c\<lparr>sc_inputTokens := 0, sc_outputTokens := 0, sc_pendingOutput := []\<rparr>"

definition Counter_TotalTokens :: "(string \<Rightarrow> int option) \<Rightarrow> StreamTokenCounter \<Rightarrow> int \<times> StreamTokenCounter" where
  "Counter_TotalTokens enc c = (let c1 = flushPending enc c in (sc_inputTokens c1 + sc_outputTokens c1, c1))"

definition Counter_InputTokens :: "StreamTokenCounter \<Rightarrow> int" where "Counter_InputTokens c = sc_inputTokens c"

definition Counter_OutputTokens :: "(string \<Rightarrow> int option) \<Rightarrow> StreamTokenCounter \<Rightarrow> int \<times> StreamTokenCounter" where
  "Counter_OutputTokens enc c = (let c1 = flushPending enc c in (sc_outputTokens c1, c1))"

section \<open>Reading what was written\<close>

text \<open>How the other end decodes a usage block: what was left out is 0.\<close>

definition readChatUsage :: "chatUsageWire \<Rightarrow> chatUsage" where
  "readChatUsage w =
     \<lparr>us_Valid = True, us_PromptTokens = cw_PromptTokens w, us_CompletionTokens = cw_CompletionTokens w,
      us_TotalTokens = cw_TotalTokens w,
      us_CachedTokens = (case cw_PromptTokensDetails w of Some (c, x) \<Rightarrow> c | None \<Rightarrow> 0),
      us_CacheWriteTokens = (case cw_PromptTokensDetails w of Some (c, x) \<Rightarrow> x | None \<Rightarrow> 0),
      us_ReasoningTokens = (case cw_CompletionTokensDetails w of Some r \<Rightarrow> r | None \<Rightarrow> 0)\<rparr>"

definition readResponsesUsage :: "responsesUsageWire \<Rightarrow> responseUsage" where
  "readResponsesUsage w =
     \<lparr>us_Valid = True, us_PromptTokens = rw_InputTokens w, us_CompletionTokens = rw_OutputTokens w, us_TotalTokens = rw_TotalTokens w,
      us_CachedTokens = rw_CachedTokens w, us_CacheWriteTokens = rw_CacheWriteTokens w, us_ReasoningTokens = rw_ReasoningTokens w\<rparr>"

definition orZero :: "int option \<Rightarrow> int" where "orZero x = (case x of Some n \<Rightarrow> n | None \<Rightarrow> 0)"

definition readAnthropicUsage :: "anthropicUsageMap \<Rightarrow> anthropicUsage" where
  "readAnthropicUsage m =
     \<lparr>au_InputTokens = am_input_tokens m, au_OutputTokens = am_output_tokens m,
      au_CacheReadInputTokens = orZero (am_cache_read_input_tokens m),
      au_CacheCreationInputTokens = orZero (am_cache_creation_input_tokens m), au_ThinkingTokens = orZero (am_thinking_tokens m)\<rparr>"

definition counted :: "TokenUsage \<Rightarrow> bool" where
  "counted u \<longleftrightarrow> 0 \<le> InputTokens u \<and> 0 \<le> OutputTokens u \<and> 0 \<le> CacheReadTokens u \<and> 0 \<le> CacheWriteTokens u \<and>
     0 \<le> ReasoningTokens u \<and> SystemTokens u = 0"



section \<open>What the counter reports\<close>

definition carriesUsage :: "chatChunk \<Rightarrow> bool" where
  "carriesUsage k \<longleftrightarrow> us_Valid (ck_Usage k) \<or> us_PromptTokens (ck_Usage k) > 0 \<or> us_CompletionTokens (ck_Usage k) > 0"

text \<open>The last positive number the upstream reported, 0 if it never did.\<close>

definition reported :: "(chatUsage \<Rightarrow> int) \<Rightarrow> chatChunk list \<Rightarrow> int" where
  "reported f ks =
     (case rev (filter (\<lambda>k. carriesUsage k \<and> f (ck_Usage k) > 0) ks) of [] \<Rightarrow> 0 | k # _ \<Rightarrow> f (ck_Usage k))"

definition streamedText :: "chatChunk list \<Rightarrow> string" where
  "streamedText ks = concat (map (\<lambda>k. concat (map (deltaText \<circ> ch_Delta) (ck_Choices k))) (filter (\<lambda>k. \<not> carriesUsage k) ks))"

lemma reported_snoc:
  "reported f (ks @ [k]) = (if carriesUsage k then positiveOr (f (ck_Usage k)) (reported f ks) else reported f ks)"
  by (simp add: reported_def positiveOr_def)

lemma reported_nonneg: "0 \<le> reported f ks"
  by (induction ks rule: rev_induct) (simp_all add: reported_snoc positiveOr_def, simp add: reported_def)

definition countAll :: "int \<Rightarrow> chatChunk list \<Rightarrow> StreamTokenCounter" where
  "countAll est ks = fold ConsumeOpenAIChunk ks (SetInputTokens est NewStreamTokenCounter)"

lemma streamedText_snoc:
  "streamedText (ks @ [k]) = streamedText ks @ (if carriesUsage k then [] else concat (map (deltaText \<circ> ch_Delta) (ck_Choices k)))"
  by (simp add: streamedText_def)

lemma countAll_snoc: "countAll est (ks @ [k]) = ConsumeOpenAIChunk k (countAll est ks)"
  by (simp add: countAll_def)

lemma countAll_upstream:
  "sc_upstreamInputTokens (countAll est ks) = reported us_PromptTokens ks \<and>
   sc_upstreamOutputTokens (countAll est ks) = reported us_CompletionTokens ks \<and>
   sc_upstreamCacheTokens (countAll est ks) = reported us_CachedTokens ks \<and>
   sc_upstreamCacheWriteTokens (countAll est ks) = reported us_CacheWriteTokens ks \<and>
   sc_upstreamReasoning (countAll est ks) = reported us_ReasoningTokens ks \<and>
   sc_inputTokens (countAll est ks) = positiveOr (reported us_PromptTokens ks) est"
proof (induction ks rule: rev_induct)
  case Nil
  show ?case by (simp add: countAll_def reported_def SetInputTokens_def NewStreamTokenCounter_def positiveOr_def)
next
  case (snoc k ks)
  show ?case
  proof (cases "carriesUsage k")
    case True
    then have "us_Valid (ck_Usage k) \<or> us_PromptTokens (ck_Usage k) > 0 \<or> us_CompletionTokens (ck_Usage k) > 0" by (simp add: carriesUsage_def)
    then show ?thesis using snoc True reported_nonneg [of us_PromptTokens ks]
      by (simp add: countAll_snoc reported_snoc ConsumeOpenAIChunk_def Let_def) (simp add: positiveOr_def)
  next
    case False
    then show ?thesis using snoc by (simp add: countAll_snoc reported_snoc ConsumeOpenAIChunk_def carriesUsage_def Let_def)
  qed
qed

lemmas countAll_fields = countAll_upstream [THEN conjunct1] countAll_upstream [THEN conjunct2, THEN conjunct1]
  countAll_upstream [THEN conjunct2, THEN conjunct2, THEN conjunct1]
  countAll_upstream [THEN conjunct2, THEN conjunct2, THEN conjunct2, THEN conjunct1]
  countAll_upstream [THEN conjunct2, THEN conjunct2, THEN conjunct2, THEN conjunct2, THEN conjunct1]
  countAll_upstream [THEN conjunct2, THEN conjunct2, THEN conjunct2, THEN conjunct2, THEN conjunct2]

lemma countAll_text:
  "reported us_CompletionTokens ks = 0 \<Longrightarrow> sc_pendingOutput (countAll est ks) = streamedText ks \<and> sc_outputTokens (countAll est ks) = 0"
proof (induction ks rule: rev_induct)
  case Nil
  show ?case by (simp add: countAll_def streamedText_def SetInputTokens_def NewStreamTokenCounter_def)
next
  case (snoc k ks)
  have z: "reported us_CompletionTokens ks = 0" "carriesUsage k \<Longrightarrow> us_CompletionTokens (ck_Usage k) \<le> 0"
    using snoc.prems reported_nonneg [of us_CompletionTokens ks] by (auto simp: reported_snoc positiveOr_def split: if_splits)
  have ih: "sc_pendingOutput (countAll est ks) = streamedText ks" "sc_outputTokens (countAll est ks) = 0"
    "sc_upstreamOutputTokens (countAll est ks) = 0" using snoc.IH z(1) countAll_fields(2) by simp_all
  show ?case
  proof (cases "carriesUsage k")
    case True
    then have "us_Valid (ck_Usage k) \<or> us_PromptTokens (ck_Usage k) > 0 \<or> us_CompletionTokens (ck_Usage k) > 0" by (simp add: carriesUsage_def)
    then show ?thesis using ih z(2) True by (simp add: countAll_snoc streamedText_snoc ConsumeOpenAIChunk_def Let_def positiveOr_def)
  next
    case False
    then show ?thesis using ih by (simp add: countAll_snoc streamedText_snoc ConsumeOpenAIChunk_def carriesUsage_def Let_def)
  qed
qed

text \<open>
  What a stream is billed for.  However the upstream spreads its usage over the chunks, the
  counter reports the last prompt count it gave less the last cache reads, and the last completion count; what it
  never gave is the request's estimate, and for the output the tokenizer's count of all the text the chunks
  without a usage block carried.  The tokenizer has no influence once the upstream has counted.
\<close>

theorem counter_reports_upstream:
  "fst (GetCounts enc (countAll est ks)) =
     (if reported us_PromptTokens ks > 0 then reported us_PromptTokens ks - reported us_CachedTokens ks else est,
      if reported us_CompletionTokens ks > 0 then reported us_CompletionTokens ks else countTokens enc (streamedText ks))"
  using countAll_text [of ks est] reported_nonneg [of us_CompletionTokens ks]
  by (auto simp: GetCounts_def flushPending_def countAll_fields countTokens_def positiveOr_def Let_def)

section \<open>Findings\<close>

text \<open>
  An Anthropic upstream repeats its cumulative usage in the last event.  When the whole prompt went to the cache it has no
  uncached input, so nothing resets the input, and the tokens written to the cache are added a second time.
\<close>

lemma cache_write_counted_twice:
  "let w = noUsage\<lparr>au_CacheCreationInputTokens := 100\<rparr>;
       e = \<lparr>ue_Type = [], ue_Mentions = True, ue_Message = noUsage, ue_Delta = noUsage, ue_MessageRaw = noUsage, ue_DeltaRaw = noUsage\<rparr>;
       r = ac_usage (ConsumeBeta (e\<lparr>ue_Delta := w\<lparr>au_OutputTokens := 7\<rparr>\<rparr>) (ConsumeBeta (e\<lparr>ue_Message := w\<rparr>) NewAnthropicAccumulator))
   in CacheWriteTokens r = 100 \<and> InputTokens r = 200"
  by (simp add: ConsumeBeta_def consumeRaw_def noteTokens_def noUsage_def NewAnthropicAccumulator_def ZeroTokenUsage_def NewTokenUsageFull_def Let_def)

text \<open>Resetting the counter keeps what the upstream reported, so it does not report zero.\<close>

lemma reset_keeps_upstream:
  "sc_upstreamOutputTokens c > 0 \<Longrightarrow> snd (fst (GetCounts enc (Counter_Reset c))) = sc_upstreamOutputTokens c"
  by (simp add: GetCounts_def Counter_Reset_def flushPending_def Let_def)

end
