(* ===== verification/TB_ChatStream.thy ===== *)
theory TB_ChatStream
  imports TB_Usage "HOL-Library.AList"
begin

text \<open>
  Streamed answers of an OpenAI Chat provider to an Anthropic client
  (\<^verbatim>\<open>internal/protocol/stream/openai_to_anthropic_converter.go\<close>, with the parts of \<^verbatim>\<open>openai_helper.go\<close>, \<^verbatim>\<open>sse_helper.go\<close> and
  \<^verbatim>\<open>anthropic_wire_events.go\<close> it uses).  The upstream is the list of the chunks it will still deliver and the error
  it ends with, if any.  \<open>cv_sent\<close> logs the events the caller has read and only serves to state properties.
\<close>

section \<open>Wire events\<close>

datatype wireBlock = WText | WThinking | WToolUse string string

datatype wireDelta = WTextDelta string | WThinkingDelta string | WInputJSONDelta string | WSignatureDelta string

text \<open>
  \<open>WMessageStart\<close> has the identifier, the model and the estimated input, \<open>WMessageDelta\<close> the stop reason, the
  provider's extra fields and the usage.
\<close>

datatype wireEvent = WMessageStart string string int | WBlockStart int wireBlock | WBlockDelta int wireDelta | WBlockStop int |
  WMessageDelta string "(string \<times> xvalue) list" anthropicUsageMap | WMessageStop | WError

section \<open>The state\<close>

record pendingToolCall =
  pt_id :: string
  pt_name :: string
  pt_input :: string
  pt_emit :: bool

record streamState =
  ss_textBlockIndex :: int
  ss_thinkingBlockIndex :: int
  ss_refusalBlockIndex :: int
  ss_reasoningSummaryBlockIndex :: int
  ss_hasTextContent :: bool
  ss_nextBlockIndex :: int
  ss_pendingToolCalls :: "(int \<times> pendingToolCall) list"
  ss_toolIndexToBlockIndex :: "(int \<times> int) list"
  ss_deltaExtras :: "(string \<times> xvalue) list"
  ss_stoppedBlocks :: "int set"
  ss_thinkingBlocks :: "int set"

definition newStreamState :: streamState where
  "newStreamState = \<lparr>ss_textBlockIndex = -1, ss_thinkingBlockIndex = -1, ss_refusalBlockIndex = -1,
     ss_reasoningSummaryBlockIndex = -1, ss_hasTextContent = False, ss_nextBlockIndex = 0, ss_pendingToolCalls = [],
     ss_toolIndexToBlockIndex = [], ss_deltaExtras = [], ss_stoppedBlocks = {}, ss_thinkingBlocks = {}\<rparr>"

datatype hook_error = ErrMCPStreamContinue | HookError string

record chatToolCall =
  ct_ID :: string
  ct_Name :: string
  ct_Arguments :: string

record MCPHooks =
  ShouldSuppressTool :: "(string \<Rightarrow> bool) option"
  OnToolCallsFinal :: "(chatToolCall list \<Rightarrow> hook_error option) option"

text \<open>
  What does not change: \<open>cc_Estimate\<close> is the estimated input, \<open>cc_Signature\<close> the random placeholder of the n-th signature,
  \<open>cc_Encoder\<close> the tokenizer and \<open>cc_StreamErr\<close> the error of the upstream once its chunks are read.
\<close>

record convConfig =
  cc_ResponseModel :: string
  cc_MessageID :: string
  cc_Estimate :: int
  cc_Hooks :: "MCPHooks option"
  cc_MapFinishReason :: "string \<Rightarrow> string"
  cc_Signature :: "nat \<Rightarrow> string"
  cc_Encoder :: "string \<Rightarrow> int option"
  cc_StreamErr :: "string option"

record converter =
  cv_upstream :: "chatChunk list"
  cv_estimatedInputTokens :: int
  cv_messageStarted :: bool
  cv_tokenCounter :: "StreamTokenCounter option"
  cv_state :: streamState
  cv_usage :: TokenUsage
  cv_pendingFinishReason :: string
  cv_finishSeen :: bool
  cv_hookErr :: "hook_error option"
  cv_done :: bool
  cv_pending :: "wireEvent list"
  cv_signatures :: nat
  cv_sent :: "wireEvent list"

text \<open>\<open>counter\<close> is whether the tokenizer was found, \<open>hasReq\<close> whether the request is there to be estimated.\<close>

definition newConverter :: "convConfig \<Rightarrow> bool \<Rightarrow> bool \<Rightarrow> chatChunk list \<Rightarrow> converter" where
  "newConverter cfg counter hasReq chunks =
     \<lparr>cv_upstream = chunks, cv_estimatedInputTokens = (if counter \<and> hasReq then cc_Estimate cfg else 0), cv_messageStarted = False,
      cv_tokenCounter = (if counter then Some (if hasReq then SetInputTokens (cc_Estimate cfg) NewStreamTokenCounter else NewStreamTokenCounter)
                         else None),
      cv_state = newStreamState, cv_usage = ZeroTokenUsage, cv_pendingFinishReason = [], cv_finishSeen = False, cv_hookErr = None,
      cv_done = False, cv_pending = [], cv_signatures = 0, cv_sent = []\<rparr>"

section \<open>Helpers\<close>

definition extractString :: "xvalue \<Rightarrow> string" where
  "extractString v = (case v of XNil \<Rightarrow> [] | XStr s \<Rightarrow> s | XOther t \<Rightarrow> t)"

definition FilterOpenAIProtocolFields :: "(string \<times> xvalue) list \<Rightarrow> (string \<times> xvalue) list" where
  "FilterOpenAIProtocolFields extras = filter (\<lambda>(k, v). k \<notin> {''content'', ''role'', ''tool_calls'', ''refusal''}) extras"

definition truncateToolCallID :: "string \<Rightarrow> string" where
  "truncateToolCallID i = (if length i \<le> 40 then i else take 40 i)"

definition mapOpenAIFinishReasonToAnthropic :: "string \<Rightarrow> string" where
  "mapOpenAIFinishReasonToAnthropic r =
     (if r = ''stop'' then ''end_turn'' else if r = ''length'' then ''max_tokens'' else if r = ''tool_calls'' then ''tool_use''
      else ''end_turn'')"

definition mapOpenAIFinishReasonToAnthropicBeta :: "string \<Rightarrow> string" where
  "mapOpenAIFinishReasonToAnthropicBeta r =
     (if r = ''stop'' then ''end_turn'' else if r = ''length'' then ''max_tokens''
      else if r = ''tool_calls'' \<or> r = ''function_call'' then ''tool_use'' else ''end_turn'')"

section \<open>Emitting\<close>

abbreviation onState :: "(streamState \<Rightarrow> streamState) \<Rightarrow> converter \<Rightarrow> converter" where
  "onState f c \<equiv> c\<lparr>cv_state := f (cv_state c)\<rparr>"

definition emitAnthropic :: "wireEvent \<Rightarrow> converter \<Rightarrow> converter" where
  "emitAnthropic e c = c\<lparr>cv_pending := cv_pending c @ [e]\<rparr>"

definition emitEnsureMessageStart :: "convConfig \<Rightarrow> converter \<Rightarrow> converter" where
  "emitEnsureMessageStart cfg c =
     (if cv_messageStarted c then c
      else (emitAnthropic (WMessageStart (cc_MessageID cfg) (cc_ResponseModel cfg) (cv_estimatedInputTokens c)) c)\<lparr>cv_messageStarted := True\<rparr>)"

definition emitContentBlockStart :: "int \<Rightarrow> wireBlock \<Rightarrow> converter \<Rightarrow> converter" where
  "emitContentBlockStart i b = emitAnthropic (WBlockStart i b)"

definition emitContentBlockDelta :: "int \<Rightarrow> wireDelta \<Rightarrow> converter \<Rightarrow> converter" where
  "emitContentBlockDelta i d = emitAnthropic (WBlockDelta i d)"

definition emitContentBlockStop :: "int \<Rightarrow> converter \<Rightarrow> converter" where
  "emitContentBlockStop i c = onState (\<lambda>s. s\<lparr>ss_stoppedBlocks := insert i (ss_stoppedBlocks s)\<rparr>) (emitAnthropic (WBlockStop i) c)"

definition emitThinkingSignature :: "convConfig \<Rightarrow> int \<Rightarrow> converter \<Rightarrow> converter" where
  "emitThinkingSignature cfg i c =
     (emitContentBlockDelta i (WSignatureDelta (cc_Signature cfg (cv_signatures c))) c)\<lparr>cv_signatures := Suc (cv_signatures c)\<rparr>"

definition isOpen :: "int \<Rightarrow> converter \<Rightarrow> bool" where
  "isOpen i c \<longleftrightarrow> i \<noteq> -1 \<and> i \<notin> ss_stoppedBlocks (cv_state c)"

definition emitCloseOpenBlock :: "convConfig \<Rightarrow> converter \<Rightarrow> converter" where
  "emitCloseOpenBlock cfg c =
     (let s = cv_state c in
      if isOpen (ss_thinkingBlockIndex s) c then
        onState (\<lambda>s. s\<lparr>ss_thinkingBlockIndex := -1\<rparr>)
          (emitContentBlockStop (ss_thinkingBlockIndex s) (emitThinkingSignature cfg (ss_thinkingBlockIndex s) c))
      else if isOpen (ss_reasoningSummaryBlockIndex s) c then
        onState (\<lambda>s. s\<lparr>ss_reasoningSummaryBlockIndex := -1\<rparr>)
          (emitContentBlockStop (ss_reasoningSummaryBlockIndex s) (emitThinkingSignature cfg (ss_reasoningSummaryBlockIndex s) c))
      else if isOpen (ss_refusalBlockIndex s) c then
        onState (\<lambda>s. s\<lparr>ss_refusalBlockIndex := -1\<rparr>) (emitContentBlockStop (ss_refusalBlockIndex s) c)
      else if isOpen (ss_textBlockIndex s) c then
        onState (\<lambda>s. s\<lparr>ss_textBlockIndex := -1\<rparr>) (emitContentBlockStop (ss_textBlockIndex s) c)
      else c)"

definition openIndices :: "converter \<Rightarrow> int list" where
  "openIndices c =
     (let s = cv_state c in
      sort (filter (\<lambda>i. isOpen i c)
        [ss_thinkingBlockIndex s, ss_refusalBlockIndex s, ss_reasoningSummaryBlockIndex s, ss_textBlockIndex s] @
        filter (\<lambda>i. i \<notin> ss_stoppedBlocks s) (map fst (ss_pendingToolCalls s))))"

definition stopBlock :: "convConfig \<Rightarrow> int \<Rightarrow> converter \<Rightarrow> converter" where
  "stopBlock cfg i c =
     emitContentBlockStop i (if i \<in> ss_thinkingBlocks (cv_state c) then emitThinkingSignature cfg i c else c)"

definition emitStopEvents :: "convConfig \<Rightarrow> converter \<Rightarrow> converter" where
  "emitStopEvents cfg c = fold (stopBlock cfg) (openIndices c) c"

text \<open>Extra fields of the provider override the stop reason; a decoded stop reason has the text \<open>extractString\<close> gives.\<close>

definition emitMessageDelta :: "string \<Rightarrow> converter \<Rightarrow> converter" where
  "emitMessageDelta stopReason c =
     emitAnthropic (WMessageDelta
       (case map_of (ss_deltaExtras (cv_state c)) ''stop_reason'' of None \<Rightarrow> stopReason | Some v \<Rightarrow> extractString v)
       (ss_deltaExtras (cv_state c)) (ToAnthropicUsageMap (cv_usage c))) c"

definition emitTerminalEvents :: "convConfig \<Rightarrow> converter \<Rightarrow> converter" where
  "emitTerminalEvents cfg c =
     (let c1 = (case cv_tokenCounter c of
                  None \<Rightarrow> c
                | Some tc \<Rightarrow>
                    (let ((i, o'), tc1) = GetCounts (cc_Encoder cfg) tc; (cr, cw, r) = GetUpstreamDetails tc1
                     in c\<lparr>cv_tokenCounter := Some tc1, cv_usage := NewTokenUsageFull i o' cr cw r\<rparr>))
      in emitAnthropic WMessageStop
           (emitMessageDelta (cc_MapFinishReason cfg (cv_pendingFinishReason c1)) (emitStopEvents cfg (emitEnsureMessageStart cfg c1))))"

section \<open>One chunk\<close>

definition chunkHasUsage :: "chatUsage \<Rightarrow> bool" where
  "chunkHasUsage u \<longleftrightarrow> us_PromptTokens u \<noteq> 0 \<or> us_CompletionTokens u \<noteq> 0 \<or> us_CachedTokens u \<noteq> 0 \<or>
     us_CacheWriteTokens u \<noteq> 0 \<or> us_ReasoningTokens u \<noteq> 0"

definition consumeTokenCounter :: "chatChunk \<Rightarrow> converter \<Rightarrow> converter" where
  "consumeTokenCounter k c =
     (case cv_tokenCounter c of
        Some tc \<Rightarrow> c\<lparr>cv_tokenCounter := Some (ConsumeOpenAIChunk k tc)\<rparr>
      | None \<Rightarrow> if chunkHasUsage (ck_Usage k) then c\<lparr>cv_usage := FromOpenAIChatCompletion (ck_Usage k)\<rparr> else c)"

definition openThinking :: "convConfig \<Rightarrow> converter \<Rightarrow> converter" where
  "openThinking cfg c =
     (let i = ss_nextBlockIndex (cv_state c) in
      emitContentBlockStart i WThinking (emitEnsureMessageStart cfg
        (onState (\<lambda>s. s\<lparr>ss_thinkingBlockIndex := i, ss_nextBlockIndex := i + 1, ss_thinkingBlocks := insert i (ss_thinkingBlocks s)\<rparr>) c)))"

definition processExtra :: "convConfig \<Rightarrow> string \<times> xvalue \<Rightarrow> converter \<Rightarrow> converter" where
  "processExtra cfg kv c =
     (if fst kv = ''reasoning_content'' then
        (let c1 = (if ss_thinkingBlockIndex (cv_state c) = -1 then openThinking cfg c else c);
             t = extractString (snd kv)
         in if t = [] then c1
            else emitContentBlockDelta (ss_thinkingBlockIndex (cv_state c1)) (WThinkingDelta t) (emitEnsureMessageStart cfg c1))
      else onState (\<lambda>s. s\<lparr>ss_deltaExtras := AList.update (fst kv) (snd kv) (ss_deltaExtras s)\<rparr>) c)"

definition processExtras :: "convConfig \<Rightarrow> chatDelta \<Rightarrow> converter \<Rightarrow> converter" where
  "processExtras cfg d c =
     (case dl_Raw d of None \<Rightarrow> c | Some extras \<Rightarrow> fold (processExtra cfg) (FilterOpenAIProtocolFields extras) c)"

text \<open>A refusal and a text go to the same block.\<close>

definition openText :: "convConfig \<Rightarrow> converter \<Rightarrow> converter" where
  "openText cfg c =
     (let c1 = emitCloseOpenBlock cfg c; i = ss_nextBlockIndex (cv_state c1) in
      emitContentBlockStart i WText (emitEnsureMessageStart cfg
        (onState (\<lambda>s. s\<lparr>ss_textBlockIndex := i, ss_nextBlockIndex := i + 1\<rparr>) c1)))"

definition processText :: "convConfig \<Rightarrow> string \<Rightarrow> converter \<Rightarrow> converter" where
  "processText cfg t c =
     (if t = [] then c
      else
        (let c1 = onState (\<lambda>s. s\<lparr>ss_hasTextContent := True\<rparr>) (if ss_textBlockIndex (cv_state c) = -1 then openText cfg c else c)
         in emitContentBlockDelta (ss_textBlockIndex (cv_state c1)) (WTextDelta t) (emitEnsureMessageStart cfg c1)))"

definition suppressed :: "convConfig \<Rightarrow> string \<Rightarrow> bool" where
  "suppressed cfg nm =
     (case cc_Hooks cfg of None \<Rightarrow> False | Some h \<Rightarrow> (case ShouldSuppressTool h of None \<Rightarrow> False | Some f \<Rightarrow> f nm))"

definition openTool :: "convConfig \<Rightarrow> toolDelta \<Rightarrow> converter \<Rightarrow> converter" where
  "openTool cfg t c =
     (let i = ss_nextBlockIndex (cv_state c); shown = \<not> suppressed cfg (td_Name t);
          c1 = onState (\<lambda>s. s\<lparr>ss_toolIndexToBlockIndex := AList.update (td_Index t) i (ss_toolIndexToBlockIndex s),
                 ss_nextBlockIndex := i + 1,
                 ss_pendingToolCalls := AList.update i \<lparr>pt_id = truncateToolCallID (td_ID t), pt_name = td_Name t, pt_input = [],
                   pt_emit = shown\<rparr> (ss_pendingToolCalls s)\<rparr>) c;
          c2 = emitCloseOpenBlock cfg c1
      in if shown
         then emitContentBlockStart i (WToolUse (truncateToolCallID (td_ID t)) (td_Name t)) (emitEnsureMessageStart cfg c2)
         else c2)"

definition updatePending :: "int \<Rightarrow> toolDelta \<Rightarrow> converter \<Rightarrow> converter" where
  "updatePending i t =
     onState (\<lambda>s. s\<lparr>ss_pendingToolCalls := AList.map_entry i (\<lambda>p.
       p\<lparr>pt_id := (if td_ID t \<noteq> [] then truncateToolCallID (td_ID t) else pt_id p),
         pt_name := (if td_Name t \<noteq> [] then td_Name t else pt_name p),
         pt_input := pt_input p @ td_Arguments t\<rparr>) (ss_pendingToolCalls s)\<rparr>)"

definition processToolCall :: "convConfig \<Rightarrow> toolDelta \<Rightarrow> converter \<Rightarrow> converter" where
  "processToolCall cfg t c =
     (let c1 = (if map_of (ss_toolIndexToBlockIndex (cv_state c)) (td_Index t) = None then openTool cfg t c else c)
      in case map_of (ss_toolIndexToBlockIndex (cv_state c1)) (td_Index t) of
           None \<Rightarrow> c1
         | Some i \<Rightarrow>
             (let c2 = updatePending i t c1 in
              if td_Arguments t \<noteq> [] \<and> (case map_of (ss_pendingToolCalls (cv_state c2)) i of Some p \<Rightarrow> pt_emit p | None \<Rightarrow> False)
              then emitContentBlockDelta i (WInputJSONDelta (td_Arguments t)) (emitEnsureMessageStart cfg c2)
              else c2))"

definition finalCalls :: "converter \<Rightarrow> chatToolCall list" where
  "finalCalls c = map (\<lambda>(i, p). \<lparr>ct_ID = pt_id p, ct_Name = pt_name p, ct_Arguments = pt_input p\<rparr>) (ss_pendingToolCalls (cv_state c))"

definition processFinish :: "convConfig \<Rightarrow> string \<Rightarrow> converter \<Rightarrow> converter" where
  "processFinish cfg r c =
     (if r = [] then c
      else
        (let c1 = c\<lparr>cv_pendingFinishReason := r, cv_finishSeen := True\<rparr>;
             e = (case Option.bind (cc_Hooks cfg) OnToolCallsFinal of
                    Some f \<Rightarrow> if ss_pendingToolCalls (cv_state c1) \<noteq> [] then f (finalCalls c1) else None
                  | None \<Rightarrow> None)
         in case e of
              Some err \<Rightarrow> c1\<lparr>cv_hookErr := Some err, cv_done := True\<rparr>
            | None \<Rightarrow>
                if \<not> cv_messageStarted c1 \<and> cv_hookErr c1 = Some ErrMCPStreamContinue then c1\<lparr>cv_done := True\<rparr> else c1))"

definition processDelta :: "convConfig \<Rightarrow> chatDelta \<Rightarrow> converter \<Rightarrow> converter" where
  "processDelta cfg d c =
     fold (processToolCall cfg) (dl_ToolCalls d) (processText cfg (dl_Content d) (processText cfg (dl_Refusal d) (processExtras cfg d c)))"

definition processChunk :: "convConfig \<Rightarrow> chatChunk \<Rightarrow> converter \<Rightarrow> converter" where
  "processChunk cfg k c =
     (case ck_Choices k of
        [] \<Rightarrow> consumeTokenCounter k c
      | choice # _ \<Rightarrow> processFinish cfg (ch_FinishReason choice) (consumeTokenCounter k (processDelta cfg (ch_Delta choice) c)))"

section \<open>Reading\<close>

text \<open>What the loop does once the upstream has no further chunk.\<close>

definition popPending :: "converter \<Rightarrow> (string + wireEvent option) \<times> converter" where
  "popPending c =
     (case cv_pending c of
        [] \<Rightarrow> (Inr None, c)
      | e # q \<Rightarrow> (Inr (Some e), c\<lparr>cv_pending := q, cv_sent := cv_sent c @ [e]\<rparr>))"

definition endOfStream :: "convConfig \<Rightarrow> converter \<Rightarrow> (string + wireEvent option) \<times> converter" where
  "endOfStream cfg c =
     (if cv_finishSeen c \<and> cv_hookErr c = None then popPending ((emitTerminalEvents cfg c)\<lparr>cv_done := True\<rparr>)
      else
        (case cc_StreamErr cfg of
           Some e \<Rightarrow> (Inl e, c)
         | None \<Rightarrow>
             if cv_messageStarted c \<and> cv_hookErr c = None then popPending ((emitAnthropic WError c)\<lparr>cv_done := True\<rparr>)
             else popPending (c\<lparr>cv_done := True\<rparr>)))"

fun nextLoop :: "convConfig \<Rightarrow> chatChunk list \<Rightarrow> converter \<Rightarrow> (string + wireEvent option) \<times> converter" where
  "nextLoop cfg [] c = endOfStream cfg c"
| "nextLoop cfg (k # ks) c =
     (let c1 = processChunk cfg k (c\<lparr>cv_upstream := ks\<rparr>) in
      if cv_pending c1 \<noteq> [] \<or> cv_done c1 then popPending c1 else nextLoop cfg ks c1)"

definition conv_Next :: "convConfig \<Rightarrow> converter \<Rightarrow> (string + wireEvent option) \<times> converter" where
  "conv_Next cfg c =
     (if cv_pending c \<noteq> [] then popPending c
      else if cv_done c then (Inr None, c)
      else nextLoop cfg (cv_upstream c) c)"

text \<open>The states that reading brings about.\<close>

inductive conv_reachable :: "convConfig \<Rightarrow> converter \<Rightarrow> converter \<Rightarrow> bool" for cfg c0 where
  start: "conv_reachable cfg c0 c0"
| step: "conv_reachable cfg c0 c \<Longrightarrow> conv_Next cfg c = (r, c1) \<Longrightarrow> conv_reachable cfg c0 c1"

section \<open>What a client reads\<close>

text \<open>
  A client's check of the events: whether the message has started, the index of the next block, the blocks that
  are open and whether the message is over.
\<close>

type_synonym reading = "bool \<times> int \<times> int set \<times> bool"

fun track :: "wireEvent \<Rightarrow> reading \<Rightarrow> reading option" where
  "track e (st, n, os, over) =
     (if over then None
      else
        (case e of
           WMessageStart i m t \<Rightarrow> if st then None else Some (True, n, os, False)
         | WBlockStart i b \<Rightarrow> if st \<and> i = n then Some (st, n + 1, insert i os, False) else None
         | WBlockDelta i d \<Rightarrow> if i \<in> os then Some (st, n, os, False) else None
         | WBlockStop i \<Rightarrow> if i \<in> os then Some (st, n, os - {i}, False) else None
         | WMessageDelta r x u \<Rightarrow> if st \<and> os = {} then Some (st, n, os, False) else None
         | WMessageStop \<Rightarrow> if st \<and> os = {} then Some (st, n, os, True) else None
         | WError \<Rightarrow> if st then Some (st, n, os, True) else None))"

fun tracks :: "wireEvent list \<Rightarrow> reading \<Rightarrow> reading option" where
  "tracks [] s = Some s"
| "tracks (e # es) s = Option.bind (track e s) (tracks es)"

lemma tracks_append: "tracks (xs @ ys) s = Option.bind (tracks xs s) (tracks ys)"
  by (induction xs arbitrary: s) (auto split: bind_split)

definition fresh :: reading where "fresh = (False, 0, {}, False)"

definition conv_written :: "converter \<Rightarrow> wireEvent list" where "conv_written c = cv_sent c @ cv_pending c"

lemma written_emitAnthropic [simp]: "conv_written (emitAnthropic e c) = conv_written c @ [e]"
  by (simp add: conv_written_def emitAnthropic_def)

lemma conv_written_upd [simp]:
  "conv_written (c\<lparr>cv_state := s\<rparr>) = conv_written c" "conv_written (c\<lparr>cv_signatures := n\<rparr>) = conv_written c"
  "conv_written (c\<lparr>cv_messageStarted := b\<rparr>) = conv_written c" "conv_written (c\<lparr>cv_upstream := ks\<rparr>) = conv_written c"
  "conv_written (c\<lparr>cv_done := b\<rparr>) = conv_written c" "conv_written (c\<lparr>cv_tokenCounter := t\<rparr>) = conv_written c"
  "conv_written (c\<lparr>cv_usage := u\<rparr>) = conv_written c" "conv_written (c\<lparr>cv_pendingFinishReason := r\<rparr>) = conv_written c"
  "conv_written (c\<lparr>cv_finishSeen := b\<rparr>) = conv_written c" "conv_written (c\<lparr>cv_hookErr := h\<rparr>) = conv_written c"
  by (simp_all add: conv_written_def)

lemma emitAnthropic_fields [simp]:
  "cv_state (emitAnthropic e c) = cv_state c" "cv_messageStarted (emitAnthropic e c) = cv_messageStarted c"
  "cv_signatures (emitAnthropic e c) = cv_signatures c" "cv_upstream (emitAnthropic e c) = cv_upstream c"
  "cv_done (emitAnthropic e c) = cv_done c" "cv_finishSeen (emitAnthropic e c) = cv_finishSeen c"
  "cv_hookErr (emitAnthropic e c) = cv_hookErr c" "cv_tokenCounter (emitAnthropic e c) = cv_tokenCounter c"
  "cv_usage (emitAnthropic e c) = cv_usage c" "cv_pendingFinishReason (emitAnthropic e c) = cv_pendingFinishReason c"
  "cv_estimatedInputTokens (emitAnthropic e c) = cv_estimatedInputTokens c"
  by (simp_all add: emitAnthropic_def)

lemma emitAnthropic_upd [simp]:
  "emitAnthropic e (c\<lparr>cv_state := s\<rparr>) = (emitAnthropic e c)\<lparr>cv_state := s\<rparr>"
  by (simp add: emitAnthropic_def)

lemmas emits = emitContentBlockStart_def emitContentBlockDelta_def emitContentBlockStop_def emitThinkingSignature_def

text \<open>The parts of the state that only the end of the stream and the upstream change.\<close>

definition frame :: "converter \<Rightarrow> _" where
  "frame c = (cv_upstream c, cv_done c, cv_finishSeen c, cv_hookErr c, cv_tokenCounter c, cv_usage c, cv_pendingFinishReason c)"

definition nextBlock :: "converter \<Rightarrow> int" where "nextBlock c = ss_nextBlockIndex (cv_state c)"

definition openBlocks :: "converter \<Rightarrow> int set" where
  "openBlocks c = {0..<nextBlock c} - ss_stoppedBlocks (cv_state c)"

definition toolBlocks :: "converter \<Rightarrow> int set" where
  "toolBlocks c = fst ` set (ss_pendingToolCalls (cv_state c))"

text \<open>How the indices fit: next index, stopped blocks, the reasoning's and the text's block, the tools' blocks.\<close>

definition idx_ok :: "int set \<Rightarrow> int set \<Rightarrow> int \<Rightarrow> int \<Rightarrow> int set \<Rightarrow> bool" where
  "idx_ok A stopped t x tools \<longleftrightarrow>
     stopped \<subseteq> A \<and> (t \<noteq> -1 \<longrightarrow> t \<in> A - stopped - tools) \<and> (x \<noteq> -1 \<longrightarrow> x \<in> A - stopped - tools \<and> x \<noteq> t) \<and>
     tools \<subseteq> A - stopped \<and> A - stopped \<subseteq> {t, x} \<union> tools"

lemma idx_ok_close:
  "idx_ok A st t x T \<Longrightarrow> t \<noteq> -1 \<Longrightarrow> idx_ok A (insert t st) (-1) x T"
  "idx_ok A st t x T \<Longrightarrow> x \<noteq> -1 \<Longrightarrow> idx_ok A (insert x st) t (-1) T"
  unfolding idx_ok_def by blast+

lemma idx_ok_open:
  "idx_ok A st (-1) x T \<Longrightarrow> n \<notin> A \<Longrightarrow> -1 \<notin> A \<Longrightarrow> n \<noteq> -1 \<Longrightarrow> idx_ok (insert n A) st n x T"
  "idx_ok A st t (-1) T \<Longrightarrow> n \<notin> A \<Longrightarrow> -1 \<notin> A \<Longrightarrow> n \<noteq> -1 \<Longrightarrow> idx_ok (insert n A) st t n T"
  "idx_ok A st t x T \<Longrightarrow> n \<notin> A \<Longrightarrow> -1 \<notin> A \<Longrightarrow> n \<noteq> -1 \<Longrightarrow> idx_ok (insert n A) st t x (insert n T)"
  unfolding idx_ok_def by blast+

lemma next_range: "0 \<le> n \<Longrightarrow> {0..<n + 1} = insert n {0..<n}" for n :: int
  by auto

lemma next_new: "n \<notin> {0..<n}" "-1 \<notin> {0..<n}" "0 \<le> n \<Longrightarrow> n \<noteq> -1" for n :: int
  by auto

lemma idx_ok_new: "idx_ok A st t x T \<Longrightarrow> n \<notin> A \<Longrightarrow> n \<notin> st \<and> n \<notin> T"
  unfolding idx_ok_def by blast

abbreviation allocated :: "converter \<Rightarrow> int set" where "allocated c \<equiv> {0..<nextBlock c}"

definition conv_ok :: "converter \<Rightarrow> bool" where
  "conv_ok c \<longleftrightarrow>
     tracks (conv_written c) fresh = Some (cv_messageStarted c, nextBlock c, openBlocks c, False) \<and> 0 \<le> nextBlock c \<and>
     idx_ok (allocated c) (ss_stoppedBlocks (cv_state c)) (ss_thinkingBlockIndex (cv_state c)) (ss_textBlockIndex (cv_state c)) (toolBlocks c) \<and>
     ss_refusalBlockIndex (cv_state c) = -1 \<and> ss_reasoningSummaryBlockIndex (cv_state c) = -1 \<and>
     distinct (map fst (ss_pendingToolCalls (cv_state c)))"

lemma conv_ok_facts:
  assumes "conv_ok c"
  shows "tracks (conv_written c) fresh = Some (cv_messageStarted c, nextBlock c, openBlocks c, False)"
    "idx_ok (allocated c) (ss_stoppedBlocks (cv_state c)) (ss_thinkingBlockIndex (cv_state c)) (ss_textBlockIndex (cv_state c)) (toolBlocks c)"
    "0 \<le> nextBlock c" "ss_refusalBlockIndex (cv_state c) = -1" "ss_reasoningSummaryBlockIndex (cv_state c) = -1"
    "distinct (map fst (ss_pendingToolCalls (cv_state c)))"
  using assms by (simp_all add: conv_ok_def)

lemma conv_ok_open_blocks:
  assumes "conv_ok c"
  shows "ss_thinkingBlockIndex (cv_state c) \<noteq> -1 \<Longrightarrow> ss_thinkingBlockIndex (cv_state c) \<in> openBlocks c"
    "ss_textBlockIndex (cv_state c) \<noteq> -1 \<Longrightarrow> ss_textBlockIndex (cv_state c) \<in> openBlocks c" "toolBlocks c \<subseteq> openBlocks c"
  using conv_ok_facts(2) [OF assms] unfolding idx_ok_def openBlocks_def by blast+

lemma conv_ok_state:
  assumes "conv_ok c" "cv_state d = cv_state c" "tracks (conv_written d) fresh = Some (cv_messageStarted d, nextBlock c, openBlocks c, False)"
  shows "conv_ok d"
  using assms by (simp add: conv_ok_def nextBlock_def openBlocks_def toolBlocks_def)

lemma conv_ok_ensure:
  assumes "conv_ok c" shows "conv_ok (emitEnsureMessageStart cfg c)"
  by (rule conv_ok_state [OF assms])
    (use conv_ok_facts(1) [OF assms] in \<open>auto simp: emitEnsureMessageStart_def tracks_append\<close>)

lemma ensure_fields [simp]:
  "cv_messageStarted (emitEnsureMessageStart cfg c)" "cv_state (emitEnsureMessageStart cfg c) = cv_state c"
  "frame (emitEnsureMessageStart cfg c) = frame c"
  "emitEnsureMessageStart cfg (c\<lparr>cv_state := s\<rparr>) = (emitEnsureMessageStart cfg c)\<lparr>cv_state := s\<rparr>"
  by (auto simp: emitEnsureMessageStart_def frame_def emitAnthropic_def)

lemma conv_ok_delta:
  assumes "conv_ok c" "i \<in> openBlocks c" shows "conv_ok (emitContentBlockDelta i d c)"
  by (rule conv_ok_state [OF assms(1)])
    (use conv_ok_facts(1) [OF assms(1)] assms(2) in \<open>auto simp: emits tracks_append\<close>)

lemma conv_ok_signatures [simp]: "conv_ok (c\<lparr>cv_signatures := n\<rparr>) = conv_ok c"
  by (simp add: conv_ok_def nextBlock_def openBlocks_def toolBlocks_def)

lemma conv_ok_signature:
  assumes "conv_ok c" "i \<in> openBlocks c" shows "conv_ok (emitThinkingSignature cfg i c)"
  using conv_ok_delta [OF assms] by (simp add: emitThinkingSignature_def)

lemma signature_state [simp]: "cv_state (emitThinkingSignature cfg i c) = cv_state c"
  by (simp add: emits)

text \<open>Closing the open block of the answer's text or reasoning.\<close>

definition closed :: "int \<Rightarrow> streamState \<Rightarrow> streamState" where
  "closed i s = s\<lparr>ss_stoppedBlocks := insert i (ss_stoppedBlocks s),
     ss_thinkingBlockIndex := (if ss_thinkingBlockIndex s = i then -1 else ss_thinkingBlockIndex s),
     ss_textBlockIndex := (if ss_textBlockIndex s = i then -1 else ss_textBlockIndex s)\<rparr>"

lemma conv_ok_stop:
  assumes "conv_ok c" "i \<noteq> -1" "i = ss_thinkingBlockIndex (cv_state c) \<or> i = ss_textBlockIndex (cv_state c)"
    "s = closed i (cv_state c)"
  shows "conv_ok ((emitAnthropic (WBlockStop i) c)\<lparr>cv_state := s\<rparr>)"
proof -
  note f = conv_ok_facts [OF assms(1)]
  have o: "i \<in> openBlocks c" using conv_ok_open_blocks(1,2) [OF assms(1)] assms(2,3) by auto
  have x: "ss_textBlockIndex (cv_state c) \<noteq> ss_thinkingBlockIndex (cv_state c)"
    using f(2) assms(2,3) unfolding idx_ok_def by auto
  have "idx_ok (allocated c) (insert i (ss_stoppedBlocks (cv_state c))) (ss_thinkingBlockIndex s) (ss_textBlockIndex s) (toolBlocks c)"
    using assms(3)
  proof
    assume i: "i = ss_thinkingBlockIndex (cv_state c)"
    show ?thesis using idx_ok_close(1) [OF f(2)] i x assms(2,4) by (simp add: closed_def)
  next
    assume i: "i = ss_textBlockIndex (cv_state c)"
    show ?thesis using idx_ok_close(2) [OF f(2)] i x assms(2,4) by (simp add: closed_def)
  qed
  moreover have "openBlocks c - {i} = {0..<nextBlock c} - insert i (ss_stoppedBlocks (cv_state c))" by (auto simp: openBlocks_def)
  ultimately show ?thesis using f o assms(4)
    by (simp add: conv_ok_def tracks_append closed_def nextBlock_def openBlocks_def toolBlocks_def)
qed

lemma emitCloseOpenBlock_cases:
  assumes "conv_ok c"
  obtains "emitCloseOpenBlock cfg c = c" "ss_thinkingBlockIndex (cv_state c) = -1" "ss_textBlockIndex (cv_state c) = -1"
  | i d where "i \<noteq> -1" "i = ss_thinkingBlockIndex (cv_state c) \<or> i = ss_textBlockIndex (cv_state c)"
      "d = c \<or> d = emitThinkingSignature cfg i c"
      "emitCloseOpenBlock cfg c = (emitAnthropic (WBlockStop i) d)\<lparr>cv_state := closed i (cv_state c)\<rparr>"
proof -
  note f = conv_ok_facts [OF assms]
  let ?t = "ss_thinkingBlockIndex (cv_state c)" and ?x = "ss_textBlockIndex (cv_state c)"
  show ?thesis
  proof (cases "?t = -1")
    case False
    have "isOpen ?t c" using f(2) False unfolding isOpen_def idx_ok_def by blast
    moreover have "?x \<noteq> ?t" using f(2) False unfolding idx_ok_def by auto
    ultimately show ?thesis using False
      by (intro that(2) [of ?t "emitThinkingSignature cfg ?t c"]) (simp_all add: emitCloseOpenBlock_def emits closed_def Let_def)
  next
    case True
    show ?thesis
    proof (cases "?x = -1")
      case False
      have "isOpen ?x c" using f(2) False unfolding isOpen_def idx_ok_def by blast
      then show ?thesis using True False f(4,5)
        by (intro that(2) [of ?x c]) (simp_all add: emitCloseOpenBlock_def emits closed_def isOpen_def Let_def)
    next
      case x: True
      show ?thesis using True x f(4,5) by (intro that(1)) (simp_all add: emitCloseOpenBlock_def isOpen_def Let_def)
    qed
  qed
qed

lemma conv_ok_close:
  assumes "conv_ok c"
  shows "conv_ok (emitCloseOpenBlock cfg c)"
  using emitCloseOpenBlock_cases [OF assms, of cfg]
proof cases
  case (2 i d)
  have o: "i \<in> openBlocks c" using conv_ok_open_blocks(1,2) [OF assms] 2(1,2) by auto
  have "conv_ok d" "cv_state d = cv_state c" using 2(3) assms conv_ok_signature [OF assms o] by auto
  then show ?thesis using conv_ok_stop [of d i "closed i (cv_state c)"] 2 by simp
qed (use assms in simp)

lemma close_fields:
  assumes "conv_ok c"
  shows "nextBlock (emitCloseOpenBlock cfg c) = nextBlock c" "frame (emitCloseOpenBlock cfg c) = frame c"
    "ss_textBlockIndex (cv_state c) = -1 \<Longrightarrow> ss_textBlockIndex (cv_state (emitCloseOpenBlock cfg c)) = -1"
    "ss_pendingToolCalls (cv_state (emitCloseOpenBlock cfg c)) = ss_pendingToolCalls (cv_state c)"
    "ss_toolIndexToBlockIndex (cv_state (emitCloseOpenBlock cfg c)) = ss_toolIndexToBlockIndex (cv_state c)"
    "ss_deltaExtras (cv_state (emitCloseOpenBlock cfg c)) = ss_deltaExtras (cv_state c)"
    "cv_messageStarted (emitCloseOpenBlock cfg c) = cv_messageStarted c"
  using emitCloseOpenBlock_cases [OF assms, of cfg]
  by (cases; auto simp: closed_def emits nextBlock_def frame_def)+

text \<open>Opening a block, at the next index.\<close>

lemma conv_ok_open:
  assumes "conv_ok c" "cv_messageStarted c" "i = nextBlock c" "ss_nextBlockIndex s = i + 1"
    "ss_stoppedBlocks s = ss_stoppedBlocks (cv_state c)" "ss_refusalBlockIndex s = -1" "ss_reasoningSummaryBlockIndex s = -1"
    "distinct (map fst (ss_pendingToolCalls s))"
    "idx_ok {0..<i + 1} (ss_stoppedBlocks s) (ss_thinkingBlockIndex s) (ss_textBlockIndex s) (fst ` set (ss_pendingToolCalls s))"
  shows "conv_ok (emitContentBlockStart i b (c\<lparr>cv_state := s\<rparr>))"
proof -
  note f = conv_ok_facts [OF assms(1)]
  have "{0..<i + 1} - ss_stoppedBlocks s = insert i (openBlocks c)"
    using next_range [OF f(3)] idx_ok_new [OF f(2), of i] next_new(1) [of i] assms(3,5) by (auto simp: openBlocks_def)
  then show ?thesis using assms(2-) f(1,3) by (simp add: conv_ok_def emits tracks_append nextBlock_def openBlocks_def toolBlocks_def)
qed

lemma set_update_keys: "fst ` set (AList.update k v al) = insert k (fst ` set al)"
  by (simp add: dom_update)

section \<open>What is said\<close>

text \<open>The text, the reasoning and the tool calls in what a client has read; a call is kept under its block.\<close>

type_synonym call_log = "(int \<times> string \<times> string \<times> string) list"

definition textOf :: "wireEvent list \<Rightarrow> string" where
  "textOf es = concat (map (\<lambda>e. case e of WBlockDelta i (WTextDelta t) \<Rightarrow> t | _ \<Rightarrow> []) es)"

definition thinkingOf :: "wireEvent list \<Rightarrow> string" where
  "thinkingOf es = concat (map (\<lambda>e. case e of WBlockDelta i (WThinkingDelta t) \<Rightarrow> t | _ \<Rightarrow> []) es)"

definition addArguments :: "string \<Rightarrow> string \<times> string \<times> string \<Rightarrow> string \<times> string \<times> string" where
  "addArguments a = (\<lambda>(i, nm, args). (i, nm, args @ a))"

definition toolStep :: "wireEvent \<Rightarrow> call_log \<Rightarrow> call_log" where
  "toolStep e calls =
     (case e of
        WBlockStart i (WToolUse cid nm) \<Rightarrow> calls @ [(i, cid, nm, [])]
      | WBlockDelta i (WInputJSONDelta a) \<Rightarrow> AList.map_entry i (addArguments a) calls
      | _ \<Rightarrow> calls)"

definition toolLog :: "wireEvent list \<Rightarrow> call_log" where "toolLog es = fold toolStep es []"

definition toolsOf :: "wireEvent list \<Rightarrow> (string \<times> string \<times> string) list" where "toolsOf es = map snd (toolLog es)"

text \<open>What the provider's chunks say, call by call under the provider's index.\<close>

definition deltaOf :: "chatChunk \<Rightarrow> chatDelta option" where
  "deltaOf k = (case ck_Choices k of [] \<Rightarrow> None | choice # _ \<Rightarrow> Some (ch_Delta choice))"

definition reasoningSaid :: "chatDelta \<Rightarrow> string" where
  "reasoningSaid d = concat (map (\<lambda>(k, v). if k = ''reasoning_content'' then extractString v else []) (case dl_Raw d of None \<Rightarrow> [] | Some x \<Rightarrow> x))"

definition callStep :: "toolDelta \<Rightarrow> call_log \<Rightarrow> call_log" where
  "callStep t calls =
     AList.map_entry (td_Index t) (addArguments (td_Arguments t))
       (if map_of calls (td_Index t) = None then calls @ [(td_Index t, truncateToolCallID (td_ID t), td_Name t, [])] else calls)"

definition deltasOf :: "chatChunk list \<Rightarrow> chatDelta list" where "deltasOf ks = List.map_filter deltaOf ks"

definition textSaid :: "chatChunk list \<Rightarrow> string" where "textSaid ks = concat (map (\<lambda>d. dl_Refusal d @ dl_Content d) (deltasOf ks))"

definition thinkingSaid :: "chatChunk list \<Rightarrow> string" where "thinkingSaid ks = concat (map reasoningSaid (deltasOf ks))"

definition callLog :: "chatChunk list \<Rightarrow> call_log" where "callLog ks = fold callStep (concat (map dl_ToolCalls (deltasOf ks))) []"

definition callsSaid :: "chatChunk list \<Rightarrow> (string \<times> string \<times> string) list" where "callsSaid ks = map snd (callLog ks)"

lemma said_append [simp]:
  "textOf (xs @ ys) = textOf xs @ textOf ys" "thinkingOf (xs @ ys) = thinkingOf xs @ thinkingOf ys"
  "toolLog (xs @ [e]) = toolStep e (toolLog xs)"
  by (simp_all add: textOf_def thinkingOf_def toolLog_def)

definition tools_ok :: "converter \<Rightarrow> call_log \<Rightarrow> bool" where
  "tools_ok c L \<longleftrightarrow>
     (let T = ss_toolIndexToBlockIndex (cv_state c) in
      toolLog (conv_written c) = map (\<lambda>(j, x). (the (map_of T j), x)) L \<and> map fst L = map fst T \<and> distinct (map fst T) \<and>
      distinct (map snd T) \<and> snd ` set T = toolBlocks c \<and> (\<forall>(i, p) \<in> set (ss_pendingToolCalls (cv_state c)). pt_emit p))"

definition good :: "converter \<Rightarrow> string \<Rightarrow> string \<Rightarrow> call_log \<Rightarrow> bool" where
  "good c x h L \<longleftrightarrow> conv_ok c \<and> textOf (conv_written c) = x \<and> thinkingOf (conv_written c) = h \<and> tools_ok c L"

text \<open>An event that says nothing, with a state that has the same tools.\<close>

definition silent :: "wireEvent \<Rightarrow> bool" where
  "silent e \<longleftrightarrow> textOf [e] = [] \<and> thinkingOf [e] = [] \<and> (\<forall>calls. toolStep e calls = calls)"

lemma silent_events [simp]:
  "silent (WMessageStart mid m n)" "silent (WBlockStart i WText)" "silent (WBlockStart i WThinking)" "silent (WBlockStop i)"
  "silent (WBlockDelta i (WSignatureDelta g))" "silent (WMessageDelta r e u)" "silent WMessageStop" "silent WError"
  by (simp_all add: silent_def textOf_def thinkingOf_def toolStep_def)

definition says_same :: "converter \<Rightarrow> converter \<Rightarrow> bool" where
  "says_same c d \<longleftrightarrow> textOf (conv_written d) = textOf (conv_written c) \<and> thinkingOf (conv_written d) = thinkingOf (conv_written c) \<and>
     toolLog (conv_written d) = toolLog (conv_written c) \<and>
     ss_toolIndexToBlockIndex (cv_state d) = ss_toolIndexToBlockIndex (cv_state c) \<and>
     ss_pendingToolCalls (cv_state d) = ss_pendingToolCalls (cv_state c)"

lemma says_same_refl [simp]: "says_same c c" by (simp add: says_same_def)

lemma says_same_trans: "says_same c d \<Longrightarrow> says_same d e \<Longrightarrow> says_same c e" by (simp add: says_same_def)

lemma says_same_emit [simp]: "silent e \<Longrightarrow> says_same c (emitAnthropic e d) = says_same c d"
  by (simp add: says_same_def silent_def)

lemma says_same_upd:
  "says_same c (d\<lparr>cv_signatures := n\<rparr>) = says_same c d" "says_same c (d\<lparr>cv_messageStarted := b\<rparr>) = says_same c d"
  "ss_toolIndexToBlockIndex s = ss_toolIndexToBlockIndex (cv_state d) \<Longrightarrow> ss_pendingToolCalls s = ss_pendingToolCalls (cv_state d) \<Longrightarrow>
     says_same c (d\<lparr>cv_state := s\<rparr>) = says_same c d"
  by (simp_all add: says_same_def)

lemma good_same: "good c x h L \<Longrightarrow> says_same c d \<Longrightarrow> conv_ok d \<Longrightarrow> good d x h L"
  by (simp add: good_def says_same_def tools_ok_def toolBlocks_def Let_def)

lemma says_same_ensure [simp]: "says_same c (emitEnsureMessageStart cfg d) = says_same c d"
  by (simp add: emitEnsureMessageStart_def says_same_upd)

lemma says_same_close: "conv_ok c \<Longrightarrow> says_same c (emitCloseOpenBlock cfg c)"
  by (erule emitCloseOpenBlock_cases [of c cfg]) (auto simp: says_same_upd emits closed_def)

lemma good_facts: "good c x h L \<Longrightarrow> conv_ok c" by (simp add: good_def)

lemma good_ensure: assumes "good c x h L" shows "good (emitEnsureMessageStart cfg c) x h L"
  by (rule good_same [OF assms _ conv_ok_ensure [OF good_facts [OF assms]]]) simp

lemma good_close: assumes "good c x h L" shows "good (emitCloseOpenBlock cfg c) x h L"
  by (rule good_same [OF assms says_same_close [OF good_facts [OF assms]] conv_ok_close [OF good_facts [OF assms]]])

text \<open>Reasoning.\<close>

lemma good_openThinking:
  assumes "good c x h L" "ss_thinkingBlockIndex (cv_state c) = -1"
  shows "good (openThinking cfg c) x h L" "ss_thinkingBlockIndex (cv_state (openThinking cfg c)) \<noteq> -1"
    "frame (openThinking cfg c) = frame c"
proof -
  let ?i = "nextBlock c" let ?e = "emitEnsureMessageStart cfg c"
  let ?s = "(cv_state c)\<lparr>ss_thinkingBlockIndex := ?i, ss_nextBlockIndex := ?i + 1, ss_thinkingBlocks := insert ?i (ss_thinkingBlocks (cv_state c))\<rparr>"
  have o: "openThinking cfg c = emitContentBlockStart ?i WThinking (?e\<lparr>cv_state := ?s\<rparr>)"
    by (simp add: openThinking_def nextBlock_def Let_def)
  note f = conv_ok_facts [OF good_facts [OF assms(1)]]
  have "conv_ok (openThinking cfg c)" unfolding o
    by (rule conv_ok_open [OF conv_ok_ensure [OF good_facts [OF assms(1)]]])
      (use f assms(2) idx_ok_open(1) [of "allocated c" _ "ss_textBlockIndex (cv_state c)" "toolBlocks c" ?i] next_new [of ?i] next_range [OF f(3)] in
        \<open>simp_all add: toolBlocks_def nextBlock_def\<close>)
  then show "good (openThinking cfg c) x h L" unfolding o
    by (intro good_same [OF assms(1)]) (simp_all add: emits says_same_upd)
  show "ss_thinkingBlockIndex (cv_state (openThinking cfg c)) \<noteq> -1" using f(3) by (simp add: o emits)
  show "frame (openThinking cfg c) = frame c" by (simp add: o emits frame_def) (simp add: emitEnsureMessageStart_def)
qed

lemma good_thinking_delta:
  assumes "good c x h L" "i \<in> openBlocks c"
  shows "good (emitContentBlockDelta i (WThinkingDelta t) c) x (h @ t) L"
  using assms conv_ok_delta [OF good_facts [OF assms(1)] assms(2)]
  by (simp add: good_def emits tools_ok_def toolBlocks_def Let_def) (simp add: textOf_def thinkingOf_def toolStep_def)

lemma good_text_delta:
  assumes "good c x h L" "i \<in> openBlocks c"
  shows "good (emitContentBlockDelta i (WTextDelta t) c) (x @ t) h L"
  using assms conv_ok_delta [OF good_facts [OF assms(1)] assms(2)]
  by (simp add: good_def emits tools_ok_def toolBlocks_def Let_def) (simp add: textOf_def thinkingOf_def toolStep_def)

lemma openBlocks_ensure [simp]: "openBlocks (emitEnsureMessageStart cfg c) = openBlocks c"
  by (simp add: openBlocks_def nextBlock_def)

lemma frame_delta [simp]: "frame (emitContentBlockDelta i d c) = frame c"
  by (simp add: emits frame_def)

lemma frame_state [simp]: "frame (c\<lparr>cv_state := s\<rparr>) = frame c"
  by (simp add: frame_def)

lemma conv_ok_plain:
  "conv_ok (c\<lparr>cv_state := (cv_state c)\<lparr>ss_deltaExtras := e\<rparr>\<rparr>) = conv_ok c"
  "conv_ok (c\<lparr>cv_state := (cv_state c)\<lparr>ss_hasTextContent := b\<rparr>\<rparr>) = conv_ok c"
  by (simp_all add: conv_ok_def nextBlock_def openBlocks_def toolBlocks_def)

lemma good_extras: assumes "good c x h L" shows "good (c\<lparr>cv_state := (cv_state c)\<lparr>ss_deltaExtras := e\<rparr>\<rparr>) x h L"
  by (rule good_same [OF assms]) (simp_all add: says_same_upd conv_ok_plain good_facts [OF assms])

lemma good_hasText: assumes "good c x h L" shows "good (c\<lparr>cv_state := (cv_state c)\<lparr>ss_hasTextContent := b\<rparr>\<rparr>) x h L"
  by (rule good_same [OF assms]) (simp_all add: says_same_upd conv_ok_plain good_facts [OF assms])

lemma good_processExtra:
  assumes "good c x h L"
  shows "good (processExtra cfg kv c) x (h @ (if fst kv = ''reasoning_content'' then extractString (snd kv) else [])) L \<and>
    frame (processExtra cfg kv c) = frame c"
proof (cases "fst kv = ''reasoning_content''")
  case True
  let ?c = "if ss_thinkingBlockIndex (cv_state c) = -1 then openThinking cfg c else c"
  let ?t = "extractString (snd kv)"
  have g: "good ?c x h L" "ss_thinkingBlockIndex (cv_state ?c) \<noteq> -1" "frame ?c = frame c"
    using good_openThinking [OF assms, of cfg] assms by auto
  have o: "ss_thinkingBlockIndex (cv_state ?c) \<in> openBlocks ?c"
    using conv_ok_open_blocks(1) [OF good_facts [OF g(1)] g(2)] by simp
  have d: "good (emitContentBlockDelta (ss_thinkingBlockIndex (cv_state ?c)) (WThinkingDelta ?t) (emitEnsureMessageStart cfg ?c)) x (h @ ?t) L"
    by (rule good_thinking_delta [OF good_ensure [OF g(1)]]) (use o in simp)
  show ?thesis
  proof (cases "?t = []")
    case e: True
    then have "processExtra cfg kv c = ?c" using True by (simp add: processExtra_def Let_def)
    then show ?thesis using g e True by simp
  next
    case False
    then have "processExtra cfg kv c =
        emitContentBlockDelta (ss_thinkingBlockIndex (cv_state ?c)) (WThinkingDelta ?t) (emitEnsureMessageStart cfg ?c)"
      using True by (simp add: processExtra_def Let_def)
    then show ?thesis using d g(3) True by simp
  qed
next
  case False
  then show ?thesis using good_extras [OF assms] by (simp add: processExtra_def frame_def)
qed

lemma good_processExtras:
  assumes "good c x h L"
  shows "good (processExtras cfg d c) x (h @ reasoningSaid d) L \<and> frame (processExtras cfg d c) = frame c"
proof -
  let ?say = "\<lambda>kv. if fst kv = ''reasoning_content'' then extractString (snd kv) else []"
  have f: "good (fold (processExtra cfg) es c) x (h @ concat (map ?say es)) L \<and> frame (fold (processExtra cfg) es c) = frame c"
    if "good c x h L" for es c h using that
  proof (induction es arbitrary: c h)
    case (Cons kv es)
    show ?case using Cons.IH [of "processExtra cfg kv c" "h @ ?say kv"] good_processExtra [OF Cons.prems, of cfg kv] by simp
  qed simp
  have s: "concat (map ?say (FilterOpenAIProtocolFields es)) = concat (map ?say es)" for es
    by (induction es) (auto simp: FilterOpenAIProtocolFields_def)
  show ?thesis
  proof (cases "dl_Raw d")
    case None
    then show ?thesis using assms by (simp add: processExtras_def reasoningSaid_def)
  next
    case (Some es)
    have "reasoningSaid d = concat (map ?say es)" using Some by (simp add: reasoningSaid_def case_prod_unfold)
    then show ?thesis using f [OF assms, of "FilterOpenAIProtocolFields es"] Some s [of es] by (simp add: processExtras_def)
  qed
qed

text \<open>Text.\<close>

lemma good_openText:
  assumes "good c x h L" "ss_textBlockIndex (cv_state c) = -1"
  shows "good (openText cfg c) x h L" "ss_textBlockIndex (cv_state (openText cfg c)) \<noteq> -1" "frame (openText cfg c) = frame c"
proof -
  let ?c = "emitCloseOpenBlock cfg c"
  have g: "good ?c x h L" by (rule good_close [OF assms(1)])
  note k = close_fields [OF good_facts [OF assms(1)], of cfg]
  let ?i = "nextBlock ?c" let ?e = "emitEnsureMessageStart cfg ?c"
  let ?s = "(cv_state ?c)\<lparr>ss_textBlockIndex := ?i, ss_nextBlockIndex := ?i + 1\<rparr>"
  have o: "openText cfg c = emitContentBlockStart ?i WText (?e\<lparr>cv_state := ?s\<rparr>)"
    by (simp add: openText_def nextBlock_def Let_def)
  note f = conv_ok_facts [OF good_facts [OF g]]
  have "conv_ok (openText cfg c)" unfolding o
    by (rule conv_ok_open [OF conv_ok_ensure [OF good_facts [OF g]]])
      (use f k(3) [OF assms(2)] idx_ok_open(2) [of "allocated ?c" _ "ss_thinkingBlockIndex (cv_state ?c)" "toolBlocks ?c" ?i]
         next_new [of ?i] next_range [OF f(3)] in \<open>simp_all add: toolBlocks_def nextBlock_def\<close>)
  then show "good (openText cfg c) x h L" unfolding o
    by (intro good_same [OF g]) (simp_all add: emits says_same_upd)
  show "ss_textBlockIndex (cv_state (openText cfg c)) \<noteq> -1" using f(3) by (simp add: o emits)
  show "frame (openText cfg c) = frame c" using k(2) by (simp add: o emits frame_def) (simp add: emitEnsureMessageStart_def)
qed

lemma good_processText:
  assumes "good c x h L"
  shows "good (processText cfg t c) (x @ t) h L \<and> frame (processText cfg t c) = frame c"
proof (cases "t = []")
  case True
  then show ?thesis using assms by (simp add: processText_def)
next
  case False
  define b0 where "b0 = (if ss_textBlockIndex (cv_state c) = -1 then openText cfg c else c)"
  let ?c = "b0\<lparr>cv_state := (cv_state b0)\<lparr>ss_hasTextContent := True\<rparr>\<rparr>"
  have b: "good b0 x h L" "ss_textBlockIndex (cv_state b0) \<noteq> -1" "frame b0 = frame c"
    using good_openText [OF assms, of cfg] assms by (auto simp: b0_def)
  have g: "good ?c x h L" by (rule good_hasText [OF b(1)])
  have o: "ss_textBlockIndex (cv_state ?c) \<in> openBlocks ?c"
    using conv_ok_open_blocks(2) [OF good_facts [OF g]] b(2) by simp
  have "good (emitContentBlockDelta (ss_textBlockIndex (cv_state ?c)) (WTextDelta t) (emitEnsureMessageStart cfg ?c)) (x @ t) h L"
    by (rule good_text_delta [OF good_ensure [OF g]]) (use o in \<open>simp add: openBlocks_def nextBlock_def\<close>)
  moreover have "processText cfg t c = emitContentBlockDelta (ss_textBlockIndex (cv_state ?c)) (WTextDelta t) (emitEnsureMessageStart cfg ?c)"
    using False by (simp add: processText_def Let_def b0_def)
  moreover have "frame ?c = frame b0" by (simp add: frame_def)
  ultimately show ?thesis using b(3) by simp
qed

text \<open>Tool calls.  The provider's indices stand for blocks, one to one.\<close>

definition unsuppressed :: "convConfig \<Rightarrow> bool" where "unsuppressed cfg \<longleftrightarrow> (\<forall>nm. \<not> suppressed cfg nm)"

lemma map_entry_keys [simp]: "map fst (AList.map_entry k f al) = map fst al"
  by (induction al) auto

lemma map_entry_set: "fst ` set (AList.map_entry k f al) = fst ` set al"
  by (metis map_entry_keys set_map)

lemma close_alloc:
  "emitCloseOpenBlock cfg (c\<lparr>cv_state := (cv_state c)\<lparr>ss_toolIndexToBlockIndex := m, ss_nextBlockIndex := n, ss_pendingToolCalls := p\<rparr>\<rparr>) =
     (emitCloseOpenBlock cfg c)\<lparr>cv_state := (cv_state (emitCloseOpenBlock cfg c))\<lparr>ss_toolIndexToBlockIndex := m, ss_nextBlockIndex := n,
        ss_pendingToolCalls := p\<rparr>\<rparr>"
  by (simp add: emitCloseOpenBlock_def emits isOpen_def Let_def emitAnthropic_def)

lemma update_new: "k \<notin> fst ` set al \<Longrightarrow> AList.update k v al = al @ [(k, v)]"
  by (induction al) auto

lemma good_openTool:
  assumes "good c x h L" "map_of (ss_toolIndexToBlockIndex (cv_state c)) (td_Index t) = None" "unsuppressed cfg"
  shows "good (openTool cfg t c) x h (L @ [(td_Index t, truncateToolCallID (td_ID t), td_Name t, [])])"
    "frame (openTool cfg t c) = frame c" "map_of (ss_toolIndexToBlockIndex (cv_state (openTool cfg t c))) (td_Index t) = Some (nextBlock c)"
proof -
  let ?c = "emitCloseOpenBlock cfg c"
  have g: "good ?c x h L" by (rule good_close [OF assms(1)])
  note k = close_fields [OF good_facts [OF assms(1)], of cfg]
  let ?i = "nextBlock c" let ?e = "emitEnsureMessageStart cfg ?c" let ?T = "ss_toolIndexToBlockIndex (cv_state c)"
  let ?p = "\<lparr>pt_id = truncateToolCallID (td_ID t), pt_name = td_Name t, pt_input = [], pt_emit = True\<rparr>"
  let ?P = "ss_pendingToolCalls (cv_state c)"
  note f = conv_ok_facts [OF good_facts [OF g]]
  have T: "td_Index t \<notin> fst ` set ?T" using assms(2) by (simp add: map_of_eq_None_iff)
  have P: "?i \<notin> fst ` set ?P"
    using idx_ok_new [OF conv_ok_facts(2) [OF good_facts [OF assms(1)]] next_new(1)] by (simp add: toolBlocks_def)
  let ?s = "(cv_state ?c)\<lparr>ss_toolIndexToBlockIndex := ?T @ [(td_Index t, ?i)], ss_nextBlockIndex := ?i + 1, ss_pendingToolCalls := ?P @ [(?i, ?p)]\<rparr>"
  let ?b = "WToolUse (truncateToolCallID (td_ID t)) (td_Name t)"
  have o: "openTool cfg t c = emitContentBlockStart ?i ?b (?e\<lparr>cv_state := ?s\<rparr>)"
    using assms(3) T P by (simp add: openTool_def unsuppressed_def close_alloc update_new Let_def k nextBlock_def)
  have ok: "conv_ok (openTool cfg t c)" unfolding o
    by (rule conv_ok_open [OF conv_ok_ensure [OF good_facts [OF g]]])
      (use f k P idx_ok_open(3) [of "allocated ?c" _ _ _ "toolBlocks ?c" ?i] next_new [of ?i] next_range [OF f(3)] in
        \<open>simp_all add: toolBlocks_def nextBlock_def\<close>)
  have w: "conv_written (openTool cfg t c) = conv_written ?e @ [WBlockStart ?i ?b]" by (simp add: o emits)
  have s: "says_same ?c ?e" by simp
  have L: "toolLog (conv_written ?c) = map (\<lambda>(j, y). (the (map_of ?T j), y)) L" "map fst L = map fst ?T" "distinct (map fst ?T)"
    "distinct (map snd ?T)" "snd ` set ?T = fst ` set ?P" "\<forall>(i, p) \<in> set ?P. pt_emit p"
    using g k by (simp_all add: good_def tools_ok_def toolBlocks_def Let_def)
  have m: "the (map_of (?T @ [(td_Index t, ?i)]) j) = the (map_of ?T j)" if "(j, y) \<in> set L" for j y
  proof -
    have "j \<in> fst ` set ?T" using that L(2) by (metis fst_conv image_eqI set_map)
    then show ?thesis by (auto simp: map_add_def dest: weak_map_of_SomeI split: option.split)
  qed
  have i: "the (map_of (?T @ [(td_Index t, ?i)]) (td_Index t)) = ?i" using assms(2) by (simp add: map_add_def)
  have "map (\<lambda>(j, y). (the (map_of (?T @ [(td_Index t, ?i)]) j), y)) L = map (\<lambda>(j, y). (the (map_of ?T j), y)) L"
    using m by (intro map_cong) auto
  then have "tools_ok (openTool cfg t c) (L @ [(td_Index t, truncateToolCallID (td_ID t), td_Name t, [])])"
    using L s T P i w by (simp add: tools_ok_def Let_def says_same_def toolStep_def toolBlocks_def) (auto simp: o emits)
  then show "good (openTool cfg t c) x h (L @ [(td_Index t, truncateToolCallID (td_ID t), td_Name t, [])])"
    using ok g s w by (simp add: good_def says_same_def) (simp add: textOf_def thinkingOf_def)
  show "frame (openTool cfg t c) = frame c" using k(2) by (simp add: o emits frame_def) (simp add: emitEnsureMessageStart_def)
  show "map_of (ss_toolIndexToBlockIndex (cv_state (openTool cfg t c))) (td_Index t) = Some ?i"
    using assms(2) by (simp add: o emits map_add_def)
qed

lemma map_entry_rename:
  assumes "\<And>j y. (j, y) \<in> set L \<Longrightarrow> r j = r k \<Longrightarrow> j = k"
  shows "AList.map_entry (r k) f (map (\<lambda>(j, y). (r j, y)) L) = map (\<lambda>(j, y). (r j, y)) (AList.map_entry k f L)"
  using assms
proof (induction L)
  case (Cons p L)
  obtain j y where p: "p = (j, y)" by fastforce
  have "r j = r k \<longleftrightarrow> j = k" using Cons.prems [of j y] p by auto
  moreover have "AList.map_entry (r k) f (map (\<lambda>(j, y). (r j, y)) L) = map (\<lambda>(j, y). (r j, y)) (AList.map_entry k f L)"
    using Cons by auto
  ultimately show ?case by (simp add: p)
qed simp

lemma map_of_inj:
  assumes "distinct (map snd T)" "map_of T j = Some i" "map_of T k = Some i" shows "j = k"
  using assms by (metis distinct_map inj_on_def map_of_SomeD prod.inject snd_conv)

lemma map_entry_all:
  "(\<forall>(i, p) \<in> set al. P p) \<Longrightarrow> (\<And>p. P p \<Longrightarrow> P (f p)) \<Longrightarrow> (\<forall>(i, p) \<in> set (AList.map_entry k f al). P p)"
  by (induction al) auto

lemma addArguments_Nil: "AList.map_entry k (addArguments []) L = L"
  by (induction L) (auto simp: addArguments_def)

lemma good_updatePending:
  assumes "good c x h L" shows "good (updatePending i t c) x h L" "frame (updatePending i t c) = frame c"
    "ss_toolIndexToBlockIndex (cv_state (updatePending i t c)) = ss_toolIndexToBlockIndex (cv_state c)"
proof -
  let ?f = "\<lambda>p. p\<lparr>pt_id := (if td_ID t \<noteq> [] then truncateToolCallID (td_ID t) else pt_id p),
         pt_name := (if td_Name t \<noteq> [] then td_Name t else pt_name p), pt_input := pt_input p @ td_Arguments t\<rparr>"
  let ?P = "ss_pendingToolCalls (cv_state c)"
  have u: "updatePending i t c = c\<lparr>cv_state := (cv_state c)\<lparr>ss_pendingToolCalls := AList.map_entry i ?f ?P\<rparr>\<rparr>"
    by (simp add: updatePending_def)
  have "(\<forall>(j, p) \<in> set ?P. pt_emit p) \<longrightarrow> (\<forall>(j, p) \<in> set (AList.map_entry i ?f ?P). pt_emit p)"
    using map_entry_all [of ?P pt_emit ?f i] by simp
  then show "good (updatePending i t c) x h L" using assms unfolding u
    by (simp add: good_def conv_ok_def tools_ok_def nextBlock_def openBlocks_def toolBlocks_def map_entry_set Let_def)
  show "frame (updatePending i t c) = frame c"
    "ss_toolIndexToBlockIndex (cv_state (updatePending i t c)) = ss_toolIndexToBlockIndex (cv_state c)" by (simp_all add: u)
qed

lemma good_tool_delta:
  assumes "good c x h L" "map_of (ss_toolIndexToBlockIndex (cv_state c)) k = Some i"
  shows "good (emitContentBlockDelta i (WInputJSONDelta a) c) x h (AList.map_entry k (addArguments a) L)"
proof -
  let ?T = "ss_toolIndexToBlockIndex (cv_state c)" and ?P = "ss_pendingToolCalls (cv_state c)"
  have L: "toolLog (conv_written c) = map (\<lambda>(j, y). (the (map_of ?T j), y)) L" "map fst L = map fst ?T" "distinct (map snd ?T)"
    "snd ` set ?T = toolBlocks c"
    using assms(1) by (simp_all add: good_def tools_ok_def Let_def)
  have o: "i \<in> openBlocks c"
    using conv_ok_open_blocks(3) [OF good_facts [OF assms(1)]] L(4) map_of_SomeD [OF assms(2)] by force
  have i: "j = k" if "(j, y) \<in> set L" "the (map_of ?T j) = the (map_of ?T k)" for j y
  proof -
    have "j \<in> fst ` set ?T" using that(1) L(2) by (metis fst_conv image_eqI set_map)
    then obtain m where "map_of ?T j = Some m" by (metis map_of_eq_None_iff not_Some_eq)
    then show ?thesis using map_of_inj [OF L(3)] that(2) assms(2) by simp
  qed
  have "AList.map_entry i (addArguments a) (map (\<lambda>(j, y). (the (map_of ?T j), y)) L) =
      map (\<lambda>(j, y). (the (map_of ?T j), y)) (AList.map_entry k (addArguments a) L)"
    using map_entry_rename [of L "\<lambda>j. the (map_of ?T j)" k "addArguments a", OF i] assms(2) by simp
  then show ?thesis using assms(1) conv_ok_delta [OF good_facts [OF assms(1)] o]
    by (simp add: good_def emits tools_ok_def toolBlocks_def toolStep_def Let_def) (simp add: textOf_def thinkingOf_def)
qed

lemma good_processToolCall:
  assumes "good c x h L" "unsuppressed cfg"
  shows "good (processToolCall cfg t c) x h (callStep t L) \<and> frame (processToolCall cfg t c) = frame c"
proof -
  let ?T = "ss_toolIndexToBlockIndex (cv_state c)"
  have keys: "map_of L (td_Index t) = None \<longleftrightarrow> map_of ?T (td_Index t) = None"
    using assms(1) by (simp add: good_def tools_ok_def Let_def map_of_eq_None_iff) (metis set_map)
  define c1 where "c1 = (if map_of ?T (td_Index t) = None then openTool cfg t c else c)"
  define L1 where "L1 = (if map_of L (td_Index t) = None then L @ [(td_Index t, truncateToolCallID (td_ID t), td_Name t, [])] else L)"
  have c1: "good c1 x h L1" "frame c1 = frame c"
    using good_openTool [OF assms(1) _ assms(2)] assms(1) keys by (auto simp: c1_def L1_def)
  obtain i where i: "map_of (ss_toolIndexToBlockIndex (cv_state c1)) (td_Index t) = Some i"
    using good_openTool(3) [OF assms(1) _ assms(2), where t = t] by (cases "map_of ?T (td_Index t)") (auto simp: c1_def)
  let ?c2 = "updatePending i t c1"
  note u = good_updatePending [OF c1(1), of i t]
  have T: "i \<in> toolBlocks ?c2" "\<forall>(j, p) \<in> set (ss_pendingToolCalls (cv_state ?c2)). pt_emit p"
    using u(1) map_of_SomeD [OF i] u(3) by (force simp: good_def tools_ok_def Let_def)+
  obtain p where p: "map_of (ss_pendingToolCalls (cv_state ?c2)) i = Some p" "pt_emit p"
  proof -
    obtain p where "map_of (ss_pendingToolCalls (cv_state ?c2)) i = Some p"
      using T(1) by (auto simp: toolBlocks_def dest: map_of_eq_None_iff [THEN iffD1, rotated]) (metis image_eqI fst_conv map_of_eq_None_iff not_Some_eq)
    then show ?thesis using T(2) map_of_SomeD that by fast
  qed
  have e: "processToolCall cfg t c =
      (if td_Arguments t \<noteq> [] then emitContentBlockDelta i (WInputJSONDelta (td_Arguments t)) (emitEnsureMessageStart cfg ?c2) else ?c2)"
    using i p by (simp add: processToolCall_def c1_def [symmetric] Let_def)
  have d: "good (emitContentBlockDelta i (WInputJSONDelta (td_Arguments t)) (emitEnsureMessageStart cfg ?c2)) x h
      (AList.map_entry (td_Index t) (addArguments (td_Arguments t)) L1)"
    by (rule good_tool_delta [OF good_ensure [OF u(1)]]) (use i u(3) in simp)
  have "callStep t L = AList.map_entry (td_Index t) (addArguments (td_Arguments t)) L1" by (simp add: callStep_def L1_def)
  then show ?thesis using d u(1,2) c1(2) by (auto simp: e addArguments_Nil)
qed

lemma good_processDelta:
  assumes "good c x h L" "unsuppressed cfg"
  shows "good (processDelta cfg d c) (x @ dl_Refusal d @ dl_Content d) (h @ reasoningSaid d) (fold callStep (dl_ToolCalls d) L) \<and>
    frame (processDelta cfg d c) = frame c"
proof -
  have f: "good (fold (processToolCall cfg) ts e) y g (fold callStep ts M) \<and> frame (fold (processToolCall cfg) ts e) = frame e"
    if "good e y g M" for ts e y g M using that
  proof (induction ts arbitrary: e M)
    case (Cons t ts)
    show ?case using Cons.IH [of "processToolCall cfg t e" "callStep t M"] good_processToolCall [OF Cons.prems assms(2), of t] by simp
  qed simp
  let ?a = "processExtras cfg d c" let ?b = "processText cfg (dl_Refusal d) ?a" let ?e = "processText cfg (dl_Content d) ?b"
  have a: "good ?a x (h @ reasoningSaid d) L" "frame ?a = frame c" using good_processExtras [OF assms(1)] by simp_all
  have b: "good ?b (x @ dl_Refusal d) (h @ reasoningSaid d) L" "frame ?b = frame c" using good_processText [OF a(1)] a(2) by simp_all
  have e: "good ?e ((x @ dl_Refusal d) @ dl_Content d) (h @ reasoningSaid d) L" "frame ?e = frame c"
    using good_processText [OF b(1)] b(2) by simp_all
  show ?thesis using f [OF e(1), of "dl_ToolCalls d"] e(2) by (simp add: processDelta_def)
qed

section \<open>The end of a stream\<close>

lemma stopBlock_step:
  assumes "tracks (conv_written c) fresh = Some (True, n, os, False)" "i \<in> os"
  shows "tracks (conv_written (stopBlock cfg i c)) fresh = Some (True, n, os - {i}, False)" "says_same c (stopBlock cfg i c)"
    "frame (stopBlock cfg i c) = frame c" "ss_deltaExtras (cv_state (stopBlock cfg i c)) = ss_deltaExtras (cv_state c)"
  using assms by (auto simp: stopBlock_def emits tracks_append says_same_upd frame_def)

lemma stopBlocks:
  assumes "tracks (conv_written c) fresh = Some (True, n, os, False)" "distinct L" "set L \<subseteq> os"
  shows "tracks (conv_written (fold (stopBlock cfg) L c)) fresh = Some (True, n, os - set L, False) \<and>
    says_same c (fold (stopBlock cfg) L c) \<and> frame (fold (stopBlock cfg) L c) = frame c \<and>
    ss_deltaExtras (cv_state (fold (stopBlock cfg) L c)) = ss_deltaExtras (cv_state c)"
  using assms
proof (induction L arbitrary: c os)
  case (Cons i L)
  let ?d = "stopBlock cfg i c"
  have i: "i \<in> os" using Cons.prems(3) by simp
  note d = stopBlock_step [OF Cons.prems(1) i, of cfg]
  have "tracks (conv_written (fold (stopBlock cfg) L ?d)) fresh = Some (True, n, os - {i} - set L, False) \<and>
      says_same ?d (fold (stopBlock cfg) L ?d) \<and> frame (fold (stopBlock cfg) L ?d) = frame ?d \<and>
      ss_deltaExtras (cv_state (fold (stopBlock cfg) L ?d)) = ss_deltaExtras (cv_state ?d)"
    by (rule Cons.IH [OF d(1)]) (use Cons.prems in auto)
  moreover have "os - {i} - set L = os - set (i # L)" by auto
  ultimately show ?case using d(2-) says_same_trans by auto
qed simp

lemma openIndices_all:
  assumes "conv_ok c" shows "set (openIndices c) = openBlocks c" "distinct (openIndices c)"
proof -
  note f = conv_ok_facts [OF assms]
  let ?t = "ss_thinkingBlockIndex (cv_state c)" and ?x = "ss_textBlockIndex (cv_state c)" and ?S = "ss_stoppedBlocks (cv_state c)"
  let ?A = "filter (\<lambda>i. isOpen i c) [?t, -1, -1, ?x]" and ?B = "filter (\<lambda>i. i \<notin> ?S) (map fst (ss_pendingToolCalls (cv_state c)))"
  have e: "openIndices c = sort (?A @ ?B)" by (simp add: openIndices_def f(4,5) Let_def)
  have o: "\<not> isOpen (-1) c" by (simp add: isOpen_def)
  have A: "set ?A \<subseteq> openBlocks c" "set ?A \<inter> toolBlocks c = {}" "distinct ?A"
    using f(2) o by (auto simp: isOpen_def idx_ok_def openBlocks_def)
  have B: "set ?B = toolBlocks c" "distinct ?B" using f(2,5,6) by (auto simp: toolBlocks_def idx_ok_def)
  have c: "openBlocks c \<subseteq> {?t, ?x} \<union> toolBlocks c" using f(2) by (simp add: idx_ok_def openBlocks_def)
  have "i \<in> set ?A" if "i \<in> openBlocks c" "i = ?t \<or> i = ?x" for i
  proof -
    have "isOpen i c" using that(1) by (auto simp: isOpen_def openBlocks_def)
    then show ?thesis using that(2) by auto
  qed
  then have "openBlocks c \<subseteq> set ?A \<union> toolBlocks c" using c by blast
  moreover have "toolBlocks c \<subseteq> openBlocks c" by (rule conv_ok_open_blocks(3) [OF assms])
  ultimately show "set (openIndices c) = openBlocks c" using A(1) B(1) unfolding e by (simp only: set_sort set_append) blast
  show "distinct (openIndices c)" using A(2,3) B by (simp only: e distinct_sort distinct_append)
qed

definition finishesOf :: "chatChunk list \<Rightarrow> string list" where
  "finishesOf ks = filter (\<lambda>r. r \<noteq> []) (List.map_filter (\<lambda>k. case ck_Choices k of [] \<Rightarrow> None | ch # _ \<Rightarrow> Some (ch_FinishReason ch)) ks)"

definition said :: "converter \<Rightarrow> chatChunk list \<Rightarrow> bool" where
  "said c ks \<longleftrightarrow> textOf (conv_written c) = textSaid ks \<and> thinkingOf (conv_written c) = thinkingSaid ks \<and>
     toolsOf (conv_written c) = callsSaid ks"

lemma good_said: "good c (textSaid ks) (thinkingSaid ks) (callLog ks) \<Longrightarrow> said c ks"
  by (auto simp: good_def said_def tools_ok_def toolsOf_def callsSaid_def Let_def)

lemma said_same: "said c ks \<Longrightarrow> says_same c d \<Longrightarrow> said d ks"
  by (simp add: said_def says_same_def toolsOf_def)

text \<open>The usage a finished stream reports; \<open>counter\<close> is whether there is a counter.\<close>

definition lastUsage :: "chatChunk list \<Rightarrow> TokenUsage" where
  "lastUsage ks =
     (case rev (filter (\<lambda>k. chunkHasUsage (ck_Usage k)) ks) of [] \<Rightarrow> ZeroTokenUsage | k # _ \<Rightarrow> FromOpenAIChatCompletion (ck_Usage k))"

definition finalUsage :: "convConfig \<Rightarrow> int \<Rightarrow> bool \<Rightarrow> chatChunk list \<Rightarrow> TokenUsage" where
  "finalUsage cfg est counter ks =
     (if counter then
        (let (i, o') = fst (GetCounts (cc_Encoder cfg) (countAll est ks)) in
         NewTokenUsageFull i o' (reported us_CachedTokens ks) (reported us_CacheWriteTokens ks) (reported us_ReasoningTokens ks))
      else lastUsage ks)"

text \<open>A complete message: all blocks closed, then the stop reason with the usage, then the stop.\<close>

definition terminal :: "convConfig \<Rightarrow> int \<Rightarrow> bool \<Rightarrow> chatChunk list \<Rightarrow> wireEvent list \<Rightarrow> bool" where
  "terminal cfg est counter ks ws \<longleftrightarrow>
     (\<exists>n es x. tracks ws fresh = Some (True, n, {}, True) \<and>
        ws = es @ [WMessageDelta (case map_of x ''stop_reason'' of None \<Rightarrow> cc_MapFinishReason cfg (last (finishesOf ks)) | Some v \<Rightarrow> extractString v)
          x (ToAnthropicUsageMap (finalUsage cfg est counter ks)), WMessageStop])"

text \<open>What the converter knows once it has read the chunks \<open>ks\<close>.\<close>

definition running :: "int \<Rightarrow> bool \<Rightarrow> chatChunk list \<Rightarrow> converter \<Rightarrow> bool" where
  "running est counter ks c \<longleftrightarrow>
     good c (textSaid ks) (thinkingSaid ks) (callLog ks) \<and> cv_finishSeen c = (finishesOf ks \<noteq> []) \<and>
     (finishesOf ks \<noteq> [] \<longrightarrow> cv_pendingFinishReason c = last (finishesOf ks)) \<and>
     cv_tokenCounter c = (if counter then Some (countAll est ks) else None) \<and> cv_usage c = (if counter then ZeroTokenUsage else lastUsage ks)"

lemma emitTerminal:
  assumes "running est counter ks c" "finishesOf ks \<noteq> []"
  shows "terminal cfg est counter ks (conv_written (emitTerminalEvents cfg c))" "said (emitTerminalEvents cfg c) ks"
    "cv_upstream (emitTerminalEvents cfg c) = cv_upstream c" "cv_hookErr (emitTerminalEvents cfg c) = cv_hookErr c"
    "cv_finishSeen (emitTerminalEvents cfg c) = cv_finishSeen c"
proof -
  have r: "good c (textSaid ks) (thinkingSaid ks) (callLog ks)" "cv_pendingFinishReason c = last (finishesOf ks)"
    "cv_tokenCounter c = (if counter then Some (countAll est ks) else None)" "cv_usage c = (if counter then ZeroTokenUsage else lastUsage ks)"
    using assms by (simp_all add: running_def)
  define c1 where "c1 = (case cv_tokenCounter c of
                  None \<Rightarrow> c
                | Some tc \<Rightarrow>
                    (let ((i, o'), tc1) = GetCounts (cc_Encoder cfg) tc; (cr, cw, r) = GetUpstreamDetails tc1
                     in c\<lparr>cv_tokenCounter := Some tc1, cv_usage := NewTokenUsageFull i o' cr cw r\<rparr>))"
  have c1: "conv_written c1 = conv_written c" "cv_state c1 = cv_state c" "cv_messageStarted c1 = cv_messageStarted c"
    "cv_pendingFinishReason c1 = cv_pendingFinishReason c" "cv_upstream c1 = cv_upstream c" "cv_hookErr c1 = cv_hookErr c"
    "cv_finishSeen c1 = cv_finishSeen c"
    by (simp_all add: c1_def split: option.split prod.split)
  have u: "cv_usage c1 = finalUsage cfg est counter ks"
    using r(3,4) by (simp add: c1_def finalUsage_def countAll_fields GetUpstreamDetails_def GetCounts_def flushPending_def Let_def)
  have g: "good c1 (textSaid ks) (thinkingSaid ks) (callLog ks)"
    using r(1) c1 by (simp add: good_def conv_ok_def tools_ok_def nextBlock_def openBlocks_def toolBlocks_def Let_def)
  let ?d = "emitEnsureMessageStart cfg c1"
  have d: "good ?d (textSaid ks) (thinkingSaid ks) (callLog ks)" by (rule good_ensure [OF g])
  have ok: "conv_ok ?d" by (rule good_facts [OF d])
  have t: "tracks (conv_written ?d) fresh = Some (True, nextBlock ?d, openBlocks ?d, False)" using conv_ok_facts(1) [OF ok] by simp
  let ?e = "emitStopEvents cfg ?d"
  have e: "tracks (conv_written ?e) fresh = Some (True, nextBlock ?d, {}, False)" "says_same ?d ?e" "frame ?e = frame ?d"
    using stopBlocks [OF t openIndices_all(2) [OF ok], of cfg] openIndices_all(1) [OF ok] by (simp_all add: emitStopEvents_def)
  have k: "emitTerminalEvents cfg c = emitAnthropic WMessageStop (emitMessageDelta (cc_MapFinishReason cfg (cv_pendingFinishReason c1)) ?e)"
    by (simp add: emitTerminalEvents_def c1_def [symmetric])
  have fr: "cv_usage ?e = cv_usage c1" "cv_upstream ?e = cv_upstream c1" "cv_hookErr ?e = cv_hookErr c1" "cv_finishSeen ?e = cv_finishSeen c1"
    using e(3) ensure_fields(3) [of cfg c1] by (simp_all add: frame_def)
  let ?x = "ss_deltaExtras (cv_state ?e)"
  let ?stop = "case map_of ?x ''stop_reason'' of None \<Rightarrow> cc_MapFinishReason cfg (last (finishesOf ks)) | Some v \<Rightarrow> extractString v"
  have w: "conv_written (emitTerminalEvents cfg c) =
      conv_written ?e @ [WMessageDelta ?stop ?x (ToAnthropicUsageMap (cv_usage c1)), WMessageStop]"
    using r(2) by (simp add: k emitMessageDelta_def c1(4) fr)
  have "tracks (conv_written (emitTerminalEvents cfg c)) fresh = Some (True, nextBlock ?d, {}, True)"
    unfolding w tracks_append e(1) by simp
  then show "terminal cfg est counter ks (conv_written (emitTerminalEvents cfg c))"
    unfolding terminal_def w u [symmetric] by (intro exI [of _ "nextBlock ?d"] exI [of _ "conv_written ?e"] exI [of _ ?x]) simp
  have "says_same ?e (emitTerminalEvents cfg c)" by (simp add: k emitMessageDelta_def)
  then show "said (emitTerminalEvents cfg c) ks" using said_same [OF good_said [OF d]] says_same_trans e(2) by blast
  show "cv_upstream (emitTerminalEvents cfg c) = cv_upstream c" "cv_hookErr (emitTerminalEvents cfg c) = cv_hookErr c"
    "cv_finishSeen (emitTerminalEvents cfg c) = cv_finishSeen c"
    by (simp_all add: k emitMessageDelta_def fr c1)
qed


section \<open>Reading a stream\<close>

lemma tracks_unstarted: "tracks ws fresh = Some (False, n, os, over) \<Longrightarrow> ws = []"
proof -
  have started: "tracks ws (True, m, ps, v) = Some (st, n', os', v') \<Longrightarrow> st" for ws m ps v st n' os' v'
    by (induction ws arbitrary: m ps v) (auto split: wireEvent.splits if_splits bind_splits)
  show "tracks ws fresh = Some (False, n, os, over) \<Longrightarrow> ws = []"
    by (cases ws) (auto simp: fresh_def split: wireEvent.splits if_splits bind_splits dest: started)
qed

lemma deltasOf_snoc: "deltasOf (ks @ [k]) = deltasOf ks @ (case deltaOf k of None \<Rightarrow> [] | Some d \<Rightarrow> [d])"
  by (induction ks) (auto simp: deltasOf_def map_filter_simps split: option.split)

lemma finishesOf_snoc:
  "finishesOf (ks @ [k]) = finishesOf ks @ (case ck_Choices k of [] \<Rightarrow> [] | ch # _ \<Rightarrow> if ch_FinishReason ch = [] then [] else [ch_FinishReason ch])"
  by (induction ks) (auto simp: finishesOf_def map_filter_simps split: option.split list.split)

lemma said_snoc:
  "textSaid (ks @ [k]) = textSaid ks @ (case deltaOf k of None \<Rightarrow> [] | Some d \<Rightarrow> dl_Refusal d @ dl_Content d)"
  "thinkingSaid (ks @ [k]) = thinkingSaid ks @ (case deltaOf k of None \<Rightarrow> [] | Some d \<Rightarrow> reasoningSaid d)"
  "callLog (ks @ [k]) = (case deltaOf k of None \<Rightarrow> callLog ks | Some d \<Rightarrow> fold callStep (dl_ToolCalls d) (callLog ks))"
  by (simp_all add: textSaid_def thinkingSaid_def callLog_def deltasOf_snoc split: option.split)

lemma lastUsage_snoc:
  "lastUsage (ks @ [k]) = (if chunkHasUsage (ck_Usage k) then FromOpenAIChatCompletion (ck_Usage k) else lastUsage ks)"
  by (simp add: lastUsage_def)

lemma good_upd:
  "good (c\<lparr>cv_tokenCounter := t\<rparr>) x h L = good c x h L" "good (c\<lparr>cv_usage := u\<rparr>) x h L = good c x h L"
  "good (c\<lparr>cv_pendingFinishReason := r\<rparr>) x h L = good c x h L" "good (c\<lparr>cv_finishSeen := b\<rparr>) x h L = good c x h L"
  "good (c\<lparr>cv_hookErr := e\<rparr>) x h L = good c x h L" "good (c\<lparr>cv_done := b\<rparr>) x h L = good c x h L"
  "good (c\<lparr>cv_upstream := k\<rparr>) x h L = good c x h L"
  by (simp_all add: good_def conv_ok_def tools_ok_def nextBlock_def openBlocks_def toolBlocks_def Let_def)

lemma consumeTokenCounter_good [simp]: "good (consumeTokenCounter k c) x h L = good c x h L"
  by (simp add: consumeTokenCounter_def good_upd split: option.split)

lemma consumeTokenCounter_fields [simp]:
  "cv_upstream (consumeTokenCounter k c) = cv_upstream c" "cv_done (consumeTokenCounter k c) = cv_done c"
  "cv_finishSeen (consumeTokenCounter k c) = cv_finishSeen c" "cv_hookErr (consumeTokenCounter k c) = cv_hookErr c"
  "cv_pendingFinishReason (consumeTokenCounter k c) = cv_pendingFinishReason c"
  by (simp_all add: consumeTokenCounter_def split: option.split)

lemma consumeTokenCounter_counts:
  assumes "cv_tokenCounter c = (if counter then Some (countAll est ks) else None)" "cv_usage c = (if counter then ZeroTokenUsage else lastUsage ks)"
  shows "cv_tokenCounter (consumeTokenCounter k c) = (if counter then Some (countAll est (ks @ [k])) else None)"
    "cv_usage (consumeTokenCounter k c) = (if counter then ZeroTokenUsage else lastUsage (ks @ [k]))"
  using assms by (simp_all add: consumeTokenCounter_def countAll_snoc lastUsage_snoc)


lemma processFinish_cases:
  fixes cfg r c
  defines "d \<equiv> processFinish cfg r c"
  assumes "cv_hookErr c = None" "\<not> cv_done c"
  shows "cv_upstream d = cv_upstream c" "cv_done d = (cv_hookErr d \<noteq> None)" "good d x h L = good c x h L"
    "cv_finishSeen d = (cv_finishSeen c \<or> r \<noteq> [])" "cv_pendingFinishReason d = (if r = [] then cv_pendingFinishReason c else r)"
    "cv_tokenCounter d = cv_tokenCounter c" "cv_usage d = cv_usage c"
  using assms(2,3) by (auto simp: d_def processFinish_def good_upd Let_def split: option.split)

lemma running_processChunk:
  fixes cfg k c
  defines "d \<equiv> processChunk cfg k c"
  assumes "running est counter ks c" "cv_hookErr c = None" "\<not> cv_done c" "unsuppressed cfg"
  shows "running est counter (ks @ [k]) d" "cv_upstream d = cv_upstream c" "cv_done d = (cv_hookErr d \<noteq> None)"
proof -
  have r: "good c (textSaid ks) (thinkingSaid ks) (callLog ks)" "cv_finishSeen c = (finishesOf ks \<noteq> [])"
    "finishesOf ks \<noteq> [] \<longrightarrow> cv_pendingFinishReason c = last (finishesOf ks)"
    "cv_tokenCounter c = (if counter then Some (countAll est ks) else None)" "cv_usage c = (if counter then ZeroTokenUsage else lastUsage ks)"
    using assms(2) by (simp_all add: running_def)
  have "running est counter (ks @ [k]) d \<and> cv_upstream d = cv_upstream c \<and> cv_done d = (cv_hookErr d \<noteq> None)"
  proof (cases "ck_Choices k")
    case Nil
    then show ?thesis using r consumeTokenCounter_counts [OF r(4,5)] assms(3,4)
      by (simp add: d_def processChunk_def running_def said_snoc finishesOf_snoc deltaOf_def)
  next
    case (Cons ch chs)
    let ?a = "processDelta cfg (ch_Delta ch) c" let ?b = "consumeTokenCounter k ?a"
    have a: "good ?a (textSaid ks @ dl_Refusal (ch_Delta ch) @ dl_Content (ch_Delta ch)) (thinkingSaid ks @ reasoningSaid (ch_Delta ch))
        (fold callStep (dl_ToolCalls (ch_Delta ch)) (callLog ks))" and f: "frame ?a = frame c"
      using good_processDelta [OF r(1) assms(5)] by blast+
    have g: "good ?b (textSaid (ks @ [k])) (thinkingSaid (ks @ [k])) (callLog (ks @ [k]))"
      using a by (simp add: said_snoc deltaOf_def Cons)
    have fs: "cv_upstream ?a = cv_upstream c" "cv_done ?a = cv_done c" "cv_finishSeen ?a = cv_finishSeen c" "cv_hookErr ?a = cv_hookErr c"
      "cv_pendingFinishReason ?a = cv_pendingFinishReason c" "cv_tokenCounter ?a = cv_tokenCounter c" "cv_usage ?a = cv_usage c"
      using f by (simp_all add: frame_def)
    have n: "cv_tokenCounter ?b = (if counter then Some (countAll est (ks @ [k])) else None)"
      "cv_usage ?b = (if counter then ZeroTokenUsage else lastUsage (ks @ [k]))"
      using consumeTokenCounter_counts [of ?a counter est ks k] r(4,5) fs by simp_all
    have d: "d = processFinish cfg (ch_FinishReason ch) ?b" by (simp add: d_def processChunk_def Cons)
    have h: "cv_hookErr ?b = None" "\<not> cv_done ?b" using assms(3,4) fs by simp_all
    show ?thesis using processFinish_cases [OF h, of cfg "ch_FinishReason ch"] g n fs r(2,3)
      by (auto simp: d running_def finishesOf_snoc Cons)
  qed
  then show "running est counter (ks @ [k]) d" "cv_upstream d = cv_upstream c" "cv_done d = (cv_hookErr d \<noteq> None)" by blast+
qed

text \<open>
  The three stages of a reading: chunks are read; a hook has stopped it; the stream is over.  The last is a complete
  message, a message cut off, with an error event for its end, or nothing at all.
\<close>

definition cutOff :: "wireEvent list \<Rightarrow> bool" where
  "cutOff ws \<longleftrightarrow> ws = [] \<or> (\<exists>es n os. ws = es @ [WError] \<and> tracks ws fresh = Some (True, n, os, True))"

definition ended :: "convConfig \<Rightarrow> int \<Rightarrow> bool \<Rightarrow> chatChunk list \<Rightarrow> wireEvent list \<Rightarrow> bool" where
  "ended cfg est counter ks ws \<longleftrightarrow>
     (if finishesOf ks \<noteq> [] then terminal cfg est counter ks ws else cc_StreamErr cfg = None \<and> cutOff ws)"

definition conv_inv :: "convConfig \<Rightarrow> int \<Rightarrow> bool \<Rightarrow> chatChunk list \<Rightarrow> converter \<Rightarrow> bool" where
  "conv_inv cfg est counter chunks c \<longleftrightarrow>
     (\<exists>ks. chunks = ks @ cv_upstream c \<and>
        (if cv_done c \<and> cv_hookErr c = None then cv_upstream c = [] \<and> said c ks \<and> ended cfg est counter ks (conv_written c)
         else running est counter ks c \<and> cv_done c = (cv_hookErr c \<noteq> None)))"

lemma popPending_keeps:
  assumes "popPending c = (r, d)"
  shows "conv_inv cfg est counter chunks d = conv_inv cfg est counter chunks c" "\<exists>e. r = Inr e"
    "r = Inr None \<Longrightarrow> d = c \<and> cv_pending c = []"
proof -
  have w: "conv_written d = conv_written c" "cv_state d = cv_state c" "cv_messageStarted d = cv_messageStarted c" "frame d = frame c"
    using assms by (auto simp: popPending_def conv_written_def frame_def split: list.splits)
  then have "good d x h L = good c x h L" for x h L
    by (simp add: good_def conv_ok_def tools_ok_def nextBlock_def openBlocks_def toolBlocks_def Let_def)
  then show "conv_inv cfg est counter chunks d = conv_inv cfg est counter chunks c"
    using w by (simp add: conv_inv_def running_def said_def frame_def)
  show "\<exists>e. r = Inr e" "r = Inr None \<Longrightarrow> d = c \<and> cv_pending c = []" using assms by (auto simp: popPending_def split: list.splits)
qed

lemma ended_endOfStream:
  assumes "running est counter ks c" "cv_hookErr c = None" "\<not> cv_done c" "cv_upstream c = []" "endOfStream cfg c = (r, d)"
  shows "conv_inv cfg est counter ks d" "r = Inr None \<Longrightarrow> cv_done d \<and> cv_pending d = []"
    "r = Inl e \<Longrightarrow> finishesOf ks = [] \<and> cc_StreamErr cfg = Some e \<and> d = c"
proof -
  have g: "good c (textSaid ks) (thinkingSaid ks) (callLog ks)" "cv_finishSeen c = (finishesOf ks \<noteq> [])"
    using assms(1) by (simp_all add: running_def)
  have k: "\<exists>c1. popPending (c1\<lparr>cv_done := True\<rparr>) = (r, d) \<and> conv_inv cfg est counter ks (c1\<lparr>cv_done := True\<rparr>)"
    if "finishesOf ks \<noteq> [] \<or> cc_StreamErr cfg = None"
  proof (cases "finishesOf ks = []")
    case False
    note t = emitTerminal [OF assms(1) False, of cfg]
    show ?thesis using assms(2,4,5) g(2) False t
      by (intro exI [of _ "emitTerminalEvents cfg c"]) (simp add: endOfStream_def conv_inv_def ended_def said_def)
  next
    case True
    then have n: "cc_StreamErr cfg = None" using that by simp
    note tr = conv_ok_facts(1) [OF good_facts [OF g(1)]]
    show ?thesis
    proof (cases "cv_messageStarted c")
      case started: True
      have "cutOff (conv_written (emitAnthropic WError c))" using tr started by (simp add: cutOff_def tracks_append)
      moreover have "said (emitAnthropic WError c) ks" by (rule said_same [OF good_said [OF g(1)]]) simp
      ultimately show ?thesis using assms(2,4,5) g(2) True n started
        by (intro exI [of _ "emitAnthropic WError c"]) (simp add: endOfStream_def conv_inv_def ended_def said_def)
    next
      case False
      have "cutOff (conv_written c)" using tracks_unstarted [of "conv_written c"] tr False by (simp add: cutOff_def)
      then show ?thesis using assms(2,4,5) g True n False good_said [OF g(1)]
        by (intro exI [of _ c]) (simp add: endOfStream_def conv_inv_def ended_def said_def)
    qed
  qed
  have z: "d = c \<and> (\<exists>e. r = Inl e \<and> cc_StreamErr cfg = Some e)" if "\<not> (finishesOf ks \<noteq> [] \<or> cc_StreamErr cfg = None)"
    using that assms(2,5) g(2) by (auto simp: endOfStream_def)
  show "conv_inv cfg est counter ks d"
  proof (cases "finishesOf ks \<noteq> [] \<or> cc_StreamErr cfg = None")
    case True
    then show ?thesis using k popPending_keeps(1) by blast
  next
    case False
    then show ?thesis using z assms(1-4) by (auto simp: conv_inv_def)
  qed
  show "r = Inr None \<Longrightarrow> cv_done d \<and> cv_pending d = []" using k z popPending_keeps(3) by force
  show "r = Inl e \<Longrightarrow> finishesOf ks = [] \<and> cc_StreamErr cfg = Some e \<and> d = c" using k z popPending_keeps(2) by force
qed


text \<open>What one \<open>Next\<close> does to the reading, and what its answer tells.\<close>

definition answered :: "convConfig \<Rightarrow> chatChunk list \<Rightarrow> (string + wireEvent option) \<Rightarrow> converter \<Rightarrow> bool" where
  "answered cfg chunks r d \<longleftrightarrow>
     (r = Inr None \<longrightarrow> cv_done d \<and> cv_pending d = []) \<and>
     (\<forall>e. r = Inl e \<longrightarrow> finishesOf chunks = [] \<and> cc_StreamErr cfg = Some e \<and> cv_upstream d = [] \<and> said d chunks)"

lemma popped:
  assumes "popPending c = (r, d)" "conv_inv cfg est counter chunks c" "cv_pending c \<noteq> [] \<or> cv_done c"
  shows "conv_inv cfg est counter chunks d \<and> answered cfg chunks r d"
  using popPending_keeps [OF assms(1)] assms(2,3) by (auto simp: answered_def)

lemma nextLoop_inv:
  assumes "running est counter ks c" "cv_hookErr c = None" "\<not> cv_done c" "cv_upstream c = us" "chunks = ks @ us" "unsuppressed cfg"
    "nextLoop cfg us c = (r, d)"
  shows "conv_inv cfg est counter chunks d \<and> answered cfg chunks r d"
  using assms
proof (induction us arbitrary: c ks)
  case Nil
  have "endOfStream cfg c = (r, d)" "chunks = ks" using Nil.prems(5,7) by simp_all
  note e = ended_endOfStream [OF Nil.prems(1-4) this(1)]
  have "said d chunks" if "r = Inl err" for err
    using e(3) [OF that] Nil.prems(1) good_said \<open>chunks = ks\<close> by (simp add: running_def)
  moreover have "cv_upstream d = []" if "r = Inl err" for err using e(3) [OF that] Nil.prems(4) by simp
  ultimately show ?case using e \<open>chunks = ks\<close> by (simp add: answered_def)
next
  case (Cons k us)
  let ?c = "c\<lparr>cv_upstream := us\<rparr>" let ?d = "processChunk cfg k ?c"
  have c: "running est counter ks ?c" "cv_hookErr ?c = None" "\<not> cv_done ?c" using Cons.prems(1-3) by (simp_all add: running_def good_upd)
  note p = running_processChunk [OF c Cons.prems(6), of k]
  have ch: "chunks = (ks @ [k]) @ us" using Cons.prems(5) by simp
  show ?case
  proof (cases "cv_pending ?d \<noteq> [] \<or> cv_done ?d")
    case True
    then have "popPending ?d = (r, d)" using Cons.prems(7) by (simp add: Let_def)
    moreover have "conv_inv cfg est counter chunks ?d" using p ch by (auto simp: conv_inv_def)
    ultimately show ?thesis using True popped by blast
  next
    case False
    then have "nextLoop cfg us ?d = (r, d)" using Cons.prems(7) by (simp add: Let_def)
    moreover have "cv_hookErr ?d = None" "\<not> cv_done ?d" "cv_upstream ?d = us" using False p(2,3) by simp_all
    ultimately show ?thesis using Cons.IH [OF p(1) _ _ _ ch Cons.prems(6)] by blast
  qed
qed

lemma conv_Next_inv:
  assumes "conv_inv cfg est counter chunks c" "unsuppressed cfg" "conv_Next cfg c = (r, d)"
  shows "conv_inv cfg est counter chunks d \<and> answered cfg chunks r d"
proof (cases "cv_pending c \<noteq> [] \<or> cv_done c")
  case True
  then have "popPending c = (r, d)" using assms(3) by (auto simp: conv_Next_def popPending_def split: if_splits list.split)
  then show ?thesis using True assms(1) popped by blast
next
  case False
  obtain ks where ks: "chunks = ks @ cv_upstream c" "running est counter ks c" "cv_hookErr c = None"
    using assms(1) False by (auto simp: conv_inv_def)
  show ?thesis by (rule nextLoop_inv [OF ks(2,3) _ refl ks(1) assms(2)]) (use assms(3) False in \<open>simp_all add: conv_Next_def\<close>)
qed

lemma conv_inv_start: "conv_inv cfg (if hasReq then cc_Estimate cfg else 0) counter chunks (newConverter cfg counter hasReq chunks)"
proof -
  have "countAll 0 [] = NewStreamTokenCounter" by (simp add: countAll_def SetInputTokens_def NewStreamTokenCounter_def)
  then have "running (if hasReq then cc_Estimate cfg else 0) counter [] (newConverter cfg counter hasReq chunks)"
    by (simp add: running_def newConverter_def newStreamState_def good_def conv_ok_def conv_written_def fresh_def nextBlock_def openBlocks_def
        toolBlocks_def idx_ok_def tools_ok_def textSaid_def thinkingSaid_def callLog_def deltasOf_def finishesOf_def lastUsage_def
        textOf_def thinkingOf_def toolLog_def map_filter_simps countAll_def)
  then show ?thesis unfolding conv_inv_def by (intro exI [of _ "[]"]) (simp add: newConverter_def)
qed

lemma conv_reachable_inv:
  assumes "unsuppressed cfg" "conv_reachable cfg (newConverter cfg counter hasReq chunks) c"
  shows "conv_inv cfg (if hasReq then cc_Estimate cfg else 0) counter chunks c"
  using assms(2)
proof (induction rule: conv_reachable.induct)
  case start
  show ?case by (rule conv_inv_start)
next
  case (step c r c1)
  then show ?case using conv_Next_inv [OF step.IH assms(1) step.hyps(2)] by blast
qed

lemma ended_tracks: "ended cfg est counter ks ws \<Longrightarrow> tracks ws fresh \<noteq> None"
  by (auto simp: ended_def terminal_def cutOff_def fresh_def split: if_splits)

lemma conv_inv_tracks: "conv_inv cfg est counter chunks c \<Longrightarrow> tracks (conv_written c) fresh \<noteq> None"
  unfolding conv_inv_def running_def good_def conv_ok_def using ended_tracks by (auto split: if_splits)

lemma tracks_prefix: "tracks (xs @ ys) s \<noteq> None \<Longrightarrow> tracks xs s \<noteq> None"
  by (auto simp: tracks_append split: bind_splits)


abbreviation afterNext :: "convConfig \<Rightarrow> converter \<Rightarrow> converter" where "afterNext cfg c \<equiv> snd (conv_Next cfg c)"

text \<open>The state after \<open>n\<close> further readings.\<close>

fun reads :: "convConfig \<Rightarrow> nat \<Rightarrow> converter \<Rightarrow> converter" where
  "reads cfg 0 c = c"
| "reads cfg (Suc n) c = reads cfg n (afterNext cfg c)"

lemma reachable_next: "conv_reachable cfg c0 c \<Longrightarrow> conv_reachable cfg c0 (afterNext cfg c)"
  by (cases "conv_Next cfg c") (auto intro: conv_reachable.step)

lemma reads_reachable: "conv_reachable cfg c0 c \<Longrightarrow> conv_reachable cfg c0 (reads cfg n c)"
  by (induction n arbitrary: c) (auto intro: reachable_next)

text \<open>A stream that thinks, answers in two pieces and calls two tools whose arguments come interleaved.\<close>

definition exampleUsage :: chatUsage where
  "exampleUsage = \<lparr>us_Valid = False, us_PromptTokens = 0, us_CompletionTokens = 0, us_TotalTokens = 0, us_CachedTokens = 0,
     us_CacheWriteTokens = 0, us_ReasoningTokens = 0\<rparr>"

definition exampleChunk :: "(string \<times> xvalue) list \<Rightarrow> string \<Rightarrow> toolDelta list \<Rightarrow> string \<Rightarrow> chatChunk" where
  "exampleChunk extras txt calls fin =
     \<lparr>ck_Choices = [\<lparr>ch_Delta = \<lparr>dl_Raw = Some extras, dl_Refusal = [], dl_Content = txt, dl_ToolCalls = calls, dl_FunctionName = [],
        dl_FunctionArguments = []\<rparr>, ch_FinishReason = fin\<rparr>], ck_Usage = exampleUsage\<rparr>"

definition exampleStream :: "chatChunk list" where
  "exampleStream =
     [exampleChunk [(''reasoning_content'', XStr ''hm'')] [] [] [], exampleChunk [] ''a'' [] [],
      exampleChunk [] ''b'' [\<lparr>td_Index = 0, td_ID = ''p'', td_Name = ''f'', td_Arguments = []\<rparr>] [],
      exampleChunk [] [] [\<lparr>td_Index = 1, td_ID = ''q'', td_Name = ''g'', td_Arguments = ''2''\<rparr>,
        \<lparr>td_Index = 0, td_ID = [], td_Name = [], td_Arguments = ''1''\<rparr>] ''tool_calls'']"

definition exampleConfig :: convConfig where
  "exampleConfig = \<lparr>cc_ResponseModel = ''m'', cc_MessageID = ''msg'', cc_Estimate = 3, cc_Hooks = None,
     cc_MapFinishReason = mapOpenAIFinishReasonToAnthropicBeta, cc_Signature = (\<lambda>n. []), cc_Encoder = (\<lambda>t. Some 1), cc_StreamErr = Some ''eof''\<rparr>"

definition exampleStart :: converter where "exampleStart = newConverter exampleConfig True True exampleStream"

lemma exampleConfig_unsuppressed: "unsuppressed exampleConfig"
  by (simp add: unsuppressed_def suppressed_def exampleConfig_def)

lemmas example_reachable = reads_reachable [OF conv_reachable.start [of exampleConfig exampleStart], unfolded exampleStart_def]

definition exampleEnd :: converter where "exampleEnd = afterNext exampleConfig (reads exampleConfig 18 exampleStart)"

lemma example_end:
  "conv_Next exampleConfig (reads exampleConfig 18 (newConverter exampleConfig True True exampleStream)) = (Inr None, exampleEnd)"
  "cv_hookErr exampleEnd = None"
proof -
  have "fst (conv_Next exampleConfig (reads exampleConfig 18 exampleStart)) = Inr None" by code_simp
  then show "conv_Next exampleConfig (reads exampleConfig 18 (newConverter exampleConfig True True exampleStream)) = (Inr None, exampleEnd)"
    by (simp add: prod_eq_iff exampleEnd_def exampleStart_def)
  show "cv_hookErr exampleEnd = None" by code_simp
qed

lemma example_says:
  "textSaid exampleStream = ''ab''" "callsSaid exampleStream = [(''p'', ''f'', ''1''), (''q'', ''g'', ''2'')]"
  "finishesOf exampleStream = [''tool_calls'']"
  by code_simp+

lemma nextLoop_sent: "nextLoop cfg us c = (Inr (Some e), d) \<Longrightarrow> last (cv_sent d) = e"
  by (induction us arbitrary: c) (auto simp: endOfStream_def popPending_def Let_def split: if_splits list.splits option.splits)

lemma conv_Next_sent: "conv_Next cfg c = (Inr (Some e), d) \<Longrightarrow> last (cv_sent d) = e"
  by (auto simp: conv_Next_def popPending_def split: if_splits list.splits dest: nextLoop_sent)








text \<open>A hook that hides a tool hides the start of its block and its arguments, but the end of the stream still stops the block.\<close>

definition hidingConfig :: convConfig where
  "hidingConfig = exampleConfig\<lparr>cc_Hooks := Some \<lparr>ShouldSuppressTool = Some (\<lambda>nm. nm = ''f''), OnToolCallsFinal = None\<rparr>\<rparr>"

lemma hidden_tool_is_stopped:
  "tracks (cv_sent (reads hidingConfig 9 (newConverter hidingConfig True True
     [exampleChunk [] [] [\<lparr>td_Index = 0, td_ID = ''p'', td_Name = ''f'', td_Arguments = ''1''\<rparr>] ''tool_calls'']))) fresh = None"
  by code_simp

section \<open>Reading ends\<close>

definition stops :: "(string + wireEvent option) \<Rightarrow> bool" where
  "stops r \<longleftrightarrow> (case r of Inl e \<Rightarrow> True | Inr ev \<Rightarrow> ev = None)"

text \<open>What a further answer still costs: a chunk, the end of the stream or a pending event.\<close>

definition effort :: "converter \<Rightarrow> nat \<times> nat" where
  "effort c = (length (cv_upstream c) + (if cv_done c then 0 else 1), length (cv_pending c))"

abbreviation less_effort :: "((nat \<times> nat) \<times> (nat \<times> nat)) set" where "less_effort \<equiv> less_than <*lex*> less_than"

lemma popPending_effort:
  assumes "popPending c = (r, d)" "\<not> stops r" "effort c = (a, b)" shows "\<exists>b'. effort d = (a, b') \<and> b' < b"
  using assms by (auto simp: popPending_def stops_def effort_def split: list.splits)

lemma upstream_kept:
  "cv_upstream (emitContentBlockDelta i dl c) = cv_upstream c" "cv_upstream (emitEnsureMessageStart cfg c) = cv_upstream c"
  "cv_upstream (emitCloseOpenBlock cfg c) = cv_upstream c" "cv_upstream (updatePending i t c) = cv_upstream c"
  by (simp_all add: emits emitEnsureMessageStart_def emitCloseOpenBlock_def updatePending_def Let_def)

lemma upstream_opened:
  "cv_upstream (openThinking cfg c) = cv_upstream c" "cv_upstream (openText cfg c) = cv_upstream c" "cv_upstream (openTool cfg t c) = cv_upstream c"
  by (simp_all add: openThinking_def openText_def openTool_def emits upstream_kept Let_def)

lemma upstream_fold: "(\<And>x c. cv_upstream (f x c) = cv_upstream c) \<Longrightarrow> cv_upstream (fold f xs c) = cv_upstream c"
  by (induction xs arbitrary: c) simp_all

lemma upstream_processChunk: "cv_upstream (processChunk cfg k c) = cv_upstream c"
proof -
  have e: "cv_upstream (processExtra cfg kv c) = cv_upstream c" for kv c by (simp add: processExtra_def upstream_kept upstream_opened Let_def)
  have t: "cv_upstream (processText cfg x c) = cv_upstream c" for x c by (simp add: processText_def upstream_kept upstream_opened Let_def)
  have p: "cv_upstream (processToolCall cfg t c) = cv_upstream c" for t c
    by (auto simp: processToolCall_def upstream_kept upstream_opened Let_def split: option.split)
  have f: "cv_upstream (processFinish cfg r c) = cv_upstream c" for r c
    by (simp add: processFinish_def Let_def split: option.split)
  have "cv_upstream (processDelta cfg d c) = cv_upstream c" for d
    by (simp add: processDelta_def upstream_fold [OF p] t processExtras_def upstream_fold [OF e] split: option.split)
  then show ?thesis by (simp add: processChunk_def f split: list.split)
qed

lemma upstream_terminal: "cv_upstream (emitTerminalEvents cfg c) = cv_upstream c"
proof -
  have "cv_upstream (stopBlock cfg i c) = cv_upstream c" for i c by (simp add: stopBlock_def emits)
  then have "cv_upstream (emitStopEvents cfg c) = cv_upstream c" for c by (simp add: emitStopEvents_def upstream_fold)
  then show ?thesis by (simp add: emitTerminalEvents_def emitMessageDelta_def upstream_kept Let_def split: option.split prod.split)
qed

lemma endOfStream_effort:
  assumes "endOfStream cfg c = (r, d)" "\<not> stops r" "\<not> cv_done c" shows "(effort d, effort c) \<in> less_effort"
proof -
  obtain c1 where c1: "popPending (c1\<lparr>cv_done := True\<rparr>) = (r, d)" "cv_upstream c1 = cv_upstream c"
    using assms(1,2) by (fastforce simp: endOfStream_def stops_def upstream_terminal split: if_splits option.splits)
  then show ?thesis using popPending_effort [OF c1(1) assms(2)] c1(2) assms(3) by (fastforce simp: effort_def)
qed

lemma nextLoop_effort:
  "nextLoop cfg us c = (r, d) \<Longrightarrow> \<not> stops r \<Longrightarrow> \<not> cv_done c \<Longrightarrow> cv_upstream c = us \<Longrightarrow> (effort d, effort c) \<in> less_effort"
proof (induction us arbitrary: c)
  case Nil
  then show ?case using endOfStream_effort by simp
next
  case (Cons k us)
  let ?d = "processChunk cfg k (c\<lparr>cv_upstream := us\<rparr>)"
  have u: "cv_upstream ?d = us" by (simp add: upstream_processChunk)
  show ?case
  proof (cases "cv_pending ?d \<noteq> [] \<or> cv_done ?d")
    case True
    then have "popPending ?d = (r, d)" using Cons.prems(1) by (simp add: Let_def)
    then show ?thesis using popPending_effort [OF _ Cons.prems(2)] u Cons.prems(3,4) by (fastforce simp: effort_def split: if_splits)
  next
    case False
    then have "nextLoop cfg us ?d = (r, d)" using Cons.prems(1) by (simp add: Let_def)
    then have "(effort d, effort ?d) \<in> less_effort" using Cons.IH [OF _ Cons.prems(2) _ u] False by simp
    moreover have "fst (effort ?d) < fst (effort c)" using u Cons.prems(3,4) False by (simp add: effort_def)
    ultimately show ?thesis by (cases "effort d"; cases "effort ?d"; cases "effort c") auto
  qed
qed

lemma conv_Next_effort:
  assumes "conv_Next cfg c = (r, d)" "\<not> stops r" shows "(effort d, effort c) \<in> less_effort"
proof (cases "cv_pending c \<noteq> [] \<or> cv_done c")
  case True
  then have "popPending c = (r, d)" using assms(1) by (auto simp: conv_Next_def popPending_def split: if_splits list.split)
  then show ?thesis using popPending_effort [OF _ assms(2)] by (fastforce simp: effort_def)
next
  case False
  then show ?thesis using nextLoop_effort [OF _ assms(2)] assms(1) by (simp add: conv_Next_def)
qed

text \<open>
  C33 (termination): reading ends: whatever the provider sends and the hooks decide, some number of calls of \<open>Next\<close> brings the
  reading to its end or to the error of the connection.
\<close>

theorem chat_stream_reading_ends: "\<exists>n. stops (fst (conv_Next cfg (reads cfg n c)))"
proof -
  have "wf less_effort" by (intro wf_lex_prod wf_less_than)
  then show ?thesis
  proof (induction "effort c" arbitrary: c rule: wf_induct_rule)
    case less
    show ?case
    proof (cases "stops (fst (conv_Next cfg c))")
      case True
      then show ?thesis by (intro exI [of _ 0]) simp
    next
      case False
      then have "(effort (afterNext cfg c), effort c) \<in> less_effort" using conv_Next_effort [of cfg c _ "afterNext cfg c"] by (metis prod.collapse)
      then obtain n where "stops (fst (conv_Next cfg (reads cfg n (afterNext cfg c))))" using less by blast
      then show ?thesis by (intro exI [of _ "Suc n"]) simp
    qed
  qed
qed

end
