(* ===== verification/TB_Responses.thy ===== *)
theory TB_Responses
  imports TB_Prelude
begin

text \<open>
  Requests of the Responses protocol sent to a Chat provider: the repair of the tool calls in a replayed history
  (\<^verbatim>\<open>internal/protocol/request/responses_tool_call_repair.go\<close>) and the conversion of the request
  (\<^verbatim>\<open>openai_responses_to_chat.go\<close>).  A union of the SDK is a datatype with the members the code reads, an optional
  parameter an option.  The code tells outputs apart by their address; here it is their position in the input.
\<close>

section \<open>Requests\<close>

datatype jsonVal = JNull | JString string | JObject "(string \<times> jsonVal) list" | JOther string

type_synonym jsonMap = "(string \<times> jsonVal) list"

text \<open>Parts of a content: the flag is whether the part has a cache breakpoint, an image may lack its URL.\<close>

datatype respPart = InputText string bool | InputImage "string option" bool | OtherPart

datatype outBody = OutString string | OutParts "respPart list"

record funCall =
  fc_CallID :: string
  fc_Name :: string
  fc_Arguments :: string

record funOutput =
  fo_CallID :: string
  fo_Name :: string
  fo_Output :: outBody

datatype msgContent = MsgString string | MsgParts "respPart list" | MsgNone

datatype outputPart = OutputText string | Refusal string | OutputOther

datatype respItem = ItCall funCall | ItOutput funOutput | ItMessage string msgContent | ItOutputMessage "outputPart list" | ItOther string

datatype respTool = RespFunction string "jsonMap option" "string option" | RespBuiltin string

datatype respToolChoice = ToolChoiceMode string | ToolChoiceFunction string | ToolChoiceOther

record respRequest =
  rq_Model :: string
  rq_Instructions :: "string option"
  rq_InputString :: "string option"
  rq_InputItems :: "respItem list option"
  rq_MaxOutputTokens :: "int option"
  rq_Temperature :: "rat option"
  rq_TopP :: "rat option"
  rq_Effort :: string
  rq_Tools :: "respTool list"
  rq_ToolChoice :: "respToolChoice option"
  rq_CacheKey :: string
  rq_CacheOptions :: "string \<times> string"
  rq_CacheRetention :: string
  rq_IncludeObfuscation :: bool

datatype chatPart = TextPart string bool | ImagePart string bool

datatype chatContent = ContentString string | ContentParts "chatPart list"

datatype chatMessage = UserMessage chatContent | SystemMessage chatContent | DeveloperMessage chatContent |
  AssistantMessage chatContent "funCall list" | ToolMessage chatContent string | OtherMessage string

datatype chatTool = ChatFunction string "jsonMap option" "string option" | ChatCustom string

datatype chatToolChoice = ChoiceMode string | ChoiceFunction string

record chatRequest =
  cr_Model :: string
  cr_Messages :: "chatMessage list"
  cr_MaxTokens :: "int option"
  cr_MaxCompletionTokens :: "int option"
  cr_Temperature :: "rat option"
  cr_TopP :: "rat option"
  cr_ReasoningEffort :: string
  cr_Tools :: "chatTool list"
  cr_ToolChoice :: "chatToolChoice option"
  cr_CacheKey :: string
  cr_CacheOptions :: "string \<times> string"
  cr_CacheRetention :: string
  cr_IncludeUsage :: bool
  cr_ThinkingExtra :: bool

section \<open>Repair of tool calls\<close>

definition missingToolOutputPlaceholder :: string where
  "missingToolOutputPlaceholder = ''[tool call aborted: no output was recorded for this call]''"

definition partTexts :: "respPart list \<Rightarrow> string" where
  "partTexts ps = concat (map (\<lambda>p. case p of InputText t b \<Rightarrow> t | _ \<Rightarrow> []) ps)"

definition orphanOutputToUserMessage :: "funOutput \<Rightarrow> respItem" where
  "orphanOutputToUserMessage o' =
     (let label = (if fo_Name o' \<noteq> [] then fo_Name o' else if fo_CallID o' \<noteq> [] then fo_CallID o' else ''unknown'');
          header = ''[tool output: '' @ label @ '']'';
          texts = (case fo_Output o' of OutString s \<Rightarrow> s | OutParts ps \<Rightarrow> partTexts ps);
          breakpoint = (case fo_Output o' of OutString s \<Rightarrow> False | OutParts ps \<Rightarrow> \<exists>p \<in> set ps. case p of InputText t b \<Rightarrow> b | _ \<Rightarrow> False);
          images = (case fo_Output o' of OutString s \<Rightarrow> []
                    | OutParts ps \<Rightarrow> List.map_filter (\<lambda>p. case p of InputImage (Some u) b \<Rightarrow> Some (InputImage (Some u) False) | _ \<Rightarrow> None) ps);
          text = (if texts \<noteq> [] then header @ [CHR 0x0A] @ texts else header)
      in ItMessage ''user'' (MsgParts (InputText text breakpoint # images)))"

text \<open>The first output with each identifier, with its position.\<close>

definition indexOutput :: "nat \<times> respItem \<Rightarrow> (string \<rightharpoonup> nat \<times> funOutput) \<Rightarrow> (string \<rightharpoonup> nat \<times> funOutput)" where
  "indexOutput ni m =
     (case snd ni of
        ItOutput o' \<Rightarrow> if fo_CallID o' = [] \<or> m (fo_CallID o') \<noteq> None then m else m(fo_CallID o' \<mapsto> (fst ni, o'))
      | _ \<Rightarrow> m)"

definition outputByCall :: "respItem list \<Rightarrow> (string \<rightharpoonup> nat \<times> funOutput)" where
  "outputByCall items = fold indexOutput (enumerate 0 items) Map.empty"

definition itemCallID :: "respItem \<Rightarrow> string option" where
  "itemCallID it = (case it of ItCall c \<Rightarrow> Some (fc_CallID c) | _ \<Rightarrow> None)"

definition callIDs :: "respItem list \<Rightarrow> string set" where "callIDs items = set (List.map_filter itemCallID items)"

record repairState =
  rp_out :: "respItem list"
  rp_emitted :: "nat set"
  rp_seen :: "string set"
  rp_pending :: "funCall list"

definition placeholderOutput :: "string \<Rightarrow> funOutput" where
  "placeholderOutput i = \<lparr>fo_CallID = i, fo_Name = [], fo_Output = OutString missingToolOutputPlaceholder\<rparr>"

definition placeOutput :: "(string \<rightharpoonup> nat \<times> funOutput) \<Rightarrow> funCall \<Rightarrow> repairState \<Rightarrow> repairState" where
  "placeOutput byCall c st =
     (case byCall (fc_CallID c) of
        Some (n, o') \<Rightarrow>
          if n \<notin> rp_emitted st then st\<lparr>rp_out := rp_out st @ [ItOutput o'], rp_emitted := insert n (rp_emitted st)\<rparr>
          else st\<lparr>rp_out := rp_out st @ [ItOutput (placeholderOutput (fc_CallID c))]\<rparr>
      | None \<Rightarrow> st\<lparr>rp_out := rp_out st @ [ItOutput (placeholderOutput (fc_CallID c))]\<rparr>)"

definition repairFlush :: "(string \<rightharpoonup> nat \<times> funOutput) \<Rightarrow> repairState \<Rightarrow> repairState" where
  "repairFlush byCall st =
     (if rp_pending st = [] then st
      else (fold (placeOutput byCall) (rp_pending st) (st\<lparr>rp_out := rp_out st @ map ItCall (rp_pending st)\<rparr>))\<lparr>rp_pending := []\<rparr>)"

definition repairItem :: "(string \<rightharpoonup> nat \<times> funOutput) \<Rightarrow> string set \<Rightarrow> nat \<times> respItem \<Rightarrow> repairState \<Rightarrow> repairState" where
  "repairItem byCall ids ni st =
     (case snd ni of
        ItCall c \<Rightarrow>
          if fc_CallID c \<noteq> [] \<and> fc_CallID c \<in> rp_seen st then st
          else st\<lparr>rp_seen := insert (fc_CallID c) (rp_seen st), rp_pending := rp_pending st @ [c]\<rparr>
      | ItOutput o' \<Rightarrow>
          (let s = repairFlush byCall st in
           if fst ni \<in> rp_emitted s then s
           else if fo_CallID o' \<noteq> [] \<and> fo_CallID o' \<in> ids \<and> map_option fst (byCall (fo_CallID o')) = Some (fst ni) then s
           else s\<lparr>rp_out := rp_out s @ [orphanOutputToUserMessage o']\<rparr>)
      | it \<Rightarrow> (let s = repairFlush byCall st in s\<lparr>rp_out := rp_out s @ [it]\<rparr>))"

definition RepairResponsesToolCalls :: "respItem list \<Rightarrow> respItem list" where
  "RepairResponsesToolCalls items =
     (if items = [] then items
      else rp_out (repairFlush (outputByCall items) (fold (repairItem (outputByCall items) (callIDs items)) (enumerate 0 items)
             \<lparr>rp_out = [], rp_emitted = {}, rp_seen = {}, rp_pending = []\<rparr>)))"

section \<open>Conversion to Chat\<close>

definition createMessage :: "string \<Rightarrow> string \<Rightarrow> chatMessage" where
  "createMessage role content =
     (if ToLower role = ''system'' then SystemMessage (ContentString content)
      else if ToLower role = ''user'' then UserMessage (ContentString content)
      else if ToLower role = ''assistant'' then AssistantMessage (ContentString content) []
      else UserMessage (ContentString content))"

definition outputMessageText :: "outputPart list \<Rightarrow> string option" where
  "outputMessageText ps =
     (let text = concat (map (\<lambda>p. case p of OutputText t \<Rightarrow> t | Refusal t \<Rightarrow> t | OutputOther \<Rightarrow> []) ps)
      in if text \<noteq> [] then Some text else None)"

definition responseTextContentToChatTextParts :: "respPart list \<Rightarrow> chatPart list" where
  "responseTextContentToChatTextParts ps =
     List.map_filter (\<lambda>p. case p of InputText t b \<Rightarrow> if t = [] then None else Some (TextPart t b) | _ \<Rightarrow> None) ps"

definition userParts :: "respPart list \<Rightarrow> chatPart list" where
  "userParts ps =
     List.map_filter (\<lambda>p. case p of InputText t b \<Rightarrow> Some (TextPart t b) | InputImage (Some u) b \<Rightarrow> Some (ImagePart u b) | _ \<Rightarrow> None) ps"

definition partsMessage :: "(chatContent \<Rightarrow> chatMessage) \<Rightarrow> chatPart list \<Rightarrow> chatMessage option" where
  "partsMessage mk ps = (if ps = [] then None else Some (mk (ContentParts ps)))"

definition createMessageFromResponsesContent :: "string \<Rightarrow> respPart list \<Rightarrow> chatMessage option" where
  "createMessageFromResponsesContent role ps =
     (let text = partTexts ps;
          hasImage = (\<exists>p \<in> set ps. case p of InputImage u b \<Rightarrow> True | _ \<Rightarrow> False);
          hasBreakpoint = (\<exists>p \<in> set ps. case p of InputText t b \<Rightarrow> b | InputImage u b \<Rightarrow> b | OtherPart \<Rightarrow> False)
      in if \<not> hasImage \<and> \<not> hasBreakpoint then (if text = [] then None else Some (createMessage role text))
         else if ToLower role = ''user'' then partsMessage UserMessage (userParts ps)
         else if ToLower role = ''system'' then partsMessage SystemMessage (responseTextContentToChatTextParts ps)
         else if ToLower role = ''developer'' then partsMessage DeveloperMessage (responseTextContentToChatTextParts ps)
         else if ToLower role = ''assistant'' then partsMessage (\<lambda>c. AssistantMessage c []) (responseTextContentToChatTextParts ps)
         else None)"

definition convertResponsesFunctionCallOutput :: "funOutput \<Rightarrow> chatMessage" where
  "convertResponsesFunctionCallOutput o' =
     (case fo_Output o' of
        OutString s \<Rightarrow> ToolMessage (ContentString s) (fo_CallID o')
      | OutParts ps \<Rightarrow>
          (let parts = List.map_filter (\<lambda>p. case p of InputText t b \<Rightarrow> if t = [] then None else Some (TextPart t b)
                         | InputImage (Some u) b \<Rightarrow> Some (ImagePart u b) | _ \<Rightarrow> None) ps
           in ToolMessage (if parts = [] then ContentString [] else ContentParts parts) (fo_CallID o')))"

definition flushCalls :: "funCall list \<Rightarrow> chatMessage list" where
  "flushCalls calls = (if calls = [] then [] else [AssistantMessage (ContentString []) calls])"

definition optionToList :: "'a option \<Rightarrow> 'a list" where "optionToList x = (case x of None \<Rightarrow> [] | Some y \<Rightarrow> [y])"

definition convertItem :: "respItem \<Rightarrow> chatMessage list" where
  "convertItem it =
     (case it of
        ItMessage role (MsgString s) \<Rightarrow> [createMessage role s]
      | ItMessage role (MsgParts ps) \<Rightarrow> optionToList (createMessageFromResponsesContent role ps)
      | ItOutputMessage ps \<Rightarrow> map (createMessage ''assistant'') (optionToList (outputMessageText ps))
      | ItOutput o' \<Rightarrow> [convertResponsesFunctionCallOutput o']
      | _ \<Rightarrow> [])"

fun convertLoop :: "respItem list \<Rightarrow> funCall list \<Rightarrow> chatMessage list" where
  "convertLoop [] pending = flushCalls pending"
| "convertLoop (ItCall c # items) pending = convertLoop items (pending @ [c])"
| "convertLoop (it # items) pending = flushCalls pending @ convertItem it @ convertLoop items []"

definition ConvertResponsesInputToMessages :: "respItem list \<Rightarrow> chatMessage list" where
  "ConvertResponsesInputToMessages items = convertLoop (RepairResponsesToolCalls items) []"

definition ConvertResponsesToolsToChatTools :: "respTool list \<Rightarrow> chatTool list" where
  "ConvertResponsesToolsToChatTools tools =
     List.map_filter (\<lambda>t. case t of
       RespFunction nm ps desc \<Rightarrow>
         Some (ChatFunction nm (Some (case ps of Some m \<Rightarrow> m | None \<Rightarrow> [(''type'', JString ''object''), (''properties'', JObject [])])) desc)
     | RespBuiltin nm \<Rightarrow> None) tools"

definition ConvertResponsesToolChoiceToChat :: "respToolChoice \<Rightarrow> chatToolChoice" where
  "ConvertResponsesToolChoiceToChat choice =
     (case choice of
        ToolChoiceMode m \<Rightarrow> if m \<in> {''auto'', ''none'', ''required''} then ChoiceMode m else ChoiceMode ''auto''
      | ToolChoiceFunction nm \<Rightarrow> ChoiceFunction nm
      | ToolChoiceOther \<Rightarrow> ChoiceMode ''auto'')"

definition ConvertOpenAIResponsesToChat :: "respRequest \<Rightarrow> int \<Rightarrow> chatRequest" where
  "ConvertOpenAIResponsesToChat rq defaultMaxTokens =
     \<lparr>cr_Model = rq_Model rq,
      cr_Messages =
        (case rq_Instructions rq of Some i \<Rightarrow> if i \<noteq> [] then [SystemMessage (ContentString i)] else [] | None \<Rightarrow> []) @
        (if rq_InputString rq \<noteq> None \<and> rq_InputString rq \<noteq> Some [] then [UserMessage (ContentString (the (rq_InputString rq)))]
         else (case rq_InputItems rq of Some items \<Rightarrow> ConvertResponsesInputToMessages items | None \<Rightarrow> [])),
      cr_MaxTokens = (case rq_MaxOutputTokens rq of Some n \<Rightarrow> Some n | None \<Rightarrow> if defaultMaxTokens > 0 then Some defaultMaxTokens else None),
      cr_MaxCompletionTokens = None, cr_Temperature = rq_Temperature rq, cr_TopP = rq_TopP rq, cr_ReasoningEffort = rq_Effort rq,
      cr_Tools = ConvertResponsesToolsToChatTools (rq_Tools rq),
      cr_ToolChoice = map_option ConvertResponsesToolChoiceToChat (rq_ToolChoice rq), cr_CacheKey = rq_CacheKey rq,
      cr_CacheOptions = rq_CacheOptions rq, cr_CacheRetention = rq_CacheRetention rq, cr_IncludeUsage = False, cr_ThinkingExtra = False\<rparr>"

definition OpenAIConfigFromResponses :: "respRequest \<Rightarrow> bool \<times> string" where
  "OpenAIConfigFromResponses rq =
     (if rq_Effort rq = [] \<or> rq_Effort rq = ''none'' then (False, ''none'') else (True, rq_Effort rq))"

section \<open>Histories whose calls are answered\<close>

text \<open>
  What the providers demand: a group of calls is followed by one output per call, in the order of the calls, and no
  output stands elsewhere.  \<open>cs\<close> are the calls of the group read so far, \<open>es\<close> those whose outputs are still to come.
\<close>

fun answered :: "respItem list \<Rightarrow> string list \<Rightarrow> string list \<Rightarrow> bool" where
  "answered [] cs es \<longleftrightarrow> cs = [] \<and> es = []"
| "answered (ItCall c # items) cs es \<longleftrightarrow> es = [] \<and> answered items (cs @ [fc_CallID c]) []"
| "answered (ItOutput o' # items) cs es \<longleftrightarrow>
     (if es = [] then cs \<noteq> [] \<and> fo_CallID o' = hd cs \<and> answered items [] (List.tl cs)
      else cs = [] \<and> fo_CallID o' = hd es \<and> answered items [] (List.tl es))"
| "answered (it # items) cs es \<longleftrightarrow> cs = [] \<and> es = [] \<and> answered items [] []"

fun chatAnswered :: "chatMessage list \<Rightarrow> string list \<Rightarrow> bool" where
  "chatAnswered [] es \<longleftrightarrow> es = []"
| "chatAnswered (AssistantMessage ct calls # ms) es \<longleftrightarrow> es = [] \<and> chatAnswered ms (map fc_CallID calls)"
| "chatAnswered (ToolMessage ct i # ms) es \<longleftrightarrow> es \<noteq> [] \<and> i = hd es \<and> chatAnswered ms (List.tl es)"
| "chatAnswered (m # ms) es \<longleftrightarrow> es = [] \<and> chatAnswered ms []"

subsection \<open>The repaired history, item by item\<close>

definition answerOf :: "(string \<rightharpoonup> nat \<times> funOutput) \<Rightarrow> funCall \<Rightarrow> funOutput" where
  "answerOf byCall c = (case byCall (fc_CallID c) of Some (n, o') \<Rightarrow> o' | None \<Rightarrow> placeholderOutput (fc_CallID c))"

definition group :: "(string \<rightharpoonup> nat \<times> funOutput) \<Rightarrow> funCall list \<Rightarrow> respItem list" where
  "group byCall calls = map ItCall calls @ map ItOutput (map (answerOf byCall) calls)"

definition matched :: "(string \<rightharpoonup> nat \<times> funOutput) \<Rightarrow> string set \<Rightarrow> nat \<times> funOutput \<Rightarrow> bool" where
  "matched byCall ids no \<longleftrightarrow> fo_CallID (snd no) \<noteq> [] \<and> fo_CallID (snd no) \<in> ids \<and> map_option fst (byCall (fo_CallID (snd no))) = Some (fst no)"

fun repaired :: "(string \<rightharpoonup> nat \<times> funOutput) \<Rightarrow> string set \<Rightarrow> string set \<Rightarrow> funCall list \<Rightarrow> (nat \<times> respItem) list \<Rightarrow> respItem list" where
  "repaired byCall ids seen pending [] = group byCall pending"
| "repaired byCall ids seen pending ((n, it) # items) =
     (case it of
        ItCall c \<Rightarrow>
          if fc_CallID c \<noteq> [] \<and> fc_CallID c \<in> seen then repaired byCall ids seen pending items
          else repaired byCall ids (insert (fc_CallID c) seen) (pending @ [c]) items
      | ItOutput o' \<Rightarrow>
          group byCall pending @ (if matched byCall ids (n, o') then [] else [orphanOutputToUserMessage o']) @ repaired byCall ids seen [] items
      | _ \<Rightarrow> group byCall pending @ [it] @ repaired byCall ids seen [] items)"

text \<open>What the index of the outputs says.\<close>

definition indexes :: "(nat \<times> respItem) list \<Rightarrow> (string \<rightharpoonup> nat \<times> funOutput) \<Rightarrow> bool" where
  "indexes items m \<longleftrightarrow> (\<forall>i n o'. m i = Some (n, o') \<longrightarrow> i \<noteq> [] \<and> fo_CallID o' = i \<and> (n, ItOutput o') \<in> set items)"

lemma indexesD:
  assumes "indexes items m" "m i = Some (n, o')"
  shows "i \<noteq> []" "fo_CallID o' = i" "(n, ItOutput o') \<in> set items"
  using assms unfolding indexes_def by blast+

lemma indexes_fold: "indexes us m \<Longrightarrow> indexes (us @ items) (fold indexOutput items m)"
proof (induction items arbitrary: us m)
  case (Cons ni items)
  have "indexes (us @ [ni]) (indexOutput ni m)"
    using Cons.prems by (cases ni) (auto simp: indexes_def indexOutput_def split: respItem.splits if_splits)
  from Cons.IH [OF this] show ?case by simp
qed simp

lemma outputByCall_indexes: "indexes (enumerate 0 items) (outputByCall items)"
  using indexes_fold [of "[]" Map.empty "enumerate 0 items"] by (simp add: outputByCall_def indexes_def)

lemma fold_placeOutput:
  assumes "distinct (map fc_CallID (filter (\<lambda>c. fc_CallID c \<noteq> []) calls))" "indexes items byCall"
    "\<And>c n o'. c \<in> set calls \<Longrightarrow> byCall (fc_CallID c) = Some (n, o') \<Longrightarrow> n \<notin> rp_emitted st" "distinct (map fst items)"
  shows "fold (placeOutput byCall) calls st =
    st\<lparr>rp_out := rp_out st @ map (ItOutput \<circ> answerOf byCall) calls,
       rp_emitted := rp_emitted st \<union> {n. \<exists>c \<in> set calls. \<exists>o'. byCall (fc_CallID c) = Some (n, o')}\<rparr>"
  using assms(1,3)
proof (induction calls arbitrary: st)
  case (Cons c calls)
  let ?s = "placeOutput byCall c st"
  have s: "?s = st\<lparr>rp_out := rp_out st @ [ItOutput (answerOf byCall c)],
      rp_emitted := rp_emitted st \<union> {n. \<exists>o'. byCall (fc_CallID c) = Some (n, o')}\<rparr>"
    using Cons.prems(2) [of c] by (auto simp: placeOutput_def answerOf_def split: option.split)
  have "n \<notin> rp_emitted ?s" if "d \<in> set calls" "byCall (fc_CallID d) = Some (n, o')" for d n o'
  proof
    assume "n \<in> rp_emitted ?s"
    moreover have "n \<notin> rp_emitted st" using Cons.prems(2) [of d n o'] that by simp
    ultimately obtain o2 where o2: "byCall (fc_CallID c) = Some (n, o2)" by (auto simp: s)
    note c = indexesD [OF assms(2) o2] and d = indexesD [OF assms(2) that(2)]
    have "ItOutput o2 = ItOutput o'" by (rule eq_key_imp_eq_value [OF assms(4) c(3) d(3)])
    then have "fc_CallID c = fc_CallID d" "fc_CallID c \<noteq> []" using c(1,2) d(2) by simp_all
    then show False using Cons.prems(1) that(1) by (auto simp: image_iff)
  qed
  moreover have "distinct (map fc_CallID (filter (\<lambda>c. fc_CallID c \<noteq> []) calls))" using Cons.prems(1) by (cases "fc_CallID c = []") simp_all
  ultimately have "fold (placeOutput byCall) calls ?s =
      ?s\<lparr>rp_out := rp_out ?s @ map (ItOutput \<circ> answerOf byCall) calls,
         rp_emitted := rp_emitted ?s \<union> {n. \<exists>c \<in> set calls. \<exists>o'. byCall (fc_CallID c) = Some (n, o')}\<rparr>"
    using Cons.IH [of ?s] by blast
  then show ?case by (simp add: s) (auto simp: Un_def)
qed simp


definition repair_ok :: "(nat \<times> respItem) list \<Rightarrow> (string \<rightharpoonup> nat \<times> funOutput) \<Rightarrow> string set \<Rightarrow> repairState \<Rightarrow> bool" where
  "repair_ok items byCall ids st \<longleftrightarrow>
     indexes items byCall \<and> distinct (map fst items) \<and> rp_seen st \<subseteq> ids \<and> fc_CallID ` set (rp_pending st) \<subseteq> rp_seen st \<and>
     distinct (map fc_CallID (filter (\<lambda>c. fc_CallID c \<noteq> []) (rp_pending st))) \<and>
     (\<forall>n \<in> rp_emitted st. \<exists>i o'. byCall i = Some (n, o') \<and> i \<in> rp_seen st \<and> i \<notin> fc_CallID ` set (rp_pending st))"

lemma repairFlush_ok:
  assumes "repair_ok items byCall ids st"
  shows "rp_out (repairFlush byCall st) = rp_out st @ group byCall (rp_pending st)" "rp_pending (repairFlush byCall st) = []"
    "rp_seen (repairFlush byCall st) = rp_seen st" "repair_ok items byCall ids (repairFlush byCall st)"
proof -
  have a: "indexes items byCall" "distinct (map fst items)" "rp_seen st \<subseteq> ids" "fc_CallID ` set (rp_pending st) \<subseteq> rp_seen st"
    "distinct (map fc_CallID (filter (\<lambda>c. fc_CallID c \<noteq> []) (rp_pending st)))"
    "\<forall>n \<in> rp_emitted st. \<exists>i o'. byCall i = Some (n, o') \<and> i \<in> rp_seen st \<and> i \<notin> fc_CallID ` set (rp_pending st)"
    using assms by (simp_all add: repair_ok_def)
  have new: "n \<notin> rp_emitted st" if c: "c \<in> set (rp_pending st)" "byCall (fc_CallID c) = Some (n, o')" for c n o'
  proof
    assume "n \<in> rp_emitted st"
    then obtain i o2 where i: "byCall i = Some (n, o2)" "i \<notin> fc_CallID ` set (rp_pending st)" using a(6) by blast
    note x = indexesD [OF a(1) i(1)] and y = indexesD [OF a(1) c(2)]
    have "ItOutput o2 = ItOutput o'" by (rule eq_key_imp_eq_value [OF a(2) x(3) y(3)])
    then show False using x(2) y(2) i(2) c(1) by auto
  qed
  let ?s = "st\<lparr>rp_out := rp_out st @ map ItCall (rp_pending st)\<rparr>"
  have f: "fold (placeOutput byCall) (rp_pending st) ?s =
      ?s\<lparr>rp_out := rp_out ?s @ map (ItOutput \<circ> answerOf byCall) (rp_pending st),
         rp_emitted := rp_emitted ?s \<union> {n. \<exists>c \<in> set (rp_pending st). \<exists>o'. byCall (fc_CallID c) = Some (n, o')}\<rparr>"
    by (rule fold_placeOutput [OF a(5) a(1) _ a(2)]) (use new in simp)
  show "rp_out (repairFlush byCall st) = rp_out st @ group byCall (rp_pending st)" "rp_pending (repairFlush byCall st) = []"
    "rp_seen (repairFlush byCall st) = rp_seen st"
    using f by (simp_all add: repairFlush_def group_def)
  have "rp_emitted (repairFlush byCall st) \<subseteq> rp_emitted st \<union> {n. \<exists>c \<in> set (rp_pending st). \<exists>o'. byCall (fc_CallID c) = Some (n, o')}"
    using f by (simp add: repairFlush_def)
  then have "\<forall>n \<in> rp_emitted (repairFlush byCall st). \<exists>i o'. byCall i = Some (n, o') \<and> i \<in> rp_seen st" using a(4,6) by blast
  then show "repair_ok items byCall ids (repairFlush byCall st)" using a f by (simp add: repair_ok_def repairFlush_def)
qed

lemma repair_ok_out [simp]: "repair_ok items byCall ids (st\<lparr>rp_out := x\<rparr>) = repair_ok items byCall ids st"
  by (simp add: repair_ok_def)

lemma repair_loop:
  assumes "repair_ok items byCall ids st" "set L \<subseteq> set items" "set (List.map_filter itemCallID (map snd L)) \<subseteq> ids"
  shows "rp_out (repairFlush byCall (fold (repairItem byCall ids) L st)) = rp_out st @ repaired byCall ids (rp_seen st) (rp_pending st) L"
  using assms
proof (induction L arbitrary: st)
  case Nil
  then show ?case using repairFlush_ok(1) by simp
next
  case (Cons ni L)
  obtain n it where ni: "ni = (n, it)" by fastforce
  note fl = repairFlush_ok [OF Cons.prems(1)]
  have L: "set L \<subseteq> set items" "set (List.map_filter itemCallID (map snd L)) \<subseteq> ids" "(n, it) \<in> set items"
    using Cons.prems(2,3) ni by (auto simp: map_filter_simps split: option.splits)
  have id: "itemCallID it = Some i \<Longrightarrow> i \<in> ids" for i using Cons.prems(3) ni by (simp add: map_filter_simps)
  show ?case
  proof (cases it)
    case (ItCall c)
    show ?thesis
    proof (cases "fc_CallID c \<noteq> [] \<and> fc_CallID c \<in> rp_seen st")
      case True
      then have "repairItem byCall ids ni st = st" by (simp add: ni ItCall repairItem_def)
      then show ?thesis using Cons.IH [OF Cons.prems(1) L(1,2)] True by (simp add: ni ItCall)
    next
      case False
      let ?s = "st\<lparr>rp_seen := insert (fc_CallID c) (rp_seen st), rp_pending := rp_pending st @ [c]\<rparr>"
      have a: "indexes items byCall" "fc_CallID ` set (rp_pending st) \<subseteq> rp_seen st"
        "distinct (map fc_CallID (filter (\<lambda>c. fc_CallID c \<noteq> []) (rp_pending st)))"
        "\<forall>n \<in> rp_emitted st. \<exists>i o'. byCall i = Some (n, o') \<and> i \<in> rp_seen st \<and> i \<notin> fc_CallID ` set (rp_pending st)"
        "distinct (map fst items)" "rp_seen st \<subseteq> ids"
        using Cons.prems(1) by (simp_all add: repair_ok_def)
      have "\<exists>i o'. byCall i = Some (m, o') \<and> i \<in> rp_seen ?s \<and> i \<notin> fc_CallID ` set (rp_pending ?s)" if m: "m \<in> rp_emitted st" for m
      proof -
        obtain i o' where i: "byCall i = Some (m, o')" "i \<in> rp_seen st" "i \<notin> fc_CallID ` set (rp_pending st)" using a(4) m by blast
        have "i \<noteq> fc_CallID c" using indexesD(1) [OF a(1) i(1)] i(2) False by auto
        then show ?thesis using i by auto
      qed
      moreover have "distinct (map fc_CallID (filter (\<lambda>c. fc_CallID c \<noteq> []) (rp_pending ?s)))"
        using a(2,3) False by auto
      moreover have "fc_CallID c \<in> ids" using id ItCall by (simp add: itemCallID_def)
      moreover have "fc_CallID ` set (rp_pending ?s) \<subseteq> rp_seen ?s" using a(2) by auto
      ultimately have "repair_ok items byCall ids ?s" using a(1,5,6) by (simp add: repair_ok_def)
      moreover have "repairItem byCall ids ni st = ?s" using False by (auto simp: ni ItCall repairItem_def)
      ultimately show ?thesis using Cons.IH [OF _ L(1,2), of ?s] False by (auto simp: ni ItCall)
    qed
  next
    case (ItOutput o')
    let ?f = "repairFlush byCall st"
    have m: "matched byCall ids (n, o')" if em: "n \<in> rp_emitted ?f"
    proof -
      obtain i o2 where i: "byCall i = Some (n, o2)" "i \<in> rp_seen ?f" using fl(4) em unfolding repair_ok_def by blast
      have ix: "indexes items byCall" "distinct (map fst items)" "rp_seen ?f \<subseteq> ids" using fl(4) by (simp_all add: repair_ok_def)
      note x = indexesD [OF ix(1) i(1)]
      have "ItOutput o2 = ItOutput o'" by (rule eq_key_imp_eq_value [OF ix(2) x(3)]) (use L(3) ItOutput in simp)
      then show ?thesis using x i ix(3) by (auto simp: matched_def)
    qed
    have k: "repairItem byCall ids ni st = (if matched byCall ids (n, o') then ?f else ?f\<lparr>rp_out := rp_out ?f @ [orphanOutputToUserMessage o']\<rparr>)"
      using m by (auto simp: ni ItOutput repairItem_def matched_def Let_def)
    show ?thesis
    proof (cases "matched byCall ids (n, o')")
      case True
      then show ?thesis using Cons.IH [OF fl(4) L(1,2)] fl(1-3) k by (simp add: ni ItOutput)
    next
      case False
      let ?s = "?f\<lparr>rp_out := rp_out ?f @ [orphanOutputToUserMessage o']\<rparr>"
      have "repair_ok items byCall ids ?s" using fl(4) by simp
      from Cons.IH [OF this L(1,2)] show ?thesis using False fl(1-3) k by (simp add: ni ItOutput)
    qed
  next
    case (ItMessage r x)
    let ?s = "(repairFlush byCall st)\<lparr>rp_out := rp_out (repairFlush byCall st) @ [it]\<rparr>"
    have "repair_ok items byCall ids ?s" using fl(4) by simp
    moreover have "repairItem byCall ids ni st = ?s" by (simp add: ni ItMessage repairItem_def Let_def)
    ultimately show ?thesis using Cons.IH [OF _ L(1,2), of ?s] fl(1-3) by (simp add: ni ItMessage)
  next
    case (ItOutputMessage x)
    let ?s = "(repairFlush byCall st)\<lparr>rp_out := rp_out (repairFlush byCall st) @ [it]\<rparr>"
    have "repair_ok items byCall ids ?s" using fl(4) by simp
    moreover have "repairItem byCall ids ni st = ?s" by (simp add: ni ItOutputMessage repairItem_def Let_def)
    ultimately show ?thesis using Cons.IH [OF _ L(1,2), of ?s] fl(1-3) by (simp add: ni ItOutputMessage)
  next
    case (ItOther x)
    let ?s = "(repairFlush byCall st)\<lparr>rp_out := rp_out (repairFlush byCall st) @ [it]\<rparr>"
    have "repair_ok items byCall ids ?s" using fl(4) by simp
    moreover have "repairItem byCall ids ni st = ?s" by (simp add: ni ItOther repairItem_def Let_def)
    ultimately show ?thesis using Cons.IH [OF _ L(1,2), of ?s] fl(1-3) by (simp add: ni ItOther)
  qed
qed

lemma Repair_repaired:
  "RepairResponsesToolCalls items = repaired (outputByCall items) (callIDs items) {} [] (enumerate 0 items)"
proof -
  have "repair_ok (enumerate 0 items) (outputByCall items) (callIDs items) \<lparr>rp_out = [], rp_emitted = {}, rp_seen = {}, rp_pending = []\<rparr>"
    using outputByCall_indexes by (simp add: repair_ok_def distinct_enumerate)
  from repair_loop [OF this, of "enumerate 0 items"] show ?thesis
    by (auto simp: RepairResponsesToolCalls_def callIDs_def group_def)
qed


subsection \<open>Its calls are answered\<close>

lemma answered_calls: "answered (map ItCall p @ items) cs [] = answered items (cs @ map fc_CallID p) []"
  by (induction p arbitrary: cs) simp_all

lemma answered_outputs: "answered (map ItOutput os @ items) [] (map fo_CallID os) = answered items [] []"
  by (induction os) auto

lemma answered_first: "os \<noteq> [] \<Longrightarrow> answered (map ItOutput os @ items) (map fo_CallID os) [] = answered items [] []"
  using answered_outputs by (cases os) auto

lemma answerOf_CallID:
  assumes "indexes items byCall" shows "fo_CallID (answerOf byCall c) = fc_CallID c"
  using indexesD(2) [OF assms] by (auto simp: answerOf_def placeholderOutput_def split: option.split)

lemma answered_group:
  assumes "indexes items byCall" shows "answered (group byCall p @ rest) [] [] = answered rest [] []"
proof (cases "p = []")
  case False
  have "map fc_CallID p = map fo_CallID (map (answerOf byCall) p)" using answerOf_CallID [OF assms] by simp
  then show ?thesis using answered_first [of "map (answerOf byCall) p" rest] False by (simp add: group_def answered_calls del: map_map)
qed (simp add: group_def)

lemma answered_orphan [simp]: "answered (orphanOutputToUserMessage o' # items) cs es \<longleftrightarrow> cs = [] \<and> es = [] \<and> answered items [] []"
  by (simp add: orphanOutputToUserMessage_def Let_def)

lemma answered_repaired:
  assumes "indexes items byCall" shows "answered (repaired byCall ids seen pending L) [] []"
proof (induction L arbitrary: seen pending)
  case Nil
  show ?case using answered_group [OF assms, of pending "[]"] by simp
next
  case (Cons ni L)
  note g = answered_group [OF assms]
  show ?case using Cons.IH by (cases ni; cases "snd ni") (simp_all add: g)
qed

text \<open>
  C34 (safety): whatever history a Responses client replays, the repaired one has the shape Chat and Anthropic
  providers demand: each group of calls is followed at once by exactly one output per call, in the order of the
  calls, and no output stands without its call.
\<close>

theorem repaired_calls_answered: "answered (RepairResponsesToolCalls items) [] []"
  unfolding Repair_repaired by (rule answered_repaired [OF outputByCall_indexes])

subsection \<open>Nothing is lost\<close>

definition callsOf :: "respItem list \<Rightarrow> funCall list" where
  "callsOf items = List.map_filter (\<lambda>it. case it of ItCall c \<Rightarrow> Some c | _ \<Rightarrow> None) items"

definition outputsOf :: "respItem list \<Rightarrow> funOutput list" where
  "outputsOf items = List.map_filter (\<lambda>it. case it of ItOutput o' \<Rightarrow> Some o' | _ \<Rightarrow> None) items"

definition notesOf :: "respItem list \<Rightarrow> respItem list" where
  "notesOf items = filter (\<lambda>it. case it of ItCall c \<Rightarrow> False | ItOutput o' \<Rightarrow> False | _ \<Rightarrow> True) items"

text \<open>The calls without those that repeat an identifier.\<close>

fun firstCalls :: "string set \<Rightarrow> funCall list \<Rightarrow> funCall list" where
  "firstCalls seen [] = []"
| "firstCalls seen (c # cs) =
     (if fc_CallID c \<noteq> [] \<and> fc_CallID c \<in> seen then firstCalls seen cs else c # firstCalls (insert (fc_CallID c) seen) cs)"

text \<open>What is left of an item that is neither a call nor the answer to one.\<close>

definition noteOf :: "(string \<rightharpoonup> nat \<times> funOutput) \<Rightarrow> string set \<Rightarrow> nat \<times> respItem \<Rightarrow> respItem list" where
  "noteOf byCall ids ni =
     (case snd ni of
        ItCall c \<Rightarrow> []
      | ItOutput o' \<Rightarrow> if matched byCall ids (fst ni, o') then [] else [orphanOutputToUserMessage o']
      | it \<Rightarrow> [it])"

lemma parts_append [simp]:
  "callsOf (xs @ ys) = callsOf xs @ callsOf ys" "outputsOf (xs @ ys) = outputsOf xs @ outputsOf ys" "notesOf (xs @ ys) = notesOf xs @ notesOf ys"
  by (simp_all add: callsOf_def outputsOf_def notesOf_def List.map_filter_def)

lemma parts_simps [simp]:
  "callsOf [] = []" "outputsOf [] = []" "notesOf [] = []"
  "callsOf (ItCall c # its) = c # callsOf its" "outputsOf (ItCall c # its) = outputsOf its" "notesOf (ItCall c # its) = notesOf its"
  "callsOf (ItOutput o' # its) = callsOf its" "outputsOf (ItOutput o' # its) = o' # outputsOf its" "notesOf (ItOutput o' # its) = notesOf its"
  "callsOf (ItMessage r x # its) = callsOf its" "outputsOf (ItMessage r x # its) = outputsOf its" "notesOf (ItMessage r x # its) = ItMessage r x # notesOf its"
  "callsOf (ItOutputMessage y # its) = callsOf its" "outputsOf (ItOutputMessage y # its) = outputsOf its"
  "notesOf (ItOutputMessage y # its) = ItOutputMessage y # notesOf its"
  "callsOf (ItOther z # its) = callsOf its" "outputsOf (ItOther z # its) = outputsOf its" "notesOf (ItOther z # its) = ItOther z # notesOf its"
  by (simp_all add: callsOf_def outputsOf_def notesOf_def map_filter_simps)

lemma parts_group [simp]:
  "callsOf (group byCall p) = p" "outputsOf (group byCall p) = map (answerOf byCall) p" "notesOf (group byCall p) = []"
proof -
  have a: "callsOf (map ItCall p) = p" "outputsOf (map ItCall p) = []" "notesOf (map ItCall p) = []" by (induction p) simp_all
  have b: "callsOf (map ItOutput q) = []" "outputsOf (map ItOutput q) = q" "notesOf (map ItOutput q) = []" for q by (induction q) simp_all
  show "callsOf (group byCall p) = p" "outputsOf (group byCall p) = map (answerOf byCall) p" "notesOf (group byCall p) = []"
    using a b [of "map (answerOf byCall) p"] by (simp_all add: group_def)
qed

lemma parts_orphan [simp]:
  "callsOf (orphanOutputToUserMessage o' # its) = callsOf its" "outputsOf (orphanOutputToUserMessage o' # its) = outputsOf its"
  "notesOf (orphanOutputToUserMessage o' # its) = orphanOutputToUserMessage o' # notesOf its"
  by (simp_all add: orphanOutputToUserMessage_def Let_def)

lemma parts_repaired:
  "callsOf (repaired byCall ids seen pending L) = pending @ firstCalls seen (callsOf (map snd L)) \<and>
   outputsOf (repaired byCall ids seen pending L) = map (answerOf byCall) (pending @ firstCalls seen (callsOf (map snd L))) \<and>
   notesOf (repaired byCall ids seen pending L) = concat (map (noteOf byCall ids) L)"
proof (induction L arbitrary: seen pending)
  case (Cons ni L)
  then show ?case by (cases ni; cases "snd ni") (simp_all add: noteOf_def)
qed simp

text \<open>
  C35 (functional): the repair loses nothing.  The calls are those of the history, without repeats of an identifier;
  each is answered by the first output recorded for it, or by the placeholder; all other items stay, in their
  order, and an output that answers no call stays in its place as a message of the user.
\<close>

theorem repair_keeps_content:
  "callsOf (RepairResponsesToolCalls items) = firstCalls {} (callsOf items) \<and>
   outputsOf (RepairResponsesToolCalls items) = map (answerOf (outputByCall items)) (firstCalls {} (callsOf items)) \<and>
   notesOf (RepairResponsesToolCalls items) = concat (map (noteOf (outputByCall items) (callIDs items)) (enumerate 0 items))"
  unfolding Repair_repaired using parts_repaired by simp

subsection \<open>What is in order stays\<close>

lemma answered_ids:
  "answered items cs es \<Longrightarrow> map fo_CallID (outputsOf items) = cs @ es @ map fc_CallID (callsOf items)"
proof (induction items cs es rule: answered.induct)
  case (3 o' items cs es)
  then show ?case by (cases cs; cases es) auto
qed auto

lemma answered_take:
  "answered items [] es \<Longrightarrow> take (length es) items = map ItOutput (take (length es) (outputsOf items)) \<and> length es \<le> length items"
proof (induction es arbitrary: items)
  case (Cons e es)
  show ?case
  proof (cases items)
    case (Cons it its)
    then show ?thesis using Cons.prems Cons.IH [of its] by (cases it) auto
  qed (use Cons.prems in simp)
qed simp

lemma indexOutput_keeps: "m i = Some x \<Longrightarrow> fold indexOutput L m i = Some x"
proof (induction L arbitrary: m)
  case (Cons ni L)
  have "indexOutput ni m i = Some x" using Cons.prems by (cases x) (auto simp: indexOutput_def split: respItem.split)
  then show ?case using Cons.IH by simp
qed simp

lemma indexOutput_all: "(n, ItOutput o') \<in> set L \<Longrightarrow> fo_CallID o' \<noteq> [] \<Longrightarrow> fold indexOutput L m (fo_CallID o') \<noteq> None"
proof (induction L arbitrary: m)
  case (Cons ni L)
  show ?case
  proof (cases "ni = (n, ItOutput o')")
    case True
    then obtain x where "indexOutput ni m (fo_CallID o') = Some x" using Cons.prems(2) by (cases "m (fo_CallID o')") (auto simp: indexOutput_def)
    then show ?thesis using indexOutput_keeps [of "indexOutput ni m" "fo_CallID o'" x L] by simp
  next
    case False
    then show ?thesis using Cons by auto
  qed
qed simp


text \<open>Every output of a history whose outputs have identifiers of their own is the one that is found for its identifier.\<close>

definition ownOutputs :: "(nat \<times> respItem) list \<Rightarrow> (string \<rightharpoonup> nat \<times> funOutput) \<Rightarrow> bool" where
  "ownOutputs L byCall \<longleftrightarrow> (\<forall>n o'. (n, ItOutput o') \<in> set L \<longrightarrow> byCall (fo_CallID o') = Some (n, o'))"

lemma outputsOf_positions:
  assumes "distinct (map fo_CallID (outputsOf (map snd L)))" "(n, ItOutput p) \<in> set L" "(m, ItOutput q) \<in> set L" "fo_CallID p = fo_CallID q"
  shows "n = m \<and> p = q"
  using assms
proof (induction L)
  case (Cons ni L)
  have mem: "fo_CallID q \<in> set (map fo_CallID (outputsOf (map snd L)))" if "(k, ItOutput q) \<in> set L" for k q
    using that by (induction L) (force split: respItem.splits simp: outputsOf_def map_filter_simps)+
  obtain k it where ni: "ni = (k, it)" by fastforce
  have d: "distinct (map fo_CallID (outputsOf (map snd L)))" using Cons.prems(1) ni by (cases it) simp_all
  have n: False if "it = ItOutput r" "(j, ItOutput s) \<in> set L" "fo_CallID r = fo_CallID s" for r s j
    using Cons.prems(1) mem [OF that(2)] that(1,3) ni by simp
  consider "(n, ItOutput p) \<in> set L" "(m, ItOutput q) \<in> set L" | "(n, ItOutput p) = ni" "(m, ItOutput q) = ni"
    | "(n, ItOutput p) = ni" "(m, ItOutput q) \<in> set L" | "(n, ItOutput p) \<in> set L" "(m, ItOutput q) = ni"
    using Cons.prems(2,3) by auto
  then show ?case
  proof cases
    case 1 then show ?thesis using Cons.IH [OF d] Cons.prems(4) by blast
  next
    case 2 then show ?thesis by auto
  next
    case 3 then show ?thesis using n [of p m q] Cons.prems(4) ni by auto
  next
    case 4 then show ?thesis using n [of q n p] Cons.prems(4) ni by auto
  qed
qed simp

lemma ownOutputs_distinct:
  assumes "distinct (map fo_CallID (outputsOf items))" "[] \<notin> set (map fo_CallID (outputsOf items))"
  shows "ownOutputs (enumerate 0 items) (outputByCall items)"
  unfolding ownOutputs_def
proof (intro allI impI)
  fix n o' assume o': "(n, ItOutput o') \<in> set (enumerate 0 items)"
  have "fo_CallID o' \<in> set (map fo_CallID (outputsOf items))"
  proof -
    have "ItOutput o' \<in> set items" using o' by (auto simp: in_set_enumerate_eq) (metis nth_mem)
    then show ?thesis by (induction items) (force split: respItem.splits simp: outputsOf_def map_filter_simps)+
  qed
  then have "fo_CallID o' \<noteq> []" using assms(2) by metis
  then obtain m q where q: "outputByCall items (fo_CallID o') = Some (m, q)"
    using indexOutput_all [OF o'] by (fastforce simp: outputByCall_def)
  note x = indexesD [OF outputByCall_indexes q]
  have "n = m \<and> o' = q" by (rule outputsOf_positions [OF _ o' x(3)]) (use assms(1) x(2) in simp_all)
  then show "outputByCall items (fo_CallID o') = Some (n, o')" using q by simp
qed

lemma repaired_keeps:
  assumes "ownOutputs L byCall" "fc_CallID ` set (callsOf (map snd L)) \<union> fo_CallID ` set (outputsOf (map snd L)) \<subseteq> ids - {[]}"
    "distinct (map fc_CallID (callsOf (map snd L)))" "seen \<inter> fc_CallID ` set (callsOf (map snd L)) = {}"
  shows "(answered (map snd L) (map fc_CallID pending) [] \<longrightarrow> repaired byCall ids seen pending L = map ItCall pending @ map snd L) \<and>
    (answered (map snd L) [] es \<longrightarrow> repaired byCall ids seen [] L = drop (length es) (map snd L))"
  using assms
proof (induction L arbitrary: seen pending es)
  case Nil
  show ?case by (auto simp: group_def)
next
  case (Cons ni L)
  obtain n it where ni: "ni = (n, it)" by fastforce
  have own: "ownOutputs L byCall" using Cons.prems(1) by (auto simp: ownOutputs_def)
  have sub: "fc_CallID ` set (callsOf (map snd L)) \<union> fo_CallID ` set (outputsOf (map snd L)) \<subseteq> ids - {[]}"
    and dis: "distinct (map fc_CallID (callsOf (map snd L)))" and sn: "seen \<inter> fc_CallID ` set (callsOf (map snd L)) = {}"
    using Cons.prems(2-4) unfolding ni by (cases it; auto)+
  note IH = Cons.IH [OF own sub dis]
  show ?case
  proof (cases it)
    case (ItCall c)
    have c: "fc_CallID c \<notin> seen" "insert (fc_CallID c) seen \<inter> fc_CallID ` set (callsOf (map snd L)) = {}"
      using Cons.prems(3,4) sn unfolding ni ItCall by auto
    show ?thesis using IH [OF c(2), of "pending @ [c]" "[]"] IH [OF c(2), of "[c]" "[]"] c(1) by (auto simp: ni ItCall)
  next
    case (ItOutput o')
    have own': "byCall (fo_CallID o') = Some (n, o')" using Cons.prems(1) by (simp add: ownOutputs_def ni ItOutput)
    have m: "matched byCall ids (n, o')" using own' Cons.prems(2) by (simp add: matched_def ni ItOutput)
    have a: "map ItOutput (map (answerOf byCall) calls) = take (length calls) (map snd L)"
      if "answered (map snd L) [] (map fc_CallID calls)" for calls
    proof -
      let ?q = "take (length calls) (outputsOf (map snd L))"
      have t: "take (length calls) (map snd L) = map ItOutput ?q" using answered_take [OF that] by simp
      have q: "map fo_CallID ?q = map fc_CallID calls" using answered_ids [OF that] by (simp add: take_map [symmetric])
      have "answerOf byCall c = p" if cp: "p \<in> set ?q" "fc_CallID c = fo_CallID p" for c p
      proof -
        have "ItOutput p \<in> set (map ItOutput ?q)" using cp(1) by simp
        then have "ItOutput p \<in> set (map snd L)" using t by (metis in_set_takeD)
        then obtain k where "(k, ItOutput p) \<in> set L" by auto
        then have "byCall (fo_CallID p) = Some (k, p)" using own by (simp add: ownOutputs_def)
        then show ?thesis by (simp add: answerOf_def cp(2))
      qed
      then have "map (answerOf byCall) calls = ?q" using q
        by (metis (no_types, lifting) length_map list_eq_iff_nth_eq nth_map nth_mem)
      then show ?thesis using t by simp
    qed
    have first: "repaired byCall ids seen pending (ni # L) = map ItCall pending @ it # map snd L"
      if h: "answered (it # map snd L) (map fc_CallID pending) []"
    proof -
      obtain c calls where p: "pending = c # calls" "fc_CallID c = fo_CallID o'" "answered (map snd L) [] (map fc_CallID calls)"
        using h ItOutput by (cases pending) auto
      have "repaired byCall ids seen [] L = drop (length calls) (map snd L)" using IH [OF sn, of "[]" "map fc_CallID calls"] p(3) by simp
      moreover have "answerOf byCall c = o'" using own' p(2) by (simp add: answerOf_def)
      ultimately show ?thesis using a [OF p(3)] m by (simp add: ni ItOutput p(1) group_def)
    qed
    have rest: "repaired byCall ids seen [] (ni # L) = drop (length es) (it # map snd L)" if h: "answered (it # map snd L) [] es"
    proof -
      obtain e es1 where e: "es = e # es1" "answered (map snd L) [] es1" using h ItOutput by (cases es) auto
      then show ?thesis using IH [OF sn, of "[]" es1] m by (simp add: ni ItOutput group_def)
    qed
    show ?thesis using first rest by (simp add: ni)
  next
    case (ItMessage r x)
    then show ?thesis using IH [OF sn, of "[]" "[]"] by (auto simp: ni group_def)
  next
    case (ItOutputMessage x)
    then show ?thesis using IH [OF sn, of "[]" "[]"] by (auto simp: ni group_def)
  next
    case (ItOther x)
    then show ?thesis using IH [OF sn, of "[]" "[]"] by (auto simp: ni group_def)
  qed
qed


text \<open>
  C36 (equivalence): a history that is in order already, its calls answered and their identifiers given and
  different, is forwarded as it is; so a second repair changes nothing.
\<close>

theorem repair_keeps_ordered_history:
  assumes "answered items [] []" "distinct (map fc_CallID (callsOf items))" "[] \<notin> fc_CallID ` set (callsOf items)"
  shows "RepairResponsesToolCalls items = items"
proof -
  have o': "map fo_CallID (outputsOf items) = map fc_CallID (callsOf items)" using answered_ids [OF assms(1)] by simp
  have own: "ownOutputs (enumerate 0 items) (outputByCall items)"
    by (rule ownOutputs_distinct) (use assms(2,3) o' in auto)
  have ids: "callIDs items = fc_CallID ` set (callsOf items)"
  proof -
    have "List.map_filter itemCallID items = map fc_CallID (callsOf items)" by (induction items) (auto simp: callsOf_def map_filter_simps itemCallID_def split: respItem.splits)
    then show ?thesis by (simp add: callIDs_def)
  qed
  have "fo_CallID ` set (outputsOf items) = fc_CallID ` set (callsOf items)" using o' by (metis set_map)
  then have "fc_CallID ` set (callsOf items) \<union> fo_CallID ` set (outputsOf items) \<subseteq> callIDs items - {[]}" using ids assms(3) by blast
  then show ?thesis
    using repaired_keeps [OF own, of "callIDs items" "{}" "[]" "[]"] assms(1,2) by (simp add: Repair_repaired)
qed

subsection \<open>The messages of the converted request\<close>

lemma plain_createMessage [simp]: "chatAnswered (createMessage r s # ms) es \<longleftrightarrow> es = [] \<and> chatAnswered ms []"
  by (simp add: createMessage_def)

lemma plain_fromContent:
  "createMessageFromResponsesContent r ps = Some m \<Longrightarrow> chatAnswered (m # ms) es \<longleftrightarrow> es = [] \<and> chatAnswered ms []"
  by (auto simp: createMessageFromResponsesContent_def partsMessage_def Let_def split: if_splits)

lemma chatAnswered_plain:
  assumes "\<forall>o'. it \<noteq> ItOutput o'" "\<forall>c. it \<noteq> ItCall c" shows "chatAnswered (convertItem it @ ms) [] \<longleftrightarrow> chatAnswered ms []"
proof (cases it)
  case (ItMessage r x)
  then show ?thesis using plain_fromContent
    by (cases x) (auto simp: convertItem_def optionToList_def split: option.split)
qed (use assms in \<open>auto simp: convertItem_def optionToList_def split: option.split\<close>)

lemma chatAnswered_flush: "calls \<noteq> [] \<Longrightarrow> chatAnswered (flushCalls calls @ ms) [] \<longleftrightarrow> chatAnswered ms (map fc_CallID calls)"
  by (simp add: flushCalls_def)

lemma convertItem_output:
  "chatAnswered (convertItem (ItOutput o') @ ms) es \<longleftrightarrow> es \<noteq> [] \<and> fo_CallID o' = hd es \<and> chatAnswered ms (List.tl es)"
  by (auto simp: convertItem_def convertResponsesFunctionCallOutput_def Let_def split: outBody.split)

lemma convertLoop_answered:
  "(answered items (map fc_CallID pending) [] \<longrightarrow> chatAnswered (convertLoop items pending) []) \<and>
   (answered items [] es \<longrightarrow> chatAnswered (convertLoop items []) es)"
proof (induction items arbitrary: pending es)
  case Nil
  show ?case by (simp add: flushCalls_def)
next
  case (Cons it items)
  have none: "flushCalls [] = []" by (simp add: flushCalls_def)
  show ?case
  proof (cases it)
    case (ItCall c)
    show ?thesis using Cons.IH [of "pending @ [c]" "[]"] Cons.IH [of "[c]" "[]"] by (auto simp: ItCall)
  next
    case (ItOutput o')
    have "chatAnswered (convertLoop (it # items) pending) []" if h: "answered (it # items) (map fc_CallID pending) []"
    proof -
      obtain c calls where p: "pending = c # calls" "fc_CallID c = fo_CallID o'" "answered items [] (map fc_CallID calls)"
        using h ItOutput by (cases pending) auto
      then show ?thesis using Cons.IH [of "[]" "map fc_CallID calls"] by (simp add: ItOutput chatAnswered_flush convertItem_output)
    qed
    moreover have "chatAnswered (convertLoop (it # items) []) es" if h: "answered (it # items) [] es"
    proof -
      have "es \<noteq> []" "fo_CallID o' = hd es" "answered items [] (List.tl es)" using h ItOutput by (auto split: if_splits)
      then show ?thesis using Cons.IH [of "[]" "List.tl es"] by (simp add: ItOutput convertItem_output none)
    qed
    ultimately show ?thesis by blast
  next
    case (ItMessage r x)
    then show ?thesis using Cons.IH [of "[]" "[]"] chatAnswered_plain [of it] by (auto simp: none)
  next
    case (ItOutputMessage x)
    then show ?thesis using Cons.IH [of "[]" "[]"] chatAnswered_plain [of it] by (auto simp: none)
  next
    case (ItOther x)
    then show ?thesis using Cons.IH [of "[]" "[]"] chatAnswered_plain [of it] by (auto simp: none)
  qed
qed


lemma convertLoop_request_answered: "chatAnswered (cr_Messages (ConvertOpenAIResponsesToChat rq d)) []"
proof -
  have "answered (RepairResponsesToolCalls items) [] []" for items
    unfolding Repair_repaired by (rule answered_repaired [OF outputByCall_indexes])
  then have "chatAnswered (ConvertResponsesInputToMessages items) []" for items
    using convertLoop_answered [of "RepairResponsesToolCalls items" "[]" "[]"] by (simp add: ConvertResponsesInputToMessages_def)
  then show ?thesis by (simp add: ConvertOpenAIResponsesToChat_def split: option.split)
qed

text \<open>
  Every chat request that is made of a Responses request meets the providers' rule for tools: an
  assistant message with tool calls is followed at once by one tool message per call, in the order of the calls, and
  there is no other tool message, whatever the client sent.
\<close>

theorem converted_request_answered: "chatAnswered (cr_Messages (ConvertOpenAIResponsesToChat rq d)) []"
  by (rule convertLoop_request_answered)

text \<open>A history in which a call was interrupted, an output came without its call and another call is answered late.\<close>

definition brokenHistory :: "respItem list" where
  "brokenHistory =
     [ItOutput \<lparr>fo_CallID = ''x'', fo_Name = ''ls'', fo_Output = OutString ''a.txt''\<rparr>,
      ItCall \<lparr>fc_CallID = ''1'', fc_Name = ''f'', fc_Arguments = ''{}''\<rparr>, ItCall \<lparr>fc_CallID = ''2'', fc_Name = ''g'', fc_Arguments = ''{}''\<rparr>,
      ItMessage ''user'' (MsgString ''go on''),
      ItOutput \<lparr>fo_CallID = ''2'', fo_Name = [], fo_Output = OutString ''ok''\<rparr>]"

lemma brokenHistory_repaired:
  "RepairResponsesToolCalls brokenHistory =
     [ItMessage ''user'' (MsgParts [InputText (''[tool output: ls]'' @ [CHR 0x0A] @ ''a.txt'') False]),
      ItCall \<lparr>fc_CallID = ''1'', fc_Name = ''f'', fc_Arguments = ''{}''\<rparr>, ItCall \<lparr>fc_CallID = ''2'', fc_Name = ''g'', fc_Arguments = ''{}''\<rparr>,
      ItOutput (placeholderOutput ''1''), ItOutput \<lparr>fo_CallID = ''2'', fo_Name = [], fo_Output = OutString ''ok''\<rparr>,
      ItMessage ''user'' (MsgString ''go on'')]"
  by code_simp

theorem repair_keeps_ordered_history_witness:
  "RepairResponsesToolCalls (RepairResponsesToolCalls brokenHistory) = RepairResponsesToolCalls brokenHistory"
  by (rule repair_keeps_ordered_history) (simp_all add: brokenHistory_repaired placeholderOutput_def)

text \<open>Instructions of a developer given as a text become a message of the user; given in parts with a breakpoint they stay his.\<close>

lemma developer_text_to_user:
  "convertItem (ItMessage ''developer'' (MsgString t)) = [UserMessage (ContentString t)]"
  "convertItem (ItMessage ''developer'' (MsgParts [InputText ''t'' True])) = [DeveloperMessage (ContentParts [TextPart ''t'' True])]"
  by (simp add: convertItem_def createMessage_def ToLower_def lower_char_def) code_simp

text \<open>An image in a message of another role than the user's is dropped, and with it the whole message if it has no text.\<close>

lemma image_of_system_dropped: "convertItem (ItMessage ''system'' (MsgParts [InputImage (Some u) b])) = []"
proof -
  have "ToLower ''system'' = ''system''" by code_simp
  then show ?thesis
    by (simp add: convertItem_def createMessageFromResponsesContent_def partsMessage_def responseTextContentToChatTextParts_def
        optionToList_def map_filter_simps Let_def)
qed

end
