(* ===== verification/TB_Transform.thy ===== *)
theory TB_Transform
  imports TB_Attempt TB_Responses
begin

text \<open>
  The transforms a request passes before it is sent (\<^verbatim>\<open>internal/protocol/transform\<close>, \<^verbatim>\<open>internal/protocolserver/transform\<close>): the
  chain that applies them (\<^verbatim>\<open>chain.go\<close>), the blocking of tools (\<^verbatim>\<open>tool_block.go\<close>), the conversion between the protocols
  (\<^verbatim>\<open>base.go\<close>), the limits of the output (\<^verbatim>\<open>transform_max_tokens.go\<close>), the checks that make a request acceptable to every
  provider (\<^verbatim>\<open>consistency.go\<close>), the rewrites a rule asks for (\<^verbatim>\<open>rule_thinking.go\<close>, \<^verbatim>\<open>openai_max_tokens_rewrite.go\<close>), and the
  chain of an attempt (\<^verbatim>\<open>protocolserver/protocol_transform.go\<close>).  A transform changes the context in place and may fail, so
  it returns the context with the error.  Of the SDK's requests the parts these transforms read are kept; the
  conversions that are not in \<open>TB_Responses\<close> are arguments.
\<close>

section \<open>Requests and contexts\<close>

datatype anthropicTool = AnthropicTool string | AnthropicBuiltin string

datatype thinkingConfig = ThinkingUnset | ThinkingDisabled | ThinkingAdaptive | ThinkingEnabled int

record anthropicRequest =
  an_Model :: string
  an_MaxTokens :: int
  an_Thinking :: thinkingConfig
  an_Effort :: string
  an_Temperature :: "rat option"
  an_TopP :: "rat option"
  an_Tools :: "anthropicTool list"

text \<open>A Google request may lack its configuration, and then has no tools; of a tool the declared functions are kept, each of which may be nil.\<close>

record googleRequest =
  gr_Tools :: "string option list option list option"
  gr_MaxOutputTokens :: int

datatype requestUnion = ReqChat chatRequest | ReqResponses respRequest | ReqAnthropicV1 anthropicRequest |
  ReqAnthropicBeta anthropicRequest | ReqGoogle googleRequest

record OpenAIConfig =
  oc_HasThinking :: bool
  oc_ReasoningEffort :: string

record TransformContext =
  tx_Request :: requestUnion
  tx_Original :: "requestUnion option"
  tx_ScenarioFlags :: "ScenarioFlags option"
  tx_IsStreaming :: bool
  tx_Steps :: "string list"
  tx_MaxTokens :: int
  tx_UserID :: string
  tx_Device :: string
  tx_Provider :: "AIProvider option"
  tx_Extra :: "(string \<times> string) list"
  tx_OpenAIConfig :: "OpenAIConfig option"
  tx_ResponsesConfig :: "OpenAIConfig option"

datatype transform_error = ValidationError string string | UnknownTarget string | UnsupportedRequest string | IncompatibleVersions |
  NoRoomForThinking int

record transformer =
  tr_Name :: string
  tr_Apply :: "TransformContext \<Rightarrow> TransformContext \<times> transform_error option"

section \<open>The chain\<close>

type_synonym TransformChain = "transformer option list"

definition NewTransformContext :: "requestUnion \<Rightarrow> (TransformContext \<Rightarrow> TransformContext) list \<Rightarrow> TransformContext" where
  "NewTransformContext r opts =
     fold (\<lambda>f x. f x) opts \<lparr>tx_Request = r, tx_Original = Some r, tx_ScenarioFlags = None, tx_IsStreaming = False, tx_Steps = [],
       tx_MaxTokens = 0, tx_UserID = [], tx_Device = [], tx_Provider = None, tx_Extra = [],
       tx_OpenAIConfig = None, tx_ResponsesConfig = None\<rparr>"

definition configExtraForMetadata :: "TransformContext \<Rightarrow> (string \<times> string) list" where
  "configExtraForMetadata x =
     fold (\<lambda>(k, v). AList.update k v) (tx_Extra x)
       ((if tx_UserID x \<noteq> [] then [(''user_id'', tx_UserID x)] else []) @ (if tx_Device x \<noteq> [] then [(''device'', tx_Device x)] else []))"

fun executeLoop :: "TransformChain \<Rightarrow> TransformContext \<Rightarrow> TransformContext \<times> (string \<times> transform_error) option" where
  "executeLoop [] x = (x, None)"
| "executeLoop (None # ts) x = executeLoop ts x"
| "executeLoop (Some t # ts) x =
     (let (x1, e) = tr_Apply t (x\<lparr>tx_Steps := tx_Steps x @ [tr_Name t]\<rparr>)
      in case e of Some err \<Rightarrow> (x1, Some (tr_Name t, err)) | None \<Rightarrow> executeLoop ts x1)"

definition Execute :: "TransformChain \<Rightarrow> TransformContext \<Rightarrow> TransformContext \<times> (string \<times> transform_error) option" where
  "Execute ts x = executeLoop ts (x\<lparr>tx_Original := (case tx_Original x of None \<Rightarrow> Some (tx_Request x) | Some r \<Rightarrow> Some r)\<rparr>)"

definition chain_Add :: "transformer option \<Rightarrow> TransformChain \<Rightarrow> TransformChain" where "chain_Add t ts = ts @ [t]"

section \<open>Blocking tools\<close>

definition NewToolBlockTransform :: "string list \<Rightarrow> string set" where "NewToolBlockTransform names = {n \<in> set names. n \<noteq> []}"

definition openAIChatToolName :: "chatTool \<Rightarrow> string" where
  "openAIChatToolName t = (case t of ChatFunction nm ps d \<Rightarrow> nm | ChatCustom nm \<Rightarrow> nm)"

definition applyToolBlockOpenAIChat :: "string set \<Rightarrow> chatRequest \<Rightarrow> chatRequest" where
  "applyToolBlockOpenAIChat blocked r =
     r\<lparr>cr_Tools := filter (\<lambda>t. \<not> (openAIChatToolName t \<noteq> [] \<and> openAIChatToolName t \<in> blocked)) (cr_Tools r)\<rparr>"

definition applyToolBlockResponses :: "string set \<Rightarrow> respRequest \<Rightarrow> respRequest" where
  "applyToolBlockResponses blocked r =
     r\<lparr>rq_Tools := filter (\<lambda>t. \<not> (case t of RespFunction nm ps d \<Rightarrow> nm \<in> blocked | RespBuiltin nm \<Rightarrow> False)) (rq_Tools r)\<rparr>"

definition applyToolBlockAnthropic :: "string set \<Rightarrow> anthropicRequest \<Rightarrow> anthropicRequest" where
  "applyToolBlockAnthropic blocked r =
     r\<lparr>an_Tools := filter (\<lambda>t. \<not> (case t of AnthropicTool nm \<Rightarrow> nm \<in> blocked | AnthropicBuiltin nm \<Rightarrow> False)) (an_Tools r)\<rparr>"

definition applyToolBlockGoogle :: "string set \<Rightarrow> googleRequest \<Rightarrow> googleRequest" where
  "applyToolBlockGoogle blocked r =
     r\<lparr>gr_Tools := map_option (map (map_option (filter (\<lambda>fd. \<not> (case fd of Some nm \<Rightarrow> nm \<in> blocked | None \<Rightarrow> False))))) (gr_Tools r)\<rparr>"

definition ToolBlock_Apply :: "string set \<Rightarrow> TransformContext \<Rightarrow> TransformContext \<times> transform_error option" where
  "ToolBlock_Apply blocked x =
     (if blocked = {} then (x, None)
      else
        (x\<lparr>tx_Request :=
           (case tx_Request x of
              ReqChat r \<Rightarrow> ReqChat (applyToolBlockOpenAIChat blocked r)
            | ReqResponses r \<Rightarrow> ReqResponses (applyToolBlockResponses blocked r)
            | ReqAnthropicV1 r \<Rightarrow> ReqAnthropicV1 (applyToolBlockAnthropic blocked r)
            | ReqAnthropicBeta r \<Rightarrow> ReqAnthropicBeta (applyToolBlockAnthropic blocked r)
            | ReqGoogle r \<Rightarrow> ReqGoogle (applyToolBlockGoogle blocked r))\<rparr>, None))"

definition ToolBlock :: "string list \<Rightarrow> transformer" where
  "ToolBlock names = \<lparr>tr_Name = ''tool_block'', tr_Apply = ToolBlock_Apply (NewToolBlockTransform names)\<rparr>"

section \<open>Consistency\<close>

definition normalizeSchema :: "jsonMap option \<Rightarrow> jsonMap" where
  "normalizeSchema ps =
     (let m = (case ps of None \<Rightarrow> [] | Some p \<Rightarrow> p);
          m1 = (if map_of m ''type'' = None then AList.update ''type'' (JString ''object'') m else m)
      in if map_of m1 ''type'' = Some (JString ''object'') \<and> map_of m1 ''properties'' \<in> {None, Some JNull}
         then AList.update ''properties'' (JObject []) m1 else m1)"

definition normalizeToolSchemas :: "chatTool list \<Rightarrow> chatTool list" where
  "normalizeToolSchemas ts =
     map (\<lambda>t. case t of ChatFunction nm ps d \<Rightarrow> ChatFunction nm (Some (normalizeSchema ps)) d | ChatCustom nm \<Rightarrow> ChatCustom nm) ts"

definition normalizeResponseToolSchemas :: "respTool list \<Rightarrow> respTool list" where
  "normalizeResponseToolSchemas ts =
     map (\<lambda>t. case t of RespFunction nm ps d \<Rightarrow> RespFunction nm (Some (normalizeSchema ps)) d | RespBuiltin nm \<Rightarrow> RespBuiltin nm) ts"

definition validToolCallIDs :: "chatMessage list \<Rightarrow> string set" where
  "validToolCallIDs ms =
     {i \<in> set (concat (map (\<lambda>m. case m of AssistantMessage ct calls \<Rightarrow> map fc_CallID calls | _ \<Rightarrow> []) ms)). i \<noteq> []}"

definition toUserMessage :: "chatContent \<Rightarrow> chatMessage" where
  "toUserMessage ct =
     (case ct of
        ContentString s \<Rightarrow> UserMessage (ContentString s)
      | ContentParts ps \<Rightarrow> if ps \<noteq> [] then UserMessage (ContentParts ps) else UserMessage (ContentString []))"

definition AlignToolMessagesForOpenAI :: "chatMessage list \<Rightarrow> chatMessage list" where
  "AlignToolMessagesForOpenAI ms =
     map (\<lambda>m. case m of
            ToolMessage ct i \<Rightarrow> if i \<noteq> [] \<and> i \<in> validToolCallIDs ms then m else toUserMessage ct
          | _ \<Rightarrow> m) ms"

definition maxToolCallIDLength :: nat where "maxToolCallIDLength = 40"

definition normalizeMessages :: "chatMessage list \<Rightarrow> chatMessage list" where
  "normalizeMessages ms =
     map (\<lambda>m. case m of ToolMessage ct i \<Rightarrow> if length i > maxToolCallIDLength then ToolMessage ct (take maxToolCallIDLength i) else m | _ \<Rightarrow> m)
       (AlignToolMessagesForOpenAI ms)"

text \<open>The value of an optional parameter is 0 when it is not set.\<close>

definition optValue :: "'a::zero option \<Rightarrow> 'a" where "optValue x = (case x of Some v \<Rightarrow> v | None \<Rightarrow> 0)"

definition applyScenarioFlags :: "ScenarioFlags option \<Rightarrow> bool \<Rightarrow> chatRequest \<Rightarrow> chatRequest" where
  "applyScenarioFlags flags streaming r =
     (case flags of Some f \<Rightarrow> if streaming \<and> sf_SkipUsage f then r\<lparr>cr_IncludeUsage := False\<rparr> else r | None \<Rightarrow> r)"

definition applyResponseScenarioFlags :: "ScenarioFlags option \<Rightarrow> bool \<Rightarrow> respRequest \<Rightarrow> respRequest" where
  "applyResponseScenarioFlags flags streaming r =
     (case flags of Some f \<Rightarrow> if streaming \<and> sf_SkipUsage f then r\<lparr>rq_IncludeObfuscation := False\<rparr> else r | None \<Rightarrow> r)"

definition validateChatCompletion :: "chatRequest \<Rightarrow> transform_error option" where
  "validateChatCompletion r =
     (if optValue (cr_Temperature r) < 0 \<or> optValue (cr_Temperature r) > 2 then Some (ValidationError ''temperature'' ''temperature must be between 0 and 2'')
      else if optValue (cr_MaxTokens r) < 0 then Some (ValidationError ''max_tokens'' ''max_tokens must be non-negative'')
      else if optValue (cr_TopP r) < 0 \<or> optValue (cr_TopP r) > 1 then Some (ValidationError ''top_p'' ''top_p must be between 0 and 1'')
      else None)"

definition validateResponses :: "respRequest \<Rightarrow> transform_error option" where
  "validateResponses r =
     (if rq_Temperature r = None \<and> (optValue (rq_Temperature r) < 0 \<or> optValue (rq_Temperature r) > 2)
      then Some (ValidationError ''temperature'' ''temperature must be between 0 and 2'')
      else if rq_MaxOutputTokens r = None \<and> optValue (rq_MaxOutputTokens r) < 0
      then Some (ValidationError ''max_output_tokens'' ''max_output_tokens must be non-negative'')
      else if rq_TopP r = None \<and> (optValue (rq_TopP r) < 0 \<or> optValue (rq_TopP r) > 1)
      then Some (ValidationError ''top_p'' ''top_p must be between 0 and 1'')
      else None)"

definition validateAnthropicCommon :: "string \<Rightarrow> anthropicRequest \<Rightarrow> transform_error option" where
  "validateAnthropicCommon variant r =
     (if an_MaxTokens r = 0 then Some (ValidationError ''max_tokens'' (''max_tokens is required for Anthropic '' @ variant @ '' Messages API''))
      else if an_Model r = [] then Some (ValidationError ''model'' ''model is required'')
      else if an_Temperature r \<noteq> None \<and> (optValue (an_Temperature r) < 0 \<or> optValue (an_Temperature r) > 1)
      then Some (ValidationError ''temperature'' (''temperature must be between 0 and 1 for Anthropic '' @ variant))
      else if an_TopP r \<noteq> None \<and> (optValue (an_TopP r) < 0 \<or> optValue (an_TopP r) > 1)
      then Some (ValidationError ''top_p'' (''top_p must be between 0 and 1 for Anthropic '' @ variant))
      else None)"

definition normalizeChatCompletion :: "TransformContext \<Rightarrow> TransformContext \<times> transform_error option" where
  "normalizeChatCompletion x =
     (case tx_Request x of
        ReqChat r \<Rightarrow>
          (let r1 = r\<lparr>cr_Tools := normalizeToolSchemas (cr_Tools r)\<rparr>;
               r2 = applyScenarioFlags (tx_ScenarioFlags x) (tx_IsStreaming x) r1;
               r3 = r2\<lparr>cr_Messages := normalizeMessages (cr_Messages r2)\<rparr>
           in (x\<lparr>tx_Request := ReqChat r3\<rparr>, validateChatCompletion r3))
      | _ \<Rightarrow> (x, Some (ValidationError ''request'' ''expected *openai.ChatCompletionNewParams for OpenAI Chat normalization'')))"

definition normalizeResponses :: "TransformContext \<Rightarrow> TransformContext \<times> transform_error option" where
  "normalizeResponses x =
     (case tx_Request x of
        ReqResponses r \<Rightarrow>
          (let r1 = r\<lparr>rq_Tools := normalizeResponseToolSchemas (rq_Tools r)\<rparr>;
               r2 = applyResponseScenarioFlags (tx_ScenarioFlags x) (tx_IsStreaming x) r1
           in (x\<lparr>tx_Request := ReqResponses r2\<rparr>, validateResponses r2))
      | _ \<Rightarrow> (x, Some (ValidationError ''request'' ''expected *responses.ResponseNewParams for Responses API normalization'')))"

definition normalizeAnthropicV1 :: "TransformContext \<Rightarrow> TransformContext \<times> transform_error option" where
  "normalizeAnthropicV1 x =
     (case tx_Request x of
        ReqAnthropicV1 r \<Rightarrow> (x, validateAnthropicCommon ''v1'' r)
      | _ \<Rightarrow> (x, Some (ValidationError ''request'' ''expected *anthropic.MessageNewParams for Anthropic v1 normalization'')))"

definition normalizeAnthropicBeta :: "TransformContext \<Rightarrow> TransformContext \<times> transform_error option" where
  "normalizeAnthropicBeta x =
     (case tx_Request x of
        ReqAnthropicBeta r \<Rightarrow> (x, validateAnthropicCommon ''beta'' r)
      | _ \<Rightarrow> (x, Some (ValidationError ''request'' ''expected *anthropic.BetaMessageNewParams for Anthropic beta normalization'')))"

definition Consistency_Apply :: "string \<Rightarrow> TransformContext \<Rightarrow> TransformContext \<times> transform_error option" where
  "Consistency_Apply style x =
     (if style = TypeOpenAIChat then normalizeChatCompletion x
      else if style = TypeOpenAIResponses then normalizeResponses x
      else if style = TypeAnthropicV1 then normalizeAnthropicV1 x
      else if style = TypeAnthropicBeta then normalizeAnthropicBeta x
      else (x, None))"

definition ConsistencyTransform :: "string \<Rightarrow> transformer" where
  "ConsistencyTransform style = \<lparr>tr_Name = ''consistency_normalize'', tr_Apply = Consistency_Apply style\<rparr>"

section \<open>Thinking\<close>

definition BudgetMapping :: "(string \<times> int) list" where
  "BudgetMapping = [(''minimal'', 1024), (''low'', 4096), (''medium'', 10240), (''high'', 20480), (''xhigh'', 24576), (''max'', 31999)]"

definition EffortFromBudget :: "int \<Rightarrow> string" where
  "EffortFromBudget b =
     (if b \<le> the (map_of BudgetMapping ''minimal'') then ''minimal''
      else if b \<le> the (map_of BudgetMapping ''low'') then ''low''
      else if b \<le> the (map_of BudgetMapping ''medium'') then ''medium''
      else if b \<le> the (map_of BudgetMapping ''high'') then ''high''
      else if b \<le> the (map_of BudgetMapping ''xhigh'') then ''xhigh''
      else ''max'')"

definition AnthropicEffort :: "string \<Rightarrow> string" where
  "AnthropicEffort level =
     (if level = ''minimal'' \<or> level = ''low'' then ''low''
      else if level = ''high'' \<or> level = ''xhigh'' \<or> level = ''max'' then level
      else ''medium'')"

definition openaiReasoningEffort :: "string \<Rightarrow> string" where
  "openaiReasoningEffort e =
     (if e = ''minimal'' then ''minimal'' else if e = ''low'' then ''low'' else if e = ''high'' then ''high''
      else if e = ''xhigh'' then ''xhigh'' else if e = ''max'' then ''max'' else ''medium'')"

definition MinAnthropicThinkingBudget :: int where "MinAnthropicThinkingBudget = 1024"

definition FitAnthropicThinkingBudget :: "int \<Rightarrow> int \<Rightarrow> int option" where
  "FitAnthropicThinkingBudget budget maxTokens =
     (let b = (if budget < MinAnthropicThinkingBudget then MinAnthropicThinkingBudget else budget) in
      if maxTokens \<le> 0 then Some b
      else if maxTokens \<le> MinAnthropicThinkingBudget then None
      else Some (min b (maxTokens - 1)))"

definition disableThinking :: "requestUnion \<Rightarrow> requestUnion" where
  "disableThinking rq =
     (case rq of
        ReqAnthropicV1 r \<Rightarrow> ReqAnthropicV1 (r\<lparr>an_Thinking := ThinkingDisabled, an_Effort := []\<rparr>)
      | ReqAnthropicBeta r \<Rightarrow> ReqAnthropicBeta (r\<lparr>an_Thinking := ThinkingDisabled, an_Effort := []\<rparr>)
      | ReqChat r \<Rightarrow> ReqChat (r\<lparr>cr_ReasoningEffort := [], cr_ThinkingExtra := False\<rparr>)
      | ReqResponses r \<Rightarrow> ReqResponses (r\<lparr>rq_Effort := []\<rparr>)
      | ReqGoogle r \<Rightarrow> ReqGoogle r)"

definition enableAnthropic :: "string \<Rightarrow> int \<Rightarrow> anthropicRequest \<Rightarrow> transform_error + anthropicRequest" where
  "enableAnthropic effort budget r =
     (if an_Thinking r = ThinkingAdaptive then Inr (r\<lparr>an_Effort := AnthropicEffort effort\<rparr>)
      else (case FitAnthropicThinkingBudget budget (an_MaxTokens r) of
              None \<Rightarrow> Inl (NoRoomForThinking (an_MaxTokens r))
            | Some b \<Rightarrow> Inr (r\<lparr>an_Effort := AnthropicEffort effort, an_Thinking := ThinkingEnabled b\<rparr>)))"

definition enableThinking :: "string \<Rightarrow> int \<Rightarrow> requestUnion \<Rightarrow> transform_error + requestUnion" where
  "enableThinking effort budget rq =
     (case rq of
        ReqAnthropicV1 r \<Rightarrow> (case enableAnthropic effort budget r of Inl e \<Rightarrow> Inl e | Inr r1 \<Rightarrow> Inr (ReqAnthropicV1 r1))
      | ReqAnthropicBeta r \<Rightarrow> (case enableAnthropic effort budget r of Inl e \<Rightarrow> Inl e | Inr r1 \<Rightarrow> Inr (ReqAnthropicBeta r1))
      | ReqChat r \<Rightarrow> Inr (ReqChat (r\<lparr>cr_ReasoningEffort := openaiReasoningEffort effort, cr_ThinkingExtra := False\<rparr>))
      | ReqResponses r \<Rightarrow> Inr (ReqResponses (r\<lparr>rq_Effort := openaiReasoningEffort effort\<rparr>))
      | ReqGoogle r \<Rightarrow> Inr (ReqGoogle r))"

definition ApplyThinkingEffort :: "string \<Rightarrow> requestUnion \<Rightarrow> transform_error + requestUnion" where
  "ApplyThinkingEffort effort rq =
     (if effort = [] then Inr rq
      else if effort = ''off'' then Inr (disableThinking rq)
      else (case map_of BudgetMapping effort of None \<Rightarrow> Inr rq | Some b \<Rightarrow> enableThinking effort b rq))"

definition syncConfig :: "string \<Rightarrow> TransformContext \<Rightarrow> TransformContext" where
  "syncConfig effort x =
     (case tx_Request x of
        ReqChat r \<Rightarrow> x\<lparr>tx_OpenAIConfig := Some \<lparr>oc_HasThinking = (effort \<noteq> ''off''), oc_ReasoningEffort = cr_ReasoningEffort r\<rparr>\<rparr>
      | ReqResponses r \<Rightarrow> x\<lparr>tx_ResponsesConfig := Some \<lparr>oc_HasThinking = (effort \<noteq> ''off''), oc_ReasoningEffort = rq_Effort r\<rparr>\<rparr>
      | _ \<Rightarrow> x)"

definition RuleThinking_Apply :: "string \<Rightarrow> TransformContext \<Rightarrow> TransformContext \<times> transform_error option" where
  "RuleThinking_Apply effort x =
     (if effort \<noteq> ''off'' \<and> map_of BudgetMapping effort = None then (x, None)
      else (case ApplyThinkingEffort effort (tx_Request x) of
              Inl e \<Rightarrow> (x, Some e)
            | Inr rq \<Rightarrow> (syncConfig effort (x\<lparr>tx_Request := rq\<rparr>), None)))"

section \<open>Limits of the output\<close>

definition MaxTokensDefault_Apply :: "int \<Rightarrow> TransformContext \<Rightarrow> TransformContext \<times> transform_error option" where
  "MaxTokensDefault_Apply d x =
     (case tx_Request x of
        ReqAnthropicV1 r \<Rightarrow> if an_MaxTokens r = 0 then (x\<lparr>tx_Request := ReqAnthropicV1 (r\<lparr>an_MaxTokens := d\<rparr>)\<rparr>, None) else (x, None)
      | ReqAnthropicBeta r \<Rightarrow> if an_MaxTokens r = 0 then (x\<lparr>tx_Request := ReqAnthropicBeta (r\<lparr>an_MaxTokens := d\<rparr>)\<rparr>, None) else (x, None)
      | _ \<Rightarrow> (x, None))"

definition fitThinkingBudget :: "int \<Rightarrow> int \<Rightarrow> int \<Rightarrow> int option" where
  "fitThinkingBudget budget maxTokens maxAllowed =
     FitAnthropicThinkingBudget (if budget > maxAllowed then max MinAnthropicThinkingBudget (maxAllowed div 10) else budget) maxTokens"

definition limitAnthropic :: "int \<Rightarrow> anthropicRequest \<Rightarrow> anthropicRequest" where
  "limitAnthropic maxAllowed r =
     (let r1 = (if an_MaxTokens r > maxAllowed then r\<lparr>an_MaxTokens := maxAllowed\<rparr> else r) in
      case an_Thinking r1 of
        ThinkingEnabled b \<Rightarrow>
          (case fitThinkingBudget b (an_MaxTokens r1) maxAllowed of
             Some b1 \<Rightarrow> r1\<lparr>an_Thinking := ThinkingEnabled b1\<rparr>
           | None \<Rightarrow> r1\<lparr>an_Thinking := ThinkingDisabled\<rparr>)
      | _ \<Rightarrow> r1)"

definition capTokens :: "int \<Rightarrow> int option \<Rightarrow> int option" where
  "capTokens m n = (case n of Some v \<Rightarrow> Some (if v > m then m else v) | None \<Rightarrow> None)"

definition OutputLimit_Apply :: "int \<Rightarrow> TransformContext \<Rightarrow> TransformContext \<times> transform_error option" where
  "OutputLimit_Apply m x =
     (if m \<le> 0 then (x, None)
      else
        (x\<lparr>tx_Request :=
           (case tx_Request x of
              ReqAnthropicV1 r \<Rightarrow> ReqAnthropicV1 (limitAnthropic m r)
            | ReqAnthropicBeta r \<Rightarrow> ReqAnthropicBeta (limitAnthropic m r)
            | ReqChat r \<Rightarrow>
                ReqChat (r\<lparr>cr_MaxCompletionTokens := capTokens m (cr_MaxCompletionTokens r), cr_MaxTokens := capTokens m (cr_MaxTokens r)\<rparr>)
            | ReqResponses r \<Rightarrow> ReqResponses (r\<lparr>rq_MaxOutputTokens := capTokens m (rq_MaxOutputTokens r)\<rparr>)
            | ReqGoogle r \<Rightarrow> ReqGoogle (if gr_Tools r \<noteq> None \<and> gr_MaxOutputTokens r > m then r\<lparr>gr_MaxOutputTokens := m\<rparr> else r))\<rparr>, None))"

definition applyMaxCompletionTokensRewrite :: "chatRequest \<Rightarrow> chatRequest" where
  "applyMaxCompletionTokensRewrite r =
     (if cr_MaxTokens r \<noteq> None then r\<lparr>cr_MaxCompletionTokens := cr_MaxTokens r, cr_MaxTokens := None\<rparr> else r)"

definition applyMaxTokensRewrite :: "chatRequest \<Rightarrow> chatRequest" where
  "applyMaxTokensRewrite r =
     (if cr_MaxCompletionTokens r \<noteq> None then r\<lparr>cr_MaxTokens := cr_MaxCompletionTokens r, cr_MaxCompletionTokens := None\<rparr> else r)"

definition MaxTokensRewrite_Apply :: "bool \<Rightarrow> bool \<Rightarrow> TransformContext \<Rightarrow> TransformContext \<times> transform_error option" where
  "MaxTokensRewrite_Apply useCompletion useMax x =
     (case tx_Request x of
        ReqChat r \<Rightarrow>
          (let r1 = (if useCompletion then applyMaxCompletionTokensRewrite r else r);
               r2 = (if useMax then applyMaxTokensRewrite r1 else r1)
           in (x\<lparr>tx_Request := ReqChat r2\<rparr>, None))
      | _ \<Rightarrow> (x, None))"

section \<open>Conversion between protocols\<close>

text \<open>The conversions that are not modelled; a flag is whether the answer is streamed, a second one whether its usage is left out.\<close>

record conversions =
  cn_AnthropicToChat :: "anthropicRequest \<Rightarrow> bool \<Rightarrow> bool \<Rightarrow> chatRequest \<times> OpenAIConfig"
  cn_BetaToChat :: "anthropicRequest \<Rightarrow> bool \<Rightarrow> bool \<Rightarrow> chatRequest \<times> OpenAIConfig"
  cn_AnthropicToResponses :: "anthropicRequest \<Rightarrow> respRequest"
  cn_BetaToResponses :: "anthropicRequest \<Rightarrow> respRequest"
  cn_ChatToResponses :: "chatRequest \<Rightarrow> int \<Rightarrow> respRequest"
  cn_ChatToBeta :: "chatRequest \<Rightarrow> int \<Rightarrow> anthropicRequest"
  cn_ResponsesToBeta :: "respRequest \<Rightarrow> int \<Rightarrow> anthropicRequest"
  cn_AnthropicToGoogle :: "anthropicRequest \<Rightarrow> int \<Rightarrow> googleRequest"
  cn_BetaToGoogle :: "anthropicRequest \<Rightarrow> int \<Rightarrow> googleRequest"
  cn_ChatToGoogle :: "chatRequest \<Rightarrow> int \<Rightarrow> googleRequest"

definition noThinking :: OpenAIConfig where "noThinking = \<lparr>oc_HasThinking = False, oc_ReasoningEffort = ''none''\<rparr>"

definition convertToOpenAIChat :: "conversions \<Rightarrow> bool \<Rightarrow> TransformContext \<Rightarrow> TransformContext \<times> transform_error option" where
  "convertToOpenAIChat cn noUsage x =
     (case tx_Request x of
        ReqAnthropicV1 r \<Rightarrow>
          (let (c, cfg) = cn_AnthropicToChat cn r (tx_IsStreaming x) noUsage in (x\<lparr>tx_Request := ReqChat c, tx_OpenAIConfig := Some cfg\<rparr>, None))
      | ReqAnthropicBeta r \<Rightarrow>
          (let (c, cfg) = cn_BetaToChat cn r (tx_IsStreaming x) noUsage in (x\<lparr>tx_Request := ReqChat c, tx_OpenAIConfig := Some cfg\<rparr>, None))
      | ReqChat r \<Rightarrow> (x\<lparr>tx_OpenAIConfig := Some \<lparr>oc_HasThinking = False, oc_ReasoningEffort = []\<rparr>\<rparr>, None)
      | ReqResponses r \<Rightarrow>
          (x\<lparr>tx_Request := ReqChat (ConvertOpenAIResponsesToChat r (tx_MaxTokens x)),
             tx_OpenAIConfig := Some \<lparr>oc_HasThinking = fst (OpenAIConfigFromResponses r), oc_ReasoningEffort = snd (OpenAIConfigFromResponses r)\<rparr>\<rparr>, None)
      | ReqGoogle r \<Rightarrow> (x, Some (UnsupportedRequest ''OpenAI Chat'')))"

definition convertToOpenAIResponses :: "conversions \<Rightarrow> TransformContext \<Rightarrow> TransformContext \<times> transform_error option" where
  "convertToOpenAIResponses cn x =
     (case tx_Request x of
        ReqAnthropicV1 r \<Rightarrow> (x\<lparr>tx_ResponsesConfig := Some noThinking, tx_Request := ReqResponses (cn_AnthropicToResponses cn r)\<rparr>, None)
      | ReqAnthropicBeta r \<Rightarrow> (x\<lparr>tx_ResponsesConfig := Some noThinking, tx_Request := ReqResponses (cn_BetaToResponses cn r)\<rparr>, None)
      | ReqChat r \<Rightarrow> (x\<lparr>tx_Request := ReqResponses (cn_ChatToResponses cn r (tx_MaxTokens x))\<rparr>, None)
      | ReqResponses r \<Rightarrow> (x\<lparr>tx_ResponsesConfig := Some noThinking\<rparr>, None)
      | ReqGoogle r \<Rightarrow> (x, Some (UnsupportedRequest ''Responses API'')))"

definition convertToAnthropicV1 :: "TransformContext \<Rightarrow> TransformContext \<times> transform_error option" where
  "convertToAnthropicV1 x =
     (case tx_Request x of
        ReqAnthropicV1 r \<Rightarrow> (x, None)
      | ReqAnthropicBeta r \<Rightarrow> (x, Some IncompatibleVersions)
      | _ \<Rightarrow> (x, Some (UnsupportedRequest ''Anthropic v1'')))"

definition convertToAnthropicBeta :: "conversions \<Rightarrow> TransformContext \<Rightarrow> TransformContext \<times> transform_error option" where
  "convertToAnthropicBeta cn x =
     (case tx_Request x of
        ReqAnthropicBeta r \<Rightarrow> (x, None)
      | ReqAnthropicV1 r \<Rightarrow> (x, Some IncompatibleVersions)
      | ReqChat r \<Rightarrow> (x\<lparr>tx_Request := ReqAnthropicBeta (cn_ChatToBeta cn r 4096)\<rparr>, None)
      | ReqResponses r \<Rightarrow> (x\<lparr>tx_Request := ReqAnthropicBeta (cn_ResponsesToBeta cn r (tx_MaxTokens x))\<rparr>, None)
      | ReqGoogle r \<Rightarrow> (x, Some (UnsupportedRequest ''Anthropic beta'')))"

definition convertToGoogle :: "conversions \<Rightarrow> TransformContext \<Rightarrow> TransformContext \<times> transform_error option" where
  "convertToGoogle cn x =
     (case tx_Request x of
        ReqAnthropicV1 r \<Rightarrow> (x\<lparr>tx_Request := ReqGoogle (cn_AnthropicToGoogle cn r 4096)\<rparr>, None)
      | ReqAnthropicBeta r \<Rightarrow> (x\<lparr>tx_Request := ReqGoogle (cn_BetaToGoogle cn r 4096)\<rparr>, None)
      | ReqChat r \<Rightarrow> (x\<lparr>tx_Request := ReqGoogle (cn_ChatToGoogle cn r 4096)\<rparr>, None)
      | ReqResponses r \<Rightarrow> (x, Some (UnsupportedRequest ''Google''))
      | ReqGoogle r \<Rightarrow> (x, None))"

definition Base_Apply :: "conversions \<Rightarrow> string \<Rightarrow> TransformContext \<Rightarrow> TransformContext \<times> transform_error option" where
  "Base_Apply cn target x =
     (let noUsage = (case tx_ScenarioFlags x of Some f \<Rightarrow> sf_SkipUsage f | None \<Rightarrow> False) in
      if target = TypeOpenAIChat then convertToOpenAIChat cn noUsage x
      else if target = TypeOpenAIResponses then convertToOpenAIResponses cn x
      else if target = TypeAnthropicV1 then convertToAnthropicV1 x
      else if target = TypeAnthropicBeta then convertToAnthropicBeta cn x
      else if target = TypeGoogle then convertToGoogle cn x
      else (x, Some (UnknownTarget target)))"

section \<open>The chain of an attempt\<close>

text \<open>The transforms that are not modelled: those of the rules, the vendor's, the server tools' and the recorders, if they are wanted.\<close>

record chainEnv =
  ce_CursorCompat :: transformer
  ce_CleanHeader :: transformer
  ce_ClaudeCodeCompat :: transformer
  ce_ClaudeCodeVersion :: "string \<Rightarrow> transformer"
  ce_Vendor :: transformer
  ce_MCP :: "transformer list"
  ce_MCPEnabled :: bool
  ce_RecordPre :: "transformer option"
  ce_RecordPost :: "transformer option"
  ce_Conversions :: conversions

definition ruleTransform :: "chainEnv \<Rightarrow> Transform \<Rightarrow> transformer" where
  "ruleTransform env t =
     (case t of
        OpenAICursorCompatTransform \<Rightarrow> ce_CursorCompat env
      | CleanHeaderTransform \<Rightarrow> ce_CleanHeader env
      | ToolBlockTransform names \<Rightarrow> ToolBlock names
      | ClaudeCodeCompatTransform \<Rightarrow> ce_ClaudeCodeCompat env
      | OpenAIMaxTokensRewriteTransform a b \<Rightarrow> \<lparr>tr_Name = ''openai_max_tokens_rewrite'', tr_Apply = MaxTokensRewrite_Apply a b\<rparr>
      | RuleThinkingTransform e \<Rightarrow> \<lparr>tr_Name = ''rule_thinking'', tr_Apply = RuleThinking_Apply e\<rparr>
      | ClaudeCodeVersionTransform v \<Rightarrow> ce_ClaudeCodeVersion env v)"

definition mcpServesPair :: "string \<Rightarrow> string \<Rightarrow> bool" where
  "mcpServesPair source target =
     (if source \<in> {TypeOpenAIChat, TypeOpenAIResponses} \<and> target \<in> {TypeOpenAIChat, TypeOpenAIResponses}
      then source = TypeOpenAIChat \<and> target = TypeOpenAIChat else True)"

definition sourceTransforms :: "chainEnv \<Rightarrow> attemptPlan \<Rightarrow> transformer list" where
  "sourceTransforms env pl =
     (if pl_DefaultMaxTokens pl > 0
      then [\<lparr>tr_Name = ''max_tokens_default'', tr_Apply = MaxTokensDefault_Apply (pl_DefaultMaxTokens pl)\<rparr>] else []) @
     map (ruleTransform env) (pl_PreBase pl) @ optionToList (ce_RecordPre env)"

definition targetTransforms :: "chainEnv \<Rightarrow> attemptPlan \<Rightarrow> transformer list" where
  "targetTransforms env pl =
     (if pl_MaxAllowed pl > 0 then [\<lparr>tr_Name = ''output_limit'', tr_Apply = OutputLimit_Apply (pl_MaxAllowed pl)\<rparr>] else []) @
     (if ce_MCPEnabled env \<and> mcpServesPair (pl_Source pl) (pl_Target pl) then ce_MCP env else []) @
     [ConsistencyTransform (pl_Target pl)] @ map (ruleTransform env) (pl_PreVendor pl) @ [ce_Vendor env] @ optionToList (ce_RecordPost env)"

definition baseTransform :: "chainEnv \<Rightarrow> attemptPlan \<Rightarrow> transformer" where
  "baseTransform env pl = \<lparr>tr_Name = ''base_convert'', tr_Apply = Base_Apply (ce_Conversions env) (pl_Target pl)\<rparr>"

definition buildTransformChain :: "chainEnv \<Rightarrow> attemptPlan \<Rightarrow> TransformChain" where
  "buildTransformChain env pl = map Some (sourceTransforms env pl @ [baseTransform env pl] @ targetTransforms env pl)"

section \<open>Running a chain\<close>

definition namesOf :: "TransformChain \<Rightarrow> string list" where "namesOf ts = List.map_filter (map_option tr_Name) ts"

lemma namesOf_simps [simp]: "namesOf [] = []" "namesOf (None # ts) = namesOf ts" "namesOf (Some t # ts) = tr_Name t # namesOf ts"
  by (simp_all add: namesOf_def map_filter_simps)

lemma executeLoop_append:
  "executeLoop (ts @ us) x = (case executeLoop ts x of (x1, None) \<Rightarrow> executeLoop us x1 | (x1, Some e) \<Rightarrow> (x1, Some e))"
  by (induction ts x rule: executeLoop.induct) (auto simp: Let_def split: option.split prod.split)

lemma executeLoop_ok_Cons:
  "executeLoop (Some t # ts) x = (x1, None) \<longleftrightarrow>
   (\<exists>x0. tr_Apply t (x\<lparr>tx_Steps := tx_Steps x @ [tr_Name t]\<rparr>) = (x0, None) \<and> executeLoop ts x0 = (x1, None))"
  by (auto split: prod.split option.split)

text \<open>What the chain asks of a transform: it leaves the record of the steps alone.\<close>

locale request_transform =
  fixes ap :: "TransformContext \<Rightarrow> TransformContext \<times> transform_error option"
  assumes keeps_steps: "tx_Steps (fst (ap x)) = tx_Steps x"
begin

lemma recorded: "tx_Steps (fst (executeLoop [Some \<lparr>tr_Name = nm, tr_Apply = ap\<rparr>] x)) = tx_Steps x @ [nm]"
  using keeps_steps [of "x\<lparr>tx_Steps := tx_Steps x @ [nm]\<rparr>"] by (auto split: prod.split option.split)

end

interpretation tool_block: request_transform "ToolBlock_Apply blocked" for blocked
  by unfold_locales (simp add: ToolBlock_Apply_def)

interpretation consistency: request_transform "Consistency_Apply style" for style
  by unfold_locales (simp add: Consistency_Apply_def normalizeChatCompletion_def normalizeResponses_def normalizeAnthropicV1_def
      normalizeAnthropicBeta_def Let_def split: requestUnion.split)

interpretation output_limit: request_transform "OutputLimit_Apply m" for m
  by unfold_locales (simp add: OutputLimit_Apply_def)

interpretation max_tokens_default: request_transform "MaxTokensDefault_Apply d" for d
  by unfold_locales (simp add: MaxTokensDefault_Apply_def split: requestUnion.split)

interpretation max_tokens_rewrite: request_transform "MaxTokensRewrite_Apply a b" for a b
  by unfold_locales (simp add: MaxTokensRewrite_Apply_def Let_def split: requestUnion.split)

interpretation rule_thinking: request_transform "RuleThinking_Apply e" for e
  by unfold_locales (simp add: RuleThinking_Apply_def syncConfig_def split: sum.split requestUnion.split)

interpretation base_convert: request_transform "Base_Apply cn target" for cn target
  by unfold_locales (simp add: Base_Apply_def convertToOpenAIChat_def convertToOpenAIResponses_def convertToAnthropicV1_def
      convertToAnthropicBeta_def convertToGoogle_def Let_def split: requestUnion.split prod.split)

text \<open>The chain stopped at its first failing transform, with all that ran recorded.\<close>

definition failsAt :: "TransformChain \<Rightarrow> TransformContext \<Rightarrow> TransformContext \<Rightarrow> string \<Rightarrow> transform_error \<Rightarrow> bool" where
  "failsAt ts x x1 nm e \<longleftrightarrow>
     (\<exists>pre t post x0. ts = pre @ Some t # post \<and> executeLoop pre x = (x0, None) \<and> tr_Name t = nm \<and>
        tr_Apply t (x0\<lparr>tx_Steps := tx_Steps x0 @ [nm]\<rparr>) = (x1, Some e) \<and> tx_Steps x1 = tx_Steps x @ namesOf pre @ [nm])"

lemma failsAt_here:
  assumes "tr_Apply t (x\<lparr>tx_Steps := tx_Steps x @ [tr_Name t]\<rparr>) = (x1, Some e)" "tx_Steps x1 = tx_Steps x @ [tr_Name t]"
  shows "failsAt (Some t # ts) x x1 (tr_Name t) e"
  unfolding failsAt_def using assms by (intro exI [of _ "[]"] exI [of _ t] exI [of _ ts] exI [of _ x]) simp

lemma failsAt_skip:
  assumes "failsAt ts x x1 nm e" shows "failsAt (None # ts) x x1 nm e"
proof -
  obtain pre t post x0 where "ts = pre @ Some t # post" "executeLoop pre x = (x0, None)" "tr_Name t = nm"
    "tr_Apply t (x0\<lparr>tx_Steps := tx_Steps x0 @ [nm]\<rparr>) = (x1, Some e)" "tx_Steps x1 = tx_Steps x @ namesOf pre @ [nm]"
    using assms unfolding failsAt_def by blast
  then show ?thesis unfolding failsAt_def by (intro exI [of _ "None # pre"] exI [of _ t] exI [of _ post] exI [of _ x0]) simp
qed

lemma failsAt_later:
  assumes "failsAt ts x1 x2 nm e" "tr_Apply u (x\<lparr>tx_Steps := tx_Steps x @ [tr_Name u]\<rparr>) = (x1, None)" "tx_Steps x1 = tx_Steps x @ [tr_Name u]"
  shows "failsAt (Some u # ts) x x2 nm e"
proof -
  obtain pre t post x0 where "ts = pre @ Some t # post" "executeLoop pre x1 = (x0, None)" "tr_Name t = nm"
    "tr_Apply t (x0\<lparr>tx_Steps := tx_Steps x0 @ [nm]\<rparr>) = (x2, Some e)" "tx_Steps x2 = tx_Steps x1 @ namesOf pre @ [nm]"
    using assms(1) unfolding failsAt_def by blast
  then show ?thesis unfolding failsAt_def using assms(2,3)
    by (intro exI [of _ "Some u # pre"] exI [of _ t] exI [of _ post] exI [of _ x0]) simp
qed


definition sampleRequest :: respRequest where
  "sampleRequest =
     \<lparr>rq_Model = ''m'', rq_Instructions = None, rq_InputString = None, rq_InputItems = Some brokenHistory, rq_MaxOutputTokens = Some 90000,
      rq_Temperature = None, rq_TopP = None, rq_Effort = [],
      rq_Tools = [RespFunction ''f'' None None, RespFunction ''g'' (Some []) None, RespBuiltin ''web''], rq_ToolChoice = None, rq_CacheKey = [], rq_CacheOptions = ([], []), rq_CacheRetention = [],
      rq_IncludeObfuscation = True\<rparr>"

definition sampleAnthropic :: anthropicRequest where
  "sampleAnthropic = \<lparr>an_Model = ''m'', an_MaxTokens = 50000, an_Thinking = ThinkingEnabled 20000, an_Effort = [], an_Temperature = None,
     an_TopP = None, an_Tools = []\<rparr>"

definition idle :: transformer where "idle = \<lparr>tr_Name = ''idle'', tr_Apply = (\<lambda>x. (x, None))\<rparr>"

definition sampleChat :: chatRequest where "sampleChat = ConvertOpenAIResponsesToChat sampleRequest 0"

definition sampleEnv :: chainEnv where
  "sampleEnv =
     \<lparr>ce_CursorCompat = idle, ce_CleanHeader = idle, ce_ClaudeCodeCompat = idle, ce_ClaudeCodeVersion = (\<lambda>v. idle), ce_Vendor = idle, ce_MCP = [],
      ce_MCPEnabled = False, ce_RecordPre = None, ce_RecordPost = None,
      ce_Conversions = \<lparr>cn_AnthropicToChat = (\<lambda>r a b. (sampleChat, noThinking)), cn_BetaToChat = (\<lambda>r a b. (sampleChat, noThinking)),
        cn_AnthropicToResponses = (\<lambda>r. sampleRequest), cn_BetaToResponses = (\<lambda>r. sampleRequest), cn_ChatToResponses = (\<lambda>r n. sampleRequest),
        cn_ChatToBeta = (\<lambda>r n. sampleAnthropic), cn_ResponsesToBeta = (\<lambda>r n. sampleAnthropic),
        cn_AnthropicToGoogle = (\<lambda>r n. \<lparr>gr_Tools = None, gr_MaxOutputTokens = 0\<rparr>),
        cn_BetaToGoogle = (\<lambda>r n. \<lparr>gr_Tools = None, gr_MaxOutputTokens = 0\<rparr>),
        cn_ChatToGoogle = (\<lambda>r n. \<lparr>gr_Tools = None, gr_MaxOutputTokens = 0\<rparr>)\<rparr>\<rparr>"

definition sampleFlags :: AttemptFlags where "sampleFlags = ResolveRuleFlags (\<lambda>h. []) None"

definition samplePlan :: "string \<Rightarrow> string \<Rightarrow> Transform list \<Rightarrow> Transform list \<Rightarrow> attemptPlan" where
  "samplePlan src target pre post =
     \<lparr>pl_Source = src, pl_Target = target, pl_Provider = dualProvider, pl_Model = ''m'', pl_Flags = sampleFlags, pl_PreBase = pre, pl_PreVendor = post,
      pl_MaxAllowed = 8192, pl_DefaultMaxTokens = 4096\<rparr>"

definition mismatched :: TransformChain where "mismatched = [None, Some (ToolBlock [''f'']), Some (ConsistencyTransform TypeOpenAIChat), Some idle]"


section \<open>Limits\<close>

text \<open>What a request may ask of a model whose limit is \<open>m\<close>; a thinking budget must also leave room below the output limit.\<close>

definition capped :: "int \<Rightarrow> int option \<Rightarrow> bool" where "capped m n \<longleftrightarrow> (case n of Some v \<Rightarrow> v \<le> m | None \<Rightarrow> True)"

definition anthropicWithin :: "int \<Rightarrow> anthropicRequest \<Rightarrow> bool" where
  "anthropicWithin m r \<longleftrightarrow> an_MaxTokens r \<le> m \<and>
     (case an_Thinking r of ThinkingEnabled b \<Rightarrow> 1024 \<le> b \<and> (an_MaxTokens r > 0 \<longrightarrow> b < an_MaxTokens r) | _ \<Rightarrow> True)"

definition withinLimit :: "int \<Rightarrow> requestUnion \<Rightarrow> bool" where
  "withinLimit m rq \<longleftrightarrow>
     (case rq of
        ReqAnthropicV1 r \<Rightarrow> anthropicWithin m r
      | ReqAnthropicBeta r \<Rightarrow> anthropicWithin m r
      | ReqChat r \<Rightarrow> capped m (cr_MaxTokens r) \<and> capped m (cr_MaxCompletionTokens r)
      | ReqResponses r \<Rightarrow> capped m (rq_MaxOutputTokens r)
      | ReqGoogle r \<Rightarrow> gr_Tools r = None \<or> gr_MaxOutputTokens r \<le> m)"

lemma Fit_bounds:
  "FitAnthropicThinkingBudget b t = Some f \<Longrightarrow> 1024 \<le> f \<and> (t > 0 \<longrightarrow> f < t)"
  by (auto simp: FitAnthropicThinkingBudget_def MinAnthropicThinkingBudget_def Let_def split: if_splits)

lemma limitAnthropic_within: "anthropicWithin m (limitAnthropic m r)"
  using Fit_bounds by (auto simp: limitAnthropic_def fitThinkingBudget_def anthropicWithin_def Let_def
      split: thinkingConfig.split option.split)

lemma capTokens_capped [simp]: "capped m (capTokens m n)"
  by (simp add: capTokens_def capped_def split: option.split)

lemma OutputLimit_within: "m > 0 \<Longrightarrow> withinLimit m (tx_Request (fst (OutputLimit_Apply m x)))"
  by (simp add: OutputLimit_Apply_def withinLimit_def limitAnthropic_within split: requestUnion.split)

lemma enableAnthropic_within:
  "enableAnthropic e b r = Inr r1 \<Longrightarrow> anthropicWithin m r \<Longrightarrow> anthropicWithin m r1"
  using Fit_bounds by (auto simp: enableAnthropic_def anthropicWithin_def split: if_splits option.splits thinkingConfig.splits)

lemma RuleThinking_within:
  assumes "withinLimit m (tx_Request x)" "RuleThinking_Apply e x = (x1, None)" shows "withinLimit m (tx_Request x1)"
proof -
  have s: "tx_Request (syncConfig f y) = tx_Request y" for f y by (simp add: syncConfig_def split: requestUnion.split)
  have d: "withinLimit m (disableThinking rq)" if "withinLimit m rq" for rq
    using that by (auto simp: disableThinking_def withinLimit_def anthropicWithin_def split: requestUnion.splits)
  have n: "withinLimit m rq1" if "enableThinking f b rq = Inr rq1" "withinLimit m rq" for f b rq rq1
    using that by (auto simp: enableThinking_def withinLimit_def split: requestUnion.splits sum.splits dest: enableAnthropic_within)
  show ?thesis using assms d n
    by (auto simp: RuleThinking_Apply_def ApplyThinkingEffort_def s split: if_splits sum.splits option.splits)
qed

lemma MaxTokensRewrite_within:
  "withinLimit m (tx_Request x) \<Longrightarrow> withinLimit m (tx_Request (fst (MaxTokensRewrite_Apply a b x)))"
  by (auto simp: MaxTokensRewrite_Apply_def applyMaxCompletionTokensRewrite_def applyMaxTokensRewrite_def withinLimit_def capped_def Let_def
      split: requestUnion.splits option.splits)

lemma Consistency_within:
  "withinLimit m (tx_Request x) \<Longrightarrow> withinLimit m (tx_Request (fst (Consistency_Apply t x)))"
  by (auto simp: Consistency_Apply_def normalizeChatCompletion_def normalizeResponses_def normalizeAnthropicV1_def normalizeAnthropicBeta_def
      applyScenarioFlags_def applyResponseScenarioFlags_def withinLimit_def Let_def split: requestUnion.splits option.splits)

text \<open>The part of the chain of the upstream's shape that the vendor's transform comes after.\<close>

definition beforeVendor :: "chainEnv \<Rightarrow> attemptPlan \<Rightarrow> transformer list" where
  "beforeVendor env pl =
     (if pl_MaxAllowed pl > 0 then [\<lparr>tr_Name = ''output_limit'', tr_Apply = OutputLimit_Apply (pl_MaxAllowed pl)\<rparr>] else []) @
     (if ce_MCPEnabled env \<and> mcpServesPair (pl_Source pl) (pl_Target pl) then ce_MCP env else []) @
     [ConsistencyTransform (pl_Target pl)] @ map (ruleTransform env) (pl_PreVendor pl)"

lemma targetTransforms_vendor: "targetTransforms env pl = beforeVendor env pl @ [ce_Vendor env] @ optionToList (ce_RecordPost env)"
  by (simp add: targetTransforms_def beforeVendor_def)

definition rewriteOnly :: "Transform \<Rightarrow> bool" where
  "rewriteOnly t \<longleftrightarrow> (case t of OpenAIMaxTokensRewriteTransform a b \<Rightarrow> True | RuleThinkingTransform e \<Rightarrow> True | _ \<Rightarrow> False)"

lemma executeLoop_request:
  assumes "executeLoop (map Some ts) x = (x1, None)" "P (tx_Request x)"
    "\<And>t y z. t \<in> set ts \<Longrightarrow> P (tx_Request y) \<Longrightarrow> tr_Apply t y = (z, None) \<Longrightarrow> P (tx_Request z)"
  shows "P (tx_Request x1)"
  using assms
proof (induction ts arbitrary: x)
  case (Cons t ts)
  obtain x0 where x0: "tr_Apply t (x\<lparr>tx_Steps := tx_Steps x @ [tr_Name t]\<rparr>) = (x0, None)" "executeLoop (map Some ts) x0 = (x1, None)"
    using Cons.prems(1) unfolding list.map executeLoop_ok_Cons by blast
  have p: "P (tx_Request x0)" using Cons.prems(3) [OF _ _ x0(1)] Cons.prems(2) by simp
  show ?case by (rule Cons.IH [OF x0(2) p]) (rule Cons.prems(3), simp_all)
qed simp

lemma executeLoop_split:
  assumes "executeLoop (map Some (ts @ us)) x = (x1, None)"
  obtains y where "executeLoop (map Some ts) x = (y, None)" "executeLoop (map Some us) y = (x1, None)"
  using assms by (auto simp: executeLoop_append split: prod.splits option.splits)

lemma rewriteOnly_within:
  assumes "rewriteOnly t" "withinLimit m (tx_Request y)" "tr_Apply (ruleTransform env t) y = (z, None)" shows "withinLimit m (tx_Request z)"
proof (cases t)
  case (OpenAIMaxTokensRewriteTransform a b)
  then have "MaxTokensRewrite_Apply a b y = (z, None)" using assms(3) by (simp add: ruleTransform_def)
  then show ?thesis using MaxTokensRewrite_within [OF assms(2), of a b] by simp
next
  case (RuleThinkingTransform e)
  then show ?thesis using RuleThinking_within [OF assms(2)] assms(3) by (simp add: ruleTransform_def)
qed (use assms(1) in \<open>simp_all add: rewriteOnly_def\<close>)



section \<open>A Responses request on a Chat provider\<close>

definition calledIDs :: "chatMessage list \<Rightarrow> string set" where
  "calledIDs ms = set (concat (map (\<lambda>m. case m of AssistantMessage ct calls \<Rightarrow> map fc_CallID calls | _ \<Rightarrow> []) ms))"

lemma calledIDs_simps [simp]:
  "calledIDs [] = {}" "calledIDs (ms @ ns) = calledIDs ms \<union> calledIDs ns"
  "calledIDs (AssistantMessage ct calls # ms) = fc_CallID ` set calls \<union> calledIDs ms"
  "calledIDs (UserMessage ct # ms) = calledIDs ms" "calledIDs (SystemMessage ct # ms) = calledIDs ms"
  "calledIDs (DeveloperMessage ct # ms) = calledIDs ms" "calledIDs (ToolMessage ct i # ms) = calledIDs ms" "calledIDs (OtherMessage s # ms) = calledIDs ms"
  by (simp_all add: calledIDs_def)

lemma chatAnswered_ids:
  "chatAnswered ms es \<Longrightarrow> ToolMessage ct i \<in> set ms \<Longrightarrow> i \<in> set es \<union> calledIDs ms"
proof (induction ms es rule: chatAnswered.induct)
  case (3 ct' j ms es)
  then show ?case by (cases es) auto
qed auto

lemma normalize_answered:
  assumes "chatAnswered ms []" "\<forall>i \<in> calledIDs ms. i \<noteq> [] \<and> length i \<le> 40" shows "normalizeMessages ms = ms"
proof -
  have t: "i \<noteq> [] \<and> i \<in> validToolCallIDs ms \<and> length i \<le> 40" if "ToolMessage ct i \<in> set ms" for ct i
    using chatAnswered_ids [OF assms(1) that] assms(2) by (auto simp: validToolCallIDs_def calledIDs_def)
  have al: "AlignToolMessagesForOpenAI ms = ms"
    unfolding AlignToolMessagesForOpenAI_def by (rule map_idI) (use t in \<open>auto split: chatMessage.split\<close>)
  show ?thesis
    unfolding normalizeMessages_def al by (rule map_idI) (use t in \<open>force simp: maxToolCallIDLength_def split: chatMessage.split\<close>)
qed

lemma firstCalls_subset: "set (firstCalls seen cs) \<subseteq> set cs"
  by (induction cs arbitrary: seen) auto

lemma calledIDs_convertItem: "(\<forall>c. it \<noteq> ItCall c) \<Longrightarrow> calledIDs (convertItem it) = {}"
  by (auto simp: convertItem_def createMessage_def createMessageFromResponsesContent_def partsMessage_def optionToList_def outputMessageText_def
      convertResponsesFunctionCallOutput_def calledIDs_def Let_def split: respItem.splits msgContent.splits option.splits outBody.splits if_splits)

lemma calledIDs_convertLoop: "calledIDs (convertLoop items pending) \<subseteq> fc_CallID ` set (pending @ callsOf items)"
proof (induction items pending rule: convertLoop.induct)
  case (1 pending)
  show ?case by (simp add: flushCalls_def)
next
  case (2 c items pending)
  then show ?case by auto
qed (auto simp: flushCalls_def calledIDs_convertItem split: if_splits)

lemma calledIDs_converted:
  "calledIDs (cr_Messages (ConvertOpenAIResponsesToChat rq d)) \<subseteq> (case rq_InputItems rq of Some items \<Rightarrow> fc_CallID ` set (callsOf items) | None \<Rightarrow> {})"
proof -
  have "set (callsOf (RepairResponsesToolCalls items)) \<subseteq> set (callsOf items)" for items
    unfolding Repair_repaired using parts_repaired firstCalls_subset by simp
  then have "calledIDs (ConvertResponsesInputToMessages items) \<subseteq> fc_CallID ` set (callsOf items)" for items
    using calledIDs_convertLoop [of "RepairResponsesToolCalls items" "[]"] unfolding ConvertResponsesInputToMessages_def by fastforce
  then show ?thesis by (auto simp: ConvertOpenAIResponsesToChat_def calledIDs_def split: option.splits if_splits)
qed

definition schemaOK :: "chatTool \<Rightarrow> bool" where
  "schemaOK t \<longleftrightarrow>
     (case t of
        ChatFunction nm (Some m) d \<Rightarrow>
          map_of m ''type'' \<noteq> None \<and> (map_of m ''type'' = Some (JString ''object'') \<longrightarrow> map_of m ''properties'' \<notin> {None, Some JNull})
      | ChatFunction nm None d \<Rightarrow> False
      | ChatCustom nm \<Rightarrow> True)"

lemma normalizeSchema_ok: "schemaOK (ChatFunction nm (Some (normalizeSchema ps)) d)"
  by (auto simp: schemaOK_def normalizeSchema_def update_conv' Let_def)

text \<open>A request that has its calls answered, no blocked tool and, at last, complete schemas.\<close>

definition clean :: "string set \<Rightarrow> chatRequest \<Rightarrow> bool" where
  "clean blocked r \<longleftrightarrow> chatAnswered (cr_Messages r) [] \<and> (\<forall>i \<in> calledIDs (cr_Messages r). i \<noteq> [] \<and> length i \<le> 40) \<and>
     (\<forall>t \<in> set (cr_Tools r). openAIChatToolName t \<notin> blocked)"

lemma clean_converted:
  assumes "\<forall>items. rq_InputItems q = Some items \<longrightarrow> (\<forall>c \<in> set (callsOf items). fc_CallID c \<noteq> [] \<and> length (fc_CallID c) \<le> 40)"
    "\<forall>t \<in> set (rq_Tools q). case t of RespFunction nm ps d \<Rightarrow> nm \<notin> blocked | RespBuiltin nm \<Rightarrow> True"
  shows "clean blocked (ConvertOpenAIResponsesToChat q d)"
proof -
  have "calledIDs (cr_Messages (ConvertOpenAIResponsesToChat q d)) \<subseteq> {i. i \<noteq> [] \<and> length i \<le> 40}"
  proof -
    have "(case rq_InputItems q of Some items \<Rightarrow> fc_CallID ` set (callsOf items) | None \<Rightarrow> {}) \<subseteq> {i. i \<noteq> [] \<and> length i \<le> 40}"
      using assms(1) by (auto split: option.split)
    then show ?thesis using calledIDs_converted [of q d] by (rule order_trans [rotated])
  qed
  moreover have "\<forall>t \<in> set (cr_Tools (ConvertOpenAIResponsesToChat q d)). openAIChatToolName t \<notin> blocked"
    using assms(2) by (auto simp: ConvertOpenAIResponsesToChat_def ConvertResponsesToolsToChatTools_def openAIChatToolName_def List.map_filter_def
        split: respTool.splits)
  ultimately show ?thesis using convertLoop_request_answered [of q d] by (auto simp: clean_def)
qed

definition readyRequest :: "string set \<Rightarrow> requestUnion \<Rightarrow> bool" where
  "readyRequest blocked rq \<longleftrightarrow> (case rq of ReqChat r \<Rightarrow> clean blocked r \<and> (\<forall>t \<in> set (cr_Tools r). schemaOK t) | _ \<Rightarrow> False)"

lemma Consistency_ready:
  assumes "tx_Request y = ReqChat r" "clean blocked r" "Consistency_Apply TypeOpenAIChat y = (z, None)" shows "readyRequest blocked (tx_Request z)"
proof -
  let ?r = "applyScenarioFlags (tx_ScenarioFlags y) (tx_IsStreaming y) (r\<lparr>cr_Tools := normalizeToolSchemas (cr_Tools r)\<rparr>)"
  have f: "cr_Messages ?r = cr_Messages r" "cr_Tools ?r = normalizeToolSchemas (cr_Tools r)"
    by (simp_all add: applyScenarioFlags_def split: option.split)
  have z: "tx_Request z = ReqChat (?r\<lparr>cr_Messages := normalizeMessages (cr_Messages r)\<rparr>)"
    using assms(1,3) f by (auto simp: Consistency_Apply_def normalizeChatCompletion_def Let_def)
  have m: "normalizeMessages (cr_Messages r) = cr_Messages r" using normalize_answered assms(2) by (simp add: clean_def)
  have t: "schemaOK u \<and> openAIChatToolName u \<notin> blocked" if "u \<in> set (normalizeToolSchemas (cr_Tools r))" for u
    using that assms(2) normalizeSchema_ok
    by (auto simp: normalizeToolSchemas_def clean_def openAIChatToolName_def schemaOK_def [of "ChatCustom _"] split: chatTool.splits)
  show ?thesis using assms(2) m t by (simp add: readyRequest_def z clean_def f)
qed

lemma rewrite_fields:
  "cr_Messages (applyMaxCompletionTokensRewrite r) = cr_Messages r" "cr_Tools (applyMaxCompletionTokensRewrite r) = cr_Tools r"
  "cr_Messages (applyMaxTokensRewrite r) = cr_Messages r" "cr_Tools (applyMaxTokensRewrite r) = cr_Tools r"
  by (simp_all add: applyMaxCompletionTokensRewrite_def applyMaxTokensRewrite_def)

lemma rewriteOnly_ready:
  assumes "rewriteOnly t" "readyRequest blocked (tx_Request y)" "tr_Apply (ruleTransform env t) y = (z, None)" shows "readyRequest blocked (tx_Request z)"
proof (cases t)
  case (OpenAIMaxTokensRewriteTransform a b)
  then have z: "MaxTokensRewrite_Apply a b y = (z, None)" using assms(3) by (simp add: ruleTransform_def)
  obtain r where r: "tx_Request y = ReqChat r" "clean blocked r" "\<forall>t \<in> set (cr_Tools r). schemaOK t"
    using assms(2) by (auto simp: readyRequest_def split: requestUnion.splits)
  define r1 where "r1 = (if a then applyMaxCompletionTokensRewrite r else r)"
  define r2 where "r2 = (if b then applyMaxTokensRewrite r1 else r1)"
  have "cr_Messages r2 = cr_Messages r" "cr_Tools r2 = cr_Tools r" by (simp_all add: r1_def r2_def rewrite_fields)
  moreover have "tx_Request z = ReqChat r2" using z r(1) by (auto simp: MaxTokensRewrite_Apply_def r1_def r2_def Let_def)
  ultimately show ?thesis using r by (simp add: readyRequest_def clean_def)
next
  case (RuleThinkingTransform e)
  then have z: "RuleThinking_Apply e y = (z, None)" using assms(3) by (simp add: ruleTransform_def)
  obtain r where r: "tx_Request y = ReqChat r" "clean blocked r" "\<forall>t \<in> set (cr_Tools r). schemaOK t"
    using assms(2) by (auto simp: readyRequest_def split: requestUnion.splits)
  have "\<exists>r1. ApplyThinkingEffort e (ReqChat r) = Inr (ReqChat r1) \<and> cr_Messages r1 = cr_Messages r \<and> cr_Tools r1 = cr_Tools r"
    by (simp add: ApplyThinkingEffort_def disableThinking_def enableThinking_def split: option.split)
  then obtain r1 where r1: "ApplyThinkingEffort e (ReqChat r) = Inr (ReqChat r1)" "cr_Messages r1 = cr_Messages r" "cr_Tools r1 = cr_Tools r"
    by blast
  have "tx_Request z = ReqChat r \<or> tx_Request z = ReqChat r1"
    using z r(1) r1(1) by (auto simp: RuleThinking_Apply_def syncConfig_def split: if_splits)
  then show ?thesis using r r1(2,3) by (auto simp: readyRequest_def clean_def)
qed (use assms(1) in \<open>simp_all add: rewriteOnly_def\<close>)

text \<open>The request before its conversion: the history is the client's and the blocked tools are gone.\<close>

lemma source_of_responses:
  assumes "pl_PreBase pl = [ToolBlockTransform names]" "ce_RecordPre env = None" "tx_Request x = ReqResponses rq"
    "executeLoop (map Some (sourceTransforms env pl)) x = (x1, None)"
  obtains q where "tx_Request x1 = ReqResponses q" "rq_InputItems q = rq_InputItems rq"
    "\<forall>t \<in> set (rq_Tools q). case t of RespFunction nm ps d \<Rightarrow> nm \<notin> NewToolBlockTransform names | RespBuiltin nm \<Rightarrow> True"
proof -
  let ?b = "NewToolBlockTransform names"
  let ?d = "if pl_DefaultMaxTokens pl > 0 then [\<lparr>tr_Name = ''max_tokens_default'', tr_Apply = MaxTokensDefault_Apply (pl_DefaultMaxTokens pl)\<rparr>] else []"
  have e: "executeLoop (map Some (?d @ [ToolBlock names])) x = (x1, None)"
    using assms(4) unfolding sourceTransforms_def assms(1,2) by (simp add: ruleTransform_def optionToList_def)
  then obtain x0 where x0: "executeLoop (map Some ?d) x = (x0, None)" "executeLoop (map Some [ToolBlock names]) x0 = (x1, None)"
    by (rule executeLoop_split)
  have "tx_Request x0 = ReqResponses rq"
    by (rule executeLoop_request [where P = "\<lambda>r. r = ReqResponses rq", OF x0(1) assms(3)])
      (auto simp: MaxTokensDefault_Apply_def split: if_splits)
  then have "tx_Request x1 = ReqResponses (if ?b = {} then rq else applyToolBlockResponses ?b rq)"
    using x0(2) by (auto simp: ToolBlock_def ToolBlock_Apply_def Let_def split: if_splits)
  moreover have "rq_InputItems (applyToolBlockResponses ?b rq) = rq_InputItems rq" by (simp add: applyToolBlockResponses_def)
  moreover have "\<forall>t \<in> set (rq_Tools (applyToolBlockResponses ?b rq)). case t of RespFunction nm ps d \<Rightarrow> nm \<notin> ?b | RespBuiltin nm \<Rightarrow> True"
    by (auto simp: applyToolBlockResponses_def split: respTool.splits)
  ultimately show ?thesis using that by (cases "?b = {}") (auto split: respTool.split)
qed



section \<open>A planned attempt converts\<close>

definition hasShape :: "string \<Rightarrow> requestUnion \<Rightarrow> bool" where
  "hasShape api rq \<longleftrightarrow>
     api = (case rq of
        ReqChat r \<Rightarrow> TypeOpenAIChat | ReqResponses r \<Rightarrow> TypeOpenAIResponses | ReqAnthropicV1 r \<Rightarrow> TypeAnthropicV1
      | ReqAnthropicBeta r \<Rightarrow> TypeAnthropicBeta | ReqGoogle r \<Rightarrow> TypeGoogle)"

definition convertible :: "string \<Rightarrow> string \<Rightarrow> bool" where
  "convertible source target \<longleftrightarrow>
     source = target \<or> target = TypeOpenAIChat \<or> target = TypeOpenAIResponses \<or>
     target = TypeAnthropicBeta \<and> source \<in> {TypeOpenAIChat, TypeOpenAIResponses} \<or> target = TypeGoogle \<and> source \<noteq> TypeOpenAIResponses"

lemma Base_converts:
  assumes "hasShape source (tx_Request x)" "source \<noteq> TypeGoogle" "convertible source target"
    "target \<in> {TypeOpenAIChat, TypeOpenAIResponses, TypeAnthropicV1, TypeAnthropicBeta, TypeGoogle}"
  shows "\<exists>x1. Base_Apply cn target x = (x1, None) \<and> hasShape target (tx_Request x1)"
proof (cases "tx_Request x")
  case (ReqChat r)
  then show ?thesis using assms
    by (auto simp: hasShape_def convertible_def Base_Apply_def convertToOpenAIChat_def convertToOpenAIResponses_def convertToAnthropicBeta_def
        convertToGoogle_def api_types Let_def)
next
  case (ReqResponses r)
  then show ?thesis using assms
    by (auto simp: hasShape_def convertible_def Base_Apply_def convertToOpenAIChat_def convertToOpenAIResponses_def convertToAnthropicBeta_def
        api_types Let_def)
next
  case (ReqAnthropicV1 r)
  then show ?thesis using assms
    by (auto simp: hasShape_def convertible_def Base_Apply_def convertToOpenAIChat_def convertToOpenAIResponses_def convertToAnthropicV1_def
        convertToGoogle_def api_types Let_def split: prod.split)
next
  case (ReqAnthropicBeta r)
  then show ?thesis using assms
    by (auto simp: hasShape_def convertible_def Base_Apply_def convertToOpenAIChat_def convertToOpenAIResponses_def convertToAnthropicBeta_def
        convertToGoogle_def api_types Let_def split: prod.split)
next
  case (ReqGoogle r)
  then show ?thesis using assms(1,2) by (simp add: hasShape_def)
qed

text \<open>
  C40 (type): planning and conversion agree.  Whatever provider, rule and flags an attempt is planned with, the request
  of its client can be converted to the target the plan has resolved: the conversion does not fail, its result is a
  request of the target's protocol, and the checks that follow it never reject it for being of another.
\<close>

theorem planned_attempt_converts:
  assumes "planAttempt tm d hdr probe rule p model src scenario sc = Inr pl"
    "src \<in> {TypeAnthropicV1, TypeAnthropicBeta, TypeOpenAIChat, TypeOpenAIResponses}" "hasShape src (tx_Request x)"
  shows "\<exists>x1. Base_Apply cn (pl_Target pl) x = (x1, None) \<and> hasShape (pl_Target pl) (tx_Request x1) \<and>
    (\<forall>m. snd (Consistency_Apply (pl_Target pl) x1) \<noteq> Some (ValidationError ''request'' m))"
proof -
  note f = planAttempt_Inr [OF assms(1)]
  have "convertible src (pl_Target pl) \<and> pl_Target pl \<in> {TypeOpenAIChat, TypeOpenAIResponses, TypeAnthropicV1, TypeAnthropicBeta, TypeGoogle}"
    using f(3) by (cases rule: target_cases) (use assms(2) in \<open>auto simp: convertible_def anthropicClient_def\<close>)
  moreover have "src \<noteq> TypeGoogle" using assms(2) by (auto simp: api_types)
  ultimately obtain x1 where x1: "Base_Apply cn (pl_Target pl) x = (x1, None)" "hasShape (pl_Target pl) (tx_Request x1)"
    using Base_converts [OF assms(3)] by blast
  have "snd (Consistency_Apply (pl_Target pl) x1) \<noteq> Some (ValidationError ''request'' m)" for m
    using x1(2) by (auto simp: hasShape_def Consistency_Apply_def normalizeChatCompletion_def normalizeResponses_def normalizeAnthropicV1_def
        normalizeAnthropicBeta_def validateChatCompletion_def validateResponses_def validateAnthropicCommon_def api_types Let_def
        split: requestUnion.splits)
  then show ?thesis using x1 by blast
qed

theorem planned_attempt_converts_witness:
  "\<exists>pl x1. planAttempt None 100 (\<lambda>h. []) (\<lambda>f. f) None dualProvider ''m'' TypeAnthropicBeta ''claude_code'' None = Inr pl \<and>
     Base_Apply (ce_Conversions sampleEnv) (pl_Target pl) (NewTransformContext (ReqAnthropicBeta sampleAnthropic) []) = (x1, None) \<and>
     hasShape (pl_Target pl) (tx_Request x1)"
proof -
  obtain pl where pl: "planAttempt None 100 (\<lambda>h. []) (\<lambda>f. f) None dualProvider ''m'' TypeAnthropicBeta ''claude_code'' None = Inr pl"
    using dualProvider_plan by blast
  have "hasShape TypeAnthropicBeta (tx_Request (NewTransformContext (ReqAnthropicBeta sampleAnthropic) []))"
    by (simp add: hasShape_def NewTransformContext_def)
  from planned_attempt_converts [OF pl _ this, of "ce_Conversions sampleEnv"] show ?thesis using pl by auto
qed

section \<open>Effort and budget\<close>

text \<open>Each effort's budget stands for that effort, and a budget within the ladder is served by an effort that has no less.\<close>

lemma effort_budget: "map_of BudgetMapping e = Some b \<Longrightarrow> EffortFromBudget b = e"
  by (auto simp: BudgetMapping_def EffortFromBudget_def split: if_splits)

lemma budget_effort: "b \<le> 31999 \<Longrightarrow> \<exists>c. map_of BudgetMapping (EffortFromBudget b) = Some c \<and> b \<le> c"
  by (auto simp: BudgetMapping_def EffortFromBudget_def)

section \<open>What the checks miss\<close>

text \<open>The checks of a Responses request are made only when the parameter is not set, and then its value is 0.\<close>

lemma validateResponses_accepts_all: "validateResponses r = None"
  by (cases "rq_Temperature r"; cases "rq_MaxOutputTokens r"; cases "rq_TopP r") (simp_all add: validateResponses_def optValue_def)

text \<open>An identifier of more than 40 bytes is cut in the tool message but not in the call it answers.\<close>

lemma long_identifier_unanswered:
  fixes i defines "i \<equiv> replicate 41 CHR ''a''"
  shows "chatAnswered [AssistantMessage (ContentString []) [\<lparr>fc_CallID = i, fc_Name = ''f'', fc_Arguments = ''{}''\<rparr>], ToolMessage (ContentString []) i] []"
    "\<not> chatAnswered (normalizeMessages
       [AssistantMessage (ContentString []) [\<lparr>fc_CallID = i, fc_Name = ''f'', fc_Arguments = ''{}''\<rparr>], ToolMessage (ContentString []) i]) []"
  unfolding i_def by code_simp+

text \<open>A tool message passes if any assistant message has its identifier, also one that comes after it.\<close>

lemma answer_before_call_kept:
  fixes ms defines "ms \<equiv> [ToolMessage (ContentString []) ''1'', AssistantMessage (ContentString []) [\<lparr>fc_CallID = ''1'', fc_Name = ''f'', fc_Arguments = ''{}''\<rparr>]]"
  shows "AlignToolMessagesForOpenAI ms = ms" "\<not> chatAnswered ms []"
  unfolding ms_def by code_simp+

end
