(* ===== verification/Spec2Isabelle.thy ===== *)
theory Spec2Isabelle
  imports TB_Prelude TB_Breaker TB_Health TB_Service TB_SmartRouting TB_Tactics TB_Affinity TB_LoadBalancer
    TB_Selector TB_Failover TB_Rules TB_Shell TB_Policy TB_Mask TB_Task TB_RateLimit TB_Session
    TB_Pool TB_Provider TB_Attempt TB_Stage TB_ToolRound TB_RoundStream
    TB_Usage TB_ChatStream TB_Responses TB_Transform
begin

text \<open>
  Tingly-box: a gateway between clients that speak one of several model protocols and the providers
  that serve the models.  A request names a model; a rule of its scenario gives the services,
  pairs of provider and model, that may answer it.  The gateway chooses one, masks protected
  credentials in the request, checks the tool calls of the conversation against guardrail policies,
  forwards the request and, while nothing has been sent to the client, tries other services when
  one fails.  This development models the decisions of that path.

  \<^bold>\<open>Reading.\<close>  A definition has the name of the Go function or type it models; a name that is used twice in
  the repository has its receiver in front.  A struct is a record, an enumeration a datatype, an
  error a value of a sum type, a nil pointer \<open>None\<close>.  A method that changes its receiver takes the
  state and returns it, and the body of a mutex is one step.  \<^verbatim>\<open>clock.Now()\<close> is the argument \<open>now\<close>, a
  random number comes from a supply, a Go map is an association list whose order stands for the
  order of iteration.  Strings are byte lists; integers are unbounded except where a theory says it
  keeps their 64 bits; floating-point numbers are rationals.  Logging is left out.

  \<^bold>\<open>Theories.\<close>
  \<^item> \<open>TB_Prelude\<close>: strings, numbers, times and maps of Go's library, with the lemmas all others share.
  \<^item> \<open>TB_Breaker\<close> (\<^verbatim>\<open>internal/loadbalance/breaker.go\<close>): the circuit breaker and the store of breakers per rule
    and service.  The state machine refines an abstract circuit; a half-open breaker admits one probe
    per open duration; it closes after the recovery threshold.  The locale \<open>breaker_registry\<close> states
    what the tier tactic needs of a breaker store.
  \<^item> \<open>TB_Health\<close> (\<^verbatim>\<open>health_monitor.go\<close>): rate limits and authorisation errors take a service out, and back in at
    the exact end of the window.
  \<^item> \<open>TB_Service\<close> (\<^verbatim>\<open>load_balancing.go\<close>): services, tier normalisation, statistics windows and percentiles.
  \<^item> \<open>TB_SmartRouting\<close> (\<^verbatim>\<open>internal/routing/smartrouting\<close>): conditions on requests; the first matching rule wins,
    validated operations never fail on their value.
  \<^item> \<open>TB_Tactics\<close> (\<^verbatim>\<open>internal/typ/tactics.go\<close>): the random, speed, capacity and tier algorithms; the tier
    algorithm picks from the highest-priority tier whose breakers let it, and the walk ends because
    each refused claim removes a candidate.
  \<^item> \<open>TB_Affinity\<close> (\<^verbatim>\<open>internal/protocolserver/affinity.go\<close>): pins of sessions to services; keys are injective, so
    pins do not touch each other.
  \<^item> \<open>TB_LoadBalancer\<close> (\<^verbatim>\<open>load_balance.go\<close>, \<^verbatim>\<open>health_filter.go\<close>): selection among the healthy services.
  \<^item> \<open>TB_Selector\<close> (\<^verbatim>\<open>internal/routing/selector.go\<close> and the stages): the pipeline health, smart routing, affinity,
    load balancing.  The result stays within the configured services, narrowing never ends in nothing
    while the rule has an active service, a session stays with its service.
  \<^item> \<open>TB_Failover\<close> (\<^verbatim>\<open>failover_dispatch.go\<close>): the gate that holds back the response until its first chunk, and
    the loop over services; exactly one response reaches the client, with nothing of the discarded ones.
  \<^item> \<open>TB_Rules\<close> (\<^verbatim>\<open>internal/config/rule.go\<close> and helpers): the rule list, its validation and normal forms, and the
    invariant every administrative operation keeps.
  \<^item> \<open>TB_Shell\<close> (\<^verbatim>\<open>internal/guardrails/core/command_shell.go\<close>): reading a shell command of a tool call.
  \<^item> \<open>TB_Policy\<close> (\<^verbatim>\<open>core/content.go\<close>, \<^verbatim>\<open>evaluate\<close>, \<^verbatim>\<open>load.go\<close>): policies, how a configuration builds them, the engine
    that combines their verdicts.  An accepted configuration always builds; the verdict depends only on
    the set of verdicts; a protected path is blocked.
  \<^item> \<open>TB_Mask\<close> (\<^verbatim>\<open>core/credential.go\<close>, \<^verbatim>\<open>credential_alias.go\<close>, \<^verbatim>\<open>mutate/anthropic_request_mask.go\<close>): credentials are replaced by
    aliases before a request leaves and restored in what comes back.
  \<^item> \<open>TB_Task\<close> (\<^verbatim>\<open>internal/task\<close>): background tasks as interleaved steps of goroutines; one run per key, no
    more runs than attempts, bounds of the retry delay.
  \<^item> \<open>TB_RateLimit\<close> (\<^verbatim>\<open>internal/middleware/ratelimit.go\<close>): failed logins per address; brute force is bounded by the window.
  \<^item> \<open>TB_Session\<close> (\<^verbatim>\<open>agentboot/persistent_session.go\<close>): a session with an agent process as interleaved steps of its callers and
    its pump; closing is final, a control request is answered at most once.
  \<^item> \<open>TB_Pool\<close> (\<^verbatim>\<open>agentboot/pool/pool.go\<close>): the pool of such sessions; capacity, and exactly when opening fails.
  \<^item> \<open>TB_Provider\<close> (\<^verbatim>\<open>ai/provider.go\<close>, \<^verbatim>\<open>ai/credential.go\<close>, \<^verbatim>\<open>internal/catalog/provider_catalog.go\<close>): provider records, their
    native endpoints and the catalog template a provider is matched to.
  \<^item> \<open>TB_Attempt\<close> (\<^verbatim>\<open>attempt_plan.go\<close>, \<^verbatim>\<open>protocol_endpoint.go\<close>, \<^verbatim>\<open>rule_flags.go\<close>): what one attempt resolves: the provider's
    endpoint, the protocol it is sent in, the flags and the transforms they select.
  \<^item> \<open>TB_Stage\<close> (\<^verbatim>\<open>internal/protocol/stage\<close>): endpoints, their composition from stages and the bridges between protocols; a
    composition is well-protocolled exactly when it is accepted, and a bridge loses no error and no usage.
  \<^item> \<open>TB_ToolRound\<close> (\<^verbatim>\<open>stage/toolround/toolround.go\<close>): the loop that runs the tools the server owns and asks the model again;
    bounded rounds, no owned call reaches the client, errors after tools ran are marked.
  \<^item> \<open>TB_RoundStream\<close> (\<^verbatim>\<open>stage/toolround/stream.go\<close>): the same loop for streamed answers; whatever its reader does, the events
    of all rounds form one well-formed message.
  \<^item> \<open>TB_Usage\<close> (\<^verbatim>\<open>ai/protocol.go\<close>, \<^verbatim>\<open>internal/protocol/usage\<close>, \<^verbatim>\<open>token/stream_counter.go\<close>): token counts between the protocols; what is
    written is read back as it was, and the upstream's numbers go before estimates.
  \<^item> \<open>TB_ChatStream\<close> (\<^verbatim>\<open>internal/protocol/stream/openai_to_anthropic_converter.go\<close>): streamed chat answers for Anthropic clients;
    what a client reads is in order, says what the provider said, and ends as the provider's stream did.
  \<^item> \<open>TB_Responses\<close> (\<^verbatim>\<open>internal/protocol/request\<close>: \<^verbatim>\<open>responses_tool_call_repair.go\<close>, \<^verbatim>\<open>openai_responses_to_chat.go\<close>): the repair of a
    replayed history, after which every call is answered, nothing is lost and a good history is as it was, and the
    conversion of Responses requests to Chat.
  \<^item> \<open>TB_Transform\<close> (\<^verbatim>\<open>internal/protocol/transform\<close>, \<^verbatim>\<open>protocolserver/protocol_transform.go\<close>, \<^verbatim>\<open>transform_max_tokens.go\<close>,
    \<^verbatim>\<open>thinking\<close>, \<^verbatim>\<open>ops/request_thinking.go\<close>): the chain of transforms of an attempt; it stops at the first error, the request
    it hands on keeps the limits of the model and the rules of its provider, and planning and conversion agree.

  \<^bold>\<open>Composition.\<close>  \<open>TB_Selector\<close> calls \<open>TB_LoadBalancer\<close>, \<open>TB_SmartRouting\<close> and \<open>TB_Affinity\<close>; \<open>TB_LoadBalancer\<close> calls \<open>TB_Health\<close> and
  \<open>TB_Tactics\<close>, which claims probes of \<open>TB_Breaker\<close>; \<open>TB_Failover\<close> calls \<open>TB_LoadBalancer\<close> for every retry.  They share one
  \<open>world\<close> of breakers, health records and random numbers.  \<open>TB_Policy\<close> reads commands with \<open>TB_Shell\<close>, and \<open>TB_Mask\<close> masks the
  contents \<open>TB_Policy\<close> evaluates.  \<open>TB_Pool\<close> holds sessions of \<open>TB_Session\<close>; \<open>TB_Attempt\<close> resolves providers with \<open>TB_Provider\<close>, and the
  chain of transforms a plan selects is run by \<open>TB_Transform\<close>, which converts requests with \<open>TB_Responses\<close>; the
  stage of \<open>TB_ToolRound\<close> and \<open>TB_RoundStream\<close> is one a chain of \<open>TB_Stage\<close> is composed of, and its committed errors are what keeps
  the failover from running tools twice.  The interfaces of the code are locales (\<open>breaker_registry\<close>, \<open>flat_tactic\<close>, \<open>affinity_store\<close>,
  \<open>selection_stage\<close>, \<open>evaluator\<close>, \<open>request_transform\<close>), each interpreted on the code's own provider.

  \<^bold>\<open>Termination.\<close>  Loops over lists are structural recursions.  The loop that draws random numbers until a breaker lets it is
  \<^verbatim>\<open>partial_function (option)\<close> and is proved to return; the failover loop counts its attempts, as the code does, and is
  proved to have enough of them; the loop of tool rounds ends because each round that goes on uses one up.  Reading a
  stream may wait for ever on its upstream, and is stated over the states its passes reach.  No fuel is used.

  \<^bold>\<open>Parameters.\<close>  Code that is not under \<^verbatim>\<open>src/\<close> is an argument: glob matching, regular expressions, JSON decoding, file
  reading, random identifiers, the forwarding of an attempt, the judge model, the tools of the owner, the accumulator
  of the vendor's library, the agent process; so are the conversions between protocols that are not modelled and the transforms
  of vendors and of server tools.  No law is assumed of them except that \<^verbatim>\<open>uuid.New\<close> returns an unused
  identifier, that a provider numbers the tool calls of one message apart, and, where a property says so, that tools and gates
  leave a counter of the upstream alone.

  \<^bold>\<open>Findings.\<close>  Where modelling showed the code to do something else than it means to, a lemma shows it on a
  concrete input; the sections at the end of the theories hold them.

  \<^bold>\<open>Not modelled.\<close>  The conversions between the protocols other than those of \<open>TB_Responses\<close> and \<open>TB_ChatStream\<close>, walks over the types of
  the vendors' libraries; the
  HTTP handlers, clients and databases; the command line, desktop and web front ends; the drivers of agents, bots and
  remote control; recording and metrics.  Of the modelled packages: the probe goroutine of the health
  monitor, the encodings of rules in JSON and SQL, the evidence maps of policies, a second start of the task
  manager in one process.
\<close>

end
